(* ===== verification/Prelude.thy ===== *)
theory Prelude
  imports Main "HOL-Library.AList" "HOL-Library.Word" "HOL-Library.List_Lexorder"
    "HOL-Library.Char_ord"
begin

text \<open>
  Shared vocabulary of the development.

  \<^item> The collections of the source. A \<open>HashMap\<close> is an association list whose order stands for
    the unspecified iteration order; a \<open>BTreeMap\<close> is an association list kept sorted by key; a
    \<open>BTreeSet\<close> is a strictly sorted list. The locale \<open>key_map\<close> states what the engine relies on
    from either map, and both representations interpret it.
  \<^item> Rust's bounded arithmetic where the source names it: \<open>saturating_add\<close> and
    \<open>saturating_mul\<close> on \<open>u32\<close> and \<open>u64\<close> values.
  \<^item> \<open>store_simps\<close> collects the equations the component proofs rewrite with.
\<close>

named_theorems store_simps \<open>rewrite rules of the store model\<close>

section \<open>Results\<close>

type_synonym ('e, 'a) result = "'e + 'a"

text \<open>\<open>is_some_and\<close> and \<open>is_none_or\<close> of \<open>Option\<close>.\<close>

definition is_some_and :: "'a option \<Rightarrow> ('a \<Rightarrow> bool) \<Rightarrow> bool" where
  "is_some_and x p = (case x of None \<Rightarrow> False | Some v \<Rightarrow> p v)"

definition is_none_or :: "'a option \<Rightarrow> ('a \<Rightarrow> bool) \<Rightarrow> bool" where
  "is_none_or x p = (case x of None \<Rightarrow> True | Some v \<Rightarrow> p v)"

definition opt_or :: "'a option \<Rightarrow> 'a option \<Rightarrow> 'a option" where
  "opt_or x y = (case x of None \<Rightarrow> y | Some v \<Rightarrow> Some v)"

lemma is_some_and_simps [simp]:
  "is_some_and None p = False" "is_some_and (Some v) p = p v"
  by (simp_all add: is_some_and_def)

lemma is_none_or_simps [simp]:
  "is_none_or None p = True" "is_none_or (Some v) p = p v"
  by (simp_all add: is_none_or_def)

lemma opt_or_simps [simp]:
  "opt_or None y = y" "opt_or (Some v) y = Some v" "opt_or x None = x"
  by (simp_all add: opt_or_def split: option.splits)

lemma opt_or_assoc: "opt_or (opt_or x y) z = opt_or x (opt_or y z)"
  by (cases x) simp_all

lemma opt_or_idem [simp]: "opt_or x (opt_or x y) = opt_or x y"
  by (cases x) simp_all

lemma find_append: "find p (xs @ ys) = (case find p xs of None \<Rightarrow> find p ys | Some x \<Rightarrow> Some x)"
  by (induction xs) simp_all

section \<open>Saturating arithmetic\<close>

definition u32_max :: nat where "u32_max = 2 ^ 32 - 1"

definition u64_max :: nat where "u64_max = 2 ^ 64 - 1"

definition sat_add :: "nat \<Rightarrow> nat \<Rightarrow> nat \<Rightarrow> nat" where
  "sat_add m a b = min m (a + b)"

definition sat_mul :: "nat \<Rightarrow> nat \<Rightarrow> nat \<Rightarrow> nat" where
  "sat_mul m a b = min m (a * b)"

lemma sat_add_le [simp]: "sat_add m a b \<le> m"
  by (simp add: sat_add_def)

lemma sat_mul_le [simp]: "sat_mul m a b \<le> m"
  by (simp add: sat_mul_def)

lemma sat_add_exact: "a + b \<le> m \<Longrightarrow> sat_add m a b = a + b"
  by (simp add: sat_add_def)

section \<open>Hash maps\<close>

type_synonym ('k, 'v) hash_map = "('k \<times> 'v) list"

abbreviation hm_get :: "('k, 'v) hash_map \<Rightarrow> 'k \<Rightarrow> 'v option" where
  "hm_get \<equiv> map_of"

abbreviation hm_insert :: "'k \<Rightarrow> 'v \<Rightarrow> ('k, 'v) hash_map \<Rightarrow> ('k, 'v) hash_map" where
  "hm_insert \<equiv> AList.update"

abbreviation hm_remove :: "'k \<Rightarrow> ('k, 'v) hash_map \<Rightarrow> ('k, 'v) hash_map" where
  "hm_remove \<equiv> AList.delete"

abbreviation hm_ok :: "('k, 'v) hash_map \<Rightarrow> bool" where
  "hm_ok m \<equiv> distinct (map fst m)"

abbreviation hm_keys :: "('k, 'v) hash_map \<Rightarrow> 'k list" where
  "hm_keys m \<equiv> map fst m"

text \<open>\<open>get_mut\<close> followed by an assignment through the reference.\<close>

definition hm_adjust :: "'k \<Rightarrow> ('v \<Rightarrow> 'v) \<Rightarrow> ('k, 'v) hash_map \<Rightarrow> ('k, 'v) hash_map" where
  "hm_adjust k f m = (case hm_get m k of None \<Rightarrow> m | Some v \<Rightarrow> hm_insert k (f v) m)"

text \<open>\<open>entry(k).or_default().push(v)\<close> on a map of vectors.\<close>

definition hm_push :: "'k \<Rightarrow> 'a \<Rightarrow> ('k, 'a list) hash_map \<Rightarrow> ('k, 'a list) hash_map" where
  "hm_push k v m = hm_insert k ((case hm_get m k of None \<Rightarrow> [] | Some l \<Rightarrow> l) @ [v]) m"

text \<open>A loop over \<open>values_mut\<close>.\<close>

definition map_values :: "('v \<Rightarrow> 'v) \<Rightarrow> ('k \<times> 'v) list \<Rightarrow> ('k \<times> 'v) list" where
  "map_values f m = map (\<lambda>(k, v). (k, f v)) m"

lemma hm_get_insert [simp]: "hm_get (hm_insert k v m) = (hm_get m)(k \<mapsto> v)"
  by (rule update_conv')

lemma hm_get_remove [simp]: "hm_get (hm_remove k m) = (hm_get m)(k := None)"
  by (rule delete_conv')

lemma hm_ok_insert [simp]: "hm_ok m \<Longrightarrow> hm_ok (hm_insert k v m)"
  by (rule distinct_update)

lemma hm_ok_remove [simp]: "hm_ok m \<Longrightarrow> hm_ok (hm_remove k m)"
  by (rule distinct_delete)

lemma hm_get_adjust [simp]:
  "hm_get (hm_adjust k f m) j = (if j = k then map_option f (hm_get m k) else hm_get m j)"
  by (auto simp: hm_adjust_def split: option.splits)

lemma hm_keys_update_present:
  "k \<in> fst ` set m \<Longrightarrow> map fst (AList.update k v m) = map fst m"
  by (induction m) auto

lemma hm_keys_adjust [simp]: "hm_keys (hm_adjust k f m) = hm_keys m"
proof (cases "hm_get m k")
  case None
  then show ?thesis by (simp add: hm_adjust_def)
next
  case (Some v)
  then have "k \<in> fst ` set m" by (force dest: map_of_SomeD)
  with Some show ?thesis by (simp add: hm_adjust_def hm_keys_update_present)
qed

lemma hm_get_push:
  "hm_get (hm_push k v m) j =
     (if j = k then Some ((case hm_get m k of None \<Rightarrow> [] | Some l \<Rightarrow> l) @ [v]) else hm_get m j)"
  by (simp add: hm_push_def)

lemma hm_ok_push [simp]: "hm_ok m \<Longrightarrow> hm_ok (hm_push k v m)"
  by (simp add: hm_push_def)

lemma hm_get_values [simp]: "hm_get (map_values f m) k = map_option f (hm_get m k)"
  by (induction m) (auto simp: map_values_def)

lemma hm_keys_values [simp]: "hm_keys (map_values f m) = hm_keys m"
  by (simp add: map_values_def case_prod_unfold)

lemma set_map_values: "set (map_values f m) = (\<lambda>(k, v). (k, f v)) ` set m"
  by (simp add: map_values_def)

lemma hm_get_mem: "hm_ok m \<Longrightarrow> (k, v) \<in> set m \<longleftrightarrow> hm_get m k = Some v"
  by (auto dest: map_of_SomeD)

lemma hm_mem_keys: "k \<in> set (hm_keys m) \<longleftrightarrow> (\<exists>v. hm_get m k = Some v)"
  by (metis domD domI dom_map_of_conv_image_fst image_set)

section \<open>Ordered maps\<close>

type_synonym ('k, 'v) btree_map = "('k \<times> 'v) list"

abbreviation bt_ok :: "('k::linorder, 'v) btree_map \<Rightarrow> bool" where
  "bt_ok m \<equiv> sorted_wrt (<) (map fst m)"

fun bt_insert :: "'k::linorder \<Rightarrow> 'v \<Rightarrow> ('k, 'v) btree_map \<Rightarrow> ('k, 'v) btree_map" where
  "bt_insert k v [] = [(k, v)]"
| "bt_insert k v ((j, w) # m) =
     (if k < j then (k, v) # (j, w) # m
      else if k = j then (k, v) # m
      else (j, w) # bt_insert k v m)"

definition bt_remove :: "'k \<Rightarrow> ('k, 'v) btree_map \<Rightarrow> ('k, 'v) btree_map" where
  "bt_remove k m = filter (\<lambda>p. fst p \<noteq> k) m"

lemma bt_get_insert [simp]: "map_of (bt_insert k v m) = (map_of m)(k \<mapsto> v)"
  by (induction k v m rule: bt_insert.induct) (auto simp: fun_eq_iff)

lemma bt_keys_insert [simp]: "fst ` set (bt_insert k v m) = insert k (fst ` set m)"
  by (induction k v m rule: bt_insert.induct) auto

lemma bt_ok_insert [simp]: "bt_ok m \<Longrightarrow> bt_ok (bt_insert k v m)"
proof (induction k v m rule: bt_insert.induct)
  case (2 k v j w m)
  have keys: "set (map fst (bt_insert k v m)) = insert k (set (map fst m))"
    using bt_keys_insert [of k v m] by simp
  show ?case
  proof (cases "j < k")
    case True
    with 2 keys show ?thesis by auto
  next
    case False
    with 2 show ?thesis by (cases "k = j") (auto intro: less_trans)
  qed
qed simp

lemma bt_get_remove [simp]: "map_of (bt_remove k m) = (map_of m)(k := None)"
  by (induction m) (auto simp: bt_remove_def fun_eq_iff)

lemma bt_ok_remove [simp]: "bt_ok m \<Longrightarrow> bt_ok (bt_remove k m)"
  by (induction m) (auto simp: bt_remove_def)

lemma bt_ok_distinct: "bt_ok m \<Longrightarrow> distinct (map fst m)"
  by (simp add: strict_sorted_iff)

lemma bt_insert_last:
  "\<forall>j \<in> fst ` set m. j < k \<Longrightarrow> bt_insert k v m = m @ [(k, v)]"
  by (induction m) (auto simp: less_imp_neq [THEN not_sym] dest: less_not_sym)

section \<open>The map interface\<close>

text \<open>
  What the engine relies on from a keyed collection: a lookup after an insertion or a removal,
  and the representation invariant both keep. The facts about loops of insertions are proved here
  once, from these laws alone.
\<close>

locale key_map =
  fixes get :: "'m \<Rightarrow> 'k \<Rightarrow> 'v option"
    and put :: "'k \<Rightarrow> 'v \<Rightarrow> 'm \<Rightarrow> 'm"
    and del :: "'k \<Rightarrow> 'm \<Rightarrow> 'm"
    and ok :: "'m \<Rightarrow> bool"
  assumes get_put: "get (put k v m) = (get m)(k \<mapsto> v)"
    and get_del: "get (del k m) = (get m)(k := None)"
    and ok_put: "ok m \<Longrightarrow> ok (put k v m)"
    and ok_del: "ok m \<Longrightarrow> ok (del k m)"
begin

lemma get_put_loop:
  "get (fold (\<lambda>r. put (kf r) (vf r)) rows m) k =
     (case find (\<lambda>r. kf r = k) (rev rows) of Some r \<Rightarrow> Some (vf r) | None \<Rightarrow> get m k)"
proof (induction rows arbitrary: m)
  case Nil
  then show ?case by simp
next
  case (Cons r rows)
  have snoc: "find P (xs @ [x]) = (case find P xs of None \<Rightarrow> (if P x then Some x else None) | Some y \<Rightarrow> Some y)"
    for P :: "'a \<Rightarrow> bool" and xs x by (induction xs) auto
  show ?case by (auto simp: Cons.IH get_put snoc split: option.splits)
qed

lemma get_put_loop_untouched:
  "k \<notin> kf ` set rows \<Longrightarrow> get (fold (\<lambda>r. put (kf r) (vf r)) rows m) k = get m k"
  by (induction rows arbitrary: m) (auto simp: get_put)

lemma get_del_loop:
  "get (fold del ks m) k = (if k \<in> set ks then None else get m k)"
  by (induction ks arbitrary: m) (auto simp: get_del)

lemma ok_put_loop: "ok m \<Longrightarrow> ok (fold (\<lambda>r. put (kf r) (vf r)) rows m)"
  by (induction rows arbitrary: m) (auto simp: ok_put)

lemma ok_del_loop: "ok m \<Longrightarrow> ok (fold del ks m)"
  by (induction ks arbitrary: m) (auto simp: ok_del)

lemma dom_put_loop:
  "dom (get (fold (\<lambda>r. put (kf r) (vf r)) rows m)) = dom (get m) \<union> kf ` set rows"
  by (induction rows arbitrary: m) (auto simp: get_put)

end

interpretation hash: key_map "map_of" "AList.update" "AList.delete" "\<lambda>m. distinct (map fst m)"
  by unfold_locales simp_all

interpretation btree: key_map "map_of" "bt_insert" "bt_remove" "\<lambda>m. sorted_wrt (<) (map fst m)"
  by unfold_locales simp_all

section \<open>Grouping rows by key\<close>

text \<open>
  \<open>group_by_key\<close> of \<open>mem/mod.rs\<close>: the rows of each key, in their order of appearance.
\<close>

definition group_by_key :: "('r \<Rightarrow> 'k) \<Rightarrow> 'r list \<Rightarrow> ('k, 'r list) hash_map" where
  "group_by_key key_of rows = fold (\<lambda>r. hm_push (key_of r) r) rows []"

lemma hm_get_push_loop:
  "hm_get (fold (\<lambda>r. hm_push (key_of r) r) rows m) k =
     (if filter (\<lambda>r. key_of r = k) rows = [] then hm_get m k
      else Some ((case hm_get m k of None \<Rightarrow> [] | Some l \<Rightarrow> l) @ filter (\<lambda>r. key_of r = k) rows))"
  by (induction rows arbitrary: m) (auto simp: hm_get_push split: option.splits)

lemma hm_get_group:
  "hm_get (group_by_key key_of rows) k =
     (if filter (\<lambda>r. key_of r = k) rows = [] then None
      else Some (filter (\<lambda>r. key_of r = k) rows))"
  by (simp add: group_by_key_def hm_get_push_loop)

lemma hm_ok_push_loop: "hm_ok m \<Longrightarrow> hm_ok (fold (\<lambda>r. hm_push (key_of r) r) rows m)"
  by (induction rows arbitrary: m) auto

lemma hm_ok_fold_push: "hm_ok m \<Longrightarrow> hm_ok (fold (\<lambda>x. hm_push (kf x) (vf x)) xs m)"
  by (induction xs arbitrary: m) auto

lemma hm_ok_group [simp]: "hm_ok (group_by_key key_of rows)"
  by (simp add: group_by_key_def hm_ok_push_loop)

text \<open>\<open>for (key, rows) in grouped { m.insert(key, rows) }\<close>.\<close>

definition hm_insert_all :: "('k, 'v) hash_map \<Rightarrow> ('k, 'v) hash_map \<Rightarrow> ('k, 'v) hash_map" where
  "hm_insert_all new m = fold (\<lambda>p. hm_insert (fst p) (snd p)) new m"

lemma hm_get_insert_all:
  "hm_ok new \<Longrightarrow> hm_get (hm_insert_all new m) k =
     (case hm_get new k of None \<Rightarrow> hm_get m k | Some v \<Rightarrow> Some v)"
proof (induction new arbitrary: m)
  case Nil
  then show ?case by (simp add: hm_insert_all_def)
next
  case (Cons p new)
  have "hm_get (hm_insert_all (p # new) m) k =
      (case hm_get new k of None \<Rightarrow> hm_get (hm_insert (fst p) (snd p) m) k | Some v \<Rightarrow> Some v)"
    using Cons by (simp add: hm_insert_all_def)
  moreover have "k = fst p \<Longrightarrow> hm_get new k = None"
    using Cons.prems by (auto simp: map_of_eq_None_iff)
  ultimately show ?case by (cases p) (auto split: option.splits)
qed

lemma hm_ok_insert_all [simp]: "hm_ok m \<Longrightarrow> hm_ok (hm_insert_all new m)"
  unfolding hm_insert_all_def by (rule hash.ok_put_loop)

text \<open>Replacing the rows of every key that has new ones, and leaving the others alone.\<close>

definition replace_rows :: "('r \<Rightarrow> 'k) \<Rightarrow> 'r list \<Rightarrow> ('k, 'r list) hash_map \<Rightarrow> ('k, 'r list) hash_map" where
  "replace_rows key_of rows m = hm_insert_all (group_by_key key_of rows) m"

lemma hm_get_replace_rows [store_simps]:
  "hm_get (replace_rows key_of rows m) k =
     (if k \<in> key_of ` set rows then Some (filter (\<lambda>r. key_of r = k) rows) else hm_get m k)"
  by (auto simp: replace_rows_def hm_get_insert_all hm_get_group filter_empty_conv)

lemma hm_ok_replace_rows [simp]: "hm_ok m \<Longrightarrow> hm_ok (replace_rows key_of rows m)"
  by (simp add: replace_rows_def)

section \<open>Ordered sets\<close>

type_synonym 'a btree_set = "'a list"

abbreviation bs_ok :: "'a::linorder btree_set \<Rightarrow> bool" where
  "bs_ok s \<equiv> sorted_wrt (<) s"

fun bs_insert :: "'a::linorder \<Rightarrow> 'a btree_set \<Rightarrow> 'a btree_set" where
  "bs_insert x [] = [x]"
| "bs_insert x (y # s) = (if x < y then x # y # s else if x = y then y # s else y # bs_insert x s)"

definition bs_remove :: "'a \<Rightarrow> 'a btree_set \<Rightarrow> 'a btree_set" where
  "bs_remove x s = filter (\<lambda>y. y \<noteq> x) s"

definition bs_extend :: "'a::linorder list \<Rightarrow> 'a btree_set \<Rightarrow> 'a btree_set" where
  "bs_extend xs s = fold bs_insert xs s"

definition bs_of :: "'a::linorder list \<Rightarrow> 'a btree_set" where
  "bs_of xs = bs_extend xs []"

lemma set_bs_insert [simp]: "set (bs_insert x s) = insert x (set s)"
  by (induction x s rule: bs_insert.induct) auto

lemma set_bs_remove [simp]: "set (bs_remove x s) = set s - {x}"
  by (auto simp: bs_remove_def)

lemma set_bs_extend [simp]: "set (bs_extend xs s) = set xs \<union> set s"
  by (induction xs arbitrary: s) (auto simp: bs_extend_def)

lemma set_bs_of [simp]: "set (bs_of xs) = set xs"
  by (simp add: bs_of_def)

lemma bs_ok_insert [simp]: "bs_ok s \<Longrightarrow> bs_ok (bs_insert x s)"
  by (induction x s rule: bs_insert.induct) (auto intro: less_trans)

lemma bs_ok_remove [simp]: "bs_ok s \<Longrightarrow> bs_ok (bs_remove x s)"
  by (induction s) (auto simp: bs_remove_def)

lemma bs_ok_extend [simp]: "bs_ok s \<Longrightarrow> bs_ok (bs_extend xs s)"
  by (induction xs arbitrary: s) (auto simp: bs_extend_def)

lemma bs_ok_of [simp]: "bs_ok (bs_of xs)"
  by (simp add: bs_of_def)

lemma bs_eqI: "bs_ok s \<Longrightarrow> bs_ok t \<Longrightarrow> set s = set t \<Longrightarrow> s = t"
  by (metis strict_sorted_equal)

text \<open>\<open>Iterator::min\<close>.\<close>

definition min_opt :: "'a::linorder list \<Rightarrow> 'a option" where
  "min_opt xs = (case xs of [] \<Rightarrow> None | y # ys \<Rightarrow> Some (fold min ys y))"

lemma min_opt_None [simp]: "min_opt xs = None \<longleftrightarrow> xs = []"
  by (simp add: min_opt_def split: list.splits)

lemma min_opt_Nil [simp]: "min_opt [] = None"
  by (simp add: min_opt_def)

lemma min_opt_Some: "xs \<noteq> [] \<Longrightarrow> min_opt xs = Some (Min (set xs))"
  by (cases xs) (simp_all add: min_opt_def Min.set_eq_fold del: list.set)

lemma min_opt_SomeD: "min_opt xs = Some x \<Longrightarrow> x \<in> set xs \<and> (\<forall>y \<in> set xs. x \<le> y)"
  by (cases "xs = []") (auto simp: min_opt_Some)

lemma min_opt_cong: "set xs = set ys \<Longrightarrow> min_opt xs = min_opt ys"
  by (cases "xs = []"; cases "ys = []") (auto simp: min_opt_Some)

section \<open>Scanning a list\<close>

lemma dropWhile_shorter: "dropWhile P xs = y # ys \<Longrightarrow> length ys < length xs"
  using length_dropWhile_le [of P xs] by simp

end
