(* ===== verification/Union_Find.thy ===== *)
theory Union_Find
  imports Prelude "HOL-Library.Multiset"
begin

text \<open>
  Grouping by shared labels with a union-find forest over a parent vector, as
  \<open>engine-store/src/mem/threading.rs\<close> does it (\<open>find\<close> with path compression, \<open>union\<close>, and the two
  loops of \<open>components\<close>).

  The two \<open>while\<close> loops of \<open>find\<close> end only on a forest, so they are partial functions: \<open>None\<close> is a loop
  that does not end or an index out of range. Both are shown to return on every forest, and \<open>union\<close>
  keeps it one.
\<close>

section \<open>The forest\<close>

partial_function (option) find_root :: "nat list \<Rightarrow> nat \<Rightarrow> nat option" where
  "find_root parent root =
     (if root < length parent
      then if parent ! root \<noteq> root then find_root parent (parent ! root) else Some root
      else None)"

partial_function (option) compress :: "nat list \<Rightarrow> nat \<Rightarrow> nat \<Rightarrow> nat list option" where
  "compress parent root node =
     (if node < length parent
      then if parent ! node \<noteq> root then compress (parent[node := root]) root (parent ! node) else Some parent
      else None)"

definition uf_find :: "nat list \<Rightarrow> nat \<Rightarrow> (nat \<times> nat list) option" where
  "uf_find parent index = (case find_root parent index of
      None \<Rightarrow> None
    | Some root \<Rightarrow> map_option (\<lambda>parent. (root, parent)) (compress parent root index))"

definition uf_union :: "nat list \<Rightarrow> nat \<Rightarrow> nat \<Rightarrow> nat list option" where
  "uf_union parent a b = (case uf_find parent a of
      None \<Rightarrow> None
    | Some (ra, parent) \<Rightarrow>
        (case uf_find parent b of
           None \<Rightarrow> None
         | Some (rb, parent) \<Rightarrow> Some (if ra \<noteq> rb then parent[ra := rb] else parent)))"

declare find_root.simps [code] compress.simps [code]

section \<open>Roots\<close>

inductive rep :: "nat list \<Rightarrow> nat \<Rightarrow> nat \<Rightarrow> bool" for p where
  rep_root: "i < length p \<Longrightarrow> p ! i = i \<Longrightarrow> rep p i i"
| rep_step: "i < length p \<Longrightarrow> p ! i \<noteq> i \<Longrightarrow> rep p (p ! i) r \<Longrightarrow> rep p i r"

definition uf_ok :: "nat list \<Rightarrow> bool" where
  "uf_ok p \<longleftrightarrow> (\<forall>i < length p. \<exists>r. rep p i r)"

lemma rep_facts: "rep p i r \<Longrightarrow> i < length p \<and> r < length p \<and> p ! r = r"
  by (induction rule: rep.induct) auto

lemma rep_find_root: "rep p i r \<longleftrightarrow> find_root p i = Some r"
proof
  show "rep p i r \<Longrightarrow> find_root p i = Some r"
    by (induction rule: rep.induct) (subst find_root.simps; simp)+
  assume "find_root p i = Some r"
  then show "rep p i r"
    by (rule find_root.raw_induct [rotated]) (auto split: if_splits intro: rep.intros)
qed

lemma rep_unique: "rep p i r \<Longrightarrow> rep p i r' \<Longrightarrow> r = r'"
  by (simp add: rep_find_root)

lemma rep_parent: "rep p i r \<Longrightarrow> rep p (p ! i) r"
  by (induction rule: rep.induct) (auto intro: rep.intros)

text \<open>Pointing a node at its own root changes no root.\<close>

lemma rep_shortcut:
  assumes "rep p n r" and "rep p i k"
  shows "rep (p[n := r]) i k"
  using assms(2)
proof (induction rule: rep.induct)
  case (rep_root i)
  have "p[n := r] ! i = i"
    using assms(1) rep.rep_root [OF rep_root] rep_unique rep_root
    by (cases "i = n") auto
  with rep_root show ?case by (intro rep.rep_root) auto
next
  case (rep_step i k)
  show ?case
  proof (cases "i = n")
    case True
    have rk: "r = k"
      using assms(1) True rep_step rep_unique rep.rep_step by metis
    have r: "r < length p" "p ! r = r" using rep_facts [OF assms(1)] by auto
    then have "r \<noteq> n" using True rep_step by auto
    with r have "rep (p[n := r]) r r" by (intro rep.rep_root) auto
    with True rep_step(1) rk \<open>r \<noteq> n\<close> show ?thesis by (auto intro: rep.rep_step)
  next
    case False
    with rep_step show ?thesis by (auto intro: rep.rep_step)
  qed
qed

text \<open>Pointing one root at another moves its whole tree and no other.\<close>

lemma rep_link:
  assumes "rep p a ra" and "rep p b rb" and "ra \<noteq> rb" and "rep p i k"
  shows "rep (p[ra := rb]) i (if k = ra then rb else k)"
  using assms(4)
proof (induction rule: rep.induct)
  case (rep_root i)
  have r: "ra < length p" "rb < length p" "p ! rb = rb"
    using rep_facts assms by blast+
  then have "rep (p[ra := rb]) rb rb" using assms(3) by (intro rep.rep_root) auto
  with rep_root assms(3) r show ?case by (auto intro: rep.intros)
next
  case (rep_step i k)
  have "i \<noteq> ra" using rep_facts [OF assms(1)] rep_step by auto
  then have "p[ra := rb] ! i = p ! i" by simp
  then show ?case
    using rep.rep_step [of i "p[ra := rb]"] rep_step by simp
qed

section \<open>Both loops return\<close>

lemma compress_spec:
  assumes "uf_ok p" and "rep p n r"
  shows "\<exists>p'. compress p r n = Some p' \<and> length p' = length p \<and>
    (\<forall>i k. rep p i k \<longrightarrow> rep p' i k)"
  using assms
proof (induction "card {j. j < length p \<and> p ! j \<noteq> r}" arbitrary: p n rule: less_induct)
  case less
  have n: "n < length p" using rep_facts [OF less.prems(2)] by simp
  show ?case
  proof (cases "p ! n = r")
    case True
    with n show ?thesis by (subst compress.simps) simp
  next
    case False
    let ?p = "p[n := r]"
    have keep: "rep ?p i k" if "rep p i k" for i k using rep_shortcut [OF less.prems(2) that] .
    have "{j. j < length ?p \<and> ?p ! j \<noteq> r} \<subset> {j. j < length p \<and> p ! j \<noteq> r}"
      using False n by (auto simp: nth_list_update)
    then have small: "card {j. j < length ?p \<and> ?p ! j \<noteq> r} < card {j. j < length p \<and> p ! j \<noteq> r}"
      by (intro psubset_card_mono) auto
    have "uf_ok ?p" using less.prems(1) keep unfolding uf_ok_def by (metis length_list_update)
    moreover have "rep ?p (p ! n) r" using keep rep_parent less.prems(2) by blast
    ultimately obtain p' where p': "compress ?p r (p ! n) = Some p'" "length p' = length ?p"
      "\<forall>i k. rep ?p i k \<longrightarrow> rep p' i k" using less.hyps [OF small] by blast
    have "compress p r n = Some p'" using False n p'(1) by (subst compress.simps) simp
    with p' keep show ?thesis by auto
  qed
qed

definition uf_root :: "nat list \<Rightarrow> nat \<Rightarrow> nat" where
  "uf_root p i = the (find_root p i)"

lemma uf_root_rep: "uf_ok p \<Longrightarrow> i < length p \<Longrightarrow> rep p i (uf_root p i)"
  unfolding uf_ok_def uf_root_def by (metis option.sel rep_find_root)

lemma rep_uf_root: "rep p i r \<Longrightarrow> uf_root p i = r"
  by (simp add: uf_root_def rep_find_root)

lemma uf_root_keep:
  assumes "uf_ok p" and "length p' = length p" and "\<And>i k. rep p i k \<Longrightarrow> rep p' i k"
  shows "uf_ok p'" "i < length p \<Longrightarrow> uf_root p' i = uf_root p i"
proof -
  show "uf_ok p'" using assms unfolding uf_ok_def by metis
  show "uf_root p' i = uf_root p i" if "i < length p"
    using rep_uf_root [OF assms(3) [OF uf_root_rep [OF assms(1) that]]] .
qed

lemma uf_find_spec:
  assumes "uf_ok p" and "i < length p"
  shows "\<exists>p'. uf_find p i = Some (uf_root p i, p') \<and> uf_ok p' \<and> length p' = length p \<and>
    (\<forall>j < length p. uf_root p' j = uf_root p j)"
proof -
  have r: "rep p i (uf_root p i)" by (rule uf_root_rep [OF assms])
  from compress_spec [OF assms(1) r] obtain p' where p': "compress p (uf_root p i) i = Some p'"
    "length p' = length p" "\<And>i k. rep p i k \<Longrightarrow> rep p' i k" by blast
  have "uf_find p i = Some (uf_root p i, p')"
    using r p'(1) by (simp add: uf_find_def rep_find_root)
  with p'(2) uf_root_keep [OF assms(1) p'(2,3)] show ?thesis by blast
qed

lemma uf_union_spec:
  assumes "uf_ok p" and "a < length p" and "b < length p"
  shows "\<exists>p'. uf_union p a b = Some p' \<and> uf_ok p' \<and> length p' = length p \<and>
    (\<forall>j < length p. uf_root p' j = (if uf_root p j = uf_root p a then uf_root p b else uf_root p j))"
proof -
  let ?ra = "uf_root p a" and ?rb = "uf_root p b"
  obtain p1 where p1: "uf_find p a = Some (?ra, p1)" "uf_ok p1" "length p1 = length p"
    "\<forall>j < length p. uf_root p1 j = uf_root p j" using uf_find_spec [OF assms(1,2)] by blast
  obtain p2 where p2: "uf_find p1 b = Some (?rb, p2)" "uf_ok p2" "length p2 = length p"
    "\<forall>j < length p. uf_root p2 j = uf_root p j"
    using uf_find_spec [OF p1(2), of b] p1 assms(3) by auto
  show ?thesis
  proof (cases "?ra = ?rb")
    case True
    then show ?thesis using p1 p2 by (auto simp: uf_union_def)
  next
    case False
    let ?p = "p2[?ra := ?rb]"
    have a: "rep p2 a ?ra" and b: "rep p2 b ?rb"
      using uf_root_rep [OF p2(2), of a] uf_root_rep [OF p2(2), of b] p2(3,4) assms by auto
    have link: "rep ?p j (if uf_root p j = ?ra then ?rb else uf_root p j)" if "j < length p" for j
    proof -
      have "uf_root p2 j = uf_root p j" using p2(4) that by simp
      then show ?thesis
        using rep_link [OF a b False uf_root_rep [OF p2(2), of j]] that p2(3) by (auto split: if_splits)
    qed
    have "uf_ok ?p" unfolding uf_ok_def using link p2(3) by auto
    moreover have "uf_root ?p j = (if uf_root p j = ?ra then ?rb else uf_root p j)" if "j < length p" for j
      using rep_uf_root [OF link [OF that]] .
    moreover have "uf_union p a b = Some ?p" using p1 p2 False by (simp add: uf_union_def)
    ultimately show ?thesis using p2(3) by auto
  qed
qed

lemma uf_ok_upt: "uf_ok [0..<n]" and uf_root_upt: "i < n \<Longrightarrow> uf_root [0..<n] i = i"
proof -
  have r: "rep [0..<n] i i" if "i < n" for i using that by (intro rep.rep_root) auto
  then show "uf_ok [0..<n]" by (auto simp: uf_ok_def)
  show "i < n \<Longrightarrow> uf_root [0..<n] i = i" using rep_uf_root [OF r] .
qed

section \<open>Grouping by shared labels\<close>

text \<open>
  The loops of \<open>components\<close>. The first goes over every label of every index and joins the index to the
  first one seen with that label; the second files each item under its root. Both are given the
  structure they run on, so what they compute rests on its laws alone.
\<close>

fun link_loop ::
  "('p \<Rightarrow> nat \<Rightarrow> nat \<Rightarrow> 'p option) \<Rightarrow> (nat \<times> 'l) list \<Rightarrow> 'p \<Rightarrow> ('l, nat) hash_map \<Rightarrow> 'p option" where
  "link_loop un [] parent seen = Some parent"
| "link_loop un ((index, l) # ps) parent seen =
     (case hm_get seen l of
        Some other \<Rightarrow>
          (case un parent index other of None \<Rightarrow> None | Some parent \<Rightarrow> link_loop un ps parent seen)
      | None \<Rightarrow> link_loop un ps parent (hm_insert l index seen))"

fun group_loop ::
  "('p \<Rightarrow> nat \<Rightarrow> (nat \<times> 'p) option) \<Rightarrow> (nat \<times> 'r) list \<Rightarrow> 'p \<Rightarrow> (nat, 'r list) hash_map \<Rightarrow>
   (nat, 'r list) hash_map option" where
  "group_loop fnd [] parent grouped = Some grouped"
| "group_loop fnd ((index, row) # rows) parent grouped =
     (case fnd parent index of
        None \<Rightarrow> None
      | Some (root, parent) \<Rightarrow> group_loop fnd rows parent (hm_push root row grouped))"

definition shares :: "(nat \<times> 'l) set \<Rightarrow> (nat \<times> nat) set" where
  "shares P = {(i, j). \<exists>l. (i, l) \<in> P \<and> (j, l) \<in> P}"

lemma shares_mono: "P \<subseteq> Q \<Longrightarrow> shares P \<subseteq> shares Q"
  by (auto simp: shares_def)

lemma shares_sym: "(i, j) \<in> (shares P)\<^sup>* \<Longrightarrow> (j, i) \<in> (shares P)\<^sup>*"
  by (rule symD [OF sym_rtrancl]) (auto simp: sym_def shares_def)

text \<open>
  What the loops rely on from a union-find structure: \<open>un\<close> joins the classes of two indices and \<open>fnd\<close>
  names the class of one, neither of which fails or changes anything else.
\<close>

locale partition_store =
  fixes root :: "'p \<Rightarrow> nat \<Rightarrow> nat"
    and ok :: "'p \<Rightarrow> bool"
    and dim :: "'p \<Rightarrow> nat"
    and un :: "'p \<Rightarrow> nat \<Rightarrow> nat \<Rightarrow> 'p option"
    and fnd :: "'p \<Rightarrow> nat \<Rightarrow> (nat \<times> 'p) option"
  assumes un_law: "ok p \<Longrightarrow> a < dim p \<Longrightarrow> b < dim p \<Longrightarrow>
      \<exists>p'. un p a b = Some p' \<and> ok p' \<and> dim p' = dim p \<and>
        (\<forall>j < dim p. root p' j = (if root p j = root p a then root p b else root p j))"
    and fnd_law: "ok p \<Longrightarrow> i < dim p \<Longrightarrow>
      \<exists>p'. fnd p i = Some (root p i, p') \<and> ok p' \<and> dim p' = dim p \<and>
        (\<forall>j < dim p. root p' j = root p j)"
begin

definition linked_by :: "(nat \<times> 'l) set \<Rightarrow> 'p \<Rightarrow> ('l, nat) hash_map \<Rightarrow> bool" where
  "linked_by P p seen \<longleftrightarrow> ok p \<and> (\<forall>(i, l) \<in> P. i < dim p \<and> hm_get seen l \<noteq> None) \<and>
     (\<forall>l k. hm_get seen l = Some k \<longrightarrow> (k, l) \<in> P) \<and>
     (\<forall>i < dim p. \<forall>j < dim p. root p i = root p j \<longleftrightarrow> (i, j) \<in> (shares P)\<^sup>*)"

lemma linked_by_new:
  assumes "linked_by P p seen" and "hm_get seen l = None" and "i < dim p"
  shows "linked_by (insert (i, l) P) p (hm_insert l i seen)"
proof -
  have none: "(x, l) \<notin> P" for x using assms(1,2) by (auto simp: linked_by_def)
  have "shares (insert (i, l) P) = insert (i, i) (shares P)"
    using none by (auto simp: shares_def)
  then have "(shares (insert (i, l) P))\<^sup>* = (shares P)\<^sup>*"
    by (metis (no_types, lifting) insert_subset r_into_rtrancl rtrancl.rtrancl_refl rtrancl_subset subset_insertI
        subsetI)
  with assms show ?thesis by (auto simp: linked_by_def)
qed

lemma linked_by_join:
  assumes inv: "linked_by P p seen" and seen: "hm_get seen l = Some k" and i: "i < dim p"
  shows "\<exists>p'. un p i k = Some p' \<and> dim p' = dim p \<and> linked_by (insert (i, l) P) p' seen"
proof -
  let ?P = "insert (i, l) P"
  have kl: "(k, l) \<in> P" and k: "k < dim p" and ok: "ok p"
    using inv seen by (auto simp: linked_by_def)
  have cls: "root p x = root p y \<longleftrightarrow> (x, y) \<in> (shares P)\<^sup>*" if "x < dim p" "y < dim p" for x y
    using inv that by (auto simp: linked_by_def)
  have inP: "x < dim p" if "(x, m) \<in> ?P" for x m using inv i that by (auto simp: linked_by_def)
  obtain p' where p': "un p i k = Some p'" "ok p'" "dim p' = dim p"
    and r: "\<And>j. j < dim p \<Longrightarrow> root p' j = (if root p j = root p i then root p k else root p j)"
    using un_law [OF ok i k] by blast
  have ik: "(i, k) \<in> shares ?P" "(k, i) \<in> shares ?P" using kl by (auto simp: shares_def)
  have up: "(shares P)\<^sup>* \<subseteq> (shares ?P)\<^sup>*" by (intro rtrancl_mono shares_mono) auto
  have to_k: "(x, k) \<in> (shares ?P)\<^sup>*" if "x < dim p" "root p x = root p i" for x
    using cls [OF that(1) i] that(2) up ik by (meson rtrancl.rtrancl_into_rtrancl subsetD)
  have sound: "(x, y) \<in> (shares ?P)\<^sup>*" if xy: "x < dim p" "y < dim p" "root p' x = root p' y" for x y
  proof -
    have rep_of: "\<exists>z. z < dim p \<and> (x, z) \<in> (shares ?P)\<^sup>* \<and> root p z = root p' x" if "x < dim p" for x
      using that to_k k r by (cases "root p x = root p i") auto
    from rep_of [OF xy(1)] rep_of [OF xy(2)] xy(3) obtain z w where
      "z < dim p" "w < dim p" "(x, z) \<in> (shares ?P)\<^sup>*" "(y, w) \<in> (shares ?P)\<^sup>*" "root p z = root p w"
      by metis
    with cls up shares_sym show ?thesis by (meson rtrancl_trans subsetD)
  qed
  have step: "root p' x = root p' y" if "(x, y) \<in> shares ?P" for x y
  proof -
    from that obtain m where m: "(x, m) \<in> ?P" "(y, m) \<in> ?P" by (auto simp: shares_def)
    have via_k: "root p' z = root p k" if "(z, l) \<in> ?P" for z
    proof (cases "z = i")
      case False
      with that kl have "(z, k) \<in> shares P" by (auto simp: shares_def)
      then have "root p z = root p k" using cls [OF inP [OF that] k] by blast
      with r [OF inP [OF that]] show ?thesis by simp
    qed (use r i in simp)
    show ?thesis
    proof (cases "m = l")
      case False
      with m have "(x, y) \<in> shares P" by (auto simp: shares_def)
      then have "root p x = root p y" using cls inP m by blast
      with r [OF inP [OF m(1)]] r [OF inP [OF m(2)]] show ?thesis by simp
    next
      case True
      with via_k m show ?thesis by simp
    qed
  qed
  have complete: "root p' x = root p' y" if "(x, y) \<in> (shares ?P)\<^sup>*" for x y
    using that by (induction rule: rtrancl_induct) (auto dest: step)
  have "linked_by ?P p' seen"
    unfolding linked_by_def
  proof (intro conjI allI impI ballI)
    show "ok p'" by (rule p')
    show "case x of (i, l) \<Rightarrow> i < dim p' \<and> hm_get seen l \<noteq> None" if "x \<in> ?P" for x
      using that inv seen i p'(3) by (auto simp: linked_by_def)
    show "(m, x) \<in> ?P" if "hm_get seen x = Some m" for x m
      using that inv by (auto simp: linked_by_def)
    show "root p' x = root p' y \<longleftrightarrow> (x, y) \<in> (shares ?P)\<^sup>*" if "x < dim p'" "y < dim p'" for x y
      using sound [of x y] complete [of x y] that p'(3) by auto
  qed
  with p' show ?thesis by blast
qed

lemma link_loop_spec:
  assumes "linked_by P p seen" and "\<forall>(i, l) \<in> set ps. i < dim p"
  shows "\<exists>p' seen'. link_loop un ps p seen = Some p' \<and> dim p' = dim p \<and> linked_by (P \<union> set ps) p' seen'"
  using assms
proof (induction ps arbitrary: P p seen)
  case Nil
  then show ?case by auto
next
  case (Cons x ps)
  obtain i l where x: "x = (i, l)" by force
  then have i: "i < dim p" using Cons.prems by auto
  show ?case
  proof (cases "hm_get seen l")
    case None
    from Cons.IH [OF linked_by_new [OF Cons.prems(1) None i]] Cons.prems(2) x None show ?thesis by auto
  next
    case (Some k)
    obtain p1 where p1: "un p i k = Some p1" "dim p1 = dim p" "linked_by (insert (i, l) P) p1 seen"
      using linked_by_join [OF Cons.prems(1) Some i] by blast
    from Cons.IH [OF p1(3)] p1 Cons.prems(2) x Some show ?thesis by auto
  qed
qed

lemma group_loop_spec:
  assumes "ok p" and "\<forall>(i, r) \<in> set rows. i < dim p" and "hm_ok grouped"
  shows "\<exists>g. group_loop fnd rows p grouped = Some g \<and> hm_ok g \<and>
    g = fold (\<lambda>(i, r). hm_push (root p i) r) rows grouped"
  using assms
proof (induction rows arbitrary: p grouped)
  case (Cons x rows)
  obtain i r where x: "x = (i, r)" by force
  then have i: "i < dim p" using Cons.prems by auto
  obtain p1 where p1: "fnd p i = Some (root p i, p1)" "ok p1" "dim p1 = dim p"
    "\<forall>j < dim p. root p1 j = root p j" using fnd_law [OF Cons.prems(1) i] by blast
  have same: "fold (\<lambda>(i, r). hm_push (root p1 i) r) rows g = fold (\<lambda>(i, r). hm_push (root p i) r) rows g" for g
    using Cons.prems(2) p1(4) by (intro fold_cong refl) (auto simp: x)
  show ?case
    using Cons.IH [of p1 "hm_push (root p i) r grouped"] Cons.prems p1 by (simp add: x same)
qed simp

end

interpretation forest: partition_store uf_root uf_ok length uf_union uf_find
  by unfold_locales (use uf_union_spec uf_find_spec in blast)+

section \<open>The groups as one list\<close>

lemma hm_get_push_values:
  "hm_get (fold (\<lambda>x. hm_push (kf x) (vf x)) xs m) k =
     (if filter (\<lambda>x. kf x = k) xs = [] then hm_get m k
      else Some ((case hm_get m k of None \<Rightarrow> [] | Some l \<Rightarrow> l) @ map vf (filter (\<lambda>x. kf x = k) xs)))"
  by (induction xs arbitrary: m) (auto simp: hm_get_push split: option.splits)

lemma mset_hm_insert:
  "mset (concat (map snd (hm_insert k l m))) + mset (case hm_get m k of None \<Rightarrow> [] | Some l' \<Rightarrow> l') =
     mset (concat (map snd m)) + mset l"
  by (induction m) (auto split: option.splits)

lemma mset_hm_push: "mset (concat (map snd (hm_push k v m))) = add_mset v (mset (concat (map snd m)))"
proof -
  let ?l = "case hm_get m k of None \<Rightarrow> [] | Some l \<Rightarrow> l"
  have "mset (concat (map snd (hm_push k v m))) + mset ?l = mset (concat (map snd m)) + mset (?l @ [v])"
    unfolding hm_push_def by (rule mset_hm_insert)
  then show ?thesis by simp
qed

lemma mset_push_values:
  "mset (concat (map snd (fold (\<lambda>x. hm_push (kf x) (vf x)) xs m))) =
     mset (map vf xs) + mset (concat (map snd m))"
  by (induction xs arbitrary: m) (simp_all add: mset_hm_push)

end
