(* ===== verification/Time_Model.thy ===== *)
theory Time_Model
  imports Prelude
begin

text \<open>
  Time as the store uses it (\<open>engine-core/src/time\<close>).

  A \<open>UtcDateTime\<close> wraps the \<open>PrimitiveDateTime\<close> of the \<open>time\<close> crate, whose order is
  chronological; an instant is its count of nanoseconds. Adding a span to one is that crate's
  \<open>checked_add\<close>, a parameter of every definition that needs it (\<open>pdt_add\<close>: an instant, the
  span's seconds and its nanoseconds); what is relied on of it is \<open>time_lib\<close>.

  Two kinds of span: the standard library's \<open>Duration\<close> (\<open>std_duration\<close>, elapsed seconds and
  nanoseconds, ordered lexicographically) and the engine's ISO 8601 \<open>Duration\<close> (\<open>duration\<close>, a
  nominal day part beside an absolute part).
\<close>

type_synonym instant = int

type_synonym pdt_add = "instant \<Rightarrow> int \<Rightarrow> int \<Rightarrow> instant option"

definition time_lib :: "pdt_add \<Rightarrow> bool" where
  "time_lib padd \<longleftrightarrow> (\<forall>t s n t'. padd t s n = Some t' \<longrightarrow> t' = t + s * 10 ^ 9 + n)"

section \<open>Elapsed spans\<close>

datatype std_duration = StdDuration (as_secs: nat) (subsec_nanos: nat)

instantiation std_duration :: linorder
begin

definition less_eq_std_duration :: "std_duration \<Rightarrow> std_duration \<Rightarrow> bool" where
  "less_eq_std_duration a b \<longleftrightarrow>
     as_secs a < as_secs b \<or> as_secs a = as_secs b \<and> subsec_nanos a \<le> subsec_nanos b"

definition less_std_duration :: "std_duration \<Rightarrow> std_duration \<Rightarrow> bool" where
  "less_std_duration a b \<longleftrightarrow>
     as_secs a < as_secs b \<or> as_secs a = as_secs b \<and> subsec_nanos a < subsec_nanos b"

instance
  by standard
    (auto simp: less_eq_std_duration_def less_std_duration_def std_duration.expand)

end

definition std_ok :: "std_duration \<Rightarrow> bool" where
  "std_ok d \<longleftrightarrow> as_secs d \<le> u64_max \<and> subsec_nanos d < 10 ^ 9"

definition std_nanos :: "std_duration \<Rightarrow> nat" where
  "std_nanos d = as_secs d * 10 ^ 9 + subsec_nanos d"

text \<open>
  \<open>Duration::new\<close>, carrying whole seconds out of the nanosecond argument; the standard library
  panics where that carry overflows, which needs a nanosecond argument of \<open>10 ^ 9\<close> or more and no
  caller here passes one.
\<close>

definition std_new :: "nat \<Rightarrow> nat \<Rightarrow> std_duration" where
  "std_new secs nanos = StdDuration (secs + nanos div 10 ^ 9) (nanos mod 10 ^ 9)"

definition std_max :: std_duration where
  "std_max = StdDuration u64_max (10 ^ 9 - 1)"

definition std_saturating_mul :: "std_duration \<Rightarrow> nat \<Rightarrow> std_duration" where
  "std_saturating_mul d n =
     (let total = subsec_nanos d * n;
          secs = as_secs d * n + total div 10 ^ 9
      in if secs \<le> u64_max then StdDuration secs (total mod 10 ^ 9) else std_max)"

lemma std_duration_le_nanos:
  "std_ok a \<Longrightarrow> std_ok b \<Longrightarrow> a \<le> b \<longleftrightarrow> std_nanos a \<le> std_nanos b"
  unfolding std_ok_def less_eq_std_duration_def std_nanos_def by auto

section \<open>ISO 8601 durations\<close>

record duration =
  dur_days :: nat
  dur_seconds :: nat
  dur_nanoseconds :: nat

definition dur_ok :: "duration \<Rightarrow> bool" where
  "dur_ok d \<longleftrightarrow> dur_days d \<le> u64_max \<and> dur_seconds d \<le> u64_max \<and> dur_nanoseconds d < 10 ^ 9"

definition duration_zero :: duration where
  "duration_zero = \<lparr>dur_days = 0, dur_seconds = 0, dur_nanoseconds = 0\<rparr>"

definition duration_is_zero :: "duration \<Rightarrow> bool" where
  "duration_is_zero d \<longleftrightarrow> dur_days d = 0 \<and> dur_seconds d = 0 \<and> dur_nanoseconds d = 0"

definition checked_add_u64 :: "nat \<Rightarrow> nat \<Rightarrow> nat option" where
  "checked_add_u64 a b = (if a + b \<le> u64_max then Some (a + b) else None)"

definition checked_mul_u64 :: "nat \<Rightarrow> nat \<Rightarrow> nat option" where
  "checked_mul_u64 a b = (if a * b \<le> u64_max then Some (a * b) else None)"

text \<open>\<open>Duration::from_parts\<close>; \<open>None\<close> is \<open>TimeError::OutOfRange\<close>.\<close>

definition duration_from_parts ::
  "nat \<Rightarrow> nat \<Rightarrow> nat \<Rightarrow> nat \<Rightarrow> nat \<Rightarrow> nat \<Rightarrow> duration option" where
  "duration_from_parts weeks days hours minutes seconds nanoseconds =
     (if nanoseconds \<ge> 10 ^ 9 then None
      else case Option.bind (checked_mul_u64 weeks 7) (\<lambda>w. checked_add_u64 w days) of
        None \<Rightarrow> None
      | Some d \<Rightarrow>
         (case Option.bind
             (Option.bind (checked_mul_u64 hours 3600)
               (\<lambda>h. Option.bind (checked_mul_u64 minutes 60) (\<lambda>m. checked_add_u64 h m)))
             (\<lambda>hm. checked_add_u64 hm seconds) of
            None \<Rightarrow> None
          | Some s \<Rightarrow> Some \<lparr>dur_days = d, dur_seconds = s, dur_nanoseconds = nanoseconds\<rparr>))"

lemma duration_from_parts_SomeD:
  assumes "duration_from_parts w d h m s n = Some r"
  shows "dur_ok r \<and> dur_days r = 7 * w + d \<and> dur_seconds r = 3600 * h + 60 * m + s \<and>
    dur_nanoseconds r = n"
  using assms
  by (auto simp: duration_from_parts_def checked_mul_u64_def checked_add_u64_def dur_ok_def
      split: if_splits option.splits)

section \<open>Instants\<close>

text \<open>
  \<open>UtcDateTime::checked_add\<close> and \<open>checked_sub\<close>: the span's seconds must fit an \<open>i64\<close> and its
  nanoseconds an \<open>i32\<close> before the crate's operation sees them.
\<close>

definition utc_checked_add :: "pdt_add \<Rightarrow> instant \<Rightarrow> std_duration \<Rightarrow> instant option" where
  "utc_checked_add padd t span =
     (if as_secs span \<le> 2 ^ 63 - 1 \<and> subsec_nanos span \<le> 2 ^ 31 - 1
      then padd t (int (as_secs span)) (int (subsec_nanos span)) else None)"

definition utc_checked_sub :: "pdt_add \<Rightarrow> instant \<Rightarrow> std_duration \<Rightarrow> instant option" where
  "utc_checked_sub psub t span =
     (if as_secs span \<le> 2 ^ 63 - 1 \<and> subsec_nanos span \<le> 2 ^ 31 - 1
      then psub t (int (as_secs span)) (int (subsec_nanos span)) else None)"

lemma utc_checked_add_SomeD:
  "time_lib padd \<Longrightarrow> utc_checked_add padd t d = Some t' \<Longrightarrow> t' = t + int (std_nanos d)"
  by (fastforce simp: utc_checked_add_def time_lib_def std_nanos_def split: if_splits)

lemma utc_checked_add_ge:
  "time_lib padd \<Longrightarrow> utc_checked_add padd t d = Some t' \<Longrightarrow> t \<le> t'"
  by (drule (1) utc_checked_add_SomeD) simp

text \<open>A concrete instance of the crate's addition, over its default year range.\<close>

definition pdt_add_ref :: pdt_add where
  "pdt_add_ref t s n =
     (let t' = t + s * 10 ^ 9 + n in
      if \<bar>t'\<bar> \<le> 253402300800 * 10 ^ 9 then Some t' else None)"

lemma time_lib_ref [simp]: "time_lib pdt_add_ref"
  by (simp add: time_lib_def pdt_add_ref_def Let_def)

section \<open>Windows\<close>

text \<open>
  \<open>Horizon\<close> and \<open>ExpansionWindow\<close> (\<open>time/horizon.rs\<close>); \<open>None\<close> is \<open>TimeError::EmptyRange\<close>.
\<close>

record horizon =
  hz_start :: instant
  hz_end :: instant

definition horizon_new :: "instant \<Rightarrow> instant \<Rightarrow> horizon option" where
  "horizon_new s e = (if s \<ge> e then None else Some \<lparr>hz_start = s, hz_end = e\<rparr>)"

text \<open>\<open>Horizon::overlaps\<close>.\<close>

definition horizon_overlaps :: "horizon \<Rightarrow> instant \<Rightarrow> instant \<Rightarrow> bool" where
  "horizon_overlaps h s e =
     (if s = e then s \<ge> hz_start h \<and> s < hz_end h else s < hz_end h \<and> e > hz_start h)"

text \<open>The instants an occurrence spanning \<open>[s, e)\<close> covers: a zero-length one is a point.\<close>

definition covered :: "instant \<Rightarrow> instant \<Rightarrow> instant set" where
  "covered s e = (if s = e then {s} else {s..<e})"

lemma horizon_overlaps_iff:
  assumes "horizon_new a b = Some h" "s \<le> e"
  shows "horizon_overlaps h s e \<longleftrightarrow> covered s e \<inter> {a..<b} \<noteq> {}"
proof -
  have h: "hz_start h = a" "hz_end h = b" "a < b"
    using assms(1) by (auto simp: horizon_new_def split: if_splits)
  show ?thesis
  proof (cases "s = e")
    case True
    then show ?thesis using h by (auto simp: horizon_overlaps_def covered_def)
  next
    case False
    with assms(2) have "s < e" by simp
    then have "s < b \<and> a < e \<Longrightarrow> max s a \<in> {s..<e} \<inter> {a..<b}" using h(3) by auto
    with False h show ?thesis
      by (auto simp: horizon_overlaps_def covered_def)
  qed
qed

datatype time_zone_id = Iana string | Custom string

record expansion_window =
  ew_horizon :: horizon
  ew_zone :: time_zone_id

end
