(* ===== verification/Ids_Scopes.thy ===== *)
theory Ids_Scopes
  imports Prelude
begin

text \<open>
  Identities, sync scopes and failure classes (\<open>engine-core/src/ids\<close>, \<open>sync/scope.rs\<close>,
  \<open>sync/state.rs\<close>, \<open>error.rs\<close>). The string newtypes of the source are strings here; a string
  is its UTF-8 bytes, so the library's lexicographic order on lists is \<open>str\<close>'s order.
\<close>

type_synonym account_id = string
type_synonym provider_key = string
type_synonym thread_id = string
type_synonym mailbox_id = string
type_synonym message_id_header = string
type_synonym sync_state = string
type_synonym collection_tag = string
type_synonym worker_id = string

text \<open>\<open>ThreadId::try_from(&str)\<close>: only the empty string is refused.\<close>

definition thread_id_try_from :: "string \<Rightarrow> thread_id option" where
  "thread_id_try_from s = (if s = [] then None else Some s)"

section \<open>Failure classes\<close>

datatype failure_class = Retryable | RateLimited | Authentication | FConflict | InvalidState
  | NeedsResync | Permanent

fun is_retryable :: "failure_class \<Rightarrow> bool" where
  "is_retryable Retryable = True"
| "is_retryable RateLimited = True"
| "is_retryable _ = False"

fun requires_resync :: "failure_class \<Rightarrow> bool" where
  "requires_resync NeedsResync = True"
| "requires_resync _ = False"

lemma retry_not_resync: "is_retryable c \<Longrightarrow> \<not> requires_resync c"
  by (cases c) auto

section \<open>Sync scopes\<close>

datatype jmap_data_type = JEmail | JMailbox | JThread | JEmailSubmission | JCalendar
  | JCalendarEvent | JAddressBook | JContactCard | JOther string

fun jmap_is_container :: "jmap_data_type \<Rightarrow> bool" where
  "jmap_is_container JMailbox = True"
| "jmap_is_container JCalendar = True"
| "jmap_is_container JAddressBook = True"
| "jmap_is_container _ = False"

datatype sync_scope =
    JmapType account_id jmap_data_type
  | ImapMailboxList account_id
  | ImapMailbox account_id mailbox_id
  | DavCollectionList account_id
  | DavCollection account_id string
  | GraphFolderList account_id
  | GraphFolder account_id mailbox_id
  | GraphCalendarList account_id
  | GraphCalendar account_id string
  | GraphContactFolderList account_id
  | GraphContacts account_id string
  | GraphOrgContacts account_id
  | GraphDirectoryUsers account_id
  | GmailMessages account_id
  | GmailLabelList account_id
  | GoogleCalendarList account_id
  | GoogleCalendar account_id string
  | GoogleContactSourceList account_id
  | GoogleContacts account_id
  | GoogleOtherContacts account_id
  | GoogleDirectoryPeople account_id
  | GoogleContactGroups account_id
  | CardDavAddressBookList account_id
  | CardDavAddressBook account_id string

datatype search_domain = DMail | DCalendar | DContacts

datatype object_kind = KMailbox | KMessage | KCalendar | KEvent | KAddressBook | KContactCard

fun scope_account :: "sync_scope \<Rightarrow> account_id" where
  "scope_account (JmapType a _) = a"
| "scope_account (ImapMailboxList a) = a"
| "scope_account (ImapMailbox a _) = a"
| "scope_account (DavCollectionList a) = a"
| "scope_account (DavCollection a _) = a"
| "scope_account (GraphFolderList a) = a"
| "scope_account (GraphFolder a _) = a"
| "scope_account (GraphCalendarList a) = a"
| "scope_account (GraphCalendar a _) = a"
| "scope_account (GraphContactFolderList a) = a"
| "scope_account (GraphContacts a _) = a"
| "scope_account (GraphOrgContacts a) = a"
| "scope_account (GraphDirectoryUsers a) = a"
| "scope_account (GmailMessages a) = a"
| "scope_account (GmailLabelList a) = a"
| "scope_account (GoogleCalendarList a) = a"
| "scope_account (GoogleCalendar a _) = a"
| "scope_account (GoogleContactSourceList a) = a"
| "scope_account (GoogleContacts a) = a"
| "scope_account (GoogleOtherContacts a) = a"
| "scope_account (GoogleDirectoryPeople a) = a"
| "scope_account (GoogleContactGroups a) = a"
| "scope_account (CardDavAddressBookList a) = a"
| "scope_account (CardDavAddressBook a _) = a"

fun scope_folder :: "sync_scope \<Rightarrow> mailbox_id option" where
  "scope_folder (ImapMailbox _ m) = Some m"
| "scope_folder (GraphFolder _ f) = Some f"
| "scope_folder _ = None"

fun scope_object_kind :: "sync_scope \<Rightarrow> object_kind option" where
  "scope_object_kind (JmapType _ JEmail) = Some KMessage"
| "scope_object_kind (JmapType _ JMailbox) = Some KMailbox"
| "scope_object_kind (JmapType _ JCalendarEvent) = Some KEvent"
| "scope_object_kind (JmapType _ JCalendar) = Some KCalendar"
| "scope_object_kind (JmapType _ JContactCard) = Some KContactCard"
| "scope_object_kind (JmapType _ JAddressBook) = Some KAddressBook"
| "scope_object_kind (JmapType _ _) = None"
| "scope_object_kind (ImapMailbox _ _) = Some KMessage"
| "scope_object_kind (GraphFolder _ _) = Some KMessage"
| "scope_object_kind (GmailMessages _) = Some KMessage"
| "scope_object_kind (ImapMailboxList _) = Some KMailbox"
| "scope_object_kind (GraphFolderList _) = Some KMailbox"
| "scope_object_kind (GmailLabelList _) = Some KMailbox"
| "scope_object_kind (DavCollection _ _) = Some KEvent"
| "scope_object_kind (GraphCalendar _ _) = Some KEvent"
| "scope_object_kind (GoogleCalendar _ _) = Some KEvent"
| "scope_object_kind (DavCollectionList _) = Some KCalendar"
| "scope_object_kind (GraphCalendarList _) = Some KCalendar"
| "scope_object_kind (GoogleCalendarList _) = Some KCalendar"
| "scope_object_kind (GraphContacts _ _) = Some KContactCard"
| "scope_object_kind (GraphOrgContacts _) = Some KContactCard"
| "scope_object_kind (GraphDirectoryUsers _) = Some KContactCard"
| "scope_object_kind (GoogleContacts _) = Some KContactCard"
| "scope_object_kind (GoogleOtherContacts _) = Some KContactCard"
| "scope_object_kind (GoogleDirectoryPeople _) = Some KContactCard"
| "scope_object_kind (GoogleContactGroups _) = Some KContactCard"
| "scope_object_kind (CardDavAddressBook _ _) = Some KContactCard"
| "scope_object_kind (GraphContactFolderList _) = Some KAddressBook"
| "scope_object_kind (GoogleContactSourceList _) = Some KAddressBook"
| "scope_object_kind (CardDavAddressBookList _) = Some KAddressBook"

definition scope_search_domain :: "sync_scope \<Rightarrow> search_domain option" where
  "scope_search_domain s = (case scope_object_kind s of
      Some KMessage \<Rightarrow> Some DMail
    | Some KEvent \<Rightarrow> Some DCalendar
    | Some KContactCard \<Rightarrow> Some DContacts
    | _ \<Rightarrow> None)"

fun scope_domain :: "sync_scope \<Rightarrow> search_domain option" where
  "scope_domain (JmapType _ t) = (case t of
      JEmail \<Rightarrow> Some DMail | JMailbox \<Rightarrow> Some DMail | JThread \<Rightarrow> Some DMail
    | JEmailSubmission \<Rightarrow> Some DMail
    | JCalendar \<Rightarrow> Some DCalendar | JCalendarEvent \<Rightarrow> Some DCalendar
    | JAddressBook \<Rightarrow> Some DContacts | JContactCard \<Rightarrow> Some DContacts
    | JOther _ \<Rightarrow> None)"
| "scope_domain (ImapMailboxList _) = Some DMail"
| "scope_domain (ImapMailbox _ _) = Some DMail"
| "scope_domain (GraphFolderList _) = Some DMail"
| "scope_domain (GraphFolder _ _) = Some DMail"
| "scope_domain (GmailMessages _) = Some DMail"
| "scope_domain (GmailLabelList _) = Some DMail"
| "scope_domain (DavCollectionList _) = Some DCalendar"
| "scope_domain (DavCollection _ _) = Some DCalendar"
| "scope_domain (GraphCalendarList _) = Some DCalendar"
| "scope_domain (GraphCalendar _ _) = Some DCalendar"
| "scope_domain (GoogleCalendarList _) = Some DCalendar"
| "scope_domain (GoogleCalendar _ _) = Some DCalendar"
| "scope_domain (GraphContactFolderList _) = Some DContacts"
| "scope_domain (GraphContacts _ _) = Some DContacts"
| "scope_domain (GraphOrgContacts _) = Some DContacts"
| "scope_domain (GraphDirectoryUsers _) = Some DContacts"
| "scope_domain (GoogleContactSourceList _) = Some DContacts"
| "scope_domain (GoogleContacts _) = Some DContacts"
| "scope_domain (GoogleOtherContacts _) = Some DContacts"
| "scope_domain (GoogleDirectoryPeople _) = Some DContacts"
| "scope_domain (GoogleContactGroups _) = Some DContacts"
| "scope_domain (CardDavAddressBookList _) = Some DContacts"
| "scope_domain (CardDavAddressBook _ _) = Some DContacts"

text \<open>
  The searchable domain of a scope never disagrees with the domain it is forgotten under, and a
  scope without a domain is a JMAP data type this build does not know.
\<close>

lemma search_domain_in_domain: "scope_search_domain s = Some d \<Longrightarrow> scope_domain s = Some d"
  by (cases s rule: scope_object_kind.cases) (auto simp: scope_search_domain_def)

lemma scope_domain_None_iff: "scope_domain s = None \<longleftrightarrow> (\<exists>a x. s = JmapType a (JOther x))"
  by (cases s) (auto split: jmap_data_type.splits)

lemma folder_scope_kind: "scope_folder s = Some f \<Longrightarrow> scope_object_kind s = Some KMessage"
  by (cases s) auto

end
