(* ===== verification/Mail_Rows.thy ===== *)
theory Mail_Rows
  imports Time_Model Ids_Scopes
begin

text \<open>
  Keywords, revision tokens, and the derived rows a sync writes (\<open>engine-core/src/mail\<close>,
  \<open>version.rs\<close>, \<open>search_index\<close>, and \<open>DerivedWrite\<close> of \<open>engine-store/src/apply.rs\<close>).
\<close>

section \<open>Keywords and flags\<close>

type_synonym keyword = string

datatype keyword_error = KwEmpty | KwTooLong nat | KwInvalidCharacter char

definition keyword_max_len :: nat where "keyword_max_len = 255"

definition kw_forbidden :: "char list" where
  "kw_forbidden = [CHR ''('', CHR '')'', CHR ''{'', CHR '']'', CHR ''%'', CHR ''*'', CHR 0x22, CHR 0x5C]"

definition kw_bad_byte :: "char \<Rightarrow> bool" where
  "kw_bad_byte b \<longleftrightarrow>
     \<not> (0x21 \<le> (of_char b :: nat) \<and> (of_char b :: nat) \<le> 0x7e) \<or> b \<in> set kw_forbidden"

definition ascii_lower :: "char \<Rightarrow> char" where
  "ascii_lower c = (if 65 \<le> (of_char c :: nat) \<and> (of_char c :: nat) \<le> 90
     then char_of ((of_char c :: nat) + 32) else c)"

text \<open>
  \<open>str::chars().count()\<close>: the bytes that do not continue a UTF-8 sequence.
\<close>

definition utf8_chars :: "string \<Rightarrow> nat" where
  "utf8_chars s = length (filter (\<lambda>b. \<not> (128 \<le> (of_char b :: nat) \<and> (of_char b :: nat) < 192)) s)"

definition keyword_new :: "string \<Rightarrow> (keyword_error, keyword) result" where
  "keyword_new value =
     (if value = [] then Inl KwEmpty
      else if length value > keyword_max_len then Inl (KwTooLong (utf8_chars value))
      else case find kw_bad_byte value of
        Some b \<Rightarrow> Inl (KwInvalidCharacter b)
      | None \<Rightarrow> Inr (map ascii_lower value))"

datatype system_keyword = SkDraft | SkSeen | SkFlagged | SkAnswered | SkForwarded | SkJunk
  | SkNotJunk | SkPhishing | SkMdnSent

fun system_as_str :: "system_keyword \<Rightarrow> string" where
  "system_as_str SkDraft = ''$draft''"
| "system_as_str SkSeen = ''$seen''"
| "system_as_str SkFlagged = ''$flagged''"
| "system_as_str SkAnswered = ''$answered''"
| "system_as_str SkForwarded = ''$forwarded''"
| "system_as_str SkJunk = ''$junk''"
| "system_as_str SkNotJunk = ''$notjunk''"
| "system_as_str SkPhishing = ''$phishing''"
| "system_as_str SkMdnSent = ''$mdnsent''"

definition system_from_canonical :: "string \<Rightarrow> system_keyword option" where
  "system_from_canonical v =
     (if v = ''$draft'' then Some SkDraft
      else if v = ''$seen'' then Some SkSeen
      else if v = ''$flagged'' then Some SkFlagged
      else if v = ''$answered'' then Some SkAnswered
      else if v = ''$forwarded'' then Some SkForwarded
      else if v = ''$junk'' then Some SkJunk
      else if v = ''$notjunk'' then Some SkNotJunk
      else if v = ''$phishing'' then Some SkPhishing
      else if v = ''$mdnsent'' then Some SkMdnSent
      else None)"

lemma system_keyword_roundtrip: "system_from_canonical (system_as_str k) = Some k"
  by (cases k) (simp_all add: system_from_canonical_def)

lemma system_from_canonical_iff: "system_from_canonical v = Some k \<longleftrightarrow> v = system_as_str k"
  by (auto simp: system_keyword_roundtrip) (auto simp: system_from_canonical_def split: if_splits)

unbundle bit_operations_syntax

type_synonym mail_flags = "32 word"

definition flag_seen :: mail_flags where "flag_seen = 1"
definition flag_flagged :: mail_flags where "flag_flagged = 2"
definition flag_draft :: mail_flags where "flag_draft = 4"
definition flag_answered :: mail_flags where "flag_answered = 8"

lemmas flag_defs = flag_seen_def flag_flagged_def flag_draft_def flag_answered_def

definition keyword_bit :: "keyword \<Rightarrow> mail_flags" where
  "keyword_bit kw = (case system_from_canonical kw of
      Some SkSeen \<Rightarrow> flag_seen
    | Some SkFlagged \<Rightarrow> flag_flagged
    | Some SkDraft \<Rightarrow> flag_draft
    | Some SkAnswered \<Rightarrow> flag_answered
    | _ \<Rightarrow> 0)"

text \<open>\<open>MailFlags::from_keywords\<close>: the loop over the keyword set.\<close>

definition flags_from_keywords :: "keyword list \<Rightarrow> mail_flags" where
  "flags_from_keywords kws = fold (\<lambda>kw bits. bits OR keyword_bit kw) kws 0"

definition flags_seen :: "mail_flags \<Rightarrow> bool" where "flags_seen f \<longleftrightarrow> f AND flag_seen \<noteq> 0"
definition flags_flagged :: "mail_flags \<Rightarrow> bool" where "flags_flagged f \<longleftrightarrow> f AND flag_flagged \<noteq> 0"
definition flags_draft :: "mail_flags \<Rightarrow> bool" where "flags_draft f \<longleftrightarrow> f AND flag_draft \<noteq> 0"
definition flags_answered :: "mail_flags \<Rightarrow> bool" where "flags_answered f \<longleftrightarrow> f AND flag_answered \<noteq> 0"

definition flags_is_unread :: "mail_flags \<Rightarrow> bool" where
  "flags_is_unread f \<longleftrightarrow> \<not> flags_seen f \<and> \<not> flags_draft f"

lemma keyword_bit_cases:
  "keyword_bit kw =
     (if kw = ''$seen'' then 1 else if kw = ''$flagged'' then 2
      else if kw = ''$draft'' then 4 else if kw = ''$answered'' then 8 else 0)"
  by (simp add: keyword_bit_def system_from_canonical_def flag_defs)

lemma flags_fold_bit:
  "bit (fold (\<lambda>kw bits. bits OR keyword_bit kw) kws b) n \<longleftrightarrow>
     bit b n \<or> (\<exists>kw \<in> set kws. bit (keyword_bit kw) n)"
  by (induction kws arbitrary: b) (auto simp: bit_or_iff)

lemma flags_bit: "bit (flags_from_keywords kws) n \<longleftrightarrow> (\<exists>kw \<in> set kws. bit (keyword_bit kw) n)"
  by (simp add: flags_from_keywords_def flags_fold_bit)

lemma flags_bits:
  "flags_seen f \<longleftrightarrow> bit f 0" "flags_flagged f \<longleftrightarrow> bit f (Suc 0)"
  "flags_draft f \<longleftrightarrow> bit f 2" "flags_answered f \<longleftrightarrow> bit f 3"
  using and_exp_eq_0_iff_not_bit [of f 0] and_exp_eq_0_iff_not_bit [of f 1]
    and_exp_eq_0_iff_not_bit [of f 2] and_exp_eq_0_iff_not_bit [of f 3]
  by (simp_all add: flags_seen_def flags_flagged_def flags_draft_def flags_answered_def flag_defs)

lemma keyword_bit_bits:
  "bit (keyword_bit kw) 0 \<longleftrightarrow> kw = ''$seen''"
  "bit (keyword_bit kw) (Suc 0) \<longleftrightarrow> kw = ''$flagged''"
  "bit (keyword_bit kw) 2 \<longleftrightarrow> kw = ''$draft''"
  "bit (keyword_bit kw) 3 \<longleftrightarrow> kw = ''$answered''"
proof -
  have "bit (1 :: 32 word) 0" "\<not> bit (1 :: 32 word) (Suc 0)" "\<not> bit (1 :: 32 word) 2" "\<not> bit (1 :: 32 word) 3"
    "\<not> bit (2 :: 32 word) 0" "bit (2 :: 32 word) (Suc 0)" "\<not> bit (2 :: 32 word) 2" "\<not> bit (2 :: 32 word) 3"
    "\<not> bit (4 :: 32 word) 0" "\<not> bit (4 :: 32 word) (Suc 0)" "bit (4 :: 32 word) 2" "\<not> bit (4 :: 32 word) 3"
    "\<not> bit (8 :: 32 word) 0" "\<not> bit (8 :: 32 word) (Suc 0)" "\<not> bit (8 :: 32 word) 2" "bit (8 :: 32 word) 3"
    by code_simp+
  then show
    "bit (keyword_bit kw) 0 \<longleftrightarrow> kw = ''$seen''" "bit (keyword_bit kw) (Suc 0) \<longleftrightarrow> kw = ''$flagged''"
    "bit (keyword_bit kw) 2 \<longleftrightarrow> kw = ''$draft''" "bit (keyword_bit kw) 3 \<longleftrightarrow> kw = ''$answered''"
    by (simp_all add: keyword_bit_cases)
qed

text \<open>Reading a flag back is membership of its keyword, whatever else the message carries.\<close>

lemma flags_from_keywords_read:
  "flags_seen (flags_from_keywords kws) \<longleftrightarrow> ''$seen'' \<in> set kws"
  "flags_flagged (flags_from_keywords kws) \<longleftrightarrow> ''$flagged'' \<in> set kws"
  "flags_draft (flags_from_keywords kws) \<longleftrightarrow> ''$draft'' \<in> set kws"
  "flags_answered (flags_from_keywords kws) \<longleftrightarrow> ''$answered'' \<in> set kws"
  by (auto simp: flags_bits flags_bit keyword_bit_bits)

lemma flags_from_keywords_cong: "set kws = set kws' \<Longrightarrow> flags_from_keywords kws = flags_from_keywords kws'"
  by (simp add: bit_eq_iff flags_bit)

section \<open>Revision tokens\<close>

record revision_tokens =
  rv_etag :: "string option"
  rv_schedule_tag :: "string option"
  rv_change_key :: "string option"
  rv_mod_seq :: "64 word option"

definition revision_none :: revision_tokens where
  "revision_none = \<lparr>rv_etag = None, rv_schedule_tag = None, rv_change_key = None, rv_mod_seq = None\<rparr>"

definition revision_is_empty :: "revision_tokens \<Rightarrow> bool" where
  "revision_is_empty r \<longleftrightarrow>
     rv_etag r = None \<and> rv_schedule_tag r = None \<and> rv_change_key r = None \<and> rv_mod_seq r = None"

definition revision_or :: "revision_tokens \<Rightarrow> revision_tokens \<Rightarrow> revision_tokens" where
  "revision_or r prior =
     \<lparr>rv_etag = opt_or (rv_etag r) (rv_etag prior),
      rv_schedule_tag = opt_or (rv_schedule_tag r) (rv_schedule_tag prior),
      rv_change_key = opt_or (rv_change_key r) (rv_change_key prior),
      rv_mod_seq = opt_or (rv_mod_seq r) (rv_mod_seq prior)\<rparr>"

lemma revision_or_none [simp]: "revision_or revision_none prior = prior"
  by (simp add: revision_or_def revision_none_def)

lemma revision_or_idem [simp]: "revision_or r (revision_or r p) = revision_or r p"
  by (simp add: revision_or_def)

lemma revision_or_assoc: "revision_or (revision_or a b) c = revision_or a (revision_or b c)"
  by (simp add: revision_or_def opt_or_assoc)

section \<open>Derived rows\<close>

record fts_field =
  ff_name :: string
  ff_text :: string

record fts_row =
  fr_key :: provider_key
  fr_fields :: "fts_field list"

record occurrence_row =
  or_event :: provider_key
  or_start :: instant
  or_end :: instant
  or_recurrence_id :: "instant option"
  or_tzdata_version :: string

record mail_row =
  mr_key :: provider_key
  mr_thread_id :: "thread_id option"
  mr_message_id :: "message_id_header option"
  mr_date_utc :: "instant option"
  mr_flags :: mail_flags
  mr_has_attachment :: bool
  mr_size_octets :: "64 word option"
  mr_from_name :: "string option"
  mr_from_addr :: "string option"
  mr_subject :: "string option"
  mr_preview :: "string option"
  mr_revisions :: revision_tokens
  mr_last_modified :: "instant option"

record mail_state_row =
  sr_key :: provider_key
  sr_flags :: mail_flags
  sr_keywords :: "string list"
  sr_mailboxes :: "string list option"
  sr_revisions :: revision_tokens
  sr_last_modified :: "instant option"

record mail_thread_row =
  tr_key :: provider_key
  tr_thread_id :: thread_id

record mail_ref_row =
  rr_key :: provider_key
  rr_msgid :: message_id_header
  rr_owned :: bool

datatype address_field = AfFrom | AfTo | AfCc

record mail_address_row =
  ar_key :: provider_key
  ar_field :: address_field
  ar_addr :: string
  ar_name :: "string option"

datatype membership_kind = MkMailbox | MkKeyword | MkCalendar

record membership_row =
  mb_key :: provider_key
  mb_kind :: membership_kind
  mb_value :: string

text \<open>
  \<open>ParticipationStatus\<close> is an open wire enum the store never inspects; it is kept as its wire
  string.
\<close>

record event_index_row =
  ei_key :: provider_key
  ei_has_conference :: bool
  ei_my_partstat :: "string option"

datatype participant_field = PfAttendee | PfOrganizer

record event_participant_row =
  ep_key :: provider_key
  ep_field :: participant_field
  ep_addr :: string
  ep_partstat :: string

record derived_write =
  dw_fts :: "fts_row list"
  dw_occurrences :: "occurrence_row list"
  dw_messages :: "mail_row list"
  dw_state_changes :: "mail_state_row list"
  dw_thread_assignments :: "mail_thread_row list"
  dw_msgid_refs :: "mail_ref_row list"
  dw_addresses :: "mail_address_row list"
  dw_memberships :: "membership_row list"
  dw_event_index :: "event_index_row list"
  dw_participants :: "event_participant_row list"
  dw_removed :: "provider_key list"
  dw_reset_occurrences :: "provider_key list"

definition derived_empty :: derived_write where
  "derived_empty = \<lparr>dw_fts = [], dw_occurrences = [], dw_messages = [], dw_state_changes = [],
     dw_thread_assignments = [], dw_msgid_refs = [], dw_addresses = [], dw_memberships = [],
     dw_event_index = [], dw_participants = [], dw_removed = [], dw_reset_occurrences = []\<rparr>"

text \<open>\<open>DerivedWrite::is_empty\<close>, which does not look at \<open>reset_occurrences\<close>.\<close>

definition derived_is_empty :: "derived_write \<Rightarrow> bool" where
  "derived_is_empty d \<longleftrightarrow> dw_fts d = [] \<and> dw_occurrences d = [] \<and> dw_messages d = [] \<and>
     dw_state_changes d = [] \<and> dw_thread_assignments d = [] \<and> dw_msgid_refs d = [] \<and>
     dw_addresses d = [] \<and> dw_memberships d = [] \<and> dw_event_index d = [] \<and>
     dw_participants d = [] \<and> dw_removed d = []"

record mail_projection =
  mp_fts :: fts_row
  mp_row :: mail_row
  mp_addresses :: "mail_address_row list"
  mp_memberships :: "membership_row list"
  mp_refs :: "mail_ref_row list"

record event_projection =
  vp_fts :: fts_row
  vp_index :: event_index_row
  vp_participants :: "event_participant_row list"
  vp_memberships :: "membership_row list"

definition push_mail :: "mail_projection \<Rightarrow> derived_write \<Rightarrow> derived_write" where
  "push_mail p d = d\<lparr>dw_fts := dw_fts d @ [mp_fts p], dw_messages := dw_messages d @ [mp_row p],
     dw_addresses := dw_addresses d @ mp_addresses p,
     dw_memberships := dw_memberships d @ mp_memberships p,
     dw_msgid_refs := dw_msgid_refs d @ mp_refs p\<rparr>"

definition push_state_change :: "mail_state_row \<Rightarrow> derived_write \<Rightarrow> derived_write" where
  "push_state_change r d = d\<lparr>dw_state_changes := dw_state_changes d @ [r]\<rparr>"

definition push_event :: "event_projection \<Rightarrow> derived_write \<Rightarrow> derived_write" where
  "push_event p d = d\<lparr>dw_fts := dw_fts d @ [vp_fts p],
     dw_event_index := dw_event_index d @ [vp_index p],
     dw_participants := dw_participants d @ vp_participants p,
     dw_memberships := dw_memberships d @ vp_memberships p\<rparr>"

section \<open>The message-id graph of one message\<close>

datatype thread_provenance = ProviderAssigned | LocallyDerived

record thread_ref =
  tf_id :: thread_id
  tf_provenance :: thread_provenance

text \<open>
  \<open>project_refs\<close> (\<open>search_index/mail_refs.rs\<close>): a message's own ids, then the ids it refers to,
  one row per id, owned where the message owns it. A message the provider threaded has none.
\<close>

fun push_ref :: "provider_key \<Rightarrow> message_id_header \<Rightarrow> bool \<Rightarrow> mail_ref_row list \<Rightarrow> mail_ref_row list" where
  "push_ref key i owned [] = [\<lparr>rr_key = key, rr_msgid = i, rr_owned = owned\<rparr>]"
| "push_ref key i owned (r # rows) =
     (if rr_msgid r = i then r\<lparr>rr_owned := rr_owned r \<or> owned\<rparr> # rows
      else r # push_ref key i owned rows)"

definition thread_is_derived :: "thread_ref \<Rightarrow> bool" where
  "thread_is_derived t \<longleftrightarrow> tf_provenance t = LocallyDerived"

definition project_refs ::
  "provider_key \<Rightarrow> message_id_header list \<Rightarrow> message_id_header list \<Rightarrow> message_id_header list \<Rightarrow>
    thread_ref option \<Rightarrow> mail_ref_row list" where
  "project_refs key message_id in_reply_to references thread =
     (if is_some_and thread (\<lambda>t. \<not> thread_is_derived t) then []
      else fold (\<lambda>i. push_ref key i False) (in_reply_to @ references)
             (fold (\<lambda>i. push_ref key i True) message_id []))"

text \<open>The ids a message's rows name, and those among them it owns.\<close>

definition row_ids :: "mail_ref_row list \<Rightarrow> message_id_header set" where
  "row_ids rows = rr_msgid ` set rows"

definition owned_ids :: "mail_ref_row list \<Rightarrow> message_id_header set" where
  "owned_ids rows = rr_msgid ` set (filter rr_owned rows)"

lemma row_ids_simps [simp]:
  "row_ids [] = {}" "row_ids (r # rows) = insert (rr_msgid r) (row_ids rows)"
  "row_ids (rows @ rows') = row_ids rows \<union> row_ids rows'"
  by (simp_all add: row_ids_def image_Un)

lemma owned_ids_simps [simp]:
  "owned_ids [] = {}"
  "owned_ids (r # rows) = (if rr_owned r then insert (rr_msgid r) (owned_ids rows) else owned_ids rows)"
  "owned_ids (rows @ rows') = owned_ids rows \<union> owned_ids rows'"
  by (simp_all add: owned_ids_def image_Un del: set_filter)

lemma push_ref_ids [simp]: "row_ids (push_ref key i owned rows) = insert i (row_ids rows)"
  by (induction key i owned rows rule: push_ref.induct) auto

lemma push_ref_owned [simp]:
  "owned_ids (push_ref key i owned rows) = owned_ids rows \<union> (if owned then {i} else {})"
  by (induction key i owned rows rule: push_ref.induct) auto

lemma push_ref_distinct [simp]:
  "distinct (map rr_msgid rows) \<Longrightarrow> distinct (map rr_msgid (push_ref key i owned rows))"
proof (induction key i owned rows rule: push_ref.induct)
  case (2 key i owned r rows)
  then show ?case using push_ref_ids [of key i owned rows] by (auto simp: row_ids_def)
qed simp

lemma push_ref_key:
  "\<forall>r \<in> set rows. rr_key r = key \<Longrightarrow> \<forall>r \<in> set (push_ref key i owned rows). rr_key r = key"
  by (induction key i owned rows rule: push_ref.induct) auto

lemma push_ref_loop:
  "row_ids (fold (\<lambda>i. push_ref key i owned) ids rows) = set ids \<union> row_ids rows"
  "owned_ids (fold (\<lambda>i. push_ref key i owned) ids rows) =
     (if owned then set ids else {}) \<union> owned_ids rows"
  by (induction ids arbitrary: rows) auto

lemma push_ref_loop_distinct:
  "distinct (map rr_msgid rows) \<Longrightarrow> distinct (map rr_msgid (fold (\<lambda>i. push_ref key i owned) ids rows))"
  by (induction ids arbitrary: rows) auto

lemma push_ref_loop_key:
  "\<forall>r \<in> set rows. rr_key r = key \<Longrightarrow>
     \<forall>r \<in> set (fold (\<lambda>i. push_ref key i owned) ids rows). rr_key r = key"
proof (induction ids arbitrary: rows)
  case (Cons i ids)
  from push_ref_key [OF Cons.prems] show ?case unfolding fold_simps by (rule Cons.IH)
qed simp

lemma project_refs_rows:
  assumes "\<not> is_some_and thread (\<lambda>t. \<not> thread_is_derived t)"
  shows "row_ids (project_refs key ids irt refs thread) = set ids \<union> set irt \<union> set refs"
    and "owned_ids (project_refs key ids irt refs thread) = set ids"
  using assms unfolding project_refs_def by (auto simp: push_ref_loop simp del: fold_append)

lemma project_refs_distinct: "distinct (map rr_msgid (project_refs key ids irt refs thread))"
  unfolding project_refs_def by (simp add: push_ref_loop_distinct del: fold_append)

lemma project_refs_key: "\<forall>r \<in> set (project_refs key ids irt refs thread). rr_key r = key"
proof -
  have "\<forall>r \<in> set (fold (\<lambda>i. push_ref key i False) (irt @ refs)
      (fold (\<lambda>i. push_ref key i True) ids [])). rr_key r = key"
    by (intro push_ref_loop_key) simp
  then show ?thesis unfolding project_refs_def by simp
qed

end
