(* ===== verification/Write_Contract.thy ===== *)
theory Write_Contract
  imports Mail_Rows
begin

text \<open>
  The write contract (\<open>engine-core/src/write.rs\<close>, \<open>write_keyword_edit.rs\<close>) and what recording an
  outcome does to a queued op (\<open>engine-store/src/outbox.rs\<close>, \<open>settle.rs\<close>).

  \<open>'v\<close> is the JSON value of an op's payload, which the store carries and never inspects.
\<close>

section \<open>Leases and store errors\<close>

type_synonym fence_token = "64 word"

definition fence_initial :: fence_token where "fence_initial = 0"

definition fence_bump :: "fence_token \<Rightarrow> fence_token" where "fence_bump t = t + 1"

lemma fence_bump_unat: "unat t < 2 ^ 64 - 1 \<Longrightarrow> unat (fence_bump t) = Suc (unat t)"
  by (simp add: fence_bump_def unat_word_ariths)

record lease_request =
  lq_owner :: worker_id
  lq_ttl :: std_duration

datatype store_error = StaleLease | ScopeHeld | SConflict | NotRunnable | Backend string | ShuttingDown

fun store_failure_class :: "store_error \<Rightarrow> failure_class" where
  "store_failure_class StaleLease = FConflict"
| "store_failure_class SConflict = FConflict"
| "store_failure_class ScopeHeld = Retryable"
| "store_failure_class (Backend _) = Retryable"
| "store_failure_class ShuttingDown = Retryable"
| "store_failure_class NotRunnable = InvalidState"

section \<open>Keyword edits\<close>

record keyword_edit =
  ke_key :: provider_key
  ke_add :: "keyword btree_set"
  ke_remove :: "keyword btree_set"

definition edit_apply_to :: "keyword_edit \<Rightarrow> keyword btree_set \<Rightarrow> keyword btree_set" where
  "edit_apply_to e kws = bs_extend (ke_add e) (fold bs_remove (ke_remove e) kws)"

definition edit_shown :: "keyword btree_set \<Rightarrow> keyword_edit list \<Rightarrow> keyword btree_set" where
  "edit_shown server edits = fold edit_apply_to edits server"

lemma set_bs_remove_loop: "set (fold bs_remove rs s) = set s - set rs"
  by (induction rs arbitrary: s) auto

lemma bs_ok_remove_loop: "bs_ok s \<Longrightarrow> bs_ok (fold bs_remove rs s)"
  by (induction rs arbitrary: s) auto

lemma set_edit_apply_to [simp]:
  "set (edit_apply_to e kws) = (set kws - set (ke_remove e)) \<union> set (ke_add e)"
  by (auto simp: edit_apply_to_def set_bs_remove_loop)

lemma bs_ok_edit_apply_to [simp]: "bs_ok kws \<Longrightarrow> bs_ok (edit_apply_to e kws)"
  by (simp add: edit_apply_to_def bs_ok_remove_loop)

lemma bs_ok_edit_shown [simp]: "bs_ok server \<Longrightarrow> bs_ok (edit_shown server edits)"
  by (induction edits arbitrary: server) (auto simp: edit_shown_def)

lemma edit_shown_append: "edit_shown server (xs @ ys) = edit_shown (edit_shown server xs) ys"
  by (simp add: edit_shown_def)

lemma edit_shown_Nil [simp]: "edit_shown server [] = server"
  by (simp add: edit_shown_def)

lemma edit_shown_Cons: "edit_shown server (e # es) = edit_shown (edit_apply_to e server) es"
  by (simp add: edit_shown_def)

text \<open>
  What is shown, keyword by keyword: the last queued change that names a keyword decides it, and a
  keyword no change names is the server's.
\<close>

definition names_keyword :: "keyword \<Rightarrow> keyword_edit \<Rightarrow> bool" where
  "names_keyword kw e \<longleftrightarrow> kw \<in> set (ke_add e) \<or> kw \<in> set (ke_remove e)"

lemma edit_shown_last_wins:
  "kw \<in> set (edit_shown server edits) \<longleftrightarrow>
     (case find (names_keyword kw) (rev edits) of
        None \<Rightarrow> kw \<in> set server
      | Some e \<Rightarrow> kw \<in> set (ke_add e))"
proof (induction edits arbitrary: server rule: rev_induct)
  case Nil
  then show ?case by simp
next
  case (snoc e edits)
  then show ?case by (auto simp: edit_shown_append edit_shown_Cons names_keyword_def)
qed

section \<open>Pending operations\<close>

type_synonym pending_op_id = "64 word"
type_synonym idempotency_key = string
type_synonym resource_key = string

datatype pending_op_kind = MailSubmit | MailEdit | MailReport | MailDraftPut | MailDraftDelete
  | MailboxEdit | CalendarCreate | CalendarPatch | CalendarDocument | CalendarRsvp | CalendarDelete
  | ContactCreate | ContactPatch | ContactDelete

fun kind_domain :: "pending_op_kind \<Rightarrow> search_domain" where
  "kind_domain MailSubmit = DMail"
| "kind_domain MailEdit = DMail"
| "kind_domain MailReport = DMail"
| "kind_domain MailDraftPut = DMail"
| "kind_domain MailDraftDelete = DMail"
| "kind_domain MailboxEdit = DMail"
| "kind_domain CalendarCreate = DCalendar"
| "kind_domain CalendarPatch = DCalendar"
| "kind_domain CalendarDocument = DCalendar"
| "kind_domain CalendarRsvp = DCalendar"
| "kind_domain CalendarDelete = DCalendar"
| "kind_domain ContactCreate = DContacts"
| "kind_domain ContactPatch = DContacts"
| "kind_domain ContactDelete = DContacts"

text \<open>\<open>nonempty_str!\<close>: an idempotency or resource key is refused when empty.\<close>

definition write_key_new :: "string \<Rightarrow> string option" where
  "write_key_new value = (if value = [] then None else Some value)"

record 'v pending_op =
  po_idempotency_key :: idempotency_key
  po_kind :: pending_op_kind
  po_depends_on :: "pending_op_id list"
  po_resource_key :: resource_key
  po_payload :: 'v
  po_keyword_edit :: "keyword_edit option"

datatype pending_outcome =
    OSucceeded provider_key
  | OFailed failure_class "duration option"
  | ONeedsConfirmation string

datatype pending_op_state = Pending | InFlight | NeedsConfirmation | Succeeded | Failed | Cancelled

definition is_terminal :: "pending_op_state \<Rightarrow> bool" where
  "is_terminal s \<longleftrightarrow> s \<in> {Succeeded, Failed, Cancelled}"

definition is_success :: "pending_op_state \<Rightarrow> bool" where
  "is_success s \<longleftrightarrow> s = Succeeded"

lemma is_terminal_simps [simp]:
  "\<not> is_terminal Pending" "\<not> is_terminal InFlight" "\<not> is_terminal NeedsConfirmation"
  "is_terminal Succeeded" "is_terminal Failed" "is_terminal Cancelled"
  by (simp_all add: is_terminal_def)

section \<open>Retry delays\<close>

definition max_attempts :: nat where "max_attempts = 8"

definition retry_base :: std_duration where "retry_base = StdDuration 30 0"

definition retry_cap :: std_duration where "retry_cap = StdDuration (30 * 60) 0"

definition retry_delay :: "nat \<Rightarrow> duration option \<Rightarrow> std_duration" where
  "retry_delay attempts hint = (case hint of
      Some h \<Rightarrow>
        (let seconds = sat_add u64_max (sat_mul u64_max (dur_days h) 86400) (dur_seconds h)
         in std_new seconds (dur_nanoseconds h))
    | None \<Rightarrow>
        (let doublings = min (attempts - 1) 16
         in min (std_saturating_mul retry_base (2 ^ doublings)) retry_cap))"

lemma retry_delay_derived:
  "retry_delay attempts None = StdDuration (min (30 * 2 ^ min (attempts - 1) 16) 1800) 0"
proof -
  let ?d = "min (attempts - 1) 16"
  have "(2 :: nat) ^ ?d \<le> 2 ^ 16" by (rule power_increasing) auto
  then have small: "30 * (2 :: nat) ^ ?d \<le> u64_max" by (simp add: u64_max_def)
  have "std_saturating_mul retry_base (2 ^ ?d) = StdDuration (30 * 2 ^ ?d) 0"
    using small by (simp add: std_saturating_mul_def retry_base_def Let_def mult.commute)
  then show ?thesis
    by (simp add: retry_delay_def retry_cap_def Let_def min_def less_eq_std_duration_def)
qed

end
