(* ===== verification/Scope_Cell.thy ===== *)
theory Scope_Cell
  imports Write_Contract
begin

text \<open>
  Per-scope state of the in-memory store and the derived rows it keeps (\<open>ScopeCell\<close> in
  \<open>engine-store/src/mem/mod.rs\<close>): tombstoning, upserting an object's payload, and applying
  precomputed derived rows. The lemmas give every table's rows under one key after an apply, and
  that replaying a batch changes nothing.
\<close>

record 'v scope_cell =
  sc_token :: fence_token
  sc_lease_expiry :: "instant option"
  sc_state :: "sync_state option"
  sc_window :: "expansion_window option"
  sc_collection_tag :: "collection_tag option"
  sc_objects :: "(provider_key, 'v) hash_map"
  sc_fts :: "(provider_key, fts_field list) hash_map"
  sc_occurrences :: "(provider_key, occurrence_row list) hash_map"
  sc_messages :: "(provider_key, mail_row) hash_map"
  sc_refs :: "(provider_key, mail_ref_row list) hash_map"
  sc_addresses :: "(provider_key, mail_address_row list) hash_map"
  sc_memberships :: "(provider_key, membership_row list) hash_map"
  sc_event_index :: "(provider_key, event_index_row) hash_map"
  sc_participants :: "(provider_key, event_participant_row list) hash_map"

definition scope_cell_new :: "'v scope_cell" where
  "scope_cell_new = \<lparr>sc_token = fence_initial, sc_lease_expiry = None, sc_state = None,
     sc_window = None, sc_collection_tag = None, sc_objects = [], sc_fts = [],
     sc_occurrences = [], sc_messages = [], sc_refs = [], sc_addresses = [],
     sc_memberships = [], sc_event_index = [], sc_participants = []\<rparr>"

definition remove_derived :: "provider_key \<Rightarrow> 'v scope_cell \<Rightarrow> 'v scope_cell" where
  "remove_derived k c = c\<lparr>sc_fts := hm_remove k (sc_fts c),
     sc_occurrences := hm_remove k (sc_occurrences c),
     sc_messages := hm_remove k (sc_messages c),
     sc_refs := hm_remove k (sc_refs c),
     sc_addresses := hm_remove k (sc_addresses c),
     sc_memberships := hm_remove k (sc_memberships c),
     sc_event_index := hm_remove k (sc_event_index c),
     sc_participants := hm_remove k (sc_participants c)\<rparr>"

definition tombstone :: "provider_key \<Rightarrow> 'v scope_cell \<Rightarrow> bool \<times> 'v scope_cell" where
  "tombstone k c =
     (hm_get (sc_objects c) k \<noteq> None,
      remove_derived k (c\<lparr>sc_objects := hm_remove k (sc_objects c)\<rparr>))"

text \<open>
  The \<open>SyncObject\<close> trait of a synced object: its provider key and its stored payload, which a
  serializer may refuse.
\<close>

record ('o, 'v) sync_object =
  so_key :: "'o \<Rightarrow> provider_key"
  so_payload :: "'o \<Rightarrow> (string, 'v) result"

definition upsert_object ::
  "('o, 'v) sync_object \<Rightarrow> 'o \<Rightarrow> 'v scope_cell \<Rightarrow> (store_error, unit) result \<times> 'v scope_cell" where
  "upsert_object tr obj c = (case so_payload tr obj of
      Inl e \<Rightarrow> (Inl (Backend e), c)
    | Inr v \<Rightarrow> (Inr (), c\<lparr>sc_objects := hm_insert (so_key tr obj) v (sc_objects c)\<rparr>))"

section \<open>Applying derived rows\<close>

definition merge_mail_row :: "mail_row \<Rightarrow> mail_row option \<Rightarrow> mail_row" where
  "merge_mail_row row existing = (case existing of
      None \<Rightarrow> row
    | Some ex \<Rightarrow> row\<lparr>mr_thread_id := opt_or (mr_thread_id row) (mr_thread_id ex),
                   mr_preview := opt_or (mr_preview row) (mr_preview ex)\<rparr>)"

definition put_message :: "mail_row \<Rightarrow> 'v scope_cell \<Rightarrow> 'v scope_cell" where
  "put_message row c = c\<lparr>sc_messages :=
     hm_insert (mr_key row) (merge_mail_row row (hm_get (sc_messages c) (mr_key row))) (sc_messages c)\<rparr>"

definition state_change_row :: "mail_state_row \<Rightarrow> mail_row \<Rightarrow> mail_row" where
  "state_change_row row ex = ex\<lparr>mr_flags := sr_flags row,
     mr_revisions := revision_or (sr_revisions row) (mr_revisions ex),
     mr_last_modified := opt_or (sr_last_modified row) (mr_last_modified ex)\<rparr>"

definition membership_rows :: "provider_key \<Rightarrow> membership_kind \<Rightarrow> string list \<Rightarrow> membership_row list" where
  "membership_rows key kind values = map (\<lambda>v. \<lparr>mb_key = key, mb_kind = kind, mb_value = v\<rparr>) values"

definition replace_kind :: "provider_key \<Rightarrow> membership_kind \<Rightarrow> string list \<Rightarrow> membership_row list \<Rightarrow> membership_row list" where
  "replace_kind key kind values ms =
     filter (\<lambda>m. mb_kind m \<noteq> kind) ms @ membership_rows key kind values"

definition state_change_memberships :: "mail_state_row \<Rightarrow> membership_row list \<Rightarrow> membership_row list" where
  "state_change_memberships row ms =
     (let ms = replace_kind (sr_key row) MkKeyword (sr_keywords row) ms
      in case sr_mailboxes row of
           None \<Rightarrow> ms
         | Some mbs \<Rightarrow> replace_kind (sr_key row) MkMailbox mbs ms)"

definition or_default :: "'a list option \<Rightarrow> 'a list" where
  "or_default x = (case x of None \<Rightarrow> [] | Some l \<Rightarrow> l)"

definition put_state_change :: "mail_state_row \<Rightarrow> 'v scope_cell \<Rightarrow> 'v scope_cell" where
  "put_state_change row c = (case hm_get (sc_messages c) (sr_key row) of
      None \<Rightarrow> c
    | Some ex \<Rightarrow>
        c\<lparr>sc_messages := hm_insert (sr_key row) (state_change_row row ex) (sc_messages c),
          sc_memberships := hm_insert (sr_key row)
            (state_change_memberships row (or_default (hm_get (sc_memberships c) (sr_key row))))
            (sc_memberships c)\<rparr>)"

definition put_thread_assignment :: "mail_thread_row \<Rightarrow> 'v scope_cell \<Rightarrow> 'v scope_cell" where
  "put_thread_assignment row c =
     c\<lparr>sc_messages := hm_adjust (tr_key row) (\<lambda>m. m\<lparr>mr_thread_id := Some (tr_thread_id row)\<rparr>) (sc_messages c)\<rparr>"

definition apply_derived :: "derived_write \<Rightarrow> 'v scope_cell \<Rightarrow> 'v scope_cell" where
  "apply_derived d c =
     (let c = fold remove_derived (dw_removed d) c;
          c = c\<lparr>sc_occurrences := fold hm_remove (dw_reset_occurrences d) (sc_occurrences c)\<rparr>;
          c = c\<lparr>sc_fts := fold (\<lambda>r. hm_insert (fr_key r) (fr_fields r)) (dw_fts d) (sc_fts c)\<rparr>;
          c = c\<lparr>sc_occurrences := fold (\<lambda>occ. hm_push (or_event occ) occ) (dw_occurrences d) (sc_occurrences c)\<rparr>;
          c = fold put_message (dw_messages d) c;
          c = fold put_state_change (dw_state_changes d) c;
          c = fold put_thread_assignment (dw_thread_assignments d) c;
          c = c\<lparr>sc_event_index := fold (\<lambda>r. hm_insert (ei_key r) r) (dw_event_index d) (sc_event_index c)\<rparr>;
          c = c\<lparr>sc_refs := replace_rows rr_key (dw_msgid_refs d) (sc_refs c)\<rparr>;
          c = c\<lparr>sc_addresses := replace_rows ar_key (dw_addresses d) (sc_addresses c)\<rparr>;
          c = c\<lparr>sc_memberships := replace_rows mb_key (dw_memberships d) (sc_memberships c)\<rparr>
      in c\<lparr>sc_participants := replace_rows ep_key (dw_participants d) (sc_participants c)\<rparr>)"

section \<open>The rows of one key\<close>

text \<open>
  Everything the cell holds under one key. Every operation above acts on one key's slice at a time,
  which is how the facts below are stated.
\<close>

record slice =
  sl_fts :: "fts_field list option"
  sl_occurrences :: "occurrence_row list option"
  sl_message :: "mail_row option"
  sl_refs :: "mail_ref_row list option"
  sl_addresses :: "mail_address_row list option"
  sl_memberships :: "membership_row list option"
  sl_event_index :: "event_index_row option"
  sl_participants :: "event_participant_row list option"

definition cell_slice :: "'v scope_cell \<Rightarrow> provider_key \<Rightarrow> slice" where
  "cell_slice c k = \<lparr>sl_fts = hm_get (sc_fts c) k, sl_occurrences = hm_get (sc_occurrences c) k,
     sl_message = hm_get (sc_messages c) k, sl_refs = hm_get (sc_refs c) k,
     sl_addresses = hm_get (sc_addresses c) k, sl_memberships = hm_get (sc_memberships c) k,
     sl_event_index = hm_get (sc_event_index c) k, sl_participants = hm_get (sc_participants c) k\<rparr>"

definition empty_slice :: slice where
  "empty_slice = \<lparr>sl_fts = None, sl_occurrences = None, sl_message = None, sl_refs = None,
     sl_addresses = None, sl_memberships = None, sl_event_index = None, sl_participants = None\<rparr>"

definition slice_message :: "mail_row \<Rightarrow> slice \<Rightarrow> slice" where
  "slice_message row s = s\<lparr>sl_message := Some (merge_mail_row row (sl_message s))\<rparr>"

definition slice_state :: "mail_state_row \<Rightarrow> slice \<Rightarrow> slice" where
  "slice_state row s = (case sl_message s of
      None \<Rightarrow> s
    | Some ex \<Rightarrow> s\<lparr>sl_message := Some (state_change_row row ex),
        sl_memberships := Some (state_change_memberships row (or_default (sl_memberships s)))\<rparr>)"

definition slice_thread :: "mail_thread_row \<Rightarrow> slice \<Rightarrow> slice" where
  "slice_thread row s = s\<lparr>sl_message :=
     map_option (\<lambda>m. m\<lparr>mr_thread_id := Some (tr_thread_id row)\<rparr>) (sl_message s)\<rparr>"

lemma slice_remove_derived:
  "cell_slice (remove_derived j c) k = (if k = j then empty_slice else cell_slice c k)"
  by (simp add: cell_slice_def remove_derived_def empty_slice_def)

lemma slice_remove_loop:
  "cell_slice (fold remove_derived ks c) k = (if k \<in> set ks then empty_slice else cell_slice c k)"
  by (induction ks arbitrary: c) (auto simp: slice_remove_derived)

lemma slice_put_message:
  "cell_slice (put_message row c) k =
     (if mr_key row = k then slice_message row (cell_slice c k) else cell_slice c k)"
  by (auto simp: cell_slice_def put_message_def slice_message_def)

lemma slice_put_state_change:
  "cell_slice (put_state_change row c) k =
     (if sr_key row = k then slice_state row (cell_slice c k) else cell_slice c k)"
  by (auto simp: cell_slice_def put_state_change_def slice_state_def split: option.splits)

lemma slice_put_thread:
  "cell_slice (put_thread_assignment row c) k =
     (if tr_key row = k then slice_thread row (cell_slice c k) else cell_slice c k)"
  by (auto simp: cell_slice_def put_thread_assignment_def slice_thread_def)

text \<open>A loop of keyed steps is, seen from one key, the loop of that key's steps.\<close>

lemma slice_loop:
  assumes "\<And>row c. cell_slice (f row c) k = (if kf row = k then g row (cell_slice c k) else cell_slice c k)"
  shows "cell_slice (fold f rows c) k = fold g (filter (\<lambda>r. kf r = k) rows) (cell_slice c k)"
  using assms by (induction rows arbitrary: c) auto

lemmas slice_loops =
  slice_loop [where f = put_message and kf = mr_key, OF slice_put_message]
  slice_loop [where f = put_state_change and kf = sr_key, OF slice_put_state_change]
  slice_loop [where f = put_thread_assignment and kf = tr_key, OF slice_put_thread]

text \<open>The effect of \<open>apply_derived\<close> on one key's rows.\<close>

definition last_row :: "('r \<Rightarrow> 'k) \<Rightarrow> ('r \<Rightarrow> 'v) \<Rightarrow> 'r list \<Rightarrow> 'k \<Rightarrow> 'v option \<Rightarrow> 'v option" where
  "last_row kf vf rows k old =
     (case find (\<lambda>r. kf r = k) (rev rows) of Some r \<Rightarrow> Some (vf r) | None \<Rightarrow> old)"

definition push_rows :: "('r \<Rightarrow> 'k) \<Rightarrow> 'r list \<Rightarrow> 'k \<Rightarrow> 'r list option \<Rightarrow> 'r list option" where
  "push_rows kf rows k old =
     (if filter (\<lambda>r. kf r = k) rows = [] then old
      else Some (or_default old @ filter (\<lambda>r. kf r = k) rows))"

definition own_rows :: "('r \<Rightarrow> 'k) \<Rightarrow> 'r list \<Rightarrow> 'k \<Rightarrow> 'r list option \<Rightarrow> 'r list option" where
  "own_rows kf rows k old =
     (if k \<in> kf ` set rows then Some (filter (\<lambda>r. kf r = k) rows) else old)"

definition slice_mail :: "derived_write \<Rightarrow> provider_key \<Rightarrow> slice \<Rightarrow> slice" where
  "slice_mail d k s =
     fold slice_thread (filter (\<lambda>r. tr_key r = k) (dw_thread_assignments d))
       (fold slice_state (filter (\<lambda>r. sr_key r = k) (dw_state_changes d))
         (fold slice_message (filter (\<lambda>r. mr_key r = k) (dw_messages d)) s))"

definition slice_apply :: "derived_write \<Rightarrow> provider_key \<Rightarrow> slice \<Rightarrow> slice" where
  "slice_apply d k s =
     (let s = (if k \<in> set (dw_removed d) then empty_slice else s);
          s = (if k \<in> set (dw_reset_occurrences d) then s\<lparr>sl_occurrences := None\<rparr> else s);
          s = s\<lparr>sl_fts := last_row fr_key fr_fields (dw_fts d) k (sl_fts s),
                sl_occurrences := push_rows or_event (dw_occurrences d) k (sl_occurrences s)\<rparr>;
          s = slice_mail d k s
      in s\<lparr>sl_event_index := last_row ei_key (\<lambda>r. r) (dw_event_index d) k (sl_event_index s),
           sl_refs := own_rows rr_key (dw_msgid_refs d) k (sl_refs s),
           sl_addresses := own_rows ar_key (dw_addresses d) k (sl_addresses s),
           sl_memberships := own_rows mb_key (dw_memberships d) k (sl_memberships s),
           sl_participants := own_rows ep_key (dw_participants d) k (sl_participants s)\<rparr>)"

lemma hm_get_last_row: "hm_get (fold (\<lambda>r. hm_insert (kf r) (vf r)) rows m) k = last_row kf vf rows k (hm_get m k)"
  by (simp add: last_row_def hash.get_put_loop)

lemma hm_get_push_rows: "hm_get (fold (\<lambda>r. hm_push (kf r) r) rows m) k = push_rows kf rows k (hm_get m k)"
  by (simp add: push_rows_def hm_get_push_loop or_default_def)

lemma hm_get_own_rows: "hm_get (replace_rows kf rows m) k = own_rows kf rows k (hm_get m k)"
  by (simp add: own_rows_def hm_get_replace_rows)

lemma slice_field_updates:
  "cell_slice (c\<lparr>sc_fts := x1\<rparr>) k = (cell_slice c k)\<lparr>sl_fts := hm_get x1 k\<rparr>"
  "cell_slice (c\<lparr>sc_occurrences := x2\<rparr>) k = (cell_slice c k)\<lparr>sl_occurrences := hm_get x2 k\<rparr>"
  "cell_slice (c\<lparr>sc_refs := x3\<rparr>) k = (cell_slice c k)\<lparr>sl_refs := hm_get x3 k\<rparr>"
  "cell_slice (c\<lparr>sc_addresses := x4\<rparr>) k = (cell_slice c k)\<lparr>sl_addresses := hm_get x4 k\<rparr>"
  "cell_slice (c\<lparr>sc_memberships := x5\<rparr>) k = (cell_slice c k)\<lparr>sl_memberships := hm_get x5 k\<rparr>"
  "cell_slice (c\<lparr>sc_event_index := x6\<rparr>) k = (cell_slice c k)\<lparr>sl_event_index := hm_get x6 k\<rparr>"
  "cell_slice (c\<lparr>sc_participants := x7\<rparr>) k = (cell_slice c k)\<lparr>sl_participants := hm_get x7 k\<rparr>"
  by (simp_all add: cell_slice_def)

lemma slice_field_reads:
  "hm_get (sc_fts c) k = sl_fts (cell_slice c k)"
  "hm_get (sc_occurrences c) k = sl_occurrences (cell_slice c k)"
  "hm_get (sc_messages c) k = sl_message (cell_slice c k)"
  "hm_get (sc_refs c) k = sl_refs (cell_slice c k)"
  "hm_get (sc_addresses c) k = sl_addresses (cell_slice c k)"
  "hm_get (sc_memberships c) k = sl_memberships (cell_slice c k)"
  "hm_get (sc_event_index c) k = sl_event_index (cell_slice c k)"
  "hm_get (sc_participants c) k = sl_participants (cell_slice c k)"
  by (simp_all add: cell_slice_def)

lemma cell_slice_apply_derived: "cell_slice (apply_derived d c) k = slice_apply d k (cell_slice c k)"
proof -
  define c1 where "c1 = fold remove_derived (dw_removed d) c"
  define c2 where "c2 = c1\<lparr>sc_occurrences := fold hm_remove (dw_reset_occurrences d) (sc_occurrences c1)\<rparr>"
  define c3 where "c3 = c2\<lparr>sc_fts := fold (\<lambda>r. hm_insert (fr_key r) (fr_fields r)) (dw_fts d) (sc_fts c2)\<rparr>"
  define c4 where "c4 = c3\<lparr>sc_occurrences := fold (\<lambda>occ. hm_push (or_event occ) occ) (dw_occurrences d) (sc_occurrences c3)\<rparr>"
  define c5 where "c5 = fold put_thread_assignment (dw_thread_assignments d)
    (fold put_state_change (dw_state_changes d) (fold put_message (dw_messages d) c4))"
  have s1: "cell_slice c1 k = (if k \<in> set (dw_removed d) then empty_slice else cell_slice c k)"
    by (simp add: c1_def slice_remove_loop)
  have s2: "cell_slice c2 k = (if k \<in> set (dw_reset_occurrences d)
      then (cell_slice c1 k)\<lparr>sl_occurrences := None\<rparr> else cell_slice c1 k)"
    by (simp add: c2_def cell_slice_def hash.get_del_loop)
  have s4: "cell_slice c4 k = (cell_slice c2 k)\<lparr>
      sl_fts := last_row fr_key fr_fields (dw_fts d) k (sl_fts (cell_slice c2 k)),
      sl_occurrences := push_rows or_event (dw_occurrences d) k (sl_occurrences (cell_slice c2 k))\<rparr>"
    by (simp add: c4_def c3_def cell_slice_def hm_get_last_row hm_get_push_rows)
  have s5: "cell_slice c5 k = slice_mail d k (cell_slice c4 k)"
    by (simp add: c5_def slice_mail_def slice_loops)
  have "apply_derived d c = c5\<lparr>
      sc_event_index := fold (\<lambda>r. hm_insert (ei_key r) r) (dw_event_index d) (sc_event_index c5),
      sc_refs := replace_rows rr_key (dw_msgid_refs d) (sc_refs c5),
      sc_addresses := replace_rows ar_key (dw_addresses d) (sc_addresses c5),
      sc_memberships := replace_rows mb_key (dw_memberships d) (sc_memberships c5),
      sc_participants := replace_rows ep_key (dw_participants d) (sc_participants c5)\<rparr>"
    by (simp add: apply_derived_def Let_def c1_def c2_def c3_def c4_def c5_def)
  then have "cell_slice (apply_derived d c) k = (cell_slice c5 k)\<lparr>
      sl_event_index := last_row ei_key (\<lambda>r. r) (dw_event_index d) k (sl_event_index (cell_slice c5 k)),
      sl_refs := own_rows rr_key (dw_msgid_refs d) k (sl_refs (cell_slice c5 k)),
      sl_addresses := own_rows ar_key (dw_addresses d) k (sl_addresses (cell_slice c5 k)),
      sl_memberships := own_rows mb_key (dw_memberships d) k (sl_memberships (cell_slice c5 k)),
      sl_participants := own_rows ep_key (dw_participants d) k (sl_participants (cell_slice c5 k))\<rparr>"
    by (simp add: cell_slice_def hm_get_last_row hm_get_own_rows)
  then show ?thesis by (simp add: slice_apply_def Let_def s1 s2 s4 s5)
qed

section \<open>What an apply leaves alone\<close>

definition cell_scalars :: "'v scope_cell \<Rightarrow>
  fence_token \<times> instant option \<times> sync_state option \<times> expansion_window option \<times>
  collection_tag option \<times> (provider_key, 'v) hash_map" where
  "cell_scalars c = (sc_token c, sc_lease_expiry c, sc_state c, sc_window c, sc_collection_tag c,
     sc_objects c)"

lemma fold_keeps: "(\<And>x s. f (g x s) = f s) \<Longrightarrow> f (fold g xs s) = f s"
  by (induction xs arbitrary: s) auto

lemma cell_scalars_steps:
  "cell_scalars (remove_derived k c) = cell_scalars c"
  "cell_scalars (put_message m c) = cell_scalars c"
  "cell_scalars (put_state_change r c) = cell_scalars c"
  "cell_scalars (put_thread_assignment t c) = cell_scalars c"
  by (auto simp: cell_scalars_def remove_derived_def put_message_def put_state_change_def
      put_thread_assignment_def split: option.splits)

lemma cell_scalars_apply_derived [simp]: "cell_scalars (apply_derived d c) = cell_scalars c"
proof -
  have upd: "cell_scalars (c\<lparr>sc_occurrences := x\<rparr>) = cell_scalars c"
    "cell_scalars (c\<lparr>sc_fts := x1\<rparr>) = cell_scalars c" "cell_scalars (c\<lparr>sc_refs := x2\<rparr>) = cell_scalars c"
    "cell_scalars (c\<lparr>sc_addresses := x3\<rparr>) = cell_scalars c"
    "cell_scalars (c\<lparr>sc_memberships := x4\<rparr>) = cell_scalars c"
    "cell_scalars (c\<lparr>sc_event_index := x5\<rparr>) = cell_scalars c"
    "cell_scalars (c\<lparr>sc_participants := x6\<rparr>) = cell_scalars c"
    for c :: "'a scope_cell" and x x1 x2 x3 x4 x5 x6 by (simp_all add: cell_scalars_def)
  show ?thesis
    by (simp add: apply_derived_def Let_def upd fold_keeps [where f = cell_scalars] cell_scalars_steps)
qed

lemma apply_derived_scalars [simp]:
  "sc_token (apply_derived d c) = sc_token c" "sc_lease_expiry (apply_derived d c) = sc_lease_expiry c"
  "sc_state (apply_derived d c) = sc_state c" "sc_window (apply_derived d c) = sc_window c"
  "sc_collection_tag (apply_derived d c) = sc_collection_tag c"
  "sc_objects (apply_derived d c) = sc_objects c"
  using cell_scalars_apply_derived [of d c] by (simp_all add: cell_scalars_def)

section \<open>Replaying a batch\<close>

text \<open>
  Two cells that answer every lookup alike.
\<close>

definition cell_equiv :: "'v scope_cell \<Rightarrow> 'v scope_cell \<Rightarrow> bool" where
  "cell_equiv a b \<longleftrightarrow> sc_token a = sc_token b \<and> sc_lease_expiry a = sc_lease_expiry b \<and>
     sc_state a = sc_state b \<and> sc_window a = sc_window b \<and>
     sc_collection_tag a = sc_collection_tag b \<and>
     hm_get (sc_objects a) = hm_get (sc_objects b) \<and> cell_slice a = cell_slice b"

lemma last_row_idem [simp]: "last_row kf vf rows k (last_row kf vf rows k old) = last_row kf vf rows k old"
  by (simp add: last_row_def split: option.splits)

lemma own_rows_idem [simp]: "own_rows kf rows k (own_rows kf rows k old) = own_rows kf rows k old"
  by (simp add: own_rows_def)

text \<open>The membership rows a loop of state changes leaves.\<close>

definition other_kinds :: "membership_row list \<Rightarrow> membership_row list" where
  "other_kinds ms = filter (\<lambda>m. mb_kind m \<noteq> MkKeyword \<and> mb_kind m \<noteq> MkMailbox) ms"

lemma membership_rows_kind:
  "filter (\<lambda>m. mb_kind m \<noteq> kind) (membership_rows k kind vs) = []"
  "kind \<noteq> kind' \<Longrightarrow> filter (\<lambda>m. mb_kind m \<noteq> kind) (membership_rows k kind' vs) = membership_rows k kind' vs"
  by (auto simp: membership_rows_def filter_map comp_def)

lemma other_kinds_append [simp]: "other_kinds (xs @ ys) = other_kinds xs @ other_kinds ys"
  by (simp add: other_kinds_def)

lemma other_kinds_rows [simp]:
  "other_kinds (membership_rows k MkKeyword vs) = []" "other_kinds (membership_rows k MkMailbox vs) = []"
  by (auto simp: other_kinds_def membership_rows_def filter_map comp_def)

lemma other_kinds_filter [simp]:
  "other_kinds (filter (\<lambda>m. mb_kind m \<noteq> MkKeyword) ms) = other_kinds ms"
  "other_kinds (filter (\<lambda>m. mb_kind m \<noteq> MkMailbox) ms) = other_kinds ms"
  "other_kinds (other_kinds ms) = other_kinds ms"
  by (auto simp: other_kinds_def intro: filter_cong)

lemma other_kinds_fold:
  "filter (\<lambda>m. mb_kind m \<noteq> MkKeyword \<and> mb_kind m \<noteq> MkMailbox) ms = other_kinds ms"
  by (simp add: other_kinds_def)

lemma filter_other_kinds:
  "filter (\<lambda>m. mb_kind m \<noteq> MkKeyword) (other_kinds ms) = other_kinds ms"
  "filter (\<lambda>m. mb_kind m \<noteq> MkMailbox) (filter (\<lambda>m. mb_kind m \<noteq> MkKeyword) ms) = other_kinds ms"
  by (auto simp: other_kinds_def intro: filter_cong)

lemma other_kinds_state [simp]: "other_kinds (state_change_memberships r ms) = other_kinds ms"
  by (simp add: state_change_memberships_def replace_kind_def Let_def other_kinds_fold
      split: option.splits)

lemma other_kinds_loop [simp]: "other_kinds (fold state_change_memberships rs ms) = other_kinds ms"
  by (induction rs arbitrary: ms) auto

lemma state_memberships_plain:
  assumes "sr_mailboxes r = None"
  shows "state_change_memberships r ms =
    filter (\<lambda>m. mb_kind m \<noteq> MkKeyword) ms @ membership_rows (sr_key r) MkKeyword (sr_keywords r)"
  using assms by (simp add: state_change_memberships_def replace_kind_def)

lemma state_memberships_filed:
  assumes "sr_mailboxes r = Some mbs"
  shows "state_change_memberships r ms = other_kinds ms @
    membership_rows (sr_key r) MkKeyword (sr_keywords r) @ membership_rows (sr_key r) MkMailbox mbs"
  using assms
  by (simp add: state_change_memberships_def replace_kind_def other_kinds_fold membership_rows_kind)

lemma state_loop_plain:
  assumes "\<forall>r \<in> set rs. sr_mailboxes r = None" "rs \<noteq> []"
  shows "fold state_change_memberships rs ms = filter (\<lambda>m. mb_kind m \<noteq> MkKeyword) ms @
    membership_rows (sr_key (last rs)) MkKeyword (sr_keywords (last rs))"
  using assms
proof (induction rs arbitrary: ms)
  case (Cons r rs)
  show ?case
  proof (cases "rs = []")
    case True
    with Cons.prems show ?thesis by (simp add: state_memberships_plain)
  next
    case False
    with Cons show ?thesis by (simp add: state_memberships_plain membership_rows_kind)
  qed
qed simp

lemma state_loop_filed:
  assumes "\<exists>r \<in> set rs. sr_mailboxes r \<noteq> None"
  shows "\<exists>T. \<forall>ms. fold state_change_memberships rs ms = other_kinds ms @ T"
  using assms
proof (induction rs rule: rev_induct)
  case (snoc r rs)
  show ?case
  proof (cases "sr_mailboxes r")
    case (Some mbs)
    then show ?thesis by (auto simp: state_memberships_filed)
  next
    case None
    with snoc obtain T where "\<forall>ms. fold state_change_memberships rs ms = other_kinds ms @ T" by auto
    with None show ?thesis by (auto simp: state_memberships_plain filter_other_kinds)
  qed
qed simp

lemma state_loop_idem:
  "fold state_change_memberships rs (fold state_change_memberships rs ms) =
     fold state_change_memberships rs ms"
proof (cases "\<exists>r \<in> set rs. sr_mailboxes r \<noteq> None")
  case True
  then obtain T where T: "\<And>ms. fold state_change_memberships rs ms = other_kinds ms @ T"
    using state_loop_filed by blast
  then have "fold state_change_memberships rs (fold state_change_memberships rs ms) =
      other_kinds (fold state_change_memberships rs ms) @ T" .
  also have "\<dots> = other_kinds ms @ T" by simp
  also have "\<dots> = fold state_change_memberships rs ms" by (rule T [symmetric])
  finally show ?thesis .
next
  case False
  then have plain: "\<forall>r \<in> set rs. sr_mailboxes r = None" by simp
  show ?thesis
  proof (cases "rs = []")
    case ne: False
    show ?thesis unfolding state_loop_plain [OF plain ne] by (simp add: membership_rows_kind)
  qed simp
qed

text \<open>The message row a loop of whole rows, then of state changes, then of thread assignments leaves.\<close>

definition rows_thread :: "mail_row list \<Rightarrow> thread_id option" where
  "rows_thread rows = fold (\<lambda>r t. opt_or (mr_thread_id r) t) rows None"

definition rows_preview :: "mail_row list \<Rightarrow> string option" where
  "rows_preview rows = fold (\<lambda>r t. opt_or (mr_preview r) t) rows None"

lemma opt_or_fold: "fold (\<lambda>r t. opt_or (f r) t) rows t0 = opt_or (fold (\<lambda>r t. opt_or (f r) t) rows None) t0"
  by (induction rows rule: rev_induct) (auto simp: opt_or_assoc)

lemma message_loop:
  assumes "rows \<noteq> []"
  shows "sl_message (fold slice_message rows s) = Some ((last rows)\<lparr>
    mr_thread_id := opt_or (rows_thread rows) (Option.bind (sl_message s) mr_thread_id),
    mr_preview := opt_or (rows_preview rows) (Option.bind (sl_message s) mr_preview)\<rparr>)"
  using assms
proof (induction rows rule: rev_induct)
  case (snoc r rows)
  show ?case
  proof (cases "rows = []")
    case True
    then show ?thesis
      by (simp add: slice_message_def merge_mail_row_def rows_thread_def rows_preview_def
          split: option.splits)
  next
    case False
    with snoc.IH show ?thesis
      by (simp add: slice_message_def merge_mail_row_def rows_thread_def rows_preview_def opt_or_assoc)
  qed
qed simp

lemma state_loop_message:
  "sl_message (fold slice_state rs s) = map_option (fold state_change_row rs) (sl_message s)"
  by (induction rs arbitrary: s) (auto simp: slice_state_def option.map_id option.map_comp comp_def split: option.splits)

lemma thread_loop_message:
  "sl_message (fold slice_thread ts s) = map_option (\<lambda>m.
     m\<lparr>mr_thread_id := (if ts = [] then mr_thread_id m else Some (tr_thread_id (last ts)))\<rparr>) (sl_message s)"
  by (induction ts arbitrary: s) (auto simp: slice_thread_def option.map_ident option.map_comp comp_def)

lemma state_rows_eq:
  "fold state_change_row rs m = m\<lparr>
     mr_flags := (if rs = [] then mr_flags m else sr_flags (last rs)),
     mr_revisions := revision_or (fold (\<lambda>r p. revision_or (sr_revisions r) p) rs revision_none) (mr_revisions m),
     mr_last_modified := opt_or (fold (\<lambda>r p. opt_or (sr_last_modified r) p) rs None) (mr_last_modified m)\<rparr>"
proof (induction rs rule: rev_induct)
  case (snoc r rs)
  then show ?case
    by (simp add: state_change_row_def revision_or_assoc opt_or_assoc)
qed simp

definition slice_rest where
  "slice_rest s = (sl_fts s, sl_occurrences s, sl_refs s, sl_addresses s, sl_event_index s,
     sl_participants s)"

lemma slice_rest_steps:
  "slice_rest (slice_message m s) = slice_rest s" "slice_rest (slice_state r s) = slice_rest s"
  "slice_rest (slice_thread t s) = slice_rest s"
  by (auto simp: slice_rest_def slice_message_def slice_state_def slice_thread_def split: option.splits)

lemma slice_rest_mail [simp]: "slice_rest (slice_mail d k s) = slice_rest s"
  by (simp add: slice_mail_def fold_keeps [where f = slice_rest] slice_rest_steps)

lemma slice_eqI:
  "slice_rest a = slice_rest b \<Longrightarrow> sl_message a = sl_message b \<Longrightarrow>
     sl_memberships a = sl_memberships b \<Longrightarrow> (a :: slice) = b"
  by (simp add: slice_rest_def)

lemma memberships_untouched:
  "sl_memberships (fold slice_message rows s) = sl_memberships s"
  "sl_memberships (fold slice_thread ts s) = sl_memberships s"
  by (simp_all add: fold_keeps [where f = sl_memberships] slice_message_def slice_thread_def)

lemma state_loop_memberships:
  "sl_memberships (fold slice_state rs s) =
     (if sl_message s = None \<or> rs = [] then sl_memberships s
      else Some (fold state_change_memberships rs (or_default (sl_memberships s))))"
proof (induction rs arbitrary: s)
  case (Cons r rs)
  show ?case
  proof (cases "sl_message s")
    case None
    then have "slice_state r s = s" by (simp add: slice_state_def)
    with None Cons.IH [of s] show ?thesis by simp
  next
    case (Some ex)
    then have "sl_message (slice_state r s) \<noteq> None"
      "sl_memberships (slice_state r s) = Some (state_change_memberships r (or_default (sl_memberships s)))"
      by (simp_all add: slice_state_def)
    with Some Cons.IH [of "slice_state r s"] show ?thesis by (simp add: or_default_def)
  qed
qed simp

text \<open>The message row of one key as a function of the row that was there.\<close>

definition mail_out :: "derived_write \<Rightarrow> provider_key \<Rightarrow> mail_row option \<Rightarrow> mail_row option" where
  "mail_out d k m =
     (let M = filter (\<lambda>r. mr_key r = k) (dw_messages d);
          R = filter (\<lambda>r. sr_key r = k) (dw_state_changes d);
          T = filter (\<lambda>r. tr_key r = k) (dw_thread_assignments d);
          m = (if M = [] then m else Some ((last M)\<lparr>
            mr_thread_id := opt_or (rows_thread M) (Option.bind m mr_thread_id),
            mr_preview := opt_or (rows_preview M) (Option.bind m mr_preview)\<rparr>))
      in map_option (\<lambda>x. x\<lparr>mr_thread_id := (if T = [] then mr_thread_id x else Some (tr_thread_id (last T)))\<rparr>)
           (map_option (fold state_change_row R) m))"

lemma slice_mail_message: "sl_message (slice_mail d k s) = mail_out d k (sl_message s)"
proof (cases "filter (\<lambda>r. mr_key r = k) (dw_messages d) = []")
  case True
  then show ?thesis
    by (simp add: slice_mail_def mail_out_def thread_loop_message state_loop_message Let_def)
next
  case False
  then show ?thesis
    by (simp add: slice_mail_def mail_out_def thread_loop_message state_loop_message Let_def
        message_loop [OF False])
qed

lemma mail_out_idem: "mail_out d k (mail_out d k m) = mail_out d k m"
proof (cases "mail_out d k m")
  case None
  then have "m = None" by (simp add: mail_out_def Let_def split: if_splits)
  with None show ?thesis by simp
next
  case (Some x)
  then show ?thesis
    by (auto simp: mail_out_def Let_def state_rows_eq split: if_splits)
qed

lemma slice_mail_memberships:
  "sl_memberships (slice_mail d k s) =
     (let R = filter (\<lambda>r. sr_key r = k) (dw_state_changes d) in
      if mail_out d k (sl_message s) = None \<or> R = [] then sl_memberships s
      else Some (fold state_change_memberships R (or_default (sl_memberships s))))"
proof -
  let ?M = "filter (\<lambda>r. mr_key r = k) (dw_messages d)"
  have "sl_message (fold slice_message ?M s) = None \<longleftrightarrow> mail_out d k (sl_message s) = None"
    by (cases "?M = []") (simp_all add: mail_out_def message_loop Let_def)
  then show ?thesis
    by (simp add: slice_mail_def memberships_untouched state_loop_memberships Let_def)
qed

text \<open>
  The expanded occurrences of a batch are for events whose stored ones it clears first, which is what
  the derivation passes build (\<open>reset_occurrences\<close>, or \<open>removed\<close> in a maintenance batch).
\<close>

definition occurrences_reset :: "derived_write \<Rightarrow> bool" where
  "occurrences_reset d \<longleftrightarrow>
     (\<forall>occ \<in> set (dw_occurrences d). or_event occ \<in> set (dw_removed d) \<union> set (dw_reset_occurrences d))"

lemma push_rows_idem:
  assumes "occurrences_reset d" "k \<notin> set (dw_removed d)"
  shows "push_rows or_event (dw_occurrences d) k
      (if k \<in> set (dw_reset_occurrences d) then None else
         push_rows or_event (dw_occurrences d) k (if k \<in> set (dw_reset_occurrences d) then None else x)) =
    push_rows or_event (dw_occurrences d) k (if k \<in> set (dw_reset_occurrences d) then None else x)"
proof (cases "k \<in> set (dw_reset_occurrences d)")
  case False
  with assms have "filter (\<lambda>occ. or_event occ = k) (dw_occurrences d) = []"
    by (auto simp: occurrences_reset_def filter_empty_conv)
  with False show ?thesis by (simp add: push_rows_def)
qed simp

lemma slice_apply_removed: "k \<in> set (dw_removed d) \<Longrightarrow> slice_apply d k s = slice_apply d k s'"
  by (simp add: slice_apply_def Let_def)

lemma slice_rest_fields:
  "slice_rest a = slice_rest b \<longleftrightarrow> sl_fts a = sl_fts b \<and> sl_occurrences a = sl_occurrences b \<and>
     sl_refs a = sl_refs b \<and> sl_addresses a = sl_addresses b \<and> sl_event_index a = sl_event_index b \<and>
     sl_participants a = sl_participants b"
  by (simp add: slice_rest_def)

lemma slice_mail_fields [simp]:
  "sl_fts (slice_mail d k s) = sl_fts s" "sl_occurrences (slice_mail d k s) = sl_occurrences s"
  "sl_refs (slice_mail d k s) = sl_refs s" "sl_addresses (slice_mail d k s) = sl_addresses s"
  "sl_event_index (slice_mail d k s) = sl_event_index s"
  "sl_participants (slice_mail d k s) = sl_participants s"
  using slice_rest_mail [of d k s] by (simp_all only: slice_rest_fields)

lemma slice_apply_fields:
  assumes "k \<notin> set (dw_removed d)"
  shows "sl_fts (slice_apply d k s) = last_row fr_key fr_fields (dw_fts d) k (sl_fts s)"
    "sl_occurrences (slice_apply d k s) = push_rows or_event (dw_occurrences d) k
       (if k \<in> set (dw_reset_occurrences d) then None else sl_occurrences s)"
    "sl_message (slice_apply d k s) = mail_out d k (sl_message s)"
    "sl_refs (slice_apply d k s) = own_rows rr_key (dw_msgid_refs d) k (sl_refs s)"
    "sl_addresses (slice_apply d k s) = own_rows ar_key (dw_addresses d) k (sl_addresses s)"
    "sl_event_index (slice_apply d k s) = last_row ei_key (\<lambda>r. r) (dw_event_index d) k (sl_event_index s)"
    "sl_participants (slice_apply d k s) = own_rows ep_key (dw_participants d) k (sl_participants s)"
    "sl_memberships (slice_apply d k s) = own_rows mb_key (dw_memberships d) k
       (let R = filter (\<lambda>r. sr_key r = k) (dw_state_changes d) in
        if mail_out d k (sl_message s) = None \<or> R = [] then sl_memberships s
        else Some (fold state_change_memberships R (or_default (sl_memberships s))))"
  using assms by (simp_all add: slice_apply_def Let_def slice_mail_message slice_mail_memberships) auto

lemma slice_apply_idem:
  assumes "occurrences_reset d"
  shows "slice_apply d k (slice_apply d k s) = slice_apply d k s"
proof (cases "k \<in> set (dw_removed d)")
  case True
  then show ?thesis by (rule slice_apply_removed)
next
  case False
  note f = slice_apply_fields [OF False]
  show ?thesis
  proof (rule slice_eqI)
    show "slice_rest (slice_apply d k (slice_apply d k s)) = slice_rest (slice_apply d k s)"
      by (simp only: slice_rest_fields f last_row_idem own_rows_idem push_rows_idem [OF assms False]
          simp_thms)
    show "sl_message (slice_apply d k (slice_apply d k s)) = sl_message (slice_apply d k s)"
      by (simp add: f mail_out_idem)
    show "sl_memberships (slice_apply d k (slice_apply d k s)) = sl_memberships (slice_apply d k s)"
      by (simp add: f mail_out_idem own_rows_def Let_def or_default_def state_loop_idem
          split: option.splits)
  qed
qed

lemma apply_derived_replay:
  assumes "occurrences_reset d"
  shows "cell_equiv (apply_derived d (apply_derived d c)) (apply_derived d c)"
  unfolding cell_equiv_def
  by (simp add: fun_eq_iff cell_slice_apply_derived slice_apply_idem [OF assms])

end
