(* ===== verification/Settle.thy ===== *)
theory Settle
  imports Write_Contract
begin

text \<open>
  What recording an outcome does to an op (\<open>engine-store/src/settle.rs\<close>), and the per-op cell of the
  in-memory store with the operations on it (\<open>OpCell\<close> in \<open>mem/mod.rs\<close>, \<open>mem/outbox.rs\<close>).
\<close>

section \<open>Recording an outcome\<close>

record recorded =
  rc_state :: pending_op_state
  rc_attempts :: nat
  rc_next_attempt_at :: "instant option"
  rc_failure_class :: "failure_class option"
  rc_detail :: "string option"
  rc_keeps_hand_over :: bool

definition settles_on_attempts :: "pending_op_kind option \<Rightarrow> bool" where
  "settles_on_attempts kind \<longleftrightarrow> kind \<noteq> Some MailSubmit"

definition record_outcome ::
  "pdt_add \<Rightarrow> pending_op_kind option \<Rightarrow> nat \<Rightarrow> pending_outcome \<Rightarrow> instant \<Rightarrow> (store_error, recorded) result"
where
  "record_outcome padd kind attempts_before outcome now =
     (let attempts = sat_add u32_max attempts_before 1 in
      case outcome of
        OSucceeded _ \<Rightarrow>
          Inr \<lparr>rc_state = Succeeded, rc_attempts = attempts, rc_next_attempt_at = None,
               rc_failure_class = None, rc_detail = None, rc_keeps_hand_over = False\<rparr>
      | OFailed class retry_after \<Rightarrow>
          (let parks = is_retryable class \<and> (\<not> settles_on_attempts kind \<or> attempts < max_attempts) in
           if parks then
             (case utc_checked_add padd now (retry_delay attempts retry_after) of
                None \<Rightarrow> Inl (Backend ''retry delay overflow'')
              | Some due \<Rightarrow>
                  Inr \<lparr>rc_state = Pending, rc_attempts = attempts, rc_next_attempt_at = Some due,
                       rc_failure_class = Some class, rc_detail = None, rc_keeps_hand_over = False\<rparr>)
           else
             Inr \<lparr>rc_state = Failed, rc_attempts = attempts, rc_next_attempt_at = None,
                  rc_failure_class = Some class, rc_detail = None, rc_keeps_hand_over = False\<rparr>)
      | ONeedsConfirmation detail \<Rightarrow>
          Inr \<lparr>rc_state = NeedsConfirmation, rc_attempts = attempts, rc_next_attempt_at = None,
               rc_failure_class = None, rc_detail = Some detail, rc_keeps_hand_over = True\<rparr>)"

definition interrupted_detail :: string where
  "interrupted_detail = ''the attempt ended after the message was handed to the server, so whether it was delivered is unknown''"

fun interrupted_outcome :: "pending_op_kind \<Rightarrow> bool \<Rightarrow> pending_outcome" where
  "interrupted_outcome MailSubmit handed_over =
     (if handed_over then ONeedsConfirmation interrupted_detail
      else OFailed Retryable (Some duration_zero))"
| "interrupted_outcome _ _ = OFailed Retryable None"

definition stays_listed :: "pending_op_kind option \<Rightarrow> pending_op_state \<Rightarrow> bool" where
  "stays_listed kind state \<longleftrightarrow>
     \<not> is_terminal state \<or> state = Failed \<and> kind = Some MailSubmit"

lemma record_outcome_never_inflight:
  "record_outcome padd kind n out now = Inr r \<Longrightarrow> rc_state r \<noteq> InFlight \<and> rc_state r \<noteq> Cancelled"
  by (auto simp: record_outcome_def Let_def split: pending_outcome.splits if_splits option.splits)

lemma record_outcome_attempts:
  "record_outcome padd kind n out now = Inr r \<Longrightarrow> rc_attempts r = sat_add u32_max n 1"
  by (auto simp: record_outcome_def Let_def split: pending_outcome.splits if_splits option.splits)

lemma record_outcome_due:
  "record_outcome padd kind n out now = Inr r \<Longrightarrow> rc_next_attempt_at r \<noteq> None \<longleftrightarrow> rc_state r = Pending"
  by (auto simp: record_outcome_def Let_def split: pending_outcome.splits if_splits option.splits)

lemma record_outcome_keeps:
  "record_outcome padd kind n out now = Inr r \<Longrightarrow>
     rc_keeps_hand_over r \<longleftrightarrow> rc_state r = NeedsConfirmation"
  by (auto simp: record_outcome_def Let_def split: pending_outcome.splits if_splits option.splits)

text \<open>
  The whole table of outcomes: where each lands, for every kind of op and attempt count.
\<close>

lemma record_outcome_state:
  assumes "record_outcome padd kind n out now = Inr r"
  shows "rc_state r = (case out of
      OSucceeded _ \<Rightarrow> Succeeded
    | ONeedsConfirmation _ \<Rightarrow> NeedsConfirmation
    | OFailed c _ \<Rightarrow>
        (if is_retryable c \<and> (kind = Some MailSubmit \<or> Suc n < max_attempts) then Pending else Failed))"
proof -
  have "sat_add u32_max n 1 < max_attempts \<longleftrightarrow> Suc n < max_attempts"
    by (auto simp: sat_add_def u32_max_def max_attempts_def min_def)
  with assms show ?thesis
    by (auto simp: record_outcome_def Let_def settles_on_attempts_def
        split: pending_outcome.splits if_splits option.splits)
qed

lemma record_outcome_total:
  assumes "\<And>d. utc_checked_add padd now d \<noteq> None"
  shows "\<exists>r. record_outcome padd kind n out now = Inr r"
proof (cases out)
  case (OFailed c ra)
  obtain t where "utc_checked_add padd now (retry_delay (sat_add u32_max n 1) ra) = Some t"
    using assms by blast
  with OFailed show ?thesis by (simp add: record_outcome_def Let_def)
qed (simp_all add: record_outcome_def Let_def)

section \<open>The op cell\<close>

record 'v op_cell =
  oc_account :: account_id
  oc_op :: "'v pending_op"
  oc_state :: pending_op_state
  oc_token :: fence_token
  oc_lease_expiry :: "instant option"
  oc_attempts :: nat
  oc_next_attempt_at :: "instant option"
  oc_failure_class :: "failure_class option"
  oc_detail :: "string option"
  oc_handed_over :: "fence_token option"
  oc_settled_at :: "instant option"

text \<open>\<open>is_live\<close>: a lease is held and has not expired.\<close>

definition is_live :: "instant option \<Rightarrow> instant \<Rightarrow> bool" where
  "is_live expiry now = is_some_and expiry (\<lambda>e. e > now)"

definition cell_recorded ::
  "pdt_add \<Rightarrow> 'v op_cell \<Rightarrow> pending_outcome \<Rightarrow> instant \<Rightarrow> (store_error, recorded) result" where
  "cell_recorded padd c outcome now =
     record_outcome padd (Some (po_kind (oc_op c))) (oc_attempts c) outcome now"

definition cell_record ::
  "pdt_add \<Rightarrow> pending_outcome \<Rightarrow> instant \<Rightarrow> 'v op_cell \<Rightarrow> (store_error, unit) result \<times> 'v op_cell" where
  "cell_record padd outcome now c = (case cell_recorded padd c outcome now of
      Inl e \<Rightarrow> (Inl e, c)
    | Inr r \<Rightarrow>
        (Inr (), c\<lparr>oc_lease_expiry := None, oc_state := rc_state r, oc_attempts := rc_attempts r,
           oc_next_attempt_at := rc_next_attempt_at r, oc_failure_class := rc_failure_class r,
           oc_detail := rc_detail r,
           oc_handed_over := (if rc_keeps_hand_over r then oc_handed_over c else None)\<rparr>))"

definition cell_interrupted :: "'v op_cell \<Rightarrow> pending_outcome" where
  "cell_interrupted c = interrupted_outcome (po_kind (oc_op c)) (oc_handed_over c \<noteq> None)"

definition cell_is_dead :: "instant \<Rightarrow> 'v op_cell \<Rightarrow> bool" where
  "cell_is_dead now c \<longleftrightarrow> oc_state c = InFlight \<and> \<not> is_live (oc_lease_expiry c) now"

definition cell_view :: "pdt_add \<Rightarrow> instant \<Rightarrow> 'v op_cell \<Rightarrow> (store_error, recorded) result" where
  "cell_view padd now c =
     (if cell_is_dead now c then cell_recorded padd c (cell_interrupted c) now
      else Inr \<lparr>rc_state = oc_state c, rc_attempts = oc_attempts c,
                rc_next_attempt_at = oc_next_attempt_at c, rc_failure_class = oc_failure_class c,
                rc_detail = oc_detail c, rc_keeps_hand_over = oc_handed_over c \<noteq> None\<rparr>)"

definition cell_recover :: "pdt_add \<Rightarrow> instant \<Rightarrow> 'v op_cell \<Rightarrow> (store_error, unit) result \<times> 'v op_cell" where
  "cell_recover padd now c = (case cell_record padd (cell_interrupted c) now c of
      (Inl e, c') \<Rightarrow> (Inl e, c')
    | (Inr u, c') \<Rightarrow> (Inr u, c'\<lparr>oc_token := fence_bump (oc_token c')\<rparr>))"

definition cell_rearm :: "'v op_cell \<Rightarrow> 'v op_cell" where
  "cell_rearm c = c\<lparr>oc_token := fence_bump (oc_token c), oc_state := Pending,
     oc_lease_expiry := None, oc_next_attempt_at := None, oc_handed_over := None,
     oc_detail := None\<rparr>"

definition cell_lease :: "instant \<Rightarrow> 'v op_cell \<Rightarrow> 'v op_cell" where
  "cell_lease expiry c = c\<lparr>oc_token := fence_bump (oc_token c), oc_state := InFlight,
     oc_lease_expiry := Some expiry\<rparr>"

text \<open>Each cell operation as the fields it leaves behind.\<close>

lemma cell_record_cases:
  assumes "cell_record padd out now c = (res, c')"
  obtains (err) e where "res = Inl e" "c' = c" "cell_recorded padd c out now = Inl e"
  | (ok) r where "res = Inr ()" "cell_recorded padd c out now = Inr r"
      "c' = c\<lparr>oc_lease_expiry := None, oc_state := rc_state r, oc_attempts := rc_attempts r,
           oc_next_attempt_at := rc_next_attempt_at r, oc_failure_class := rc_failure_class r,
           oc_detail := rc_detail r,
           oc_handed_over := (if rc_keeps_hand_over r then oc_handed_over c else None)\<rparr>"
  using assms by (auto simp: cell_record_def split: sum.splits)

lemma cell_recover_cases:
  assumes "cell_recover padd now c = (res, c')"
  obtains (err) e where "res = Inl e" "c' = c"
  | (ok) r where "res = Inr ()" "cell_recorded padd c (cell_interrupted c) now = Inr r"
      "c' = c\<lparr>oc_token := fence_bump (oc_token c), oc_lease_expiry := None,
           oc_state := rc_state r, oc_attempts := rc_attempts r,
           oc_next_attempt_at := rc_next_attempt_at r, oc_failure_class := rc_failure_class r,
           oc_detail := rc_detail r,
           oc_handed_over := (if rc_keeps_hand_over r then oc_handed_over c else None)\<rparr>"
  using assms by (auto simp: cell_recover_def cell_record_def split: sum.splits prod.splits)

lemma cell_recorded_never_inflight:
  "cell_recorded padd c out now = Inr r \<Longrightarrow> rc_state r \<noteq> InFlight \<and> rc_state r \<noteq> Cancelled"
  unfolding cell_recorded_def by (rule record_outcome_never_inflight)

lemma cell_interrupted_state:
  assumes "cell_recorded padd c (cell_interrupted c) now = Inr r"
  shows "rc_state r =
    (if po_kind (oc_op c) = MailSubmit then
       (if oc_handed_over c = None then Pending else NeedsConfirmation)
     else if Suc (oc_attempts c) < max_attempts then Pending else Failed)"
  using record_outcome_state [OF assms [unfolded cell_recorded_def]]
  by (cases "po_kind (oc_op c)") (auto simp: cell_interrupted_def)

text \<open>
  A read shows a dead attempt exactly as its recovery leaves it: \<open>view\<close> before is \<open>view\<close> after.
\<close>

lemma cell_view_recover:
  assumes dead: "cell_is_dead now c" and rec: "cell_recover padd now c = (Inr (), c')"
    and view: "cell_view padd now c = Inr v"
  shows "\<exists>v'. cell_view padd now c' = Inr v' \<and> rc_state v' = rc_state v \<and>
    rc_attempts v' = rc_attempts v \<and> rc_next_attempt_at v' = rc_next_attempt_at v \<and>
    rc_failure_class v' = rc_failure_class v \<and> rc_detail v' = rc_detail v"
proof -
  from view dead have v: "cell_recorded padd c (cell_interrupted c) now = Inr v"
    by (simp add: cell_view_def)
  from rec v have c': "oc_state c' = rc_state v" "oc_attempts c' = rc_attempts v"
    "oc_next_attempt_at c' = rc_next_attempt_at v" "oc_failure_class c' = rc_failure_class v"
    "oc_detail c' = rc_detail v"
    by (auto elim!: cell_recover_cases)
  have "\<not> cell_is_dead now c'"
    using cell_recorded_never_inflight [OF v] c'(1) by (simp add: cell_is_dead_def)
  with c' show ?thesis by (simp add: cell_view_def)
qed

end
