(* ===== verification/Mem_State.thy ===== *)
theory Mem_State
  imports Scope_Cell Settle "HOL-Library.Product_Lexorder"
begin

text \<open>
  The whole state of the in-memory store (\<open>Inner\<close> in \<open>engine-store/src/mem/mod.rs\<close>) and the
  keyword overlay (\<open>mem/keyword_edits.rs\<close>): a queued keyword change is shown over what the server
  last reported, from the moment it is queued until it settles.

  \<open>Inner\<close> also holds the people index, recipient coverage, contact availability and photos; only the
  contact operations read or write those, and they are not part of this record.
\<close>

section \<open>State\<close>

type_synonym canonical_email = string
type_synonym message_id = string

record recipient_observation =
  ro_account :: account_id
  ro_source_message :: message_id
  ro_email :: canonical_email
  ro_name :: "string option"
  ro_sent_at :: "instant option"

record observation_cell =
  ob_observation :: recipient_observation
  ob_suppressed :: bool

type_synonym 'v scopes = "(sync_scope, 'v scope_cell) hash_map"
type_synonym 'v ops = "(pending_op_id, 'v op_cell) btree_map"
type_synonym observations = "(account_id \<times> message_id \<times> canonical_email, observation_cell) btree_map"

record 'v inner =
  in_scopes :: "'v scopes"
  in_ops :: "'v ops"
  in_idempotency :: "(account_id \<times> idempotency_key, pending_op_id) hash_map"
  in_next_op :: "64 word"
  in_contact_generation :: nat
  in_observations :: observations
  in_server_keywords :: "(account_id \<times> provider_key, keyword btree_set) hash_map"

definition inner_new :: "'v inner" where
  "inner_new = \<lparr>in_scopes = [], in_ops = [], in_idempotency = [], in_next_op = 0,
     in_contact_generation = 0, in_observations = [], in_server_keywords = []\<rparr>"

definition expiry_after :: "pdt_add \<Rightarrow> instant \<Rightarrow> lease_request \<Rightarrow> (store_error, instant) result" where
  "expiry_after padd now req = (case utc_checked_add padd now (lq_ttl req) of
      None \<Rightarrow> Inl (Backend ''lease ttl overflow'') | Some e \<Rightarrow> Inr e)"

section \<open>The keyword overlay\<close>

definition row_keywords :: "'v scope_cell \<Rightarrow> provider_key \<Rightarrow> keyword btree_set" where
  "row_keywords c key = bs_of (List.map_filter
     (\<lambda>m. if mb_kind m = MkKeyword
          then (case keyword_new (mb_value m) of Inl _ \<Rightarrow> None | Inr kw \<Rightarrow> Some kw) else None)
     (or_default (hm_get (sc_memberships c) key)))"

definition account_edits ::
  "'v ops \<Rightarrow> account_id \<Rightarrow> provider_key \<Rightarrow> ('v op_cell \<Rightarrow> bool) \<Rightarrow> keyword_edit list" where
  "account_edits ops account key keep =
     filter (\<lambda>e. ke_key e = key)
       (List.map_filter (\<lambda>op. po_keyword_edit (oc_op op))
         (filter (\<lambda>op. oc_account op = account \<and> keep op) (map snd ops)))"

definition unsettled_edits :: "'v ops \<Rightarrow> account_id \<Rightarrow> provider_key \<Rightarrow> keyword_edit list" where
  "unsettled_edits ops account key = account_edits ops account key (\<lambda>op. \<not> is_terminal (oc_state op))"

definition held_keywords :: "'v scopes \<Rightarrow> account_id \<Rightarrow> provider_key \<Rightarrow> keyword btree_set option" where
  "held_keywords scopes account key =
     map_option (\<lambda>(_, c). row_keywords c key)
       (find (\<lambda>(s, c). scope_account s = account \<and> hm_get (sc_messages c) key \<noteq> None) scopes)"

definition show_cell :: "provider_key \<Rightarrow> keyword btree_set \<Rightarrow> 'v scope_cell \<Rightarrow> 'v scope_cell" where
  "show_cell key keywords c = (case hm_get (sc_messages c) key of
      None \<Rightarrow> c
    | Some row \<Rightarrow>
        c\<lparr>sc_messages := hm_insert key (row\<lparr>mr_flags := flags_from_keywords keywords\<rparr>) (sc_messages c),
          sc_memberships := hm_insert key
            (replace_kind key MkKeyword keywords (or_default (hm_get (sc_memberships c) key)))
            (sc_memberships c)\<rparr>)"

definition show_keywords ::
  "account_id \<Rightarrow> provider_key \<Rightarrow> keyword btree_set \<Rightarrow> 'v scopes \<Rightarrow> 'v scopes" where
  "show_keywords account key keywords scopes =
     map (\<lambda>(s, c). (s, if scope_account s \<noteq> account then c else show_cell key keywords c)) scopes"

definition inner_show :: "account_id \<Rightarrow> provider_key \<Rightarrow> keyword btree_set \<Rightarrow> 'v inner \<Rightarrow> 'v inner" where
  "inner_show account key keywords s =
     s\<lparr>in_scopes := show_keywords account key keywords (in_scopes s)\<rparr>"

definition keyword_edit_queued :: "account_id \<Rightarrow> keyword_edit \<Rightarrow> 'v inner \<Rightarrow> 'v inner" where
  "keyword_edit_queued account edit s = (case held_keywords (in_scopes s) account (ke_key edit) of
      None \<Rightarrow> s
    | Some held \<Rightarrow>
        (let entry = (account, ke_key edit);
             server = (case hm_get (in_server_keywords s) entry of None \<Rightarrow> held | Some sv \<Rightarrow> sv);
             s = s\<lparr>in_server_keywords := hm_insert entry server (in_server_keywords s)\<rparr>;
             unsettled = unsettled_edits (in_ops s) account (ke_key edit)
         in inner_show account (ke_key edit) (edit_shown server unsettled) s))"

definition edit_synced_one ::
  "account_id \<Rightarrow> 'v scope_cell \<Rightarrow> provider_key \<Rightarrow> instant option \<Rightarrow> 'v inner \<Rightarrow> 'v inner" where
  "edit_synced_one account cell key observed_from s =
     (if hm_get (sc_messages cell) key = None then s
      else
        let server = row_keywords cell key;
            accepted = (case observed_from of
                None \<Rightarrow> []
              | Some since \<Rightarrow> account_edits (in_ops s) account key
                  (\<lambda>op. oc_state op = Succeeded \<and> is_some_and (oc_settled_at op) (\<lambda>at. at > since)));
            unsettled = unsettled_edits (in_ops s) account key
        in if unsettled = [] \<and> accepted = [] then s
           else
             let server = edit_shown server accepted;
                 s = (if unsettled = [] then s
                      else s\<lparr>in_server_keywords := hm_insert (account, key) server (in_server_keywords s)\<rparr>)
             in inner_show account key (edit_shown server unsettled) s)"

fun keyword_edits_synced ::
  "account_id \<Rightarrow> sync_scope \<Rightarrow> provider_key list \<Rightarrow> instant option \<Rightarrow> 'v inner \<Rightarrow> 'v inner" where
  "keyword_edits_synced account scope [] observed_from s = s"
| "keyword_edits_synced account scope (key # keys) observed_from s =
     (case hm_get (in_scopes s) scope of
        None \<Rightarrow> s
      | Some cell \<Rightarrow>
          keyword_edits_synced account scope keys observed_from
            (edit_synced_one account cell key observed_from s))"

text \<open>
  The sweep after every outbox transition: each op that has become terminal is stamped, and a keyword
  change it carried joins the server's set when it succeeded and drops out otherwise.
\<close>

definition newly_settled :: "'v op_cell \<Rightarrow> bool" where
  "newly_settled op \<longleftrightarrow> is_terminal (oc_state op) \<and> oc_settled_at op = None"

definition settle_one ::
  "account_id \<times> keyword_edit \<times> pending_op_state \<Rightarrow> 'v inner \<Rightarrow> 'v inner" where
  "settle_one x s = (case x of (account, edit, state) \<Rightarrow>
     (let entry = (account, ke_key edit) in
      case hm_get (in_server_keywords s) entry of
        None \<Rightarrow> s
      | Some server \<Rightarrow>
          (let server = (if state = Succeeded then edit_apply_to edit server else server);
               unsettled = unsettled_edits (in_ops s) account (ke_key edit);
               s = s\<lparr>in_server_keywords :=
                 (if unsettled = [] then hm_remove entry (in_server_keywords s)
                  else hm_insert entry server (in_server_keywords s))\<rparr>
           in inner_show account (ke_key edit) (edit_shown server unsettled) s)))"

definition newly_settled_edits :: "'v ops \<Rightarrow> (account_id \<times> keyword_edit \<times> pending_op_state) list" where
  "newly_settled_edits ops = List.map_filter
     (\<lambda>op. map_option (\<lambda>e. (oc_account op, e, oc_state op)) (po_keyword_edit (oc_op op)))
     (filter newly_settled (map snd ops))"

definition stamp_settled :: "instant \<Rightarrow> 'v op_cell \<Rightarrow> 'v op_cell" where
  "stamp_settled now op = (if newly_settled op then op\<lparr>oc_settled_at := Some now\<rparr> else op)"

definition settle_keyword_edits :: "instant \<Rightarrow> 'v inner \<Rightarrow> 'v inner" where
  "settle_keyword_edits now s =
     fold settle_one (newly_settled_edits (in_ops s))
       (s\<lparr>in_ops := map_values (stamp_settled now) (in_ops s)\<rparr>)"

section \<open>What the overlay leaves alone\<close>

lemma inner_show_fields [simp]:
  "in_ops (inner_show a k kws s) = in_ops s"
  "in_idempotency (inner_show a k kws s) = in_idempotency s"
  "in_next_op (inner_show a k kws s) = in_next_op s"
  "in_contact_generation (inner_show a k kws s) = in_contact_generation s"
  "in_observations (inner_show a k kws s) = in_observations s"
  "in_server_keywords (inner_show a k kws s) = in_server_keywords s"
  by (simp_all add: inner_show_def)

lemma show_keywords_get:
  "hm_get (show_keywords a k kws scopes) s =
     map_option (\<lambda>c. if scope_account s \<noteq> a then c else show_cell k kws c) (hm_get scopes s)"
  by (induction scopes) (auto simp: show_keywords_def)

lemma show_keywords_keys [simp]: "hm_keys (show_keywords a k kws scopes) = hm_keys scopes"
  by (simp add: show_keywords_def case_prod_unfold)

lemma show_cell_scalars [simp]: "cell_scalars (show_cell k kws c) = cell_scalars c"
  by (simp add: show_cell_def cell_scalars_def split: option.splits)

text \<open>The overlay touches message flags and keyword memberships; no token, cursor or object.\<close>

definition scope_gen :: "'v scopes \<Rightarrow> sync_scope \<Rightarrow> fence_token" where
  "scope_gen scopes s = (case hm_get scopes s of None \<Rightarrow> fence_initial | Some c \<Rightarrow> sc_token c)"

definition scope_scalars where
  "scope_scalars scopes s = map_option cell_scalars (hm_get scopes s)"

lemma scope_scalars_show [simp]: "scope_scalars (show_keywords a k kws scopes) = scope_scalars scopes"
  by (rule ext, rename_tac x, case_tac "hm_get scopes x")
    (simp_all add: scope_scalars_def show_keywords_get)

lemma scope_scalars_gen: "scope_scalars x = scope_scalars y \<Longrightarrow> scope_gen x = scope_gen y"
  unfolding scope_scalars_def scope_gen_def fun_eq_iff
  by (metis (no_types, lifting) cell_scalars_def option.case_eq_if option.map_disc_iff option.map_sel prod.inject)

lemma inner_show_scalars [simp]:
  "scope_scalars (in_scopes (inner_show a k kws s)) = scope_scalars (in_scopes s)"
  by (simp add: inner_show_def)

lemma settle_one_keeps:
  "in_ops (settle_one x s) = in_ops s" "in_idempotency (settle_one x s) = in_idempotency s"
  "in_next_op (settle_one x s) = in_next_op s"
  "in_contact_generation (settle_one x s) = in_contact_generation s"
  "in_observations (settle_one x s) = in_observations s"
  "scope_scalars (in_scopes (settle_one x s)) = scope_scalars (in_scopes s)"
  by (simp_all add: settle_one_def Let_def split: prod.splits option.splits)

lemma settle_keyword_edits_keeps [simp]:
  "in_ops (settle_keyword_edits now s) = map_values (stamp_settled now) (in_ops s)"
  "in_idempotency (settle_keyword_edits now s) = in_idempotency s"
  "in_next_op (settle_keyword_edits now s) = in_next_op s"
  "in_contact_generation (settle_keyword_edits now s) = in_contact_generation s"
  "in_observations (settle_keyword_edits now s) = in_observations s"
  "scope_scalars (in_scopes (settle_keyword_edits now s)) = scope_scalars (in_scopes s)"
  by (simp_all add: settle_keyword_edits_def settle_one_keeps
      fold_keeps [where f = in_ops] fold_keeps [where f = in_idempotency]
      fold_keeps [where f = in_next_op] fold_keeps [where f = in_contact_generation]
      fold_keeps [where f = in_observations]
      fold_keeps [where f = "\<lambda>s. scope_scalars (in_scopes s)"])

lemma keyword_edit_queued_keeps [simp]:
  "in_ops (keyword_edit_queued a e s) = in_ops s"
  "in_idempotency (keyword_edit_queued a e s) = in_idempotency s"
  "in_next_op (keyword_edit_queued a e s) = in_next_op s"
  "in_contact_generation (keyword_edit_queued a e s) = in_contact_generation s"
  "in_observations (keyword_edit_queued a e s) = in_observations s"
  "scope_scalars (in_scopes (keyword_edit_queued a e s)) = scope_scalars (in_scopes s)"
  by (simp_all add: keyword_edit_queued_def Let_def split: option.splits)

lemma edit_synced_one_keeps:
  "in_ops (edit_synced_one a c k t s) = in_ops s"
  "in_idempotency (edit_synced_one a c k t s) = in_idempotency s"
  "in_next_op (edit_synced_one a c k t s) = in_next_op s"
  "in_contact_generation (edit_synced_one a c k t s) = in_contact_generation s"
  "in_observations (edit_synced_one a c k t s) = in_observations s"
  "scope_scalars (in_scopes (edit_synced_one a c k t s)) = scope_scalars (in_scopes s)"
  by (simp_all add: edit_synced_one_def Let_def)

lemma keyword_edits_synced_keeps [simp]:
  "in_ops (keyword_edits_synced a sc ks t s) = in_ops s"
  "in_idempotency (keyword_edits_synced a sc ks t s) = in_idempotency s"
  "in_next_op (keyword_edits_synced a sc ks t s) = in_next_op s"
  "in_contact_generation (keyword_edits_synced a sc ks t s) = in_contact_generation s"
  "in_observations (keyword_edits_synced a sc ks t s) = in_observations s"
  "scope_scalars (in_scopes (keyword_edits_synced a sc ks t s)) = scope_scalars (in_scopes s)"
  by (induction a sc ks t s rule: keyword_edits_synced.induct)
    (auto simp: edit_synced_one_keeps split: option.splits)

end
