(* ===== verification/Threading.thy ===== *)
theory Threading
  imports Union_Find Mem_State
begin

text \<open>
  Incremental thread maintenance (\<open>engine-store/src/mem/threading.rs\<close>): the batch's messages grouped by
  the message ids they share, each group merged with the stored threads its ids reach and named after
  the smallest owned id.
\<close>

section \<open>Definitions\<close>

record member =
  me_scope :: sync_scope
  me_key :: provider_key
  me_thread :: "thread_id option"
  me_ids :: "mail_ref_row list"

type_synonym refs_by_key = "(provider_key, mail_ref_row list) hash_map"

text \<open>\<open>by_key[key]\<close>, read only for keys the map has.\<close>

definition key_ids :: "refs_by_key \<Rightarrow> mail_row \<Rightarrow> mail_ref_row list" where
  "key_ids by_key row = or_default (hm_get by_key (mr_key row))"

definition batch_labels :: "mail_row list \<Rightarrow> refs_by_key \<Rightarrow> (nat \<times> message_id_header) list" where
  "batch_labels graphed by_key =
     concat (map (\<lambda>(index, row). map (\<lambda>r. (index, rr_msgid r)) (key_ids by_key row)) (enumerate 0 graphed))"

definition components :: "mail_row list \<Rightarrow> refs_by_key \<Rightarrow> mail_row list list option" where
  "components graphed by_key =
     (case link_loop uf_union (batch_labels graphed by_key) [0..<length graphed] [] of
        None \<Rightarrow> None
      | Some parent \<Rightarrow> map_option (map snd) (group_loop uf_find (enumerate 0 graphed) parent []))"

definition cell_members :: "sync_scope \<Rightarrow> 'v scope_cell \<Rightarrow> member list" where
  "cell_members scope cell = List.map_filter
     (\<lambda>(key, row). case hm_get (sc_refs cell) key of
         None \<Rightarrow> None
       | Some ids \<Rightarrow>
           (if ids = [] then None
            else Some \<lparr>me_scope = scope, me_key = key, me_thread = mr_thread_id row, me_ids = ids\<rparr>))
     (sc_messages cell)"

definition account_members :: "'v scopes \<Rightarrow> account_id \<Rightarrow> member list" where
  "account_members scopes account =
     concat (map (\<lambda>(scope, cell). if scope_account scope \<noteq> account then [] else cell_members scope cell) scopes)"

definition members_of :: "member list \<Rightarrow> thread_id list \<Rightarrow> member list" where
  "members_of stored threads =
     filter (\<lambda>m. is_some_and (me_thread m) (\<lambda>t. t \<in> set threads)) stored"

definition component_ids :: "refs_by_key \<Rightarrow> mail_row list \<Rightarrow> message_id_header list" where
  "component_ids by_key component = concat (map (\<lambda>row. map rr_msgid (key_ids by_key row)) component)"

definition reached_threads :: "member list \<Rightarrow> refs_by_key \<Rightarrow> mail_row list \<Rightarrow> thread_id list" where
  "reached_threads stored by_key component =
     List.map_filter me_thread
       (filter (\<lambda>m. list_ex (\<lambda>r. rr_msgid r \<in> set (component_ids by_key component)) (me_ids m)) stored)"

definition thread_name :: "member list \<Rightarrow> refs_by_key \<Rightarrow> mail_row list \<Rightarrow> thread_id option" where
  "thread_name stored by_key component =
     (let merged = members_of stored (reached_threads stored by_key component);
          owned = min_opt
            (map rr_msgid (filter rr_owned (concat (map (key_ids by_key) component))) @
             map rr_msgid (filter rr_owned (concat (map me_ids merged))));
          smallest_key = min_opt (map mr_key component @ map me_key merged)
      in Option.bind (opt_or owned smallest_key) thread_id_try_from)"

definition component_assignments ::
  "member list \<Rightarrow> sync_scope \<Rightarrow> refs_by_key \<Rightarrow> mail_row list \<Rightarrow> (sync_scope \<times> provider_key \<times> thread_id) list" where
  "component_assignments stored scope by_key component =
     (case thread_name stored by_key component of
        None \<Rightarrow> []
      | Some thread \<Rightarrow>
          map (\<lambda>m. (me_scope m, me_key m, thread))
            (members_of stored (reached_threads stored by_key component)) @
          map (\<lambda>row. (scope, mr_key row, thread)) component)"

definition singleton_assignment ::
  "'v scopes \<Rightarrow> sync_scope \<Rightarrow> mail_row \<Rightarrow> (sync_scope \<times> provider_key \<times> thread_id) option" where
  "singleton_assignment scopes scope row =
     (case thread_id_try_from (mr_key row) of
        None \<Rightarrow> None
      | Some thread \<Rightarrow>
          (if is_some_and (Option.bind (hm_get scopes scope) (\<lambda>cell. hm_get (sc_messages cell) (mr_key row)))
                (\<lambda>stored. mr_thread_id stored = None)
           then Some (scope, mr_key row, thread) else None))"

definition set_thread :: "sync_scope \<times> provider_key \<times> thread_id \<Rightarrow> 'v scopes \<Rightarrow> 'v scopes" where
  "set_thread a scopes = (case a of (scope, key, thread) \<Rightarrow>
     hm_adjust scope
       (\<lambda>cell. cell\<lparr>sc_messages := hm_adjust key (\<lambda>row. row\<lparr>mr_thread_id := Some thread\<rparr>) (sc_messages cell)\<rparr>)
       scopes)"

definition graphed_rows :: "refs_by_key \<Rightarrow> mail_row list \<Rightarrow> mail_row list" where
  "graphed_rows by_key messages =
     filter (\<lambda>row. mr_thread_id row = None \<and> hm_get by_key (mr_key row) \<noteq> None) messages"

definition single_rows :: "refs_by_key \<Rightarrow> mail_row list \<Rightarrow> mail_row list" where
  "single_rows by_key messages =
     filter (\<lambda>row. mr_thread_id row = None \<and> hm_get by_key (mr_key row) = None) messages"

definition assign_threads ::
  "'v scopes \<Rightarrow> account_id \<Rightarrow> sync_scope \<Rightarrow> mail_row list \<Rightarrow> mail_ref_row list \<Rightarrow> 'v scopes option" where
  "assign_threads scopes account scope messages refs =
     (let by_key = group_by_key rr_key refs;
          stored = account_members scopes account;
          singles = List.map_filter (singleton_assignment scopes scope) (single_rows by_key messages)
      in case components (graphed_rows by_key messages) by_key of
           None \<Rightarrow> None
         | Some comps \<Rightarrow>
             Some (fold set_thread
               (singles @ concat (map (component_assignments stored scope by_key) comps)) scopes))"

section \<open>The components are the connected components\<close>

text \<open>Two rows of the batch share an id.\<close>

definition share_id :: "mail_row list \<Rightarrow> refs_by_key \<Rightarrow> (mail_row \<times> mail_row) set" where
  "share_id graphed by_key = {(r, s). r \<in> set graphed \<and> s \<in> set graphed \<and>
     rr_msgid ` set (key_ids by_key r) \<inter> rr_msgid ` set (key_ids by_key s) \<noteq> {}}"

lemma set_batch_labels:
  "set (batch_labels graphed by_key) =
     {(i, l). i < length graphed \<and> l \<in> rr_msgid ` set (key_ids by_key (graphed ! i))}"
  by (auto simp: batch_labels_def in_set_enumerate_eq) (force simp: in_set_enumerate_eq)

lemma shares_batch:
  "(i, j) \<in> shares (set (batch_labels graphed by_key)) \<longleftrightarrow> i < length graphed \<and> j < length graphed \<and>
     (graphed ! i, graphed ! j) \<in> share_id graphed by_key"
  by (auto simp: shares_def set_batch_labels share_id_def)

lemma shares_batch_star:
  assumes "i < length graphed" and "j < length graphed"
    and ids: "\<And>r. r \<in> set graphed \<Longrightarrow> key_ids by_key r \<noteq> []"
  shows "(i, j) \<in> (shares (set (batch_labels graphed by_key)))\<^sup>* \<longleftrightarrow>
    (graphed ! i, graphed ! j) \<in> (share_id graphed by_key)\<^sup>*" (is "_ \<in> ?S\<^sup>* \<longleftrightarrow> _ \<in> ?R\<^sup>*")
proof
  assume "(i, j) \<in> ?S\<^sup>*"
  then show "(graphed ! i, graphed ! j) \<in> ?R\<^sup>*"
    by (induction rule: rtrancl_induct) (auto simp: shares_batch intro: rtrancl.rtrancl_into_rtrancl)
next
  have same: "(x, y) \<in> ?S" if "x < length graphed" "y < length graphed" "graphed ! x = graphed ! y" for x y
    using that ids [of "graphed ! x"] by (auto simp: shares_batch share_id_def)
  have lift: "(a, b) \<in> ?R\<^sup>* \<Longrightarrow> x < length graphed \<Longrightarrow> graphed ! x = a \<Longrightarrow> y < length graphed \<Longrightarrow>
      graphed ! y = b \<Longrightarrow> (x, y) \<in> ?S\<^sup>*" for a b x y
  proof (induction arbitrary: y rule: rtrancl_induct)
    case base
    then show ?case using same by auto
  next
    case (step b c)
    then obtain z where z: "z < length graphed" "graphed ! z = b"
      by (auto simp: share_id_def in_set_conv_nth)
    with step have "(x, z) \<in> ?S\<^sup>*" "(z, y) \<in> ?S" by (auto simp: shares_batch)
    then show ?case by (rule rtrancl.rtrancl_into_rtrancl)
  qed
  assume "(graphed ! i, graphed ! j) \<in> ?R\<^sup>*"
  with lift assms show "(i, j) \<in> ?S\<^sup>*" by blast
qed

lemma linked_by_start: "forest.linked_by {} [0..<n] []"
  by (simp add: forest.linked_by_def uf_ok_upt uf_root_upt shares_def)

text \<open>The two loops return, and file index \<open>i\<close> under a root equal exactly along shared ids.\<close>

lemma components_groups:
  "\<exists>root :: nat \<Rightarrow> nat. components graphed by_key = Some (map snd
       (fold (\<lambda>(i, r). hm_push (root i) r) (enumerate 0 graphed) [])) \<and>
     (\<forall>i < length graphed. \<forall>j < length graphed. root i = root j \<longleftrightarrow>
        (i, j) \<in> (shares (set (batch_labels graphed by_key)))\<^sup>*)"
proof -
  let ?n = "length graphed" and ?ps = "batch_labels graphed by_key"
  have "\<forall>(i, l) \<in> set ?ps. i < length [0..<?n]" by (auto simp: set_batch_labels)
  from forest.link_loop_spec [OF linked_by_start this] obtain p seen where
    p: "link_loop uf_union ?ps [0..<?n] [] = Some p" "length p = ?n" "forest.linked_by (set ?ps) p seen"
    by auto
  have "uf_ok p" using p(3) by (simp add: forest.linked_by_def)
  moreover have "\<forall>(i, r) \<in> set (enumerate 0 graphed). i < length p"
    by (auto simp: in_set_enumerate_eq p(2))
  ultimately obtain g where "group_loop uf_find (enumerate 0 graphed) p [] = Some g"
    "g = fold (\<lambda>(i, r). hm_push (uf_root p i) r) (enumerate 0 graphed) []"
    using forest.group_loop_spec [of p "enumerate 0 graphed" "[]"] by auto
  with p show ?thesis
    by (intro exI [of _ "uf_root p"]) (auto simp: components_def forest.linked_by_def)
qed

definition graphed_ok :: "mail_row list \<Rightarrow> refs_by_key \<Rightarrow> bool" where
  "graphed_ok graphed by_key \<longleftrightarrow> (\<forall>r \<in> set graphed. key_ids by_key r \<noteq> [])"

lemma in_set_snd: "v \<in> set (map snd m) \<Longrightarrow> \<exists>k. (k, v) \<in> set m"
  by force

lemma components_spec:
  assumes "graphed_ok graphed by_key"
  shows "\<exists>comps. components graphed by_key = Some comps \<and> mset (concat comps) = mset graphed \<and>
    (\<forall>C \<in> set comps. C \<noteq> [] \<and>
       (\<forall>r \<in> set C. set C = {s. (r, s) \<in> (share_id graphed by_key)\<^sup>*}))"
proof -
  obtain root :: "nat \<Rightarrow> nat" where comps: "components graphed by_key = Some (map snd
       (fold (\<lambda>(i, r). hm_push (root i) r) (enumerate 0 graphed) []))"
    and all: "\<forall>i < length graphed. \<forall>j < length graphed. root i = root j \<longleftrightarrow>
        (i, j) \<in> (shares (set (batch_labels graphed by_key)))\<^sup>*"
    using components_groups [of graphed by_key] by (elim exE conjE)
  have root: "root i = root j \<longleftrightarrow> (i, j) \<in> (shares (set (batch_labels graphed by_key)))\<^sup>*"
    if "i < length graphed" "j < length graphed" for i j using all that by simp
  let ?f = "\<lambda>x. hm_push (root (fst x)) (snd x)" and ?R = "share_id graphed by_key"
  let ?g = "fold ?f (enumerate 0 graphed) []"
  have ids: "\<And>r. r \<in> set graphed \<Longrightarrow> key_ids by_key r \<noteq> []" using assms by (simp add: graphed_ok_def)
  have "C \<noteq> [] \<and> (\<forall>r \<in> set C. set C = {s. (r, s) \<in> ?R\<^sup>*})" if C: "C \<in> set (map snd ?g)" for C
  proof -
    have ok: "hm_ok ?g" by (rule hm_ok_fold_push) simp
    obtain k where "(k, C) \<in> set ?g" using in_set_snd [OF C] by (elim exE)
    then have "hm_get ?g k = Some C" by (simp only: hm_get_mem [OF ok])
    then have Ck: "C = map snd (filter (\<lambda>x. root (fst x) = k) (enumerate 0 graphed))" "C \<noteq> []"
      unfolding hm_get_push_values [of "\<lambda>x. root (fst x)" snd] by (auto split: if_splits)
    then have mem: "r \<in> set C \<longleftrightarrow> (\<exists>i < length graphed. root i = k \<and> graphed ! i = r)" for r
      unfolding Ck(1) by (auto simp: in_set_enumerate_eq image_iff Bex_def)
    have "set C = {s. (r, s) \<in> ?R\<^sup>*}" if rC: "r \<in> set C" for r
    proof -
      obtain i where i: "i < length graphed" "root i = k" "graphed ! i = r"
        using rC unfolding mem by (elim exE conjE)
      have stay: "s \<in> set graphed" if "(r, s) \<in> ?R\<^sup>*" for s
        using that i by (induction rule: rtrancl_induct) (auto simp: share_id_def)
      show ?thesis
      proof (intro set_eqI iffI)
        fix s assume "s \<in> set C"
        then obtain j where j: "j < length graphed" "root j = k" "graphed ! j = s"
          unfolding mem by (elim exE conjE)
        then have "(i, j) \<in> (shares (set (batch_labels graphed by_key)))\<^sup>*"
          using root [OF i(1) j(1)] i(2) by simp
        then show "s \<in> {s. (r, s) \<in> ?R\<^sup>*}" using shares_batch_star [OF i(1) j(1) ids] i j by simp
      next
        fix s assume s: "s \<in> {s. (r, s) \<in> ?R\<^sup>*}"
        with stay obtain j where j: "j < length graphed" "graphed ! j = s"
          by (metis in_set_conv_nth mem_Collect_eq)
        have "(i, j) \<in> (shares (set (batch_labels graphed by_key)))\<^sup>*"
          using shares_batch_star [OF i(1) j(1) ids] i j s by simp
        then have "root j = k" using root [OF i(1) j(1)] i(2) by simp
        then show "s \<in> set C" unfolding mem using j by (intro exI [of _ j]) simp
      qed
    qed
    with Ck(2) show ?thesis by blast
  qed
  moreover have "mset (concat (map snd ?g)) = mset graphed"
    by (simp add: mset_push_values)
  ultimately show ?thesis using comps by (simp add: case_prod_unfold)
qed

section \<open>Writing the threads\<close>

lemma assign_threads_returns: "\<exists>scopes'. assign_threads scopes account scope messages refs = Some scopes'"
proof -
  obtain comps where "components (graphed_rows (group_by_key rr_key refs) messages)
      (group_by_key rr_key refs) = Some comps" using components_groups by blast
  then show ?thesis by (simp add: assign_threads_def Let_def)
qed

lemma case_Some_image: "(case x of None \<Rightarrow> None | Some z \<Rightarrow> Some (f z)) = Some y \<Longrightarrow> \<exists>z. y = f z"
  by (auto split: option.splits)

lemma assign_threads_writes:
  assumes "assign_threads scopes account scope messages refs = Some scopes'"
  shows "\<exists>asg. scopes' = fold set_thread asg scopes"
  using case_Some_image [OF assms [unfolded assign_threads_def Let_def]] by blast

definition thread_of :: "'v scopes \<Rightarrow> sync_scope \<Rightarrow> provider_key \<Rightarrow> thread_id option option" where
  "thread_of scopes scope key =
     Option.bind (hm_get scopes scope) (\<lambda>c. map_option mr_thread_id (hm_get (sc_messages c) key))"

lemma thread_of_set_thread:
  "thread_of (set_thread (s, k, t) scopes) s' k' =
     (if s' = s \<and> k' = k then map_option (\<lambda>_. Some t) (thread_of scopes s' k') else thread_of scopes s' k')"
  by (auto simp: thread_of_def set_thread_def bind_map_option option.map_comp comp_def)
    (cases "hm_get scopes s"; simp add: option.map_comp comp_def)+

lemma cell_scalars_messages [simp]: "cell_scalars (c\<lparr>sc_messages := x\<rparr>) = cell_scalars c"
  by (simp add: cell_scalars_def)

lemma scope_scalars_set_thread [simp]: "scope_scalars (set_thread a scopes) = scope_scalars scopes"
  by (rule ext) (auto simp: scope_scalars_def set_thread_def option.map_comp comp_def split: prod.splits)

lemma hm_keys_set_thread [simp]: "hm_keys (set_thread a scopes) = hm_keys scopes"
  by (simp add: set_thread_def split: prod.splits)

lemma thread_of_untouched:
  "(s, k) \<notin> (\<lambda>(s, k, t). (s, k)) ` set asg \<Longrightarrow> thread_of (fold set_thread asg scopes) s k = thread_of scopes s k"
proof (induction asg arbitrary: scopes)
  case (Cons a asg)
  obtain s' k' t where "a = (s', k', t)" by (cases a)
  with Cons show ?case by (auto simp: thread_of_set_thread)
qed simp

lemma thread_of_unanimous:
  assumes "thread_of scopes s k \<noteq> None" and "\<And>t'. (s, k, t') \<in> set asg \<Longrightarrow> t' = t"
    and "(s, k, t) \<in> set asg \<or> thread_of scopes s k = Some (Some t)"
  shows "thread_of (fold set_thread asg scopes) s k = Some (Some t)"
  using assms
proof (induction asg arbitrary: scopes)
  case (Cons a asg)
  obtain s' k' t' where a: "a = (s', k', t')" by (cases a)
  show ?case
  proof (cases "s' = s \<and> k' = k")
    case True
    then have "t' = t" using Cons.prems(2) a by auto
    with True Cons.prems have "thread_of (set_thread a scopes) s k = Some (Some t)"
      by (auto simp: a thread_of_set_thread)
    with Cons.IH [of "set_thread a scopes"] Cons.prems(2) show ?thesis by simp
  next
    case False
    then have "thread_of (set_thread a scopes) s k = thread_of scopes s k"
      by (auto simp: a thread_of_set_thread)
    with Cons.IH [of "set_thread a scopes"] Cons.prems False show ?thesis by (auto simp: a)
  qed
qed auto

section \<open>One component, one thread\<close>

definition maps_ok :: "'v scopes \<Rightarrow> bool" where
  "maps_ok scopes \<longleftrightarrow> hm_ok scopes \<and> (\<forall>(s, c) \<in> set scopes. hm_ok (sc_messages c))"

lemma account_membersD:
  assumes "m \<in> set (account_members scopes account)" and "maps_ok scopes"
  shows "scope_account (me_scope m) = account" "thread_of scopes (me_scope m) (me_key m) = Some (me_thread m)"
    "\<exists>cell. hm_get scopes (me_scope m) = Some cell \<and> hm_get (sc_messages cell) (me_key m) \<noteq> None \<and>
       hm_get (sc_refs cell) (me_key m) = Some (me_ids m)"
proof -
  from assms(1) obtain s c where sc: "(s, c) \<in> set scopes" "scope_account s = account"
    "m \<in> set (cell_members s c)" by (auto simp: account_members_def split: if_splits)
  then obtain k row where kr: "(k, row) \<in> set (sc_messages c)" "me_scope m = s" "me_key m = k"
    "me_thread m = mr_thread_id row" "hm_get (sc_refs c) k = Some (me_ids m)"
    by (auto simp: cell_members_def List.map_filter_def split: option.splits if_splits)
  have "hm_get scopes s = Some c" "hm_get (sc_messages c) k = Some row"
    using assms(2) sc(1) kr(1) by (auto simp: maps_ok_def)
  with sc kr show "scope_account (me_scope m) = account"
    "thread_of scopes (me_scope m) (me_key m) = Some (me_thread m)"
    "\<exists>cell. hm_get scopes (me_scope m) = Some cell \<and> hm_get (sc_messages cell) (me_key m) \<noteq> None \<and>
       hm_get (sc_refs cell) (me_key m) = Some (me_ids m)"
    by (auto simp: thread_of_def)
qed

lemma component_ids_set:
  "set (component_ids by_key C) = (\<Union>r \<in> set C. rr_msgid ` set (key_ids by_key r))"
  by (auto simp: component_ids_def)

lemma reached_threads_iff:
  "t \<in> set (reached_threads stored by_key C) \<longleftrightarrow>
     (\<exists>m \<in> set stored. me_thread m = Some t \<and>
        rr_msgid ` set (me_ids m) \<inter> set (component_ids by_key C) \<noteq> {})"
proof -
  have "list_ex (\<lambda>r. rr_msgid r \<in> set (component_ids by_key C)) (me_ids m) \<longleftrightarrow>
      rr_msgid ` set (me_ids m) \<inter> set (component_ids by_key C) \<noteq> {}" for m
    by (auto simp: list_ex_iff)
  then have "reached_threads stored by_key C = List.map_filter me_thread
      (filter (\<lambda>m. rr_msgid ` set (me_ids m) \<inter> set (component_ids by_key C) \<noteq> {}) stored)"
    unfolding reached_threads_def by (intro arg_cong [of _ _ "List.map_filter me_thread"] filter_cong refl)
  then show ?thesis by (force simp: List.map_filter_def)
qed

lemma members_of_iff:
  "m \<in> set (members_of stored ts) \<longleftrightarrow> m \<in> set stored \<and> (\<exists>t \<in> set ts. me_thread m = Some t)"
  by (auto simp: members_of_def is_some_and_def split: option.splits)

lemma component_cong:
  assumes "set C = set D"
  shows "reached_threads stored by_key C = reached_threads stored by_key D"
    "thread_name stored by_key C = thread_name stored by_key D"
proof -
  have ids: "set (component_ids by_key C) = set (component_ids by_key D)"
    using assms by (simp add: component_ids_set)
  then show reached: "reached_threads stored by_key C = reached_threads stored by_key D"
    by (simp add: reached_threads_def)
  let ?m = "members_of stored (reached_threads stored by_key D)"
  have "min_opt (map rr_msgid (filter rr_owned (concat (map (key_ids by_key) C))) @
        map rr_msgid (filter rr_owned (concat (map me_ids ?m)))) =
      min_opt (map rr_msgid (filter rr_owned (concat (map (key_ids by_key) D))) @
        map rr_msgid (filter rr_owned (concat (map me_ids ?m))))"
    using assms by (intro min_opt_cong) simp
  moreover have "min_opt (map mr_key C @ map me_key ?m) = min_opt (map mr_key D @ map me_key ?m)"
    using assms by (intro min_opt_cong) simp
  ultimately show "thread_name stored by_key C = thread_name stored by_key D"
    by (simp add: thread_name_def reached)
qed

text \<open>
  The rows a component writes: its own, and every stored member under a thread it reached.
\<close>

definition component_targets ::
  "member list \<Rightarrow> sync_scope \<Rightarrow> refs_by_key \<Rightarrow> mail_row list \<Rightarrow> (sync_scope \<times> provider_key) set" where
  "component_targets stored scope by_key C =
     (\<lambda>m. (me_scope m, me_key m)) ` set (members_of stored (reached_threads stored by_key C)) \<union>
     (\<lambda>row. (scope, mr_key row)) ` set C"

lemma component_assignments_iff:
  "(s, k, t) \<in> set (component_assignments stored scope by_key C) \<longleftrightarrow>
     thread_name stored by_key C = Some t \<and> (s, k) \<in> component_targets stored scope by_key C"
  by (auto simp: component_assignments_def component_targets_def split: option.splits)

text \<open>
  The ids the store holds for the batch's messages are the batch's, as they are once its derived rows
  are in.
\<close>

definition refs_stored :: "'v scopes \<Rightarrow> sync_scope \<Rightarrow> refs_by_key \<Rightarrow> bool" where
  "refs_stored scopes scope by_key \<longleftrightarrow> (\<forall>cell k ids. hm_get scopes scope = Some cell \<and>
     hm_get by_key k = Some ids \<longrightarrow> hm_get (sc_refs cell) k = Some ids)"

lemma own_thread_reached:
  assumes m: "m \<in> set (account_members scopes account)" and ok: "maps_ok scopes"
    and at: "me_scope m = scope" "me_key m = mr_key row" and row: "row \<in> set C"
    and key: "hm_get by_key (mr_key row) = Some ids" "ids \<noteq> []"
    and refs: "refs_stored scopes scope by_key" and t: "me_thread m = Some t"
  shows "t \<in> set (reached_threads (account_members scopes account) by_key C)"
proof -
  obtain cell where cell: "hm_get scopes scope = Some cell" "hm_get (sc_refs cell) (mr_key row) = Some (me_ids m)"
    using account_membersD(3) [OF m ok] unfolding at by blast
  with refs key(1) have "me_ids m = ids" unfolding refs_stored_def by (metis option.inject)
  then have "rr_msgid ` set (me_ids m) \<subseteq> set (component_ids by_key C)"
    using row key(1) by (auto simp: component_ids_set key_ids_def or_default_def)
  moreover have "rr_msgid ` set (me_ids m) \<noteq> {}" using \<open>me_ids m = ids\<close> key(2) by simp
  ultimately have "rr_msgid ` set (me_ids m) \<inter> set (component_ids by_key C) \<noteq> {}"
    by (simp add: Int_absorb2)
  with m t show ?thesis unfolding reached_threads_iff by (intro bexI [of _ m] conjI)
qed

text \<open>
  Two components that write the same row are one component, when no stored thread is reached from two.
\<close>

definition reach_apart :: "member list \<Rightarrow> refs_by_key \<Rightarrow> mail_row list list \<Rightarrow> bool" where
  "reach_apart stored by_key comps \<longleftrightarrow> (\<forall>C \<in> set comps. \<forall>D \<in> set comps.
     set (reached_threads stored by_key C) \<inter> set (reached_threads stored by_key D) \<noteq> {} \<longrightarrow> set C = set D)"

lemma reach_apartD:
  assumes "reach_apart stored by_key comps" and "C \<in> set comps" and "D \<in> set comps"
    and "x \<in> Some ` set (reached_threads stored by_key C)" and "x \<in> Some ` set (reached_threads stored by_key D)"
  shows "set C = set D"
proof -
  have "set (reached_threads stored by_key C) \<inter> set (reached_threads stored by_key D) \<noteq> {}"
    using assms(4,5) by auto
  with assms(1-3) show ?thesis by (simp add: reach_apart_def)
qed

lemma graphed_rows_key:
  assumes "by_key = group_by_key rr_key refs" and "row \<in> set (graphed_rows by_key messages)"
  shows "\<exists>ids. hm_get by_key (mr_key row) = Some ids \<and> ids \<noteq> []"
  using assms by (auto simp: graphed_rows_def hm_get_group split: if_splits)

lemma graphed_rows_ok: "by_key = group_by_key rr_key refs \<Longrightarrow> graphed_ok (graphed_rows by_key messages) by_key"
  unfolding graphed_ok_def using graphed_rows_key [of by_key refs _ messages]
  by (fastforce simp: key_ids_def or_default_def)

lemma targets_apart:
  assumes by_key: "by_key = group_by_key rr_key refs"
    and comps: "components (graphed_rows by_key messages) by_key = Some comps"
    and stored: "stored = account_members scopes account" and ok: "maps_ok scopes"
    and refs: "refs_stored scopes scope by_key" and apart: "reach_apart stored by_key comps"
    and C: "C \<in> set comps" and D: "D \<in> set comps"
    and sk: "(s, k) \<in> component_targets stored scope by_key C" "(s, k) \<in> component_targets stored scope by_key D"
  shows "set C = set D"
proof -
  let ?g = "graphed_rows by_key messages" and ?r = "reached_threads stored by_key"
  obtain comps' where comps': "components ?g by_key = Some comps'" "mset (concat comps') = mset ?g"
    "\<forall>C \<in> set comps'. C \<noteq> [] \<and> (\<forall>r \<in> set C. set C = {s. (r, s) \<in> (share_id ?g by_key)\<^sup>*})"
    using components_spec [OF graphed_rows_ok [OF by_key]] by blast
  with comps have spec: "mset (concat comps) = mset ?g"
    "\<And>C r. C \<in> set comps \<Longrightarrow> r \<in> set C \<Longrightarrow> set C = {s. (r, s) \<in> (share_id ?g by_key)\<^sup>*}" by auto
  have in_g: "r \<in> set ?g" if "r \<in> set X" "X \<in> set comps" for r X
    using that mset_eq_setD [OF spec(1)] by auto
  have member_reach: "me_thread m \<in> Some ` set (?r X)"
    if m: "m \<in> set stored" "me_thread m \<noteq> None" and X: "X \<in> set comps"
      and t: "(me_scope m, me_key m) \<in> component_targets stored scope by_key X" for m X
  proof -
    from m(2) obtain th where th: "me_thread m = Some th" by blast
    from t consider m' where "m' \<in> set stored" "me_thread m' \<in> Some ` set (?r X)" "me_scope m' = me_scope m"
        "me_key m' = me_key m" | row where "row \<in> set X" "me_scope m = scope" "me_key m = mr_key row"
      by (auto simp: component_targets_def members_of_iff)
    then show ?thesis
    proof cases
      case 1
      with account_membersD(2) [OF _ ok] m stored show ?thesis by (metis option.inject)
    next
      case 2
      with graphed_rows_key [OF by_key in_g [OF 2(1) X]] own_thread_reached [OF _ ok] m(1) refs th stored
      show ?thesis by (metis imageI)
    qed
  qed
  have row_row: "set C = set D" if rr: "r \<in> set C" "r' \<in> set D" "mr_key r = mr_key r'" for r r'
  proof -
    obtain ids where "hm_get by_key (mr_key r) = Some ids" "ids \<noteq> []"
      using graphed_rows_key [OF by_key in_g [OF rr(1) C]] by blast
    then have "(r, r') \<in> share_id ?g by_key"
      using rr(3) in_g [OF rr(1) C] in_g [OF rr(2) D]
      by (simp add: share_id_def key_ids_def or_default_def)
    then have "r' \<in> set C" using spec(2) [OF C rr(1)] by auto
    then show ?thesis using spec(2) [OF C] spec(2) [OF D rr(2)] by blast
  qed
  from sk(1) consider m where "m \<in> set stored" "me_thread m \<in> Some ` set (?r C)" "s = me_scope m" "k = me_key m"
    | r where "r \<in> set C" "s = scope" "k = mr_key r"
    by (auto simp: component_targets_def members_of_iff)
  then show ?thesis
  proof cases
    case 1
    then have "me_thread m \<in> Some ` set (?r D)" using member_reach [OF _ _ D] sk(2) by auto
    with 1 show ?thesis using reach_apartD [OF apart C D] by simp
  next
    case 2
    from sk(2) consider m where "m \<in> set stored" "me_thread m \<in> Some ` set (?r D)" "s = me_scope m" "k = me_key m"
      | r' where "r' \<in> set D" "mr_key r = mr_key r'"
      using 2 by (auto simp: component_targets_def members_of_iff)
    then show ?thesis
    proof cases
      case 1
      then have "me_thread m \<in> Some ` set (?r C)" using member_reach [OF _ _ C] sk(1) by auto
      with 1 show ?thesis using reach_apartD [OF apart C D] by simp
    qed (use 2 row_row in blast)
  qed
qed

lemma singles_elsewhere:
  assumes single: "(s, k, t) \<in> set (List.map_filter (singleton_assignment scopes scope) (single_rows by_key messages))"
    and ok: "maps_ok scopes" and stored: "stored = account_members scopes account"
    and C: "set C \<subseteq> set (graphed_rows by_key messages)"
  shows "(s, k) \<notin> component_targets stored scope by_key C"
proof
  assume target: "(s, k) \<in> component_targets stored scope by_key C"
  from single obtain row where row: "row \<in> set (single_rows by_key messages)" "s = scope" "k = mr_key row"
    "thread_of scopes scope k = Some None"
    by (auto simp: List.map_filter_def singleton_assignment_def thread_of_def is_some_and_def
        split: option.splits if_splits bind_splits)
  from target consider m where "m \<in> set stored" "me_thread m \<noteq> None" "s = me_scope m" "k = me_key m"
    | r where "r \<in> set C" "k = mr_key r" by (auto simp: component_targets_def members_of_iff)
  then show False
  proof cases
    case 1
    with account_membersD(2) [of m scopes account, OF _ ok] row stored show False by simp
  next
    case 2
    with C row show False by (auto simp: graphed_rows_def single_rows_def)
  qed
qed

lemma assign_threads_component:
  assumes assign: "assign_threads scopes account scope messages refs = Some scopes'"
    and by_key: "by_key = group_by_key rr_key refs"
    and comps: "components (graphed_rows by_key messages) by_key = Some comps"
    and stored: "stored = account_members scopes account" and ok: "maps_ok scopes"
    and refs: "refs_stored scopes scope by_key" and apart: "reach_apart stored by_key comps"
    and C: "C \<in> set comps" and name: "thread_name stored by_key C = Some t"
    and target: "(s, k) \<in> component_targets stored scope by_key C" and held: "thread_of scopes s k \<noteq> None"
  shows "thread_of scopes' s k = Some (Some t)"
proof -
  let ?singles = "List.map_filter (singleton_assignment scopes scope) (single_rows by_key messages)"
  let ?asg = "?singles @ concat (map (component_assignments stored scope by_key) comps)"
  have s': "scopes' = fold set_thread ?asg scopes"
    using assign comps unfolding by_key stored by (simp add: assign_threads_def Let_def)
  have "\<exists>comps. components (graphed_rows by_key messages) by_key = Some comps \<and>
      mset (concat comps) = mset (graphed_rows by_key messages)"
    using components_spec [OF graphed_rows_ok [OF by_key]] by blast
  with comps have "set (concat comps) = set (graphed_rows by_key messages)"
    by (metis mset_eq_setD option.inject)
  with C have sub: "set C \<subseteq> set (graphed_rows by_key messages)" by auto
  have "(s, k, t) \<in> set (component_assignments stored scope by_key C)"
    using name target by (simp add: component_assignments_iff)
  with C have mem: "(s, k, t) \<in> set ?asg" by auto
  have "t' = t" if "(s, k, t') \<in> set ?asg" for t'
  proof -
    have "(s, k, t') \<notin> set ?singles"
      using singles_elsewhere [OF _ ok stored sub] target by blast
    with that obtain D where D: "D \<in> set comps" "(s, k, t') \<in> set (component_assignments stored scope by_key D)"
      by auto
    then have "set C = set D"
      using targets_apart [OF by_key comps stored ok refs apart C D(1) target]
      by (simp add: component_assignments_iff)
    with D name component_cong(2) show ?thesis by (metis component_assignments_iff option.inject)
  qed
  with thread_of_unanimous [OF held] mem show ?thesis unfolding s' by blast
qed

text \<open>The name a merged component takes: its smallest owned id.\<close>

lemma thread_name_owned:
  fixes by_key stored C
  defines "ids \<equiv> concat (map (key_ids by_key) C) @
    concat (map me_ids (members_of stored (reached_threads stored by_key C)))"
  assumes "thread_name stored by_key C = Some t" and "r \<in> set ids" "rr_owned r"
  shows "(\<exists>o' \<in> set ids. rr_owned o' \<and> t = rr_msgid o') \<and> t \<le> rr_msgid r"
proof -
  let ?own = "map rr_msgid (filter rr_owned ids)"
  have "?own \<noteq> []" using assms(3,4) by (auto simp: filter_empty_conv)
  then obtain x where x: "min_opt ?own = Some x" by (cases "min_opt ?own") auto
  have "t = x"
    using assms(2) x by (auto simp: thread_name_def ids_def Let_def thread_id_try_from_def split: if_splits)
  with min_opt_SomeD [OF x] assms(3,4) show ?thesis by auto
qed

end
