(* ===== verification/Op_Machine.thy ===== *)
theory Op_Machine
  imports Settle
begin

text \<open>
  The life of one outbox op as a labelled step relation over its cell. Every operation of the store
  moves every op along a path of these steps (proved per operation in \<open>Outbox\<close> and
  \<open>Scope_Store\<close>), so a fact about all paths is a fact about the store.

  The guards are those of \<open>mem/outbox.rs\<close>: what a claim, a mark, a hand-over, a renewal, a host verb
  or a reconciliation demands of the cell before it acts.
\<close>

section \<open>The vocabulary of refusals\<close>

datatype claim_rejection = CrUnknown | CrSettled | CrDependencyUnmet | CrBusy | CrBackoff

datatype op_rejection = OrUnknown | OrSettled | OrInFlight | OrAwaitingConfirmation
  | OrNotAwaitingConfirmation

datatype confirmation = Delivered | NotDelivered

definition host_refusal :: "'v op_cell \<Rightarrow> op_rejection option" where
  "host_refusal c = (case oc_state c of
      Pending \<Rightarrow> None
    | InFlight \<Rightarrow> Some OrInFlight
    | NeedsConfirmation \<Rightarrow> Some OrAwaitingConfirmation
    | Failed \<Rightarrow> (if stays_listed (Some (po_kind (oc_op c))) (oc_state c) then None else Some OrSettled)
    | Succeeded \<Rightarrow> Some OrSettled
    | Cancelled \<Rightarrow> Some OrSettled)"

lemma host_refusal_None:
  "host_refusal c = None \<longleftrightarrow>
     oc_state c = Pending \<or> oc_state c = Failed \<and> po_kind (oc_op c) = MailSubmit"
  by (auto simp: host_refusal_def stays_listed_def split: pending_op_state.splits if_splits)

text \<open>The bodies of the host verbs, on the cell they found.\<close>

definition cell_cancel :: "'v op_cell \<Rightarrow> op_rejection option \<times> 'v op_cell" where
  "cell_cancel c = (case host_refusal c of
      Some r \<Rightarrow> (Some r, c)
    | None \<Rightarrow> (None, c\<lparr>oc_token := fence_bump (oc_token c), oc_state := Cancelled,
                      oc_lease_expiry := None, oc_next_attempt_at := None\<rparr>))"

definition cell_retry_now :: "'v op_cell \<Rightarrow> op_rejection option \<times> 'v op_cell" where
  "cell_retry_now c = (case host_refusal c of
      Some r \<Rightarrow> (Some r, c)
    | None \<Rightarrow>
        (let c = (if oc_state c = Failed then cell_rearm c else c)
         in (None, c\<lparr>oc_next_attempt_at := None\<rparr>)))"

definition cell_confirm :: "confirmation \<Rightarrow> 'v op_cell \<Rightarrow> op_rejection option \<times> 'v op_cell" where
  "cell_confirm confirmation c =
     (if oc_state c = NeedsConfirmation then
        (case confirmation of
           Delivered \<Rightarrow> (None, c\<lparr>oc_token := fence_bump (oc_token c), oc_state := Succeeded,
                              oc_handed_over := None\<rparr>)
         | NotDelivered \<Rightarrow> (None, cell_rearm c))
      else if oc_state c = InFlight then (Some OrInFlight, c)
      else (Some OrNotAwaitingConfirmation, c))"

definition cell_due :: "instant \<Rightarrow> 'v op_cell \<Rightarrow> bool" where
  "cell_due now c = is_none_or (oc_next_attempt_at c) (\<lambda>due. due \<le> now)"

definition may_mark :: "fence_token \<Rightarrow> 'v op_cell \<Rightarrow> bool" where
  "may_mark t c \<longleftrightarrow> t = oc_token c \<or> oc_state c = NeedsConfirmation \<and> oc_handed_over c = Some t"

definition may_hold :: "fence_token \<Rightarrow> 'v op_cell \<Rightarrow> bool" where
  "may_hold t c \<longleftrightarrow> oc_token c = t \<and> oc_state c = InFlight"

section \<open>Steps\<close>

datatype op_event = EvStamp | EvRecover | EvLease | EvMark fence_token pending_outcome
  | EvHandOver fence_token | EvRenew fence_token | EvCancel | EvHurry | EvConfirm confirmation
  | EvReconcile

inductive op_step :: "pdt_add \<Rightarrow> op_event \<Rightarrow> 'v op_cell \<Rightarrow> 'v op_cell \<Rightarrow> bool" for padd where
  stamp: "is_terminal (oc_state c) \<Longrightarrow> oc_settled_at c = None \<Longrightarrow>
    op_step padd EvStamp c (c\<lparr>oc_settled_at := Some now\<rparr>)"
| recover: "oc_state c = InFlight \<Longrightarrow> cell_recover padd now c = (Inr (), c') \<Longrightarrow>
    op_step padd EvRecover c c'"
| lease: "oc_state c = Pending \<Longrightarrow> cell_due now c \<Longrightarrow>
    op_step padd EvLease c (cell_lease expiry c)"
| mark: "may_mark t c \<Longrightarrow> cell_record padd outcome now c = (Inr (), c') \<Longrightarrow>
    op_step padd (EvMark t outcome) c c'"
| hand_over: "may_hold t c \<Longrightarrow> op_step padd (EvHandOver t) c (c\<lparr>oc_handed_over := Some t\<rparr>)"
| renew: "may_hold t c \<Longrightarrow> op_step padd (EvRenew t) c (c\<lparr>oc_lease_expiry := Some expiry\<rparr>)"
| cancel: "cell_cancel c = (None, c') \<Longrightarrow> op_step padd EvCancel c c'"
| hurry: "cell_retry_now c = (None, c') \<Longrightarrow> op_step padd EvHurry c c'"
| confirm: "cell_confirm answer c = (None, c') \<Longrightarrow> op_step padd (EvConfirm answer) c c'"
| reconcile: "op_step padd EvReconcile c (c\<lparr>oc_state := Succeeded, oc_lease_expiry := None\<rparr>)"

inductive_simps op_step_simps:
  "op_step padd EvStamp c c'" "op_step padd EvRecover c c'" "op_step padd EvLease c c'"
  "op_step padd (EvMark t out) c c'" "op_step padd (EvHandOver t) c c'"
  "op_step padd (EvRenew t) c c'" "op_step padd EvCancel c c'" "op_step padd EvHurry c c'"
  "op_step padd (EvConfirm a) c c'" "op_step padd EvReconcile c c'"

inductive op_path :: "pdt_add \<Rightarrow> op_event list \<Rightarrow> 'v op_cell \<Rightarrow> 'v op_cell \<Rightarrow> bool" for padd where
  path_nil [intro!, simp]: "op_path padd [] c c"
| path_snoc [intro]: "op_path padd es c c1 \<Longrightarrow> op_step padd e c1 c2 \<Longrightarrow> op_path padd (es @ [e]) c c2"

lemma op_path_one [intro]: "op_step padd e c c' \<Longrightarrow> op_path padd [e] c c'"
  using path_snoc [OF path_nil, of padd e c c'] by simp

lemma op_path_append:
  assumes "op_path padd fs c1 c2" and "op_path padd es c c1"
  shows "op_path padd (es @ fs) c c2"
  using assms by (induction rule: op_path.induct) (auto simp flip: append_assoc)

text \<open>The shape every step proof uses: what each step leaves in the fields that matter.\<close>

lemmas cell_op_defs = cell_cancel_def cell_retry_now_def cell_confirm_def cell_rearm_def
  cell_lease_def may_mark_def may_hold_def

lemma cell_cancel_None:
  "cell_cancel c = (None, c') \<longleftrightarrow> host_refusal c = None \<and>
     c' = c\<lparr>oc_token := fence_bump (oc_token c), oc_state := Cancelled, oc_lease_expiry := None,
            oc_next_attempt_at := None\<rparr>"
  by (auto simp: cell_cancel_def split: option.splits)

lemma cell_retry_now_None:
  "cell_retry_now c = (None, c') \<longleftrightarrow> host_refusal c = None \<and>
     c' = (if oc_state c = Failed then cell_rearm c else c)\<lparr>oc_next_attempt_at := None\<rparr>"
  by (auto simp: cell_retry_now_def split: option.splits)

lemma cell_confirm_None:
  "cell_confirm a c = (None, c') \<longleftrightarrow> oc_state c = NeedsConfirmation \<and>
     c' = (case a of Delivered \<Rightarrow> c\<lparr>oc_token := fence_bump (oc_token c), oc_state := Succeeded,
                                 oc_handed_over := None\<rparr>
           | NotDelivered \<Rightarrow> cell_rearm c)"
  by (auto simp: cell_confirm_def split: confirmation.splits)

lemma cell_record_ok:
  "cell_record padd out now c = (Inr (), c') \<longleftrightarrow> (\<exists>r. cell_recorded padd c out now = Inr r \<and>
     c' = c\<lparr>oc_lease_expiry := None, oc_state := rc_state r, oc_attempts := rc_attempts r,
           oc_next_attempt_at := rc_next_attempt_at r, oc_failure_class := rc_failure_class r,
           oc_detail := rc_detail r,
           oc_handed_over := (if rc_keeps_hand_over r then oc_handed_over c else None)\<rparr>)"
  by (auto simp: cell_record_def split: sum.splits)

lemma cell_recover_ok:
  "cell_recover padd now c = (Inr (), c') \<longleftrightarrow>
     (\<exists>c1. cell_record padd (cell_interrupted c) now c = (Inr (), c1) \<and>
           c' = c1\<lparr>oc_token := fence_bump (oc_token c1)\<rparr>)"
  by (auto simp: cell_recover_def split: sum.splits prod.splits)

lemmas step_simps = op_step_simps cell_cancel_None cell_retry_now_None cell_confirm_None
  cell_record_ok cell_recover_ok

section \<open>What no step changes\<close>

lemma op_step_keeps:
  assumes "op_step padd e c c'"
  shows "oc_account c' = oc_account c \<and> oc_op c' = oc_op c"
  using assms
  by cases (auto simp: step_simps cell_rearm_def cell_lease_def split: confirmation.splits)

lemma op_path_keeps:
  "op_path padd es c c' \<Longrightarrow> oc_account c' = oc_account c \<and> oc_op c' = oc_op c"
  by (induction rule: op_path.induct) (auto dest: op_step_keeps)

section \<open>Well-formed cells\<close>

text \<open>
  A lease is held exactly while an op is in flight, a hand-over is recorded only in the states that
  can follow one, and the attempt count fits its \<open>u32\<close>.
\<close>

definition op_ok :: "'v op_cell \<Rightarrow> bool" where
  "op_ok c \<longleftrightarrow> (oc_state c = InFlight \<longleftrightarrow> oc_lease_expiry c \<noteq> None) \<and>
     (oc_handed_over c \<noteq> None \<longrightarrow> oc_state c \<in> {InFlight, NeedsConfirmation, Succeeded}) \<and>
     oc_attempts c \<le> u32_max"

lemma cell_recorded_facts:
  assumes "cell_recorded padd c out now = Inr r"
  shows "rc_state r \<noteq> InFlight" "rc_state r \<noteq> Cancelled"
    "rc_keeps_hand_over r \<longleftrightarrow> rc_state r = NeedsConfirmation"
    "rc_attempts r = sat_add u32_max (oc_attempts c) 1"
    "rc_next_attempt_at r \<noteq> None \<longleftrightarrow> rc_state r = Pending"
  using cell_recorded_never_inflight [OF assms]
    record_outcome_keeps [OF assms [unfolded cell_recorded_def]]
    record_outcome_attempts [OF assms [unfolded cell_recorded_def]]
    record_outcome_due [OF assms [unfolded cell_recorded_def]]
  by auto

lemma op_ok_record:
  assumes "cell_record padd out now c = (Inr (), c')"
  shows "op_ok c'" "op_ok (c'\<lparr>oc_token := t\<rparr>)"
proof -
  from assms obtain r where r: "cell_recorded padd c out now = Inr r"
    "oc_state c' = rc_state r" "oc_lease_expiry c' = None" "oc_attempts c' = rc_attempts r"
    "oc_handed_over c' = (if rc_keeps_hand_over r then oc_handed_over c else None)"
    by (auto simp: cell_record_ok)
  show "op_ok c'" "op_ok (c'\<lparr>oc_token := t\<rparr>)"
    using r(2-) cell_recorded_facts [OF r(1)] by (simp_all add: op_ok_def)
qed

lemma op_step_ok: "op_step padd e c c' \<Longrightarrow> op_ok c \<Longrightarrow> op_ok c'"
proof (induction rule: op_step.induct)
  case (confirm answer c c')
  then show ?case by (cases answer) (auto simp: op_ok_def cell_confirm_None cell_rearm_def)
qed (auto simp: cell_recover_ok op_ok_record,
  auto simp: op_ok_def is_terminal_def cell_cancel_None cell_retry_now_None host_refusal_None
    cell_rearm_def cell_lease_def may_hold_def)

lemma op_path_ok: "op_path padd es c c' \<Longrightarrow> op_ok c \<Longrightarrow> op_ok c'"
  by (induction rule: op_path.induct) (auto dest: op_step_ok)

section \<open>Fencing\<close>

definition lease_count :: "op_event list \<Rightarrow> nat" where
  "lease_count es = count_list es EvLease"

lemma lease_count_append [simp]: "lease_count (es @ fs) = lease_count es + lease_count fs"
  by (simp add: lease_count_def)

text \<open>The steps that may take the op from the worker holding it.\<close>

fun bumps :: "op_event \<Rightarrow> bool" where
  "bumps EvRecover = True"
| "bumps EvLease = True"
| "bumps EvCancel = True"
| "bumps EvHurry = True"
| "bumps (EvConfirm _) = True"
| "bumps _ = False"

definition bump_count :: "op_event list \<Rightarrow> nat" where
  "bump_count es = length (filter bumps es)"

lemma bump_count_simps [simp]:
  "bump_count [] = 0" "bump_count (e # es) = (if bumps e then Suc (bump_count es) else bump_count es)"
  "bump_count (es @ fs) = bump_count es + bump_count fs"
  by (simp_all add: bump_count_def)

lemma op_step_token:
  assumes "op_step padd e c c'"
  shows "oc_token c' = oc_token c \<or> bumps e \<and> oc_token c' = fence_bump (oc_token c)"
  using assms
  by cases (auto simp: step_simps cell_rearm_def cell_lease_def split: confirmation.splits)

lemma op_step_lease_token: "op_step padd EvLease c c' \<Longrightarrow> oc_token c' = fence_bump (oc_token c)"
  by (auto simp: step_simps cell_lease_def)

lemma op_path_token:
  assumes "op_path padd es c c'" and "unat (oc_token c) + bump_count es < 2 ^ 64"
  shows "unat (oc_token c) + lease_count es \<le> unat (oc_token c') \<and>
    unat (oc_token c') \<le> unat (oc_token c) + bump_count es"
  using assms
proof (induction rule: op_path.induct)
  case (path_snoc es c c1 e c2)
  then have IH: "unat (oc_token c) + lease_count es \<le> unat (oc_token c1)"
    "unat (oc_token c1) \<le> unat (oc_token c) + bump_count es" by (auto split: if_splits)
  show ?case
  proof (cases "bumps e")
    case True
    with path_snoc.prems IH have "unat (fence_bump (oc_token c1)) = Suc (unat (oc_token c1))"
      by (intro fence_bump_unat) simp
    moreover have "e = EvLease \<Longrightarrow> oc_token c2 = fence_bump (oc_token c1)"
      using path_snoc.hyps(2) op_step_lease_token by blast
    ultimately show ?thesis
      using True op_step_token [OF path_snoc.hyps(2)] IH
      by (cases "e = EvLease") (auto simp: lease_count_def)
  next
    case False
    with op_step_token [OF path_snoc.hyps(2)] IH show ?thesis
      by (cases "e = EvLease") (auto simp: lease_count_def)
  qed
qed (simp add: lease_count_def)

text \<open>An op enters flight only by a lease, so an attempt is recovered at most once between leases.\<close>

lemma op_step_in_flight:
  assumes "op_step padd e c c'" and "e \<noteq> EvLease" and "oc_state c' = InFlight"
  shows "oc_state c = InFlight \<and> e \<noteq> EvRecover"
  using assms
proof cases
  case (recover now)
  then show ?thesis
    using assms(3) by (auto simp: cell_recover_ok cell_record_ok dest: cell_recorded_facts(1))
next
  case (mark t outcome now)
  then show ?thesis using assms(3) by (auto simp: cell_record_ok dest: cell_recorded_facts(1))
next
  case (confirm answer)
  then show ?thesis using assms(3) by (cases answer) (auto simp: cell_confirm_None cell_rearm_def)
qed (auto simp: cell_cancel_None cell_retry_now_None cell_rearm_def split: if_splits)

lemma op_path_in_flight:
  "op_path padd es c c' \<Longrightarrow> EvLease \<notin> set es \<Longrightarrow> oc_state c' = InFlight \<Longrightarrow>
     oc_state c = InFlight \<and> EvRecover \<notin> set es"
  by (induction rule: op_path.induct) (auto dest: op_step_in_flight)

lemma op_path_recovers_once:
  assumes "op_path padd es c c'" and "EvLease \<notin> set es"
  shows "count_list es EvRecover \<le> 1"
  using assms
proof (induction rule: op_path.induct)
  case (path_snoc es c c1 e c2)
  show ?case
  proof (cases "e = EvRecover")
    case True
    then have "oc_state c1 = InFlight" using path_snoc.hyps(2) by (simp add: op_step_simps)
    then have "EvRecover \<notin> set es" using op_path_in_flight path_snoc by auto
    with True show ?thesis by (simp add: count_list_0_iff)
  qed (use path_snoc in auto)
qed simp

section \<open>A handed-over send is not sent again\<close>

text \<open>
  The steps that may put an op back on the queue although its message went out: a definitive
  answer from the worker that handed it over, and the host's own word that it was not delivered.
\<close>

fun releases_send :: "op_event \<Rightarrow> bool" where
  "releases_send (EvMark _ (OFailed _ _)) = True"
| "releases_send (EvConfirm NotDelivered) = True"
| "releases_send _ = False"

definition send_is_out :: "'v op_cell \<Rightarrow> bool" where
  "send_is_out c \<longleftrightarrow> oc_state c = InFlight \<and> oc_handed_over c \<noteq> None \<or>
     oc_state c = NeedsConfirmation \<or> oc_state c = Succeeded"

lemma send_is_out_step:
  assumes "op_step padd e c c'" and "po_kind (oc_op c) = MailSubmit" and "send_is_out c"
    and "\<not> releases_send e"
  shows "send_is_out c' \<and> e \<noteq> EvLease"
  using assms
proof cases
  case (recover now)
  then obtain r where "cell_recorded padd c (cell_interrupted c) now = Inr r"
    "oc_state c' = rc_state r" "oc_state c = InFlight" "e = EvRecover"
    by (auto simp: cell_recover_ok cell_record_ok)
  then show ?thesis using assms(2,3) by (auto simp: send_is_out_def cell_interrupted_state)
next
  case (mark t outcome now)
  with assms(4) have out: "\<not> (\<exists>cl d. outcome = OFailed cl d)" by (cases outcome) auto
  from mark obtain r where r: "cell_recorded padd c outcome now = Inr r" "oc_state c' = rc_state r"
    by (auto simp: step_simps)
  then show ?thesis
    using out record_outcome_state [OF r(1) [unfolded cell_recorded_def]] mark
    by (cases outcome) (auto simp: send_is_out_def)
next
  case (confirm answer)
  then show ?thesis using assms(4) by (cases answer) (auto simp: send_is_out_def step_simps)
qed (auto simp: send_is_out_def step_simps host_refusal_None may_hold_def)

lemma send_is_out_path:
  assumes "op_path padd es c c'" and "po_kind (oc_op c) = MailSubmit" and "send_is_out c"
    and "\<not> list_ex releases_send es"
  shows "send_is_out c' \<and> EvLease \<notin> set es"
  using assms
proof (induction rule: op_path.induct)
  case (path_snoc es c c1 e c2)
  then have "send_is_out c1 \<and> EvLease \<notin> set es" by auto
  moreover have "po_kind (oc_op c1) = MailSubmit"
    using op_path_keeps [OF path_snoc.hyps(1)] path_snoc.prems by simp
  ultimately show ?case
    using send_is_out_step [OF path_snoc.hyps(2)] path_snoc.prems by auto
qed simp

section \<open>The attempts of a write that is not a send are bounded\<close>

text \<open>
  Each lease is paid for by a recorded attempt or is still running, and a queued write has attempts
  left. \<open>n\<close> counts the leases so far.
\<close>

definition attempts_paid :: "nat \<Rightarrow> 'v op_cell \<Rightarrow> bool" where
  "attempts_paid n c \<longleftrightarrow> n \<le> max_attempts \<and>
     n \<le> oc_attempts c + (if oc_state c \<in> {InFlight, Succeeded} then 1 else 0) \<and>
     (oc_state c \<in> {Pending, InFlight} \<longrightarrow> oc_attempts c < max_attempts)"

lemma attempts_paid_record:
  assumes "attempts_paid n c" and "cell_recorded padd c out now = Inr r"
    and "po_kind (oc_op c) \<noteq> MailSubmit"
  shows "n \<le> rc_attempts r" "rc_state r = Pending \<Longrightarrow> rc_attempts r < max_attempts"
proof -
  have att: "rc_attempts r = sat_add u32_max (oc_attempts c) 1"
    using cell_recorded_facts(4) [OF assms(2)] .
  then show "n \<le> rc_attempts r"
    using assms(1) by (auto simp: attempts_paid_def sat_add_def u32_max_def max_attempts_def split: if_splits)
  assume "rc_state r = Pending"
  then have "Suc (oc_attempts c) < max_attempts"
    using record_outcome_state [OF assms(2) [unfolded cell_recorded_def]] assms(3)
    by (auto split: pending_outcome.splits if_splits)
  with att show "rc_attempts r < max_attempts" by (simp add: sat_add_def)
qed

lemma attempts_paid_step:
  assumes "op_step padd e c c'" and "po_kind (oc_op c) \<noteq> MailSubmit"
    and "attempts_paid n c" and "e \<noteq> EvConfirm NotDelivered"
  shows "attempts_paid (n + lease_count [e]) c'"
  using assms
proof cases
  case (recover now)
  then obtain r where r: "cell_recorded padd c (cell_interrupted c) now = Inr r"
    "oc_state c' = rc_state r" "oc_attempts c' = rc_attempts r" "oc_op c' = oc_op c"
    by (auto simp: step_simps)
  then show ?thesis
    using attempts_paid_record [OF assms(3) r(1) assms(2)] cell_recorded_facts [OF r(1)] assms(3) recover
    by (auto simp: attempts_paid_def lease_count_def)
next
  case (mark t outcome now)
  then obtain r where r: "cell_recorded padd c outcome now = Inr r"
    "oc_state c' = rc_state r" "oc_attempts c' = rc_attempts r" "oc_op c' = oc_op c"
    by (auto simp: step_simps)
  then show ?thesis
    using attempts_paid_record [OF assms(3) r(1) assms(2)] cell_recorded_facts [OF r(1)] assms(3) mark
    by (auto simp: attempts_paid_def lease_count_def)
next
  case (confirm answer)
  then show ?thesis using assms
    by (cases answer) (auto simp: attempts_paid_def step_simps lease_count_def)
qed (auto simp: attempts_paid_def step_simps host_refusal_None may_hold_def lease_count_def
    cell_lease_def cell_rearm_def split: if_splits)

lemma attempts_paid_path:
  assumes "op_path padd es c c'" and "po_kind (oc_op c) \<noteq> MailSubmit"
    and "attempts_paid n c" and "EvConfirm NotDelivered \<notin> set es"
  shows "attempts_paid (n + lease_count es) c'"
  using assms
proof (induction rule: op_path.induct)
  case (path_snoc es c c1 e c2)
  then have "attempts_paid (n + lease_count es) c1" by auto
  moreover have "po_kind (oc_op c1) \<noteq> MailSubmit"
    using op_path_keeps [OF path_snoc.hyps(1)] path_snoc.prems by simp
  ultimately show ?case
    using attempts_paid_step [OF path_snoc.hyps(2)] path_snoc.prems
    by (auto simp flip: add.assoc)
qed (simp add: lease_count_def)

section \<open>Terminal states\<close>

text \<open>
  What can still happen to a settled op: a step out of a terminal state is a second mark under the
  still-current lease, a retry of a failed send by the host, or a reconciliation.
\<close>

lemma op_step_leaves_terminal:
  assumes "op_step padd e c c'" and "is_terminal (oc_state c)" and "oc_state c' \<noteq> oc_state c"
  shows "(\<exists>out. e = EvMark (oc_token c) out) \<or>
    e = EvHurry \<and> oc_state c = Failed \<and> po_kind (oc_op c) = MailSubmit \<or>
    e = EvCancel \<and> oc_state c = Failed \<and> po_kind (oc_op c) = MailSubmit \<or> e = EvReconcile"
  using assms
  by cases (auto simp: step_simps host_refusal_None may_mark_def may_hold_def is_terminal_def)

end
