(* ===== verification/Outbox.thy ===== *)
theory Outbox
  imports Mem_State Op_Machine
begin

text \<open>
  The outbox of the in-memory store (\<open>engine-store/src/mem/outbox.rs\<close>, and \<open>enqueue_pending_op\<close> of
  \<open>mem/write.rs\<close>): queueing a write, leasing what may run, recording an outcome, recovering an attempt
  whose worker is gone, and the host's verbs.

  An operation takes the clock's reading \<open>now\<close> and the state, and returns its result with the state it
  leaves; an early return leaves what was changed up to that point, as in the source.
\<close>

section \<open>Leases and claims\<close>

record op_lease =
  ol_account :: account_id
  ol_op :: pending_op_id
  ol_token :: fence_token
  ol_owner :: worker_id
  ol_expiry :: instant

record 'v leased_pending_op =
  lo_id :: pending_op_id
  lo_op :: "'v pending_op"
  lo_lease :: op_lease

datatype 'v pending_op_claim = Leased "'v leased_pending_op" | Refused claim_rejection

definition lease_op ::
  "'v op_cell \<Rightarrow> pending_op_id \<Rightarrow> lease_request \<Rightarrow> instant \<Rightarrow> 'v leased_pending_op \<times> 'v op_cell" where
  "lease_op cell oid req expiry =
     (let cell = cell_lease expiry cell;
          l = \<lparr>ol_account = oc_account cell, ol_op = oid, ol_token = oc_token cell,
               ol_owner = lq_owner req, ol_expiry = expiry\<rparr>
      in (\<lparr>lo_id = oid, lo_op = oc_op cell, lo_lease = l\<rparr>, cell))"

section \<open>Recovery\<close>

text \<open>The loop over the cells that recovers those \<open>p\<close> picks, stopping at the first error.\<close>

fun recover_where ::
  "pdt_add \<Rightarrow> instant \<Rightarrow> ('v op_cell \<Rightarrow> bool) \<Rightarrow> 'v ops \<Rightarrow> (store_error, nat) result \<times> 'v ops" where
  "recover_where padd now p [] = (Inr 0, [])"
| "recover_where padd now p ((oid, c) # ops) =
     (if p c then
        (case cell_recover padd now c of
           (Inl e, c') \<Rightarrow> (Inl e, (oid, c') # ops)
         | (Inr _, c') \<Rightarrow>
             (case recover_where padd now p ops of
                (Inl e, ops') \<Rightarrow> (Inl e, (oid, c') # ops')
              | (Inr n, ops') \<Rightarrow> (Inr (n + 1), (oid, c') # ops')))
      else
        (case recover_where padd now p ops of (r, ops') \<Rightarrow> (r, (oid, c) # ops')))"

definition recover_dead ::
  "pdt_add \<Rightarrow> instant \<Rightarrow> account_id \<Rightarrow> 'v ops \<Rightarrow> (store_error, unit) result \<times> 'v ops" where
  "recover_dead padd now account ops =
     (case recover_where padd now (\<lambda>c. oc_account c = account \<and> cell_is_dead now c) ops of
        (Inl e, ops') \<Rightarrow> (Inl e, ops')
      | (Inr _, ops') \<Rightarrow> (Inr (), ops'))"

definition recover_interrupted ::
  "pdt_add \<Rightarrow> instant \<Rightarrow> 'v inner \<Rightarrow> (store_error, nat) result \<times> 'v inner" where
  "recover_interrupted padd now s =
     (case recover_where padd now (\<lambda>c. oc_state c = InFlight) (in_ops s) of
        (Inl e, ops') \<Rightarrow> (Inl e, s\<lparr>in_ops := ops'\<rparr>)
      | (Inr n, ops') \<Rightarrow> (Inr n, settle_keyword_edits now (s\<lparr>in_ops := ops'\<rparr>)))"

section \<open>Claiming\<close>

definition resource_held :: "'v ops \<Rightarrow> account_id \<Rightarrow> resource_key \<Rightarrow> pending_op_id \<Rightarrow> bool" where
  "resource_held ops account resource except \<longleftrightarrow>
     list_ex (\<lambda>(oid, o'). oid \<noteq> except \<and> oc_account o' = account \<and>
       po_resource_key (oc_op o') = resource \<and> oc_state o' = InFlight) ops"

definition dependencies_met :: "'v ops \<Rightarrow> account_id \<Rightarrow> 'v op_cell \<Rightarrow> bool" where
  "dependencies_met ops account cell \<longleftrightarrow>
     list_all (\<lambda>d. is_some_and (hm_get ops d)
       (\<lambda>dep. oc_account dep = account \<and> is_success (oc_state dep))) (po_depends_on (oc_op cell))"

definition runnable :: "'v ops \<Rightarrow> account_id \<Rightarrow> instant \<Rightarrow> 'v op_cell \<Rightarrow> bool" where
  "runnable ops account now o' \<longleftrightarrow> oc_account o' = account \<and> oc_state o' = Pending \<and>
     is_none_or (oc_next_attempt_at o') (\<lambda>due. due \<le> now) \<and> dependencies_met ops account o'"

fun claim_loop ::
  "account_id \<Rightarrow> lease_request \<Rightarrow> instant \<Rightarrow> instant \<Rightarrow> nat \<Rightarrow> pending_op_id list \<Rightarrow> resource_key set \<Rightarrow>
   'v leased_pending_op list \<Rightarrow> 'v ops \<Rightarrow> 'v leased_pending_op list \<times> 'v ops" where
  "claim_loop account req now expiry limit [] taken res ops = (res, ops)"
| "claim_loop account req now expiry limit (oid # ids) taken res ops =
     (if length res \<ge> limit then (res, ops)
      else case hm_get ops oid of
        None \<Rightarrow> claim_loop account req now expiry limit ids taken res ops
      | Some o' \<Rightarrow>
          (if \<not> runnable ops account now o' \<or> po_resource_key (oc_op o') \<in> taken
           then claim_loop account req now expiry limit ids taken res ops
           else case lease_op o' oid req expiry of (l, cell) \<Rightarrow>
             claim_loop account req now expiry limit ids (insert (po_resource_key (oc_op o')) taken)
               (res @ [l]) (bt_insert oid cell ops)))"

definition held_resources :: "account_id \<Rightarrow> 'v ops \<Rightarrow> resource_key set" where
  "held_resources account ops =
     set (map (\<lambda>o'. po_resource_key (oc_op o'))
       (filter (\<lambda>o'. oc_account o' = account \<and> oc_state o' = InFlight) (map snd ops)))"

definition claim_ops ::
  "pdt_add \<Rightarrow> instant \<Rightarrow> account_id \<Rightarrow> lease_request \<Rightarrow> nat \<Rightarrow> 'v inner \<Rightarrow>
   (store_error, 'v leased_pending_op list) result \<times> 'v inner" where
  "claim_ops padd now account req limit s =
     (case expiry_after padd now req of
        Inl e \<Rightarrow> (Inl e, s)
      | Inr expiry \<Rightarrow>
          (case recover_dead padd now account (in_ops s) of
             (Inl e, ops') \<Rightarrow> (Inl e, s\<lparr>in_ops := ops'\<rparr>)
           | (Inr _, ops') \<Rightarrow>
               (let s = settle_keyword_edits now (s\<lparr>in_ops := ops'\<rparr>);
                    ops = in_ops s
                in case claim_loop account req now expiry limit (hm_keys ops)
                     (held_resources account ops) [] ops of
                   (res, ops') \<Rightarrow> (Inr res, s\<lparr>in_ops := ops'\<rparr>))))"

definition claim_refusal ::
  "'v ops \<Rightarrow> account_id \<Rightarrow> instant \<Rightarrow> pending_op_id \<Rightarrow> 'v op_cell \<Rightarrow> claim_rejection option" where
  "claim_refusal ops account now oid cell =
     opt_or (opt_or
       (case oc_state cell of
          Pending \<Rightarrow> (if is_none_or (oc_next_attempt_at cell) (\<lambda>due. due \<le> now) then None else Some CrBackoff)
        | InFlight \<Rightarrow> Some CrBusy
        | Succeeded \<Rightarrow> Some CrSettled
        | Failed \<Rightarrow> Some CrSettled
        | Cancelled \<Rightarrow> Some CrSettled
        | NeedsConfirmation \<Rightarrow> Some CrSettled)
       (if \<not> dependencies_met ops account cell then Some CrDependencyUnmet else None))
       (if resource_held ops account (po_resource_key (oc_op cell)) oid then Some CrBusy else None)"

definition claim_one ::
  "pdt_add \<Rightarrow> instant \<Rightarrow> account_id \<Rightarrow> pending_op_id \<Rightarrow> lease_request \<Rightarrow> 'v inner \<Rightarrow>
   (store_error, 'v pending_op_claim) result \<times> 'v inner" where
  "claim_one padd now account oid req s =
     (case expiry_after padd now req of
        Inl e \<Rightarrow> (Inl e, s)
      | Inr expiry \<Rightarrow>
          (case recover_dead padd now account (in_ops s) of
             (Inl e, ops') \<Rightarrow> (Inl e, s\<lparr>in_ops := ops'\<rparr>)
           | (Inr _, ops') \<Rightarrow>
               (let s = settle_keyword_edits now (s\<lparr>in_ops := ops'\<rparr>);
                    ops = in_ops s
                in case hm_get ops oid of
                     None \<Rightarrow> (Inr (Refused CrUnknown), s)
                   | Some cell \<Rightarrow>
                       (if oc_account cell \<noteq> account then (Inr (Refused CrUnknown), s)
                        else case claim_refusal ops account now oid cell of
                          Some refusal \<Rightarrow> (Inr (Refused refusal), s)
                        | None \<Rightarrow>
                            (case lease_op cell oid req expiry of (l, cell') \<Rightarrow>
                               (Inr (Leased l), s\<lparr>in_ops := bt_insert oid cell' ops\<rparr>))))))"

section \<open>Reporting under a lease\<close>

definition mark ::
  "pdt_add \<Rightarrow> instant \<Rightarrow> op_lease \<Rightarrow> pending_outcome \<Rightarrow> 'v inner \<Rightarrow> (store_error, unit) result \<times> 'v inner" where
  "mark padd now l outcome s =
     (case hm_get (in_ops s) (ol_op l) of
        None \<Rightarrow> (Inl StaleLease, s)
      | Some cell \<Rightarrow>
          (let current = (ol_token l = oc_token cell);
               handed_over = (oc_state cell = NeedsConfirmation \<and> oc_handed_over cell = Some (ol_token l))
           in if \<not> current \<and> \<not> handed_over then (Inl StaleLease, s)
              else case cell_record padd outcome now cell of
                (Inl e, cell') \<Rightarrow> (Inl e, s\<lparr>in_ops := bt_insert (ol_op l) cell' (in_ops s)\<rparr>)
              | (Inr _, cell') \<Rightarrow>
                  (Inr (), settle_keyword_edits now (s\<lparr>in_ops := bt_insert (ol_op l) cell' (in_ops s)\<rparr>))))"

definition hand_over :: "op_lease \<Rightarrow> 'v inner \<Rightarrow> (store_error, unit) result \<times> 'v inner" where
  "hand_over l s =
     (case hm_get (in_ops s) (ol_op l) of
        None \<Rightarrow> (Inl StaleLease, s)
      | Some cell \<Rightarrow>
          (if \<not> (oc_token cell = ol_token l \<and> oc_state cell = InFlight) then (Inl StaleLease, s)
           else (Inr (), s\<lparr>in_ops := bt_insert (ol_op l) (cell\<lparr>oc_handed_over := Some (ol_token l)\<rparr>) (in_ops s)\<rparr>)))"

definition renew ::
  "pdt_add \<Rightarrow> instant \<Rightarrow> op_lease \<Rightarrow> std_duration \<Rightarrow> 'v inner \<Rightarrow> (store_error, unit) result \<times> 'v inner" where
  "renew padd now l ttl s =
     (case utc_checked_add padd now ttl of
        None \<Rightarrow> (Inl (Backend ''lease ttl overflow''), s)
      | Some expiry \<Rightarrow>
          (case hm_get (in_ops s) (ol_op l) of
             None \<Rightarrow> (Inl StaleLease, s)
           | Some cell \<Rightarrow>
               (if \<not> (oc_token cell = ol_token l \<and> oc_state cell = InFlight) then (Inl StaleLease, s)
                else (Inr (), s\<lparr>in_ops := bt_insert (ol_op l) (cell\<lparr>oc_lease_expiry := Some expiry\<rparr>) (in_ops s)\<rparr>))))"

section \<open>The host's verbs\<close>

definition host_verb ::
  "pdt_add \<Rightarrow> instant \<Rightarrow> account_id \<Rightarrow> pending_op_id \<Rightarrow> ('v op_cell \<Rightarrow> op_rejection option \<times> 'v op_cell) \<Rightarrow>
   'v inner \<Rightarrow> (store_error, op_rejection option) result \<times> 'v inner" where
  "host_verb padd now account oid act s =
     (case hm_get (in_ops s) oid of
        None \<Rightarrow> (Inr (Some OrUnknown), s)
      | Some cell \<Rightarrow>
          (if oc_account cell \<noteq> account then (Inr (Some OrUnknown), s)
           else case (if cell_is_dead now cell then cell_recover padd now cell else (Inr (), cell)) of
             (Inl e, cell') \<Rightarrow> (Inl e, s\<lparr>in_ops := bt_insert oid cell' (in_ops s)\<rparr>)
           | (Inr _, cell') \<Rightarrow>
               (case act cell' of (refused, cell'') \<Rightarrow>
                  (Inr refused, settle_keyword_edits now (s\<lparr>in_ops := bt_insert oid cell'' (in_ops s)\<rparr>)))))"

definition cancel ::
  "pdt_add \<Rightarrow> instant \<Rightarrow> account_id \<Rightarrow> pending_op_id \<Rightarrow> 'v inner \<Rightarrow>
   (store_error, op_rejection option) result \<times> 'v inner" where
  "cancel padd now account oid = host_verb padd now account oid cell_cancel"

definition retry_now ::
  "pdt_add \<Rightarrow> instant \<Rightarrow> account_id \<Rightarrow> pending_op_id \<Rightarrow> 'v inner \<Rightarrow>
   (store_error, op_rejection option) result \<times> 'v inner" where
  "retry_now padd now account oid = host_verb padd now account oid cell_retry_now"

definition confirm ::
  "pdt_add \<Rightarrow> instant \<Rightarrow> account_id \<Rightarrow> pending_op_id \<Rightarrow> confirmation \<Rightarrow> 'v inner \<Rightarrow>
   (store_error, op_rejection option) result \<times> 'v inner" where
  "confirm padd now account oid confirmation = host_verb padd now account oid (cell_confirm confirmation)"

section \<open>Queueing\<close>

definition op_cell_new :: "account_id \<Rightarrow> 'v pending_op \<Rightarrow> 'v op_cell" where
  "op_cell_new account op = \<lparr>oc_account = account, oc_op = op, oc_state = Pending,
     oc_token = fence_initial, oc_lease_expiry = None, oc_attempts = 0, oc_next_attempt_at = None,
     oc_failure_class = None, oc_detail = None, oc_handed_over = None, oc_settled_at = None\<rparr>"

definition enqueue_pending_op ::
  "account_id \<Rightarrow> 'v pending_op \<Rightarrow> 'v inner \<Rightarrow> (store_error, pending_op_id) result \<times> 'v inner" where
  "enqueue_pending_op account op s =
     (let idem = (account, po_idempotency_key op) in
      case hm_get (in_idempotency s) idem of
        Some oid \<Rightarrow> (Inr oid, s)
      | None \<Rightarrow>
          (let oid = in_next_op s;
               s = s\<lparr>in_next_op := oid + 1,
                     in_ops := bt_insert oid (op_cell_new account op) (in_ops s),
                     in_idempotency := hm_insert idem oid (in_idempotency s)\<rparr>
           in (Inr oid,
               case po_keyword_edit op of
                 None \<Rightarrow> s
               | Some edit \<Rightarrow> keyword_edit_queued account edit s)))"

section \<open>The claim loop\<close>

lemma lease_op_simps [simp]:
  "snd (lease_op c i req e) = cell_lease e c"
  "lo_id (fst (lease_op c i req e)) = i"
  "lo_op (fst (lease_op c i req e)) = oc_op c"
  "ol_op (lo_lease (fst (lease_op c i req e))) = i"
  "ol_account (lo_lease (fst (lease_op c i req e))) = oc_account c"
  "ol_token (lo_lease (fst (lease_op c i req e))) = fence_bump (oc_token c)"
  "ol_owner (lo_lease (fst (lease_op c i req e))) = lq_owner req"
  "ol_expiry (lo_lease (fst (lease_op c i req e))) = e"
  by (simp_all add: lease_op_def Let_def cell_lease_def)

text \<open>Leasing a queued op settles nothing, so it opens and closes no dependency.\<close>

lemma dependencies_met_lease:
  assumes "hm_get ops i = Some c" and "oc_state c = Pending"
  shows "dependencies_met (bt_insert i (cell_lease e c) ops) account d = dependencies_met ops account d"
  using assms
  by (auto simp: dependencies_met_def list_all_iff is_success_def cell_lease_def is_some_and_def
      split: option.splits if_splits)

lemma runnable_lease:
  assumes "hm_get ops i = Some c" and "oc_state c = Pending"
  shows "runnable (bt_insert i (cell_lease e c) ops) account now d = runnable ops account now d"
  by (simp add: runnable_def dependencies_met_lease [OF assms])

abbreviation lo_resource :: "'v leased_pending_op \<Rightarrow> resource_key" where
  "lo_resource l \<equiv> po_resource_key (lo_op l)"

text \<open>
  The contract of one round of leasing over \<open>ids\<close>: which ops it leases, that no two of them share a
  resource with each other or with \<open>taken\<close>, what it leaves in the map, and that it passes over a
  runnable op only when its resource is taken or the limit is reached.
\<close>

definition claim_round where
  "claim_round account req now expiry ids taken ops ls ops' \<longleftrightarrow>
     distinct (map lo_id ls) \<and> lo_id ` set ls \<subseteq> set ids \<and>
     (\<forall>i. hm_get ops' i = (if i \<in> lo_id ` set ls then map_option (cell_lease expiry) (hm_get ops i)
                           else hm_get ops i)) \<and>
     (\<forall>l \<in> set ls. \<exists>c. hm_get ops (lo_id l) = Some c \<and> runnable ops account now c \<and>
        l = fst (lease_op c (lo_id l) req expiry)) \<and>
     distinct (map lo_resource ls) \<and> lo_resource ` set ls \<inter> taken = {}"

definition claim_complete where
  "claim_complete account now ids taken ops ls \<longleftrightarrow>
     (\<forall>i \<in> set ids. \<forall>c. hm_get ops i = Some c \<and> runnable ops account now c \<longrightarrow>
        po_resource_key (oc_op c) \<in> taken \<union> lo_resource ` set ls)"

lemma claim_round_Nil [simp]: "claim_round account req now expiry ids taken ops [] ops"
  by (simp add: claim_round_def)

lemma claim_round_skip:
  "claim_round account req now expiry ids taken ops ls ops' \<Longrightarrow>
     claim_round account req now expiry (i # ids) taken ops ls ops'"
  by (auto simp: claim_round_def)

lemma claim_round_lease:
  assumes c: "hm_get ops i = Some c" and run: "runnable ops account now c"
    and fresh: "po_resource_key (oc_op c) \<notin> taken" "i \<notin> set ids"
    and rest: "claim_round account req now expiry ids (insert (po_resource_key (oc_op c)) taken)
      (bt_insert i (cell_lease expiry c) ops) ls ops'"
  shows "claim_round account req now expiry (i # ids) taken ops
    (fst (lease_op c i req expiry) # ls) ops'"
proof -
  have pend: "oc_state c = Pending" using run by (simp add: runnable_def)
  have ids: "lo_id ` set ls \<subseteq> set ids" using rest by (simp add: claim_round_def)
  then have ni: "i \<notin> lo_id ` set ls" using fresh(2) by auto
  show ?thesis
    unfolding claim_round_def
  proof (intro conjI ballI)
    fix l assume l: "l \<in> set (fst (lease_op c i req expiry) # ls)"
    show "\<exists>c. hm_get ops (lo_id l) = Some c \<and> runnable ops account now c \<and>
        l = fst (lease_op c (lo_id l) req expiry)"
    proof (cases "l \<in> set ls")
      case True
      then have "lo_id l \<noteq> i" using ni by auto
      with True rest show ?thesis
        by (fastforce simp: claim_round_def runnable_lease [OF c pend] fun_upd_apply)
    next
      case False
      with l c run show ?thesis by auto
    qed
  qed (use rest ni ids c fresh in \<open>auto simp: claim_round_def fun_upd_apply\<close>)
qed

lemma claim_loop_spec:
  assumes "claim_loop account req now expiry limit ids taken res ops = (res', ops')" "distinct ids"
  shows "\<exists>ls. res' = res @ ls \<and> claim_round account req now expiry ids taken ops ls ops' \<and>
    (length res \<le> limit \<longrightarrow> length res' \<le> limit) \<and>
    (length res' < limit \<longrightarrow> claim_complete account now ids taken ops ls)"
  using assms
proof (induction account req now expiry limit ids taken res ops
    arbitrary: res' ops' rule: claim_loop.induct)
  case (1 account req now expiry limit taken res ops)
  then show ?case by (auto simp: claim_complete_def)
next
  case (2 account req now expiry limit i ids taken res ops)
  show ?case
  proof (cases "length res \<ge> limit")
    case True
    with 2 show ?thesis by (intro exI [of _ "[]"]) auto
  next
    case False
    note few = this
    show ?thesis
    proof (cases "hm_get ops i")
      case None
      with 2 few show ?thesis
        by (fastforce intro: claim_round_skip simp: claim_complete_def)
    next
      case (Some c)
      show ?thesis
      proof (cases "\<not> runnable ops account now c \<or> po_resource_key (oc_op c) \<in> taken")
        case True
        with 2 few Some show ?thesis
          by (fastforce intro: claim_round_skip simp: claim_complete_def)
      next
        case False
        then have run: "runnable ops account now c" "po_resource_key (oc_op c) \<notin> taken" by auto
        let ?ops = "bt_insert i (cell_lease expiry c) ops"
        obtain l where split: "lease_op c i req expiry = (l, cell_lease expiry c)"
          by (metis lease_op_simps(1) prod.collapse)
        have l: "l = fst (lease_op c i req expiry)" using split by simp
        have eq: "claim_loop account req now expiry limit ids
            (insert (po_resource_key (oc_op c)) taken) (res @ [l]) ?ops = (res', ops')"
          using "2.prems"(1) few Some run split by simp
        from "2.IH"(3) [OF few Some False split [symmetric], of res' ops'] eq "2.prems"(2)
        obtain ls where ls: "res' = (res @ [l]) @ ls"
          "claim_round account req now expiry ids (insert (po_resource_key (oc_op c)) taken) ?ops ls ops'"
          "length (res @ [l]) \<le> limit \<longrightarrow> length res' \<le> limit"
          "length res' < limit \<longrightarrow>
             claim_complete account now ids (insert (po_resource_key (oc_op c)) taken) ?ops ls"
          by auto
        have pend: "oc_state c = Pending" using run by (simp add: runnable_def)
        have comp: "length res' < limit \<longrightarrow> claim_complete account now (i # ids) taken ops (l # ls)"
          using ls(4) "2.prems"(2) Some
          by (fastforce simp: claim_complete_def l runnable_lease [OF Some pend] fun_upd_apply)
        show ?thesis
          using ls few comp claim_round_lease [OF Some run _ ls(2)] "2.prems"(2) l
          by (intro exI [of _ "l # ls"]) auto
      qed
    qed
  qed
qed

end
