(* ===== verification/Outbox_Laws.thy ===== *)
theory Outbox_Laws
  imports Outbox
begin

text \<open>
  What every outbox operation does to every op, as paths of the op machine, and the invariant of the
  outbox: at most one op in flight per resource, an id and an idempotency key per op.
\<close>

section \<open>Moving ops along their machine\<close>

text \<open>
  \<open>ops_moved padd E n L ops ops'\<close>: each op of \<open>ops\<close> went along a path to its cell in \<open>ops'\<close>; the path of
  op \<open>i\<close> uses only events of \<open>E i\<close>, bumps the token at most \<open>n\<close> times and leases it \<open>L i\<close> times.
\<close>

definition ops_moved ::
  "pdt_add \<Rightarrow> (pending_op_id \<Rightarrow> op_event set) \<Rightarrow> nat \<Rightarrow> (pending_op_id \<Rightarrow> nat) \<Rightarrow> 'v ops \<Rightarrow> 'v ops \<Rightarrow> bool" where
  "ops_moved padd E n L ops ops' \<longleftrightarrow>
     (\<forall>i. rel_option (\<lambda>c c'. \<exists>es. op_path padd es c c' \<and> set es \<subseteq> E i \<and> bump_count es \<le> n \<and>
            lease_count es = L i) (hm_get ops i) (hm_get ops' i))"

definition no_lease :: "pending_op_id \<Rightarrow> nat" where "no_lease i = 0"

lemma ops_moved_refl: "ops_moved padd E n no_lease ops ops"
  by (auto simp: ops_moved_def no_lease_def lease_count_def option.rel_refl
      intro!: option.rel_refl_strong exI [of _ "[]"])

lemma ops_moved_mono:
  assumes "ops_moved padd E n L ops ops'" "\<And>i. E i \<subseteq> E' i" "n \<le> n'"
  shows "ops_moved padd E' n' L ops ops'"
  unfolding ops_moved_def
proof
  fix i
  show "rel_option (\<lambda>c c'. \<exists>es. op_path padd es c c' \<and> set es \<subseteq> E' i \<and> bump_count es \<le> n' \<and>
      lease_count es = L i) (hm_get ops i) (hm_get ops' i)"
    using assms(1) [unfolded ops_moved_def, rule_format, of i]
  proof (rule option.rel_mono_strong)
    fix c c'
    assume "\<exists>es. op_path padd es c c' \<and> set es \<subseteq> E i \<and> bump_count es \<le> n \<and> lease_count es = L i"
    then show "\<exists>es. op_path padd es c c' \<and> set es \<subseteq> E' i \<and> bump_count es \<le> n' \<and> lease_count es = L i"
      using assms(2) [of i] assms(3) by (meson le_trans subset_trans)
  qed
qed

lemma ops_moved_trans:
  assumes "ops_moved padd E n L ops ops1" and "ops_moved padd E m M ops1 ops2"
  shows "ops_moved padd E (n + m) (\<lambda>i. L i + M i) ops ops2"
  unfolding ops_moved_def
proof
  fix i
  note a = assms(1) [unfolded ops_moved_def, rule_format, of i]
  note b = assms(2) [unfolded ops_moved_def, rule_format, of i]
  show "rel_option (\<lambda>c c'. \<exists>es. op_path padd es c c' \<and> set es \<subseteq> E i \<and> bump_count es \<le> n + m \<and>
      lease_count es = L i + M i) (hm_get ops i) (hm_get ops2 i)"
  proof (cases "hm_get ops i")
    case None
    with a b show ?thesis by simp
  next
    case (Some c)
    from a Some obtain es c1 where 1: "hm_get ops1 i = Some c1" "op_path padd es c c1"
      "set es \<subseteq> E i" "bump_count es \<le> n" "lease_count es = L i" by (auto simp: option_rel_Some1)
    with b obtain fs c2 where 2: "hm_get ops2 i = Some c2" "op_path padd fs c1 c2"
      "set fs \<subseteq> E i" "bump_count fs \<le> m" "lease_count fs = M i" by (auto simp: option_rel_Some1)
    have "op_path padd (es @ fs) c c2" using op_path_append 1(2) 2(2) by blast
    with Some 1 2 show ?thesis by (auto intro!: exI [of _ "es @ fs"])
  qed
qed

lemma ops_moved_insert:
  assumes "hm_get ops i = Some c" and "op_path padd es c c'" and "set es \<subseteq> E i"
    and "bump_count es \<le> n" and "lease_count es = 0"
  shows "ops_moved padd E n no_lease ops (bt_insert i c' ops)"
  unfolding ops_moved_def
proof
  fix j
  show "rel_option (\<lambda>c c'. \<exists>es. op_path padd es c c' \<and> set es \<subseteq> E j \<and> bump_count es \<le> n \<and>
      lease_count es = no_lease j) (hm_get ops j) (hm_get (bt_insert i c' ops) j)"
  proof (cases "j = i")
    case True
    with assms show ?thesis by (auto simp: no_lease_def)
  next
    case False
    then show ?thesis
      by (auto simp: no_lease_def lease_count_def intro!: option.rel_refl exI [of _ "[]"])
  qed
qed

lemma ops_movedD:
  assumes "ops_moved padd E n L ops ops'" and "hm_get ops i = Some c"
  obtains es c' where "hm_get ops' i = Some c'" "op_path padd es c c'" "set es \<subseteq> E i"
    "bump_count es \<le> n" "lease_count es = L i"
  using assms(1) [unfolded ops_moved_def, rule_format, of i] assms(2)
  by (auto simp: option_rel_Some1)

lemma ops_moved_backD:
  assumes "ops_moved padd E n L ops ops'" and "hm_get ops' i = Some c'"
  obtains es c where "hm_get ops i = Some c" "op_path padd es c c'" "set es \<subseteq> E i"
    "bump_count es \<le> n" "lease_count es = L i"
  using assms(1) [unfolded ops_moved_def, rule_format, of i] assms(2)
  by (auto simp: option_rel_Some2)

lemma ops_moved_dom:
  assumes "ops_moved padd E n L ops ops'"
  shows "dom (hm_get ops') = dom (hm_get ops)"
proof -
  have "hm_get ops i = None \<longleftrightarrow> hm_get ops' i = None" for i
    using assms [unfolded ops_moved_def, rule_format, of i] by (cases "hm_get ops i") (auto simp: option_rel_Some1)
  then show ?thesis by (auto simp: dom_def)
qed

section \<open>Recovery and settling\<close>

lemma cell_recover_event:
  assumes "cell_recover padd now c = (r, c')" and "oc_state c = InFlight"
  shows "(\<exists>e. r = Inl e \<and> c' = c) \<or> r = Inr () \<and> op_step padd EvRecover c c'"
  using assms(1)
proof (cases rule: cell_recover_cases)
  case (ok x)
  then show ?thesis using assms by (auto simp del: op_step_simps intro: op_step.recover)
qed simp

lemma recover_where_keys: "recover_where padd now p ops = (r, ops') \<Longrightarrow> hm_keys ops' = hm_keys ops"
  by (induction padd now p ops arbitrary: r ops' rule: recover_where.induct)
    (auto split: if_splits prod.splits sum.splits)

text \<open>Where the loop succeeds it has recovered every cell \<open>p\<close> picks and touched no other.\<close>

lemma recover_where_map:
  assumes "recover_where padd now p ops = (Inr n, ops')"
  shows "ops' = map_values (\<lambda>c. if p c then snd (cell_recover padd now c) else c) ops \<and>
    n = length (filter p (map snd ops)) \<and>
    (\<forall>c \<in> snd ` set ops. p c \<longrightarrow> fst (cell_recover padd now c) = Inr ())"
  using assms
  by (induction padd now p ops arbitrary: n ops' rule: recover_where.induct)
    (auto simp: map_values_def split: if_splits prod.splits sum.splits)

lemma recover_where_cell:
  assumes "recover_where padd now p ops = (r, ops')" and "distinct (map fst ops)"
  shows "rel_option (\<lambda>c c'. c' = c \<or> p c \<and> cell_recover padd now c = (Inr (), c'))
    (hm_get ops i) (hm_get ops' i)"
  using assms
proof (induction padd now p ops arbitrary: r ops' rule: recover_where.induct)
  case (2 padd now p j c ops)
  have refl: "rel_option (\<lambda>c c'. c' = c \<or> p c \<and> cell_recover padd now c = (Inr (), c')) x x" for x
    by (rule option.rel_refl) simp
  show ?case
  proof (cases "p c")
    case True
    obtain rc c1 where rc: "cell_recover padd now c = (rc, c1)" by force
    obtain r2 ops2 where r2: "recover_where padd now p ops = (r2, ops2)" by force
    show ?thesis
    proof (cases rc)
      case (Inl e)
      with rc have "c1 = c" by (auto elim: cell_recover_cases)
      with 2(3) True rc Inl refl show ?thesis by auto
    next
      case (Inr u)
      with 2 True rc r2 show ?thesis by (auto split: sum.splits)
    qed
  next
    case False
    with 2 refl show ?thesis by (auto split: prod.splits)
  qed
qed simp

lemma recover_where_moved:
  assumes "recover_where padd now p ops = (r, ops')" and "distinct (map fst ops)"
    and "\<And>c. p c \<Longrightarrow> oc_state c = InFlight"
  shows "ops_moved padd (\<lambda>_. {EvRecover}) 1 no_lease ops ops'"
  unfolding ops_moved_def
proof
  fix i
  show "rel_option (\<lambda>c c'. \<exists>es. op_path padd es c c' \<and> set es \<subseteq> {EvRecover} \<and> bump_count es \<le> 1 \<and>
      lease_count es = no_lease i) (hm_get ops i) (hm_get ops' i)"
    using recover_where_cell [OF assms(1,2), of i]
  proof (rule option.rel_mono_strong)
    fix c c' assume "c' = c \<or> p c \<and> cell_recover padd now c = (Inr (), c')"
    then show "\<exists>es. op_path padd es c c' \<and> set es \<subseteq> {EvRecover} \<and> bump_count es \<le> 1 \<and>
        lease_count es = no_lease i"
    proof
      assume "c' = c"
      then show ?thesis by (auto intro!: exI [of _ "[]"] simp: no_lease_def lease_count_def)
    next
      assume "p c \<and> cell_recover padd now c = (Inr (), c')"
      then have "op_step padd EvRecover c c'" using assms(3) by (auto simp: op_step_simps)
      then show ?thesis by (intro exI [of _ "[EvRecover]"]) (auto simp: no_lease_def lease_count_def)
    qed
  qed
qed

lemma stamp_moved: "ops_moved padd (\<lambda>_. {EvStamp}) 0 no_lease ops (map_values (stamp_settled now) ops)"
  unfolding ops_moved_def
proof
  fix i
  show "rel_option (\<lambda>c c'. \<exists>es. op_path padd es c c' \<and> set es \<subseteq> {EvStamp} \<and> bump_count es \<le> 0 \<and>
      lease_count es = no_lease i) (hm_get ops i) (hm_get (map_values (stamp_settled now) ops) i)"
  proof (cases "hm_get ops i")
    case (Some c)
    show ?thesis
    proof (cases "newly_settled c")
      case True
      then have "op_step padd EvStamp c (stamp_settled now c)"
        by (auto simp: newly_settled_def stamp_settled_def op_step_simps)
      with Some show ?thesis
        by (auto intro!: exI [of _ "[EvStamp]"] simp: no_lease_def lease_count_def)
    next
      case False
      with Some show ?thesis
        by (auto intro!: exI [of _ "[]"] simp: no_lease_def lease_count_def stamp_settled_def)
    qed
  qed simp
qed

section \<open>The operations\<close>

lemma ops_moved_settled:
  assumes "ops_moved padd E n L (in_ops s) (in_ops s1)" and "\<And>i. EvStamp \<in> E i"
  shows "ops_moved padd E n L (in_ops s) (in_ops (settle_keyword_edits now s1))"
  using ops_moved_trans [OF assms(1) ops_moved_mono [OF stamp_moved, of E 0 padd "in_ops s1" now]] assms(2)
  by (simp add: no_lease_def)

definition bt_inner :: "'v inner \<Rightarrow> bool" where "bt_inner s \<longleftrightarrow> bt_ok (in_ops s)"

lemma bt_inner_distinct: "bt_inner s \<Longrightarrow> distinct (map fst (in_ops s))"
  unfolding bt_inner_def by (rule bt_ok_distinct)

lemma recover_dead_moved:
  assumes "recover_dead padd now account ops = (r, ops')" and "distinct (map fst ops)"
  shows "ops_moved padd (\<lambda>_. {EvRecover}) 1 no_lease ops ops'"
proof -
  obtain r1 where "recover_where padd now (\<lambda>c. oc_account c = account \<and> cell_is_dead now c) ops = (r1, ops')"
    using assms(1) by (auto simp: recover_dead_def split: prod.splits sum.splits)
  then show ?thesis by (rule recover_where_moved [OF _ assms(2)]) (simp add: cell_is_dead_def)
qed

lemma recover_dead_keys: "recover_dead padd now account ops = (r, ops') \<Longrightarrow> hm_keys ops' = hm_keys ops"
  by (auto simp: recover_dead_def split: prod.splits sum.splits dest: recover_where_keys)

lemma recover_dead_done:
  assumes "recover_dead padd now account ops = (Inr u, ops')" and "distinct (map fst ops)"
    and "hm_get ops' i = Some c" and "oc_account c = account"
  shows "\<not> cell_is_dead now c"
proof -
  let ?p = "\<lambda>c. oc_account c = account \<and> cell_is_dead now c"
  obtain n where n: "recover_where padd now ?p ops = (Inr n, ops')"
    using assms(1) by (auto simp: recover_dead_def split: prod.splits sum.splits)
  note m = recover_where_map [OF n]
  from assms(3) m obtain d where d: "hm_get ops i = Some d"
    "c = (if ?p d then snd (cell_recover padd now d) else d)" by auto
  show ?thesis
  proof (cases "?p d")
    case True
    have "d \<in> snd ` set ops" using d(1) by (force dest: map_of_SomeD)
    with m True have "fst (cell_recover padd now d) = Inr ()" by blast
    with d(2) True have "cell_recover padd now d = (Inr (), c)" by (simp add: prod_eq_iff)
    then show ?thesis
      by (auto simp: cell_recover_ok cell_record_ok cell_is_dead_def dest: cell_recorded_facts(1))
  next
    case False
    with d assms(4) show ?thesis by (auto split: if_splits)
  qed
qed

text \<open>A round of leasing moves the ops it leases by one lease step each.\<close>

definition leased_ids :: "'v leased_pending_op list \<Rightarrow> pending_op_id \<Rightarrow> nat" where
  "leased_ids ls i = (if i \<in> lo_id ` set ls then 1 else 0)"

lemma leased_ids_Nil [simp]: "leased_ids [] = no_lease"
  by (simp add: leased_ids_def no_lease_def fun_eq_iff)

lemma claim_round_moved:
  assumes "claim_round account req now expiry ids taken ops ls ops'"
  shows "ops_moved padd (\<lambda>_. {EvLease}) 1 (leased_ids ls) ops ops'"
  unfolding ops_moved_def
proof
  fix i
  have get: "hm_get ops' i = (if i \<in> lo_id ` set ls then map_option (cell_lease expiry) (hm_get ops i)
      else hm_get ops i)" using assms by (simp add: claim_round_def)
  show "rel_option (\<lambda>c c'. \<exists>es. op_path padd es c c' \<and> set es \<subseteq> {EvLease} \<and> bump_count es \<le> 1 \<and>
      lease_count es = leased_ids ls i) (hm_get ops i) (hm_get ops' i)"
  proof (cases "i \<in> lo_id ` set ls")
    case True
    with assms obtain c where c: "hm_get ops i = Some c" "runnable ops account now c"
      by (auto simp: claim_round_def)
    then have "op_step padd EvLease c (cell_lease expiry c)"
      by (auto simp: runnable_def cell_due_def intro: op_step.lease)
    with True c get show ?thesis
      by (auto intro!: exI [of _ "[EvLease]"] simp: leased_ids_def lease_count_def)
  next
    case False
    with get show ?thesis
      by (auto simp: leased_ids_def lease_count_def intro!: option.rel_refl exI [of _ "[]"])
  qed
qed

fun minted_by_claim :: "(store_error, 'v leased_pending_op list) result \<Rightarrow> 'v leased_pending_op list" where
  "minted_by_claim (Inr ls) = ls"
| "minted_by_claim (Inl _) = []"

text \<open>
  The recovered and settled outbox a claim decides on, and the claim as a round over it.
\<close>

definition claim_view :: "pdt_add \<Rightarrow> instant \<Rightarrow> account_id \<Rightarrow> 'v inner \<Rightarrow> 'v inner" where
  "claim_view padd now account s =
     settle_keyword_edits now (s\<lparr>in_ops := snd (recover_dead padd now account (in_ops s))\<rparr>)"

lemma claim_ops_cases:
  assumes "claim_ops padd now account req limit s = (r, s')" and "bt_inner s"
  obtains (overflow) e where "r = Inl e" "s' = s"
  | (failed) e ops' where "r = Inl e" "s' = s\<lparr>in_ops := ops'\<rparr>"
      "recover_dead padd now account (in_ops s) = (Inl e, ops')"
  | (claimed) expiry ls ops' where "r = Inr ls" "expiry_after padd now req = Inr expiry"
      "fst (recover_dead padd now account (in_ops s)) = Inr ()"
      "s' = (claim_view padd now account s)\<lparr>in_ops := ops'\<rparr>"
      "claim_round account req now expiry (hm_keys (in_ops (claim_view padd now account s)))
         (held_resources account (in_ops (claim_view padd now account s)))
         (in_ops (claim_view padd now account s)) ls ops'"
      "length ls \<le> limit"
      "length ls < limit \<longrightarrow> claim_complete account now
         (hm_keys (in_ops (claim_view padd now account s)))
         (held_resources account (in_ops (claim_view padd now account s)))
         (in_ops (claim_view padd now account s)) ls"
proof -
  show thesis
  proof (cases "expiry_after padd now req")
    case (Inl e)
    with assms(1) that(1) show thesis by (auto simp: claim_ops_def)
  next
    case (Inr expiry)
    obtain rd ops1 where rd: "recover_dead padd now account (in_ops s) = (rd, ops1)" by force
    show thesis
    proof (cases rd)
      case (Inl e)
      with assms(1) Inr rd that(2) show thesis by (auto simp: claim_ops_def)
    next
      case (Inr u)
      let ?v = "claim_view padd now account s"
      have v: "?v = settle_keyword_edits now (s\<lparr>in_ops := ops1\<rparr>)" using rd by (simp add: claim_view_def)
      obtain ls ops' where loop: "claim_loop account req now expiry limit (hm_keys (in_ops ?v))
          (held_resources account (in_ops ?v)) [] (in_ops ?v) = (ls, ops')" by force
      have "distinct (hm_keys (in_ops ?v))"
        using recover_dead_keys [OF rd] bt_inner_distinct [OF assms(2)] by (simp add: v)
      note spec = claim_loop_spec [OF loop this]
      have "(r, s') = (case claim_loop account req now expiry limit (hm_keys (in_ops ?v))
          (held_resources account (in_ops ?v)) [] (in_ops ?v) of
            (res, ops') \<Rightarrow> (Inr res, ?v\<lparr>in_ops := ops'\<rparr>))"
        unfolding assms(1) [symmetric] claim_ops_def \<open>expiry_after padd now req = Inr expiry\<close> rd Inr v
          sum.case prod.case Let_def ..
      then have "r = Inr ls" "s' = ?v\<lparr>in_ops := ops'\<rparr>" unfolding loop by simp_all
      with spec \<open>expiry_after padd now req = Inr expiry\<close> rd Inr show thesis
        by (intro that(3) [of ls expiry ops']) auto
    qed
  qed
qed

lemma claim_view_moved:
  assumes "bt_inner s"
  shows "ops_moved padd (\<lambda>_. {EvRecover, EvStamp}) 1 no_lease (in_ops s) (in_ops (claim_view padd now account s))"
proof -
  obtain rd ops1 where rd: "recover_dead padd now account (in_ops s) = (rd, ops1)" by force
  have "ops_moved padd (\<lambda>_. {EvRecover, EvStamp}) 1 no_lease (in_ops s) (in_ops (s\<lparr>in_ops := ops1\<rparr>))"
    using ops_moved_mono [OF recover_dead_moved [OF rd bt_inner_distinct [OF assms]]] by auto
  from ops_moved_settled [OF this] show ?thesis using rd by (simp add: claim_view_def)
qed

lemma claim_ops_moved:
  assumes "claim_ops padd now account req limit s = (r, s')" and "bt_inner s"
  shows "ops_moved padd (\<lambda>_. {EvRecover, EvStamp, EvLease}) 2 (leased_ids (minted_by_claim r))
    (in_ops s) (in_ops s')"
  using assms
proof (cases rule: claim_ops_cases)
  case (overflow e)
  then show ?thesis using ops_moved_refl by simp
next
  case (failed e ops')
  then show ?thesis
    using ops_moved_mono [OF recover_dead_moved [OF failed(3) bt_inner_distinct [OF assms(2)]]] by auto
next
  case (claimed expiry ls ops')
  let ?E = "\<lambda>_ :: pending_op_id. {EvRecover, EvStamp, EvLease}"
  have "ops_moved padd ?E 1 no_lease (in_ops s) (in_ops (claim_view padd now account s))"
    by (rule ops_moved_mono [OF claim_view_moved [OF assms(2)]]) auto
  moreover have "ops_moved padd ?E 1 (leased_ids ls) (in_ops (claim_view padd now account s)) ops'"
    by (rule ops_moved_mono [OF claim_round_moved [OF claimed(5)]]) auto
  ultimately show ?thesis
    using ops_moved_trans [of padd ?E 1 no_lease _ _ 1 "leased_ids ls"] claimed(1,4)
    by (simp add: no_lease_def numeral_2_eq_2)
qed

lemma resource_held_iff:
  assumes "distinct (map fst ops)" and "hm_get ops i = Some c" and "oc_state c \<noteq> InFlight"
  shows "resource_held ops account resource i \<longleftrightarrow> resource \<in> held_resources account ops"
proof
  assume "resource_held ops account resource i"
  then show "resource \<in> held_resources account ops"
    by (force simp: resource_held_def held_resources_def list_ex_iff)
next
  assume "resource \<in> held_resources account ops"
  then obtain j d where "(j, d) \<in> set ops" "oc_account d = account" "oc_state d = InFlight"
    "resource = po_resource_key (oc_op d)" by (auto simp: held_resources_def)
  moreover have "j \<noteq> i"
    using calculation assms hm_get_mem [OF assms(1)] by (metis option.inject)
  ultimately show "resource_held ops account resource i"
    by (force simp: resource_held_def list_ex_iff)
qed

lemma claim_refusal_None:
  "claim_refusal ops account now i c = None \<longleftrightarrow> oc_state c = Pending \<and> cell_due now c \<and>
     dependencies_met ops account c \<and> \<not> resource_held ops account (po_resource_key (oc_op c)) i"
  by (auto simp: claim_refusal_def cell_due_def opt_or_def
      split: pending_op_state.splits if_splits option.splits)

fun minted_by_claim_one :: "(store_error, 'v pending_op_claim) result \<Rightarrow> 'v leased_pending_op list" where
  "minted_by_claim_one (Inr (Leased l)) = [l]"
| "minted_by_claim_one _ = []"

lemma claim_one_cases:
  assumes "claim_one padd now account i req s = (r, s')" and "bt_inner s"
  obtains (overflow) e where "r = Inl e" "s' = s"
  | (failed) e ops' where "r = Inl e" "s' = s\<lparr>in_ops := ops'\<rparr>"
      "recover_dead padd now account (in_ops s) = (Inl e, ops')"
  | (refused) why where "r = Inr (Refused why)" "s' = claim_view padd now account s"
      "fst (recover_dead padd now account (in_ops s)) = Inr ()"
  | (claimed) expiry l ops' where "r = Inr (Leased l)" "expiry_after padd now req = Inr expiry"
      "fst (recover_dead padd now account (in_ops s)) = Inr ()"
      "s' = (claim_view padd now account s)\<lparr>in_ops := ops'\<rparr>" "lo_id l = i"
      "claim_round account req now expiry [i]
         (held_resources account (in_ops (claim_view padd now account s)))
         (in_ops (claim_view padd now account s)) [l] ops'"
proof -
  show thesis
  proof (cases "expiry_after padd now req")
    case (Inl e)
    with assms(1) that(1) show thesis by (auto simp: claim_one_def)
  next
    case (Inr expiry)
    note exp = this
    obtain rd ops1 where rd: "recover_dead padd now account (in_ops s) = (rd, ops1)" by force
    show thesis
    proof (cases rd)
      case (Inl e)
      with assms(1) Inr rd that(2) show thesis by (auto simp: claim_one_def)
    next
      case (Inr u)
      let ?v = "claim_view padd now account s"
      have v: "?v = settle_keyword_edits now (s\<lparr>in_ops := ops1\<rparr>)" using rd by (simp add: claim_view_def)
      have dist: "distinct (map fst (in_ops ?v))"
        using recover_dead_keys [OF rd] bt_inner_distinct [OF assms(2)] by (simp add: v)
      have eq: "(r, s') = (case hm_get (in_ops ?v) i of
           None \<Rightarrow> (Inr (Refused CrUnknown), ?v)
         | Some cell \<Rightarrow>
             (if oc_account cell \<noteq> account then (Inr (Refused CrUnknown), ?v)
              else case claim_refusal (in_ops ?v) account now i cell of
                Some refusal \<Rightarrow> (Inr (Refused refusal), ?v)
              | None \<Rightarrow>
                  (case lease_op cell i req expiry of (l, cell') \<Rightarrow>
                     (Inr (Leased l), ?v\<lparr>in_ops := bt_insert i cell' (in_ops ?v)\<rparr>))))"
        unfolding assms(1) [symmetric] claim_one_def exp rd Inr v sum.case prod.case Let_def ..
      show thesis
      proof (cases "\<exists>c. hm_get (in_ops ?v) i = Some c \<and> oc_account c = account \<and>
          claim_refusal (in_ops ?v) account now i c = None")
        case False
        with eq have "\<exists>why. r = Inr (Refused why) \<and> s' = ?v"
          by (auto split: option.splits if_splits)
        with rd Inr show thesis by (auto intro: that(3))
      next
        case True
        then obtain c where c: "hm_get (in_ops ?v) i = Some c" "oc_account c = account"
          "claim_refusal (in_ops ?v) account now i c = None" by blast
        let ?l = "fst (lease_op c i req expiry)" and ?ops' = "bt_insert i (cell_lease expiry c) (in_ops ?v)"
        have res: "r = Inr (Leased ?l)" "s' = ?v\<lparr>in_ops := ?ops'\<rparr>"
          using eq c by (simp_all add: case_prod_unfold)
        have "runnable (in_ops ?v) account now c"
          using c by (simp add: runnable_def claim_refusal_None cell_due_def)
        moreover have "po_resource_key (oc_op c) \<notin> held_resources account (in_ops ?v)"
          using c resource_held_iff [OF dist c(1)] by (auto simp: claim_refusal_None)
        ultimately have "claim_round account req now expiry [i] (held_resources account (in_ops ?v))
            (in_ops ?v) [?l] ?ops'"
          using claim_round_lease [OF c(1), of account now _ "[]" req expiry "[]"] by simp
        with res exp rd Inr show thesis by (intro that(4) [of ?l expiry ?ops']) auto
      qed
    qed
  qed
qed

lemma claim_one_moved:
  assumes "claim_one padd now account i req s = (r, s')" and "bt_inner s"
  shows "ops_moved padd (\<lambda>_. {EvRecover, EvStamp, EvLease}) 2 (leased_ids (minted_by_claim_one r))
    (in_ops s) (in_ops s')"
  using assms
proof (cases rule: claim_one_cases)
  case (overflow e)
  then show ?thesis using ops_moved_refl by simp
next
  case (failed e ops')
  then show ?thesis
    using ops_moved_mono [OF recover_dead_moved [OF failed(3) bt_inner_distinct [OF assms(2)]]] by auto
next
  case (refused why)
  then show ?thesis using ops_moved_mono [OF claim_view_moved [OF assms(2)]] by auto
next
  case (claimed expiry l ops')
  let ?E = "\<lambda>_ :: pending_op_id. {EvRecover, EvStamp, EvLease}"
  have "ops_moved padd ?E 1 no_lease (in_ops s) (in_ops (claim_view padd now account s))"
    by (rule ops_moved_mono [OF claim_view_moved [OF assms(2)]]) auto
  moreover have "ops_moved padd ?E 1 (leased_ids [l]) (in_ops (claim_view padd now account s)) ops'"
    by (rule ops_moved_mono [OF claim_round_moved [OF claimed(6)]]) auto
  ultimately show ?thesis
    using ops_moved_trans [of padd ?E 1 no_lease _ _ 1 "leased_ids [l]"] claimed(1,4)
    by (simp add: no_lease_def numeral_2_eq_2)
qed

lemma recover_interrupted_moved:
  assumes "recover_interrupted padd now s = (r, s')" and "bt_inner s"
  shows "ops_moved padd (\<lambda>_. {EvRecover, EvStamp}) 1 no_lease (in_ops s) (in_ops s')"
proof -
  obtain r1 ops1 where r1: "recover_where padd now (\<lambda>c. oc_state c = InFlight) (in_ops s) = (r1, ops1)"
    by force
  have m: "ops_moved padd (\<lambda>_. {EvRecover, EvStamp}) 1 no_lease (in_ops s) (in_ops (s\<lparr>in_ops := ops1\<rparr>))"
    using ops_moved_mono [OF recover_where_moved [OF r1 bt_inner_distinct [OF assms(2)]]] by auto
  show ?thesis
  proof (cases r1)
    case (Inl e)
    with assms(1) r1 m show ?thesis by (auto simp: recover_interrupted_def)
  next
    case (Inr n)
    with assms(1) r1 have "s' = settle_keyword_edits now (s\<lparr>in_ops := ops1\<rparr>)"
      by (auto simp: recover_interrupted_def)
    then show ?thesis using ops_moved_settled [OF m] by simp
  qed
qed

text \<open>Events that concern one op only.\<close>

definition only :: "pending_op_id \<Rightarrow> op_event set \<Rightarrow> pending_op_id \<Rightarrow> op_event set" where
  "only i E j = (if j = i then insert EvStamp E else {EvStamp})"

lemma only_stamp [simp]: "EvStamp \<in> only i E j"
  by (simp add: only_def)

lemma ops_moved_one:
  assumes "hm_get ops i = Some c" and "op_step padd e c c'" and "\<not> bumps e"
  shows "ops_moved padd (only i {e}) 0 no_lease ops (bt_insert i c' ops)"
proof -
  have "e \<noteq> EvLease" using assms(3) by auto
  with assms show ?thesis
    by (intro ops_moved_insert [OF assms(1) op_path_one [OF assms(2)]])
      (auto simp: only_def lease_count_def)
qed

lemma mark_cases:
  assumes "mark padd now l out s = (r, s')"
  obtains (stale) "r = Inl StaleLease" "s' = s"
      "\<And>c. hm_get (in_ops s) (ol_op l) = Some c \<Longrightarrow> \<not> may_mark (ol_token l) c"
  | (failed) c e where "r = Inl e" "in_ops s' = bt_insert (ol_op l) c (in_ops s)"
      "s' = s\<lparr>in_ops := in_ops s'\<rparr>"
      "hm_get (in_ops s) (ol_op l) = Some c" "may_mark (ol_token l) c"
      "cell_recorded padd c out now = Inl e"
  | (marked) c c' where "r = Inr ()" "hm_get (in_ops s) (ol_op l) = Some c" "may_mark (ol_token l) c"
      "cell_record padd out now c = (Inr (), c')"
      "s' = settle_keyword_edits now (s\<lparr>in_ops := bt_insert (ol_op l) c' (in_ops s)\<rparr>)"
proof (cases "\<exists>c. hm_get (in_ops s) (ol_op l) = Some c \<and> may_mark (ol_token l) c")
  case False
  with assms have "r = Inl StaleLease" "s' = s"
    by (auto simp: mark_def may_mark_def split: option.splits if_splits)
  with False that(1) show thesis by blast
next
  case True
  then obtain c where c: "hm_get (in_ops s) (ol_op l) = Some c" "may_mark (ol_token l) c" by blast
  obtain rc c' where rc: "cell_record padd out now c = (rc, c')" by force
  have eq: "(r, s') = (case (rc, c') of
       (Inl e, cell') \<Rightarrow> (Inl e, s\<lparr>in_ops := bt_insert (ol_op l) cell' (in_ops s)\<rparr>)
     | (Inr _, cell') \<Rightarrow>
         (Inr (), settle_keyword_edits now (s\<lparr>in_ops := bt_insert (ol_op l) cell' (in_ops s)\<rparr>)))"
    using assms c rc by (simp add: mark_def may_mark_def split: if_splits)
  from rc show thesis
  proof (cases rule: cell_record_cases)
    case (err e)
    with eq c show thesis by (intro that(2) [of e c]) auto
  next
    case (ok x)
    with eq rc c show thesis by (intro that(3) [of c c']) auto
  qed
qed

lemma mark_moved:
  assumes "mark padd now l out s = (r, s')"
  shows "ops_moved padd (only (ol_op l) {EvMark (ol_token l) out}) 0 no_lease (in_ops s) (in_ops s')"
  using assms
proof (cases rule: mark_cases)
  case stale
  then show ?thesis by (simp add: ops_moved_refl)
next
  case (failed c e)
  then show ?thesis
    using ops_moved_insert [OF failed(4), of padd "[]"] by (simp add: lease_count_def)
next
  case (marked c c')
  then have "op_step padd (EvMark (ol_token l) out) c c'" by (auto intro: op_step.mark)
  then have "ops_moved padd (only (ol_op l) {EvMark (ol_token l) out}) 0 no_lease (in_ops s)
      (in_ops (s\<lparr>in_ops := bt_insert (ol_op l) c' (in_ops s)\<rparr>))"
    using ops_moved_one [OF marked(2)] by simp
  from ops_moved_settled [OF this] marked(5) show ?thesis by simp
qed

lemma hand_over_moved:
  assumes "hand_over l s = (r, s')"
  shows "ops_moved padd (only (ol_op l) {EvHandOver (ol_token l)}) 0 no_lease (in_ops s) (in_ops s')"
proof (cases "\<exists>c. hm_get (in_ops s) (ol_op l) = Some c \<and> may_hold (ol_token l) c")
  case True
  then obtain c where c: "hm_get (in_ops s) (ol_op l) = Some c" "may_hold (ol_token l) c" by blast
  let ?c' = "c\<lparr>oc_handed_over := Some (ol_token l)\<rparr>"
  have "op_step padd (EvHandOver (ol_token l)) c ?c'" using c by (auto intro: op_step.hand_over)
  moreover have "in_ops s' = bt_insert (ol_op l) ?c' (in_ops s)"
    using assms c by (auto simp: hand_over_def may_hold_def)
  ultimately show ?thesis
    using ops_moved_one [OF c(1)] by simp
next
  case False
  then have "s' = s" using assms by (auto simp: hand_over_def may_hold_def split: option.splits if_splits)
  then show ?thesis by (simp add: ops_moved_refl)
qed

lemma renew_moved:
  assumes "renew padd now l ttl s = (r, s')"
  shows "ops_moved padd (only (ol_op l) {EvRenew (ol_token l)}) 0 no_lease (in_ops s) (in_ops s')"
proof (cases "\<exists>c e. hm_get (in_ops s) (ol_op l) = Some c \<and> may_hold (ol_token l) c \<and>
    utc_checked_add padd now ttl = Some e")
  case True
  then obtain c e where c: "hm_get (in_ops s) (ol_op l) = Some c" "may_hold (ol_token l) c"
    "utc_checked_add padd now ttl = Some e" by blast
  let ?c' = "c\<lparr>oc_lease_expiry := Some e\<rparr>"
  have "op_step padd (EvRenew (ol_token l)) c ?c'" using c by (auto intro: op_step.renew)
  moreover have "in_ops s' = bt_insert (ol_op l) ?c' (in_ops s)"
    using assms c by (auto simp: renew_def may_hold_def)
  ultimately show ?thesis
    using ops_moved_one [OF c(1)] by simp
next
  case False
  then have "s' = s" using assms by (auto simp: renew_def may_hold_def split: option.splits if_splits)
  then show ?thesis by (simp add: ops_moved_refl)
qed

text \<open>
  A host verb recovers its op if need be, then acts on it or refuses; \<open>e\<close> is the event its body takes.
\<close>

lemma host_verb_moved:
  assumes "host_verb padd now account i act s = (r, s')"
    and act: "\<And>c c' refused. act c = (refused, c') \<Longrightarrow> c' = c \<or> op_step padd e c c'"
    and e: "e \<noteq> EvLease"
  shows "ops_moved padd (only i {EvRecover, e}) 2 no_lease (in_ops s) (in_ops s')"
proof (cases "\<exists>c. hm_get (in_ops s) i = Some c \<and> oc_account c = account")
  case False
  then have "s' = s" using assms(1) by (auto simp: host_verb_def split: option.splits)
  then show ?thesis by (simp add: ops_moved_refl)
next
  case True
  then obtain c where c: "hm_get (in_ops s) i = Some c" "oc_account c = account" by blast
  obtain rc c1 where rc: "(if cell_is_dead now c then cell_recover padd now c else (Inr (), c)) = (rc, c1)"
    by force
  have eq: "(r, s') = (case (rc, c1) of
       (Inl e, cell') \<Rightarrow> (Inl e, s\<lparr>in_ops := bt_insert i cell' (in_ops s)\<rparr>)
     | (Inr _, cell') \<Rightarrow> (case act cell' of (refused, cell'') \<Rightarrow>
          (Inr refused, settle_keyword_edits now (s\<lparr>in_ops := bt_insert i cell'' (in_ops s)\<rparr>))))"
    using assms(1) c rc by (simp add: host_verb_def)
  have first: "\<exists>es. op_path padd es c c1 \<and> set es \<subseteq> {EvRecover} \<and> bump_count es \<le> 1 \<and> lease_count es = 0"
  proof (cases "cell_is_dead now c")
    case True
    then have "c1 = c \<or> op_step padd EvRecover c c1"
      using rc cell_recover_event [of padd now c rc c1] by (auto simp: cell_is_dead_def)
    then show ?thesis
      by (elim disjE) (auto intro: exI [of _ "[]"] exI [of _ "[EvRecover]"] simp: lease_count_def)
  qed (use rc in \<open>auto intro!: exI [of _ "[]"] simp: lease_count_def\<close>)
  then obtain es where es: "op_path padd es c c1" "set es \<subseteq> {EvRecover}" "bump_count es \<le> 1"
    "lease_count es = 0" by blast
  show ?thesis
  proof (cases rc)
    case (Inl err)
    with eq have "in_ops s' = bt_insert i c1 (in_ops s)" by auto
    moreover have "set es \<subseteq> only i {EvRecover, e} i" "bump_count es \<le> 2"
      using es by (auto simp: only_def)
    ultimately show ?thesis using ops_moved_insert [OF c(1) es(1)] es(4) by simp
  next
    case (Inr u)
    obtain refused c2 where a: "act c1 = (refused, c2)" by force
    have "\<exists>fs. op_path padd fs c1 c2 \<and> set fs \<subseteq> {e} \<and> bump_count fs \<le> 1 \<and> lease_count fs = 0"
      using act [OF a] e
      by (elim disjE) (auto intro: exI [of _ "[]"] exI [of _ "[e]"] simp: lease_count_def)
    then obtain fs where fs: "op_path padd fs c1 c2" "set fs \<subseteq> {e}" "bump_count fs \<le> 1"
      "lease_count fs = 0" by blast
    have "op_path padd (es @ fs) c c2" using op_path_append es(1) fs(1) by blast
    from ops_moved_insert [OF c(1) this, of "only i {EvRecover, e}" 2] es fs
    have "ops_moved padd (only i {EvRecover, e}) 2 no_lease (in_ops s)
        (in_ops (s\<lparr>in_ops := bt_insert i c2 (in_ops s)\<rparr>))"
      by (auto simp: only_def)
    from ops_moved_settled [OF this, of now] eq Inr a show ?thesis by auto
  qed
qed

lemma cell_verb_events:
  "cell_cancel c = (refused, c') \<Longrightarrow> c' = c \<or> op_step padd EvCancel c c'"
  "cell_retry_now c = (refused, c') \<Longrightarrow> c' = c \<or> op_step padd EvHurry c c'"
  "cell_confirm a c = (refused, c') \<Longrightarrow> c' = c \<or> op_step padd (EvConfirm a) c c'"
  by (auto simp: cell_cancel_def cell_retry_now_def cell_confirm_def op_step_simps
      split: option.splits if_splits confirmation.splits)

lemma cancel_moved:
  "cancel padd now account i s = (r, s') \<Longrightarrow>
     ops_moved padd (only i {EvRecover, EvCancel}) 2 no_lease (in_ops s) (in_ops s')"
  unfolding cancel_def by (erule host_verb_moved) (auto dest: cell_verb_events)

lemma retry_now_moved:
  "retry_now padd now account i s = (r, s') \<Longrightarrow>
     ops_moved padd (only i {EvRecover, EvHurry}) 2 no_lease (in_ops s) (in_ops s')"
  unfolding retry_now_def by (erule host_verb_moved) (auto dest: cell_verb_events)

lemma confirm_moved:
  "confirm padd now account i answer s = (r, s') \<Longrightarrow>
     ops_moved padd (only i {EvRecover, EvConfirm answer}) 2 no_lease (in_ops s) (in_ops s')"
  unfolding confirm_def by (erule host_verb_moved) (auto dest: cell_verb_events)

end
