(* ===== verification/Outbox_Inv.thy ===== *)
theory Outbox_Inv
  imports Outbox_Laws
begin

text \<open>
  The invariant of the outbox and that every outbox operation keeps it: well-formed cells, at most one
  op in flight per resource of an account, ids below the counter, and one op per idempotency key.
\<close>

section \<open>One op in flight per resource\<close>

definition exclusive :: "'v ops \<Rightarrow> bool" where
  "exclusive ops \<longleftrightarrow> (\<forall>i j c d. hm_get ops i = Some c \<and> hm_get ops j = Some d \<and>
     oc_account c = oc_account d \<and> po_resource_key (oc_op c) = po_resource_key (oc_op d) \<and>
     oc_state c = InFlight \<and> oc_state d = InFlight \<longrightarrow> i = j)"

lemma exclusiveD:
  "exclusive ops \<Longrightarrow> hm_get ops i = Some c \<Longrightarrow> hm_get ops j = Some d \<Longrightarrow>
     oc_account c = oc_account d \<Longrightarrow> po_resource_key (oc_op c) = po_resource_key (oc_op d) \<Longrightarrow>
     oc_state c = InFlight \<Longrightarrow> oc_state d = InFlight \<Longrightarrow> i = j"
  unfolding exclusive_def by blast

lemma lease_count_0: "lease_count es = 0 \<longleftrightarrow> EvLease \<notin> set es"
  by (simp add: lease_count_def count_list_0_iff)

lemma exclusive_moved:
  assumes "exclusive ops" and "ops_moved padd E n no_lease ops ops'"
  shows "exclusive ops'"
proof -
  have pre: "\<exists>c. hm_get ops i = Some c \<and> oc_account c' = oc_account c \<and> oc_op c' = oc_op c \<and>
      (oc_state c' = InFlight \<longrightarrow> oc_state c = InFlight)" if "hm_get ops' i = Some c'" for i c'
    using assms(2) that
  proof (rule ops_moved_backD)
    fix es c assume "hm_get ops i = Some c" "op_path padd es c c'" "lease_count es = no_lease i"
    then show ?thesis
      using op_path_keeps op_path_in_flight by (fastforce simp: no_lease_def lease_count_0)
  qed
  show ?thesis
    unfolding exclusive_def
  proof (intro allI impI, elim conjE)
    fix i j c d
    assume a: "hm_get ops' i = Some c" "hm_get ops' j = Some d" "oc_account c = oc_account d"
      "po_resource_key (oc_op c) = po_resource_key (oc_op d)" "oc_state c = InFlight" "oc_state d = InFlight"
    from pre [OF a(1)] pre [OF a(2)] a(3-) show "i = j"
      by (auto intro: exclusiveD [OF assms(1)])
  qed
qed

lemma held_resources_iff:
  assumes "distinct (map fst ops)"
  shows "r \<in> held_resources account ops \<longleftrightarrow> (\<exists>i c. hm_get ops i = Some c \<and> oc_account c = account \<and>
    oc_state c = InFlight \<and> po_resource_key (oc_op c) = r)"
  using hm_get_mem [OF assms] by (force simp: held_resources_def)

lemma exclusive_round:
  assumes "exclusive ops" and "distinct (map fst ops)"
    and round: "claim_round account req now expiry ids (held_resources account ops) ops ls ops'"
  shows "exclusive ops'"
  unfolding exclusive_def
proof (intro allI impI, elim conjE)
  fix i j c d
  assume c: "hm_get ops' i = Some c" "oc_state c = InFlight"
    and d: "hm_get ops' j = Some d" "oc_state d = InFlight"
    and same: "oc_account c = oc_account d" "po_resource_key (oc_op c) = po_resource_key (oc_op d)"
  let ?leased = "\<lambda>i. i \<in> lo_id ` set ls"
  have get: "hm_get ops' k = (if ?leased k then map_option (cell_lease expiry) (hm_get ops k)
      else hm_get ops k)" for k using round by (simp add: claim_round_def)
  have fresh: "lo_resource ` set ls \<inter> held_resources account ops = {}"
    and dist: "distinct (map lo_resource ls)" using round by (simp_all add: claim_round_def)
  have leased: "\<exists>l \<in> set ls. lo_id l = k \<and> oc_account x = account \<and> po_resource_key (oc_op x) = lo_resource l"
    if "?leased k" "hm_get ops' k = Some x" for k x
  proof -
    from that(1) obtain l where l: "l \<in> set ls" "lo_id l = k" by blast
    with round obtain y where y: "hm_get ops k = Some y" "runnable ops account now y"
      "l = fst (lease_op y k req expiry)" by (force simp: claim_round_def)
    with that get have x: "x = cell_lease expiry y" by auto
    have "lo_op l = oc_op y" unfolding y(3) by simp
    with x y(2) l show ?thesis by (auto simp: cell_lease_def runnable_def intro!: bexI [of _ l])
  qed
  have held: "po_resource_key (oc_op x) \<in> held_resources account ops"
    if "\<not> ?leased k" "hm_get ops' k = Some x" "oc_state x = InFlight" "oc_account x = account" for k x
    using that get [of k] by (auto simp: held_resources_iff [OF assms(2)])
  consider "\<not> ?leased i" "\<not> ?leased j" | "?leased i" "\<not> ?leased j" | "\<not> ?leased i" "?leased j"
    | "?leased i" "?leased j" by blast
  then show "i = j"
  proof cases
    case 1
    with c d get same show ?thesis by (auto intro: exclusiveD [OF assms(1)])
  next
    case 2
    with leased [OF _ c(1)] held [OF _ d] same fresh show ?thesis by fastforce
  next
    case 3
    with leased [OF _ d(1)] held [OF _ c] same fresh show ?thesis by fastforce
  next
    case 4
    with leased [OF _ c(1)] leased [OF _ d(1)] same dist show ?thesis
      by (metis distinct_map inj_onD)
  qed
qed

section \<open>The invariant\<close>

definition outbox_inv :: "'v inner \<Rightarrow> bool" where
  "outbox_inv s \<longleftrightarrow> bt_inner s \<and>
     (\<forall>i c. hm_get (in_ops s) i = Some c \<longrightarrow> op_ok c \<and> i < in_next_op s \<and>
        hm_get (in_idempotency s) (oc_account c, po_idempotency_key (oc_op c)) = Some i) \<and>
     (\<forall>k i. hm_get (in_idempotency s) k = Some i \<longrightarrow>
        (\<exists>c. hm_get (in_ops s) i = Some c \<and> k = (oc_account c, po_idempotency_key (oc_op c)))) \<and>
     exclusive (in_ops s)"

lemma outbox_inv_new: "outbox_inv inner_new"
  by (simp add: outbox_inv_def inner_new_def bt_inner_def exclusive_def)

lemma outbox_inv_moved:
  assumes inv: "outbox_inv s" and moved: "ops_moved padd E n L (in_ops s) (in_ops s')"
    and bt: "bt_inner s'" and excl: "exclusive (in_ops s')"
    and same: "in_idempotency s' = in_idempotency s" "in_next_op s' = in_next_op s"
  shows "outbox_inv s'"
  unfolding outbox_inv_def
proof (intro conjI allI impI)
  fix i c' assume "hm_get (in_ops s') i = Some c'"
  with moved obtain es c where c: "hm_get (in_ops s) i = Some c" "op_path padd es c c'"
    by (auto elim: ops_moved_backD)
  then show "op_ok c'" "i < in_next_op s'"
    "hm_get (in_idempotency s') (oc_account c', po_idempotency_key (oc_op c')) = Some i"
    using inv op_path_keeps [OF c(2)] op_path_ok [OF c(2)] same by (auto simp: outbox_inv_def)
next
  fix k i assume "hm_get (in_idempotency s') k = Some i"
  then obtain c where c: "hm_get (in_ops s) i = Some c"
    "k = (oc_account c, po_idempotency_key (oc_op c))"
    using inv same unfolding outbox_inv_def by metis
  from moved c(1) obtain es c' where c': "hm_get (in_ops s') i = Some c'" "op_path padd es c c'"
    by (auto elim: ops_movedD)
  then show "\<exists>c. hm_get (in_ops s') i = Some c \<and> k = (oc_account c, po_idempotency_key (oc_op c))"
    using c op_path_keeps by fastforce
qed (use bt excl in auto)

lemma outbox_inv_moved_quiet:
  assumes "outbox_inv s" and "ops_moved padd E n no_lease (in_ops s) (in_ops s')" and "bt_inner s'"
    and "in_idempotency s' = in_idempotency s" "in_next_op s' = in_next_op s"
  shows "outbox_inv s'"
  using assms exclusive_moved [OF _ assms(2)] outbox_inv_moved [OF assms(1,2,3)]
  by (auto simp: outbox_inv_def)

section \<open>Every operation keeps it\<close>

lemma bt_inner_settle [simp]: "bt_inner (settle_keyword_edits now s) = bt_inner s"
  by (simp add: bt_inner_def)

lemma bt_inner_put [simp]: "bt_inner s \<Longrightarrow> bt_inner (s\<lparr>in_ops := bt_insert i c (in_ops s)\<rparr>)"
  by (simp add: bt_inner_def)

lemma bt_inner_keys: "hm_keys ops' = hm_keys (in_ops s) \<Longrightarrow> bt_inner s \<Longrightarrow> bt_inner (s\<lparr>in_ops := ops'\<rparr>)"
  by (simp add: bt_inner_def)

lemma claim_loop_bt:
  "claim_loop account req now expiry limit ids taken res ops = (res', ops') \<Longrightarrow> bt_ok ops \<Longrightarrow> bt_ok ops'"
  by (induction account req now expiry limit ids taken res ops arbitrary: res' ops' rule: claim_loop.induct)
    (auto split: if_splits option.splits prod.splits)

lemma claim_view_keeps:
  assumes "bt_inner s"
  shows "bt_inner (claim_view padd now account s)"
    "in_idempotency (claim_view padd now account s) = in_idempotency s"
    "in_next_op (claim_view padd now account s) = in_next_op s"
proof -
  obtain r ops' where "recover_dead padd now account (in_ops s) = (r, ops')" by force
  with assms recover_dead_keys [OF this] show "bt_inner (claim_view padd now account s)"
    "in_idempotency (claim_view padd now account s) = in_idempotency s"
    "in_next_op (claim_view padd now account s) = in_next_op s"
    by (simp_all add: claim_view_def bt_inner_keys)
qed

lemma claim_ops_bt:
  assumes "claim_ops padd now account req limit s = (r, s')" and "bt_inner s"
  shows "bt_inner s'"
proof -
  obtain rd ops1 where rd: "recover_dead padd now account (in_ops s) = (rd, ops1)" by force
  have bt: "bt_ok (map_values (stamp_settled now) ops1)"
    using recover_dead_keys [OF rd] assms(2) by (simp add: bt_inner_def)
  show ?thesis
    using assms rd recover_dead_keys [OF rd] claim_loop_bt [OF _ bt]
    by (auto simp: claim_ops_def Let_def bt_inner_def split: sum.splits prod.splits)
qed

lemma claim_one_bt:
  assumes "claim_one padd now account i req s = (r, s')" and "bt_inner s"
  shows "bt_inner s'"
proof -
  obtain rd ops1 where rd: "recover_dead padd now account (in_ops s) = (rd, ops1)" by force
  have bt: "bt_ok (map_values (stamp_settled now) ops1)"
    using recover_dead_keys [OF rd] assms(2) by (simp add: bt_inner_def)
  show ?thesis
    using assms(1,2) rd recover_dead_keys [OF rd] bt
    by (auto simp: claim_one_def Let_def bt_inner_def split: sum.splits prod.splits option.splits if_splits)
qed

lemma outbox_inv_claim_view:
  assumes "outbox_inv s"
  shows "outbox_inv (claim_view padd now account s)"
proof -
  have "bt_inner s" using assms by (simp add: outbox_inv_def)
  from outbox_inv_moved_quiet [OF assms claim_view_moved [OF this]] claim_view_keeps [OF this]
  show ?thesis by simp
qed

lemma outbox_inv_round:
  assumes inv: "outbox_inv s" and round: "claim_round account req now expiry ids
      (held_resources account (in_ops s)) (in_ops s) ls ops'"
    and bt: "bt_inner (s\<lparr>in_ops := ops'\<rparr>)"
  shows "outbox_inv (s\<lparr>in_ops := ops'\<rparr>)"
proof (rule outbox_inv_moved [OF inv])
  show "ops_moved undefined (\<lambda>_. {EvLease}) 1 (leased_ids ls) (in_ops s) (in_ops (s\<lparr>in_ops := ops'\<rparr>))"
    using claim_round_moved [OF round] by simp
  show "exclusive (in_ops (s\<lparr>in_ops := ops'\<rparr>))"
    using exclusive_round [OF _ _ round] inv bt_inner_distinct by (auto simp: outbox_inv_def)
qed (use bt in simp_all)

lemma outbox_inv_claim_ops:
  assumes "claim_ops padd now account req limit s = (r, s')" and inv: "outbox_inv s"
  shows "outbox_inv s'"
proof -
  have bt: "bt_inner s" using inv by (simp add: outbox_inv_def)
  note bt' = claim_ops_bt [OF assms(1) bt]
  from assms(1) bt show ?thesis
  proof (cases rule: claim_ops_cases)
    case (failed e ops')
    with bt' show ?thesis
      using outbox_inv_moved_quiet [OF inv _ bt'] recover_dead_moved [OF failed(3) bt_inner_distinct [OF bt]]
      by simp
  next
    case (claimed expiry ls ops')
    then show ?thesis using outbox_inv_round [OF outbox_inv_claim_view [OF inv] claimed(5)] bt' by simp
  qed (use inv in simp)
qed

lemma outbox_inv_claim_one:
  assumes "claim_one padd now account i req s = (r, s')" and inv: "outbox_inv s"
  shows "outbox_inv s'"
proof -
  have bt: "bt_inner s" using inv by (simp add: outbox_inv_def)
  note bt' = claim_one_bt [OF assms(1) bt]
  from assms(1) bt show ?thesis
  proof (cases rule: claim_one_cases)
    case (failed e ops')
    with bt' show ?thesis
      using outbox_inv_moved_quiet [OF inv _ bt'] recover_dead_moved [OF failed(3) bt_inner_distinct [OF bt]]
      by simp
  next
    case (claimed expiry ls ops')
    then show ?thesis using outbox_inv_round [OF outbox_inv_claim_view [OF inv] claimed(6)] bt' by simp
  qed (use inv outbox_inv_claim_view [OF inv] in simp_all)
qed

lemma outbox_inv_recover_interrupted:
  assumes "recover_interrupted padd now s = (r, s')" and inv: "outbox_inv s"
  shows "outbox_inv s'"
proof (rule outbox_inv_moved_quiet [OF inv])
  have bt: "bt_inner s" using inv by (simp add: outbox_inv_def)
  show "ops_moved padd (\<lambda>_. {EvRecover, EvStamp}) 1 no_lease (in_ops s) (in_ops s')"
    by (rule recover_interrupted_moved [OF assms(1) bt])
  show "bt_inner s'" "in_idempotency s' = in_idempotency s" "in_next_op s' = in_next_op s"
    using assms(1) bt
    by (auto simp: recover_interrupted_def bt_inner_keys recover_where_keys split: sum.splits prod.splits)
qed

lemma outbox_inv_mark:
  assumes "mark padd now l out s = (r, s')" and inv: "outbox_inv s"
  shows "outbox_inv s'"
proof (rule outbox_inv_moved_quiet [OF inv mark_moved [OF assms(1)]])
  show "bt_inner s'" "in_idempotency s' = in_idempotency s" "in_next_op s' = in_next_op s"
    using assms(1) inv
    by (auto simp: mark_def Let_def outbox_inv_def split: option.splits if_splits sum.splits prod.splits)
qed

lemma outbox_inv_hand_over:
  assumes "hand_over l s = (r, s')" and inv: "outbox_inv s"
  shows "outbox_inv s'"
proof (rule outbox_inv_moved_quiet [OF inv hand_over_moved [OF assms(1)]])
  show "bt_inner s'" "in_idempotency s' = in_idempotency s" "in_next_op s' = in_next_op s"
    using assms(1) inv by (auto simp: hand_over_def outbox_inv_def split: option.splits if_splits)
qed

lemma outbox_inv_renew:
  assumes "renew padd now l ttl s = (r, s')" and inv: "outbox_inv s"
  shows "outbox_inv s'"
proof (rule outbox_inv_moved_quiet [OF inv renew_moved [OF assms(1)]])
  show "bt_inner s'" "in_idempotency s' = in_idempotency s" "in_next_op s' = in_next_op s"
    using assms(1) inv by (auto simp: renew_def outbox_inv_def split: option.splits if_splits)
qed

lemma host_verb_keeps:
  assumes "host_verb padd now account i act s = (r, s')" and "bt_inner s"
  shows "bt_inner s'" "in_idempotency s' = in_idempotency s" "in_next_op s' = in_next_op s"
    "scope_scalars (in_scopes s') = scope_scalars (in_scopes s)"
proof -
  have "s' = s \<or> (\<exists>c. s' = s\<lparr>in_ops := bt_insert i c (in_ops s)\<rparr>) \<or>
      (\<exists>c. s' = settle_keyword_edits now (s\<lparr>in_ops := bt_insert i c (in_ops s)\<rparr>))"
    using assms(1) unfolding host_verb_def
    by (simp split: option.splits if_splits sum.splits prod.splits) blast+
  then show "bt_inner s'" "in_idempotency s' = in_idempotency s" "in_next_op s' = in_next_op s"
    "scope_scalars (in_scopes s') = scope_scalars (in_scopes s)"
    using assms(2) by auto
qed

lemma outbox_inv_verbs:
  assumes inv: "outbox_inv s"
  shows "cancel padd now account i s = (r, s') \<Longrightarrow> outbox_inv s'"
    "retry_now padd now account i s = (r, s') \<Longrightarrow> outbox_inv s'"
    "confirm padd now account i answer s = (r, s') \<Longrightarrow> outbox_inv s'"
proof -
  have bt: "bt_inner s" using inv by (simp add: outbox_inv_def)
  show "outbox_inv s'" if "cancel padd now account i s = (r, s')"
    using outbox_inv_moved_quiet [OF inv cancel_moved [OF that]]
      host_verb_keeps [OF that [unfolded cancel_def] bt] by simp
  show "outbox_inv s'" if "retry_now padd now account i s = (r, s')"
    using outbox_inv_moved_quiet [OF inv retry_now_moved [OF that]]
      host_verb_keeps [OF that [unfolded retry_now_def] bt] by simp
  show "outbox_inv s'" if "confirm padd now account i answer s = (r, s')"
    using outbox_inv_moved_quiet [OF inv confirm_moved [OF that]]
      host_verb_keeps [OF that [unfolded confirm_def] bt] by simp
qed

section \<open>Queueing\<close>

text \<open>
  A new op goes to the id the counter names, which no op has, and the counter moves past it. Only an
  exhausted \<open>u64\<close> counter could name an id in use.
\<close>

lemma next_op_fresh:
  assumes "outbox_inv s"
  shows "hm_get (in_ops s) (in_next_op s) = None"
  using assms by (cases "hm_get (in_ops s) (in_next_op s)") (auto simp: outbox_inv_def)

lemma enqueue_new:
  assumes "enqueue_pending_op account op s = (r, s')"
    and "hm_get (in_idempotency s) (account, po_idempotency_key op) = None"
  shows "r = Inr (in_next_op s)" "in_next_op s' = in_next_op s + 1"
    "in_ops s' = bt_insert (in_next_op s) (op_cell_new account op) (in_ops s)"
    "in_idempotency s' = hm_insert (account, po_idempotency_key op) (in_next_op s) (in_idempotency s)"
    "scope_scalars (in_scopes s') = scope_scalars (in_scopes s)"
  using assms by (auto simp: enqueue_pending_op_def Let_def split: option.splits)

lemma enqueue_known:
  "hm_get (in_idempotency s) (account, po_idempotency_key op) = Some i \<Longrightarrow>
     enqueue_pending_op account op s = (Inr i, s)"
  by (simp add: enqueue_pending_op_def)

lemma op_ok_new: "op_ok (op_cell_new account op)"
  by (simp add: op_ok_def op_cell_new_def)

lemma word_less_succ: "unat (n :: 64 word) < 2 ^ 64 - 1 \<Longrightarrow> i \<le> n \<Longrightarrow> i < n + 1"
  by (simp add: word_less_nat_alt word_le_nat_alt unat_word_ariths)

lemma outbox_inv_enqueue:
  assumes enq: "enqueue_pending_op account op s = (r, s')" and inv: "outbox_inv s"
    and room: "unat (in_next_op s) < 2 ^ 64 - 1"
  shows "outbox_inv s'"
proof (cases "hm_get (in_idempotency s) (account, po_idempotency_key op)")
  case (Some i)
  then show ?thesis using enq inv by (simp add: enqueue_known)
next
  case None
  note new = enqueue_new [OF enq None] and fresh = next_op_fresh [OF inv]
  let ?n = "in_next_op s"
  have lt: "i < ?n + 1" if "i \<le> ?n" for i using word_less_succ [OF room that] .
  have ops: "\<forall>i c. hm_get (in_ops s) i = Some c \<longrightarrow> op_ok c \<and> i < ?n \<and>
      hm_get (in_idempotency s) (oc_account c, po_idempotency_key (oc_op c)) = Some i"
    and idem: "\<forall>k i. hm_get (in_idempotency s) k = Some i \<longrightarrow>
      (\<exists>c. hm_get (in_ops s) i = Some c \<and> k = (oc_account c, po_idempotency_key (oc_op c)))"
    and rest: "bt_inner s" "exclusive (in_ops s)" using inv by (auto simp: outbox_inv_def)
  show ?thesis
    unfolding outbox_inv_def
  proof (intro conjI allI impI)
    show "bt_inner s'" using rest by (simp add: bt_inner_def new)
    show "exclusive (in_ops s')"
      unfolding exclusive_def
      using rest(2) by (auto simp: new op_cell_new_def split: if_splits intro: exclusiveD)
  next
    fix i c assume "hm_get (in_ops s') i = Some c"
    then consider "i = ?n" "c = op_cell_new account op" | "i \<noteq> ?n" "hm_get (in_ops s) i = Some c"
      by (auto simp: new split: if_splits)
    then have "op_ok c \<and> i < in_next_op s' \<and>
      hm_get (in_idempotency s') (oc_account c, po_idempotency_key (oc_op c)) = Some i"
    proof cases
      case 1
      then show ?thesis using lt by (simp add: new op_ok_new) (simp add: op_cell_new_def)
    next
      case 2
      then have "op_ok c" "i < ?n"
        "hm_get (in_idempotency s) (oc_account c, po_idempotency_key (oc_op c)) = Some i"
        using ops by auto
      with None lt [of i] show ?thesis by (auto simp: new)
    qed
    then show "op_ok c" "i < in_next_op s'"
      "hm_get (in_idempotency s') (oc_account c, po_idempotency_key (oc_op c)) = Some i" by auto
  next
    fix k i assume k: "hm_get (in_idempotency s') k = Some i"
    show "\<exists>c. hm_get (in_ops s') i = Some c \<and> k = (oc_account c, po_idempotency_key (oc_op c))"
    proof (cases "k = (account, po_idempotency_key op)")
      case True
      with k show ?thesis by (simp add: new op_cell_new_def)
    next
      case False
      with k have "hm_get (in_idempotency s) k = Some i" by (simp add: new)
      with idem obtain c where c: "hm_get (in_ops s) i = Some c"
        "k = (oc_account c, po_idempotency_key (oc_op c))" by metis
      with fresh have "i \<noteq> ?n" by auto
      with c show ?thesis by (simp add: new)
    qed
  qed
qed

end
