(* ===== verification/Scope_Store.thy ===== *)
theory Scope_Store
  imports Threading Outbox_Inv
begin

text \<open>
  The sync side of the in-memory store (\<open>engine-store/src/mem/write.rs\<close>, \<open>mem/lifecycle.rs\<close>): claiming
  a scope, applying a delta or a snapshot under its lease, maintenance, and the end of a lease.
\<close>

section \<open>Data\<close>

record sync_lease =
  sy_account :: account_id
  sy_scope :: sync_scope
  sy_token :: fence_token
  sy_owner :: worker_id
  sy_expiry :: instant

record sync_claim =
  cl_lease :: sync_lease
  cl_state :: "sync_state option"

text \<open>\<open>'o\<close> is the scope's object type and \<open>'p\<close> its partial change form.\<close>

datatype ('o, 'p) sync_update =
    Delta "'o list" "'p list" "provider_key list"
  | Snapshot "'o list" "provider_key btree_set"

definition update_delta :: "'o list \<Rightarrow> provider_key list \<Rightarrow> ('o, 'p) sync_update" where
  "update_delta changed removed = Delta changed [] removed"

fun with_patched ::
  "('o \<Rightarrow> provider_key) \<Rightarrow> ('p \<Rightarrow> provider_key) \<Rightarrow> 'p list \<Rightarrow> ('o, 'p) sync_update \<Rightarrow> ('o, 'p) sync_update" where
  "with_patched okey pkey patches (Delta changed patched removed) =
     Delta changed (filter (\<lambda>p. pkey p \<notin> set (map okey changed)) patches) removed"
| "with_patched okey pkey patches (Snapshot objects present) = Snapshot objects present"

fun is_snapshot :: "('o, 'p) sync_update \<Rightarrow> bool" where
  "is_snapshot (Snapshot _ _) = True"
| "is_snapshot (Delta _ _ _) = False"

fun update_changed :: "('o, 'p) sync_update \<Rightarrow> 'o list" where
  "update_changed (Delta changed _ _) = changed"
| "update_changed (Snapshot objects _) = objects"

fun update_patched :: "('o, 'p) sync_update \<Rightarrow> 'p list" where
  "update_patched (Delta _ patched _) = patched"
| "update_patched (Snapshot _ _) = []"

fun update_removed :: "('o, 'p) sync_update \<Rightarrow> provider_key list" where
  "update_removed (Delta _ _ removed) = removed"
| "update_removed (Snapshot _ _) = []"

record sync_applied =
  ap_upserted :: nat
  ap_tombstoned :: nat
  ap_reconciled :: nat

record pending_reconciliation =
  pr_op :: pending_op_id
  pr_expected :: pending_op_state
  pr_resolves_to :: provider_key

record ('o, 'p) apply_batch =
  ab_update :: "('o, 'p) sync_update"
  ab_derived :: derived_write
  ab_reconcile :: "pending_reconciliation list"
  ab_recipient_observations :: "recipient_observation list"
  ab_next_state :: "sync_state option"
  ab_observed_from :: "instant option"
  ab_collection_tag :: "collection_tag option"

definition batch_with_cursor ::
  "('o, 'p) sync_update \<Rightarrow> derived_write \<Rightarrow> pending_reconciliation list \<Rightarrow> sync_state option \<Rightarrow>
   ('o, 'p) apply_batch" where
  "batch_with_cursor update derived reconcile next_state = \<lparr>ab_update = update, ab_derived = derived,
     ab_reconcile = reconcile, ab_recipient_observations = [], ab_next_state = next_state,
     ab_observed_from = None, ab_collection_tag = None\<rparr>"

section \<open>Claiming\<close>

definition load_sync_state :: "sync_scope \<Rightarrow> 'v inner \<Rightarrow> sync_state option" where
  "load_sync_state scope s = Option.bind (hm_get (in_scopes s) scope) sc_state"

definition claim_sync_scope ::
  "pdt_add \<Rightarrow> instant \<Rightarrow> account_id \<Rightarrow> sync_scope \<Rightarrow> lease_request \<Rightarrow> 'v inner \<Rightarrow>
   (store_error, sync_claim) result \<times> 'v inner" where
  "claim_sync_scope padd now account scope req s =
     (case expiry_after padd now req of
        Inl e \<Rightarrow> (Inl e, s)
      | Inr expiry \<Rightarrow>
          (let cell = (case hm_get (in_scopes s) scope of None \<Rightarrow> scope_cell_new | Some c \<Rightarrow> c) in
           if is_live (sc_lease_expiry cell) now then (Inl ScopeHeld, s)
           else
             let cell = cell\<lparr>sc_token := fence_bump (sc_token cell), sc_lease_expiry := Some expiry\<rparr>;
                 l = \<lparr>sy_account = account, sy_scope = scope, sy_token = sc_token cell,
                      sy_owner = lq_owner req, sy_expiry = expiry\<rparr>
             in (Inr \<lparr>cl_lease = l, cl_state = sc_state cell\<rparr>,
                 s\<lparr>in_scopes := hm_insert scope cell (in_scopes s)\<rparr>)))"

text \<open>The cell \<open>lease\<close> is current for.\<close>

definition current_cell :: "sync_lease \<Rightarrow> 'v inner \<Rightarrow> 'v scope_cell option" where
  "current_cell l s = (case hm_get (in_scopes s) (sy_scope l) of
      None \<Rightarrow> None
    | Some c \<Rightarrow> (if sy_token l \<noteq> sc_token c then None else Some c))"

definition put_cell :: "sync_scope \<Rightarrow> 'v scope_cell \<Rightarrow> 'v inner \<Rightarrow> 'v inner" where
  "put_cell scope c s = s\<lparr>in_scopes := hm_insert scope c (in_scopes s)\<rparr>"

section \<open>Applying an update\<close>

fun upsert_loop ::
  "('o, 'v) sync_object \<Rightarrow> 'o list \<Rightarrow> 'v scope_cell \<Rightarrow> sync_applied \<Rightarrow>
   (store_error, sync_applied) result \<times> 'v scope_cell" where
  "upsert_loop tr [] c applied = (Inr applied, c)"
| "upsert_loop tr (obj # objs) c applied =
     (case upsert_object tr obj c of
        (Inl e, c') \<Rightarrow> (Inl e, c')
      | (Inr _, c') \<Rightarrow> upsert_loop tr objs c' (applied\<lparr>ap_upserted := ap_upserted applied + 1\<rparr>))"

text \<open>A delta counts a removal only when the object was there; a snapshot's absentees all were.\<close>

fun remove_loop :: "provider_key list \<Rightarrow> 'v scope_cell \<Rightarrow> sync_applied \<Rightarrow> sync_applied \<times> 'v scope_cell" where
  "remove_loop [] c applied = (applied, c)"
| "remove_loop (key # ks) c applied =
     (case tombstone key c of (existed, c') \<Rightarrow>
        remove_loop ks c'
          (if existed then applied\<lparr>ap_tombstoned := ap_tombstoned applied + 1\<rparr> else applied))"

fun absent_loop :: "provider_key list \<Rightarrow> 'v scope_cell \<Rightarrow> sync_applied \<Rightarrow> sync_applied \<times> 'v scope_cell" where
  "absent_loop [] c applied = (applied, c)"
| "absent_loop (key # ks) c applied =
     (case tombstone key c of (_, c') \<Rightarrow>
        absent_loop ks c' (applied\<lparr>ap_tombstoned := ap_tombstoned applied + 1\<rparr>))"

fun apply_update ::
  "('o, 'v) sync_object \<Rightarrow> ('o, 'p) sync_update \<Rightarrow> 'v scope_cell \<Rightarrow> sync_applied \<Rightarrow>
   (store_error, sync_applied) result \<times> 'v scope_cell" where
  "apply_update tr (Delta changed patched removed) c applied =
     (case upsert_loop tr changed c applied of
        (Inl e, c) \<Rightarrow> (Inl e, c)
      | (Inr applied, c) \<Rightarrow> (case remove_loop removed c applied of (applied, c) \<Rightarrow> (Inr applied, c)))"
| "apply_update tr (Snapshot objects present) c applied =
     (case upsert_loop tr objects c applied of
        (Inl e, c) \<Rightarrow> (Inl e, c)
      | (Inr applied, c) \<Rightarrow>
          (let absent = filter (\<lambda>k. k \<notin> set present) (hm_keys (sc_objects c)) in
           case absent_loop absent c applied of (applied, c) \<Rightarrow> (Inr applied, c)))"

fun reconcile_loop ::
  "pdt_add \<Rightarrow> instant \<Rightarrow> pending_reconciliation list \<Rightarrow> 'v ops \<Rightarrow> sync_applied \<Rightarrow>
   (store_error, sync_applied) result \<times> 'v ops" where
  "reconcile_loop padd now [] ops applied = (Inr applied, ops)"
| "reconcile_loop padd now (rec # recs) ops applied =
     (case hm_get ops (pr_op rec) of
        None \<Rightarrow> reconcile_loop padd now recs ops applied
      | Some op \<Rightarrow>
          (case (if cell_is_dead now op then cell_recover padd now op else (Inr (), op)) of
             (Inl e, op) \<Rightarrow> (Inl e, bt_insert (pr_op rec) op ops)
           | (Inr _, op) \<Rightarrow>
               (if oc_state op = pr_expected rec then
                  reconcile_loop padd now recs
                    (bt_insert (pr_op rec) (op\<lparr>oc_state := Succeeded, oc_lease_expiry := None\<rparr>) ops)
                    (applied\<lparr>ap_reconciled := ap_reconciled applied + 1\<rparr>)
                else reconcile_loop padd now recs (bt_insert (pr_op rec) op ops) applied)))"

definition observe :: "recipient_observation \<Rightarrow> observations \<Rightarrow> observations" where
  "observe ob obs =
     (let key = (ro_account ob, ro_source_message ob, ro_email ob) in
      case hm_get obs key of
        None \<Rightarrow> bt_insert key \<lparr>ob_observation = ob, ob_suppressed = False\<rparr> obs
      | Some _ \<Rightarrow> obs)"

definition advance_cursor :: "('o, 'p) apply_batch \<Rightarrow> 'v scope_cell \<Rightarrow> 'v scope_cell" where
  "advance_cursor batch c = (case ab_next_state batch of
      None \<Rightarrow> c
    | Some next_state \<Rightarrow> c\<lparr>sc_state := Some next_state, sc_collection_tag := ab_collection_tag batch\<rparr>)"

definition written_keys :: "derived_write \<Rightarrow> provider_key list" where
  "written_keys d = map mr_key (dw_messages d) @ map sr_key (dw_state_changes d)"

text \<open>
  \<open>assign_threads\<close> returns on every input (\<open>assign_threads_returns\<close>), so taking its value loses no run.
\<close>

definition thread_batch :: "sync_scope \<Rightarrow> derived_write \<Rightarrow> 'v scopes \<Rightarrow> 'v scopes" where
  "thread_batch scope d scopes =
     (if dw_messages d = [] then scopes
      else the (assign_threads scopes (scope_account scope) scope (dw_messages d) (dw_msgid_refs d)))"

definition apply_sync_update ::
  "pdt_add \<Rightarrow> instant \<Rightarrow> ('o, 'v) sync_object \<Rightarrow> sync_lease \<Rightarrow> ('o, 'p) apply_batch \<Rightarrow> 'v inner \<Rightarrow>
   (store_error, sync_applied) result \<times> 'v inner" where
  "apply_sync_update padd now tr l batch s =
     (let scope = sy_scope l;
          is_contact = (scope_object_kind scope = Some KContactCard) in
      case current_cell l s of
        None \<Rightarrow> (Inl StaleLease, s)
      | Some cell \<Rightarrow>
          (case apply_update tr (ab_update batch) cell \<lparr>ap_upserted = 0, ap_tombstoned = 0, ap_reconciled = 0\<rparr> of
             (Inl e, cell) \<Rightarrow> (Inl e, put_cell scope cell s)
           | (Inr applied, cell) \<Rightarrow>
               (let cell = apply_derived (ab_derived batch) cell in
                case reconcile_loop padd now (ab_reconcile batch) (in_ops s) applied of
                  (Inl e, ops) \<Rightarrow> (Inl e, put_cell scope cell (s\<lparr>in_ops := ops\<rparr>))
                | (Inr applied, ops) \<Rightarrow>
                    (let obs = fold observe (ab_recipient_observations batch) (in_observations s);
                         generation =
                           (if is_contact \<and> (ap_upserted applied > 0 \<or> ap_tombstoned applied > 0)
                            then sat_add u64_max (in_contact_generation s) 1 else in_contact_generation s);
                         cell = advance_cursor batch cell;
                         s = s\<lparr>in_ops := ops, in_observations := obs, in_contact_generation := generation,
                               in_scopes := thread_batch scope (ab_derived batch)
                                 (hm_insert scope cell (in_scopes s))\<rparr>;
                         s = keyword_edits_synced (scope_account scope) scope
                               (written_keys (ab_derived batch)) (ab_observed_from batch) s
                     in (Inr applied, settle_keyword_edits now s)))))"

section \<open>Maintenance and the end of a lease\<close>

definition set_expansion_window ::
  "sync_lease \<Rightarrow> expansion_window \<Rightarrow> 'v inner \<Rightarrow> (store_error, unit) result \<times> 'v inner" where
  "set_expansion_window l window s = (case current_cell l s of
      None \<Rightarrow> (Inl StaleLease, s)
    | Some c \<Rightarrow> (Inr (), put_cell (sy_scope l) (c\<lparr>sc_window := Some window\<rparr>) s))"

definition apply_maintenance ::
  "sync_lease \<Rightarrow> derived_write \<Rightarrow> 'v inner \<Rightarrow> (store_error, unit) result \<times> 'v inner" where
  "apply_maintenance l derived s = (case current_cell l s of
      None \<Rightarrow> (Inl StaleLease, s)
    | Some c \<Rightarrow> (Inr (), put_cell (sy_scope l) (apply_derived derived c) s))"

definition release_scope :: "sync_lease \<Rightarrow> 'v inner \<Rightarrow> 'v inner" where
  "release_scope l s = (case hm_get (in_scopes s) (sy_scope l) of
      None \<Rightarrow> s
    | Some c \<Rightarrow>
        (if sc_token c = sy_token l then put_cell (sy_scope l) (c\<lparr>sc_lease_expiry := None\<rparr>) s else s))"

definition renew_scope ::
  "pdt_add \<Rightarrow> instant \<Rightarrow> sync_lease \<Rightarrow> std_duration \<Rightarrow> 'v inner \<Rightarrow> (store_error, unit) result \<times> 'v inner" where
  "renew_scope padd now l ttl s =
     (case utc_checked_add padd now ttl of
        None \<Rightarrow> (Inl (Backend ''lease ttl overflow''), s)
      | Some expiry \<Rightarrow>
          (case hm_get (in_scopes s) (sy_scope l) of
             None \<Rightarrow> (Inl StaleLease, s)
           | Some c \<Rightarrow>
               (if sc_token c = sy_token l \<and> sc_lease_expiry c \<noteq> None
                then (Inr (), put_cell (sy_scope l) (c\<lparr>sc_lease_expiry := Some expiry\<rparr>) s)
                else (Inl StaleLease, s))))"

definition forget_scope_under ::
  "sync_lease \<Rightarrow> 'v inner \<Rightarrow> (store_error, unit) result \<times> 'v inner" where
  "forget_scope_under l s = (case current_cell l s of
      None \<Rightarrow> (Inl StaleLease, s)
    | Some c \<Rightarrow> (Inr (), put_cell (sy_scope l) (scope_cell_new\<lparr>sc_token := sc_token c\<rparr>) s))"

definition abandon_cell :: "'v scope_cell \<Rightarrow> 'v scope_cell" where
  "abandon_cell c = (if sc_lease_expiry c \<noteq> None
     then c\<lparr>sc_token := fence_bump (sc_token c), sc_lease_expiry := None\<rparr> else c)"

definition abandon_sync_leases :: "'v inner \<Rightarrow> (store_error, nat) result \<times> 'v inner" where
  "abandon_sync_leases s =
     (Inr (length (filter (\<lambda>c. sc_lease_expiry c \<noteq> None) (map snd (in_scopes s)))),
      s\<lparr>in_scopes := map_values abandon_cell (in_scopes s)\<rparr>)"

end
