(* ===== verification/Scope_Laws.thy ===== *)
theory Scope_Laws
  imports Scope_Store
begin

text \<open>
  What the sync-side operations do to objects, derived rows, cursors, tokens and the outbox.
\<close>

section \<open>The objects of a scope\<close>

text \<open>The payload map after upserting \<open>objs\<close>, later objects over earlier ones.\<close>

definition upserted ::
  "('o, 'v) sync_object \<Rightarrow> 'o list \<Rightarrow> (provider_key \<rightharpoonup> 'v) \<Rightarrow> (provider_key \<rightharpoonup> 'v)" where
  "upserted tr objs m = fold (\<lambda>x m. m(so_key tr x \<mapsto> projr (so_payload tr x))) objs m"

lemma upserted_get:
  "upserted tr objs m k =
     (case find (\<lambda>x. so_key tr x = k) (rev objs) of Some x \<Rightarrow> Some (projr (so_payload tr x)) | None \<Rightarrow> m k)"
proof (induction objs rule: rev_induct)
  case (snoc x objs)
  then show ?case by (auto simp: upserted_def)
qed (simp add: upserted_def)

lemma dom_upserted: "dom (upserted tr objs m) = dom m \<union> so_key tr ` set objs"
  by (induction objs arbitrary: m) (auto simp: upserted_def)

lemma upserted_Cons:
  "upserted tr (x # objs) m = upserted tr objs (m(so_key tr x \<mapsto> projr (so_payload tr x)))"
  by (simp add: upserted_def)

lemma upserted_idem: "upserted tr objs (upserted tr objs m) = upserted tr objs m"
  by (rule ext) (simp add: upserted_get split: option.splits)

lemma upsert_loop_ok:
  assumes "upsert_loop tr objs c applied = (Inr applied', c')"
  shows "(\<exists>m. c' = c\<lparr>sc_objects := m\<rparr> \<and> hm_get m = upserted tr objs (hm_get (sc_objects c)) \<and>
      (hm_ok (sc_objects c) \<longrightarrow> hm_ok m)) \<and>
    applied' = applied\<lparr>ap_upserted := ap_upserted applied + length objs\<rparr> \<and>
    (\<forall>x \<in> set objs. \<exists>v. so_payload tr x = Inr v)"
  using assms
proof (induction objs arbitrary: c applied)
  case (Cons x objs)
  then obtain v where v: "so_payload tr x = Inr v"
    by (cases "so_payload tr x") (auto simp: upsert_object_def)
  let ?c = "c\<lparr>sc_objects := hm_insert (so_key tr x) v (sc_objects c)\<rparr>"
  have "upsert_loop tr objs ?c (applied\<lparr>ap_upserted := ap_upserted applied + 1\<rparr>) = (Inr applied', c')"
    using Cons.prems v by (simp add: upsert_object_def)
  note IH = Cons.IH [OF this]
  from IH obtain m where m: "c' = ?c\<lparr>sc_objects := m\<rparr>"
    "hm_get m = upserted tr objs (hm_get (sc_objects ?c))" "hm_ok (sc_objects ?c) \<longrightarrow> hm_ok m"
    by (elim exE conjE) (rule that)
  have get: "hm_get (sc_objects ?c) = (hm_get (sc_objects c))(so_key tr x \<mapsto> projr (so_payload tr x))"
    using v by simp
  have "hm_get m = upserted tr (x # objs) (hm_get (sc_objects c))"
    using m(2) get by (simp only: upserted_Cons)
  moreover have "c' = c\<lparr>sc_objects := m\<rparr>" using m(1) by simp
  moreover have "hm_ok (sc_objects c) \<longrightarrow> hm_ok m" using m(3) by (simp add: distinct_update)
  ultimately have "\<exists>m. c' = c\<lparr>sc_objects := m\<rparr> \<and>
      hm_get m = upserted tr (x # objs) (hm_get (sc_objects c)) \<and> (hm_ok (sc_objects c) \<longrightarrow> hm_ok m)" by blast
  with IH v show ?case by simp
next
  case Nil
  then show ?case by (auto simp: upserted_def intro!: exI [of _ "sc_objects c"])
qed

lemma upsert_loop_err:
  assumes "upsert_loop tr objs c applied = (Inl e, c')"
  shows "\<exists>done' x rest msg. objs = done' @ x # rest \<and> so_payload tr x = Inl msg \<and> e = Backend msg \<and>
    (\<exists>ap. upsert_loop tr done' c applied = (Inr ap, c'))"
  using assms
proof (induction objs arbitrary: c applied)
  case (Cons x objs)
  show ?case
  proof (cases "so_payload tr x")
    case (Inl msg)
    with Cons.prems show ?thesis
      by (intro exI [of _ "[]"] exI [of _ x] exI [of _ objs] exI [of _ msg]) (simp add: upsert_object_def)
  next
    case (Inr v)
    with Cons obtain d y rest msg ap where "objs = d @ y # rest" "so_payload tr y = Inl msg" "e = Backend msg"
      "upsert_loop tr d (c\<lparr>sc_objects := hm_insert (so_key tr x) v (sc_objects c)\<rparr>)
        (applied\<lparr>ap_upserted := ap_upserted applied + 1\<rparr>) = (Inr ap, c')"
      by (fastforce simp: upsert_object_def)
    with Inr show ?thesis
      by (intro exI [of _ "x # d"] exI [of _ y] exI [of _ rest] exI [of _ msg]) (simp add: upsert_object_def)
  qed
qed simp

text \<open>Removing keys: the objects and all their derived rows.\<close>

definition bury :: "provider_key list \<Rightarrow> 'v scope_cell \<Rightarrow> 'v scope_cell" where
  "bury ks c = fold (\<lambda>k c. snd (tombstone k c)) ks c"

lemma remove_loop_bury: "snd (remove_loop ks c applied) = bury ks c"
  by (induction ks arbitrary: c applied) (auto simp: bury_def split: prod.splits)

lemma absent_loop_bury: "snd (absent_loop ks c applied) = bury ks c"
  by (induction ks arbitrary: c applied) (auto simp: bury_def split: prod.splits)

lemma bury_objects: "hm_get (sc_objects (bury ks c)) k = (if k \<in> set ks then None else hm_get (sc_objects c) k)"
  by (induction ks arbitrary: c) (auto simp: bury_def tombstone_def remove_derived_def)

lemma bury_objects_ok: "hm_ok (sc_objects c) \<Longrightarrow> hm_ok (sc_objects (bury ks c))"
  by (induction ks arbitrary: c) (auto simp: bury_def tombstone_def remove_derived_def)

lemma bury_slice: "cell_slice (bury ks c) k = (if k \<in> set ks then empty_slice else cell_slice c k)"
proof (induction ks arbitrary: c)
  case (Cons j ks)
  have "cell_slice (snd (tombstone j c)) k = (if k = j then empty_slice else cell_slice c k)"
    unfolding tombstone_def snd_conv slice_remove_derived by (simp add: cell_slice_def)
  with Cons [of "snd (tombstone j c)"] show ?case by (auto simp: bury_def)
qed (simp add: bury_def)

lemma bury_scalars [simp]:
  "sc_token (bury ks c) = sc_token c" "sc_lease_expiry (bury ks c) = sc_lease_expiry c"
  "sc_state (bury ks c) = sc_state c" "sc_window (bury ks c) = sc_window c"
  "sc_collection_tag (bury ks c) = sc_collection_tag c"
  by (induction ks arbitrary: c) (auto simp: bury_def tombstone_def remove_derived_def)

lemma remove_loop_count:
  "ap_tombstoned (fst (remove_loop ks c applied)) =
     ap_tombstoned applied + card (set ks \<inter> dom (hm_get (sc_objects c)))"
proof (induction ks arbitrary: c applied)
  case (Cons k ks)
  let ?c = "snd (tombstone k c)" and ?D = "dom (hm_get (sc_objects c))"
  have "dom (hm_get (sc_objects ?c)) = ?D - {k}" by (auto simp: tombstone_def remove_derived_def)
  then have small: "card (set ks \<inter> dom (hm_get (sc_objects ?c))) = card (set ks \<inter> ?D - {k})"
    by (simp add: Int_Diff)
  show ?case
  proof (cases "k \<in> ?D")
    case True
    then have "set (k # ks) \<inter> ?D = insert k (set ks \<inter> ?D - {k})" by auto
    moreover have "card (insert k (set ks \<inter> ?D - {k})) = Suc (card (set ks \<inter> ?D - {k}))"
      by (rule card_insert_disjoint) auto
    ultimately have "card (set (k # ks) \<inter> ?D) = Suc (card (set ks \<inter> ?D - {k}))" by (simp only:)
    with True small Cons.IH show ?thesis by (auto simp: tombstone_def)
  next
    case False
    then have "set (k # ks) \<inter> ?D = set ks \<inter> ?D - {k}" by auto
    with False small Cons.IH show ?thesis by (auto simp: tombstone_def)
  qed
qed simp

text \<open>What a scope holds after an update, as a map.\<close>

fun updated_objects ::
  "('o, 'v) sync_object \<Rightarrow> ('o, 'p) sync_update \<Rightarrow> (provider_key \<rightharpoonup> 'v) \<Rightarrow> (provider_key \<rightharpoonup> 'v)" where
  "updated_objects tr (Delta changed _ removed) m = (upserted tr changed m) |` (- set removed)"
| "updated_objects tr (Snapshot objects present) m = (upserted tr objects m) |` set present"

fun buried_keys ::
  "('o, 'v) sync_object \<Rightarrow> ('o, 'p) sync_update \<Rightarrow> (provider_key \<rightharpoonup> 'v) \<Rightarrow> provider_key set" where
  "buried_keys tr (Delta changed _ removed) m = set removed"
| "buried_keys tr (Snapshot objects present) m = dom (upserted tr objects m) - set present"

lemma apply_update_shape:
  assumes "apply_update tr u c applied = (Inr applied', c')"
  obtains m ks where "c' = bury ks (c\<lparr>sc_objects := m\<rparr>)"
    "hm_get m = upserted tr (update_changed u) (hm_get (sc_objects c))"
    "hm_ok (sc_objects c) \<longrightarrow> hm_ok m"
    "set ks = (case u of Delta _ _ removed \<Rightarrow> set removed
       | Snapshot _ present \<Rightarrow> dom (upserted tr (update_changed u) (hm_get (sc_objects c))) - set present)"
proof (cases u)
  case (Delta changed patched removed)
  with assms obtain ap1 c1 where 1: "upsert_loop tr changed c applied = (Inr ap1, c1)"
    "(applied', c') = remove_loop removed c1 ap1"
    by (auto split: prod.splits sum.splits)
  then have "c' = bury removed c1" using remove_loop_bury [of removed c1 ap1] by (metis snd_conv)
  with upsert_loop_ok [OF 1(1)] Delta that [of removed] show thesis by auto
next
  case (Snapshot objects present)
  let ?abs = "\<lambda>c1. filter (\<lambda>k. k \<notin> set present) (hm_keys (sc_objects c1))"
  from Snapshot assms obtain ap1 c1 where 1: "upsert_loop tr objects c applied = (Inr ap1, c1)"
    "(applied', c') = absent_loop (?abs c1) c1 ap1"
    by (auto simp: Let_def split: prod.splits sum.splits)
  then have b: "c' = bury (?abs c1) c1" using absent_loop_bury [of "?abs c1" c1 ap1] by (metis snd_conv)
  from upsert_loop_ok [OF 1(1)] obtain m where m: "c1 = c\<lparr>sc_objects := m\<rparr>"
    "hm_get m = upserted tr objects (hm_get (sc_objects c))" "hm_ok (sc_objects c) \<longrightarrow> hm_ok m" by blast
  have "set (?abs c1) = dom (hm_get m) - set present"
    by (auto simp: m(1) dom_map_of_conv_image_fst)
  with b m Snapshot show thesis by (intro that [of "?abs c1" m]) simp_all
qed

lemma apply_update_ok:
  assumes "apply_update tr u c applied = (Inr applied', c')"
  shows "hm_get (sc_objects c') = updated_objects tr u (hm_get (sc_objects c))"
    "cell_slice c' k = (if k \<in> buried_keys tr u (hm_get (sc_objects c)) then empty_slice else cell_slice c k)"
    "sc_token c' = sc_token c" "sc_lease_expiry c' = sc_lease_expiry c" "sc_state c' = sc_state c"
    "sc_window c' = sc_window c" "sc_collection_tag c' = sc_collection_tag c"
    "hm_ok (sc_objects c) \<Longrightarrow> hm_ok (sc_objects c')"
proof -
  obtain m ks where c': "c' = bury ks (c\<lparr>sc_objects := m\<rparr>)"
    and m: "hm_get m = upserted tr (update_changed u) (hm_get (sc_objects c))"
    and ok: "hm_ok (sc_objects c) \<longrightarrow> hm_ok m"
    and ks: "set ks = (case u of Delta _ _ removed \<Rightarrow> set removed
       | Snapshot _ present \<Rightarrow> dom (upserted tr (update_changed u) (hm_get (sc_objects c))) - set present)"
    using apply_update_shape [OF assms] by metis
  show "hm_get (sc_objects c') = updated_objects tr u (hm_get (sc_objects c))"
  proof (rule ext)
    fix x
    show "hm_get (sc_objects c') x = updated_objects tr u (hm_get (sc_objects c)) x"
      unfolding c' bury_objects ks by (cases u) (auto simp: m restrict_map_def)
  qed
  have "cell_slice (c\<lparr>sc_objects := m\<rparr>) k = cell_slice c k" by (simp add: cell_slice_def)
  then show "cell_slice c' k =
      (if k \<in> buried_keys tr u (hm_get (sc_objects c)) then empty_slice else cell_slice c k)"
    unfolding c' bury_slice ks by (cases u) simp_all
  show "hm_ok (sc_objects c')" if "hm_ok (sc_objects c)"
    using bury_objects_ok [of "c\<lparr>sc_objects := m\<rparr>" ks] ok that by (simp add: c')
  show "sc_token c' = sc_token c" "sc_lease_expiry c' = sc_lease_expiry c" "sc_state c' = sc_state c"
    "sc_window c' = sc_window c" "sc_collection_tag c' = sc_collection_tag c" by (simp_all add: c')
qed

section \<open>Replaying a batch on its cell\<close>

text \<open>The part of an apply that writes the scope's own cell.\<close>

definition cell_after ::
  "('o, 'v) sync_object \<Rightarrow> ('o, 'p) apply_batch \<Rightarrow> 'v scope_cell \<Rightarrow> 'v scope_cell" where
  "cell_after tr batch c = advance_cursor batch (apply_derived (ab_derived batch)
     (snd (apply_update tr (ab_update batch) c \<lparr>ap_upserted = 0, ap_tombstoned = 0, ap_reconciled = 0\<rparr>)))"

definition payloads_ok :: "('o, 'v) sync_object \<Rightarrow> ('o, 'p) sync_update \<Rightarrow> bool" where
  "payloads_ok tr u \<longleftrightarrow> (\<forall>x \<in> set (update_changed u). \<exists>v. so_payload tr x = Inr v)"

lemma upsert_loop_total:
  "\<forall>x \<in> set objs. \<exists>v. so_payload tr x = Inr v \<Longrightarrow>
     \<exists>ap c'. upsert_loop tr objs c applied = (Inr ap, c')"
  by (induction objs arbitrary: c applied) (auto simp: upsert_object_def)

lemma apply_update_total:
  assumes "payloads_ok tr u"
  shows "\<exists>ap c'. apply_update tr u c applied = (Inr ap, c')"
proof (cases u)
  case (Delta ch p r)
  with assms upsert_loop_total [of ch tr c applied] show ?thesis
    by (auto simp: payloads_ok_def split: prod.splits)
next
  case (Snapshot ch p)
  with assms upsert_loop_total [of ch tr c applied] show ?thesis
    by (auto simp: payloads_ok_def Let_def split: prod.splits)
qed

lemma advance_cursor_keeps [simp]:
  "sc_token (advance_cursor b c) = sc_token c" "sc_lease_expiry (advance_cursor b c) = sc_lease_expiry c"
  "sc_window (advance_cursor b c) = sc_window c" "sc_objects (advance_cursor b c) = sc_objects c"
  "cell_slice (advance_cursor b c) = cell_slice c"
  "sc_messages (advance_cursor b c) = sc_messages c" "sc_refs (advance_cursor b c) = sc_refs c"
  by (auto simp: advance_cursor_def cell_slice_def fun_eq_iff split: option.splits)

lemma advance_cursor_state:
  "sc_state (advance_cursor b c) = (case ab_next_state b of None \<Rightarrow> sc_state c | Some st \<Rightarrow> Some st)"
  "sc_collection_tag (advance_cursor b c) =
     (case ab_next_state b of None \<Rightarrow> sc_collection_tag c | Some _ \<Rightarrow> ab_collection_tag b)"
  by (simp_all add: advance_cursor_def split: option.splits)

lemma cell_after_fields:
  assumes "payloads_ok tr (ab_update b)"
  shows "hm_get (sc_objects (cell_after tr b c)) = updated_objects tr (ab_update b) (hm_get (sc_objects c))"
    "cell_slice (cell_after tr b c) k = slice_apply (ab_derived b) k
       (if k \<in> buried_keys tr (ab_update b) (hm_get (sc_objects c)) then empty_slice else cell_slice c k)"
    "sc_token (cell_after tr b c) = sc_token c" "sc_lease_expiry (cell_after tr b c) = sc_lease_expiry c"
    "sc_window (cell_after tr b c) = sc_window c"
    "sc_state (cell_after tr b c) = (case ab_next_state b of None \<Rightarrow> sc_state c | Some st \<Rightarrow> Some st)"
    "sc_collection_tag (cell_after tr b c) =
       (case ab_next_state b of None \<Rightarrow> sc_collection_tag c | Some _ \<Rightarrow> ab_collection_tag b)"
proof -
  obtain ap c' where u: "apply_update tr (ab_update b) c
      \<lparr>ap_upserted = 0, ap_tombstoned = 0, ap_reconciled = 0\<rparr> = (Inr ap, c')"
    using apply_update_total [OF assms] by blast
  note ok = apply_update_ok [OF u]
  have objs: "sc_objects (apply_derived d x) = sc_objects x" for d and x :: "'b scope_cell"
    using cell_scalars_apply_derived [of d x] by (simp add: cell_scalars_def)
  show "hm_get (sc_objects (cell_after tr b c)) = updated_objects tr (ab_update b) (hm_get (sc_objects c))"
    "cell_slice (cell_after tr b c) k = slice_apply (ab_derived b) k
       (if k \<in> buried_keys tr (ab_update b) (hm_get (sc_objects c)) then empty_slice else cell_slice c k)"
    "sc_token (cell_after tr b c) = sc_token c" "sc_lease_expiry (cell_after tr b c) = sc_lease_expiry c"
    "sc_window (cell_after tr b c) = sc_window c"
    "sc_state (cell_after tr b c) = (case ab_next_state b of None \<Rightarrow> sc_state c | Some st \<Rightarrow> Some st)"
    "sc_collection_tag (cell_after tr b c) =
       (case ab_next_state b of None \<Rightarrow> sc_collection_tag c | Some _ \<Rightarrow> ab_collection_tag b)"
    by (simp_all add: cell_after_def u ok objs cell_slice_apply_derived advance_cursor_state split: option.split)
qed

lemma updated_objects_idem:
  "updated_objects tr u (updated_objects tr u m) = updated_objects tr u m"
  by (cases u) (auto simp: fun_eq_iff restrict_map_def upserted_get split: option.splits)

lemma cell_after_replay:
  assumes "payloads_ok tr (ab_update b)" and "occurrences_reset (ab_derived b)"
  shows "cell_equiv (cell_after tr b (cell_after tr b c)) (cell_after tr b c)"
proof -
  note f = cell_after_fields [OF assms(1)]
  let ?m = "hm_get (sc_objects c)" and ?u = "ab_update b" and ?d = "ab_derived b"
  have slice: "cell_slice (cell_after tr b (cell_after tr b c)) k = cell_slice (cell_after tr b c) k" for k
  proof (cases "k \<in> buried_keys tr ?u (updated_objects tr ?u ?m)")
    case True
    then have "k \<in> buried_keys tr ?u ?m"
      by (cases ?u) (auto simp: dom_upserted restrict_map_def split: if_splits)
    with True show ?thesis by (simp add: f)
  next
    case False
    then show ?thesis by (simp add: f slice_apply_idem [OF assms(2)])
  qed
  show ?thesis
    unfolding cell_equiv_def
    using slice by (auto simp: f updated_objects_idem fun_eq_iff split: option.splits)
qed

section \<open>Tokens and stale leases\<close>

lemma current_cell_Some:
  "current_cell l s = Some c \<longleftrightarrow> hm_get (in_scopes s) (sy_scope l) = Some c \<and> sc_token c = sy_token l"
  by (auto simp: current_cell_def split: option.splits)

lemma current_cell_None:
  "current_cell l s = None \<longleftrightarrow>
     (\<forall>c. hm_get (in_scopes s) (sy_scope l) = Some c \<longrightarrow> sc_token c \<noteq> sy_token l)"
  by (auto simp: current_cell_def split: option.splits)

lemma stale_apply: "current_cell l s = None \<Longrightarrow> apply_sync_update padd now tr l b s = (Inl StaleLease, s)"
  by (simp add: apply_sync_update_def)

lemma stale_others:
  "current_cell l s = None \<Longrightarrow> set_expansion_window l w s = (Inl StaleLease, s)"
  "current_cell l s = None \<Longrightarrow> apply_maintenance l d s = (Inl StaleLease, s)"
  "current_cell l s = None \<Longrightarrow> forget_scope_under l s = (Inl StaleLease, s)"
  "current_cell l s = None \<Longrightarrow> release_scope l s = s"
  "current_cell l s = None \<Longrightarrow> snd (renew_scope padd now l ttl s) = s"
  by (auto simp: set_expansion_window_def apply_maintenance_def forget_scope_under_def release_scope_def
      renew_scope_def current_cell_None split: option.splits)

lemma scope_gen_put:
  "scope_gen (hm_insert k c m) = (scope_gen m)(k := sc_token c)"
  by (auto simp: scope_gen_def fun_eq_iff)

lemma scope_gen_put_same:
  "hm_get m k = Some c \<Longrightarrow> sc_token c' = sc_token c \<Longrightarrow> scope_gen (hm_insert k c' m) = scope_gen m"
  by (auto simp: scope_gen_def fun_eq_iff)

lemma claim_sync_scope_gen:
  assumes "claim_sync_scope padd now account scope req s = (r, s')"
  shows "(\<exists>e. r = Inl e \<and> s' = s) \<or> (\<exists>claim c. r = Inr claim \<and>
    sy_scope (cl_lease claim) = scope \<and> sy_token (cl_lease claim) = fence_bump (scope_gen (in_scopes s) scope) \<and>
    s' = put_cell scope c s \<and> sc_token c = sy_token (cl_lease claim) \<and>
    scope_gen (in_scopes s') = (scope_gen (in_scopes s))(scope := sy_token (cl_lease claim)))"
proof (cases "expiry_after padd now req")
  case (Inl e)
  with assms show ?thesis by (auto simp: claim_sync_scope_def)
next
  case (Inr expiry)
  let ?c = "case hm_get (in_scopes s) scope of None \<Rightarrow> scope_cell_new | Some c \<Rightarrow> c"
  have tok: "sc_token ?c = scope_gen (in_scopes s) scope"
    by (simp add: scope_gen_def scope_cell_new_def split: option.splits)
  show ?thesis
  proof (cases "is_live (sc_lease_expiry ?c) now")
    case True
    with assms Inr show ?thesis by (auto simp: claim_sync_scope_def)
  next
    case False
    let ?c' = "?c\<lparr>sc_token := fence_bump (sc_token ?c), sc_lease_expiry := Some expiry\<rparr>"
    have "r = Inr \<lparr>cl_lease = \<lparr>sy_account = account, sy_scope = scope, sy_token = sc_token ?c',
        sy_owner = lq_owner req, sy_expiry = expiry\<rparr>, cl_state = sc_state ?c'\<rparr>" "s' = put_cell scope ?c' s"
      using assms Inr False by (simp_all add: claim_sync_scope_def Let_def put_cell_def)
    then show ?thesis
      by (intro disjI2 exI [of _ "projr r"] exI [of _ ?c']) (simp add: tok put_cell_def scope_gen_put)
  qed
qed

lemma apply_update_token:
  "apply_update tr u c applied = (r, c') \<Longrightarrow> sc_token c' = sc_token c \<and> sc_lease_expiry c' = sc_lease_expiry c"
proof (cases r)
  case (Inr a)
  moreover assume "apply_update tr u c applied = (r, c')"
  ultimately show ?thesis using apply_update_ok(3,4) by blast
next
  case (Inl e)
  assume a: "apply_update tr u c applied = (r, c')"
  then obtain c1 where "upsert_loop tr (update_changed u) c applied = (Inl e, c')"
    using Inl by (cases u) (auto simp: Let_def split: prod.splits sum.splits)
  from upsert_loop_err [OF this] obtain d ap where "upsert_loop tr d c applied = (Inr ap, c')" by blast
  from upsert_loop_ok [OF this] show ?thesis by auto
qed

text \<open>No apply moves a token.\<close>

lemma thread_batch_scalars [simp]: "scope_scalars (thread_batch scope d scopes) = scope_scalars scopes"
proof (cases "dw_messages d = []")
  case False
  obtain scopes' where a: "assign_threads scopes (scope_account scope) scope (dw_messages d) (dw_msgid_refs d) = Some scopes'"
    using assign_threads_returns by blast
  from assign_threads_writes [OF this] obtain asg where "scopes' = fold set_thread asg scopes" by blast
  then have "scope_scalars scopes' = scope_scalars scopes"
    by (simp add: fold_keeps [where f = scope_scalars])
  with False a show ?thesis by (simp add: thread_batch_def)
qed (simp add: thread_batch_def)

lemma apply_sync_update_cases:
  assumes "apply_sync_update padd now tr l b s = (r, s')"
  obtains (stale) "current_cell l s = None" "r = Inl StaleLease" "s' = s"
  | (refused) c c' e where "current_cell l s = Some c" "r = Inl e" "s' = put_cell (sy_scope l) c' s"
      "apply_update tr (ab_update b) c \<lparr>ap_upserted = 0, ap_tombstoned = 0, ap_reconciled = 0\<rparr> = (Inl e, c')"
  | (unreconciled) c c' ap ops e where "current_cell l s = Some c" "r = Inl e"
      "apply_update tr (ab_update b) c \<lparr>ap_upserted = 0, ap_tombstoned = 0, ap_reconciled = 0\<rparr> = (Inr ap, c')"
      "reconcile_loop padd now (ab_reconcile b) (in_ops s) ap = (Inl e, ops)"
      "s' = put_cell (sy_scope l) (apply_derived (ab_derived b) c') (s\<lparr>in_ops := ops\<rparr>)"
  | (applied) c ap0 ap ops s1 s2 where "current_cell l s = Some c" "r = Inr ap"
      "fst (apply_update tr (ab_update b) c \<lparr>ap_upserted = 0, ap_tombstoned = 0, ap_reconciled = 0\<rparr>) = Inr ap0"
      "reconcile_loop padd now (ab_reconcile b) (in_ops s) ap0 = (Inr ap, ops)"
      "in_ops s1 = ops" "in_idempotency s1 = in_idempotency s" "in_next_op s1 = in_next_op s"
      "in_server_keywords s1 = in_server_keywords s"
      "in_observations s1 = fold observe (ab_recipient_observations b) (in_observations s)"
      "in_contact_generation s1 =
         (if scope_object_kind (sy_scope l) = Some KContactCard \<and> (ap_upserted ap > 0 \<or> ap_tombstoned ap > 0)
          then sat_add u64_max (in_contact_generation s) 1 else in_contact_generation s)"
      "in_scopes s1 = thread_batch (sy_scope l) (ab_derived b)
         (hm_insert (sy_scope l) (cell_after tr b c) (in_scopes s))"
      "s2 = keyword_edits_synced (scope_account (sy_scope l)) (sy_scope l)
         (written_keys (ab_derived b)) (ab_observed_from b) s1"
      "s' = settle_keyword_edits now s2"
proof (cases "current_cell l s")
  case None
  have "r = Inl StaleLease" "s' = s" using assms stale_apply [OF None, of padd now tr b] by simp_all
  then show thesis by (rule that(1) [OF None])
next
  case (Some c)
  let ?z = "\<lparr>ap_upserted = 0, ap_tombstoned = 0, ap_reconciled = 0\<rparr>"
  obtain ru c' where ru: "apply_update tr (ab_update b) c ?z = (ru, c')" by force
  show thesis
  proof (cases ru)
    case (Inl e)
    with assms Some ru have "r = Inl e" "s' = put_cell (sy_scope l) c' s"
      by (auto simp: apply_sync_update_def Let_def)
    with Some ru Inl show thesis by (intro that(2) [of c e c']) auto
  next
    case (Inr ap0)
    obtain rr ops where rr: "reconcile_loop padd now (ab_reconcile b) (in_ops s) ap0 = (rr, ops)" by force
    show thesis
    proof (cases rr)
      case (Inl e)
      have "r = Inl e" "s' = put_cell (sy_scope l) (apply_derived (ab_derived b) c') (s\<lparr>in_ops := ops\<rparr>)"
        using assms Some ru Inl \<open>ru = Inr ap0\<close> rr by (auto simp: apply_sync_update_def Let_def)
      with Some ru \<open>ru = Inr ap0\<close> rr Inl show thesis by (intro that(3) [of c e ap0 c' ops]) auto
    next
      case (Inr ap)
      let ?s1 = "s\<lparr>in_ops := ops,
          in_observations := fold observe (ab_recipient_observations b) (in_observations s),
          in_contact_generation :=
            (if scope_object_kind (sy_scope l) = Some KContactCard \<and> (ap_upserted ap > 0 \<or> ap_tombstoned ap > 0)
             then sat_add u64_max (in_contact_generation s) 1 else in_contact_generation s),
          in_scopes := thread_batch (sy_scope l) (ab_derived b)
            (hm_insert (sy_scope l) (advance_cursor b (apply_derived (ab_derived b) c')) (in_scopes s))\<rparr>"
      let ?s2 = "keyword_edits_synced (scope_account (sy_scope l)) (sy_scope l)
          (written_keys (ab_derived b)) (ab_observed_from b) ?s1"
      have ca: "advance_cursor b (apply_derived (ab_derived b) c') = cell_after tr b c"
        using ru by (simp add: cell_after_def)
      have "(r, s') = (Inr ap, settle_keyword_edits now ?s2)"
        unfolding assms [symmetric] apply_sync_update_def Let_def Some ru \<open>ru = Inr ap0\<close> rr Inr
          option.case prod.case sum.case ..
      then have "r = Inr ap" "s' = settle_keyword_edits now ?s2" by simp_all
      moreover have "fst (apply_update tr (ab_update b) c ?z) = Inr ap0" using ru \<open>ru = Inr ap0\<close> by simp
      moreover have "reconcile_loop padd now (ab_reconcile b) (in_ops s) ap0 = (Inr ap, ops)" using rr Inr by simp
      ultimately show thesis
        by (intro that(4) [of c ap ap0 ops ?s1 ?s2, OF Some]) (simp_all add: ca)
    qed
  qed
qed

lemma scope_gen_put_cell:
  "current_cell l s = Some c \<Longrightarrow> sc_token c' = sc_token c \<Longrightarrow>
     scope_gen (in_scopes (put_cell (sy_scope l) c' s)) = scope_gen (in_scopes s)"
  unfolding put_cell_def by (auto simp: current_cell_Some scope_gen_put_same)

lemma cell_after_token: "sc_token (cell_after tr b c) = sc_token c"
proof -
  obtain r c' where "apply_update tr (ab_update b) c \<lparr>ap_upserted = 0, ap_tombstoned = 0, ap_reconciled = 0\<rparr> = (r, c')"
    by force
  with apply_update_token [OF this] show ?thesis by (simp add: cell_after_def)
qed

lemma apply_sync_update_gen:
  assumes "apply_sync_update padd now tr l b s = (r, s')"
  shows "scope_gen (in_scopes s') = scope_gen (in_scopes s)"
  using assms
proof (cases rule: apply_sync_update_cases)
  case (refused c c' e)
  with scope_gen_put_cell [OF refused(1)] apply_update_token show ?thesis by blast
next
  case (unreconciled c c' ap ops e)
  have "scope_gen (in_scopes (put_cell (sy_scope l) (apply_derived (ab_derived b) c') s)) = scope_gen (in_scopes s)"
    by (rule scope_gen_put_cell [OF unreconciled(1)]) (use apply_update_token [OF unreconciled(3)] in simp)
  with unreconciled(5) show ?thesis by (simp add: put_cell_def)
next
  case (applied c ap0 ap ops s1 s2)
  have "scope_scalars (in_scopes s') = scope_scalars (hm_insert (sy_scope l) (cell_after tr b c) (in_scopes s))"
    using applied by simp
  then have "scope_gen (in_scopes s') = scope_gen (hm_insert (sy_scope l) (cell_after tr b c) (in_scopes s))"
    by (rule scope_scalars_gen)
  also have "\<dots> = scope_gen (in_scopes s)"
    using applied(1) by (intro scope_gen_put_same) (auto simp: current_cell_Some cell_after_token)
  finally show ?thesis .
qed simp

lemma lease_ops_gen:
  "set_expansion_window l w s = (r, s') \<Longrightarrow> scope_gen (in_scopes s') = scope_gen (in_scopes s)"
  "apply_maintenance l d s = (r, s') \<Longrightarrow> scope_gen (in_scopes s') = scope_gen (in_scopes s)"
  "forget_scope_under l s = (r, s') \<Longrightarrow> scope_gen (in_scopes s') = scope_gen (in_scopes s)"
  by (auto simp: set_expansion_window_def apply_maintenance_def forget_scope_under_def
      scope_gen_put_cell split: option.splits)

lemma release_gen: "scope_gen (in_scopes (release_scope l s)) = scope_gen (in_scopes s)"
  by (auto simp: release_scope_def put_cell_def scope_gen_put_same split: option.splits)

lemma renew_scope_gen:
  "renew_scope padd now l ttl s = (r, s') \<Longrightarrow> scope_gen (in_scopes s') = scope_gen (in_scopes s)"
  by (auto simp: renew_scope_def put_cell_def scope_gen_put_same split: option.splits if_splits)

lemma abandon_gen:
  "abandon_sync_leases s = (r, s') \<Longrightarrow> scope_gen (in_scopes s') k =
     (if is_some_and (hm_get (in_scopes s) k) (\<lambda>c. sc_lease_expiry c \<noteq> None)
      then fence_bump (scope_gen (in_scopes s) k) else scope_gen (in_scopes s) k)"
  by (auto simp: abandon_sync_leases_def scope_gen_def abandon_cell_def split: option.splits)

section \<open>Reconciliation and the outbox\<close>

definition reconcile_events :: "pending_reconciliation list \<Rightarrow> pending_op_id \<Rightarrow> op_event set" where
  "reconcile_events recs i =
     (if i \<in> pr_op ` set recs then {EvStamp, EvRecover, EvReconcile} else {EvStamp})"

lemma ops_moved_recover_once:
  assumes "ops_moved padd E n no_lease ops ops'" and "\<And>i. E i \<subseteq> {EvStamp, EvRecover, EvReconcile}"
  shows "ops_moved padd E 1 no_lease ops ops'"
  unfolding ops_moved_def
proof
  fix i
  show "rel_option (\<lambda>c c'. \<exists>es. op_path padd es c c' \<and> set es \<subseteq> E i \<and> bump_count es \<le> 1 \<and>
      lease_count es = no_lease i) (hm_get ops i) (hm_get ops' i)"
    using assms(1) [unfolded ops_moved_def, rule_format, of i]
  proof (rule option.rel_mono_strong)
    fix c c'
    assume "\<exists>es. op_path padd es c c' \<and> set es \<subseteq> E i \<and> bump_count es \<le> n \<and> lease_count es = no_lease i"
    then obtain es where es: "op_path padd es c c'" "set es \<subseteq> E i" "lease_count es = no_lease i" by blast
    then have sub: "set es \<subseteq> {EvStamp, EvRecover, EvReconcile}" using assms(2) [of i] by blast
    then have "bump_count es = count_list es EvRecover" by (induction es) auto
    moreover have "EvLease \<notin> set es" using sub by auto
    ultimately have "bump_count es \<le> 1" using op_path_recovers_once [OF es(1)] by simp
    with es show "\<exists>es. op_path padd es c c' \<and> set es \<subseteq> E i \<and> bump_count es \<le> 1 \<and> lease_count es = no_lease i"
      by blast
  qed
qed

lemma reconcile_step_moved:
  assumes c: "hm_get ops i = Some c"
    and rc: "(if cell_is_dead now c then cell_recover padd now c else (Inr (), c)) = (r, c1)"
    and c2: "c2 = c1 \<or> c2 = c1\<lparr>oc_state := Succeeded, oc_lease_expiry := None\<rparr>"
    and i: "i \<in> pr_op ` set recs"
  shows "ops_moved padd (reconcile_events recs) 1 no_lease ops (bt_insert i c2 ops)"
proof -
  have "c1 = c \<or> op_step padd EvRecover c c1"
    using rc cell_recover_event [of padd now c r c1] by (auto simp: cell_is_dead_def split: if_splits)
  then obtain es where es: "op_path padd es c c1" "es = [] \<or> es = [EvRecover]" by auto
  from c2 obtain fs where fs: "op_path padd fs c1 c2" "fs = [] \<or> fs = [EvReconcile]"
    using op_step.reconcile [of padd c1] by auto
  have "op_path padd (es @ fs) c c2" using op_path_append [OF fs(1) es(1)] .
  then show ?thesis
    by (rule ops_moved_insert [OF c]) (use es(2) fs(2) i in \<open>auto simp: reconcile_events_def lease_count_def\<close>)
qed

lemma reconcile_loop_moved:
  assumes "reconcile_loop padd now recs ops ap = (r, ops')" and "set recs \<subseteq> set all"
  shows "ops_moved padd (reconcile_events all) (length recs) no_lease ops ops'"
  using assms
proof (induction recs arbitrary: ops ap)
  case Nil
  then show ?case by (simp add: ops_moved_refl)
next
  case (Cons rec recs)
  show ?case
  proof (cases "hm_get ops (pr_op rec)")
    case None
    with Cons have "ops_moved padd (reconcile_events all) (length recs) no_lease ops ops'" by simp
    then show ?thesis by (rule ops_moved_mono) auto
  next
    case (Some c)
    obtain rc c1 where rc: "(if cell_is_dead now c then cell_recover padd now c else (Inr (), c)) = (rc, c1)"
      by force
    have i: "pr_op rec \<in> pr_op ` set all" using Cons.prems by auto
    show ?thesis
    proof (cases rc)
      case (Inl e)
      with Cons.prems Some rc have "ops' = bt_insert (pr_op rec) c1 ops" by simp
      with reconcile_step_moved [OF Some rc _ i] show ?thesis by (auto intro: ops_moved_mono)
    next
      case (Inr u)
      let ?c2 = "if oc_state c1 = pr_expected rec then c1\<lparr>oc_state := Succeeded, oc_lease_expiry := None\<rparr> else c1"
      have first: "ops_moved padd (reconcile_events all) 1 no_lease ops (bt_insert (pr_op rec) ?c2 ops)"
        by (rule reconcile_step_moved [OF Some rc _ i]) simp
      have "\<exists>ap'. reconcile_loop padd now recs (bt_insert (pr_op rec) ?c2 ops) ap' = (r, ops')"
        using Cons.prems Some rc Inr by (auto split: if_splits)
      with Cons have "ops_moved padd (reconcile_events all) (length recs) no_lease (bt_insert (pr_op rec) ?c2 ops) ops'"
        by auto
      from ops_moved_trans [OF first this] show ?thesis by (simp add: no_lease_def)
    qed
  qed
qed

lemma reconcile_moved:
  "reconcile_loop padd now recs ops ap = (r, ops') \<Longrightarrow> ops_moved padd (reconcile_events recs) 1 no_lease ops ops'"
  by (rule ops_moved_recover_once [OF reconcile_loop_moved]) (auto simp: reconcile_events_def)

lemma reconcile_loop_bt: "reconcile_loop padd now recs ops ap = (r, ops') \<Longrightarrow> bt_ok ops \<Longrightarrow> bt_ok ops'"
proof (induction recs arbitrary: ops ap)
  case (Cons rec recs)
  show ?case
  proof (cases "hm_get ops (pr_op rec)")
    case (Some c)
    obtain rc c1 where "(if cell_is_dead now c then cell_recover padd now c else (Inr (), c)) = (rc, c1)" by force
    with Cons Some show ?thesis by (auto split: sum.splits if_splits)
  qed (use Cons in simp)
qed simp

lemma apply_sync_update_moved:
  assumes "apply_sync_update padd now tr l b s = (r, s')"
  shows "ops_moved padd (reconcile_events (ab_reconcile b)) 1 no_lease (in_ops s) (in_ops s')"
  using assms
proof (cases rule: apply_sync_update_cases)
  case (unreconciled c c' ap ops e)
  then show ?thesis using reconcile_moved [OF unreconciled(4)] by (simp add: put_cell_def)
next
  case (applied c ap0 ap ops s1 s2)
  have "ops_moved padd (reconcile_events (ab_reconcile b)) 1 no_lease (in_ops s) (in_ops s2)"
    using reconcile_moved [OF applied(4)] applied by simp
  from ops_moved_settled [OF this, of now] show ?thesis
    unfolding applied(13) by (simp add: reconcile_events_def)
qed (simp_all add: ops_moved_refl put_cell_def)

lemma outbox_inv_apply:
  assumes "apply_sync_update padd now tr l b s = (r, s')" and inv: "outbox_inv s"
  shows "outbox_inv s'"
proof (rule outbox_inv_moved_quiet [OF inv apply_sync_update_moved [OF assms(1)]])
  have bt: "bt_ok (in_ops s)" using inv by (simp add: outbox_inv_def bt_inner_def)
  have "bt_inner s' \<and> in_idempotency s' = in_idempotency s \<and> in_next_op s' = in_next_op s"
    using assms(1)
  proof (cases rule: apply_sync_update_cases)
    case (unreconciled c c' ap ops e)
    then show ?thesis using reconcile_loop_bt [OF unreconciled(4) bt] by (simp add: put_cell_def bt_inner_def)
  next
    case (applied c ap0 ap ops s1 s2)
    then show ?thesis using reconcile_loop_bt [OF applied(4) bt] by (simp add: bt_inner_def)
  qed (use bt in \<open>simp_all add: put_cell_def bt_inner_def\<close>)
  then show "bt_inner s'" "in_idempotency s' = in_idempotency s" "in_next_op s' = in_next_op s" by auto
qed

end
