(* ===== verification/Fencing.thy ===== *)
theory Fencing
  imports Write_Contract
begin

text \<open>
  Fencing, for anything leased by generation: scopes and outbox ops alike. A generation per key only
  grows, a lease carries the generation its claim left, and a holder is served while the two agree.
  What follows from that alone is proved here once and used for both kinds of lease.

  Generations are \<open>u64\<close> values that wrap, so the facts hold for runs whose steps, times the bumps one step
  can make, stay below \<open>2 ^ 64\<close>.
\<close>

locale fencing =
  fixes init :: 's
    and mints :: "'s \<Rightarrow> 'l list \<Rightarrow> 's \<Rightarrow> bool"
    and gen :: "'s \<Rightarrow> 'k \<Rightarrow> fence_token"
    and key :: "'l \<Rightarrow> 'k"
    and tok :: "'l \<Rightarrow> fence_token"
    and bump :: nat
  assumes gen_init: "gen init k = fence_initial"
    and gen_step: "mints s ls s' \<Longrightarrow> unat (gen s k) + bump < 2 ^ 64 \<Longrightarrow>
      unat (gen s k) + (if k \<in> key ` set ls then 1 else 0) \<le> unat (gen s' k) \<and>
      unat (gen s' k) \<le> unat (gen s k) + bump"
    and mint_tok: "mints s ls s' \<Longrightarrow> l \<in> set ls \<Longrightarrow> tok l = gen s' (key l)"
    and mint_distinct: "mints s ls s' \<Longrightarrow> distinct (map key ls)"
begin

inductive run :: "'l list list \<Rightarrow> 's \<Rightarrow> bool" where
  run_nil: "run [] init"
| run_snoc: "run h s \<Longrightarrow> mints s ls s' \<Longrightarrow> run (h @ [ls]) s'"

lemma run_gen_bound:
  "run h s \<Longrightarrow> bump * length h < 2 ^ 64 \<Longrightarrow> unat (gen s k) \<le> bump * length h"
proof (induction rule: run.induct)
  case run_nil
  then show ?case by (simp add: gen_init fence_initial_def)
next
  case (run_snoc h s ls s')
  then have "unat (gen s k) \<le> bump * length h" by simp
  with gen_step [OF run_snoc.hyps(2), of k] run_snoc.prems show ?case by simp
qed

text \<open>Every lease handed out is at most as new as its key's generation.\<close>

lemma run_tok_bound:
  "run h s \<Longrightarrow> bump * length h < 2 ^ 64 \<Longrightarrow> l \<in> set (concat h) \<Longrightarrow> unat (tok l) \<le> unat (gen s (key l))"
proof (induction arbitrary: l rule: run.induct)
  case (run_snoc h s ls s')
  have "unat (gen s (key l)) + bump < 2 ^ 64"
    using run_gen_bound [OF run_snoc.hyps(1), of "key l"] run_snoc.prems by simp
  from gen_step [OF run_snoc.hyps(2) this] have mono: "unat (gen s (key l)) \<le> unat (gen s' (key l))" by simp
  show ?case
  proof (cases "l \<in> set ls")
    case True
    then show ?thesis using mint_tok [OF run_snoc.hyps(2)] by simp
  next
    case False
    with run_snoc have "unat (tok l) \<le> unat (gen s (key l))" by auto
    with mono show ?thesis by simp
  qed
qed simp

text \<open>A later lease of a key is strictly newer, so an earlier one is never current again.\<close>

lemma run_superseded:
  assumes "run h s" and "bump * length h < 2 ^ 64"
    and "i < j" "j < length h" "l \<in> set (h ! i)" "l' \<in> set (h ! j)" "key l = key l'"
  shows "unat (tok l) < unat (tok l') \<and> tok l \<noteq> gen s (key l)"
  using assms
proof (induction arbitrary: i j rule: run.induct)
  case (run_snoc h s ls s')
  have room: "unat (gen s (key l)) + bump < 2 ^ 64"
    using run_gen_bound [OF run_snoc.hyps(1), of "key l"] run_snoc.prems by simp
  note step = gen_step [OF run_snoc.hyps(2) room]
  have i: "l \<in> set (h ! i)" "i < length h" using run_snoc.prems by (auto simp: nth_append split: if_splits)
  then have "l \<in> set (concat h)" by auto
  then have old: "unat (tok l) \<le> unat (gen s (key l))"
    using run_snoc.prems(1) by (intro run_tok_bound [OF run_snoc.hyps(1)]) auto
  show ?case
  proof (cases "j < length h")
    case True
    then have IH: "unat (tok l) < unat (tok l') \<and> tok l \<noteq> gen s (key l)"
      using run_snoc.IH run_snoc.prems i by (auto simp: nth_append)
    then have "unat (tok l) < unat (gen s (key l))"
      using old by (metis le_neq_implies_less word_unat_eq_iff)
    with step have "unat (tok l) < unat (gen s' (key l))" by simp
    with IH show ?thesis by auto
  next
    case False
    then have l': "l' \<in> set ls" using run_snoc.prems by (auto simp: nth_append)
    then have "key l \<in> key ` set ls" "tok l' = gen s' (key l)"
      using run_snoc.prems mint_tok [OF run_snoc.hyps(2)] by auto
    with step old have "unat (tok l) < unat (gen s' (key l))" "tok l' = gen s' (key l)" by simp_all
    then show ?thesis by auto
  qed
qed simp

lemma run_distinct: "run h s \<Longrightarrow> i < length h \<Longrightarrow> distinct (map key (h ! i))"
proof (induction rule: run.induct)
  case (run_snoc h s ls s')
  then show ?case using mint_distinct by (auto simp: nth_append less_Suc_eq split: if_splits)
qed simp

text \<open>A key and a token name one lease, so at most one lease of a key is current.\<close>

lemma run_unique:
  assumes "run h s" and "bump * length h < 2 ^ 64"
    and "i < length h" "j < length h" "l \<in> set (h ! i)" "l' \<in> set (h ! j)" "key l = key l'" "tok l = tok l'"
  shows "i = j \<and> l = l'"
proof -
  have "\<not> i < j" "\<not> j < i"
    using run_superseded [OF assms(1,2), of i j l l'] run_superseded [OF assms(1,2), of j i l' l] assms(3-) by auto
  then have ij: "i = j" by simp
  with run_distinct [OF assms(1,3)] assms(5-7) show ?thesis by (auto simp: distinct_map inj_on_def)
qed

lemma run_current_unique:
  assumes "run h s" and "bump * length h < 2 ^ 64"
    and "i < length h" "j < length h" "l \<in> set (h ! i)" "l' \<in> set (h ! j)" "key l = key l'"
    and "tok l = gen s (key l)" "tok l' = gen s (key l')"
  shows "i = j \<and> l = l'"
  using run_unique [OF assms(1-7)] assms(7-9) by simp

end

end
