(* ===== verification/Store_Machine.thy ===== *)
theory Store_Machine
  imports Scope_Laws Fencing
begin

text \<open>
  The store as a state machine. Each operation of the \<open>Store\<close> trait (\<open>engine-store/src/store.rs\<close>) runs
  under the store's lock from beginning to end, so what concurrent workers see is some sequence of whole
  operations: a history. The facts here hold in every history, whatever the clock reads and whichever
  leases the callers present.
\<close>

section \<open>Commands\<close>

datatype ('v, 'o, 'p) command =
    CClaimScope account_id sync_scope lease_request
  | CApply sync_lease "('o, 'p) apply_batch"
  | CSetWindow sync_lease expansion_window
  | CMaintain sync_lease derived_write
  | CRenewScope sync_lease std_duration
  | CRelease sync_lease
  | CForget sync_lease
  | CAbandon
  | CRecoverOps
  | CEnqueue account_id "'v pending_op"
  | CClaimOps account_id lease_request nat
  | CClaimOp account_id pending_op_id lease_request
  | CHandOver op_lease
  | CRenewOp op_lease std_duration
  | CMark op_lease pending_outcome
  | CCancel account_id pending_op_id
  | CRetryNow account_id pending_op_id
  | CConfirm account_id pending_op_id confirmation

datatype 'v response =
    RClaim "(store_error, sync_claim) result"
  | RApplied "(store_error, sync_applied) result"
  | RUnit "(store_error, unit) result"
  | RCount "(store_error, nat) result"
  | RId "(store_error, pending_op_id) result"
  | ROps "(store_error, 'v leased_pending_op list) result"
  | ROp "(store_error, 'v pending_op_claim) result"
  | RVerb "(store_error, op_rejection option) result"

fun exec ::
  "pdt_add \<Rightarrow> ('o, 'v) sync_object \<Rightarrow> instant \<Rightarrow> ('v, 'o, 'p) command \<Rightarrow> 'v inner \<Rightarrow> 'v response \<times> 'v inner" where
  "exec padd tr now (CClaimScope a sc req) s = apfst RClaim (claim_sync_scope padd now a sc req s)"
| "exec padd tr now (CApply l b) s = apfst RApplied (apply_sync_update padd now tr l b s)"
| "exec padd tr now (CSetWindow l w) s = apfst RUnit (set_expansion_window l w s)"
| "exec padd tr now (CMaintain l d) s = apfst RUnit (apply_maintenance l d s)"
| "exec padd tr now (CRenewScope l ttl) s = apfst RUnit (renew_scope padd now l ttl s)"
| "exec padd tr now (CRelease l) s = (RUnit (Inr ()), release_scope l s)"
| "exec padd tr now (CForget l) s = apfst RUnit (forget_scope_under l s)"
| "exec padd tr now CAbandon s = apfst RCount (abandon_sync_leases s)"
| "exec padd tr now CRecoverOps s = apfst RCount (recover_interrupted padd now s)"
| "exec padd tr now (CEnqueue a op) s = apfst RId (enqueue_pending_op a op s)"
| "exec padd tr now (CClaimOps a req limit) s = apfst ROps (claim_ops padd now a req limit s)"
| "exec padd tr now (CClaimOp a i req) s = apfst ROp (claim_one padd now a i req s)"
| "exec padd tr now (CHandOver l) s = apfst RUnit (hand_over l s)"
| "exec padd tr now (CRenewOp l ttl) s = apfst RUnit (renew padd now l ttl s)"
| "exec padd tr now (CMark l out) s = apfst RUnit (mark padd now l out s)"
| "exec padd tr now (CCancel a i) s = apfst RVerb (cancel padd now a i s)"
| "exec padd tr now (CRetryNow a i) s = apfst RVerb (retry_now padd now a i s)"
| "exec padd tr now (CConfirm a i answer) s = apfst RVerb (confirm padd now a i answer s)"

text \<open>The leases a response hands out.\<close>

fun minted_sync :: "'v response \<Rightarrow> sync_lease list" where
  "minted_sync (RClaim (Inr c)) = [cl_lease c]"
| "minted_sync _ = []"

fun minted_ops :: "'v response \<Rightarrow> op_lease list" where
  "minted_ops (ROps r) = map lo_lease (minted_by_claim r)"
| "minted_ops (ROp r) = map lo_lease (minted_by_claim_one r)"
| "minted_ops _ = []"

type_synonym ('v, 'o, 'p) history = "(('v, 'o, 'p) command \<times> 'v response) list"

inductive history ::
  "pdt_add \<Rightarrow> ('o, 'v) sync_object \<Rightarrow> ('v, 'o, 'p) history \<Rightarrow> 'v inner \<Rightarrow> bool" for padd tr where
  start: "history padd tr [] inner_new"
| step: "history padd tr h s \<Longrightarrow> exec padd tr now cmd s = (resp, s') \<Longrightarrow>
    history padd tr (h @ [(cmd, resp)]) s'"

inductive_cases history_snocE: "history padd tr (h @ [x]) s"

section \<open>What a command does to each op\<close>

text \<open>The events a command and its response admit on op \<open>i\<close>.\<close>

fun op_events :: "('v, 'o, 'p) command \<times> 'v response \<Rightarrow> pending_op_id \<Rightarrow> op_event set" where
  "op_events (CApply l b, _) i = reconcile_events (ab_reconcile b) i"
| "op_events (CRecoverOps, _) i = {EvRecover, EvStamp}"
| "op_events (CClaimOps _ _ _, _) i = {EvRecover, EvStamp, EvLease}"
| "op_events (CClaimOp _ _ _, _) i = {EvRecover, EvStamp, EvLease}"
| "op_events (CHandOver l, _) i = only (ol_op l) {EvHandOver (ol_token l)} i"
| "op_events (CRenewOp l _, _) i = only (ol_op l) {EvRenew (ol_token l)} i"
| "op_events (CMark l out, RUnit (Inr _)) i = only (ol_op l) {EvMark (ol_token l) out} i"
| "op_events (CCancel _ j, _) i = only j {EvRecover, EvCancel} i"
| "op_events (CRetryNow _ j, _) i = only j {EvRecover, EvHurry} i"
| "op_events (CConfirm _ j answer, RVerb (Inr None)) i = only j {EvRecover, EvConfirm answer} i"
| "op_events (CConfirm _ j _, _) i = only j {EvRecover} i"
| "op_events _ i = {EvStamp}"

definition op_leased :: "'v response \<Rightarrow> pending_op_id \<Rightarrow> nat" where
  "op_leased resp i = (if i \<in> ol_op ` set (minted_ops resp) then 1 else 0)"

lemma lo_lease_op:
  assumes "claim_round account req now expiry ids taken ops ls ops'" and "l \<in> set ls"
  shows "ol_op (lo_lease l) = lo_id l"
proof -
  have "\<forall>l \<in> set ls. \<exists>c. hm_get ops (lo_id l) = Some c \<and> runnable ops account now c \<and>
      l = fst (lease_op c (lo_id l) req expiry)"
    using assms(1) unfolding claim_round_def by (elim conjE)
  from bspec [OF this assms(2)] obtain c where c: "l = fst (lease_op c (lo_id l) req expiry)"
    by (elim exE conjE)
  show ?thesis using lease_op_simps(4) [of c "lo_id l" req expiry] unfolding c [symmetric] .
qed

lemma leased_ids_lease:
  assumes "\<forall>l \<in> set ls. ol_op (lo_lease l) = lo_id l"
  shows "leased_ids ls i = (if i \<in> ol_op ` set (map lo_lease ls) then 1 else 0)"
    "map ol_op (map lo_lease ls) = map lo_id ls"
proof -
  show ids: "map ol_op (map lo_lease ls) = map lo_id ls" using assms by simp
  have "ol_op ` set (map lo_lease ls) = lo_id ` set ls"
    using arg_cong [OF ids, of set] by (simp add: image_image)
  then show "leased_ids ls i = (if i \<in> ol_op ` set (map lo_lease ls) then 1 else 0)"
    by (simp only: leased_ids_def)
qed

lemma claim_round_distinct: "claim_round account req now expiry ids taken ops ls ops' \<Longrightarrow> distinct (map lo_id ls)"
  unfolding claim_round_def by (elim conjE)

lemma claim_ops_ids:
  assumes "claim_ops padd now account req limit s = (r, s')" and "bt_inner s"
  shows "\<forall>l \<in> set (minted_by_claim r). ol_op (lo_lease l) = lo_id l" (is ?all)
    "distinct (map lo_id (minted_by_claim r))" (is ?dist)
proof -
  have "?all \<and> ?dist"
    using assms
  proof (cases rule: claim_ops_cases)
    case (claimed expiry ls ops')
    then show ?thesis using lo_lease_op [OF claimed(5)] claim_round_distinct [OF claimed(5)] by simp
  qed simp_all
  then show ?all ?dist by simp_all
qed

lemma claim_one_ids:
  assumes "claim_one padd now account i req s = (r, s')" and "bt_inner s"
  shows "\<forall>l \<in> set (minted_by_claim_one r). ol_op (lo_lease l) = lo_id l" (is ?all)
    "distinct (map lo_id (minted_by_claim_one r))" (is ?dist)
proof -
  have "?all \<and> ?dist"
    using assms
  proof (cases rule: claim_one_cases)
    case (claimed expiry l ops')
    then show ?thesis using lo_lease_op [OF claimed(6)] by simp
  qed simp_all
  then show ?all ?dist by simp_all
qed

lemma claim_leased:
  "claim_ops padd now account req limit s = (r, s') \<Longrightarrow> bt_inner s \<Longrightarrow>
     leased_ids (minted_by_claim r) = op_leased (ROps r)"
  "claim_one padd now account i req s = (r1, s') \<Longrightarrow> bt_inner s \<Longrightarrow>
     leased_ids (minted_by_claim_one r1) = op_leased (ROp r1)"
  by (rule ext, simp only: op_leased_def minted_ops.simps, erule leased_ids_lease(1) [OF claim_ops_ids(1)], assumption)
    (rule ext, simp only: op_leased_def minted_ops.simps, erule leased_ids_lease(1) [OF claim_one_ids(1)], assumption)

lemma op_leased_none: "minted_ops resp = [] \<Longrightarrow> op_leased resp = no_lease"
  by (simp add: op_leased_def no_lease_def fun_eq_iff)

lemma mark_refused:
  assumes "mark padd now l out s = (Inl e, s')"
  shows "ops_moved padd (\<lambda>_. {EvStamp}) 0 no_lease (in_ops s) (in_ops s')"
  using assms
proof (cases rule: mark_cases)
  case (failed c e')
  then show ?thesis using ops_moved_insert [OF failed(4), of padd "[]"] by (simp add: lease_count_def)
qed (simp_all add: ops_moved_refl)

lemma cell_confirm_refused: "fst (cell_confirm answer c) \<noteq> None \<Longrightarrow> snd (cell_confirm answer c) = c"
  by (auto simp: cell_confirm_def split: confirmation.splits)

lemma confirm_refused:
  assumes "confirm padd now account i answer s = (r, s')" and "r \<noteq> Inr None"
  shows "ops_moved padd (only i {EvRecover}) 2 no_lease (in_ops s) (in_ops s')"
proof -
  have "host_verb padd now account i (\<lambda>c. (fst (cell_confirm answer c),
      if fst (cell_confirm answer c) = None then c else snd (cell_confirm answer c))) s = (r, s')"
    using assms by (auto simp: confirm_def host_verb_def split: option.splits if_splits sum.splits prod.splits)
  then have "ops_moved padd (only i {EvRecover, EvRecover}) 2 no_lease (in_ops s) (in_ops s')"
    by (rule host_verb_moved) (auto simp: cell_confirm_refused split: if_splits)
  then show ?thesis by simp
qed

lemma scope_ops_keep:
  "claim_sync_scope padd now a sc req s = (rc, s') \<Longrightarrow> in_ops s' = in_ops s"
  "set_expansion_window l w s = (ru, s') \<Longrightarrow> in_ops s' = in_ops s"
  "apply_maintenance l d s = (ru, s') \<Longrightarrow> in_ops s' = in_ops s"
  "renew_scope padd now l ttl s = (ru, s') \<Longrightarrow> in_ops s' = in_ops s"
  "forget_scope_under l s = (ru, s') \<Longrightarrow> in_ops s' = in_ops s"
  "abandon_sync_leases s = (rn, s') \<Longrightarrow> in_ops s' = in_ops s"
  by (auto simp: claim_sync_scope_def set_expansion_window_def apply_maintenance_def renew_scope_def
      forget_scope_under_def abandon_sync_leases_def put_cell_def Let_def
      split: option.splits sum.splits if_splits)

lemma release_keep [simp]: "in_ops (release_scope l s) = in_ops s"
  by (simp add: release_scope_def put_cell_def split: option.splits)

text \<open>
  A command that is not an enqueue moves each op along a path of its events, bumping its token at most
  twice and leasing it exactly when the response hands out its lease.
\<close>

lemma exec_moved:
  assumes ex: "exec padd tr now cmd s = (resp, s')" and bt: "bt_inner s"
    and cmd: "\<And>a op. cmd \<noteq> CEnqueue a op"
  shows "ops_moved padd (op_events (cmd, resp)) 2 (op_leased resp) (in_ops s) (in_ops s')"
proof -
  have quiet: "ops_moved padd (op_events (cmd, resp)) 2 (op_leased resp) (in_ops s) (in_ops s')"
    if "ops_moved padd E n no_lease (in_ops s) (in_ops s')" "\<And>i. E i \<subseteq> op_events (cmd, resp) i" "n \<le> 2"
      "minted_ops resp = []" for E n
    using ops_moved_mono [OF that(1-3)] op_leased_none [OF that(4)] by simp
  show ?thesis
  proof (cases cmd)
    case (CApply l b)
    with ex obtain r where r: "apply_sync_update padd now tr l b s = (r, s')" "resp = RApplied r"
      by (auto simp: apfst_def map_prod_def split: prod.splits)
    show ?thesis by (rule quiet [OF apply_sync_update_moved [OF r(1)]]) (use CApply r in auto)
  next
    case CRecoverOps
    with ex obtain r where r: "recover_interrupted padd now s = (r, s')" "resp = RCount r"
      by (auto simp: apfst_def map_prod_def split: prod.splits)
    show ?thesis by (rule quiet [OF recover_interrupted_moved [OF r(1) bt]]) (use CRecoverOps r in auto)
  next
    case (CClaimOps a req limit)
    with ex obtain r where r: "claim_ops padd now a req limit s = (r, s')" "resp = ROps r"
      by (auto simp: apfst_def map_prod_def split: prod.splits)
    have "op_events (cmd, resp) = (\<lambda>_. {EvRecover, EvStamp, EvLease})" using CClaimOps by (simp add: fun_eq_iff)
    then show ?thesis
      using claim_ops_moved [OF r(1) bt] claim_leased(1) [OF r(1) bt] r(2) by simp
  next
    case (CClaimOp a i req)
    with ex obtain r where r: "claim_one padd now a i req s = (r, s')" "resp = ROp r"
      by (auto simp: apfst_def map_prod_def split: prod.splits)
    have "op_events (cmd, resp) = (\<lambda>_. {EvRecover, EvStamp, EvLease})" using CClaimOp by (simp add: fun_eq_iff)
    then show ?thesis
      using claim_one_moved [OF r(1) bt] claim_leased(2) [OF r(1) bt] r(2) by simp
  next
    case (CHandOver l)
    with ex obtain r where r: "hand_over l s = (r, s')" "resp = RUnit r"
      by (auto simp: apfst_def map_prod_def split: prod.splits)
    show ?thesis by (rule quiet [OF hand_over_moved [OF r(1)]]) (use CHandOver r in auto)
  next
    case (CRenewOp l ttl)
    with ex obtain r where r: "renew padd now l ttl s = (r, s')" "resp = RUnit r"
      by (auto simp: apfst_def map_prod_def split: prod.splits)
    show ?thesis by (rule quiet [OF renew_moved [OF r(1)]]) (use CRenewOp r in auto)
  next
    case (CMark l out)
    with ex obtain r where r: "mark padd now l out s = (r, s')" "resp = RUnit r"
      by (auto simp: apfst_def map_prod_def split: prod.splits)
    show ?thesis
    proof (cases r)
      case (Inl e)
      then show ?thesis using quiet [OF mark_refused [OF r(1) [unfolded Inl]]] CMark r by simp
    next
      case (Inr u)
      then show ?thesis using quiet [OF mark_moved [OF r(1)]] CMark r by simp
    qed
  next
    case (CCancel a i)
    with ex obtain r where r: "cancel padd now a i s = (r, s')" "resp = RVerb r"
      by (auto simp: apfst_def map_prod_def split: prod.splits)
    show ?thesis by (rule quiet [OF cancel_moved [OF r(1)]]) (use CCancel r in auto)
  next
    case (CRetryNow a i)
    with ex obtain r where r: "retry_now padd now a i s = (r, s')" "resp = RVerb r"
      by (auto simp: apfst_def map_prod_def split: prod.splits)
    show ?thesis by (rule quiet [OF retry_now_moved [OF r(1)]]) (use CRetryNow r in auto)
  next
    case (CConfirm a i answer)
    with ex obtain r where r: "confirm padd now a i answer s = (r, s')" "resp = RVerb r"
      by (auto simp: apfst_def map_prod_def split: prod.splits)
    show ?thesis
    proof (cases "r = Inr None")
      case True
      then show ?thesis using quiet [OF confirm_moved [OF r(1)]] CConfirm r by simp
    next
      case False
      then have "op_events (cmd, resp) j = only i {EvRecover} j" for j
        using CConfirm r by (cases r; simp; metis option.exhaust op_events.simps)
      then show ?thesis using quiet [OF confirm_refused [OF r(1) False]] r(2) by simp
    qed
  qed (use ex cmd in \<open>auto simp: apfst_def map_prod_def scope_ops_keep ops_moved_refl op_leased_none
      split: prod.splits\<close>)
qed

section \<open>Scope leases are fenced\<close>

lemma outbox_ops_scopes:
  "recover_interrupted padd now s = (rn, s') \<Longrightarrow> scope_scalars (in_scopes s') = scope_scalars (in_scopes s)"
  "hand_over l s = (ru, s') \<Longrightarrow> scope_scalars (in_scopes s') = scope_scalars (in_scopes s)"
  "renew padd now l ttl s = (ru, s') \<Longrightarrow> scope_scalars (in_scopes s') = scope_scalars (in_scopes s)"
  by (auto simp: recover_interrupted_def hand_over_def renew_def
      split: option.splits sum.splits prod.splits if_splits)

lemma mark_scopes:
  "mark padd now l out s = (ru, s') \<Longrightarrow> scope_scalars (in_scopes s') = scope_scalars (in_scopes s)"
  by (auto simp: mark_def Let_def split: option.splits sum.splits prod.splits if_splits)

lemma enqueue_scopes:
  "enqueue_pending_op a op s = (ri, s') \<Longrightarrow> scope_scalars (in_scopes s') = scope_scalars (in_scopes s)"
  by (auto simp: enqueue_pending_op_def Let_def split: option.splits)

lemma host_verb_scopes:
  assumes "host_verb padd now account i act s = (r, s')"
  shows "scope_scalars (in_scopes s') = scope_scalars (in_scopes s)"
proof -
  have "s' = s \<or> (\<exists>c. s' = s\<lparr>in_ops := bt_insert i c (in_ops s)\<rparr>) \<or>
      (\<exists>c. s' = settle_keyword_edits now (s\<lparr>in_ops := bt_insert i c (in_ops s)\<rparr>))"
    using assms unfolding host_verb_def
    by (simp split: option.splits if_splits sum.splits prod.splits) blast+
  then show ?thesis by auto
qed

lemma claims_scopes:
  "claim_ops padd now a req limit s = (r, s') \<Longrightarrow> scope_scalars (in_scopes s') = scope_scalars (in_scopes s)"
  "claim_one padd now a i req s = (r1, s') \<Longrightarrow> scope_scalars (in_scopes s') = scope_scalars (in_scopes s)"
  by (auto simp: claim_ops_def claim_one_def Let_def split: option.splits sum.splits prod.splits if_splits)

lemma exec_scope_gen:
  assumes ex: "exec padd tr now cmd s = (resp, s')"
  shows "(\<forall>l \<in> set (minted_sync resp). sy_token l = scope_gen (in_scopes s') (sy_scope l) \<and>
      sy_token l = fence_bump (scope_gen (in_scopes s) (sy_scope l))) \<and>
    (\<forall>k. scope_gen (in_scopes s') k = scope_gen (in_scopes s) k \<or>
      scope_gen (in_scopes s') k = fence_bump (scope_gen (in_scopes s) k)) \<and>
    length (minted_sync resp) \<le> 1"
proof -
  have quiet: ?thesis if "scope_gen (in_scopes s') = scope_gen (in_scopes s)" "minted_sync resp = []"
    using that by simp
  have calm: ?thesis if "scope_scalars (in_scopes s') = scope_scalars (in_scopes s)" "minted_sync resp = []"
    using quiet scope_scalars_gen that by blast
  show ?thesis
  proof (cases cmd)
    case (CClaimScope a sc req)
    with ex obtain r where r: "claim_sync_scope padd now a sc req s = (r, s')" "resp = RClaim r"
      by (auto simp: apfst_def map_prod_def split: prod.splits)
    from claim_sync_scope_gen [OF r(1)] r(2) show ?thesis by (elim disjE exE conjE) auto
  next
    case CAbandon
    with ex obtain r where r: "abandon_sync_leases s = (r, s')" "resp = RCount r"
      by (auto simp: apfst_def map_prod_def split: prod.splits)
    with abandon_gen [OF r(1)] show ?thesis by auto
  next
    case (CApply l b)
    with ex obtain r where r: "apply_sync_update padd now tr l b s = (r, s')" "resp = RApplied r"
      by (auto simp: apfst_def map_prod_def split: prod.splits)
    from quiet [OF apply_sync_update_gen [OF r(1)]] r(2) show ?thesis by simp
  next
    case (CCancel a i)
    with ex show ?thesis
      by (intro calm) (auto simp: apfst_def map_prod_def cancel_def host_verb_scopes split: prod.splits)
  next
    case (CRetryNow a i)
    with ex show ?thesis
      by (intro calm) (auto simp: apfst_def map_prod_def retry_now_def host_verb_scopes split: prod.splits)
  next
    case (CConfirm a i answer)
    with ex show ?thesis
      by (intro calm) (auto simp: apfst_def map_prod_def confirm_def host_verb_scopes split: prod.splits)
  next
    case (CClaimOps a req limit)
    with ex show ?thesis
      by (intro calm) (auto simp: apfst_def map_prod_def claims_scopes split: prod.splits)
  next
    case (CClaimOp a i req)
    with ex show ?thesis
      by (intro calm) (auto simp: apfst_def map_prod_def claims_scopes split: prod.splits)
  next
    case (CMark l out)
    with ex show ?thesis
      by (intro calm) (auto simp: apfst_def map_prod_def mark_scopes split: prod.splits)
  next
    case (CEnqueue a op)
    with ex show ?thesis
      by (intro calm) (auto simp: apfst_def map_prod_def enqueue_scopes split: prod.splits)
  next
    case (CRelease l)
    with ex show ?thesis by (intro quiet) (auto simp: release_gen)
  next
    case CRecoverOps
    with ex show ?thesis
      by (intro calm) (auto simp: apfst_def map_prod_def outbox_ops_scopes split: prod.splits)
  next
    case (CHandOver l)
    with ex show ?thesis
      by (intro calm) (auto simp: apfst_def map_prod_def outbox_ops_scopes split: prod.splits)
  next
    case (CRenewOp l ttl)
    with ex show ?thesis
      by (intro calm) (auto simp: apfst_def map_prod_def outbox_ops_scopes split: prod.splits)
  next
    case (CSetWindow l w)
    with ex show ?thesis
      by (intro quiet) (auto simp: apfst_def map_prod_def lease_ops_gen split: prod.splits)
  next
    case (CMaintain l d)
    with ex show ?thesis
      by (intro quiet) (auto simp: apfst_def map_prod_def lease_ops_gen split: prod.splits)
  next
    case (CRenewScope l ttl)
    with ex show ?thesis
      by (intro quiet) (auto simp: apfst_def map_prod_def renew_scope_gen split: prod.splits)
  next
    case (CForget l)
    with ex show ?thesis
      by (intro quiet) (auto simp: apfst_def map_prod_def lease_ops_gen split: prod.splits)
  qed
qed

definition scope_mints ::
  "'p itself \<Rightarrow> pdt_add \<Rightarrow> ('o, 'v) sync_object \<Rightarrow> 'v inner \<Rightarrow> sync_lease list \<Rightarrow> 'v inner \<Rightarrow> bool" where
  "scope_mints T padd tr s ls s' \<longleftrightarrow>
     (\<exists>now (cmd :: ('v, 'o, 'p) command) resp. exec padd tr now cmd s = (resp, s') \<and> ls = minted_sync resp)"

lemma scope_mints_gen:
  assumes "scope_mints T padd tr s ls s'"
  shows "\<forall>l \<in> set ls. sy_token l = scope_gen (in_scopes s') (sy_scope l)"
    "k \<in> sy_scope ` set ls \<Longrightarrow> scope_gen (in_scopes s') k = fence_bump (scope_gen (in_scopes s) k)"
    "scope_gen (in_scopes s') k = scope_gen (in_scopes s) k \<or>
       scope_gen (in_scopes s') k = fence_bump (scope_gen (in_scopes s) k)"
    "distinct (map sy_scope ls)"
proof -
  have "(\<forall>l \<in> set ls. sy_token l = scope_gen (in_scopes s') (sy_scope l) \<and>
      sy_token l = fence_bump (scope_gen (in_scopes s) (sy_scope l))) \<and>
    (\<forall>k. scope_gen (in_scopes s') k = scope_gen (in_scopes s) k \<or>
      scope_gen (in_scopes s') k = fence_bump (scope_gen (in_scopes s) k)) \<and> length ls \<le> 1"
    using assms exec_scope_gen unfolding scope_mints_def by blast
  then show "\<forall>l \<in> set ls. sy_token l = scope_gen (in_scopes s') (sy_scope l)"
    "k \<in> sy_scope ` set ls \<Longrightarrow> scope_gen (in_scopes s') k = fence_bump (scope_gen (in_scopes s) k)"
    "scope_gen (in_scopes s') k = scope_gen (in_scopes s) k \<or>
       scope_gen (in_scopes s') k = fence_bump (scope_gen (in_scopes s) k)"
    "distinct (map sy_scope ls)"
    by (auto simp: le_Suc_eq length_Suc_conv)
qed

interpretation scope_lease: fencing inner_new "scope_mints T padd tr" "\<lambda>s. scope_gen (in_scopes s)"
  sy_scope sy_token 1 for T padd tr
proof unfold_locales
  show "scope_gen (in_scopes inner_new) k = fence_initial" for k
    by (simp add: scope_gen_def inner_new_def)
next
  fix s ls s' k
  assume m: "scope_mints T padd tr s ls s'" and room: "unat (scope_gen (in_scopes s) k) + 1 < 2 ^ 64"
  have "unat (fence_bump (scope_gen (in_scopes s) k)) = Suc (unat (scope_gen (in_scopes s) k))"
    using room by (intro fence_bump_unat) simp
  then show "unat (scope_gen (in_scopes s) k) + (if k \<in> sy_scope ` set ls then 1 else 0)
      \<le> unat (scope_gen (in_scopes s') k) \<and> unat (scope_gen (in_scopes s') k) \<le> unat (scope_gen (in_scopes s) k) + 1"
    using scope_mints_gen(2,3) [OF m, of k] by auto
qed (auto dest: scope_mints_gen)

lemma history_scope_run:
  fixes h :: "('v, 'o, 'p) history"
  shows "history padd tr h s \<Longrightarrow> fencing.run inner_new (scope_mints TYPE('p) padd tr)
    (map (\<lambda>x. minted_sync (snd x)) h) s"
proof (induction rule: history.induct)
  case start
  then show ?case using scope_lease.run_nil by simp
next
  case (step h s now cmd resp s')
  then have "scope_mints TYPE('p) padd tr s (minted_sync resp) s'" unfolding scope_mints_def by blast
  from scope_lease.run_snoc [OF step.IH this] show ?case by simp
qed

end
