(* ===== verification/Store_History.thy ===== *)
theory Store_History
  imports Store_Machine
begin

text \<open>
  Facts about every history of the store: the outbox invariant, the fencing of op leases, that a
  handed-over send is not sent again by itself, and that the attempts of any other write are bounded.
\<close>

section \<open>The outbox invariant holds in every history\<close>

lemma outbox_inv_scopes [simp]: "outbox_inv (s\<lparr>in_scopes := x\<rparr>) = outbox_inv s"
  by (simp add: outbox_inv_def bt_inner_def)

lemma scope_ops_write_scopes:
  "claim_sync_scope padd now a sc req s = (rc, s') \<Longrightarrow> \<exists>x. s' = s\<lparr>in_scopes := x\<rparr>"
  "set_expansion_window l w s = (ru, s') \<Longrightarrow> \<exists>x. s' = s\<lparr>in_scopes := x\<rparr>"
  "apply_maintenance l d s = (ru, s') \<Longrightarrow> \<exists>x. s' = s\<lparr>in_scopes := x\<rparr>"
  "renew_scope padd now l ttl s = (ru, s') \<Longrightarrow> \<exists>x. s' = s\<lparr>in_scopes := x\<rparr>"
  "forget_scope_under l s = (ru, s') \<Longrightarrow> \<exists>x. s' = s\<lparr>in_scopes := x\<rparr>"
  "abandon_sync_leases s = (rn, s') \<Longrightarrow> \<exists>x. s' = s\<lparr>in_scopes := x\<rparr>"
proof -
  have same: "\<exists>x. s = s\<lparr>in_scopes := x\<rparr>" by (rule exI [of _ "in_scopes s"]) simp
  show "claim_sync_scope padd now a sc req s = (rc, s') \<Longrightarrow> \<exists>x. s' = s\<lparr>in_scopes := x\<rparr>"
    "set_expansion_window l w s = (ru, s') \<Longrightarrow> \<exists>x. s' = s\<lparr>in_scopes := x\<rparr>"
    "apply_maintenance l d s = (ru, s') \<Longrightarrow> \<exists>x. s' = s\<lparr>in_scopes := x\<rparr>"
    "renew_scope padd now l ttl s = (ru, s') \<Longrightarrow> \<exists>x. s' = s\<lparr>in_scopes := x\<rparr>"
    "forget_scope_under l s = (ru, s') \<Longrightarrow> \<exists>x. s' = s\<lparr>in_scopes := x\<rparr>"
    "abandon_sync_leases s = (rn, s') \<Longrightarrow> \<exists>x. s' = s\<lparr>in_scopes := x\<rparr>"
    using same
    by (auto simp: claim_sync_scope_def set_expansion_window_def apply_maintenance_def renew_scope_def
        forget_scope_under_def abandon_sync_leases_def put_cell_def Let_def
        split: option.splits sum.splits if_splits)
qed

lemma release_writes_scopes: "\<exists>x. release_scope l s = s\<lparr>in_scopes := x\<rparr>"
proof -
  have same: "\<exists>x. s = s\<lparr>in_scopes := x\<rparr>" by (rule exI [of _ "in_scopes s"]) simp
  then show ?thesis by (auto simp: release_scope_def put_cell_def split: option.splits)
qed

text \<open>The commands of the sync side other than an apply leave the outbox alone.\<close>

fun scope_command :: "('v, 'o, 'p) command \<Rightarrow> bool" where
  "scope_command (CClaimScope _ _ _) = True"
| "scope_command (CSetWindow _ _) = True"
| "scope_command (CMaintain _ _) = True"
| "scope_command (CRenewScope _ _) = True"
| "scope_command (CRelease _) = True"
| "scope_command (CForget _) = True"
| "scope_command CAbandon = True"
| "scope_command _ = False"

lemma exec_scope_command:
  assumes "exec padd tr now cmd s = (resp, s')" and "scope_command cmd"
  shows "\<exists>x. s' = s\<lparr>in_scopes := x\<rparr>"
  using assms scope_ops_write_scopes [where s = s and s' = s'] release_writes_scopes [of _ s]
  by (cases cmd) (auto simp: apfst_def map_prod_def split: prod.splits)

lemma exec_outbox_inv:
  assumes ex: "exec padd tr now cmd s = (resp, s')" and inv: "outbox_inv s"
    and room: "unat (in_next_op s) < 2 ^ 64 - 1"
  shows "outbox_inv s'"
proof (cases "scope_command cmd")
  case True
  with exec_scope_command [OF ex] inv show ?thesis by auto
next
  case False
  then show ?thesis
    using ex
    by (cases cmd)
      (auto simp: apfst_def map_prod_def split: prod.splits
        intro: outbox_inv_apply [OF _ inv] outbox_inv_recover_interrupted [OF _ inv]
          outbox_inv_claim_ops [OF _ inv] outbox_inv_claim_one [OF _ inv] outbox_inv_hand_over [OF _ inv]
          outbox_inv_renew [OF _ inv] outbox_inv_mark [OF _ inv] outbox_inv_verbs [OF inv]
          outbox_inv_enqueue [OF _ inv room])
qed

lemma outbox_ops_next:
  "recover_interrupted padd now s = (rn, s') \<Longrightarrow> in_next_op s' = in_next_op s"
  "hand_over l s = (ru, s') \<Longrightarrow> in_next_op s' = in_next_op s"
  "renew padd now l ttl s = (ru, s') \<Longrightarrow> in_next_op s' = in_next_op s"
  "mark padd now l out s = (ru, s') \<Longrightarrow> in_next_op s' = in_next_op s"
  "claim_ops padd now a req limit s = (r, s') \<Longrightarrow> in_next_op s' = in_next_op s"
  "claim_one padd now a i req s = (r1, s') \<Longrightarrow> in_next_op s' = in_next_op s"
  by (auto simp: recover_interrupted_def hand_over_def renew_def mark_def claim_ops_def claim_one_def Let_def
      split: option.splits sum.splits prod.splits if_splits)

lemma host_verb_next:
  assumes "host_verb padd now account i act s = (r, s')"
  shows "in_next_op s' = in_next_op s"
proof -
  have "s' = s \<or> (\<exists>c. s' = s\<lparr>in_ops := bt_insert i c (in_ops s)\<rparr>) \<or>
      (\<exists>c. s' = settle_keyword_edits now (s\<lparr>in_ops := bt_insert i c (in_ops s)\<rparr>))"
    using assms unfolding host_verb_def
    by (simp split: option.splits if_splits sum.splits prod.splits) blast+
  then show ?thesis by auto
qed

lemma apply_next:
  "apply_sync_update padd now tr l b s = (r, s') \<Longrightarrow> in_next_op s' = in_next_op s"
  by (elim apply_sync_update_cases) (auto simp: put_cell_def)

lemma enqueue_next:
  "enqueue_pending_op a op s = (r, s') \<Longrightarrow> in_next_op s' = in_next_op s \<or> in_next_op s' = in_next_op s + 1"
  by (auto simp: enqueue_pending_op_def Let_def split: option.splits)

lemma exec_next_op:
  assumes ex: "exec padd tr now cmd s = (resp, s')"
  shows "in_next_op s' = in_next_op s \<or> in_next_op s' = in_next_op s + 1"
proof (cases "scope_command cmd")
  case True
  with exec_scope_command [OF ex] show ?thesis by auto
next
  case False
  then show ?thesis
    using ex
    by (cases cmd)
      (auto simp: apfst_def map_prod_def cancel_def retry_now_def confirm_def split: prod.splits
        dest: enqueue_next outbox_ops_next apply_next host_verb_next)
qed

lemma history_outbox:
  "history padd tr h s \<Longrightarrow> length h < 2 ^ 64 - 1 \<Longrightarrow> outbox_inv s \<and> unat (in_next_op s) \<le> length h"
proof (induction rule: history.induct)
  case start
  then show ?case using outbox_inv_new by (simp add: inner_new_def)
next
  case (step h s now cmd resp s')
  then have IH: "outbox_inv s" "unat (in_next_op s) \<le> length h" by auto
  then have room: "unat (in_next_op s) < 2 ^ 64 - 1" using step.prems by simp
  have "unat (in_next_op s + 1) = Suc (unat (in_next_op s))"
    using fence_bump_unat [OF room] by (simp add: fence_bump_def)
  with exec_next_op [OF step.hyps(2)] IH(2) have "unat (in_next_op s') \<le> Suc (length h)" by auto
  with exec_outbox_inv [OF step.hyps(2) IH(1) room] show ?case by simp
qed

section \<open>Op leases are fenced\<close>

definition op_gen :: "'v inner \<Rightarrow> pending_op_id \<Rightarrow> fence_token" where
  "op_gen s i = (case hm_get (in_ops s) i of None \<Rightarrow> fence_initial | Some c \<Rightarrow> oc_token c)"

lemma claim_round_minted:
  assumes "claim_round account req now expiry ids taken ops ls ops'" and "l \<in> set ls"
  shows "\<exists>c. hm_get ops (lo_id l) = Some c \<and> oc_state c = Pending \<and>
    hm_get ops' (lo_id l) = Some (cell_lease expiry c) \<and> ol_token (lo_lease l) = fence_bump (oc_token c)"
proof -
  have leased: "\<forall>l \<in> set ls. \<exists>c. hm_get ops (lo_id l) = Some c \<and> runnable ops account now c \<and>
      l = fst (lease_op c (lo_id l) req expiry)"
    using assms(1) unfolding claim_round_def by (elim conjE)
  have get: "hm_get ops' i = (if i \<in> lo_id ` set ls then map_option (cell_lease expiry) (hm_get ops i)
      else hm_get ops i)" for i
    using assms(1) unfolding claim_round_def by (elim conjE) (erule allE)
  from bspec [OF leased assms(2)] obtain c where c: "hm_get ops (lo_id l) = Some c"
    "runnable ops account now c" "l = fst (lease_op c (lo_id l) req expiry)" by (elim exE conjE)
  have "ol_token (lo_lease l) = fence_bump (oc_token c)"
    using lease_op_simps(6) [of c "lo_id l" req expiry] unfolding c(3) [symmetric] .
  with c(1,2) get [of "lo_id l"] assms(2) show ?thesis by (simp add: runnable_def)
qed

lemma round_minted:
  assumes "claim_round account req now expiry ids taken ops ls ops'" and "l \<in> set (map lo_lease ls)"
  shows "\<exists>c. hm_get ops' (ol_op l) = Some c \<and> oc_token c = ol_token l \<and> oc_state c = InFlight"
proof -
  from assms(2) obtain lo where lo: "lo \<in> set ls" "l = lo_lease lo" by auto
  with claim_round_minted [OF assms(1) lo(1)] lo_lease_op [OF assms(1) lo(1)] show ?thesis
    by (auto simp: cell_lease_def)
qed

lemma exec_minted:
  assumes ex: "exec padd tr now cmd s = (resp, s')" and bt: "bt_inner s" and l: "l \<in> set (minted_ops resp)"
  shows "\<exists>c. hm_get (in_ops s') (ol_op l) = Some c \<and> oc_token c = ol_token l \<and> oc_state c = InFlight"
proof -
  show ?thesis
  proof (cases cmd)
    case (CClaimOps a req limit)
    with ex obtain r where r: "claim_ops padd now a req limit s = (r, s')" "resp = ROps r"
      by (auto simp: apfst_def map_prod_def split: prod.splits)
    from r(1) bt show ?thesis
    proof (cases rule: claim_ops_cases)
      case (claimed expiry ls ops')
      then have "l \<in> set (map lo_lease ls)" using l r(2) by simp
      from round_minted [OF claimed(5) this] claimed(4) show ?thesis by simp
    qed (use l r(2) in simp_all)
  next
    case (CClaimOp a i req)
    with ex obtain r where r: "claim_one padd now a i req s = (r, s')" "resp = ROp r"
      by (auto simp: apfst_def map_prod_def split: prod.splits)
    from r(1) bt show ?thesis
    proof (cases rule: claim_one_cases)
      case (claimed expiry lo ops')
      then have "l \<in> set (map lo_lease [lo])" using l r(2) by simp
      from round_minted [OF claimed(6) this] claimed(4) show ?thesis by simp
    qed (use l r(2) in simp_all)
  qed (use ex l in \<open>auto simp: apfst_def map_prod_def split: prod.splits\<close>)
qed

definition op_mints ::
  "'p itself \<Rightarrow> pdt_add \<Rightarrow> ('o, 'v) sync_object \<Rightarrow> 'v inner \<Rightarrow> op_lease list \<Rightarrow> 'v inner \<Rightarrow> bool" where
  "op_mints T padd tr s ls s' \<longleftrightarrow> outbox_inv s \<and> unat (in_next_op s) < 2 ^ 64 - 1 \<and>
     (\<exists>now (cmd :: ('v, 'o, 'p) command) resp. exec padd tr now cmd s = (resp, s') \<and> ls = minted_ops resp)"

lemma minted_ids_distinct:
  assumes ex: "exec padd tr now cmd s = (resp, s')" and bt: "bt_inner s"
  shows "distinct (map ol_op (minted_ops resp))"
proof (cases cmd)
  case (CClaimOps a req limit)
  with ex obtain r where r: "claim_ops padd now a req limit s = (r, s')" "resp = ROps r"
    by (auto simp: apfst_def map_prod_def split: prod.splits)
  show ?thesis
    using leased_ids_lease(2) [OF claim_ops_ids(1) [OF r(1) bt]] claim_ops_ids(2) [OF r(1) bt] r(2)
    by (simp only: minted_ops.simps)
next
  case (CClaimOp a i req)
  with ex obtain r where r: "claim_one padd now a i req s = (r, s')" "resp = ROp r"
    by (auto simp: apfst_def map_prod_def split: prod.splits)
  show ?thesis
    using leased_ids_lease(2) [OF claim_one_ids(1) [OF r(1) bt]] claim_one_ids(2) [OF r(1) bt] r(2)
    by (simp only: minted_ops.simps)
qed (use ex in \<open>auto simp: apfst_def map_prod_def split: prod.splits\<close>)

lemma exec_op_gen:
  assumes ex: "exec padd tr now cmd s = (resp, s')" and inv: "outbox_inv s"
    and room: "unat (op_gen s i) + 2 < 2 ^ 64"
  shows "unat (op_gen s i) + op_leased resp i \<le> unat (op_gen s' i) \<and> unat (op_gen s' i) \<le> unat (op_gen s i) + 2"
proof (cases "\<exists>a op. cmd = CEnqueue a op")
  case True
  then obtain a op where cmd: "cmd = CEnqueue a op" by blast
  with ex obtain r where r: "enqueue_pending_op a op s = (r, s')" "resp = RId r"
    by (auto simp: apfst_def map_prod_def split: prod.splits)
  have "op_gen s' i = op_gen s i"
  proof (cases "hm_get (in_idempotency s) (a, po_idempotency_key op)")
    case None
    from enqueue_new(3) [OF r(1) None] next_op_fresh [OF inv] show ?thesis
      by (auto simp: op_gen_def op_cell_new_def)
  next
    case (Some j)
    with r(1) show ?thesis by (simp add: enqueue_known)
  qed
  with r(2) show ?thesis by (simp add: op_leased_def)
next
  case False
  have bt: "bt_inner s" using inv by (simp add: outbox_inv_def)
  from False have moved: "ops_moved padd (op_events (cmd, resp)) 2 (op_leased resp) (in_ops s) (in_ops s')"
    using exec_moved [OF ex bt] by blast
  show ?thesis
  proof (cases "hm_get (in_ops s) i")
    case None
    then have none: "hm_get (in_ops s') i = None"
      using ops_moved_dom [OF moved] by (metis domIff)
    then have "i \<notin> ol_op ` set (minted_ops resp)" using exec_minted [OF ex bt] by fastforce
    with None none show ?thesis by (simp add: op_gen_def op_leased_def)
  next
    case (Some c)
    from moved Some obtain es c' where c': "hm_get (in_ops s') i = Some c'" "op_path padd es c c'"
      "bump_count es \<le> 2" "lease_count es = op_leased resp i" by (rule ops_movedD)
    have "unat (oc_token c) + bump_count es < 2 ^ 64" using room Some c'(3) by (simp add: op_gen_def)
    from op_path_token [OF c'(2) this] Some c' show ?thesis by (simp add: op_gen_def)
  qed
qed

lemma op_mints_facts:
  assumes "op_mints T padd tr s ls s'"
  shows "unat (op_gen s i) + 2 < 2 ^ 64 \<Longrightarrow>
      unat (op_gen s i) + (if i \<in> ol_op ` set ls then 1 else 0) \<le> unat (op_gen s' i) \<and>
      unat (op_gen s' i) \<le> unat (op_gen s i) + 2"
    "l \<in> set ls \<Longrightarrow> ol_token l = op_gen s' (ol_op l)"
    "distinct (map ol_op ls)"
proof -
  have inv: "outbox_inv s" and bt: "bt_inner s" using assms by (auto simp: op_mints_def outbox_inv_def)
  show "unat (op_gen s i) + (if i \<in> ol_op ` set ls then 1 else 0) \<le> unat (op_gen s' i) \<and>
      unat (op_gen s' i) \<le> unat (op_gen s i) + 2" if "unat (op_gen s i) + 2 < 2 ^ 64"
    using assms exec_op_gen [OF _ inv that] unfolding op_mints_def op_leased_def by blast
  show "ol_token l = op_gen s' (ol_op l)" if "l \<in> set ls"
    using assms exec_minted [OF _ bt] that unfolding op_mints_def op_gen_def by fastforce
  show "distinct (map ol_op ls)"
    using assms minted_ids_distinct [OF _ bt] unfolding op_mints_def by blast
qed

interpretation op_fence: fencing inner_new "op_mints T padd tr" op_gen ol_op ol_token 2 for T padd tr
proof unfold_locales
  show "op_gen inner_new k = fence_initial" for k by (simp add: op_gen_def inner_new_def)
qed (use op_mints_facts in blast)+

lemma history_op_run:
  fixes h :: "('v, 'o, 'p) history"
  shows "history padd tr h s \<Longrightarrow> length h < 2 ^ 64 - 1 \<Longrightarrow>
    fencing.run inner_new (op_mints TYPE('p) padd tr) (map (\<lambda>x. minted_ops (snd x)) h) s"
proof (induction rule: history.induct)
  case start
  then show ?case using op_fence.run_nil by simp
next
  case (step h s now cmd resp s')
  have "outbox_inv s" "unat (in_next_op s) < 2 ^ 64 - 1"
    using history_outbox [OF step.hyps(1)] step.prems by auto
  then have "op_mints TYPE('p) padd tr s (minted_ops resp) s'"
    unfolding op_mints_def using step.hyps(2) by blast
  from op_fence.run_snoc [OF step.IH this] step.prems show ?case by simp
qed

end
