(* ===== verification/Outbox_Safety.thy ===== *)
theory Outbox_Safety
  imports Store_History
begin

text \<open>
  What no history of the store can do: let a superseded lease settle an op, lease a handed-over send
  again without a definitive answer, or attempt any other write more often than its bound.
\<close>

section \<open>Continuing a history\<close>

inductive steps ::
  "pdt_add \<Rightarrow> ('o, 'v) sync_object \<Rightarrow> 'v inner \<Rightarrow> ('v, 'o, 'p) history \<Rightarrow> 'v inner \<Rightarrow> bool" for padd tr s where
  steps_nil: "steps padd tr s [] s"
| steps_snoc: "steps padd tr s h s1 \<Longrightarrow> exec padd tr now cmd s1 = (resp, s2) \<Longrightarrow>
    steps padd tr s (h @ [(cmd, resp)]) s2"

lemma history_split:
  "history padd tr (h1 @ h2) s2 \<Longrightarrow> \<exists>s1. history padd tr h1 s1 \<and> steps padd tr s1 h2 s2"
proof (induction h2 arbitrary: s2 rule: rev_induct)
  case Nil
  then show ?case using steps_nil by auto
next
  case (snoc x h2)
  then have "history padd tr ((h1 @ h2) @ [x]) s2" by simp
  then obtain s now cmd resp where "history padd tr (h1 @ h2) s" "x = (cmd, resp)"
    "exec padd tr now cmd s = (resp, s2)" by (cases rule: history_snocE) auto
  with snoc.IH steps_snoc show ?case by blast
qed

lemma history_join:
  "steps padd tr s1 h2 s2 \<Longrightarrow> history padd tr h1 s1 \<Longrightarrow> history padd tr (h1 @ h2) s2"
  by (induction rule: steps.induct) (auto simp flip: append_assoc intro: history.step)

text \<open>An op once queued is never dropped, and each step moves it along a path of the step's events.\<close>

lemma exec_op_path:
  assumes ex: "exec padd tr now cmd s = (resp, s')" and inv: "outbox_inv s"
    and c: "hm_get (in_ops s) i = Some c"
  obtains es c' where "hm_get (in_ops s') i = Some c'" "op_path padd es c c'"
    "set es \<subseteq> op_events (cmd, resp) i" "lease_count es = op_leased resp i" "bump_count es \<le> 2"
proof (cases "\<exists>a op. cmd = CEnqueue a op")
  case True
  then obtain a op where cmd: "cmd = CEnqueue a op" by blast
  with ex obtain r where r: "enqueue_pending_op a op s = (r, s')" "resp = RId r"
    by (auto simp: apfst_def map_prod_def split: prod.splits)
  have "hm_get (in_ops s') i = Some c"
  proof (cases "hm_get (in_idempotency s) (a, po_idempotency_key op)")
    case None
    with enqueue_new(3) [OF r(1) None] next_op_fresh [OF inv] c show ?thesis by auto
  next
    case (Some j)
    with r(1) c show ?thesis by (simp add: enqueue_known)
  qed
  then show thesis using that [of c "[]"] r(2) by (simp add: op_leased_def lease_count_def)
next
  case False
  have bt: "bt_inner s" using inv by (simp add: outbox_inv_def)
  from False have "ops_moved padd (op_events (cmd, resp)) 2 (op_leased resp) (in_ops s) (in_ops s')"
    using exec_moved [OF ex bt] by blast
  with c show thesis using that by (elim ops_movedD)
qed

text \<open>An op that appears was queued: it is pending, never attempted and never leased.\<close>

lemma exec_new_op:
  assumes ex: "exec padd tr now cmd s = (resp, s')" and inv: "outbox_inv s"
    and none: "hm_get (in_ops s) i = None" and c: "hm_get (in_ops s') i = Some c"
  shows "\<exists>a op. c = op_cell_new a op"
proof -
  have "\<exists>a op. cmd = CEnqueue a op"
  proof (rule ccontr)
    assume "\<not> (\<exists>a op. cmd = CEnqueue a op)"
    then have "ops_moved padd (op_events (cmd, resp)) 2 (op_leased resp) (in_ops s) (in_ops s')"
      using exec_moved [OF ex] inv by (auto simp: outbox_inv_def)
    from ops_moved_dom [OF this] none c show False by (metis domIff option.distinct(1))
  qed
  then obtain a op where "cmd = CEnqueue a op" by blast
  with ex obtain r where r: "enqueue_pending_op a op s = (r, s')"
    by (auto simp: apfst_def map_prod_def split: prod.splits)
  show ?thesis
  proof (cases "hm_get (in_idempotency s) (a, po_idempotency_key op)")
    case n: None
    with enqueue_new(3) [OF r n] none c show ?thesis by (auto split: if_splits)
  next
    case (Some j)
    with r none c show ?thesis by (simp add: enqueue_known)
  qed
qed

section \<open>A superseded op lease settles nothing\<close>

lemma handed_step:
  assumes "op_step padd e c c'" and "op_ok c" and "oc_handed_over c' = Some t"
  shows "oc_handed_over c = Some t \<and> e \<noteq> EvLease \<or> e = EvHandOver t \<and> t = oc_token c"
  using assms
proof cases
  case (lease now expiry)
  then show ?thesis using assms(2,3) by (auto simp: op_ok_def cell_lease_def)
next
  case (recover now)
  then show ?thesis using assms(3) by (auto simp: cell_recover_ok cell_record_ok split: if_splits)
next
  case (mark t' outcome now)
  then show ?thesis using assms(3) by (auto simp: cell_record_ok split: if_splits)
next
  case (confirm answer)
  then show ?thesis using assms(3) by (cases answer) (auto simp: cell_confirm_None cell_rearm_def)
qed (use assms(3) in \<open>auto simp: step_simps cell_rearm_def may_hold_def split: if_splits\<close>)

lemma op_path_token_same: "op_path padd es c c' \<Longrightarrow> bump_count es = 0 \<Longrightarrow> oc_token c' = oc_token c"
  by (induction rule: op_path.induct) (auto dest: op_step_token split: if_splits)

lemma handed_path:
  assumes "op_path padd es c c'" and "op_ok c" and "oc_handed_over c' = Some t"
  shows "oc_handed_over c = Some t \<and> EvLease \<notin> set es \<or> EvHandOver t \<in> set es"
  using assms
proof (induction rule: op_path.induct)
  case (path_snoc es c c1 e c2)
  have "op_ok c1" using op_path_ok path_snoc by blast
  from handed_step [OF path_snoc.hyps(2) this path_snoc.prems(2)] path_snoc show ?case by auto
qed simp

lemma hand_over_path_token:
  assumes "op_path padd es c c'" and "EvHandOver t \<in> set es" and "bump_count es = 0"
  shows "t = oc_token c"
  using assms
proof (induction rule: op_path.induct)
  case (path_snoc es c c1 e c2)
  then have b: "bump_count es = 0" by simp
  show ?case
  proof (cases "EvHandOver t \<in> set es")
    case False
    with path_snoc have "op_step padd (EvHandOver t) c1 c2" by auto
    then have "t = oc_token c1" by (auto simp: op_step_simps may_hold_def)
    with op_path_token_same [OF path_snoc.hyps(1) b] show ?thesis by simp
  qed (use path_snoc b in auto)
qed simp

definition minted_before :: "('v, 'o, 'p) history \<Rightarrow> op_lease set" where
  "minted_before h = (\<Union>x \<in> set h. set (minted_ops (snd x)))"

lemma minted_before_snoc [simp]: "minted_before (h @ [x]) = minted_before h \<union> set (minted_ops (snd x))"
  by (auto simp: minted_before_def)

lemma history_tok_bound:
  assumes "history padd tr h s" and "2 * length h < 2 ^ 64" and "l \<in> minted_before h"
  shows "unat (ol_token l) \<le> unat (op_gen s (ol_op l))"
proof -
  have "length h < 2 ^ 64 - 1" using assms(2) by simp
  from op_fence.run_tok_bound [OF history_op_run [OF assms(1) this]] assms(2,3) show ?thesis
    by (auto simp: minted_before_def)
qed

lemma history_handed:
  assumes "history padd tr h s" and "2 * length h < 2 ^ 64" and "hm_get (in_ops s) i = Some c"
    and "oc_handed_over c = Some t" and "l \<in> minted_before h" and "ol_op l = i"
  shows "unat (ol_token l) \<le> unat t"
  using assms
proof (induction arbitrary: c rule: history.induct)
  case start
  then show ?case by (simp add: minted_before_def)
next
  case (step h s now cmd resp s')
  have inv: "outbox_inv s" using history_outbox [OF step.hyps(1)] step.prems(1) by simp
  show ?case
  proof (cases "hm_get (in_ops s) i")
    case None
    then have "\<exists>a op. c = op_cell_new a op" using exec_new_op [OF step.hyps(2) inv _ step.prems(2)] by blast
    with step.prems(3) show ?thesis by (auto simp: op_cell_new_def)
  next
    case (Some d)
    from exec_op_path [OF step.hyps(2) inv Some] obtain es where es: "op_path padd es d c"
      "set es \<subseteq> op_events (cmd, resp) i" "lease_count es = op_leased resp i"
      using step.prems(2) by (metis option.inject)
    have ok: "op_ok d" using inv Some by (simp add: outbox_inv_def)
    from handed_path [OF es(1) ok step.prems(3)] show ?thesis
    proof
      assume a: "oc_handed_over d = Some t \<and> EvLease \<notin> set es"
      then have "op_leased resp i = 0" using es(3) lease_count_0 [of es] by simp
      then have "l \<in> minted_before h" using step.prems(4,5) by (auto simp: op_leased_def split: if_splits)
      with step.IH [OF _ Some] a step.prems show ?thesis by simp
    next
      assume t: "EvHandOver t \<in> set es"
      then have ev: "op_events (cmd, resp) i = {EvStamp, EvHandOver t}" and none: "minted_ops resp = []"
        using es(2) step.hyps(2)
        by (cases "((cmd, resp), i)" rule: op_events.cases;
            auto simp: only_def reconcile_events_def apfst_def map_prod_def split: if_splits prod.splits)+
      have "bump_count es = 0" using es(2) unfolding ev by (induction es) auto
      from hand_over_path_token [OF es(1) t this] Some have "t = op_gen s i" by (simp add: op_gen_def)
      moreover have "l \<in> minted_before h" using step.prems(4) none by simp
      ultimately show ?thesis
        using history_tok_bound [OF step.hyps(1), of l] step.prems(1,5) by simp
    qed
  qed
qed

lemma superseded_token:
  assumes hist: "history padd tr h s" and len: "2 * length h < 2 ^ 64"
    and ij: "i < j" "j < length h" and l: "l \<in> set (minted_ops (snd (h ! i)))"
    and l': "l' \<in> set (minted_ops (snd (h ! j)))" and same: "ol_op l = ol_op l'"
  shows "unat (ol_token l) < unat (ol_token l')" "ol_token l \<noteq> op_gen s (ol_op l)"
proof -
  have short: "length h < 2 ^ 64 - 1" using len by simp
  show "unat (ol_token l) < unat (ol_token l')" "ol_token l \<noteq> op_gen s (ol_op l)"
    using op_fence.run_superseded [OF history_op_run [OF hist short], of i j l l'] len ij l l' same by auto
qed

lemma superseded_mark:
  assumes hist: "history padd tr h s" and len: "2 * length h < 2 ^ 64"
    and ij: "i < j" "j < length h" and l: "l \<in> set (minted_ops (snd (h ! i)))"
    and l': "l' \<in> set (minted_ops (snd (h ! j)))" and same: "ol_op l = ol_op l'"
  shows "mark padd now l out s = (Inl StaleLease, s)"
proof -
  note sup = superseded_token [OF hist len ij l l' same]
  have later: "l' \<in> minted_before h" using l' ij unfolding minted_before_def by force
  have "\<not> may_mark (ol_token l) c" if "hm_get (in_ops s) (ol_op l) = Some c" for c
    using history_handed [OF hist len that _ later] sup that same
    by (auto simp: may_mark_def op_gen_def)
  then show ?thesis by (auto simp: mark_def may_mark_def Let_def split: option.splits)
qed

text \<open>A lease whose token is not the op's is refused the hand-over and the renewal as well.\<close>

lemma stale_hold:
  assumes "ol_token l \<noteq> op_gen s (ol_op l)"
  shows "hand_over l s = (Inl StaleLease, s)"
    "fst (renew padd now l ttl s) \<noteq> Inr () \<and> snd (renew padd now l ttl s) = s"
  using assms by (auto simp: hand_over_def renew_def op_gen_def split: option.splits)

section \<open>A handed-over send is not leased again\<close>

text \<open>
  The answers that put a send back on the queue: a worker's accepted report that the attempt failed, and
  an accepted word of the host that it was not delivered.
\<close>

fun releases_op :: "pending_op_id \<Rightarrow> ('v, 'o, 'p) command \<times> 'v response \<Rightarrow> bool" where
  "releases_op i (CMark l (OFailed _ _), RUnit (Inr _)) \<longleftrightarrow> ol_op l = i"
| "releases_op i (CConfirm _ j NotDelivered, RVerb (Inr None)) \<longleftrightarrow> j = i"
| "releases_op i _ \<longleftrightarrow> False"

lemma op_events_release:
  assumes "e \<in> op_events x i" and "releases_send e"
  shows "releases_op i x"
  using assms
  by (cases "(x, i)" rule: op_events.cases; cases e rule: releases_send.cases)
    (auto simp: only_def reconcile_events_def split: if_splits)

lemma send_not_released:
  assumes "steps padd tr s1 h s2" and "history padd tr h1 s1" and "length (h1 @ h) < 2 ^ 64 - 1"
    and "hm_get (in_ops s1) i = Some c" and "po_kind (oc_op c) = MailSubmit" and "send_is_out c"
    and "\<not> list_ex (releases_op i) h"
  shows "(\<exists>c'. hm_get (in_ops s2) i = Some c' \<and> po_kind (oc_op c') = MailSubmit \<and> send_is_out c') \<and>
    (\<forall>l \<in> minted_before h. ol_op l \<noteq> i)"
  using assms
proof (induction rule: steps.induct)
  case steps_nil
  then show ?case by (simp add: minted_before_def)
next
  case (steps_snoc h sa now cmd resp sb)
  then obtain c1 where c1: "hm_get (in_ops sa) i = Some c1" "po_kind (oc_op c1) = MailSubmit" "send_is_out c1"
    and quiet: "\<forall>l \<in> minted_before h. ol_op l \<noteq> i" by auto
  have "outbox_inv sa"
    using history_outbox [OF history_join [OF steps_snoc.hyps(1) steps_snoc.prems(1)]] steps_snoc.prems(2) by simp
  then obtain es c2 where
    c2: "hm_get (in_ops sb) i = Some c2" "op_path padd es c1 c2" "set es \<subseteq> op_events (cmd, resp) i"
      "lease_count es = op_leased resp i" "bump_count es \<le> 2"
    by (rule exec_op_path [OF steps_snoc.hyps(2) _ c1(1)])
  have "\<not> list_ex releases_send es"
    using c2(3) op_events_release [of _ "(cmd, resp)" i] steps_snoc.prems(6) by (auto simp: list_ex_iff)
  from send_is_out_path [OF c2(2) c1(2,3) this] have out: "send_is_out c2" "EvLease \<notin> set es" by auto
  then have "op_leased resp i = 0" using c2(4) lease_count_0 [of es] by simp
  then have "\<forall>l \<in> set (minted_ops resp). ol_op l \<noteq> i" by (auto simp: op_leased_def split: if_splits)
  with quiet out(1) c2(1) op_path_keeps [OF c2(2)] c1(2) show ?case by auto
qed

lemma hand_over_out:
  assumes "hand_over l s = (Inr (), s')"
  shows "\<exists>c. hm_get (in_ops s) (ol_op l) = Some c \<and>
    hm_get (in_ops s') (ol_op l) = Some (c\<lparr>oc_handed_over := Some (ol_token l)\<rparr>) \<and>
    send_is_out (c\<lparr>oc_handed_over := Some (ol_token l)\<rparr>)"
  using assms by (auto simp: hand_over_def send_is_out_def split: option.splits if_splits)

lemma hand_over_history:
  assumes "history padd tr h s" and "hand_over l s = (Inr (), s')"
  shows "history padd tr (h @ [(CHandOver l, RUnit (Inr ()))]) s'"
  by (rule history.step [OF assms(1), of 0]) (simp add: assms(2))

section \<open>The attempts of other writes are bounded\<close>

fun confirms_undelivered :: "pending_op_id \<Rightarrow> ('v, 'o, 'p) command \<times> 'v response \<Rightarrow> bool" where
  "confirms_undelivered i (CConfirm _ j NotDelivered, RVerb (Inr None)) \<longleftrightarrow> j = i"
| "confirms_undelivered i _ \<longleftrightarrow> False"

definition times_leased :: "('v, 'o, 'p) history \<Rightarrow> pending_op_id \<Rightarrow> nat" where
  "times_leased h i = sum_list (map (\<lambda>x. op_leased (snd x) i) h)"

lemma op_events_undelivered:
  assumes "EvConfirm NotDelivered \<in> op_events x i"
  shows "confirms_undelivered i x"
  using assms by (cases "(x, i)" rule: op_events.cases) (auto simp: only_def reconcile_events_def split: if_splits)

lemma attempts_paid_new: "attempts_paid 0 (op_cell_new a op)"
  by (simp add: attempts_paid_def op_cell_new_def max_attempts_def)

lemma history_attempts:
  assumes "history padd tr h s" and "length h < 2 ^ 64 - 1" and "\<not> list_ex (confirms_undelivered i) h"
    and "\<forall>c. hm_get (in_ops s) i = Some c \<longrightarrow> po_kind (oc_op c) \<noteq> MailSubmit"
  shows "case hm_get (in_ops s) i of None \<Rightarrow> times_leased h i = 0 | Some c \<Rightarrow> attempts_paid (times_leased h i) c"
  using assms
proof (induction rule: history.induct)
  case start
  then show ?case by (simp add: inner_new_def times_leased_def)
next
  case (step h s now cmd resp s')
  have inv: "outbox_inv s" using history_outbox [OF step.hyps(1)] step.prems(1) by simp
  have more: "times_leased (h @ [(cmd, resp)]) i = times_leased h i + op_leased resp i"
    by (simp add: times_leased_def)
  show ?case
  proof (cases "hm_get (in_ops s) i")
    case None
    with step have zero: "times_leased h i = 0" by simp
    have none: "op_leased resp i = 0"
    proof (rule ccontr)
      assume "op_leased resp i \<noteq> 0"
      then obtain l where l: "l \<in> set (minted_ops resp)" "ol_op l = i"
        by (auto simp: op_leased_def split: if_splits)
      then have "\<nexists>a op. cmd = CEnqueue a op"
        using step.hyps(2) by (auto simp: apfst_def map_prod_def split: prod.splits)
      then have "ops_moved padd (op_events (cmd, resp)) 2 (op_leased resp) (in_ops s) (in_ops s')"
        using exec_moved [OF step.hyps(2)] inv by (auto simp: outbox_inv_def)
      from ops_moved_dom [OF this] None have "hm_get (in_ops s') i = None" by (metis domIff)
      with exec_minted [OF step.hyps(2) _ l(1)] l(2) inv show False by (auto simp: outbox_inv_def)
    qed
    show ?thesis
    proof (cases "hm_get (in_ops s') i")
      case (Some c)
      have "\<exists>a op. c = op_cell_new a op"
        using exec_new_op [OF step.hyps(2) inv None Some] .
      with Some zero none more attempts_paid_new show ?thesis by auto
    qed (use zero none more in simp)
  next
    case (Some c)
    obtain es c' where
      c': "hm_get (in_ops s') i = Some c'" "op_path padd es c c'" "set es \<subseteq> op_events (cmd, resp) i"
        "lease_count es = op_leased resp i" "bump_count es \<le> 2"
      by (rule exec_op_path [OF step.hyps(2) inv Some])
    have kind: "po_kind (oc_op c) \<noteq> MailSubmit" using step.prems(3) c'(1) op_path_keeps [OF c'(2)] by auto
    have "EvConfirm NotDelivered \<notin> set es"
      using c'(3) op_events_undelivered [of "(cmd, resp)" i] step.prems(2) by auto
    with attempts_paid_path [OF c'(2) kind] step Some kind c' more show ?thesis by simp
  qed
qed

end
