(* ===== verification/Runs.thy ===== *)
theory Runs
  imports Outbox_Safety "HOL-Library.Code_Target_Nat" "HOL-Library.Code_Target_Int"
begin

text \<open>
  Running a script of commands on a store: the histories the properties speak of, computed. A script
  fixes what the clock reads at each command. The scripts and sample data below are the concrete runs the
  properties are applied to; \<open>Code_Target_Nat\<close> and \<open>Code_Target_Int\<close> give them binary arithmetic.
\<close>

section \<open>Scripts\<close>

fun run_script ::
  "pdt_add \<Rightarrow> ('o, 'v) sync_object \<Rightarrow> (instant \<times> ('v, 'o, 'p) command) list \<Rightarrow> 'v inner \<Rightarrow>
   ('v, 'o, 'p) history \<times> 'v inner" where
  "run_script padd tr [] s = ([], s)"
| "run_script padd tr ((now, cmd) # script) s =
     (case exec padd tr now cmd s of (resp, s1) \<Rightarrow>
        (case run_script padd tr script s1 of (h, s2) \<Rightarrow> ((cmd, resp) # h, s2)))"

lemma run_script_from:
  assumes "steps padd tr s0 h0 s" and "run_script padd tr script s = (h, s')"
  shows "steps padd tr s0 (h0 @ h) s'"
  using assms
proof (induction script arbitrary: h0 s h)
  case (Cons x script)
  obtain now cmd where x: "x = (now, cmd)" by (cases x)
  obtain resp s1 where ex: "exec padd tr now cmd s = (resp, s1)" by (cases "exec padd tr now cmd s")
  obtain h2 s2 where run: "run_script padd tr script s1 = (h2, s2)" by (cases "run_script padd tr script s1")
  have h: "h = (cmd, resp) # h2" "s' = s2" using Cons.prems(2) by (simp_all add: x ex run)
  have "steps padd tr s0 ((h0 @ [(cmd, resp)]) @ h2) s'"
    using Cons.IH [OF steps_snoc [OF Cons.prems(1) ex]] run h(2) by blast
  then show ?case by (simp add: h(1))
qed simp

lemma run_script_steps:
  "steps padd tr s (fst (run_script padd tr script s)) (snd (run_script padd tr script s))"
  using run_script_from [OF steps_nil] by (metis append_Nil prod.collapse)

lemma run_script_history:
  "history padd tr (fst (run_script padd tr script inner_new)) (snd (run_script padd tr script inner_new))"
  using history_join [OF run_script_steps history.start] by simp

section \<open>Evaluating an apply\<close>

text \<open>
  \<open>apply_sync_update\<close> with each intermediate result passed to a function of its own, which kernel evaluation
  computes innermost first instead of under binders.
\<close>

definition apply_settled ::
  "instant \<Rightarrow> sync_scope \<Rightarrow> ('o, 'p) apply_batch \<Rightarrow> 'v inner \<Rightarrow> 'v inner" where
  "apply_settled now scope batch s = settle_keyword_edits now
     (keyword_edits_synced (scope_account scope) scope (written_keys (ab_derived batch)) (ab_observed_from batch) s)"

definition apply_finish ::
  "sync_scope \<Rightarrow> ('o, 'p) apply_batch \<Rightarrow> 'v inner \<Rightarrow> 'v scope_cell \<Rightarrow> sync_applied \<Rightarrow> 'v ops \<Rightarrow> 'v inner" where
  "apply_finish scope batch s cell applied ops =
     s\<lparr>in_ops := ops, in_observations := fold observe (ab_recipient_observations batch) (in_observations s),
       in_contact_generation :=
         (if scope_object_kind scope = Some KContactCard \<and> (ap_upserted applied > 0 \<or> ap_tombstoned applied > 0)
          then sat_add u64_max (in_contact_generation s) 1 else in_contact_generation s),
       in_scopes := thread_batch scope (ab_derived batch) (hm_insert scope (advance_cursor batch cell) (in_scopes s))\<rparr>"

fun apply_reconciled ::
  "instant \<Rightarrow> sync_scope \<Rightarrow> ('o, 'p) apply_batch \<Rightarrow> 'v inner \<Rightarrow> 'v scope_cell \<Rightarrow>
   (store_error, sync_applied) result \<times> 'v ops \<Rightarrow> (store_error, sync_applied) result \<times> 'v inner" where
  "apply_reconciled now scope batch s cell (Inl e, ops) = (Inl e, put_cell scope cell (s\<lparr>in_ops := ops\<rparr>))"
| "apply_reconciled now scope batch s cell (Inr applied, ops) =
     (Inr applied, apply_settled now scope batch (apply_finish scope batch s cell applied ops))"

definition apply_derived_then ::
  "pdt_add \<Rightarrow> instant \<Rightarrow> sync_scope \<Rightarrow> ('o, 'p) apply_batch \<Rightarrow> 'v inner \<Rightarrow> sync_applied \<Rightarrow> 'v scope_cell \<Rightarrow>
   (store_error, sync_applied) result \<times> 'v inner" where
  "apply_derived_then padd now scope batch s applied cell =
     apply_reconciled now scope batch s cell (reconcile_loop padd now (ab_reconcile batch) (in_ops s) applied)"

fun apply_updated ::
  "pdt_add \<Rightarrow> instant \<Rightarrow> sync_scope \<Rightarrow> ('o, 'p) apply_batch \<Rightarrow> 'v inner \<Rightarrow>
   (store_error, sync_applied) result \<times> 'v scope_cell \<Rightarrow> (store_error, sync_applied) result \<times> 'v inner" where
  "apply_updated padd now scope batch s (Inl e, cell) = (Inl e, put_cell scope cell s)"
| "apply_updated padd now scope batch s (Inr applied, cell) =
     apply_derived_then padd now scope batch s applied (apply_derived (ab_derived batch) cell)"

fun apply_current ::
  "pdt_add \<Rightarrow> instant \<Rightarrow> ('o, 'v) sync_object \<Rightarrow> sync_scope \<Rightarrow> ('o, 'p) apply_batch \<Rightarrow> 'v inner \<Rightarrow>
   'v scope_cell option \<Rightarrow> (store_error, sync_applied) result \<times> 'v inner" where
  "apply_current padd now tr scope batch s None = (Inl StaleLease, s)"
| "apply_current padd now tr scope batch s (Some cell) = apply_updated padd now scope batch s
     (apply_update tr (ab_update batch) cell \<lparr>ap_upserted = 0, ap_tombstoned = 0, ap_reconciled = 0\<rparr>)"

lemma apply_sync_update_stages [code]:
  "apply_sync_update padd now tr l batch s = apply_current padd now tr (sy_scope l) batch s (current_cell l s)"
  by (auto simp: apply_sync_update_def apply_derived_then_def apply_settled_def apply_finish_def Let_def
      split: option.splits prod.splits sum.splits)

fun run_rest ::
  "('v, 'o, 'p) command \<times> 'v response \<Rightarrow> ('v, 'o, 'p) history \<times> 'v inner \<Rightarrow> ('v, 'o, 'p) history \<times> 'v inner" where
  "run_rest x (h, s) = (x # h, s)"

fun run_step ::
  "pdt_add \<Rightarrow> ('o, 'v) sync_object \<Rightarrow> (instant \<times> ('v, 'o, 'p) command) list \<Rightarrow> ('v, 'o, 'p) command \<Rightarrow>
   'v response \<times> 'v inner \<Rightarrow> ('v, 'o, 'p) history \<times> 'v inner" where
  "run_step padd tr script cmd (resp, s) = run_rest (cmd, resp) (run_script padd tr script s)"

lemma run_script_stages [code]:
  "run_script padd tr [] s = ([], s)"
  "run_script padd tr ((now, cmd) # script) s = run_step padd tr script cmd (exec padd tr now cmd s)"
  by (auto split: prod.splits)

section \<open>Sample data\<close>

text \<open>Objects that are their own payload, keyed by their first component; an empty one is refused.\<close>

definition plain_object :: "(string \<times> string, string) sync_object" where
  "plain_object = \<lparr>so_key = fst, so_payload = \<lambda>x. if snd x = [] then Inl ''e'' else Inr (snd x)\<rparr>"

definition sample_op :: "string \<Rightarrow> pending_op_kind \<Rightarrow> string pending_op" where
  "sample_op key kind = \<lparr>po_idempotency_key = key, po_kind = kind, po_depends_on = [],
     po_resource_key = ''r'', po_payload = ''v'', po_keyword_edit = None\<rparr>"

definition sample_request :: lease_request where
  "sample_request = \<lparr>lq_owner = ''w'', lq_ttl = StdDuration 10 0\<rparr>"

definition secs :: "int \<Rightarrow> instant" where "secs n = n * 10 ^ 9"

type_synonym sample_script = "(instant \<times> (string, string \<times> string, unit) command) list"

abbreviation run_sample :: "sample_script \<Rightarrow> (string, string \<times> string, unit) history \<times> string inner" where
  "run_sample script \<equiv> run_script pdt_add_ref plain_object script inner_new"

lemma sample_inv: "length (fst (run_sample script)) < 2 ^ 64 - 1 \<Longrightarrow> outbox_inv (snd (run_sample script))"
  using history_outbox [OF run_script_history] by blast

text \<open>Two writes to one resource, queued.\<close>

definition script_queued :: sample_script where
  "script_queued =
    [(0, CEnqueue ''a'' (sample_op ''k'' MailEdit)), (0, CEnqueue ''a'' (sample_op ''l'' MailEdit))]"

lemma script_queued_length: "length (fst (run_sample script_queued)) < 2 ^ 64 - 1"
  by code_simp

text \<open>A write leased twice: the first worker died, and its lease ran out.\<close>

definition script_leased_twice :: "pending_op_kind \<Rightarrow> sample_script" where
  "script_leased_twice kind =
    [(0, CEnqueue ''a'' (sample_op ''k'' kind)),
     (secs 1, CClaimOps ''a'' sample_request 5),
     (secs 20, CClaimOps ''a'' sample_request 5),
     (secs 120, CClaimOps ''a'' sample_request 5)]"

text \<open>A scope claimed twice, the first lease having run out.\<close>

definition sample_scope :: sync_scope where "sample_scope = ImapMailbox ''a'' ''i''"

definition sample_batch :: "(string \<times> string, unit) apply_batch" where
  "sample_batch = batch_with_cursor (update_delta [(''m'', ''p'')] []) derived_empty [] (Some ''c'')"

definition sample_window :: expansion_window where
  "sample_window = \<lparr>ew_horizon = \<lparr>hz_start = 0, hz_end = secs 86400\<rparr>, ew_zone = Iana ''z''\<rparr>"

definition script_claimed_twice :: sample_script where
  "script_claimed_twice =
    [(0, CClaimScope ''a'' sample_scope sample_request),
     (secs 20, CClaimScope ''a'' sample_scope sample_request)]"

text \<open>A scope claimed and synced once; \<open>sample_lease\<close> is the lease the claim hands out.\<close>

definition sample_lease :: sync_lease where
  "sample_lease = \<lparr>sy_account = ''a'', sy_scope = sample_scope, sy_token = 1, sy_owner = ''w'', sy_expiry = secs 10\<rparr>"

definition sample_message :: "string \<Rightarrow> mail_row" where
  "sample_message key = \<lparr>mr_key = key, mr_thread_id = None, mr_message_id = None, mr_date_utc = None,
     mr_flags = 0, mr_has_attachment = False, mr_size_octets = None, mr_from_name = None,
     mr_from_addr = None, mr_subject = None, mr_preview = None,
     mr_revisions = revision_none, mr_last_modified = None\<rparr>"

definition page_batch ::
  "(string \<times> string, unit) sync_update \<Rightarrow> string list \<Rightarrow> mail_ref_row list \<Rightarrow> sync_state option \<Rightarrow>
   (string \<times> string, unit) apply_batch" where
  "page_batch u keys refs cursor = batch_with_cursor u
     (derived_empty\<lparr>dw_messages := map sample_message keys, dw_msgid_refs := refs\<rparr>) [] cursor"

definition script_synced :: sample_script where
  "script_synced =
    [(0, CClaimScope ''a'' sample_scope sample_request),
     (secs 1, CApply sample_lease (page_batch (update_delta [(''m'', ''p''), (''n'', ''p'')] []) [''m'', ''n''] []
        (Some ''c'')))]"

text \<open>A send claimed, and then its worker gone: two later claims, one of them by name.\<close>

definition script_send :: sample_script where
  "script_send =
    [(0, CEnqueue ''a'' (sample_op ''k'' MailSubmit)),
     (secs 1, CClaimOps ''a'' sample_request 5)]"

definition script_after_send :: sample_script where
  "script_after_send =
    [(secs 20, CClaimOps ''a'' sample_request 5),
     (secs 60, CRetryNow ''a'' 0),
     (secs 500, CClaimOp ''a'' 0 sample_request)]"

end
