(* ===== verification/Outbox_Props.thy ===== *)
theory Outbox_Props
  imports Runs
begin

text \<open>
  The properties of the outbox alone: what a claim hands out, what queueing the same write twice does,
  where each outcome leaves an op, and that a read shows a dead attempt as its recovery will leave it.
\<close>

section \<open>Claims\<close>

text \<open>
  C20. A claim is exclusive, bounded and complete. It leases at most \<open>limit\<close> distinct ops, each of them
  pending, due and with its dependencies met, to the next generation of each; it leaves every other op
  alone; afterwards no two ops in flight share an account and a resource; and if it stops short of the
  limit, every op it could have run waits for a resource that an op in flight holds.
\<close>
theorem claim_ops_contract:
  assumes claim: "claim_ops padd now account req limit s = (Inr ls, s')" and inv: "outbox_inv s"
  shows "length ls \<le> limit \<and> distinct (map lo_id ls) \<and>
    (\<forall>l \<in> set ls. \<exists>c. hm_get (in_ops (claim_view padd now account s)) (lo_id l) = Some c \<and>
       runnable (in_ops (claim_view padd now account s)) account now c \<and>
       ol_token (lo_lease l) = fence_bump (oc_token c) \<and>
       hm_get (in_ops s') (lo_id l) = Some (cell_lease (ol_expiry (lo_lease l)) c)) \<and>
    (\<forall>i. i \<notin> lo_id ` set ls \<longrightarrow> hm_get (in_ops s') i = hm_get (in_ops (claim_view padd now account s)) i) \<and>
    exclusive (in_ops s') \<and>
    (length ls < limit \<longrightarrow> (\<forall>i c. hm_get (in_ops (claim_view padd now account s)) i = Some c \<and>
       runnable (in_ops (claim_view padd now account s)) account now c \<longrightarrow>
       (\<exists>j d. hm_get (in_ops s') j = Some d \<and> oc_account d = account \<and> oc_state d = InFlight \<and>
          po_resource_key (oc_op d) = po_resource_key (oc_op c))))"
proof -
  let ?v = "in_ops (claim_view padd now account s)"
  have bt: "bt_inner s" using inv by (simp add: outbox_inv_def)
  have view: "outbox_inv (claim_view padd now account s)" by (rule outbox_inv_claim_view [OF inv])
  have excl: "exclusive (in_ops s')" using outbox_inv_claim_ops [OF claim inv] by (simp add: outbox_inv_def)
  show ?thesis
    using claim bt
  proof (cases rule: claim_ops_cases)
    case (claimed expiry ls' ops')
    then have ls: "ls' = ls" and s': "in_ops s' = ops'" by simp_all
    note round = claimed(5) [unfolded ls]
    have got: "hm_get ops' i = (if i \<in> lo_id ` set ls then map_option (cell_lease expiry) (hm_get ?v i)
        else hm_get ?v i)" for i
      using round unfolding claim_round_def by blast
    have leased: "\<exists>c. hm_get ?v (lo_id l) = Some c \<and> runnable ?v account now c \<and>
        ol_token (lo_lease l) = fence_bump (oc_token c) \<and> ol_expiry (lo_lease l) = expiry \<and>
        po_resource_key (lo_op l) = po_resource_key (oc_op c) \<and>
        hm_get ops' (lo_id l) = Some (cell_lease expiry c)" if l: "l \<in> set ls" for l
    proof -
      obtain c where c: "hm_get ?v (lo_id l) = Some c" "runnable ?v account now c"
        "l = fst (lease_op c (lo_id l) req expiry)"
        using round l unfolding claim_round_def by blast
      have "ol_token (lo_lease l) = fence_bump (oc_token c)" "ol_expiry (lo_lease l) = expiry" "lo_op l = oc_op c"
        by (subst c(3), simp)+
      with c l got show ?thesis by auto
    qed
    have held: "\<exists>j d. hm_get ops' j = Some d \<and> oc_account d = account \<and> oc_state d = InFlight \<and>
        po_resource_key (oc_op d) = r" if "r \<in> held_resources account ?v \<union> lo_resource ` set ls" for r
      using that
    proof
      assume "r \<in> held_resources account ?v"
      then obtain j d where d: "hm_get ?v j = Some d" "oc_account d = account" "oc_state d = InFlight"
        "po_resource_key (oc_op d) = r"
        using held_resources_iff view by (metis bt_inner_distinct outbox_inv_def)
      then have "j \<notin> lo_id ` set ls" using leased by (fastforce simp: runnable_def)
      with d got show ?thesis by metis
    next
      assume "r \<in> lo_resource ` set ls"
      then obtain l where "l \<in> set ls" "r = lo_resource l" by blast
      with leased [of l] show ?thesis by (fastforce simp: cell_lease_def runnable_def)
    qed
    have complete: "\<exists>j d. hm_get ops' j = Some d \<and> oc_account d = account \<and> oc_state d = InFlight \<and>
        po_resource_key (oc_op d) = po_resource_key (oc_op c)"
      if "length ls < limit" "hm_get ?v i = Some c" "runnable ?v account now c" for i c
    proof (rule held)
      have "i \<in> set (hm_keys ?v)" unfolding hm_mem_keys using that(2) by blast
      then show "po_resource_key (oc_op c) \<in> held_resources account ?v \<union> lo_resource ` set ls"
        using claimed(7) that unfolding ls claim_complete_def by blast
    qed
    have len: "distinct (map lo_id ls)" "length ls \<le> limit"
      using claim_round_distinct [OF round] claimed(6) ls by auto
    have "\<exists>c. hm_get ?v (lo_id l) = Some c \<and> runnable ?v account now c \<and>
        ol_token (lo_lease l) = fence_bump (oc_token c) \<and>
        hm_get ops' (lo_id l) = Some (cell_lease (ol_expiry (lo_lease l)) c)" if "l \<in> set ls" for l
      using leased [OF that] by (elim exE conjE) simp
    moreover have "hm_get ops' i = hm_get ?v i" if "i \<notin> lo_id ` set ls" for i
      using got [of i] that by (simp only: if_False)
    ultimately show ?thesis unfolding s' using len excl [unfolded s'] complete by blast
  qed simp_all
qed

theorem claim_ops_contract_witness:
  "let s = snd (run_sample script_queued); (r, s') = claim_ops pdt_add_ref (secs 1) ''a'' sample_request 5 s
   in r \<noteq> Inr [] \<and> length (projr r) \<le> 5 \<and> exclusive (in_ops s')"
proof -
  let ?s = "snd (run_sample script_queued)"
  let ?c = "claim_ops pdt_add_ref (secs 1) ''a'' sample_request 5 ?s"
  have "fst ?c \<noteq> Inr []" and "isl (fst ?c) = False" by code_simp+
  then have "?c = (Inr (projr (fst ?c)), snd ?c)" by (metis isl_def prod.collapse sum.collapse(2))
  from claim_ops_contract [OF this sample_inv [OF script_queued_length]] \<open>fst ?c \<noteq> Inr []\<close>
  show ?thesis unfolding case_prod_beta Let_def by blast
qed

text \<open>
  C21. What may run does run. An op of the account that is pending and due, whose dependencies have
  succeeded and whose resource no op in flight holds, is leased by a claim that names it, provided the
  lease's expiry and the recoveries it triggers can be represented.
\<close>
theorem claim_one_leases:
  assumes inv: "outbox_inv s" and exp: "expiry_after padd now req = Inr expiry"
    and rec: "fst (recover_dead padd now account (in_ops s)) = Inr ()"
    and c: "hm_get (in_ops (claim_view padd now account s)) i = Some c"
    and run: "runnable (in_ops (claim_view padd now account s)) account now c"
    and free: "po_resource_key (oc_op c) \<notin> held_resources account (in_ops (claim_view padd now account s))"
  shows "\<exists>l s'. claim_one padd now account i req s = (Inr (Leased l), s') \<and> lo_id l = i \<and>
    lo_op l = oc_op c \<and> hm_get (in_ops s') i = Some (cell_lease expiry c)"
proof -
  let ?v = "claim_view padd now account s"
  obtain u ops' where rd: "recover_dead padd now account (in_ops s) = (Inr u, ops')"
    using rec by (cases "recover_dead padd now account (in_ops s)") auto
  have v: "?v = settle_keyword_edits now (s\<lparr>in_ops := ops'\<rparr>)" by (simp add: claim_view_def rd)
  have bt: "distinct (map fst (in_ops ?v))"
    using outbox_inv_claim_view [OF inv] by (auto simp: outbox_inv_def bt_inner_distinct)
  have state: "oc_state c = Pending" "oc_account c = account" using run by (simp_all add: runnable_def)
  have "claim_refusal (in_ops ?v) account now i c = None"
    using run free state resource_held_iff [OF bt c] by (simp add: claim_refusal_None runnable_def cell_due_def)
  then have "claim_one padd now account i req s =
      (Inr (Leased (fst (lease_op c i req expiry))), ?v\<lparr>in_ops := bt_insert i (cell_lease expiry c) (in_ops ?v)\<rparr>)"
    using c state by (simp add: claim_one_def exp rd Let_def case_prod_beta v [symmetric] del: settle_keyword_edits_keeps)
  then show ?thesis by simp
qed

theorem claim_one_leases_witness:
  "\<exists>l s'. claim_one pdt_add_ref (secs 1) ''a'' 0 sample_request (snd (run_sample script_queued)) =
     (Inr (Leased l), s') \<and> lo_id l = 0"
proof -
  let ?s = "snd (run_sample script_queued)"
  let ?v = "in_ops (claim_view pdt_add_ref (secs 1) ''a'' ?s)"
  have "expiry_after pdt_add_ref (secs 1) sample_request = Inr (secs 11)"
    "fst (recover_dead pdt_add_ref (secs 1) ''a'' (in_ops ?s)) = Inr ()"
    "hm_get ?v 0 = Some (op_cell_new ''a'' (sample_op ''k'' MailEdit))"
    "runnable ?v ''a'' (secs 1) (op_cell_new ''a'' (sample_op ''k'' MailEdit))"
    "po_resource_key (oc_op (op_cell_new ''a'' (sample_op ''k'' MailEdit))) \<notin> held_resources ''a'' ?v"
    by code_simp+
  from claim_one_leases [OF sample_inv [OF script_queued_length] this] show ?thesis by blast
qed

section \<open>Queueing\<close>

text \<open>
  Queueing is idempotent. Whatever an enqueue answered, a second enqueue under the same account and
  idempotency key answers the same id and changes nothing, whatever else the second op says.
\<close>
theorem enqueue_idempotent:
  assumes "enqueue_pending_op account op s = (r, s1)"
    and "po_idempotency_key op' = po_idempotency_key op"
  shows "enqueue_pending_op account op' s1 = (r, s1)"
proof (cases "hm_get (in_idempotency s) (account, po_idempotency_key op)")
  case None
  have "r = Inr (in_next_op s)"
    "hm_get (in_idempotency s1) (account, po_idempotency_key op') = Some (in_next_op s)"
    using enqueue_new(1,4) [OF assms(1) None] assms(2) by simp_all
  then show ?thesis by (simp add: enqueue_known)
next
  case (Some i)
  then show ?thesis using assms by (auto simp: enqueue_known)
qed

theorem enqueue_idempotent_witness:
  "let (r, s) = enqueue_pending_op ''a'' (sample_op ''k'' MailEdit) (inner_new :: string inner)
   in r = Inr 0 \<and> enqueue_pending_op ''a'' (sample_op ''k'' MailSubmit) s = (Inr 0, s)"
proof -
  let ?e = "enqueue_pending_op ''a'' (sample_op ''k'' MailEdit) (inner_new :: string inner)"
  have fst: "fst ?e = Inr 0" by code_simp
  then have e: "?e = (Inr 0, snd ?e)" by (metis prod.collapse)
  have same: "po_idempotency_key (sample_op ''k'' MailSubmit) = po_idempotency_key (sample_op ''k'' MailEdit)"
    by (simp add: sample_op_def)
  from enqueue_idempotent [OF e same] fst show ?thesis unfolding case_prod_beta Let_def by blast
qed

section \<open>Outcomes\<close>

text \<open>
  Where an outcome leaves an op: success and ambiguity are recorded as they are; a failure parks the op
  as pending exactly when it is retryable and the op is a send or has attempts left, and settles it as
  failed otherwise. Every outcome counts one attempt, only a parked op has a next attempt and only an
  ambiguous one keeps the record of its hand-over.
\<close>
theorem record_outcome_table:
  assumes "record_outcome padd kind n out now = Inr r"
  shows "rc_state r = (case out of
      OSucceeded _ \<Rightarrow> Succeeded
    | ONeedsConfirmation _ \<Rightarrow> NeedsConfirmation
    | OFailed c _ \<Rightarrow>
        (if is_retryable c \<and> (kind = Some MailSubmit \<or> Suc n < max_attempts) then Pending else Failed)) \<and>
    rc_attempts r = min u32_max (Suc n) \<and> (rc_next_attempt_at r \<noteq> None \<longleftrightarrow> rc_state r = Pending) \<and>
    (rc_keeps_hand_over r \<longleftrightarrow> rc_state r = NeedsConfirmation)"
  using record_outcome_state [OF assms] record_outcome_attempts [OF assms] record_outcome_due [OF assms]
    record_outcome_keeps [OF assms] by (simp add: sat_add_def)

theorem record_outcome_table_witness:
  "\<exists>r. record_outcome pdt_add_ref (Some MailEdit) 7 (OFailed Retryable None) 0 = Inr r \<and> rc_state r = Failed \<and>
     rc_attempts r = 8"
proof -
  let ?r = "projr (record_outcome pdt_add_ref (Some MailEdit) 7 (OFailed Retryable None) 0)"
  have "record_outcome pdt_add_ref (Some MailEdit) 7 (OFailed Retryable None) 0 = Inr ?r"
    by (simp add: record_outcome_def Let_def settles_on_attempts_def max_attempts_def sat_add_def u32_max_def)
  from this record_outcome_table [OF this] show ?thesis
    by (intro exI [of _ ?r]) (simp add: max_attempts_def u32_max_def)
qed

text \<open>
  Recording fails in one case only, a retryable failure whose next attempt lies past the last
  representable instant, and the op is left as it was.
\<close>
theorem record_outcome_error:
  assumes "cell_record padd out now c = (Inl e, c')"
  shows "c' = c \<and> e = Backend ''retry delay overflow'' \<and>
    (\<exists>class hint. out = OFailed class hint \<and> is_retryable class \<and>
       utc_checked_add padd now (retry_delay (min u32_max (Suc (oc_attempts c))) hint) = None)"
  using assms
  by (auto simp: cell_record_def cell_recorded_def record_outcome_def Let_def sat_add_def
      split: sum.splits pending_outcome.splits option.splits if_splits)

theorem record_outcome_error_witness:
  "let c = op_cell_new ''a'' (sample_op ''k'' MailEdit)
   in cell_record (\<lambda>_ _ _. None) (OFailed RateLimited None) 0 c = (Inl (Backend ''retry delay overflow''), c)"
proof -
  let ?c = "op_cell_new ''a'' (sample_op ''k'' MailEdit)"
  have "isl (fst (cell_record (\<lambda>_ _ _. None) (OFailed RateLimited None) 0 ?c))" by code_simp
  then obtain e c' where r: "cell_record (\<lambda>_ _ _. None) (OFailed RateLimited None) 0 ?c = (Inl e, c')"
    by (metis isl_def prod.collapse)
  from record_outcome_error [OF r] r show ?thesis by simp
qed

text \<open>
  The backoff of a parked op is bounded on both sides: without a hint from the provider the next
  attempt is due at least thirty seconds and at most thirty minutes after the failure.
\<close>
theorem backoff_bounds:
  assumes "time_lib padd" and "record_outcome padd kind n (OFailed class None) now = Inr r"
    and "rc_state r = Pending"
  shows "\<exists>due. rc_next_attempt_at r = Some due \<and> now + 30 * 10 ^ 9 \<le> due \<and> due \<le> now + 1800 * 10 ^ 9"
proof -
  let ?d = "retry_delay (sat_add u32_max n 1) None"
  obtain due where due: "utc_checked_add padd now ?d = Some due" "rc_next_attempt_at r = Some due"
    using assms(2,3) by (auto simp: record_outcome_def Let_def split: option.splits if_splits)
  have p: "1 \<le> (2 :: nat) ^ min (sat_add u32_max n 1 - 1) 16" by simp
  have "30 * 10 ^ 9 \<le> std_nanos ?d" "std_nanos ?d \<le> 1800 * 10 ^ 9"
    using p by (auto simp: retry_delay_derived std_nanos_def min_def)
  with utc_checked_add_SomeD [OF assms(1) due(1)] have "now + 30 * 10 ^ 9 \<le> due" "due \<le> now + 1800 * 10 ^ 9"
    by simp_all
  with due(2) show ?thesis by blast
qed

theorem backoff_bounds_witness:
  "\<exists>r due. record_outcome pdt_add_ref (Some MailEdit) 0 (OFailed Retryable None) 0 = Inr r \<and>
     rc_next_attempt_at r = Some due \<and> 30 * 10 ^ 9 \<le> due"
proof -
  let ?r = "record_outcome pdt_add_ref (Some MailEdit) 0 (OFailed Retryable None) 0"
  have "\<not> isl ?r" "rc_state (projr ?r) = Pending" by code_simp+
  moreover from this(1) have "?r = Inr (projr ?r)" by (metis isl_def sum.collapse(2))
  ultimately show ?thesis using backoff_bounds [OF time_lib_ref] by fastforce
qed

text \<open>
  A read needs no recovery: the state, attempts, next attempt, failure and detail a read shows for an
  attempt whose worker is gone are those a read shows once the attempt has been recovered.
\<close>
theorem dead_attempt_view:
  assumes "cell_is_dead now c" and "cell_recover padd now c = (Inr (), c')"
    and "cell_view padd now c = Inr v"
  shows "\<exists>v'. cell_view padd now c' = Inr v' \<and> rc_state v' = rc_state v \<and>
    rc_attempts v' = rc_attempts v \<and> rc_next_attempt_at v' = rc_next_attempt_at v \<and>
    rc_failure_class v' = rc_failure_class v \<and> rc_detail v' = rc_detail v"
  by (rule cell_view_recover [OF assms])

theorem dead_attempt_view_witness:
  "let c = cell_lease (secs 10) (op_cell_new ''a'' (sample_op ''k'' MailEdit));
       c' = snd (cell_recover pdt_add_ref (secs 20) c)
   in cell_is_dead (secs 20) c \<and> (\<exists>v v'. cell_view pdt_add_ref (secs 20) c = Inr v \<and>
     cell_view pdt_add_ref (secs 20) c' = Inr v' \<and> rc_next_attempt_at v' = rc_next_attempt_at v)"
proof -
  let ?c = "cell_lease (secs 10) (op_cell_new ''a'' (sample_op ''k'' MailEdit))"
  let ?c' = "snd (cell_recover pdt_add_ref (secs 20) ?c)"
  have dead: "cell_is_dead (secs 20) ?c" and "fst (cell_recover pdt_add_ref (secs 20) ?c) = Inr ()"
    and "\<not> isl (cell_view pdt_add_ref (secs 20) ?c)" by code_simp+
  then have "cell_recover pdt_add_ref (secs 20) ?c = (Inr (), ?c')"
    and v: "cell_view pdt_add_ref (secs 20) ?c = Inr (projr (cell_view pdt_add_ref (secs 20) ?c))"
    by (metis prod.collapse, metis isl_def sum.collapse(2))
  from dead_attempt_view [OF dead this] dead v show ?thesis by (auto simp: Let_def)
qed

end
