(* ===== verification/Scope_Props.thy ===== *)
theory Scope_Props
  imports Runs
begin

text \<open>
  The properties of a sync scope: what an apply commits, what a failed one leaves, that a replay changes
  nothing, and who holds a scope.
\<close>

section \<open>What an apply does to the cells\<close>

lemma apply_update_payloads:
  assumes "apply_update tr u c ap = (Inr ap', c')"
  shows "payloads_ok tr u"
proof (cases u)
  case (Delta changed patched removed)
  then obtain ap1 c1 where "upsert_loop tr changed c ap = (Inr ap1, c1)"
    using assms by (auto split: prod.splits sum.splits)
  then show ?thesis using upsert_loop_ok Delta by (fastforce simp: payloads_ok_def)
next
  case (Snapshot objects present)
  then obtain ap1 c1 where "upsert_loop tr objects c ap = (Inr ap1, c1)"
    using assms by (auto split: prod.splits sum.splits)
  then show ?thesis using upsert_loop_ok Snapshot by (fastforce simp: payloads_ok_def)
qed

lemma scope_scalars_insert:
  "scope_scalars (hm_insert k c m) = (scope_scalars m)(k \<mapsto> cell_scalars c)"
  by (auto simp: scope_scalars_def fun_eq_iff)

lemma scope_scalars_Some:
  "scope_scalars m k = Some x \<longleftrightarrow> (\<exists>c. hm_get m k = Some c \<and> x = cell_scalars c)"
  by (auto simp: scope_scalars_def)

lemma cell_scalars_eq:
  "cell_scalars c = cell_scalars d \<longleftrightarrow> sc_token c = sc_token d \<and> sc_lease_expiry c = sc_lease_expiry d \<and>
     sc_state c = sc_state d \<and> sc_window c = sc_window d \<and> sc_collection_tag c = sc_collection_tag d \<and>
     sc_objects c = sc_objects d"
  by (simp add: cell_scalars_def)

text \<open>A successful apply, seen through the fields that are not derived rows.\<close>

lemma applied_scalars:
  assumes "apply_sync_update padd now tr l b s = (Inr ap, s')"
  obtains c where "current_cell l s = Some c" "payloads_ok tr (ab_update b)"
    "scope_scalars (in_scopes s') = (scope_scalars (in_scopes s))(sy_scope l \<mapsto> cell_scalars (cell_after tr b c))"
  using assms
proof (cases rule: apply_sync_update_cases)
  case (applied c ap0 ap' ops s1 s2)
  obtain c1 where c1: "apply_update tr (ab_update b) c \<lparr>ap_upserted = 0, ap_tombstoned = 0, ap_reconciled = 0\<rparr> =
      (Inr ap0, c1)"
    using applied(3) by (metis prod.collapse)
  have "scope_scalars (in_scopes s') =
      scope_scalars (hm_insert (sy_scope l) (cell_after tr b c) (in_scopes s))"
    by (simp add: applied(11-13))
  then show thesis
    using that [OF applied(1) apply_update_payloads [OF c1]] by (simp add: scope_scalars_insert)
qed auto

lemma applied_cell:
  assumes "apply_sync_update padd now tr l b s = (Inr ap, s')"
  obtains c c' where "current_cell l s = Some c" "current_cell l s' = Some c'" "payloads_ok tr (ab_update b)"
    "cell_scalars c' = cell_scalars (cell_after tr b c)"
proof -
  from assms obtain c where c: "current_cell l s = Some c" "payloads_ok tr (ab_update b)"
    "scope_scalars (in_scopes s') = (scope_scalars (in_scopes s))(sy_scope l \<mapsto> cell_scalars (cell_after tr b c))"
    by (rule applied_scalars)
  then have "scope_scalars (in_scopes s') (sy_scope l) = Some (cell_scalars (cell_after tr b c))" by simp
  then obtain c' where c': "hm_get (in_scopes s') (sy_scope l) = Some c'"
    "cell_scalars (cell_after tr b c) = cell_scalars c'"
    by (auto simp: scope_scalars_Some)
  then have "sc_token c' = sy_token l"
    using c(1) cell_after_token [of tr b c] by (simp add: cell_scalars_eq current_cell_Some)
  with c c' show thesis using that by (auto simp: current_cell_Some)
qed

lemma reconcile_loop_counts:
  "reconcile_loop padd now recs ops ap = (Inr ap', ops') \<Longrightarrow>
     ap_upserted ap' = ap_upserted ap \<and> ap_tombstoned ap' = ap_tombstoned ap"
  by (induction padd now recs ops ap rule: reconcile_loop.induct)
    (auto split: option.splits prod.splits sum.splits if_splits)

lemma absent_loop_count: "ap_tombstoned (fst (absent_loop ks c ap)) = ap_tombstoned ap + length ks"
  by (induction ks arbitrary: c ap) (simp_all split: prod.splits)

lemma loop_upserted:
  "ap_upserted (fst (absent_loop ks c ap)) = ap_upserted ap"
  "ap_upserted (fst (remove_loop ks c ap)) = ap_upserted ap"
  by (induction ks arbitrary: c ap) (simp_all split: prod.splits)

section \<open>Committing a delta and a snapshot\<close>

text \<open>
  C25. A committed delta stores, for every key, the payload of the last changed object with that key,
  forgets every removed key, and leaves every other object as it was; it counts the objects it wrote and
  the removed keys that were there.
\<close>
theorem delta_committed:
  assumes ap: "apply_sync_update padd now tr l b s = (Inr ap, s')"
    and u: "ab_update b = Delta changed patched removed"
  shows "\<exists>c c'. current_cell l s = Some c \<and> current_cell l s' = Some c' \<and>
    (\<forall>k. hm_get (sc_objects c') k = (if k \<in> set removed then None
       else case find (\<lambda>x. so_key tr x = k) (rev changed) of
         Some x \<Rightarrow> Some (projr (so_payload tr x)) | None \<Rightarrow> hm_get (sc_objects c) k)) \<and>
    ap_upserted ap = length changed \<and>
    ap_tombstoned ap = card (set removed \<inter> (dom (hm_get (sc_objects c)) \<union> so_key tr ` set changed))"
proof -
  obtain c c' where c: "current_cell l s = Some c" "current_cell l s' = Some c'" "payloads_ok tr (ab_update b)"
    "cell_scalars c' = cell_scalars (cell_after tr b c)"
    using ap by (rule applied_cell)
  have objs: "hm_get (sc_objects c') = updated_objects tr (ab_update b) (hm_get (sc_objects c))"
    using c(4) cell_after_fields(1) [OF c(3)] by (simp add: cell_scalars_eq)
  have counts: "ap_upserted ap = length changed \<and>
      ap_tombstoned ap = card (set removed \<inter> (dom (hm_get (sc_objects c)) \<union> so_key tr ` set changed))"
    using ap
  proof (cases rule: apply_sync_update_cases)
    case (applied d ap0 ap' ops s1 s2)
    let ?z = "\<lparr>ap_upserted = 0, ap_tombstoned = 0, ap_reconciled = 0\<rparr>"
    obtain ap1 c1 where up: "upsert_loop tr changed c ?z = (Inr ap1, c1)"
      and ap0: "ap0 = fst (remove_loop removed c1 ap1)"
      using applied(1,3) c(1) u by (auto split: prod.splits sum.splits)
    note ok = upsert_loop_ok [OF up]
    then have "hm_get (sc_objects c1) = upserted tr changed (hm_get (sc_objects c))" by auto
    then have "dom (hm_get (sc_objects c1)) = dom (hm_get (sc_objects c)) \<union> so_key tr ` set changed"
      by (simp only: dom_upserted)
    with ok show ?thesis
      using reconcile_loop_counts [OF applied(4)] applied(2) remove_loop_count [of removed c1 ap1]
        loop_upserted(2) [of removed c1 ap1] by (simp add: ap0)
  qed auto
  have "hm_get (sc_objects c') k = (if k \<in> set removed then None
       else case find (\<lambda>x. so_key tr x = k) (rev changed) of
         Some x \<Rightarrow> Some (projr (so_payload tr x)) | None \<Rightarrow> hm_get (sc_objects c) k)" for k
    by (simp add: objs u upserted_get restrict_map_def)
  with c counts show ?thesis by blast
qed

theorem delta_committed_witness:
  "let (r, s') = apply_sync_update pdt_add_ref (secs 2) plain_object sample_lease (page_batch (update_delta [(''o'', ''s'')] [''m'']) [''o''] [] None) (snd (run_sample script_synced))
   in \<exists>ap c'. r = Inr ap \<and> ap_upserted ap = 1 \<and> current_cell sample_lease s' = Some c' \<and>
     hm_get (sc_objects c') ''m'' = None \<and> hm_get (sc_objects c') ''o'' = Some ''s''"
proof -
  let ?r = "apply_sync_update pdt_add_ref (secs 2) plain_object sample_lease (page_batch (update_delta [(''o'', ''s'')] [''m'']) [''o''] [] None) (snd (run_sample script_synced))"
  have "\<not> isl (fst ?r)" by code_simp
  then have r: "?r = (Inr (projr (fst ?r)), snd ?r)" by (metis prod.collapse sum.collapse(2))
  have u: "ab_update (page_batch (update_delta [(''o'', ''s'')] [''m'']) [''o''] [] None) = Delta [(''o'', ''s'')] [] [''m'']"
    by (simp add: page_batch_def batch_with_cursor_def update_delta_def)
  from delta_committed [OF r u] obtain c' where "current_cell sample_lease (snd ?r) = Some c'"
    "ap_upserted (projr (fst ?r)) = 1" "hm_get (sc_objects c') ''m'' = None"
    "hm_get (sc_objects c') ''o'' = Some ''s''"
    by (auto simp: plain_object_def)
  with r show ?thesis unfolding case_prod_beta Let_def by (metis fst_conv)
qed

text \<open>
  C26. A committed snapshot is the whole truth about its scope: afterwards a key has an object exactly when
  the snapshot names the key present and the object was listed or already stored, listed payloads win, and
  an object not named present is gone.
\<close>
theorem snapshot_committed:
  assumes ap: "apply_sync_update padd now tr l b s = (Inr ap, s')"
    and u: "ab_update b = Snapshot objects present"
  shows "\<exists>c c'. current_cell l s = Some c \<and> current_cell l s' = Some c' \<and>
    (\<forall>k. hm_get (sc_objects c') k = (if k \<notin> set present then None
       else case find (\<lambda>x. so_key tr x = k) (rev objects) of
         Some x \<Rightarrow> Some (projr (so_payload tr x)) | None \<Rightarrow> hm_get (sc_objects c) k)) \<and>
    dom (hm_get (sc_objects c')) = (dom (hm_get (sc_objects c)) \<union> so_key tr ` set objects) \<inter> set present"
proof -
  obtain c c' where c: "current_cell l s = Some c" "current_cell l s' = Some c'" "payloads_ok tr (ab_update b)"
    "cell_scalars c' = cell_scalars (cell_after tr b c)"
    using ap by (rule applied_cell)
  have objs: "hm_get (sc_objects c') = updated_objects tr (ab_update b) (hm_get (sc_objects c))"
    using c(4) cell_after_fields(1) [OF c(3)] by (simp add: cell_scalars_eq)
  have "hm_get (sc_objects c') k = (if k \<notin> set present then None
       else case find (\<lambda>x. so_key tr x = k) (rev objects) of
         Some x \<Rightarrow> Some (projr (so_payload tr x)) | None \<Rightarrow> hm_get (sc_objects c) k)" for k
    by (simp add: objs u upserted_get restrict_map_def)
  moreover have "dom (hm_get (sc_objects c')) = (dom (hm_get (sc_objects c)) \<union> so_key tr ` set objects) \<inter> set present"
    by (simp add: objs u dom_upserted)
  ultimately show ?thesis using c by blast
qed

theorem snapshot_committed_witness:
  "let (r, s') = apply_sync_update pdt_add_ref (secs 2) plain_object sample_lease (page_batch (Snapshot [(''o'', ''s'')] [''n'', ''o'']) [''o''] [] None) (snd (run_sample script_synced))
   in \<exists>c'. current_cell sample_lease s' = Some c' \<and>
     hm_get (sc_objects c') ''m'' = None \<and> hm_get (sc_objects c') ''o'' = Some ''s''"
proof -
  let ?r = "apply_sync_update pdt_add_ref (secs 2) plain_object sample_lease (page_batch (Snapshot [(''o'', ''s'')] [''n'', ''o'']) [''o''] [] None) (snd (run_sample script_synced))"
  have "\<not> isl (fst ?r)" by code_simp
  then have r: "?r = (Inr (projr (fst ?r)), snd ?r)" by (metis prod.collapse sum.collapse(2))
  have u: "ab_update (page_batch (Snapshot [(''o'', ''s'')] [''n'', ''o'']) [''o''] [] None) = Snapshot [(''o'', ''s'')] [''n'', ''o'']"
    by (simp add: page_batch_def batch_with_cursor_def)
  from snapshot_committed [OF r u] show ?thesis unfolding case_prod_beta Let_def
    by (auto simp: plain_object_def)
qed

text \<open>
  C27. The cursor moves only with a commit that carries one. A committed apply sets the scope's cursor and
  collection tag when its batch has a next state and leaves both alone when it is a streaming page; its
  lease stays current; and no other scope's lease, cursor, window, tag or objects change. (Message rows of other
  scopes of the account may change: threading and the keyword overlay write them.)
\<close>
theorem cursor_moves_with_commit:
  assumes ap: "apply_sync_update padd now tr l b s = (Inr ap, s')"
  shows "\<exists>c c'. current_cell l s = Some c \<and> current_cell l s' = Some c' \<and>
    sc_lease_expiry c' = sc_lease_expiry c \<and> sc_window c' = sc_window c \<and>
    sc_state c' = (case ab_next_state b of None \<Rightarrow> sc_state c | Some st \<Rightarrow> Some st) \<and>
    sc_collection_tag c' = (case ab_next_state b of None \<Rightarrow> sc_collection_tag c | Some _ \<Rightarrow> ab_collection_tag b) \<and>
    (\<forall>sc. sc \<noteq> sy_scope l \<longrightarrow> scope_scalars (in_scopes s') sc = scope_scalars (in_scopes s) sc)"
proof -
  obtain c c' where c: "current_cell l s = Some c" "current_cell l s' = Some c'" "payloads_ok tr (ab_update b)"
    "cell_scalars c' = cell_scalars (cell_after tr b c)"
    using ap by (rule applied_cell)
  obtain d where d: "current_cell l s = Some d"
    "scope_scalars (in_scopes s') = (scope_scalars (in_scopes s))(sy_scope l \<mapsto> cell_scalars (cell_after tr b d))"
    using ap by (rule applied_scalars)
  obtain ap1 c1 where c1: "apply_update tr (ab_update b) c \<lparr>ap_upserted = 0, ap_tombstoned = 0, ap_reconciled = 0\<rparr> =
      (Inr ap1, c1)"
    using apply_update_total [OF c(3)] by blast
  note kept = apply_update_ok(3-7) [OF c1]
  have "sc_lease_expiry c' = sc_lease_expiry c \<and> sc_window c' = sc_window c \<and>
    sc_state c' = (case ab_next_state b of None \<Rightarrow> sc_state c | Some st \<Rightarrow> Some st) \<and>
    sc_collection_tag c' = (case ab_next_state b of None \<Rightarrow> sc_collection_tag c | Some _ \<Rightarrow> ab_collection_tag b)"
    using c(4) kept by (simp add: cell_scalars_eq cell_after_def c1 advance_cursor_state split: option.splits)
  then show ?thesis using c(1,2) d(2) by auto
qed

theorem cursor_moves_with_commit_witness:
  "let (r, s') = apply_sync_update pdt_add_ref (secs 2) plain_object sample_lease (page_batch (update_delta [(''o'', ''s'')] [''m'']) [''o''] [] None) (snd (run_sample script_synced))
   in \<exists>c'. current_cell sample_lease s' = Some c' \<and> sc_state c' = Some ''c''"
proof -
  let ?r = "apply_sync_update pdt_add_ref (secs 2) plain_object sample_lease (page_batch (update_delta [(''o'', ''s'')] [''m'']) [''o''] [] None) (snd (run_sample script_synced))"
  have "\<not> isl (fst ?r)"
    and "map_option sc_state (current_cell sample_lease (snd (run_sample script_synced))) = Some (Some ''c'')"
    by code_simp+
  moreover from this(1) have r: "?r = (Inr (projr (fst ?r)), snd ?r)" by (metis prod.collapse sum.collapse(2))
  ultimately show ?thesis using cursor_moves_with_commit [OF r] unfolding case_prod_beta Let_def
    by (auto simp: page_batch_def batch_with_cursor_def)
qed

section \<open>A failed apply\<close>

lemma upsert_loop_marks:
  assumes "upsert_loop tr objs c ap = (r, c')"
  shows "\<exists>m. c' = c\<lparr>sc_objects := m\<rparr>"
proof (cases r)
  case (Inl e)
  then obtain done' ap1 where "upsert_loop tr done' c ap = (Inr ap1, c')"
    using upsert_loop_err assms by metis
  then show ?thesis using upsert_loop_ok by blast
next
  case (Inr ap1)
  then show ?thesis using upsert_loop_ok assms by blast
qed

definition cell_marks where
  "cell_marks c = (sc_token c, sc_lease_expiry c, sc_state c, sc_window c, sc_collection_tag c)"

lemma cell_marks_objects [simp]: "cell_marks (c\<lparr>sc_objects := m\<rparr>) = cell_marks c"
  and cell_marks_derived [simp]: "cell_marks (apply_derived d c) = cell_marks c"
  by (simp_all add: cell_marks_def)

lemma apply_update_marks:
  assumes "apply_update tr u c ap = (r, c')"
  shows "cell_marks c' = cell_marks c"
proof (cases r)
  case (Inl e)
  then have "upsert_loop tr (update_changed u) c ap = (Inl e, c')"
    using assms by (cases u) (auto simp: Let_def split: prod.splits sum.splits)
  then show ?thesis using upsert_loop_marks by fastforce
next
  case (Inr ap')
  with assms have "apply_update tr u c ap = (Inr ap', c')" by simp
  from apply_update_ok(3-7) [OF this] show ?thesis by (simp add: cell_marks_def)
qed

text \<open>
  C28. A failed apply never moves a cursor. Whatever error it reports, every scope's lease, cursor, window
  and collection tag are as before, so the next pass reads the same changes again.
\<close>
theorem failed_apply_keeps_cursor:
  assumes "apply_sync_update padd now tr l b s = (Inl e, s')"
  shows "map_option (\<lambda>c. (sc_token c, sc_lease_expiry c, sc_state c, sc_window c, sc_collection_tag c))
      (hm_get (in_scopes s') sc) =
    map_option (\<lambda>c. (sc_token c, sc_lease_expiry c, sc_state c, sc_window c, sc_collection_tag c))
      (hm_get (in_scopes s) sc)"
proof -
  have put: "map_option cell_marks (hm_get (in_scopes (put_cell (sy_scope l) c' x)) sc) =
      map_option cell_marks (hm_get (in_scopes s) sc)"
    if "current_cell l s = Some c" "cell_marks c' = cell_marks c" "in_scopes x = in_scopes s" for c c' x
    using that by (auto simp: put_cell_def current_cell_Some)
  have "map_option cell_marks (hm_get (in_scopes s') sc) = map_option cell_marks (hm_get (in_scopes s) sc)"
    using assms
  proof (cases rule: apply_sync_update_cases)
    case (refused c c' e')
    then show ?thesis using put [OF refused(1) apply_update_marks [OF refused(4)]] by simp
  next
    case (unreconciled c c' ap ops e')
    then show ?thesis using put [OF unreconciled(1), of "apply_derived (ab_derived b) c'"]
        apply_update_marks [OF unreconciled(3)] by simp
  qed simp_all
  then show ?thesis unfolding cell_marks_def .
qed

theorem failed_apply_keeps_cursor_witness:
  "let (r, s') = apply_sync_update pdt_add_ref (secs 2) plain_object sample_lease (page_batch (update_delta [(''o'', ''s''), (''q'', [])] []) [''o''] [] None) (snd (run_sample script_synced))
   in isl r \<and> map_option sc_state (hm_get (in_scopes s') sample_scope) = Some (Some ''c'')"
proof -
  let ?r = "apply_sync_update pdt_add_ref (secs 2) plain_object sample_lease (page_batch (update_delta [(''o'', ''s''), (''q'', [])] []) [''o''] [] None) (snd (run_sample script_synced))"
  let ?s = "snd (run_sample script_synced)"
  have l: "isl (fst ?r)"
    and st: "map_option sc_state (hm_get (in_scopes ?s) sample_scope) = Some (Some ''c'')" by code_simp+
  from l have r: "?r = (Inl (projl (fst ?r)), snd ?r)" by (metis prod.collapse sum.collapse(1))
  from failed_apply_keeps_cursor [OF r, of sample_scope] st
  have "map_option sc_state (hm_get (in_scopes (snd ?r)) sample_scope) = Some (Some ''c'')"
    by (cases "hm_get (in_scopes ?s) sample_scope"; cases "hm_get (in_scopes (snd ?r)) sample_scope") auto
  with l show ?thesis unfolding case_prod_beta Let_def by blast
qed

text \<open>
  An apply that fails is not undone: a page whose second object cannot be serialized is refused, and
  its first object is stored all the same, under a cursor that has not moved.
\<close>
theorem failed_apply_is_partial:
  "let s = snd (run_sample script_synced);
       (r, s') = apply_sync_update pdt_add_ref (secs 2) plain_object sample_lease
         (page_batch (update_delta [(''o'', ''s''), (''q'', [])] []) [] [] (Some ''d'')) s
   in r = Inl (Backend ''e'') \<and>
     map_option (\<lambda>c. (sc_state c, hm_get (sc_objects c) ''o'')) (hm_get (in_scopes s) sample_scope) =
       Some (Some ''c'', None) \<and>
     map_option (\<lambda>c. (sc_state c, hm_get (sc_objects c) ''o'')) (hm_get (in_scopes s') sample_scope) =
       Some (Some ''c'', Some ''s'')"
  by code_simp

section \<open>Replaying a page\<close>

text \<open>
  C29. Applying the same batch twice to a scope's cell leaves what applying it once leaves: every object,
  every derived row under every key, the cursor, the tag and the lease. The batch is one whose payloads
  serialize and whose expanded occurrences are only for events it clears first, as the derivation passes build
  it; occurrences of an event that is not cleared would be appended again.
\<close>
theorem apply_replay:
  assumes "payloads_ok tr (ab_update b)" and "occurrences_reset (ab_derived b)"
  shows "cell_equiv (cell_after tr b (cell_after tr b c)) (cell_after tr b c)"
  by (rule cell_after_replay [OF assms])

theorem apply_replay_witness:
  "let b = page_batch (update_delta [(''o'', ''s'')] [''m'']) [''o''] [] (Some ''d'');
       c = (scope_cell_new :: string scope_cell)
   in cell_equiv (cell_after plain_object b (cell_after plain_object b c)) (cell_after plain_object b c)"
proof -
  let ?b = "page_batch (update_delta [(''o'', ''s'')] [''m'']) [''o''] [] (Some ''d'')"
  have "payloads_ok plain_object (ab_update ?b)" "occurrences_reset (ab_derived ?b)"
    by (simp_all add: payloads_ok_def occurrences_reset_def page_batch_def batch_with_cursor_def update_delta_def
        plain_object_def derived_empty_def)
  from apply_replay [OF this] show ?thesis by (simp add: Let_def)
qed

section \<open>Holding a scope\<close>

text \<open>
  A scope has one holder at a time. A claim is refused as held exactly while the scope's lease is
  live, and then changes nothing; otherwise it hands out the next generation of the scope with the
  cursor the scope is at, and that lease is current.
\<close>
theorem claim_scope_exclusive:
  assumes "expiry_after padd now req = Inr expiry"
  shows "claim_sync_scope padd now account scope req s = (Inl ScopeHeld, s) \<and>
      is_some_and (hm_get (in_scopes s) scope) (\<lambda>c. is_live (sc_lease_expiry c) now) \<or>
    (\<exists>claim s'. claim_sync_scope padd now account scope req s = (Inr claim, s') \<and>
      \<not> is_some_and (hm_get (in_scopes s) scope) (\<lambda>c. is_live (sc_lease_expiry c) now) \<and>
      sy_token (cl_lease claim) = fence_bump (scope_gen (in_scopes s) scope) \<and>
      cl_state claim = load_sync_state scope s \<and> current_cell (cl_lease claim) s' \<noteq> None)"
  using assms
  by (auto simp: claim_sync_scope_def Let_def scope_gen_def load_sync_state_def current_cell_def
      scope_cell_new_def is_live_def split: option.splits)

theorem claim_scope_exclusive_witness:
  "fst (claim_sync_scope pdt_add_ref (secs 5) ''a'' sample_scope sample_request
     (snd (run_sample script_synced))) = Inl ScopeHeld"
proof -
  let ?s = "snd (run_sample script_synced)"
  have "expiry_after pdt_add_ref (secs 5) sample_request = Inr (secs 15)"
    "is_some_and (hm_get (in_scopes ?s) sample_scope) (\<lambda>c. is_live (sc_lease_expiry c) (secs 5))" by code_simp+
  from claim_scope_exclusive [OF this(1), of "''a''" sample_scope ?s] this(2) show ?thesis by auto
qed

text \<open>
  Forgetting a scope empties it and keeps its generation: afterwards it has no cursor, no objects and
  no derived rows, every lease that was stale stays stale, and the next claim supersedes them all.
\<close>
theorem forget_keeps_generation:
  assumes "forget_scope_under l s = (Inr (), s')"
  shows "load_sync_state (sy_scope l) s' = None \<and> scope_gen (in_scopes s') = scope_gen (in_scopes s) \<and>
    (\<exists>c. hm_get (in_scopes s') (sy_scope l) = Some c \<and> sc_objects c = [] \<and> sc_lease_expiry c = None \<and>
       (\<forall>k. cell_slice c k = empty_slice)) \<and>
    (\<forall>l'. current_cell l' s = None \<longrightarrow> current_cell l' s' = None)"
proof -
  obtain c where c: "current_cell l s = Some c"
    and s': "s' = put_cell (sy_scope l) (scope_cell_new\<lparr>sc_token := sc_token c\<rparr>) s"
    using assms by (auto simp: forget_scope_under_def split: option.splits)
  have "current_cell l' s' = None" if "current_cell l' s = None" for l'
    using that c by (auto simp: s' current_cell_None current_cell_Some put_cell_def)
  moreover have "\<exists>d. hm_get (in_scopes s') (sy_scope l) = Some d \<and> sc_objects d = [] \<and> sc_lease_expiry d = None \<and>
      sc_state d = None \<and> (\<forall>k. cell_slice d k = empty_slice)"
    by (simp add: s' put_cell_def scope_cell_new_def cell_slice_def empty_slice_def)
  ultimately show ?thesis
    using lease_ops_gen(3) [OF assms] by (auto simp: load_sync_state_def)
qed

theorem forget_keeps_generation_witness:
  "let (r, s') = forget_scope_under sample_lease (snd (run_sample script_synced))
   in r = Inr () \<and> load_sync_state sample_scope s' = None"
proof -
  let ?r = "forget_scope_under sample_lease (snd (run_sample script_synced))"
  have f: "fst ?r = Inr ()" by code_simp
  then have "?r = (Inr (), snd ?r)" by (metis prod.collapse)
  from forget_keeps_generation [OF this] f show ?thesis
    unfolding case_prod_beta Let_def by (simp add: sample_lease_def)
qed

text \<open>
  After a restart nothing is stuck behind a lease nobody holds: once the leases have been abandoned,
  every lease that was held is stale and every scope can be claimed at once.
\<close>
theorem abandoned_scopes_claimable:
  assumes "abandon_sync_leases s = (r, s')" and "expiry_after padd now req = Inr expiry"
  shows "(\<forall>l c. current_cell l s = Some c \<and> sc_lease_expiry c \<noteq> None \<longrightarrow> current_cell l s' = None) \<and>
    (\<forall>account scope. \<exists>claim s''. claim_sync_scope padd now account scope req s' = (Inr claim, s''))"
proof -
  have s': "in_scopes s' = map_values abandon_cell (in_scopes s)"
    using assms(1) by (auto simp: abandon_sync_leases_def)
  have "current_cell l s' = None" if "current_cell l s = Some c" "sc_lease_expiry c \<noteq> None" for l c
    using that by (auto simp: current_cell_Some current_cell_None s' abandon_cell_def fence_bump_def)
  moreover have "\<exists>claim s''. claim_sync_scope padd now account scope req s' = (Inr claim, s'')" for account scope
    using assms(2) by (auto simp: claim_sync_scope_def s' abandon_cell_def is_live_def scope_cell_new_def Let_def
        split: option.splits)
  ultimately show ?thesis by blast
qed

theorem abandoned_scopes_claimable_witness:
  "let s' = snd (abandon_sync_leases (snd (run_sample script_synced)))
   in current_cell sample_lease s' = None \<and>
     (\<exists>claim s''. claim_sync_scope pdt_add_ref (secs 5) ''a'' sample_scope sample_request s' = (Inr claim, s''))"
proof -
  let ?s = "snd (run_sample script_synced)"
  have held: "is_some_and (current_cell sample_lease ?s) (\<lambda>c. sc_lease_expiry c \<noteq> None)"
    and e: "expiry_after pdt_add_ref (secs 5) sample_request = Inr (secs 15)" by code_simp+
  from abandoned_scopes_claimable [OF prod.collapse [symmetric, of "abandon_sync_leases ?s"] e] held show ?thesis
    unfolding Let_def by (auto simp: is_some_and_def split: option.splits)
qed

end
