(* ===== verification/Threading_Props.thy ===== *)
theory Threading_Props
  imports Runs
begin

text \<open>
  The properties of thread maintenance: the batch's groups are the connected components of its shared ids,
  each group and the stored threads it reaches end in one thread, and where two groups of one batch reach
  the same stored thread they do not.
\<close>

text \<open>
  C31. Grouping terminates and is right. On every batch whose messages carry ids, the union-find loops
  return, every message is filed in exactly one group, and two messages are in the same group exactly when
  a chain of shared ids connects them.
\<close>
theorem components_are_connected:
  assumes "graphed_ok graphed by_key"
  shows "\<exists>comps. components graphed by_key = Some comps \<and> mset (concat comps) = mset graphed \<and>
    (\<forall>C \<in> set comps. C \<noteq> [] \<and>
       (\<forall>r \<in> set C. set C = {s. (r, s) \<in> (share_id graphed by_key)\<^sup>*}))"
  by (rule components_spec [OF assms])

definition sample_ref :: "string \<Rightarrow> string \<Rightarrow> bool \<Rightarrow> mail_ref_row" where
  "sample_ref key msgid owned = \<lparr>rr_key = key, rr_msgid = msgid, rr_owned = owned\<rparr>"

theorem components_are_connected_witness:
  "let by_key = group_by_key rr_key [sample_ref ''x'' ''a'' True, sample_ref ''y'' ''a'' False];
       graphed = [sample_message ''x'', sample_message ''y'']
   in \<exists>comps. components graphed by_key = Some comps \<and> mset (concat comps) = mset graphed"
proof -
  let ?by = "group_by_key rr_key [sample_ref ''x'' ''a'' True, sample_ref ''y'' ''a'' False]"
  have "graphed_ok [sample_message ''x'', sample_message ''y''] ?by" by code_simp
  from components_are_connected [OF this] show ?thesis by (auto simp: Let_def)
qed

text \<open>
  C33. Thread maintenance returns on every input, so a sync that reaches it completes: the two loops of the
  forest end whatever the batch, the stored messages and their ids are.
\<close>
theorem assign_threads_terminates:
  "\<exists>scopes'. assign_threads scopes account scope messages refs = Some scopes' \<and>
    scope_scalars scopes' = scope_scalars scopes"
proof -
  obtain scopes' where s: "assign_threads scopes account scope messages refs = Some scopes'"
    using assign_threads_returns by blast
  then obtain asg where "scopes' = fold set_thread asg scopes" using assign_threads_writes by blast
  then have "scope_scalars scopes' = scope_scalars scopes"
    by (simp add: fold_keeps [where f = scope_scalars])
  with s show ?thesis by blast
qed

text \<open>
  C32. One group, one thread. When no stored thread is reached from two groups of the batch, every message of a
  group and every stored message under a thread the group reached ends in the thread the group is named
  after, wherever in the account it is stored.
\<close>
theorem component_shares_thread:
  assumes "assign_threads scopes account scope messages refs = Some scopes'"
    and "by_key = group_by_key rr_key refs"
    and "components (graphed_rows by_key messages) by_key = Some comps"
    and "stored = account_members scopes account" and "maps_ok scopes"
    and "refs_stored scopes scope by_key" and "reach_apart stored by_key comps"
    and "C \<in> set comps" and "thread_name stored by_key C = Some t"
    and "(s, k) \<in> component_targets stored scope by_key C" and "thread_of scopes s k \<noteq> None"
  shows "thread_of scopes' s k = Some (Some t)"
  by (rule assign_threads_component [OF assms])

text \<open>A message \<open>m\<close> that refers to two messages not yet there, and then those two, together or in turn.\<close>

definition refs_m :: "mail_ref_row list" where
  "refs_m = [sample_ref ''m'' ''c'' True, sample_ref ''m'' ''a'' False, sample_ref ''m'' ''b'' False]"

definition script_reply_first :: sample_script where
  "script_reply_first =
    [(0, CClaimScope ''a'' sample_scope sample_request),
     (secs 1, CApply sample_lease (page_batch (update_delta [(''m'', ''p'')] []) [''m''] refs_m None))]"

definition script_together :: sample_script where
  "script_together = script_reply_first @
    [(secs 2, CApply sample_lease (page_batch (update_delta [(''x'', ''p''), (''y'', ''p'')] []) [''x'', ''y'']
        [sample_ref ''x'' ''a'' True, sample_ref ''y'' ''b'' True] None))]"

definition script_in_turn :: sample_script where
  "script_in_turn = script_reply_first @
    [(secs 2, CApply sample_lease (page_batch (update_delta [(''x'', ''p'')] []) [''x'']
        [sample_ref ''x'' ''a'' True] None)),
     (secs 3, CApply sample_lease (page_batch (update_delta [(''y'', ''p'')] []) [''y'']
        [sample_ref ''y'' ''b'' True] None))]"

definition threads_after :: "sample_script \<Rightarrow> thread_id option option list" where
  "threads_after script =
     map (thread_of (in_scopes (snd (run_sample script))) sample_scope) [''m'', ''x'', ''y'']"

text \<open>The stored ids compared on the keys the batch names.\<close>

lemma refs_stored_iff:
  "refs_stored scopes scope by_key \<longleftrightarrow> (case hm_get scopes scope of None \<Rightarrow> True | Some cell \<Rightarrow>
     list_all (\<lambda>k. hm_get by_key k = None \<or> hm_get (sc_refs cell) k = hm_get by_key k) (hm_keys by_key))"
proof (cases "hm_get scopes scope")
  case (Some cell)
  have "(\<forall>k ids. hm_get by_key k = Some ids \<longrightarrow> hm_get (sc_refs cell) k = Some ids) \<longleftrightarrow>
      (\<forall>k \<in> set (hm_keys by_key). hm_get by_key k = None \<or> hm_get (sc_refs cell) k = hm_get by_key k)"
    by (metis (no_types, opaque_lifting) hm_mem_keys not_None_eq option.discI)
  with Some show ?thesis by (auto simp: refs_stored_def list_all_iff)
qed (simp add: refs_stored_def)

theorem component_shares_thread_witness:
  "let scopes = in_scopes (snd (run_sample script_reply_first));
       scopes' = the (assign_threads scopes ''a'' sample_scope [sample_message ''m''] refs_m)
   in thread_of scopes' sample_scope ''m'' = Some (Some ''c'')"
proof -
  let ?scopes = "in_scopes (snd (run_sample script_reply_first))"
  let ?by = "group_by_key rr_key refs_m" and ?C = "[sample_message ''m'']"
  let ?st = "account_members ?scopes ''a''"
  obtain scopes' where s': "assign_threads ?scopes ''a'' sample_scope ?C refs_m = Some scopes'"
    using assign_threads_terminates by blast
  have "components (graphed_rows ?by ?C) ?by = Some [?C]" "maps_ok ?scopes"
    "reach_apart ?st ?by [?C]" "thread_name ?st ?by ?C = Some ''c''"
    "(sample_scope, ''m'') \<in> component_targets ?st sample_scope ?by ?C"
    "thread_of ?scopes sample_scope ''m'' \<noteq> None" by code_simp+
  moreover have "refs_stored ?scopes sample_scope ?by" unfolding refs_stored_iff by code_simp
  ultimately have "thread_of scopes' sample_scope ''m'' = Some (Some ''c'')"
    using component_shares_thread [OF s' refl _ refl] by (meson list.set_intros(1))
  with s' show ?thesis by (simp add: Let_def)
qed

text \<open>
  The grouping of a batch depends on what arrives together. Two messages that share no id with each
  other and are both referred to by one stored message end in two different threads when they arrive in
  one page, and in one thread, with the stored message, when they arrive in two.
\<close>
theorem page_splits_conversation:
  "threads_after script_together = [Some (Some ''b''), Some (Some ''a''), Some (Some ''b'')] \<and>
   threads_after script_in_turn = [Some (Some ''a''), Some (Some ''a''), Some (Some ''a'')]"
  by code_simp

end
