(* ===== verification/Mail_Props.thy ===== *)
theory Mail_Props
  imports Runs
begin

text \<open>
  The properties of the mail vocabulary and the keyword overlay: canonical keywords, the flag word, the
  message-id rows, what a queued keyword change shows, and the window and duration arithmetic beside them.
\<close>

section \<open>Keywords\<close>

lemma ascii_lower_good:
  assumes "\<not> kw_bad_byte b"
  shows "\<not> kw_bad_byte (ascii_lower b)" "ascii_lower (ascii_lower b) = ascii_lower b"
proof -
  have r: "33 \<le> (of_char b :: nat)" "(of_char b :: nat) \<le> 126" using assms by (auto simp: kw_bad_byte_def)
  show "\<not> kw_bad_byte (ascii_lower b)" "ascii_lower (ascii_lower b) = ascii_lower b"
  proof (atomize (full), cases "65 \<le> (of_char b :: nat) \<and> (of_char b :: nat) \<le> 90")
    case True
    have low: "(of_char (ascii_lower b) :: nat) = of_char b + 32" using True by (simp add: ascii_lower_def)
    then have "ascii_lower b \<notin> set kw_forbidden" using True by (auto simp: kw_forbidden_def)
    then have "\<not> kw_bad_byte (ascii_lower b)" using True low by (simp add: kw_bad_byte_def)
    moreover have "ascii_lower (ascii_lower b) = ascii_lower b" using True low by (simp add: ascii_lower_def [of "ascii_lower b"])
    ultimately show "\<not> kw_bad_byte (ascii_lower b) \<and> ascii_lower (ascii_lower b) = ascii_lower b" by blast
  qed (use assms in \<open>auto simp: ascii_lower_def\<close>)
qed

text \<open>
  A keyword is stored in one spelling. Whatever string a keyword is built from, the result is not empty,
  has at most 255 bytes, none of them forbidden, and building a keyword from it gives it back unchanged.
\<close>
theorem keyword_canonical:
  assumes "keyword_new value = Inr kw"
  shows "kw \<noteq> [] \<and> length kw \<le> 255 \<and> list_all (\<lambda>b. \<not> kw_bad_byte b) kw \<and> keyword_new kw = Inr kw"
proof -
  have v: "value \<noteq> []" "length value \<le> 255" "find kw_bad_byte value = None" "kw = map ascii_lower value"
    using assms by (auto simp: keyword_new_def keyword_max_len_def split: if_splits option.splits)
  then have good: "\<forall>b \<in> set value. \<not> kw_bad_byte b" by (simp add: find_None_iff)
  have "find kw_bad_byte kw = None" "map ascii_lower kw = kw"
    using good ascii_lower_good by (auto simp: v(4) find_None_iff)
  with v good ascii_lower_good show ?thesis
    by (auto simp: keyword_new_def keyword_max_len_def list_all_iff)
qed

theorem keyword_canonical_witness: "keyword_new ''$Seen'' = Inr ''$seen'' \<and> keyword_new ''$seen'' = Inr ''$seen''"
proof -
  have "keyword_new ''$Seen'' = Inr ''$seen''" by code_simp
  with keyword_canonical [OF this] show ?thesis by blast
qed

text \<open>
  The nine standard keywords and their canonical strings correspond one to one: reading a string back
  gives a system keyword exactly when the string is that keyword's own.
\<close>
theorem system_keyword_roundtrip_iff:
  "system_from_canonical v = Some k \<longleftrightarrow> v = system_as_str k"
  by (rule system_from_canonical_iff)

text \<open>
  C28. The flag word of a message says what its keyword set says: each of the four flags is set exactly when
  its keyword is in the set, whatever else is, and the message is unread exactly when it has neither
  \<open>$seen\<close> nor \<open>$draft\<close>.
\<close>
theorem flag_word_reads_keywords:
  "(flags_seen (flags_from_keywords kws) \<longleftrightarrow> ''$seen'' \<in> set kws) \<and>
   (flags_flagged (flags_from_keywords kws) \<longleftrightarrow> ''$flagged'' \<in> set kws) \<and>
   (flags_draft (flags_from_keywords kws) \<longleftrightarrow> ''$draft'' \<in> set kws) \<and>
   (flags_answered (flags_from_keywords kws) \<longleftrightarrow> ''$answered'' \<in> set kws) \<and>
   (flags_is_unread (flags_from_keywords kws) \<longleftrightarrow> ''$seen'' \<notin> set kws \<and> ''$draft'' \<notin> set kws)"
  by (simp add: flags_from_keywords_read flags_is_unread_def)

section \<open>The keyword overlay\<close>

lemma replace_kind_keywords:
  "mb_value ` set (filter (\<lambda>m. mb_kind m = kind) (replace_kind key kind vs ms)) = set vs"
  by (force simp: replace_kind_def membership_rows_def)

text \<open>
  A queued keyword change is visible at once. After it is queued, every copy of the message the account
  holds, in whichever scope, shows the server's keywords with every unsettled change applied in order: the
  last unsettled change that names a keyword decides it, a keyword none names is as the server last reported
  it, and the copy's flag word agrees with its keyword rows.
\<close>
theorem queued_edit_shows:
  assumes held: "held_keywords (in_scopes s) account (ke_key e) = Some held"
    and sc: "scope_account sc = account" "hm_get (in_scopes s) sc = Some c"
    and row: "hm_get (sc_messages c) (ke_key e) = Some row"
    and server: "server = (case hm_get (in_server_keywords s) (account, ke_key e) of None \<Rightarrow> held | Some sv \<Rightarrow> sv)"
  shows "\<exists>c' row' shown. hm_get (in_scopes (keyword_edit_queued account e s)) sc = Some c' \<and>
    hm_get (sc_messages c') (ke_key e) = Some row' \<and> mr_flags row' = flags_from_keywords shown \<and>
    mb_value ` set (filter (\<lambda>m. mb_kind m = MkKeyword) (or_default (hm_get (sc_memberships c') (ke_key e)))) = set shown \<and>
    (\<forall>kw. kw \<in> set shown \<longleftrightarrow>
       (case find (names_keyword kw) (rev (unsettled_edits (in_ops s) account (ke_key e))) of
          None \<Rightarrow> kw \<in> set server | Some e' \<Rightarrow> kw \<in> set (ke_add e')))"
proof -
  let ?shown = "edit_shown server (unsettled_edits (in_ops s) account (ke_key e))"
  have "hm_get (in_scopes (keyword_edit_queued account e s)) sc = Some (show_cell (ke_key e) ?shown c)"
    using sc by (simp add: keyword_edit_queued_def held server inner_show_def show_keywords_get Let_def)
  moreover have "hm_get (sc_messages (show_cell (ke_key e) ?shown c)) (ke_key e) =
      Some (row\<lparr>mr_flags := flags_from_keywords ?shown\<rparr>)"
    by (simp add: show_cell_def row)
  moreover have "mb_value ` set (filter (\<lambda>m. mb_kind m = MkKeyword)
      (or_default (hm_get (sc_memberships (show_cell (ke_key e) ?shown c)) (ke_key e)))) = set ?shown"
    using replace_kind_keywords by (simp add: show_cell_def row or_default_def)
  ultimately show ?thesis using edit_shown_last_wins by (intro exI [of _ ?shown] exI conjI) auto
qed

theorem queued_edit_shows_witness:
  "let s = snd (run_sample script_synced); e = \<lparr>ke_key = ''m'', ke_add = [''$seen''], ke_remove = []\<rparr>
   in \<exists>c' row'. hm_get (in_scopes (keyword_edit_queued ''a'' e s)) sample_scope = Some c' \<and>
     hm_get (sc_messages c') ''m'' = Some row'"
proof -
  let ?s = "snd (run_sample script_synced)" and ?e = "\<lparr>ke_key = ''m'', ke_add = [''$seen''], ke_remove = []\<rparr>"
  have "held_keywords (in_scopes ?s) ''a'' (ke_key ?e) = Some []" "scope_account sample_scope = ''a''"
    "is_some_and (hm_get (in_scopes ?s) sample_scope) (\<lambda>c. hm_get (sc_messages c) (ke_key ?e) \<noteq> None)"
    by code_simp+
  then obtain c row where "held_keywords (in_scopes ?s) ''a'' (ke_key ?e) = Some []" "scope_account sample_scope = ''a''"
    "hm_get (in_scopes ?s) sample_scope = Some c" "hm_get (sc_messages c) (ke_key ?e) = Some row"
    by (auto simp: is_some_and_def split: option.splits)
  from queued_edit_shows [OF this refl] show ?thesis by (auto simp: Let_def)
qed

section \<open>Message ids\<close>

text \<open>
  The graph rows of a message the provider did not thread name each of its own ids and each id it
  refers to exactly once, under its own key, and mark as owned exactly its own; a message the provider
  threaded has none.
\<close>
theorem project_refs_exact:
  "distinct (map rr_msgid (project_refs key ids irt refs thread)) \<and>
   (\<forall>r \<in> set (project_refs key ids irt refs thread). rr_key r = key) \<and>
   (if is_some_and thread (\<lambda>t. \<not> thread_is_derived t) then project_refs key ids irt refs thread = []
    else row_ids (project_refs key ids irt refs thread) = set ids \<union> set irt \<union> set refs \<and>
      owned_ids (project_refs key ids irt refs thread) = set ids)"
  using project_refs_distinct project_refs_key project_refs_rows [of thread key ids irt refs]
  by (auto simp: project_refs_def)

theorem project_refs_exact_witness:
  "owned_ids (project_refs ''k'' [''a''] [''b''] [''a'', ''c''] None) = {''a''}"
  using project_refs_exact [of "''k''" "[''a'']" "[''b'']" "[''a'', ''c'']" None] by simp

section \<open>Windows and durations\<close>

text \<open>
  The overlap test is interval intersection: an occurrence overlaps a window exactly when some instant it
  covers lies in the window, where a zero-length occurrence covers its own instant.
\<close>
theorem overlaps_is_intersection:
  assumes "horizon_new a b = Some h" and "s \<le> e"
  shows "horizon_overlaps h s e \<longleftrightarrow> (if s = e then {s} else {s..<e}) \<inter> {a..<b} \<noteq> {}"
  using horizon_overlaps_iff [OF assms] by (simp add: covered_def)

theorem overlaps_is_intersection_witness:
  "horizon_overlaps \<lparr>hz_start = 0, hz_end = 10\<rparr> 0 0 \<and> \<not> horizon_overlaps \<lparr>hz_start = 0, hz_end = 10\<rparr> 10 12"
  using overlaps_is_intersection [of 0 10 "\<lparr>hz_start = 0, hz_end = 10\<rparr>" 0 0]
    overlaps_is_intersection [of 0 10 "\<lparr>hz_start = 0, hz_end = 10\<rparr>" 10 12] by (simp add: horizon_new_def)

end
