(* ===== verification/Reads.thy ===== *)
theory Reads
  imports Outbox_Inv "HOL-Library.Option_ord" "HOL-Library.Multiset"
begin

text \<open>
  The lease-free reads of the in-memory store (\<open>engine-store/src/mem/read.rs\<close>): scope state and objects,
  the mail list, the occurrences of a window, the queue and the state of one op. A read changes nothing; a
  queued op whose worker is gone is shown as recovery would leave it, without recovering it.
\<close>

section \<open>Scopes and objects\<close>

definition has_ungrouped_graphed_mail :: "account_id \<Rightarrow> 'v inner \<Rightarrow> bool" where
  "has_ungrouped_graphed_mail account s \<longleftrightarrow>
     list_ex (\<lambda>(scope, cell). scope_account scope = account \<and>
       list_ex (\<lambda>(key, row). mr_thread_id row = None \<and> is_some_and (hm_get (sc_refs cell) key) (\<lambda>ids. ids \<noteq> []))
         (sc_messages cell)) (in_scopes s)"

definition expansion_window_of :: "sync_scope \<Rightarrow> 'v inner \<Rightarrow> expansion_window option" where
  "expansion_window_of scope s = Option.bind (hm_get (in_scopes s) scope) sc_window"

definition collection_tag_of :: "sync_scope \<Rightarrow> 'v inner \<Rightarrow> collection_tag option" where
  "collection_tag_of scope s = Option.bind (hm_get (in_scopes s) scope) sc_collection_tag"

definition object_keys :: "sync_scope \<Rightarrow> 'v inner \<Rightarrow> provider_key list" where
  "object_keys scope s = sort (case hm_get (in_scopes s) scope of None \<Rightarrow> [] | Some c \<Rightarrow> hm_keys (sc_objects c))"

definition object_payload :: "sync_scope \<Rightarrow> provider_key \<Rightarrow> 'v inner \<Rightarrow> 'v option" where
  "object_payload scope key s = Option.bind (hm_get (in_scopes s) scope) (\<lambda>c. hm_get (sc_objects c) key)"

definition scope_objects :: "sync_scope \<Rightarrow> 'v inner \<Rightarrow> (provider_key \<times> 'v) list" where
  "scope_objects scope s =
     sort_key fst (case hm_get (in_scopes s) scope of None \<Rightarrow> [] | Some c \<Rightarrow> sc_objects c)"

section \<open>The mail list\<close>

datatype mail_selector = Newest | Threads "thread_id list" | Keys "provider_key list"

record mail_list_row =
  ml_account :: account_id
  ml_mailboxes :: "mailbox_id list"
  ml_keywords :: "keyword list"
  ml_mail :: mail_row

fun selects :: "mail_selector \<Rightarrow> provider_key \<Rightarrow> thread_id option \<Rightarrow> bool" where
  "selects Newest key thread \<longleftrightarrow> True"
| "selects (Threads ts) key thread \<longleftrightarrow> is_some_and thread (\<lambda>t. t \<in> set ts)"
| "selects (Keys ks) key thread \<longleftrightarrow> key \<in> set ks"

definition keywords_of :: "'v scope_cell \<Rightarrow> provider_key \<Rightarrow> keyword list" where
  "keywords_of c key = List.map_filter
     (\<lambda>m. case keyword_new (mb_value m) of Inl _ \<Rightarrow> None | Inr kw \<Rightarrow> Some kw)
     (filter (\<lambda>m. mb_kind m = MkKeyword) (or_default (hm_get (sc_memberships c) key)))"

text \<open>\<open>MailboxId::try_from(&str)\<close> refuses only the empty string.\<close>

definition mailboxes_of :: "'v scope_cell \<Rightarrow> provider_key \<Rightarrow> mailbox_id list" where
  "mailboxes_of c key = List.map_filter (\<lambda>m. if mb_value m = [] then None else Some (mb_value m))
     (filter (\<lambda>m. mb_kind m = MkMailbox) (or_default (hm_get (sc_memberships c) key)))"

definition scope_mail_rows :: "mail_selector \<Rightarrow> sync_scope \<times> 'v scope_cell \<Rightarrow> mail_list_row list" where
  "scope_mail_rows select = (\<lambda>(scope, cell).
     map (\<lambda>(key, mail). \<lparr>ml_account = scope_account scope, ml_mailboxes = mailboxes_of cell key,
            ml_keywords = keywords_of cell key, ml_mail = mail\<rparr>)
       (filter (\<lambda>(key, mail). selects select key (mr_thread_id mail)) (sc_messages cell)))"

text \<open>
  The order of the list: newest first, undated last, then by account and key. \<open>Reverse\<close> of an optional date
  is an undated flag, then the negated instant.
\<close>

definition list_order :: "mail_list_row \<Rightarrow> (bool \<times> int) \<times> account_id \<times> provider_key" where
  "list_order r =
     ((case mr_date_utc (ml_mail r) of None \<Rightarrow> (True, 0) | Some d \<Rightarrow> (False, - d)),
      ml_account r, mr_key (ml_mail r))"

definition mail_rows :: "account_id list \<Rightarrow> mail_selector \<Rightarrow> 'v inner \<Rightarrow> mail_list_row list" where
  "mail_rows accounts select s = concat (map (scope_mail_rows select)
     (filter (\<lambda>(scope, _). scope_account scope \<in> set accounts) (in_scopes s)))"

definition list_mail :: "account_id list \<Rightarrow> mail_selector \<Rightarrow> nat \<Rightarrow> 'v inner \<Rightarrow> mail_list_row list" where
  "list_mail accounts select limit s = take limit (sort_key list_order (mail_rows accounts select s))"

section \<open>Occurrences and derived rows\<close>

definition scope_occurrences :: "sync_scope \<Rightarrow> horizon \<Rightarrow> 'v inner \<Rightarrow> occurrence_row list" where
  "scope_occurrences scope window s = (case hm_get (in_scopes s) scope of
      None \<Rightarrow> []
    | Some cell \<Rightarrow>
        sort_key (\<lambda>r. (or_start r, or_end r, or_event r, or_recurrence_id r))
          (filter (\<lambda>r. horizon_overlaps window (or_start r) (or_end r)) (concat (map snd (sc_occurrences cell)))))"

record index_counts =
  ic_fts :: nat
  ic_occurrences :: nat
  ic_message :: nat
  ic_addresses :: nat
  ic_memberships :: nat
  ic_event_index :: nat
  ic_participants :: nat

definition counts_default :: index_counts where
  "counts_default = \<lparr>ic_fts = 0, ic_occurrences = 0, ic_message = 0, ic_addresses = 0, ic_memberships = 0,
     ic_event_index = 0, ic_participants = 0\<rparr>"

definition counts_is_empty :: "index_counts \<Rightarrow> bool" where
  "counts_is_empty c \<longleftrightarrow> ic_fts c = 0 \<and> ic_occurrences c = 0 \<and> ic_message c = 0 \<and> ic_addresses c = 0 \<and>
     ic_memberships c = 0 \<and> ic_event_index c = 0 \<and> ic_participants c = 0"

definition contains_key :: "('k, 'a) hash_map \<Rightarrow> 'k \<Rightarrow> nat" where
  "contains_key m k = (if hm_get m k = None then 0 else 1)"

definition index_row_counts :: "sync_scope \<Rightarrow> provider_key \<Rightarrow> 'v inner \<Rightarrow> index_counts" where
  "index_row_counts scope key s = (case hm_get (in_scopes s) scope of
      None \<Rightarrow> counts_default
    | Some c \<Rightarrow> \<lparr>ic_fts = contains_key (sc_fts c) key,
        ic_occurrences = length (or_default (hm_get (sc_occurrences c) key)),
        ic_message = contains_key (sc_messages c) key,
        ic_addresses = length (or_default (hm_get (sc_addresses c) key)),
        ic_memberships = length (or_default (hm_get (sc_memberships c) key)),
        ic_event_index = contains_key (sc_event_index c) key,
        ic_participants = length (or_default (hm_get (sc_participants c) key))\<rparr>)"

section \<open>The queue\<close>

record 'v pending_op_row =
  pr_id :: pending_op_id
  pr_kind :: "pending_op_kind option"
  pr_idempotency_key :: idempotency_key
  pr_resource_key :: resource_key
  pr_payload :: 'v
  pr_state :: pending_op_state
  pr_attempts :: nat
  pr_next_attempt_at :: "instant option"
  pr_failure_class :: "failure_class option"
  pr_detail :: "string option"

definition pending_op_state_of ::
  "pdt_add \<Rightarrow> instant \<Rightarrow> pending_op_id \<Rightarrow> 'v inner \<Rightarrow> (store_error, pending_op_state option) result" where
  "pending_op_state_of padd now i s = (case hm_get (in_ops s) i of
      None \<Rightarrow> Inr None
    | Some c \<Rightarrow> (case cell_view padd now c of Inl e \<Rightarrow> Inl e | Inr v \<Rightarrow> Inr (Some (rc_state v))))"

definition op_row :: "pending_op_id \<Rightarrow> 'v op_cell \<Rightarrow> recorded \<Rightarrow> 'v pending_op_row" where
  "op_row i c v = \<lparr>pr_id = i, pr_kind = Some (po_kind (oc_op c)),
     pr_idempotency_key = po_idempotency_key (oc_op c), pr_resource_key = po_resource_key (oc_op c),
     pr_payload = po_payload (oc_op c), pr_state = rc_state v, pr_attempts = rc_attempts v,
     pr_next_attempt_at = rc_next_attempt_at v, pr_failure_class = rc_failure_class v,
     pr_detail = rc_detail v\<rparr>"

fun list_ops ::
  "pdt_add \<Rightarrow> instant \<Rightarrow> account_id \<Rightarrow> 'v ops \<Rightarrow> (store_error, 'v pending_op_row list) result" where
  "list_ops padd now account [] = Inr []"
| "list_ops padd now account ((i, c) # ops) =
     (if oc_account c \<noteq> account then list_ops padd now account ops
      else case cell_view padd now c of
        Inl e \<Rightarrow> Inl e
      | Inr v \<Rightarrow>
          (case list_ops padd now account ops of
             Inl e \<Rightarrow> Inl e
           | Inr rows \<Rightarrow>
               Inr (if stays_listed (Some (po_kind (oc_op c))) (rc_state v) then op_row i c v # rows else rows)))"

definition list_pending_ops ::
  "pdt_add \<Rightarrow> instant \<Rightarrow> account_id \<Rightarrow> 'v inner \<Rightarrow> (store_error, 'v pending_op_row list) result" where
  "list_pending_ops padd now account s = list_ops padd now account (in_ops s)"

section \<open>Reading needs no recovery\<close>

lemma cell_recover_account: "cell_recover padd now c = (r, c') \<Longrightarrow> oc_account c' = oc_account c \<and> oc_op c' = oc_op c"
  by (auto simp: cell_recover_def cell_record_def split: sum.splits)

lemma dead_view_Inr:
  assumes "cell_is_dead now c" and "cell_recover padd now c = (Inr (), c')"
  shows "\<exists>v. cell_view padd now c = Inr v"
  using assms by (auto simp: cell_recover_def cell_record_def cell_view_def split: sum.splits)

text \<open>The listing of a queue is the listing of the same queue once its dead attempts are recovered.\<close>

lemma list_ops_recovered:
  assumes "recover_where padd now (\<lambda>c. oc_account c = account \<and> cell_is_dead now c) ops = (Inr n, ops')"
  shows "list_ops padd now account ops' = list_ops padd now account ops"
  using assms
proof (induction ops arbitrary: n ops')
  case (Cons x ops)
  obtain i c where x: "x = (i, c)" by (cases x)
  show ?case
  proof (cases "oc_account c = account \<and> cell_is_dead now c")
    case True
    then obtain c' m ops1 where rec: "cell_recover padd now c = (Inr (), c')"
      "recover_where padd now (\<lambda>c. oc_account c = account \<and> cell_is_dead now c) ops = (Inr m, ops1)"
      "ops' = (i, c') # ops1"
      using Cons.prems by (auto simp: x split: prod.splits sum.splits)
    have acc: "oc_account c' = oc_account c" "oc_op c' = oc_op c" using cell_recover_account [OF rec(1)] by auto
    obtain v where v: "cell_view padd now c = Inr v" using dead_view_Inr True rec(1) by blast
    obtain v' where v': "cell_view padd now c' = Inr v'" "rc_state v' = rc_state v"
      "rc_attempts v' = rc_attempts v" "rc_next_attempt_at v' = rc_next_attempt_at v"
      "rc_failure_class v' = rc_failure_class v" "rc_detail v' = rc_detail v"
      using cell_view_recover [OF _ _ v] True rec(1) by blast
    have "op_row i c' v' = op_row i c v" by (simp add: op_row_def acc v')
    with Cons.IH [OF rec(2)] True v v' acc show ?thesis by (simp add: x rec(3) split: sum.split)
  next
    case False
    then obtain m ops1 where rec: "recover_where padd now (\<lambda>c. oc_account c = account \<and> cell_is_dead now c) ops =
        (Inr n, ops1)" "ops' = (i, c) # ops1"
      using Cons.prems by (auto simp: x split: prod.splits)
    with Cons.IH [OF rec(1)] show ?thesis by (simp add: x split: sum.split)
  qed
qed simp

lemma list_ops_stamped: "list_ops padd now account (map_values (stamp_settled t) ops) = list_ops padd now account ops"
proof (induction ops)
  case (Cons x ops)
  have "cell_view padd now (stamp_settled t c) = cell_view padd now c" for c :: "'a op_cell"
    by (auto simp: stamp_settled_def cell_view_def cell_is_dead_def cell_recorded_def cell_interrupted_def)
  moreover have "op_row i (stamp_settled t c) v = op_row i c v" for i v and c :: "'a op_cell"
    by (simp add: op_row_def stamp_settled_def)
  moreover have "oc_account (stamp_settled t c) = oc_account c" "oc_op (stamp_settled t c) = oc_op c" for c :: "'a op_cell"
    by (simp_all add: stamp_settled_def)
  ultimately show ?case using Cons by (cases x) (simp add: map_values_def split: sum.split)
qed (simp add: map_values_def)

section \<open>The mail list does not depend on the iteration order\<close>

text \<open>
  A sort by a key that tells the rows of a list apart gives one result for every order of them.
\<close>

lemma sort_key_mset_inj:
  assumes "mset xs = mset ys" and "distinct (map f xs)"
  shows "sort_key f xs = sort_key f ys"
proof (rule properties_for_sort_key)
  show "mset (sort_key f ys) = mset xs" using assms(1) by simp
  show "sorted (map f (sort_key f ys))" by simp
  fix k assume "k \<in> set (sort_key f ys)"
  have same: "mset (filter (\<lambda>x. f k = f x) (sort_key f ys)) = mset (filter (\<lambda>x. f k = f x) xs)"
    using assms(1) by simp
  have "length (filter (\<lambda>x. f k = f x) xs) \<le> 1"
    using assms(2) by (induction xs) (auto simp: filter_empty_conv image_iff)
  then consider "filter (\<lambda>x. f k = f x) xs = []" | a where "filter (\<lambda>x. f k = f x) xs = [a]"
    by (cases "filter (\<lambda>x. f k = f x) xs") auto
  then show "filter (\<lambda>x. f k = f x) (sort_key f ys) = filter (\<lambda>x. f k = f x) xs"
    using same by cases (auto simp only: mset.simps mset_zero_iff mset_single_iff)
qed

lemma mset_alist_eq:
  assumes "hm_ok xs" and "hm_ok ys" and "hm_get xs = hm_get ys"
  shows "mset xs = mset ys"
proof -
  have "distinct xs" "distinct ys" using assms(1,2) by (simp_all add: distinct_map)
  moreover have "set xs = set ys" using assms by (simp add: map_of_inject_set)
  ultimately show ?thesis using set_eq_iff_mset_eq_distinct by blast
qed

text \<open>Two cells that answer every lookup of mail and memberships alike, in whatever order they iterate.\<close>

definition mail_alike :: "'v scope_cell \<Rightarrow> 'v scope_cell \<Rightarrow> bool" where
  "mail_alike c d \<longleftrightarrow> hm_ok (sc_messages c) \<and> hm_ok (sc_messages d) \<and>
     hm_get (sc_messages c) = hm_get (sc_messages d) \<and> hm_get (sc_memberships c) = hm_get (sc_memberships d)"

lemma mail_alike_rows:
  assumes "mail_alike c d"
  shows "mset (scope_mail_rows select (sc, c)) = mset (scope_mail_rows select (sc, d))"
proof -
  have "mset (sc_messages c) = mset (sc_messages d)"
    using assms by (auto simp: mail_alike_def intro: mset_alist_eq)
  moreover have "mailboxes_of c = mailboxes_of d" "keywords_of c = keywords_of d"
    using assms by (auto simp: mail_alike_def mailboxes_of_def keywords_of_def fun_eq_iff)
  ultimately show ?thesis by (simp add: scope_mail_rows_def)
qed

definition mail_parts :: "mail_selector \<Rightarrow> 'v inner \<Rightarrow> (sync_scope \<times> mail_list_row multiset) list" where
  "mail_parts select s = map (\<lambda>(sc, c). (sc, mset (scope_mail_rows select (sc, c)))) (in_scopes s)"

lemma mail_parts_get:
  "hm_get (mail_parts select s) sc = map_option (\<lambda>c. mset (scope_mail_rows select (sc, c))) (hm_get (in_scopes s) sc)"
proof -
  have "hm_get (map (\<lambda>(sc, c). (sc, mset (scope_mail_rows select (sc, c)))) xs) sc =
      map_option (\<lambda>c. mset (scope_mail_rows select (sc, c))) (hm_get xs sc)" for xs :: "'a scopes"
    by (induction xs) auto
  then show ?thesis by (simp add: mail_parts_def)
qed

lemma mail_rows_mset:
  "mset (mail_rows accounts select s) =
     sum_mset (image_mset snd (filter_mset (\<lambda>x. scope_account (fst x) \<in> set accounts) (mset (mail_parts select s))))"
proof -
  have "mset (concat (map (scope_mail_rows select) (filter (\<lambda>(scope, _). scope_account scope \<in> set accounts) xs))) =
      sum_mset (image_mset snd (filter_mset (\<lambda>x. scope_account (fst x) \<in> set accounts)
        (mset (map (\<lambda>(sc, c). (sc, mset (scope_mail_rows select (sc, c)))) xs))))" for xs :: "'a scopes"
    by (induction xs) auto
  then show ?thesis by (simp add: mail_rows_def mail_parts_def)
qed

definition ml_identity :: "mail_list_row \<Rightarrow> account_id \<times> provider_key" where
  "ml_identity r = (ml_account r, mr_key (ml_mail r))"

lemma list_mail_alike:
  assumes "hm_ok (in_scopes s)" and "hm_ok (in_scopes s')"
    and same: "\<And>sc. rel_option mail_alike (hm_get (in_scopes s) sc) (hm_get (in_scopes s') sc)"
    and dist: "distinct (map ml_identity (mail_rows accounts select s))"
  shows "list_mail accounts select limit s = list_mail accounts select limit s'"
proof -
  have keys: "hm_keys (mail_parts select t) = hm_keys (in_scopes t)" for t :: "'a inner"
    by (simp add: mail_parts_def case_prod_unfold)
  have "hm_get (mail_parts select s) sc = hm_get (mail_parts select s') sc" for sc
    using same [of sc] unfolding mail_parts_get by (auto elim!: option.rel_cases simp: mail_alike_rows)
  then have "mset (mail_parts select s) = mset (mail_parts select s')"
    using assms(1,2) by (intro mset_alist_eq) (auto simp: keys)
  then have "mset (mail_rows accounts select s) = mset (mail_rows accounts select s')"
    by (simp add: mail_rows_mset)
  moreover have "distinct (map list_order (mail_rows accounts select s))"
  proof -
    have "map ml_identity rows = map snd (map list_order rows)" for rows
      by (simp add: ml_identity_def list_order_def)
    then show ?thesis using dist by (metis distinct_map)
  qed
  ultimately show ?thesis by (simp add: list_mail_def sort_key_mset_inj)
qed

end
