(* ===== verification/Send_Once.thy ===== *)
theory Send_Once
  imports Outbox_Safety
begin

text \<open>
  A message is delivered at most once. A trace is what happens to the store together with the deliveries
  that happen beside it; \<open>lawful\<close> is the discipline the drivers and the provider contract keep:

  \<^item> a worker presents only leases it was handed (\<open>own_leases\<close>);
  \<^item> an attempt delivers once, only after its hand-over was recorded, and not once its failure has been
    recorded or the host has answered that the message was not delivered (\<open>entitled\<close>);
  \<^item> an attempt that delivered is not reported as failed, and the host does not answer that a delivered
    message was not.

  Everything else is free: workers may die, stall past their leases and come back, several may run, and the
  host may hurry, cancel and confirm.
\<close>

section \<open>The discipline\<close>

fun presents :: "('v, 'o, 'p) command \<Rightarrow> op_lease option" where
  "presents (CMark l _) = Some l"
| "presents (CHandOver l) = Some l"
| "presents (CRenewOp l _) = Some l"
| "presents _ = None"

definition own_leases :: "('v, 'o, 'p) history \<Rightarrow> ('v, 'o, 'p) command \<Rightarrow> bool" where
  "own_leases h cmd \<longleftrightarrow> is_none_or (presents cmd) (\<lambda>l. l \<in> minted_before h)"

fun own_failure :: "pending_op_id \<Rightarrow> fence_token \<Rightarrow> ('v, 'o, 'p) command \<times> 'v response \<Rightarrow> bool" where
  "own_failure i t (CMark l (OFailed _ _), RUnit (Inr _)) \<longleftrightarrow> ol_op l = i \<and> ol_token l = t"
| "own_failure i t _ \<longleftrightarrow> False"

definition entitled :: "op_lease \<Rightarrow> ('v, 'o, 'p) history \<Rightarrow> bool" where
  "entitled l h \<longleftrightarrow> (\<exists>h1 h2. h = h1 @ (CHandOver l, RUnit (Inr ())) # h2 \<and>
     \<not> list_ex (own_failure (ol_op l) (ol_token l)) h2 \<and> \<not> list_ex (confirms_undelivered (ol_op l)) h2)"

datatype ('v, 'o, 'p) act = Did "('v, 'o, 'p) command" "'v response" | Delivers op_lease

type_synonym ('v, 'o, 'p) trace = "('v, 'o, 'p) act list"

fun cmds_of :: "('v, 'o, 'p) trace \<Rightarrow> ('v, 'o, 'p) history" where
  "cmds_of [] = []"
| "cmds_of (Did cmd resp # p) = (cmd, resp) # cmds_of p"
| "cmds_of (Delivers _ # p) = cmds_of p"

fun deliveries :: "('v, 'o, 'p) trace \<Rightarrow> op_lease list" where
  "deliveries [] = []"
| "deliveries (Did _ _ # p) = deliveries p"
| "deliveries (Delivers l # p) = l # deliveries p"

lemma cmds_of_append [simp]: "cmds_of (p @ q) = cmds_of p @ cmds_of q"
  by (induction p rule: cmds_of.induct) simp_all

lemma deliveries_append [simp]: "deliveries (p @ q) = deliveries p @ deliveries q"
  by (induction p rule: deliveries.induct) simp_all

fun disciplined :: "('v, 'o, 'p) trace \<Rightarrow> ('v, 'o, 'p) act \<Rightarrow> bool" where
  "disciplined p (Did cmd resp) \<longleftrightarrow> own_leases (cmds_of p) cmd \<and>
     list_all (\<lambda>l. \<not> own_failure (ol_op l) (ol_token l) (cmd, resp) \<and>
       \<not> confirms_undelivered (ol_op l) (cmd, resp)) (deliveries p)"
| "disciplined p (Delivers l) \<longleftrightarrow> entitled l (cmds_of p) \<and> l \<notin> set (deliveries p)"

definition lawful :: "('v, 'o, 'p) trace \<Rightarrow> bool" where
  "lawful p \<longleftrightarrow> (\<forall>k < length p. disciplined (take k p) (p ! k))"

definition honest :: "('v, 'o, 'p) history \<Rightarrow> bool" where
  "honest h \<longleftrightarrow> (\<forall>k < length h. own_leases (take k h) (fst (h ! k)))"

lemma lawful_Nil [simp]: "lawful []"
  by (simp add: lawful_def)

lemma lawful_snoc: "lawful (p @ [x]) \<longleftrightarrow> lawful p \<and> disciplined p x"
  by (auto simp: lawful_def nth_append less_Suc_eq)

lemma honest_snoc: "honest (h @ [x]) \<longleftrightarrow> honest h \<and> own_leases h (fst x)"
  by (auto simp: honest_def nth_append less_Suc_eq)

lemma honest_at: "honest (h1 @ x # h2) \<Longrightarrow> own_leases h1 (fst x)"
  unfolding honest_def by (drule spec [of _ "length h1"]) simp

lemma honest_prefix: "honest (h1 @ h2) \<Longrightarrow> honest h1"
  by (induction h2 rule: rev_induct) (simp_all add: honest_snoc flip: append_assoc)

lemma honest_Nil [simp]: "honest []"
  by (simp add: honest_def)

lemma lawful_honest: "lawful p \<Longrightarrow> honest (cmds_of p)"
  by (induction p rule: rev_induct) (auto simp: lawful_snoc honest_snoc elim: disciplined.elims)

lemma lawful_distinct: "lawful p \<Longrightarrow> distinct (deliveries p)"
proof (induction p rule: rev_induct)
  case (snoc x p)
  then show ?case by (cases x) (auto simp: lawful_snoc)
qed simp

section \<open>After a hand-over\<close>

lemma steps_keeps:
  assumes "steps padd tr s h s'" and "history padd tr h0 s" and "length (h0 @ h) < 2 ^ 64 - 1"
    and "hm_get (in_ops s) i = Some c"
  shows "\<exists>c'. hm_get (in_ops s') i = Some c' \<and> oc_op c' = oc_op c"
  using assms
proof (induction rule: steps.induct)
  case (steps_snoc h s1 now cmd resp s2)
  then obtain c1 where c1: "hm_get (in_ops s1) i = Some c1" "oc_op c1 = oc_op c" by auto
  have "outbox_inv s1"
    using history_outbox [OF history_join [OF steps_snoc.hyps(1) steps_snoc.prems(1)]] steps_snoc.prems(2) by simp
  then obtain es c2 where "hm_get (in_ops s2) i = Some c2" "op_path padd es c1 c2"
    by (rule exec_op_path [OF steps_snoc.hyps(2) _ c1(1)])
  with op_path_keeps c1(2) show ?case by metis
qed simp

text \<open>Where a hand-over was accepted: the op's generation was the lease's, and it was in flight.\<close>

lemma handed_over_at:
  assumes hist: "history padd tr (h1 @ (CHandOver l, RUnit (Inr ())) # h2) s" 
    and len: "2 * length (h1 @ (CHandOver l, RUnit (Inr ())) # h2) < 2 ^ 64"
  obtains s1 s2 c where "history padd tr h1 s1" "hand_over l s1 = (Inr (), s2)"
    "hm_get (in_ops s1) (ol_op l) = Some c" "oc_token c = ol_token l" "steps padd tr s2 h2 s"
    "history padd tr (h1 @ [(CHandOver l, RUnit (Inr ()))]) s2"
proof -
  have "history padd tr ((h1 @ [(CHandOver l, RUnit (Inr ()))]) @ h2) s" using hist by simp
  then obtain s2 where s2: "history padd tr (h1 @ [(CHandOver l, RUnit (Inr ()))]) s2" "steps padd tr s2 h2 s"
    using history_split by blast
  from s2(1) obtain s1 now where s1: "history padd tr h1 s1" "hand_over l s1 = (Inr (), s2)"
    by (cases rule: history_snocE) (auto simp: apfst_def map_prod_def split: prod.splits)
  then obtain c where "hm_get (in_ops s1) (ol_op l) = Some c" "oc_token c = ol_token l"
    by (auto simp: hand_over_def split: option.splits if_splits)
  with s1 s2 that show thesis by blast
qed

text \<open>
  A mark accepted for the op after the hand-over, while nothing has released it, is the same attempt's.
\<close>

lemma mark_is_own:
  assumes hist: "history padd tr h s" and len: "2 * length h < 2 ^ 64"
    and l: "l \<in> minted_before h" and l': "l' \<in> minted_before h" "ol_op l' = ol_op l"
    and latest: "unat (ol_token l') \<le> unat (ol_token l)"
    and mark: "mark padd now l' out s = (Inr (), s')"
  shows "ol_token l' = ol_token l"
proof -
  obtain c where c: "hm_get (in_ops s) (ol_op l) = Some c" "may_mark (ol_token l') c"
    using mark l'(2) by (cases rule: mark_cases) auto
  have "unat (ol_token l) \<le> unat (oc_token c)"
    using history_tok_bound [OF hist len l] c(1) by (simp add: op_gen_def)
  moreover have "unat (ol_token l) \<le> unat t" if "oc_handed_over c = Some t" for t
    by (rule history_handed [OF hist len c(1) that l refl])
  ultimately have "unat (ol_token l) \<le> unat (ol_token l')" using c(2) by (auto simp: may_mark_def)
  with latest show ?thesis by (simp add: word_unat_eq_iff)
qed

lemma minted_before_append: "minted_before (h1 @ h2) = minted_before h1 \<union> minted_before h2"
  by (auto simp: minted_before_def)

lemma minted_before_Cons: "minted_before (x # h) = set (minted_ops (snd x)) \<union> minted_before h"
  by (simp add: minted_before_def)

lemma minted_before_Nil [simp]: "minted_before [] = {}"
  by (simp add: minted_before_def)

lemma no_release_after:
  assumes "history padd tr (h1 @ (CHandOver l, RUnit (Inr ())) # h2) s"
    and "2 * length (h1 @ (CHandOver l, RUnit (Inr ())) # h2) < 2 ^ 64"
    and "honest (h1 @ (CHandOver l, RUnit (Inr ())) # h2)"
    and "\<not> list_ex (own_failure (ol_op l) (ol_token l)) h2" and "\<not> list_ex (confirms_undelivered (ol_op l)) h2"
    and "\<forall>c. hm_get (in_ops s) (ol_op l) = Some c \<longrightarrow> po_kind (oc_op c) = MailSubmit"
  shows "\<not> list_ex (releases_op (ol_op l)) h2 \<and> (\<forall>l' \<in> minted_before h2. ol_op l' \<noteq> ol_op l) \<and>
    l \<in> minted_before h1 \<and> (\<forall>l' \<in> minted_before h1. ol_op l' = ol_op l \<longrightarrow> unat (ol_token l') \<le> unat (ol_token l))"
  using assms
proof (induction h2 arbitrary: s rule: rev_induct)
  case Nil
  let ?ho = "(CHandOver l, RUnit (Inr ()))"
  obtain s1 s2 c where s: "history padd tr h1 s1" "hm_get (in_ops s1) (ol_op l) = Some c" "oc_token c = ol_token l"
    using Nil.prems(1,2) by (rule handed_over_at)
  have "l \<in> minted_before h1" using honest_at [OF Nil.prems(3)] by (simp add: own_leases_def)
  moreover have "unat (ol_token l') \<le> unat (ol_token l)" if "l' \<in> minted_before h1" "ol_op l' = ol_op l" for l'
    using history_tok_bound [OF s(1) _ that(1)] Nil.prems(2) s(2,3) that(2) by (simp add: op_gen_def)
  ultimately show ?case by simp
next
  case (snoc x h2)
  let ?ho = "(CHandOver l, RUnit (Inr ()))" and ?h = "h1 @ (CHandOver l, RUnit (Inr ())) # h2"
  have "history padd tr (?h @ [x]) s" using snoc.prems(1) by simp
  then obtain s0 now cmd resp where x: "history padd tr ?h s0" "x = (cmd, resp)" "exec padd tr now cmd s0 = (resp, s)"
    by (cases rule: history_snocE) auto
  have len: "2 * length ?h < 2 ^ 64" "length (?h @ [x]) < 2 ^ 64 - 1" using snoc.prems(2) by simp_all
  have honest: "honest ?h" "own_leases ?h cmd" using snoc.prems(3) honest_snoc [of ?h x] x(2) by simp_all
  obtain s1 s2 c where ho: "history padd tr h1 s1" "hand_over l s1 = (Inr (), s2)"
    "hm_get (in_ops s1) (ol_op l) = Some c" "steps padd tr s2 h2 s0" "history padd tr (h1 @ [?ho]) s2"
    using x(1) len(1) by (rule handed_over_at)
  have kinds: "\<forall>c. hm_get (in_ops s0) (ol_op l) = Some c \<longrightarrow> po_kind (oc_op c) = MailSubmit"
  proof (intro allI impI)
    fix c0 assume c0: "hm_get (in_ops s0) (ol_op l) = Some c0"
    have "steps padd tr s0 [x] s" using steps_snoc [OF steps_nil x(3)] x(2) by simp
    from steps_keeps [OF this x(1) _ c0] len(2) snoc.prems(6) show "po_kind (oc_op c0) = MailSubmit" by force
  qed
  have IH: "\<not> list_ex (releases_op (ol_op l)) h2" "\<forall>l' \<in> minted_before h2. ol_op l' \<noteq> ol_op l"
    "l \<in> minted_before h1" "\<forall>l' \<in> minted_before h1. ol_op l' = ol_op l \<longrightarrow> unat (ol_token l') \<le> unat (ol_token l)"
    using snoc.IH [OF x(1) len(1) honest(1) _ _ kinds] snoc.prems(4,5) by auto
  have released: "\<not> releases_op (ol_op l) x"
  proof
    assume "releases_op (ol_op l) x"
    then show False
      using x(2) snoc.prems(4,5)
    proof (cases "(ol_op l, x)" rule: releases_op.cases)
      case (1 i l' cls hint u)
      then have mark: "mark padd now l' (OFailed cls hint) s0 = (Inr (), s)" and same: "ol_op l' = ol_op l"
        using x \<open>releases_op (ol_op l) x\<close> by (auto simp: apfst_def map_prod_def split: prod.splits)
      have mh: "l' \<in> minted_before ?h" using honest(2) 1 x(2) by (simp add: own_leases_def)
      then have m1: "l' \<in> minted_before h1"
        using IH(2) same by (auto simp: minted_before_append minted_before_Cons)
      have "ol_token l' = ol_token l"
        by (rule mark_is_own [OF x(1) len(1) _ mh same _ mark])
          (use IH(3,4) same m1 in \<open>auto simp: minted_before_append\<close>)
      with snoc.prems(4) 1 same show False by simp
    qed auto
  qed
  then have none: "\<not> list_ex (releases_op (ol_op l)) (h2 @ [x])" using IH(1) by simp
  let ?c = "c\<lparr>oc_handed_over := Some (ol_token l)\<rparr>"
  have out: "hm_get (in_ops s2) (ol_op l) = Some ?c" "send_is_out ?c"
    using hand_over_out [OF ho(2)] ho(3) by auto
  have st: "steps padd tr s2 (h2 @ [x]) s" using steps_snoc [OF ho(4) x(3)] x(2) by simp
  have len2: "length ((h1 @ [?ho]) @ (h2 @ [x])) < 2 ^ 64 - 1" using len(2) by simp
  have "po_kind (oc_op ?c) = MailSubmit"
    using steps_keeps [OF st ho(5) len2 out(1)] snoc.prems(6) by auto
  from send_not_released [OF st ho(5) len2 out(1) this out(2) none] none IH(3,4) show ?case by blast
qed

section \<open>At most once\<close>

text \<open>An op and a token name one lease.\<close>

lemma history_minted_unique:
  assumes hist: "history padd tr h s" and len: "2 * length h < 2 ^ 64"
    and "l \<in> minted_before h" "l' \<in> minted_before h" "ol_op l = ol_op l'" "ol_token l = ol_token l'"
  shows "l = l'"
proof -
  let ?m = "map (\<lambda>x. minted_ops (snd x)) h"
  have "\<exists>i < length ?m. l \<in> set (?m ! i)" if "l \<in> minted_before h" for l
    using that by (force simp: minted_before_def in_set_conv_nth [of _ h])
  then obtain i j where "i < length ?m" "j < length ?m" "l \<in> set (?m ! i)" "l' \<in> set (?m ! j)"
    using assms(3,4) by meson
  moreover have "length h < 2 ^ 64 - 1" using len by simp
  ultimately show ?thesis
    using op_fence.run_unique [OF history_op_run [OF hist], of i j l l'] len assms(5,6) by simp
qed


lemma two_entitled:
  assumes hist: "history padd tr h s" and len: "2 * length h < 2 ^ 64" and hon: "honest h"
    and kind: "\<forall>c. hm_get (in_ops s) i = Some c \<longrightarrow> po_kind (oc_op c) = MailSubmit"
    and e1: "h = h1 @ (CHandOver l, RUnit (Inr ())) # h2" "ol_op l = i"
      "\<not> list_ex (own_failure i (ol_token l)) h2" "\<not> list_ex (confirms_undelivered i) h2"
    and e2: "h = k1 @ (CHandOver l', RUnit (Inr ())) # k2" "ol_op l' = i"
    and before: "length h1 \<le> length k1"
  shows "ol_token l' = ol_token l"
proof (cases "length h1 = length k1")
  case True
  with e1(1) e2(1) show ?thesis by auto
next
  case False
  let ?ho = "(CHandOver l, RUnit (Inr ()))"
  have "length (h1 @ [?ho]) \<le> length k1" using before False by simp
  then obtain m where k1: "k1 = h1 @ ?ho # m" and h2: "h2 = m @ (CHandOver l', RUnit (Inr ())) # k2"
    using e1(1) e2(1) by (auto simp: append_eq_append_conv2 append_eq_Cons_conv)
  note facts = no_release_after [of padd tr h1 l h2 s]
  have after: "\<forall>l' \<in> minted_before h2. ol_op l' \<noteq> ol_op l" "l \<in> minted_before h1"
    "\<forall>l' \<in> minted_before h1. ol_op l' = ol_op l \<longrightarrow> unat (ol_token l') \<le> unat (ol_token l)"
    using facts hist len hon kind e1 by auto
  have "l' \<in> minted_before k1" using honest_at [of k1 _ k2] hon e2(1) by (fastforce simp: own_leases_def)
  then have "l' \<in> minted_before h1"
    using after(1) e1(2) e2(2) by (auto simp: k1 h2 minted_before_append minted_before_Cons)
  then have le: "unat (ol_token l') \<le> unat (ol_token l)" using after(3) e1(2) e2(2) by simp
  obtain s1 s2 c where s1: "history padd tr k1 s1" "hm_get (in_ops s1) (ol_op l') = Some c" "oc_token c = ol_token l'"
    using hist [unfolded e2(1)] len [unfolded e2(1)] by (rule handed_over_at)
  have "l \<in> minted_before k1" using after(2) by (simp add: k1 minted_before_append)
  from history_tok_bound [OF s1(1) _ this] len e2 s1(2,3) e1(2) have "unat (ol_token l) \<le> unat (ol_token l')"
    by (simp add: op_gen_def)
  with le show ?thesis by (simp add: word_unat_eq_iff)
qed

lemma entitled_minted: "entitled l h \<Longrightarrow> honest h \<Longrightarrow> l \<in> minted_before h"
proof -
  assume "entitled l h" "honest h"
  then obtain h1 h2 where h: "h = h1 @ (CHandOver l, RUnit (Inr ())) # h2" by (auto simp: entitled_def)
  with honest_at \<open>honest h\<close> have "own_leases h1 (CHandOver l)" by fastforce
  then show ?thesis by (simp add: h own_leases_def minted_before_append)
qed

lemma entitled_unique:
  assumes "history padd tr h s" and "2 * length h < 2 ^ 64" and "honest h"
    and "\<forall>c. hm_get (in_ops s) (ol_op l) = Some c \<longrightarrow> po_kind (oc_op c) = MailSubmit"
    and "entitled l h" and "entitled l' h" and same: "ol_op l' = ol_op l"
  shows "l = l'"
proof -
  obtain h1 h2 where e1: "h = h1 @ (CHandOver l, RUnit (Inr ())) # h2" "ol_op l = ol_op l"
    "\<not> list_ex (own_failure (ol_op l) (ol_token l)) h2" "\<not> list_ex (confirms_undelivered (ol_op l)) h2"
    using assms(5) unfolding entitled_def by blast
  obtain k1 k2 where e2: "h = k1 @ (CHandOver l', RUnit (Inr ())) # k2" "ol_op l' = ol_op l"
    "\<not> list_ex (own_failure (ol_op l) (ol_token l')) k2" "\<not> list_ex (confirms_undelivered (ol_op l)) k2"
    using assms(6) unfolding entitled_def same by blast
  have "ol_token l = ol_token l'"
  proof (cases "length h1 \<le> length k1")
    case True
    from two_entitled [OF assms(1-4) e1 e2(1,2) True] show ?thesis by simp
  next
    case False
    then have "length k1 \<le> length h1" by simp
    from two_entitled [OF assms(1-4) e2 e1(1,2) this] show ?thesis by simp
  qed
  with history_minted_unique [OF assms(1,2)] entitled_minted assms(3,5,6) same show ?thesis by metis
qed

lemma entitled_snoc:
  assumes "entitled l h" and "\<not> own_failure (ol_op l) (ol_token l) x" and "\<not> confirms_undelivered (ol_op l) x"
  shows "entitled l (h @ [x])"
proof -
  obtain h1 h2 where "h = h1 @ (CHandOver l, RUnit (Inr ())) # h2"
    "\<not> list_ex (own_failure (ol_op l) (ol_token l)) h2" "\<not> list_ex (confirms_undelivered (ol_op l)) h2"
    using assms(1) unfolding entitled_def by blast
  then show ?thesis using assms(2,3) unfolding entitled_def by (intro exI [of _ h1] exI [of _ "h2 @ [x]"]) simp
qed

lemma lawful_entitled: "lawful p \<Longrightarrow> l \<in> set (deliveries p) \<Longrightarrow> entitled l (cmds_of p)"
proof (induction p rule: rev_induct)
  case (snoc x p)
  then show ?case by (cases x) (auto simp: lawful_snoc list_all_iff intro: entitled_snoc)
qed simp

lemma sent_at_most_once:
  assumes hist: "history padd tr (cmds_of p) s" and len: "2 * length (cmds_of p) < 2 ^ 64" and law: "lawful p"
    and kind: "\<forall>c. hm_get (in_ops s) i = Some c \<longrightarrow> po_kind (oc_op c) = MailSubmit"
  shows "length (filter (\<lambda>l. ol_op l = i) (deliveries p)) \<le> 1"
proof -
  let ?ds = "filter (\<lambda>l. ol_op l = i) (deliveries p)"
  have "d = d'" if "d \<in> set ?ds" "d' \<in> set ?ds" for d d'
    using entitled_unique [OF hist len lawful_honest [OF law], of d d'] lawful_entitled [OF law] kind that by auto
  then have "set ?ds \<subseteq> {hd ?ds}" by (cases ?ds) auto
  then have "card (set ?ds) \<le> 1" using card_mono [of "{hd ?ds}" "set ?ds"] by simp
  with distinct_card [of ?ds] lawful_distinct [OF law] show ?thesis by simp
qed

end
