(* ===== verification/Provider_Api.thy ===== *)
theory Provider_Api
  imports Write_Contract
begin

text \<open>
  The provider interface as the outbox drivers use it (\<open>engine-provider/src\<close>): classified failures
  (\<open>error.rs\<close>), the point of no return of a submission (\<open>hand_over.rs\<close>), and the requests and receipts of
  the write verbs (\<open>submit.rs\<close>, \<open>mail_edit.rs\<close>, \<open>report.rs\<close>, \<open>mailbox_edit.rs\<close>).

  An adapter is not modelled. Its \<open>submit_email\<close> is a tree of what it does next: commit the hand-over and go
  on by its result, write the byte that delivers, answer. \<open>honours\<close> is the documented contract of such a
  tree. The wrapped source of an error is not kept: nothing branches on it.
\<close>

section \<open>Failures\<close>

record provider_error =
  pe_class :: failure_class
  pe_detail :: string
  pe_retry_after :: "duration option"
  pe_confirmation_needed :: bool
  pe_item_unavailable :: bool

definition pe_new :: "failure_class \<Rightarrow> string \<Rightarrow> provider_error" where
  "pe_new cls detail = \<lparr>pe_class = cls, pe_detail = detail, pe_retry_after = None,
     pe_confirmation_needed = False, pe_item_unavailable = False\<rparr>"

definition pe_retryable :: "string \<Rightarrow> provider_error" where "pe_retryable d = pe_new Retryable d"

definition pe_rate_limited :: "string \<Rightarrow> duration option \<Rightarrow> provider_error" where
  "pe_rate_limited d after = (pe_new RateLimited d)\<lparr>pe_retry_after := after\<rparr>"

definition pe_authentication :: "string \<Rightarrow> provider_error" where "pe_authentication d = pe_new Authentication d"

definition pe_conflict :: "string \<Rightarrow> provider_error" where "pe_conflict d = pe_new FConflict d"

definition pe_invalid_state :: "string \<Rightarrow> provider_error" where "pe_invalid_state d = pe_new InvalidState d"

definition pe_needs_resync :: "string \<Rightarrow> provider_error" where "pe_needs_resync d = pe_new NeedsResync d"

definition pe_permanent :: "string \<Rightarrow> provider_error" where "pe_permanent d = pe_new Permanent d"

definition pe_unavailable_item :: "string \<Rightarrow> provider_error" where
  "pe_unavailable_item d = (pe_new Permanent d)\<lparr>pe_item_unavailable := True\<rparr>"

definition pe_needs_confirmation :: "string \<Rightarrow> provider_error" where
  "pe_needs_confirmation d = (pe_new InvalidState d)\<lparr>pe_confirmation_needed := True\<rparr>"

definition pe_is_retryable :: "provider_error \<Rightarrow> bool" where
  "pe_is_retryable e = is_retryable (pe_class e)"

definition pe_requires_resync :: "provider_error \<Rightarrow> bool" where
  "pe_requires_resync e = requires_resync (pe_class e)"

definition pe_requires_confirmation :: "provider_error \<Rightarrow> bool" where
  "pe_requires_confirmation e = pe_confirmation_needed e"

lemmas pe_defs = pe_new_def pe_retryable_def pe_rate_limited_def pe_authentication_def pe_conflict_def
  pe_invalid_state_def pe_needs_resync_def pe_permanent_def pe_unavailable_item_def
  pe_needs_confirmation_def pe_is_retryable_def pe_requires_resync_def pe_requires_confirmation_def

text \<open>The class-named constructors, as a type of the errors an adapter can build.\<close>

inductive built :: "provider_error \<Rightarrow> bool" where
  "built (pe_new cls d)"
| "built (pe_rate_limited d after)"
| "built (pe_unavailable_item d)"
| "built (pe_needs_confirmation d)"

text \<open>An error never both waits for a confirmation and is retried, and only a rate limit names a delay.\<close>

lemma built_confirmation: "built e \<Longrightarrow> pe_requires_confirmation e \<Longrightarrow> \<not> pe_is_retryable e"
  by (induction rule: built.induct) (auto simp: pe_defs)

lemma built_delay: "built e \<Longrightarrow> pe_retry_after e \<noteq> None \<Longrightarrow> pe_class e = RateLimited"
  by (induction rule: built.induct) (auto simp: pe_defs)

section \<open>Store errors as text\<close>

fun store_error_text :: "store_error \<Rightarrow> string" where
  "store_error_text StaleLease = ''stale lease: fencing token superseded by a newer claim''"
| "store_error_text ScopeHeld = ''scope or op is already leased''"
| "store_error_text SConflict = ''optimistic write conflict''"
| "store_error_text NotRunnable = ''pending op is not runnable: dependencies regressed''"
| "store_error_text (Backend m) = ''store backend error: '' @ m"
| "store_error_text ShuttingDown = ''the store call did not run: the runtime is shutting down''"

definition commit_error :: "store_error \<Rightarrow> provider_error" where
  "commit_error e = pe_retryable
     (''the send stopped before reaching the server, because the outbox could not record that it was about to: '' @
      store_error_text e)"

section \<open>Submissions\<close>

datatype sent_copy = Filed | Unfiled string

record submission_receipt =
  sn_email_key :: provider_key
  sn_message_id :: message_id_header
  sn_sent_copy :: sent_copy
  sn_sent_copy_keywords :: "keyword btree_set"

datatype submission =
    SReturn "(provider_error, submission_receipt) result"
  | SCommit submission "provider_error \<Rightarrow> submission"
  | SDeliver submission

text \<open>
  The contract of \<open>submit_email\<close>. The byte that delivers is written at most once and only after a commit
  that returned \<open>Ok\<close>; a receipt needs the proof a commit returns; and a failure after the byte says that
  the outcome is unknown.
\<close>

primrec honours :: "submission \<Rightarrow> bool \<Rightarrow> bool \<Rightarrow> bool" where
  "honours (SReturn r) committed delivered \<longleftrightarrow>
     (case r of Inr _ \<Rightarrow> committed | Inl e \<Rightarrow> delivered \<longrightarrow> pe_requires_confirmation e)"
| "honours (SCommit ok fail) committed delivered \<longleftrightarrow>
     honours ok True delivered \<and> (\<forall>e. honours (fail e) committed delivered)"
| "honours (SDeliver rest) committed delivered \<longleftrightarrow> committed \<and> \<not> delivered \<and> honours rest committed True"

section \<open>Requests and receipts\<close>

text \<open>
  A draft is its \<open>Message-ID\<close> and the content only the adapters read. The other requests are complete where
  the engine reads them.
\<close>

record 'b draft =
  df_message_id :: message_id_header
  df_content :: 'b

datatype mail_edit =
    SetKeywords provider_key "keyword btree_set" "keyword btree_set"
  | MoveTo provider_key mailbox_id
  | MeDelete provider_key

fun mail_edit_target :: "mail_edit \<Rightarrow> provider_key" where
  "mail_edit_target (SetKeywords t _ _) = t"
| "mail_edit_target (MoveTo t _) = t"
| "mail_edit_target (MeDelete t) = t"

record 'w message_report =
  rp_target :: provider_key
  rp_verdict :: 'w
  rp_destination :: mailbox_id

datatype mailbox_edit =
    MxCreate string "mailbox_id option"
  | MxUpdate mailbox_id string "mailbox_id option"
  | MxTrash mailbox_id mailbox_id string
  | MxDelete mailbox_id

end
