(* ===== verification/Driver_World.thy ===== *)
theory Driver_World
  imports Reads Send_Once Provider_Api
begin

text \<open>
  The world an outbox driver runs in (\<open>engine-sync/src/outbox\<close>). A driver calls the store; before each
  call, whatever other workers, the host and this driver's own renewal loops do may happen. A schedule fixes
  that, and what the clocks read; a statement about every schedule is a statement about every interleaving.

  The trace of a world says who did what: \<open>True\<close> marks the driver's own calls and deliveries.
\<close>

section \<open>Worlds\<close>

datatype ('v, 'o, 'p) event =
    Other instant "('v, 'o, 'p) command"
  | OtherDelivers op_lease
  | Tick instant nat

record ('v, 'o, 'p) slot =
  sd_events :: "('v, 'o, 'p) event list"
  sd_now :: instant
  sd_mono :: int

record ('v, 'o, 'p) world =
  wd_store :: "'v inner"
  wd_trace :: "(bool \<times> ('v, 'o, 'p) act) list"
  wd_sched :: "nat \<Rightarrow> ('v, 'o, 'p) slot"
  wd_at :: nat
  wd_renewals :: "(op_lease \<times> std_duration) option list"

definition perform ::
  "pdt_add \<Rightarrow> ('o, 'v) sync_object \<Rightarrow> bool \<Rightarrow> instant \<Rightarrow> ('v, 'o, 'p) command \<Rightarrow> ('v, 'o, 'p) world \<Rightarrow>
   'v response \<times> ('v, 'o, 'p) world" where
  "perform padd tr mine now cmd w = (case exec padd tr now cmd (wd_store w) of (resp, s) \<Rightarrow>
     (resp, w\<lparr>wd_store := s, wd_trace := wd_trace w @ [(mine, Did cmd resp)]\<rparr>))"

definition delivered :: "bool \<Rightarrow> op_lease \<Rightarrow> ('v, 'o, 'p) world \<Rightarrow> ('v, 'o, 'p) world" where
  "delivered mine l w = w\<lparr>wd_trace := wd_trace w @ [(mine, Delivers l)]\<rparr>"

fun is_stale :: "'v response \<Rightarrow> bool" where
  "is_stale (RUnit (Inl StaleLease)) = True"
| "is_stale _ = False"

text \<open>
  One event. A tick renews the lease of the renewal loop at that position, if it still runs: a loop whose
  renewal is refused as stale renews no more.
\<close>

fun run_event ::
  "pdt_add \<Rightarrow> ('o, 'v) sync_object \<Rightarrow> ('v, 'o, 'p) event \<Rightarrow> ('v, 'o, 'p) world \<Rightarrow> ('v, 'o, 'p) world" where
  "run_event padd tr (Other now cmd) w = snd (perform padd tr False now cmd w)"
| "run_event padd tr (OtherDelivers l) w = delivered False l w"
| "run_event padd tr (Tick now k) w =
     (if k < length (wd_renewals w) then
        (case wd_renewals w ! k of
           None \<Rightarrow> w
         | Some (l, ttl) \<Rightarrow>
             (case perform padd tr True now (CRenewOp l ttl) w of (resp, w') \<Rightarrow>
                (if is_stale resp then w'\<lparr>wd_renewals := (wd_renewals w')[k := None]\<rparr> else w')))
      else w)"

definition interfere ::
  "pdt_add \<Rightarrow> ('o, 'v) sync_object \<Rightarrow> ('v, 'o, 'p) world \<Rightarrow> ('v, 'o, 'p) world" where
  "interfere padd tr w = (fold (run_event padd tr) (sd_events (wd_sched w (wd_at w))) w)\<lparr>wd_at := wd_at w + 1\<rparr>"

text \<open>A call of the store, and a read of it, after the interference before it.\<close>

definition store_call ::
  "pdt_add \<Rightarrow> ('o, 'v) sync_object \<Rightarrow> ('v, 'o, 'p) command \<Rightarrow> ('v, 'o, 'p) world \<Rightarrow>
   'v response \<times> ('v, 'o, 'p) world" where
  "store_call padd tr cmd w = perform padd tr True (sd_now (wd_sched w (wd_at w))) cmd (interfere padd tr w)"

definition store_read ::
  "pdt_add \<Rightarrow> ('o, 'v) sync_object \<Rightarrow> (instant \<Rightarrow> 'v inner \<Rightarrow> 'a) \<Rightarrow> ('v, 'o, 'p) world \<Rightarrow> 'a \<times> ('v, 'o, 'p) world" where
  "store_read padd tr query w =
     (let w' = interfere padd tr w in (query (sd_now (wd_sched w (wd_at w))) (wd_store w'), w'))"

text \<open>The monotonic clock, read between calls.\<close>

definition mono_now :: "('v, 'o, 'p) world \<Rightarrow> int" where
  "mono_now w = sd_mono (wd_sched w (wd_at w))"

text \<open>The typed calls. Each response has the shape of its command, so the last equation of each is never met.\<close>

fun resp_unit :: "'v response \<Rightarrow> (store_error, unit) result" where
  "resp_unit (RUnit r) = r"
| "resp_unit _ = Inl NotRunnable"

fun resp_id :: "'v response \<Rightarrow> (store_error, pending_op_id) result" where
  "resp_id (RId r) = r"
| "resp_id _ = Inl NotRunnable"

fun resp_op :: "'v response \<Rightarrow> (store_error, 'v pending_op_claim) result" where
  "resp_op (ROp r) = r"
| "resp_op _ = Inl NotRunnable"

fun resp_verb :: "'v response \<Rightarrow> (store_error, op_rejection option) result" where
  "resp_verb (RVerb r) = r"
| "resp_verb _ = Inl NotRunnable"

definition mark_pending_op ::
  "pdt_add \<Rightarrow> ('o, 'v) sync_object \<Rightarrow> op_lease \<Rightarrow> pending_outcome \<Rightarrow> ('v, 'o, 'p) world \<Rightarrow> (store_error, unit) result \<times> ('v, 'o, 'p) world" where
  "mark_pending_op padd tr l outcome w = apfst resp_unit (store_call padd tr (CMark l outcome) w)"

definition record_hand_over ::
  "pdt_add \<Rightarrow> ('o, 'v) sync_object \<Rightarrow> op_lease \<Rightarrow> ('v, 'o, 'p) world \<Rightarrow> (store_error, unit) result \<times> ('v, 'o, 'p) world" where
  "record_hand_over padd tr l w = apfst resp_unit (store_call padd tr (CHandOver l) w)"

definition claim_pending_op ::
  "pdt_add \<Rightarrow> ('o, 'v) sync_object \<Rightarrow> account_id \<Rightarrow> pending_op_id \<Rightarrow> lease_request \<Rightarrow> ('v, 'o, 'p) world \<Rightarrow> 
   (store_error, 'v pending_op_claim) result \<times> ('v, 'o, 'p) world" where
  "claim_pending_op padd tr account i req w = apfst resp_op (store_call padd tr (CClaimOp account i req) w)"

definition enqueue_op ::
  "pdt_add \<Rightarrow> ('o, 'v) sync_object \<Rightarrow> account_id \<Rightarrow> 'v pending_op \<Rightarrow> ('v, 'o, 'p) world \<Rightarrow> (store_error, pending_op_id) result \<times> ('v, 'o, 'p) world" where
  "enqueue_op padd tr account op w = apfst resp_id (store_call padd tr (CEnqueue account op) w)"

definition cancel_pending_op ::
  "pdt_add \<Rightarrow> ('o, 'v) sync_object \<Rightarrow> account_id \<Rightarrow> pending_op_id \<Rightarrow> ('v, 'o, 'p) world \<Rightarrow> 
   (store_error, op_rejection option) result \<times> ('v, 'o, 'p) world" where
  "cancel_pending_op padd tr account i w = apfst resp_verb (store_call padd tr (CCancel account i) w)"

section \<open>Errors of a cycle\<close>

text \<open>The text of an outbox error is kept as what it is made of.\<close>

datatype outbox_text =
    Encode string string
  | BadKey
  | NotClaimable pending_op_id claim_rejection
  | CannotSend pending_op_id claim_rejection

datatype sync_error =
    SeProvider provider_error
  | SeStore store_error
  | SeOutbox outbox_text
  | SeDecode string
  | SeNoExpansionWindow
  | SePeople string
  | SeConcurrentPeopleRebuild
  | SeUnrecorded store_error

fun se_is_busy :: "sync_error \<Rightarrow> bool" where
  "se_is_busy (SeStore ScopeHeld) = True"
| "se_is_busy _ = False"

section \<open>The shared head and tail of the drivers\<close>

definition resource_wait :: int where "resource_wait = 10 * 10 ^ 9"

text \<open>
  \<open>claim_waiting\<close>. The sleep between two polls is part of what happens before the next call. The loop may
  run for ever when the monotonic clock never passes the deadline, so it is a partial function.
\<close>

partial_function (option) claim_poll ::
  "pdt_add \<Rightarrow> ('o, 'v) sync_object \<Rightarrow> account_id \<Rightarrow> lease_request \<Rightarrow> pending_op_id \<Rightarrow> int \<Rightarrow> ('v, 'o, 'p) world \<Rightarrow>
   ((sync_error, (claim_rejection, 'v leased_pending_op) result) result \<times> ('v, 'o, 'p) world) option" where
  "claim_poll padd tr account req i deadline w =
     (case claim_pending_op padd tr account i req w of (r, w') \<Rightarrow>
        (case r of
           Inl e \<Rightarrow> Some (Inl (SeStore e), w')
         | Inr (Leased leased) \<Rightarrow> Some (Inr (Inr leased), w')
         | Inr (Refused reason) \<Rightarrow>
             (if reason = CrBusy \<and> mono_now w' < deadline then claim_poll padd tr account req i deadline w'
              else Some (Inr (Inl reason), w'))))"

declare claim_poll.simps [code]

definition claim_waiting ::
  "pdt_add \<Rightarrow> ('o, 'v) sync_object \<Rightarrow> account_id \<Rightarrow> worker_id \<Rightarrow> std_duration \<Rightarrow> pending_op_id \<Rightarrow> ('v, 'o, 'p) world \<Rightarrow> 
   ((sync_error, (claim_rejection, 'v leased_pending_op) result) result \<times> ('v, 'o, 'p) world) option" where
  "claim_waiting padd tr account worker ttl i w =
     claim_poll padd tr account \<lparr>lq_owner = worker, lq_ttl = ttl\<rparr> i (mono_now w + resource_wait) w"

definition enqueue_and_claim ::
  "pdt_add \<Rightarrow> ('o, 'v) sync_object \<Rightarrow> account_id \<Rightarrow> worker_id \<Rightarrow> std_duration \<Rightarrow> 'v pending_op \<Rightarrow> ('v, 'o, 'p) world \<Rightarrow> 
   ((sync_error, 'v leased_pending_op) result \<times> ('v, 'o, 'p) world) option" where
  "enqueue_and_claim padd tr account worker ttl op w =
     (case enqueue_op padd tr account op w of
        (Inl e, w) \<Rightarrow> Some (Inl (SeStore e), w)
      | (Inr i, w) \<Rightarrow>
          (case claim_waiting padd tr account worker ttl i w of
             None \<Rightarrow> None
           | Some (Inl e, w) \<Rightarrow> Some (Inl e, w)
           | Some (Inr (Inl reason), w) \<Rightarrow> Some (Inl (SeOutbox (NotClaimable i reason)), w)
           | Some (Inr (Inr leased), w) \<Rightarrow> Some (Inr leased, w)))"

text \<open>Work under a lease that a loop renews until the work returns.\<close>

definition holding ::
  "op_lease \<Rightarrow> std_duration \<Rightarrow> (('v, 'o, 'p) world \<Rightarrow> 'r \<times> ('v, 'o, 'p) world) \<Rightarrow> ('v, 'o, 'p) world \<Rightarrow> 'r \<times> ('v, 'o, 'p) world" where
  "holding l ttl work w =
     (case work (w\<lparr>wd_renewals := wd_renewals w @ [Some (l, ttl)]\<rparr>) of (r, w') \<Rightarrow>
        (r, w'\<lparr>wd_renewals := take (length (wd_renewals w)) (wd_renewals w')\<rparr>))"

definition record_failure ::
  "pdt_add \<Rightarrow> ('o, 'v) sync_object \<Rightarrow> 'v leased_pending_op \<Rightarrow> provider_error \<Rightarrow> ('v, 'o, 'p) world \<Rightarrow> (sync_error, unit) result \<times> ('v, 'o, 'p) world" where
  "record_failure padd tr leased err w =
     (case mark_pending_op padd tr (lo_lease leased) (OFailed (pe_class err) (pe_retry_after err)) w of
        (Inl e, w) \<Rightarrow> (Inl (SeStore e), w)
      | (Inr _, w) \<Rightarrow> (Inr (), w))"

definition write_applied ::
  "pdt_add \<Rightarrow> ('o, 'v) sync_object \<Rightarrow> 'v leased_pending_op \<Rightarrow> provider_key \<Rightarrow> ('v, 'o, 'p) world \<Rightarrow> (sync_error, unit) result \<times> ('v, 'o, 'p) world" where
  "write_applied padd tr leased key w =
     (case mark_pending_op padd tr (lo_lease leased) (OSucceeded key) w of
        (Inl e, w) \<Rightarrow> (Inl (SeUnrecorded e), w)
      | (Inr _, w) \<Rightarrow> (Inr (), w))"

definition write_failed ::
  "pdt_add \<Rightarrow> ('o, 'v) sync_object \<Rightarrow> 'v leased_pending_op \<Rightarrow> provider_error \<Rightarrow> ('v, 'o, 'p) world \<Rightarrow> sync_error \<times> ('v, 'o, 'p) world" where
  "write_failed padd tr leased err w =
     (case record_failure padd tr leased err w of (_, w) \<Rightarrow> (SeProvider err, w))"

end
