(* ===== verification/Digits.thy ===== *)
theory Digits
  imports Prelude
begin

text \<open>
  Decimal text: what the standard library prints for an unsigned number, padded to a width or not, and what
  it reads back. A string is its UTF-8 bytes; slicing one panics unless both ends are character boundaries.
\<close>

section \<open>Digits\<close>

definition is_digit :: "char \<Rightarrow> bool" where
  "is_digit c \<longleftrightarrow> 48 \<le> (of_char c :: nat) \<and> (of_char c :: nat) \<le> 57"

definition digit_value :: "char \<Rightarrow> nat" where
  "digit_value c = of_char c - 48"

definition digit :: "nat \<Rightarrow> char" where
  "digit d = char_of (48 + d)"

lemma of_char_digit: "d < 10 \<Longrightarrow> of_char (digit d) = 48 + d"
  by (simp add: digit_def)

lemma digit_simps [simp]:
  assumes "d < 10"
  shows "is_digit (digit d)" "digit_value (digit d) = d"
  using of_char_digit [OF assms] assms by (simp_all add: is_digit_def digit_value_def)

lemma digit_value_less: "is_digit c \<Longrightarrow> digit_value c < 10"
  unfolding is_digit_def digit_value_def by arith

lemma digit_of_value: "is_digit c \<Longrightarrow> digit (digit_value c) = c"
  by (simp add: is_digit_def digit_value_def digit_def)

lemma digit_value_eq: "is_digit c \<Longrightarrow> is_digit d \<Longrightarrow> digit_value c = digit_value d \<longleftrightarrow> c = d"
  by (metis digit_of_value)

lemma digit_value_le: "is_digit c \<Longrightarrow> is_digit d \<Longrightarrow> digit_value c < digit_value d \<longleftrightarrow> c < d"
  by (auto simp: is_digit_def digit_value_def less_char_def)

section \<open>Numbers as text\<close>

fun decimal :: "nat \<Rightarrow> string" where
  "decimal n = (if n < 10 then [digit n] else decimal (n div 10) @ [digit (n mod 10)])"

declare decimal.simps [simp del]

definition undecimal :: "string \<Rightarrow> nat" where
  "undecimal s = foldl (\<lambda>a c. a * 10 + digit_value c) 0 s"

definition all_digits :: "string \<Rightarrow> bool" where
  "all_digits s \<longleftrightarrow> list_all is_digit s"

lemma all_digits_simps [simp]:
  "all_digits []" "all_digits (c # s) \<longleftrightarrow> is_digit c \<and> all_digits s"
  "all_digits (s @ t) \<longleftrightarrow> all_digits s \<and> all_digits t"
  by (simp_all add: all_digits_def)

lemma undecimal_Nil [simp]: "undecimal [] = 0"
  by (simp add: undecimal_def)

lemma undecimal_snoc [simp]: "undecimal (s @ [c]) = undecimal s * 10 + digit_value c"
  by (simp add: undecimal_def)

lemma undecimal_append: "undecimal (s @ t) = undecimal s * 10 ^ length t + undecimal t"
proof (induction t rule: rev_induct)
  case (snoc c t)
  have "undecimal (s @ t @ [c]) = undecimal (s @ t) * 10 + digit_value c"
    using undecimal_snoc [of "s @ t" c] by simp
  with snoc.IH show ?case by (simp add: algebra_simps)
qed simp

lemma undecimal_Cons: "undecimal (c # s) = digit_value c * 10 ^ length s + undecimal s"
  using undecimal_append [of "[c]" s] undecimal_snoc [of "[]" c] by simp

lemma undecimal_less: "all_digits s \<Longrightarrow> undecimal s < 10 ^ length s"
proof (induction s rule: rev_induct)
  case (snoc c s)
  then show ?case using digit_value_less [of c] by simp
qed simp

lemma decimal_digits [simp]: "all_digits (decimal n)"
  by (induction n rule: decimal.induct) (subst decimal.simps, simp)

lemma decimal_not_Nil [simp]: "decimal n \<noteq> []"
  by (subst decimal.simps) simp

lemma undecimal_decimal [simp]: "undecimal (decimal n) = n"
proof (induction n rule: decimal.induct)
  case (1 n)
  have "undecimal (decimal n) = undecimal (if n < 10 then [] @ [digit n] else decimal (n div 10) @ [digit (n mod 10)])"
    by (subst decimal.simps) simp
  also have "\<dots> = n"
    using 1 undecimal_snoc [of "[]" "digit n"] by (auto simp del: undecimal_snoc simp: undecimal_append undecimal_Cons)
  finally show ?case .
qed

lemma decimal_inject: "decimal m = decimal n \<Longrightarrow> m = n"
  by (metis undecimal_decimal)

lemma decimal_length: "0 < w \<Longrightarrow> n < 10 ^ w \<Longrightarrow> length (decimal n) \<le> w"
proof (induction n arbitrary: w rule: decimal.induct)
  case (1 n)
  show ?case
  proof (cases "n < 10")
    case True
    then show ?thesis using 1 by (subst decimal.simps) simp
  next
    case False
    then obtain v where v: "w = Suc v" "0 < v" using 1(2,3) by (cases w; cases "w - 1") auto
    with 1(3) have "n div 10 < 10 ^ v" by (simp add: less_mult_imp_div_less mult.commute)
    with 1(1) [OF False v(2)] False v show ?thesis by (subst decimal.simps) simp
  qed
qed

text \<open>\<open>{:0w}\<close> of an unsigned value: zeros on the left up to the width.\<close>

definition pad :: "nat \<Rightarrow> nat \<Rightarrow> string" where
  "pad w n = replicate (w - length (decimal n)) (CHR ''0'') @ decimal n"

lemma zero_digit [simp]: "is_digit CHR ''0''" "digit_value CHR ''0'' = 0"
  by (simp_all add: is_digit_def digit_value_def)

lemma undecimal_zeros [simp]: "undecimal (replicate k CHR ''0'' @ s) = undecimal s"
  by (induction k) (simp_all add: undecimal_Cons)

lemma all_digits_replicate [simp]: "all_digits (replicate k CHR ''0'')"
  by (induction k) simp_all

lemma pad_simps [simp]: "all_digits (pad w n)" "undecimal (pad w n) = n" "pad w n \<noteq> []"
  by (simp_all add: pad_def)

lemma pad_length: "0 < w \<Longrightarrow> n < 10 ^ w \<Longrightarrow> length (pad w n) = w"
  using decimal_length [of w n] by (simp add: pad_def)

text \<open>Digit strings of one length compare as the numbers they stand for.\<close>

lemma digits_lead_less:
  fixes p :: nat
  assumes "x < y" and "a < p"
  shows "x * p + a < y * p + b"
proof -
  have "x * p + a < Suc x * p" using assms(2) by simp
  also have "\<dots> \<le> y * p" using assms(1) by (intro mult_le_mono1) simp
  finally show ?thesis by simp
qed

lemma digits_less_iff:
  "length s = length t \<Longrightarrow> all_digits s \<Longrightarrow> all_digits t \<Longrightarrow> s < t \<longleftrightarrow> undecimal s < undecimal t"
proof (induction s t rule: list_induct2)
  case (Cons c s d t)
  have less: "undecimal s < 10 ^ length t" "undecimal t < 10 ^ length t"
    using undecimal_less [of s] undecimal_less [of t] Cons by auto
  consider "c < d" | "c = d" | "d < c" using less_linear by blast
  then show ?case
  proof cases
    case 1
    then have "digit_value c < digit_value d" using Cons.prems by (simp add: digit_value_le)
    from digits_lead_less [OF this less(1)] 1 Cons.hyps show ?thesis by (simp add: undecimal_Cons)
  next
    case 2
    then show ?thesis using Cons by (simp add: undecimal_Cons)
  next
    case 3
    then have "digit_value d < digit_value c" using Cons.prems by (simp add: digit_value_le)
    from digits_lead_less [OF this less(2), of "undecimal s"]
    have "\<not> undecimal (c # s) < undecimal (d # t)" using Cons.hyps by (simp add: undecimal_Cons)
    moreover have "\<not> c # s < d # t" using 3 by auto
    ultimately show ?thesis by blast
  qed
qed simp

lemma digits_eq_iff:
  assumes "length s = length t" "all_digits s" "all_digits t"
  shows "s = t \<longleftrightarrow> undecimal s = undecimal t"
  using digits_less_iff [OF assms] digits_less_iff [of t s] assms by (metis less_linear less_irrefl)

text \<open>A padded number is the text of its width that reads as it.\<close>

lemma pad_undecimal: "all_digits s \<Longrightarrow> s \<noteq> [] \<Longrightarrow> pad (length s) (undecimal s) = s"
  using digits_eq_iff [of "pad (length s) (undecimal s)" s] undecimal_less [of s]
  by (simp add: pad_length)

lemma pad_less_iff: "0 < w \<Longrightarrow> m < 10 ^ w \<Longrightarrow> n < 10 ^ w \<Longrightarrow> pad w m < pad w n \<longleftrightarrow> m < n"
  using digits_less_iff [of "pad w m" "pad w n"] by (simp add: pad_length)

lemma pad_inject: "pad w m = pad w n \<Longrightarrow> m = n"
  by (metis pad_simps(2))

section \<open>Slices\<close>

text \<open>
  \<open>str::is_char_boundary\<close> and indexing by a range: \<open>None\<close> is the panic of an end inside a character or
  past the text.
\<close>

definition continuation :: "char \<Rightarrow> bool" where
  "continuation b \<longleftrightarrow> 128 \<le> (of_char b :: nat) \<and> (of_char b :: nat) < 192"

definition char_boundary :: "string \<Rightarrow> nat \<Rightarrow> bool" where
  "char_boundary s i \<longleftrightarrow> i = 0 \<or> i = length s \<or> i < length s \<and> \<not> continuation (s ! i)"

definition slice :: "string \<Rightarrow> nat \<Rightarrow> nat \<Rightarrow> string option" where
  "slice s a b = (if a \<le> b \<and> char_boundary s a \<and> char_boundary s b then Some (take (b - a) (drop a s)) else None)"

definition slice_from :: "string \<Rightarrow> nat \<Rightarrow> string option" where
  "slice_from s a = slice s a (length s)"

lemma digit_not_continuation [simp]: "is_digit c \<Longrightarrow> \<not> continuation c"
  by (simp add: is_digit_def continuation_def)

end
