(* ===== verification/Utf8.thy ===== *)
theory Utf8
  imports Prelude
begin

text \<open>
  Text as the standard library reads it: the characters of a UTF-8 string, white space and control
  characters, and \<open>str::trim\<close>.
\<close>

text \<open>\<open>str::chars\<close>: the code points of a UTF-8 string.\<close>

definition low_bits :: "nat \<Rightarrow> char \<Rightarrow> nat" where
  "low_bits n c = of_char c mod 2 ^ n"

fun chars_of :: "string \<Rightarrow> nat list" where
  "chars_of [] = []"
| "chars_of (c # cs) =
     (let b = (of_char c :: nat) in
      if b < 128 then b # chars_of cs
      else if b < 224 then
        (case cs of c1 # rest \<Rightarrow> (low_bits 5 c * 64 + low_bits 6 c1) # chars_of rest | _ \<Rightarrow> [])
      else if b < 240 then
        (case cs of c1 # c2 # rest \<Rightarrow>
           (low_bits 4 c * 4096 + low_bits 6 c1 * 64 + low_bits 6 c2) # chars_of rest | _ \<Rightarrow> [])
      else
        (case cs of c1 # c2 # c3 # rest \<Rightarrow>
           (low_bits 3 c * 262144 + low_bits 6 c1 * 4096 + low_bits 6 c2 * 64 + low_bits 6 c3) # chars_of rest
         | _ \<Rightarrow> []))"

definition is_whitespace :: "nat \<Rightarrow> bool" where
  "is_whitespace c \<longleftrightarrow> 9 \<le> c \<and> c \<le> 13 \<or> c = 32 \<or> c = 133 \<or> c = 160 \<or> c = 5760 \<or> 8192 \<le> c \<and> c \<le> 8202 \<or>
     c = 8232 \<or> c = 8233 \<or> c = 8239 \<or> c = 8287 \<or> c = 12288"

definition is_control :: "nat \<Rightarrow> bool" where
  "is_control c \<longleftrightarrow> c \<le> 31 \<or> 127 \<le> c \<and> c \<le> 159"

definition trim :: "nat list \<Rightarrow> nat list" where
  "trim cs = rev (dropWhile is_whitespace (rev (dropWhile is_whitespace cs)))"

text \<open>The characters of a string as their bytes, and \<open>str::trim\<close>.\<close>

definition char_width :: "char \<Rightarrow> nat" where
  "char_width c = (let b = (of_char c :: nat) in if b < 128 then 1 else if b < 224 then 2 else if b < 240 then 3 else 4)"

function char_chunks :: "string \<Rightarrow> string list" where
  "char_chunks [] = []"
| "char_chunks (c # cs) = take (char_width c) (c # cs) # char_chunks (drop (char_width c) (c # cs))"
  by pat_completeness auto

termination
  by (relation "measure length") (auto simp: char_width_def Let_def)

definition white_chunk :: "string \<Rightarrow> bool" where
  "white_chunk ch \<longleftrightarrow> (case chars_of ch of [] \<Rightarrow> False | c # _ \<Rightarrow> is_whitespace c)"

definition str_trim_start :: "string \<Rightarrow> string" where
  "str_trim_start s = concat (dropWhile white_chunk (char_chunks s))"

definition str_trim :: "string \<Rightarrow> string" where
  "str_trim s = concat (rev (dropWhile white_chunk (rev (dropWhile white_chunk (char_chunks s)))))"

lemma concat_char_chunks [simp]: "concat (char_chunks s) = s"
  by (induction s rule: char_chunks.induct) simp_all

lemma str_trim_sub: "\<exists>a b. s = a @ str_trim s @ b"
proof -
  let ?c = "char_chunks s"
  let ?d = "dropWhile white_chunk ?c"
  have "?c = takeWhile white_chunk ?c @ ?d" by simp
  moreover have "?d = rev (dropWhile white_chunk (rev ?d)) @ rev (takeWhile white_chunk (rev ?d))"
    by (metis rev_append rev_rev_ident takeWhile_dropWhile_id)
  ultimately have "s = concat (takeWhile white_chunk ?c) @ str_trim s @ concat (rev (takeWhile white_chunk (rev ?d)))"
    unfolding str_trim_def by (metis append.assoc concat_append concat_char_chunks)
  then show ?thesis by blast
qed

end
