(* ===== verification/Mailbox_Plan.thy ===== *)
theory Mailbox_Plan
  imports Provider_Api Digits Utf8
begin

text \<open>
  Deciding what a queued folder change still means against the folder list as the server has it now
  (\<open>engine-sync/src/outbox/mailbox_plan.rs\<close>). The lemmas show that the bounded walk up the tree decides
  reachability even in a listing with a cycle, that a free name is always found, and exactly when the plan sends
  which edit.

  A folder is the fields the plan reads. Rust's Unicode lowercasing is the parameter \<open>lower\<close>.
\<close>

section \<open>Folders and changes\<close>

datatype mailbox_role = RInbox | RArchive | RDrafts | RSent | RTrash | RJunk | RAll | RFlagged | RImportant
  | ROther string

record mailbox =
  mx_id :: mailbox_id
  mx_name :: string
  mx_parent :: "mailbox_id option"
  mx_role :: "mailbox_role option"

record mailbox_place =
  pl_name :: string
  pl_parent :: "mailbox_id option"

definition place_of :: "mailbox \<Rightarrow> mailbox_place" where
  "place_of m = \<lparr>pl_name = mx_name m, pl_parent = mx_parent m\<rparr>"

datatype mailbox_change =
    McCreate string "mailbox_id option"
  | McUpdate mailbox_id mailbox_place string "mailbox_id option"
  | McTrash mailbox_id mailbox_place mailbox_id
  | McDelete mailbox_id

section \<open>Names\<close>

datatype mailbox_name_error = NameEmpty | NameSurrounded | NameControl | NameSeparator

definition validate_mailbox_name :: "string \<Rightarrow> (mailbox_name_error, unit) result" where
  "validate_mailbox_name name =
     (let cs = chars_of name in
      if trim cs = [] then Inl NameEmpty
      else if trim cs \<noteq> cs then Inl NameSurrounded
      else if list_ex is_control cs then Inl NameControl
      else if 47 \<in> set cs then Inl NameSeparator
      else Inr ())"

fun change_validate :: "mailbox_change \<Rightarrow> (mailbox_name_error, unit) result" where
  "change_validate (McCreate name _) = validate_mailbox_name name"
| "change_validate (McUpdate _ _ name _) = validate_mailbox_name name"
| "change_validate _ = Inr ()"

section \<open>The plan\<close>

definition folder_find :: "mailbox list \<Rightarrow> mailbox_id \<Rightarrow> mailbox option" where
  "folder_find current i = find (\<lambda>m. mx_id m = i) current"

definition unchanged :: "mailbox option \<Rightarrow> mailbox_place \<Rightarrow> (provider_error, mailbox) result" where
  "unchanged folder seen = (case folder of
      None \<Rightarrow> Inl (pe_conflict ''the folder is gone'')
    | Some f \<Rightarrow>
        (if mx_role f = Some RInbox then Inl (pe_invalid_state ''the Inbox cannot be changed'')
         else if place_of f \<noteq> seen then Inl (pe_conflict ''the folder has changed since it was read'')
         else Inr f))"

definition parent_of :: "mailbox list \<Rightarrow> mailbox_id \<Rightarrow> mailbox_id option" where
  "parent_of current i = Option.bind (folder_find current i) mx_parent"

fun within_loop :: "mailbox list \<Rightarrow> mailbox_id \<Rightarrow> nat \<Rightarrow> mailbox_id option \<Rightarrow> bool" where
  "within_loop current ancestor 0 at = False"
| "within_loop current ancestor (Suc n) None = False"
| "within_loop current ancestor (Suc n) (Some i) =
     (if i = ancestor then True else within_loop current ancestor n (parent_of current i))"

lemma within_loop_code [code]:
  "within_loop current ancestor n at = (if n = 0 then False else case at of
      None \<Rightarrow> False
    | Some i \<Rightarrow> if i = ancestor then True else within_loop current ancestor (n - 1) (parent_of current i))"
  by (cases n; cases at) simp_all

definition within :: "mailbox list \<Rightarrow> mailbox_id \<Rightarrow> mailbox_id \<Rightarrow> bool" where
  "within current folder ancestor = within_loop current ancestor (length current + 1) (Some folder)"

definition sibling_named ::
  "mailbox list \<Rightarrow> mailbox_id option \<Rightarrow> string \<Rightarrow> mailbox_id option \<Rightarrow> mailbox option" where
  "sibling_named current parent name except =
     find (\<lambda>m. mx_parent m = parent \<and> mx_name m = name \<and> Some (mx_id m) \<noteq> except) current"

definition name_taken :: "(string \<Rightarrow> string) \<Rightarrow> mailbox list \<Rightarrow> mailbox_id \<Rightarrow> string \<Rightarrow> bool" where
  "name_taken lower current parent candidate =
     list_ex (\<lambda>m. mx_parent m = Some parent \<and> lower (mx_name m) = lower candidate) current"

text \<open>\<open>None\<close> stands for the panic of the \<open>expect\<close>.\<close>

definition free_name :: "(string \<Rightarrow> string) \<Rightarrow> mailbox list \<Rightarrow> mailbox_id \<Rightarrow> string \<Rightarrow> string option" where
  "free_name lower current parent name =
     (if \<not> name_taken lower current parent name then Some name
      else find (\<lambda>candidate. \<not> name_taken lower current parent candidate)
        (map (\<lambda>n. name @ '' '' @ decimal n) [2..<length current + 3]))"

datatype plan = PSend mailbox_edit | PDone "mailbox_id option"

fun plan_change ::
  "(string \<Rightarrow> string) \<Rightarrow> mailbox_change \<Rightarrow> mailbox list \<Rightarrow> (provider_error, plan) result option" where
  "plan_change lower (McCreate name parent) current =
     (if is_some_and parent (\<lambda>p. folder_find current p = None)
      then Some (Inl (pe_conflict ''the folder to create it in is gone''))
      else case sibling_named current parent name None of
        Some existing \<Rightarrow> Some (Inr (PDone (Some (mx_id existing))))
      | None \<Rightarrow> Some (Inr (PSend (MxCreate name parent))))"
| "plan_change lower (McUpdate target seen name parent) current =
     (case unchanged (folder_find current target) seen of
        Inl e \<Rightarrow> Some (Inl e)
      | Inr folder \<Rightarrow>
          (if mx_name folder = name \<and> mx_parent folder = parent then Some (Inr (PDone (Some target)))
           else if is_some_and parent (\<lambda>p. folder_find current p = None)
           then Some (Inl (pe_conflict ''the destination folder is gone''))
           else if is_some_and parent (\<lambda>p. within current p target)
           then Some (Inl (pe_conflict ''a folder cannot move inside itself''))
           else if sibling_named current parent name (Some target) \<noteq> None
           then Some (Inl (pe_conflict ''the destination already holds a folder of that name''))
           else Some (Inr (PSend (MxUpdate target name parent)))))"
| "plan_change lower (McTrash target seen trash) current =
     (case unchanged (folder_find current target) seen of
        Inl e \<Rightarrow> Some (Inl e)
      | Inr folder \<Rightarrow>
          (if folder_find current trash = None then Some (Inl (pe_conflict ''the Trash folder is gone''))
           else if target = trash \<or> within current trash target
           then Some (Inl (pe_invalid_state ''Trash cannot go in Trash''))
           else case free_name lower current trash (mx_name folder) of
             None \<Rightarrow> None
           | Some name \<Rightarrow> Some (Inr (PSend (MxTrash target trash name)))))"
| "plan_change lower (McDelete target) current =
     (case folder_find current target of
        None \<Rightarrow> Some (Inr (PDone None))
      | Some folder \<Rightarrow>
          (if mx_role folder = Some RInbox then Some (Inl (pe_invalid_state ''the Inbox cannot be removed''))
           else Some (Inr (PSend (MxDelete target)))))"

section \<open>The bounded walk decides reachability\<close>

definition parent_rel :: "mailbox list \<Rightarrow> (mailbox_id \<times> mailbox_id) set" where
  "parent_rel current = {(a, b). parent_of current a = Some b}"

lemma parent_relI [simp]: "(a, b) \<in> parent_rel current \<longleftrightarrow> parent_of current a = Some b"
  by (simp add: parent_rel_def)

lemma parent_listed: "parent_of current a = Some b \<Longrightarrow> a \<in> mx_id ` set current"
  by (auto simp: parent_of_def folder_find_def bind_eq_Some_conv find_Some_iff intro!: imageI)

lemma within_loop_climbs: "within_loop current anc n (Some i) \<longleftrightarrow> (\<exists>k < n. (i, anc) \<in> parent_rel current ^^ k)"
proof (induction n arbitrary: i)
  case (Suc n)
  have step: "(i, anc) \<in> parent_rel current ^^ Suc k \<longleftrightarrow>
      (\<exists>j. parent_of current i = Some j \<and> (j, anc) \<in> parent_rel current ^^ k)" for k
    by (auto simp del: relpow.simps dest!: relpow_Suc_D2 intro: relpow_Suc_I2)
  have split: "(\<exists>k < Suc n. (i, anc) \<in> parent_rel current ^^ k) \<longleftrightarrow>
      i = anc \<or> (\<exists>k < n. (i, anc) \<in> parent_rel current ^^ Suc k)"
    by (auto simp: Ex_less_Suc2 simp del: relpow.simps(2))
  show ?case
  proof (cases "parent_of current i")
    case None
    have "\<not> within_loop current anc n None" by (cases n) simp_all
    with None step split show ?thesis by simp
  next
    case (Some j)
    with Suc.IH [of j] step split show ?thesis by simp
  qed
qed simp

lemma shortest_climb:
  assumes reach: "(i, anc) \<in> parent_rel current ^^ k"
  shows "\<exists>k \<le> length current. (i, anc) \<in> parent_rel current ^^ k"
proof -
  have single: "single_valued (parent_rel current)" by (auto simp: single_valued_def)
  have fin: "finite (parent_rel current)"
  proof (rule finite_subset)
    show "parent_rel current \<subseteq> (\<lambda>a. (a, the (parent_of current a))) ` mx_id ` set current"
    proof
      fix x assume "x \<in> parent_rel current"
      then obtain a b where x: "x = (a, b)" "parent_of current a = Some b" by (auto simp: parent_rel_def)
      with parent_listed [OF x(2)] show "x \<in> (\<lambda>a. (a, the (parent_of current a))) ` mx_id ` set current" by force
    qed
  qed simp
  have "card (parent_rel current) \<le> card (mx_id ` set current)"
  proof (rule card_inj_on_le [of fst])
    show "inj_on fst (parent_rel current)" by (auto simp: inj_on_def parent_rel_def)
    show "fst ` parent_rel current \<subseteq> mx_id ` set current" using parent_listed by (auto simp: parent_rel_def)
  qed simp
  then have bound: "card (parent_rel current) \<le> length current"
    using card_image_le [of "set current" mx_id] card_length [of current] by simp
  have "(i, anc) \<in> (parent_rel current)\<^sup>*" using reach relpow_imp_rtrancl by blast
  then have "i = anc \<or> (i, anc) \<in> (parent_rel current)\<^sup>+" by (auto simp: rtrancl_eq_or_trancl)
  then show ?thesis
  proof
    assume "i = anc"
    then show ?thesis by (intro exI [of _ 0]) simp
  next
    assume "(i, anc) \<in> (parent_rel current)\<^sup>+"
    then obtain k where "0 < k" "k \<le> card (parent_rel current)" "(i, anc) \<in> parent_rel current ^^ k"
      using trancl_finite_eq_relpow [OF fin] by auto
    with bound show ?thesis by (meson le_trans)
  qed
qed

lemma within_reaches: "within current folder ancestor \<longleftrightarrow> (folder, ancestor) \<in> (parent_rel current)\<^sup>*"
proof
  assume "within current folder ancestor"
  then show "(folder, ancestor) \<in> (parent_rel current)\<^sup>*"
    unfolding within_def within_loop_climbs using relpow_imp_rtrancl by blast
next
  assume "(folder, ancestor) \<in> (parent_rel current)\<^sup>*"
  then obtain k where "(folder, ancestor) \<in> parent_rel current ^^ k" using rtrancl_imp_relpow by blast
  from shortest_climb [OF this] show "within current folder ancestor"
    unfolding within_def within_loop_climbs by (auto simp: less_Suc_eq_le)
qed

section \<open>A free name is always found\<close>

text \<open>
  What the search relies on of lowercasing: a name with a number appended lowers to the name's lowering with
  that number appended.
\<close>

definition lowers_numbered :: "(string \<Rightarrow> string) \<Rightarrow> string \<Rightarrow> bool" where
  "lowers_numbered lower name \<longleftrightarrow> (\<exists>p. \<forall>n. lower (name @ '' '' @ decimal n) = p @ '' '' @ decimal n)"

lemma free_name_found:
  assumes "lowers_numbered lower name"
  shows "\<exists>free. free_name lower current parent name = Some free \<and> \<not> name_taken lower current parent free"
proof (cases "name_taken lower current parent name")
  case True
  define candidate where "candidate n = name @ '' '' @ decimal n" for n
  let ?ns = "{2..<length current + 3}"
  obtain p where p: "lower (candidate n) = p @ '' '' @ decimal n" for n
    using assms by (auto simp: lowers_numbered_def candidate_def)
  have inj: "inj_on (lower \<circ> candidate) ?ns" using decimal_inject by (auto simp: inj_on_def p)
  have "\<exists>n \<in> ?ns. \<not> name_taken lower current parent (candidate n)"
  proof (rule ccontr)
    assume "\<not> ?thesis"
    then have taken: "name_taken lower current parent (candidate n)" if "n \<in> ?ns" for n using that by blast
    have "(lower \<circ> candidate) ` ?ns \<subseteq> (lower \<circ> mx_name) ` set current"
    proof (rule image_subsetI)
      fix n assume "n \<in> ?ns"
      from taken [OF this] obtain m where "m \<in> set current" "lower (mx_name m) = lower (candidate n)"
        by (auto simp: name_taken_def list_ex_iff)
      then show "(lower \<circ> candidate) n \<in> (lower \<circ> mx_name) ` set current" by (force simp: image_iff)
    qed
    then have "card ?ns \<le> card ((lower \<circ> mx_name) ` set current)"
      using card_image [OF inj] by (metis List.finite_set card_mono finite_imageI)
    also have "\<dots> \<le> length current" using card_image_le [of "set current"] card_length le_trans by blast
    finally show False by simp
  qed
  then have "find (\<lambda>c. \<not> name_taken lower current parent c) (map candidate [2..<length current + 3]) \<noteq> None"
    by (auto simp: find_None_iff)
  then obtain free where free: "find (\<lambda>c. \<not> name_taken lower current parent c)
      (map candidate [2..<length current + 3]) = Some free" by blast
  then have "\<not> name_taken lower current parent free" by (auto simp: find_Some_iff)
  with free True show ?thesis unfolding free_name_def candidate_def by (simp only: not_not if_False if_True simp_thms) auto
qed (simp add: free_name_def)

lemma free_name_free: "free_name lower current parent name = Some free \<Longrightarrow> \<not> name_taken lower current parent free"
  by (auto simp: free_name_def find_Some_iff split: if_splits)

section \<open>When the plan sends\<close>

lemma folder_find_Some: "folder_find current i = Some m \<Longrightarrow> m \<in> set current \<and> mx_id m = i"
  by (auto simp: folder_find_def find_Some_iff)

lemma folder_find_None: "folder_find current i = None \<longleftrightarrow> i \<notin> mx_id ` set current"
  by (auto simp: folder_find_def find_None_iff)

lemma folder_find_member:
  assumes "distinct (map mx_id current)" and "m \<in> set current"
  shows "folder_find current (mx_id m) = Some m"
proof -
  obtain m' where m': "folder_find current (mx_id m) = Some m'"
    using assms(2) by (cases "folder_find current (mx_id m)") (auto simp: folder_find_None)
  with folder_find_Some [OF this] assms have "m' = m" by (auto simp: distinct_map inj_on_def)
  with m' show ?thesis by simp
qed

lemma sibling_named_None:
  "sibling_named current parent name except = None \<longleftrightarrow>
     (\<forall>m \<in> set current. mx_parent m = parent \<and> mx_name m = name \<longrightarrow> Some (mx_id m) = except)"
  by (auto simp: sibling_named_def find_None_iff)

text \<open>The names tried for a trashed folder: its own, then its own with 2, 3, 4 and so on after it.\<close>

fun numbered_name :: "string \<Rightarrow> nat \<Rightarrow> string" where
  "numbered_name name 0 = name"
| "numbered_name name (Suc k) = name @ '' '' @ decimal (k + 2)"

definition in_place :: "mailbox list \<Rightarrow> mailbox_id \<Rightarrow> mailbox_place \<Rightarrow> mailbox \<Rightarrow> bool" where
  "in_place current target seen f \<longleftrightarrow>
     f \<in> set current \<and> mx_id f = target \<and> mx_role f \<noteq> Some RInbox \<and> place_of f = seen"

text \<open>
  The edit a change asks for, and when the listing admits it: the folder is the one the change was made for
  and is where it was seen, where it goes exists and is not inside it, and nothing there has its name.
\<close>

fun admissible ::
  "(string \<Rightarrow> string) \<Rightarrow> mailbox list \<Rightarrow> mailbox_change \<Rightarrow> mailbox_edit \<Rightarrow> bool" where
  "admissible lower current (McCreate name parent) edit \<longleftrightarrow>
     edit = MxCreate name parent \<and> set_option parent \<subseteq> mx_id ` set current \<and>
     (\<forall>m \<in> set current. \<not> (mx_parent m = parent \<and> mx_name m = name))"
| "admissible lower current (McUpdate target seen name parent) edit \<longleftrightarrow>
     edit = MxUpdate target name parent \<and> (\<exists>f. in_place current target seen f) \<and>
     seen \<noteq> \<lparr>pl_name = name, pl_parent = parent\<rparr> \<and> set_option parent \<subseteq> mx_id ` set current \<and>
     (\<forall>p \<in> set_option parent. (p, target) \<notin> (parent_rel current)\<^sup>*) \<and>
     (\<forall>m \<in> set current. mx_parent m = parent \<and> mx_name m = name \<longrightarrow> mx_id m = target)"
| "admissible lower current (McTrash target seen trash) edit \<longleftrightarrow>
     trash \<in> mx_id ` set current \<and> (trash, target) \<notin> (parent_rel current)\<^sup>* \<and>
     (\<exists>f n. in_place current target seen f \<and> edit = MxTrash target trash (numbered_name (mx_name f) n) \<and>
        \<not> name_taken lower current trash (numbered_name (mx_name f) n) \<and>
        (\<forall>k < n. name_taken lower current trash (numbered_name (mx_name f) k)))"
| "admissible lower current (McDelete target) edit \<longleftrightarrow>
     edit = MxDelete target \<and> (\<exists>f \<in> set current. mx_id f = target \<and> mx_role f \<noteq> Some RInbox)"

lemma unchanged_found:
  assumes "distinct (map mx_id current)"
  shows "unchanged (folder_find current target) seen = Inr f \<longleftrightarrow> in_place current target seen f"
proof (cases "folder_find current target")
  case None
  then have "target \<notin> mx_id ` set current" by (simp add: folder_find_None)
  with None show ?thesis by (auto simp: unchanged_def in_place_def)
next
  case (Some g)
  have "h = g" if "h \<in> set current" "mx_id h = target" for h using folder_find_member [OF assms that(1)] that(2) Some by simp
  with folder_find_Some [OF Some] Some show ?thesis by (auto simp: unchanged_def in_place_def)
qed

lemma find_first: "find P xs = Some y \<longleftrightarrow> (\<exists>i < length xs. y = xs ! i \<and> P (xs ! i) \<and> (\<forall>j < i. \<not> P (xs ! j)))"
  by (auto simp: find_Some_iff)

text \<open>The search takes the first free name, and under the hypothesis on lowercasing its bound cuts none off.\<close>

lemma free_name_first:
  assumes "lowers_numbered lower name"
  shows "free_name lower current parent name = Some free \<longleftrightarrow>
    (\<exists>n. free = numbered_name name n \<and> \<not> name_taken lower current parent free \<and>
       (\<forall>k < n. name_taken lower current parent (numbered_name name k)))"
    (is "?found free \<longleftrightarrow> ?first free")
proof -
  let ?xs = "map (\<lambda>n. name @ '' '' @ decimal n) [2..<length current + 3]"
  have nth: "?xs ! i = numbered_name name (Suc i)" if "i < length ?xs" for i
    using that by (simp add: nth_upt add.commute)
  have sound: "?first free'" if found: "free_name lower current parent name = Some free'" for free'
  proof (cases "name_taken lower current parent name")
    case False
    with found show ?thesis by (intro exI [of _ 0]) (simp add: free_name_def)
  next
    case True
    with found have "find (\<lambda>c. \<not> name_taken lower current parent c) ?xs = Some free'" by (simp add: free_name_def)
    then obtain i where i: "i < length ?xs" "free' = ?xs ! i"
      "\<not> name_taken lower current parent (?xs ! i)" "\<forall>j < i. name_taken lower current parent (?xs ! j)"
      unfolding find_first not_not by blast
    have "name_taken lower current parent (numbered_name name k)" if "k < Suc i" for k
    proof (cases k)
      case (Suc j)
      with that i(1) have j: "j < i" "j < length ?xs" by simp_all
      from i(4) j(1) have "name_taken lower current parent (?xs ! j)" by blast
      then show ?thesis unfolding Suc nth [OF j(2)] .
    qed (simp add: True)
    with i(2,3) nth [OF i(1)] show ?thesis by metis
  qed
  obtain free' where free': "free_name lower current parent name = Some free'"
    using free_name_found [OF assms] by blast
  have unique: "a = b" if "?first a" "?first b" for a b
    using that by (metis linorder_neqE_nat)
  show ?thesis using sound [OF free'] sound [of free] unique [of free' free] free' by auto
qed

lemma plan_sends_iff:
  assumes dist: "distinct (map mx_id current)" and low: "\<forall>name. lowers_numbered lower name"
  shows "plan_change lower change current = Some (Inr (PSend edit)) \<longleftrightarrow> admissible lower current change edit"
proof (cases change)
  case (McCreate name parent)
  have "(\<forall>m \<in> set current. \<not> (mx_parent m = parent \<and> mx_name m = name)) \<longleftrightarrow> sibling_named current parent name None = None"
    by (simp add: sibling_named_None)
  with McCreate show ?thesis by (cases parent) (auto simp: folder_find_None split: option.splits)
next
  case (McUpdate target seen name parent)
  have one: "f = f'" if "in_place current target seen f" "in_place current target seen f'" for f f'
    using that unchanged_found [OF dist, of target seen] by (metis sum.inject(2))
  show ?thesis
  proof (cases "unchanged (folder_find current target) seen")
    case (Inl e)
    then have "\<not> in_place current target seen f" for f using unchanged_found [OF dist, of target seen f] by simp
    with Inl McUpdate show ?thesis by simp
  next
    case (Inr f)
    then have f: "in_place current target seen f" using unchanged_found [OF dist] by blast
    then have "seen = \<lparr>pl_name = mx_name f, pl_parent = mx_parent f\<rparr>" by (simp add: in_place_def place_of_def)
    with Inr McUpdate f show ?thesis
      by (cases parent) (auto simp: within_reaches folder_find_None sibling_named_None)
  qed
next
  case (McTrash target seen trash)
  show ?thesis
  proof (cases "unchanged (folder_find current target) seen")
    case (Inl e)
    then have "\<not> in_place current target seen f" for f using unchanged_found [OF dist, of target seen f] by simp
    with Inl McTrash show ?thesis by simp
  next
    case (Inr f)
    have f: "in_place current target seen g \<longleftrightarrow> g = f" for g
      using Inr unchanged_found [OF dist, of target seen g] by auto
    have first: "free_name lower current trash (mx_name f) = Some free \<longleftrightarrow>
        (\<exists>n. free = numbered_name (mx_name f) n \<and> \<not> name_taken lower current trash free \<and>
          (\<forall>k < n. name_taken lower current trash (numbered_name (mx_name f) k)))" for free
      using low free_name_first by blast
    have "plan_change lower change current = Some (Inr (PSend edit)) \<longleftrightarrow>
        trash \<in> mx_id ` set current \<and> (trash, target) \<notin> (parent_rel current)\<^sup>* \<and>
        (\<exists>free. free_name lower current trash (mx_name f) = Some free \<and> edit = MxTrash target trash free)"
      using Inr McTrash by (auto simp: within_reaches folder_find_None split: option.splits)
    then show ?thesis unfolding first McTrash by (auto simp: f)
  qed
next
  case (McDelete target)
  show ?thesis
  proof (cases "folder_find current target")
    case None
    then have "target \<notin> mx_id ` set current" by (simp add: folder_find_None)
    with None McDelete show ?thesis by auto
  next
    case (Some f)
    have "g = f" if "g \<in> set current" "mx_id g = target" for g using folder_find_member [OF dist that(1)] that(2) Some by simp
    with Some McDelete folder_find_Some [OF Some] show ?thesis by auto
  qed
qed

text \<open>Where the parent links lead once the plan's edit puts a folder under a parent.\<close>

definition put_under :: "mailbox_id \<Rightarrow> mailbox_id option \<Rightarrow> (mailbox_id \<times> mailbox_id) set \<Rightarrow> (mailbox_id \<times> mailbox_id) set" where
  "put_under target parent R = {(a, b). if a = target then parent = Some b else (a, b) \<in> R}"

fun asked_links :: "mailbox_edit \<Rightarrow> (mailbox_id \<times> mailbox_id) set \<Rightarrow> (mailbox_id \<times> mailbox_id) set" where
  "asked_links (MxUpdate target name parent) R = put_under target parent R"
| "asked_links (MxTrash target trash name) R = put_under target (Some trash) R"
| "asked_links _ R = R"

lemma put_under_acyclic:
  assumes "acyclic R" and "\<forall>p \<in> set_option parent. (p, target) \<notin> R\<^sup>*"
  shows "acyclic (put_under target parent R)"
proof (rule acyclic_subset)
  show "acyclic (case parent of None \<Rightarrow> R | Some p \<Rightarrow> insert (target, p) R)"
    using assms by (auto simp: acyclic_insert split: option.splits)
  show "put_under target parent R \<subseteq> (case parent of None \<Rightarrow> R | Some p \<Rightarrow> insert (target, p) R)"
    by (auto simp: put_under_def split: option.splits if_splits)
qed

lemma admissible_acyclic:
  assumes "admissible lower current change edit" and "acyclic (parent_rel current)"
  shows "acyclic (asked_links edit (parent_rel current))"
  using assms(1)
  by (cases change) (auto intro!: put_under_acyclic [OF assms(2)] simp: assms(2))

end
