(* ===== verification/Send_Driver.thy ===== *)
theory Send_Driver
  imports Driver_World Mailbox_Plan
begin

text \<open>
  Sending: one attempt at a claimed send, the inline driver (\<open>outbox/submit.rs\<close>) and the drain pass that
  comes back for what is queued (\<open>outbox/drain.rs\<close>, \<open>outbox/drain_report.rs\<close>), with the folder change it shares
  with its inline driver (\<open>outbox/mailbox.rs\<close>).

  A provider is a record of its write verbs, each a function of the moment it is called at; \<open>serde\<close> is the
  JSON codec of the requests.
\<close>

section \<open>Parameters\<close>

record ('b, 'w) provider =
  pv_submit_email :: "nat \<Rightarrow> account_id \<Rightarrow> 'b draft \<Rightarrow> submission"
  pv_edit_mail :: "nat \<Rightarrow> account_id \<Rightarrow> mail_edit \<Rightarrow> (provider_error, provider_key) result"
  pv_report_message :: "nat \<Rightarrow> account_id \<Rightarrow> 'w message_report \<Rightarrow> (provider_error, provider_key) result"
  pv_put_draft :: "nat \<Rightarrow> account_id \<Rightarrow> 'b draft \<Rightarrow> provider_key option \<Rightarrow> (provider_error, provider_key) result"
  pv_delete_draft :: "nat \<Rightarrow> account_id \<Rightarrow> provider_key \<Rightarrow> (provider_error, unit) result"
  pv_sync_mailboxes :: "nat \<Rightarrow> account_id \<Rightarrow> (provider_error, mailbox list) result"
  pv_edit_mailbox :: "nat \<Rightarrow> account_id \<Rightarrow> mailbox_edit \<Rightarrow> (provider_error, mailbox_id option) result"

record 'b draft_put =
  dp_draft :: "'b draft"
  dp_replacing :: "provider_key option"

record ('v, 'b, 'w) serde =
  sj_draft_to :: "'b draft \<Rightarrow> (string, 'v) result"
  sj_draft_of :: "'v \<Rightarrow> 'b draft option"
  sj_put_to :: "'b draft_put \<Rightarrow> (string, 'v) result"
  sj_put_of :: "'v \<Rightarrow> 'b draft_put option"
  sj_key_to :: "provider_key \<Rightarrow> (string, 'v) result"
  sj_key_of :: "'v \<Rightarrow> provider_key option"
  sj_edit_to :: "mail_edit \<Rightarrow> (string, 'v) result"
  sj_edit_of :: "'v \<Rightarrow> mail_edit option"
  sj_report_to :: "'w message_report \<Rightarrow> (string, 'v) result"
  sj_report_of :: "'v \<Rightarrow> 'w message_report option"
  sj_change_to :: "mailbox_change \<Rightarrow> (string, 'v) result"
  sj_change_of :: "'v \<Rightarrow> mailbox_change option"

section \<open>One attempt\<close>

text \<open>
  Running a submission under its lease: \<open>HandOver::commit\<close> records the hand-over once, and a commit that
  cannot be recorded is a retryable error to the provider.
\<close>

primrec run_submission ::
  "submission \<Rightarrow> pdt_add \<Rightarrow> ('o, 'v) sync_object \<Rightarrow> op_lease \<Rightarrow> bool \<Rightarrow> ('v, 'o, 'p) world \<Rightarrow>
   (provider_error, submission_receipt) result \<times> ('v, 'o, 'p) world" where
  "run_submission (SReturn r) padd tr l committed w = (r, w)"
| "run_submission (SCommit ok fail) padd tr l committed w =
     (if committed then run_submission ok padd tr l True w
      else case record_hand_over padd tr l w of
        (Inl e, w) \<Rightarrow> run_submission (fail (commit_error e)) padd tr l False w
      | (Inr _, w) \<Rightarrow> run_submission ok padd tr l True w)"
| "run_submission (SDeliver rest) padd tr l committed w =
     run_submission rest padd tr l committed (delivered True l (interfere padd tr w))"

datatype attempt_end =
    AtDelivered submission_receipt
  | AtRefused provider_error
  | AtUnknown provider_error
  | AtSuperseded "(provider_error, submission_receipt) result"

definition attempt_outcome :: "(provider_error, submission_receipt) result \<Rightarrow> pending_outcome" where
  "attempt_outcome sent = (case sent of
      Inr receipt \<Rightarrow> OSucceeded (sn_email_key receipt)
    | Inl err \<Rightarrow>
        (if pe_requires_confirmation err then ONeedsConfirmation (pe_detail err)
         else OFailed (pe_class err) (pe_retry_after err)))"

text \<open>Whether the message was delivered or may have been.\<close>

definition may_be_out :: "(provider_error, submission_receipt) result \<Rightarrow> bool" where
  "may_be_out sent = (case sent of Inr _ \<Rightarrow> True | Inl err \<Rightarrow> pe_requires_confirmation err)"

definition attempt ::
  "pdt_add \<Rightarrow> ('o, 'v) sync_object \<Rightarrow> ('b, 'w) provider \<Rightarrow> account_id \<Rightarrow> 'v leased_pending_op \<Rightarrow> 'b draft \<Rightarrow> std_duration \<Rightarrow> ('v, 'o, 'p) world \<Rightarrow> 
   (sync_error, attempt_end) result \<times> ('v, 'o, 'p) world" where
  "attempt padd tr pv account leased draft ttl w =
     (case holding (lo_lease leased) ttl
         (\<lambda>w. run_submission (pv_submit_email pv (wd_at w) account draft) padd tr (lo_lease leased) False w) w of
       (sent, w) \<Rightarrow>
         (case mark_pending_op padd tr (lo_lease leased) (attempt_outcome sent) w of
            (Inl StaleLease, w) \<Rightarrow> (Inr (AtSuperseded sent), w)
          | (Inl e, w) \<Rightarrow> (if may_be_out sent then Inl (SeUnrecorded e) else Inl (SeStore e), w)
          | (Inr _, w) \<Rightarrow>
              (Inr (case sent of
                 Inr receipt \<Rightarrow> AtDelivered receipt
               | Inl err \<Rightarrow> (if pe_requires_confirmation err then AtUnknown err else AtRefused err)), w)))"

record submit_outcome =
  su_op :: pending_op_id
  su_email_key :: provider_key
  su_message_id :: message_id_header
  su_sent_copy :: sent_copy
  su_sent_copy_keywords :: "keyword btree_set"

definition op_new :: "idempotency_key \<Rightarrow> pending_op_kind \<Rightarrow> resource_key \<Rightarrow> 'v \<Rightarrow> 'v pending_op" where
  "op_new idem kind resource payload = \<lparr>po_idempotency_key = idem, po_kind = kind, po_depends_on = [],
     po_resource_key = resource, po_payload = payload, po_keyword_edit = None\<rparr>"

text \<open>The keys of a send are not empty, so neither is refused.\<close>

definition submit_mail ::
  "pdt_add \<Rightarrow> ('o, 'v) sync_object \<Rightarrow> ('b, 'w) provider \<Rightarrow> ('v, 'b, 'w) serde \<Rightarrow> account_id \<Rightarrow> worker_id \<Rightarrow> std_duration \<Rightarrow> 'b draft \<Rightarrow> ('v, 'o, 'p) world \<Rightarrow> 
   ((sync_error, submit_outcome) result \<times> ('v, 'o, 'p) world) option" where
  "submit_mail padd tr pv sj account worker ttl draft w =
     (case sj_draft_to sj draft of
        Inl e \<Rightarrow> Some (Inl (SeOutbox (Encode ''encode draft'' e)), w)
      | Inr payload \<Rightarrow>
          (case enqueue_and_claim padd tr account worker ttl
              (op_new (''submit:'' @ df_message_id draft) MailSubmit (''draft:'' @ df_message_id draft) payload) w of
             None \<Rightarrow> None
           | Some (Inl e, w) \<Rightarrow> Some (Inl e, w)
           | Some (Inr leased, w) \<Rightarrow>
               (let answer = (\<lambda>receipt. \<lparr>su_op = lo_id leased, su_email_key = sn_email_key receipt,
                      su_message_id = sn_message_id receipt, su_sent_copy = sn_sent_copy receipt,
                      su_sent_copy_keywords = sn_sent_copy_keywords receipt\<rparr>)
                in case attempt padd tr pv account leased draft ttl w of
                  (Inl e, w) \<Rightarrow> Some (Inl e, w)
                | (Inr (AtDelivered receipt), w) \<Rightarrow> Some (Inr (answer receipt), w)
                | (Inr (AtSuperseded (Inr receipt)), w) \<Rightarrow> Some (Inr (answer receipt), w)
                | (Inr (AtRefused err), w) \<Rightarrow> Some (Inl (SeProvider err), w)
                | (Inr (AtUnknown err), w) \<Rightarrow> Some (Inl (SeProvider err), w)
                | (Inr (AtSuperseded (Inl err)), w) \<Rightarrow> Some (Inl (SeProvider err), w))))"

section \<open>A folder change\<close>

definition tree_resource :: string where "tree_resource = ''mailbox-tree''"

fun settled_key :: "mailbox_change \<Rightarrow> mailbox_id option \<Rightarrow> provider_key" where
  "settled_key (McCreate _ parent) m = (case opt_or m parent of Some k \<Rightarrow> k | None \<Rightarrow> tree_resource)"
| "settled_key (McUpdate target _ _ _) m = (case m of Some k \<Rightarrow> k | None \<Rightarrow> target)"
| "settled_key (McTrash target _ _) m = (case m of Some k \<Rightarrow> k | None \<Rightarrow> target)"
| "settled_key (McDelete target) m = (case m of Some k \<Rightarrow> k | None \<Rightarrow> target)"

text \<open>Both provider calls of a change happen at the moment it runs; \<open>None\<close> is the plan's panic.\<close>

definition mailbox_attempt ::
  "(string \<Rightarrow> string) \<Rightarrow> ('b, 'w) provider \<Rightarrow> nat \<Rightarrow> account_id \<Rightarrow> mailbox_change \<Rightarrow> (provider_error, mailbox_id option) result option" where
  "mailbox_attempt lower pv at account change =
     (case pv_sync_mailboxes pv at account of
        Inl e \<Rightarrow> Some (Inl e)
      | Inr current \<Rightarrow>
          (case plan_change lower change current of
             None \<Rightarrow> None
           | Some (Inl e) \<Rightarrow> Some (Inl e)
           | Some (Inr (PDone mailbox)) \<Rightarrow> Some (Inr mailbox)
           | Some (Inr (PSend edit)) \<Rightarrow> Some (pv_edit_mailbox pv at account edit)))"

definition mailbox_run ::
  "pdt_add \<Rightarrow> ('o, 'v) sync_object \<Rightarrow> (string \<Rightarrow> string) \<Rightarrow> ('b, 'w) provider \<Rightarrow> account_id \<Rightarrow> 'v leased_pending_op \<Rightarrow> mailbox_change \<Rightarrow> ('v, 'o, 'p) world \<Rightarrow> 
   ((sync_error, (provider_error, mailbox_id option) result) result \<times> ('v, 'o, 'p) world) option" where
  "mailbox_run padd tr lower pv account leased change w =
     (case mailbox_attempt lower pv (wd_at w) account change of
        None \<Rightarrow> None
      | Some (Inr mailbox) \<Rightarrow>
          (case mark_pending_op padd tr (lo_lease leased) (OSucceeded (settled_key change mailbox)) w of
             (Inl e, w) \<Rightarrow> Some (Inl (SeStore e), w)
           | (Inr _, w) \<Rightarrow> Some (Inr (Inr mailbox), w))
      | Some (Inl err) \<Rightarrow>
          (case record_failure padd tr leased err w of
             (Inl e, w) \<Rightarrow> Some (Inl e, w)
           | (Inr _, w) \<Rightarrow> Some (Inr (Inl err), w)))"

section \<open>The drain pass\<close>

datatype drain_outcome =
    DSucceeded
  | DSentNotFiled string
  | DParked failure_class nat
  | DFailed failure_class
  | DAwaitingConfirmation string
  | DUndecodable string

record drained_op =
  do_id :: pending_op_id
  do_kind :: pending_op_kind
  do_outcome :: drain_outcome
  do_provider_key :: "provider_key option"

record drain_report =
  dr_attempted :: "drained_op list"
  dr_deferred :: nat

definition report_delivered :: "drain_report \<Rightarrow> nat" where
  "report_delivered r = length (filter (\<lambda>d. case do_outcome d of
      DSucceeded \<Rightarrow> True | DSentNotFiled _ \<Rightarrow> True | _ \<Rightarrow> False) (dr_attempted r))"

definition report_is_idle :: "drain_report \<Rightarrow> bool" where
  "report_is_idle r \<longleftrightarrow> dr_attempted r = []"

datatype drain_write = WEdit | WReport | WDraftPut | WDraftDelete | WMailbox

datatype mail_op = MSubmit | MWrite drain_write

fun mail_op_kind :: "mail_op \<Rightarrow> pending_op_kind" where
  "mail_op_kind MSubmit = MailSubmit"
| "mail_op_kind (MWrite WEdit) = MailEdit"
| "mail_op_kind (MWrite WReport) = MailReport"
| "mail_op_kind (MWrite WDraftPut) = MailDraftPut"
| "mail_op_kind (MWrite WDraftDelete) = MailDraftDelete"
| "mail_op_kind (MWrite WMailbox) = MailboxEdit"

definition dispatchable :: "'v pending_op_row \<Rightarrow> mail_op option" where
  "dispatchable row =
     (if pr_state row \<noteq> Pending then None
      else case pr_kind row of
        None \<Rightarrow> None
      | Some MailSubmit \<Rightarrow> Some MSubmit
      | Some MailEdit \<Rightarrow> Some (MWrite WEdit)
      | Some MailReport \<Rightarrow> Some (MWrite WReport)
      | Some MailDraftPut \<Rightarrow> Some (MWrite WDraftPut)
      | Some MailDraftDelete \<Rightarrow> Some (MWrite WDraftDelete)
      | Some MailboxEdit \<Rightarrow> Some (MWrite WMailbox)
      | Some _ \<Rightarrow> None)"

record ran =
  ra_outcome :: drain_outcome
  ra_key :: "provider_key option"

definition ran_bare :: "drain_outcome \<Rightarrow> ran" where "ran_bare out = \<lparr>ra_outcome = out, ra_key = None\<rparr>"

definition ran_keyed :: "drain_outcome \<Rightarrow> provider_key \<Rightarrow> ran" where
  "ran_keyed out key = \<lparr>ra_outcome = out, ra_key = Some key\<rparr>"

definition undecodable :: "string \<Rightarrow> drain_outcome" where
  "undecodable what = DUndecodable (''queued '' @ what @ '' could not be read by this build'')"

text \<open>Whether the store parked or settled a failure already recorded: the state read back.\<close>

definition settled ::
  "pdt_add \<Rightarrow> ('o, 'v) sync_object \<Rightarrow> 'v leased_pending_op \<Rightarrow> failure_class \<Rightarrow> ('v, 'o, 'p) world \<Rightarrow> (sync_error, drain_outcome) result \<times> ('v, 'o, 'p) world" where
  "settled padd tr leased cls w =
     (case store_read padd tr (\<lambda>now s. list_pending_ops padd now (ol_account (lo_lease leased)) s) w of
        (Inl e, w) \<Rightarrow> (Inl (SeStore e), w)
      | (Inr rows, w) \<Rightarrow>
          (Inr (case find (\<lambda>row. pr_id row = lo_id leased) rows of
             Some row \<Rightarrow> (if pr_state row = Pending then DParked cls (pr_attempts row) else DFailed cls)
           | None \<Rightarrow> DFailed cls), w))"

definition settle ::
  "pdt_add \<Rightarrow> ('o, 'v) sync_object \<Rightarrow> 'v leased_pending_op \<Rightarrow> provider_error \<Rightarrow> ('v, 'o, 'p) world \<Rightarrow> (sync_error, drain_outcome) result \<times> ('v, 'o, 'p) world" where
  "settle padd tr leased err w =
     (case record_failure padd tr leased err w of
        (Inl e, w) \<Rightarrow> (Inl e, w)
      | (Inr _, w) \<Rightarrow> settled padd tr leased (pe_class err) w)"

text \<open>A payload this build cannot read settles the op as failed for good.\<close>

definition decode_op ::
  "pdt_add \<Rightarrow> ('o, 'v) sync_object \<Rightarrow> ('v \<Rightarrow> 'q option) \<Rightarrow> 'v leased_pending_op \<Rightarrow> ('v, 'o, 'p) world \<Rightarrow> (sync_error, 'q option) result \<times> ('v, 'o, 'p) world" where
  "decode_op padd tr dec leased w =
     (case dec (po_payload (lo_op leased)) of
        Some request \<Rightarrow> (Inr (Some request), w)
      | None \<Rightarrow>
          (case mark_pending_op padd tr (lo_lease leased) (OFailed Permanent None) w of
             (Inl e, w) \<Rightarrow> (Inl (SeStore e), w)
           | (Inr _, w) \<Rightarrow> (Inr None, w)))"

definition send_op ::
  "pdt_add \<Rightarrow> ('o, 'v) sync_object \<Rightarrow> ('b, 'w) provider \<Rightarrow> ('v, 'b, 'w) serde \<Rightarrow> account_id \<Rightarrow> 'v leased_pending_op \<Rightarrow> std_duration \<Rightarrow> ('v, 'o, 'p) world \<Rightarrow> (sync_error, ran option) result \<times> ('v, 'o, 'p) world" where
  "send_op padd tr pv sj account leased ttl w =
     (case decode_op padd tr (sj_draft_of sj) leased w of
        (Inl e, w) \<Rightarrow> (Inl e, w)
      | (Inr None, w) \<Rightarrow> (Inr (Some (ran_bare (undecodable ''draft''))), w)
      | (Inr (Some draft), w) \<Rightarrow>
          (case attempt padd tr pv account leased draft ttl w of
             (Inl e, w) \<Rightarrow> (Inl e, w)
           | (Inr (AtDelivered receipt), w) \<Rightarrow>
               (Inr (Some (ran_keyed (case sn_sent_copy receipt of
                    Filed \<Rightarrow> DSucceeded | Unfiled d \<Rightarrow> DSentNotFiled d) (sn_email_key receipt))), w)
           | (Inr (AtUnknown err), w) \<Rightarrow> (Inr (Some (ran_bare (DAwaitingConfirmation (pe_detail err)))), w)
           | (Inr (AtRefused err), w) \<Rightarrow>
               (case settled padd tr leased (pe_class err) w of
                  (Inl e, w) \<Rightarrow> (Inl e, w)
                | (Inr out, w) \<Rightarrow> (Inr (Some (ran_bare out)), w))
           | (Inr (AtSuperseded _), w) \<Rightarrow> (Inr None, w)))"

text \<open>The tail the writes share: the provider's answer recorded, and what the pass reports.\<close>

definition record_write ::
  "pdt_add \<Rightarrow> ('o, 'v) sync_object \<Rightarrow> 'v leased_pending_op \<Rightarrow> (provider_error, provider_key) result \<Rightarrow> ('v, 'o, 'p) world \<Rightarrow> (sync_error, ran) result \<times> ('v, 'o, 'p) world" where
  "record_write padd tr leased answer w =
     (case answer of
        Inr key \<Rightarrow>
          (case mark_pending_op padd tr (lo_lease leased) (OSucceeded key) w of
             (Inl e, w) \<Rightarrow> (Inl (SeStore e), w)
           | (Inr _, w) \<Rightarrow> (Inr (ran_keyed DSucceeded key), w))
      | Inl err \<Rightarrow>
          (case settle padd tr leased err w of
             (Inl e, w) \<Rightarrow> (Inl e, w)
           | (Inr out, w) \<Rightarrow> (Inr (ran_bare out), w)))"

definition run_decoded ::
  "pdt_add \<Rightarrow> ('o, 'v) sync_object \<Rightarrow> ('v \<Rightarrow> 'q option) \<Rightarrow> string \<Rightarrow> 'v leased_pending_op \<Rightarrow> (nat \<Rightarrow> 'q \<Rightarrow> (provider_error, provider_key) result) \<Rightarrow> ('v, 'o, 'p) world \<Rightarrow> 
   (sync_error, ran) result \<times> ('v, 'o, 'p) world" where
  "run_decoded padd tr dec what leased call w =
     (case decode_op padd tr dec leased w of
        (Inl e, w) \<Rightarrow> (Inl e, w)
      | (Inr None, w) \<Rightarrow> (Inr (ran_bare (undecodable what)), w)
      | (Inr (Some request), w) \<Rightarrow> record_write padd tr leased (call (wd_at w) request) w)"

fun run_write ::
  "pdt_add \<Rightarrow> ('o, 'v) sync_object \<Rightarrow> (string \<Rightarrow> string) \<Rightarrow> ('b, 'w) provider \<Rightarrow> ('v, 'b, 'w) serde \<Rightarrow> account_id \<Rightarrow> 'v leased_pending_op \<Rightarrow> drain_write \<Rightarrow> ('v, 'o, 'p) world \<Rightarrow> ((sync_error, ran) result \<times> ('v, 'o, 'p) world) option" where
  "run_write padd tr lower pv sj account leased WDraftPut w =
     Some (run_decoded padd tr (sj_put_of sj) ''draft put'' leased
       (\<lambda>at request. pv_put_draft pv at account (dp_draft request) (dp_replacing request)) w)"
| "run_write padd tr lower pv sj account leased WDraftDelete w =
     Some (run_decoded padd tr (sj_key_of sj) ''draft delete'' leased
       (\<lambda>at key. map_sum id (\<lambda>_. key) (pv_delete_draft pv at account key)) w)"
| "run_write padd tr lower pv sj account leased WEdit w =
     Some (run_decoded padd tr (sj_edit_of sj) ''mail edit'' leased (\<lambda>at edit. pv_edit_mail pv at account edit) w)"
| "run_write padd tr lower pv sj account leased WReport w =
     Some (run_decoded padd tr (sj_report_of sj) ''message report'' leased
       (\<lambda>at report. pv_report_message pv at account report) w)"
| "run_write padd tr lower pv sj account leased WMailbox w =
     (case decode_op padd tr (sj_change_of sj) leased w of
        (Inl e, w) \<Rightarrow> Some (Inl e, w)
      | (Inr None, w) \<Rightarrow> Some (Inr (ran_bare (undecodable ''folder change'')), w)
      | (Inr (Some change), w) \<Rightarrow>
          (case mailbox_run padd tr lower pv account leased change w of
             None \<Rightarrow> None
           | Some (Inl e, w) \<Rightarrow> Some (Inl e, w)
           | Some (Inr (Inr mailbox), w) \<Rightarrow> Some (Inr \<lparr>ra_outcome = DSucceeded, ra_key = mailbox\<rparr>, w)
           | Some (Inr (Inl err), w) \<Rightarrow>
               (case settled padd tr leased (pe_class err) w of
                  (Inl e, w) \<Rightarrow> Some (Inl e, w)
                | (Inr out, w) \<Rightarrow> Some (Inr (ran_bare out), w))))"

fun run_one ::
  "pdt_add \<Rightarrow> ('o, 'v) sync_object \<Rightarrow> (string \<Rightarrow> string) \<Rightarrow> ('b, 'w) provider \<Rightarrow> ('v, 'b, 'w) serde \<Rightarrow> account_id \<Rightarrow> 'v leased_pending_op \<Rightarrow> mail_op \<Rightarrow> std_duration \<Rightarrow> ('v, 'o, 'p) world \<Rightarrow> 
   ((sync_error, ran option) result \<times> ('v, 'o, 'p) world) option" where
  "run_one padd tr lower pv sj account leased MSubmit ttl w = Some (send_op padd tr pv sj account leased ttl w)"
| "run_one padd tr lower pv sj account leased (MWrite write) ttl w =
     (case run_write padd tr lower pv sj account leased write w of
        None \<Rightarrow> None
      | Some (Inr rn, w) \<Rightarrow> Some (Inr (Some rn), w)
      | Some (Inl (SeStore StaleLease), w) \<Rightarrow> Some (Inr None, w)
      | Some (Inl e, w) \<Rightarrow> Some (Inl e, w))"

definition holding_opt ::
  "op_lease \<Rightarrow> std_duration \<Rightarrow> (('v, 'o, 'p) world \<Rightarrow> ('r \<times> ('v, 'o, 'p) world) option) \<Rightarrow> ('v, 'o, 'p) world \<Rightarrow> ('r \<times> ('v, 'o, 'p) world) option" where
  "holding_opt l ttl work w =
     (case work (w\<lparr>wd_renewals := wd_renewals w @ [Some (l, ttl)]\<rparr>) of
        None \<Rightarrow> None
      | Some (r, w') \<Rightarrow> Some (r, w'\<lparr>wd_renewals := take (length (wd_renewals w)) (wd_renewals w')\<rparr>))"

fun drain_loop ::
  "pdt_add \<Rightarrow> ('o, 'v) sync_object \<Rightarrow> (string \<Rightarrow> string) \<Rightarrow> ('b, 'w) provider \<Rightarrow> ('v, 'b, 'w) serde \<Rightarrow> account_id \<Rightarrow> worker_id \<Rightarrow> std_duration \<Rightarrow> 'v pending_op_row list \<Rightarrow> 
   drain_report \<Rightarrow> ('v, 'o, 'p) world \<Rightarrow> ((sync_error, drain_report) result \<times> ('v, 'o, 'p) world) option" where
  "drain_loop padd tr lower pv sj account worker ttl [] report w = Some (Inr report, w)"
| "drain_loop padd tr lower pv sj account worker ttl (row # rows) report w =
     (case dispatchable row of
        None \<Rightarrow> drain_loop padd tr lower pv sj account worker ttl rows (report\<lparr>dr_deferred := dr_deferred report + 1\<rparr>) w
      | Some op \<Rightarrow>
          (case claim_pending_op padd tr account (pr_id row) \<lparr>lq_owner = worker, lq_ttl = ttl\<rparr> w of
             (Inl e, w) \<Rightarrow> Some (Inl (SeStore e), w)
           | (Inr (Refused _), w) \<Rightarrow>
               drain_loop padd tr lower pv sj account worker ttl rows (report\<lparr>dr_deferred := dr_deferred report + 1\<rparr>) w
           | (Inr (Leased leased), w) \<Rightarrow>
               (case holding_opt (lo_lease leased) ttl (run_one padd tr lower pv sj account leased op ttl) w of
                  None \<Rightarrow> None
                | Some (Inl e, w) \<Rightarrow> Some (Inl e, w)
                | Some (Inr None, w) \<Rightarrow>
                    drain_loop padd tr lower pv sj account worker ttl rows
                      (report\<lparr>dr_deferred := dr_deferred report + 1\<rparr>) w
                | Some (Inr (Some rn), w) \<Rightarrow>
                    drain_loop padd tr lower pv sj account worker ttl rows
                      (report\<lparr>dr_attempted := dr_attempted report @
                        [\<lparr>do_id = pr_id row, do_kind = mail_op_kind op, do_outcome = ra_outcome rn,
                          do_provider_key = ra_key rn\<rparr>]\<rparr>) w)))"

definition drain_outbox ::
  "pdt_add \<Rightarrow> ('o, 'v) sync_object \<Rightarrow> (string \<Rightarrow> string) \<Rightarrow> ('b, 'w) provider \<Rightarrow> ('v, 'b, 'w) serde \<Rightarrow> account_id \<Rightarrow> worker_id \<Rightarrow> std_duration \<Rightarrow> ('v, 'o, 'p) world \<Rightarrow> 
   ((sync_error, drain_report) result \<times> ('v, 'o, 'p) world) option" where
  "drain_outbox padd tr lower pv sj account worker ttl w =
     (case store_read padd tr (\<lambda>now s. list_pending_ops padd now account s) w of
        (Inl e, w) \<Rightarrow> Some (Inl (SeStore e), w)
      | (Inr queue, w) \<Rightarrow>
          drain_loop padd tr lower pv sj account worker ttl queue \<lparr>dr_attempted = [], dr_deferred = 0\<rparr> w)"

end
