(* ===== verification/Driver_Safety.thy ===== *)
theory Driver_Safety
  imports Send_Driver
begin

text \<open>
  The drivers keep the discipline of \<open>Send_Once\<close>, whatever happens between their store calls. The argument
  is rely and guarantee: as long as the others keep it (\<open>sane\<close>), present none of the leases this driver was
  handed and deliver under none, and the host does not declare undelivered a send this driver holds
  (\<open>clear\<close>, \<open>apart_from\<close>), every call and every delivery of the driver keeps it too. Drivers may share one
  worker id, as those of one engine do: what is asked concerns leases, not owners.
\<close>

section \<open>Who keeps the discipline\<close>

definition acts :: "('v, 'o, 'p) world \<Rightarrow> ('v, 'o, 'p) trace" where
  "acts w = map snd (wd_trace w)"

abbreviation cmds :: "('v, 'o, 'p) world \<Rightarrow> ('v, 'o, 'p) history" where
  "cmds w \<equiv> cmds_of (acts w)"

definition lawful_by :: "bool \<Rightarrow> (bool \<times> ('v, 'o, 'p) act) list \<Rightarrow> bool" where
  "lawful_by who p \<longleftrightarrow> (\<forall>k < length p. fst (p ! k) = who \<longrightarrow> disciplined (map snd (take k p)) (snd (p ! k)))"

lemma lawful_by_both: "lawful (map snd p) \<longleftrightarrow> lawful_by True p \<and> lawful_by False p"
  by (auto simp: lawful_def lawful_by_def take_map)

lemma lawful_by_snoc:
  "lawful_by who (p @ [x]) \<longleftrightarrow> lawful_by who p \<and> (fst x = who \<longrightarrow> disciplined (map snd p) (snd x))"
  by (auto simp: lawful_by_def nth_append less_Suc_eq)

lemma lawful_by_prefix: "lawful_by who (p @ q) \<Longrightarrow> lawful_by who p"
  by (induction q rule: rev_induct) (simp_all add: lawful_by_snoc flip: append_assoc)

definition sane :: "('v, 'o, 'p) world \<Rightarrow> bool" where
  "sane w \<longleftrightarrow> lawful_by False (wd_trace w) \<and> 2 * length (cmds w) < 2 ^ 64"

definition later :: "('v, 'o, 'p) world \<Rightarrow> ('v, 'o, 'p) world \<Rightarrow> bool" where
  "later w w' \<longleftrightarrow> (\<exists>q. wd_trace w' = wd_trace w @ q) \<and> wd_sched w' = wd_sched w"

lemma later_refl [simp]: "later w w"
  by (simp add: later_def)

lemma later_trans: "later w w1 \<Longrightarrow> later w1 w2 \<Longrightarrow> later w w2"
  by (auto simp: later_def)

lemma sane_earlier: "later w w' \<Longrightarrow> sane w' \<Longrightarrow> sane w"
  by (auto simp: later_def sane_def acts_def intro: lawful_by_prefix)

lemma later_fields [simp]:
  "later w (w'\<lparr>wd_at := n\<rparr>) = later w w'" "later w (w'\<lparr>wd_renewals := rs\<rparr>) = later w w'"
  "later (w\<lparr>wd_at := n\<rparr>) w' = later w w'" "later (w\<lparr>wd_renewals := rs\<rparr>) w' = later w w'"
  by (simp_all add: later_def)

lemma sane_fields [simp]:
  "sane (w\<lparr>wd_at := n\<rparr>) = sane w" "sane (w\<lparr>wd_renewals := rs\<rparr>) = sane w"
  by (simp_all add: sane_def acts_def)

section \<open>Everything only adds to the trace\<close>

named_theorems later_intros \<open>that a call only adds to the trace\<close>

lemma later_perform [later_intros]: "perform padd tr mine now cmd w = (r, w') \<Longrightarrow> later w w'"
  by (auto simp: perform_def later_def split: prod.splits)

lemma later_delivered [later_intros]: "later w (delivered mine l w)"
  by (simp add: delivered_def later_def)

lemma later_run_event [later_intros]: "later w (run_event padd tr e w)"
  by (cases e)
    (auto simp: later_delivered split: prod.splits option.splits dest: later_perform intro: later_perform [OF surjective_pairing])

lemma later_events: "later w (fold (run_event padd tr) es w)"
  by (induction es arbitrary: w) (auto intro: later_trans later_run_event)

lemma later_interfere [later_intros]: "later w (interfere padd tr w)"
  by (simp add: interfere_def later_events)

lemma later_store_call [later_intros]: "store_call padd tr cmd w = (r, w') \<Longrightarrow> later w w'"
  unfolding store_call_def using later_interfere later_perform later_trans by blast

lemma later_store_read [later_intros]: "store_read padd tr q w = (r, w') \<Longrightarrow> later w w'"
  by (auto simp: store_read_def Let_def later_interfere)

lemma later_calls [later_intros]:
  "mark_pending_op padd tr l out w = (r1, w1) \<Longrightarrow> later w w1"
  "record_hand_over padd tr l w = (r2, w2) \<Longrightarrow> later w w2"
  "claim_pending_op padd tr account i req w = (r3, w3) \<Longrightarrow> later w w3"
  "record_failure padd tr leased err w = (r4, w4) \<Longrightarrow> later w w4"
  by (auto simp: mark_pending_op_def record_hand_over_def claim_pending_op_def record_failure_def
      apfst_def map_prod_def split: prod.splits sum.splits dest: later_store_call)

lemma later_run_submission [later_intros]: "run_submission t padd tr l c w = (r, w') \<Longrightarrow> later w w'"
proof (induction t arbitrary: c w r w')
  case (SCommit ok fail)
  note fails = SCommit.IH(2) [OF rangeI]
  show ?case
    using SCommit.prems
    by (auto split: if_splits prod.splits sum.splits dest!: later_calls(2) SCommit.IH(1) fails intro: later_trans)
next
  case (SDeliver rest)
  then have "later (delivered True l (interfere padd tr w)) w'" by simp
  with later_trans [OF later_trans [OF later_interfere later_delivered]] show ?case by blast
qed simp

section \<open>Rely\<close>

text \<open>What another actor's act may not do to a lease.\<close>

fun harmless :: "op_lease \<Rightarrow> ('v, 'o, 'p) act \<Rightarrow> bool" where
  "harmless l (Did cmd resp) \<longleftrightarrow> presents cmd \<noteq> Some l \<and> (\<forall>a. cmd \<noteq> CConfirm a (ol_op l) NotDelivered)"
| "harmless l (Delivers l') \<longleftrightarrow> l' \<noteq> l"

text \<open>The acts of others from position \<open>n\<close> of the trace on leave the lease alone.\<close>

definition clear :: "nat \<Rightarrow> op_lease \<Rightarrow> ('v, 'o, 'p) world \<Rightarrow> bool" where
  "clear n l w \<longleftrightarrow> (\<forall>x \<in> set (drop n (wd_trace w)). fst x \<or> harmless l (snd x))"

text \<open>The leases the driver's own calls were handed.\<close>

definition own_op_leases :: "(bool \<times> ('v, 'o, 'p) act) list \<Rightarrow> op_lease set" where
  "own_op_leases q = {l. \<exists>cmd resp. (True, Did cmd resp) \<in> set q \<and> l \<in> set (minted_ops resp)}"

definition apart_from :: "nat \<Rightarrow> ('v, 'o, 'p) world \<Rightarrow> bool" where
  "apart_from n w \<longleftrightarrow> (\<forall>l \<in> own_op_leases (drop n (wd_trace w)). clear n l w)"

lemma later_drop: "later w w' \<Longrightarrow> set (drop n (wd_trace w)) \<subseteq> set (drop n (wd_trace w'))"
  by (auto simp: later_def)

lemma clear_earlier: "later w w' \<Longrightarrow> clear n l w' \<Longrightarrow> clear n l w"
  using later_drop unfolding clear_def by blast

lemma apart_earlier: "later w w' \<Longrightarrow> apart_from n w' \<Longrightarrow> apart_from n w"
  using later_drop [of w w' n] clear_earlier [of w w' n] unfolding apart_from_def own_op_leases_def by blast

lemma later_length: "later w w' \<Longrightarrow> length (wd_trace w) \<le> length (wd_trace w')"
  by (auto simp: later_def)

lemma clear_fields [simp]:
  "clear n l (w\<lparr>wd_at := m\<rparr>) = clear n l w" "clear n l (w\<lparr>wd_renewals := rs\<rparr>) = clear n l w"
  "apart_from n (w\<lparr>wd_at := m\<rparr>) = apart_from n w" "apart_from n (w\<lparr>wd_renewals := rs\<rparr>) = apart_from n w"
  by (simp_all add: clear_def apart_from_def)

section \<open>Guarantee\<close>

text \<open>
  What holds between a driver's calls. \<open>armed l c d\<close>: the driver holds lease \<open>l\<close>, has recorded its hand-over
  when \<open>c\<close>, and has delivered at most when \<open>d\<close>.
\<close>

definition good :: "pdt_add \<Rightarrow> ('o, 'v) sync_object \<Rightarrow> ('v, 'o, 'p) world \<Rightarrow> bool" where
  "good padd tr w \<longleftrightarrow> history padd tr (cmds w) (wd_store w) \<and> lawful_by True (wd_trace w) \<and>
     (\<forall>l ttl. Some (l, ttl) \<in> set (wd_renewals w) \<longrightarrow> l \<in> minted_before (cmds w))"

definition armed :: "op_lease \<Rightarrow> bool \<Rightarrow> bool \<Rightarrow> ('v, 'o, 'p) world \<Rightarrow> bool" where
  "armed l c d w \<longleftrightarrow> l \<in> minted_before (cmds w) \<and> (c \<longrightarrow> entitled l (cmds w)) \<and>
     (\<not> d \<longrightarrow> l \<notin> set (deliveries (acts w)))"

lemma armed_fields [simp]:
  "armed l c d (w\<lparr>wd_at := n\<rparr>) = armed l c d w" "armed l c d (w\<lparr>wd_renewals := rs\<rparr>) = armed l c d w"
  by (simp_all add: armed_def acts_def)

lemma good_fields [simp]: "good padd tr (w\<lparr>wd_at := n\<rparr>) = good padd tr w"
  by (simp add: good_def acts_def)

lemma good_sane_lawful: "good padd tr w \<Longrightarrow> sane w \<Longrightarrow> lawful (acts w)"
  by (simp add: good_def sane_def acts_def lawful_by_both)

lemma delivered_minted:
  assumes "good padd tr w" and "sane w" and "l \<in> set (deliveries (acts w))"
  shows "l \<in> minted_before (cmds w)"
  using entitled_minted lawful_entitled lawful_honest good_sane_lawful [OF assms(1,2)] assms(3) by blast

lemma same_lease:
  assumes "good padd tr w" and "sane w" and "l \<in> minted_before (cmds w)" and "l' \<in> minted_before (cmds w)"
    and "ol_op l = ol_op l'" and "ol_token l = ol_token l'"
  shows "l = l'"
  using history_minted_unique [OF _ _ assms(3-6)] assms(1,2) by (auto simp: good_def sane_def)

text \<open>A command performed by anyone: what is left to show of it.\<close>

lemma perform_good:
  assumes "perform padd tr mine now cmd w = (resp, w')" and "good padd tr w"
    and "mine \<Longrightarrow> disciplined (acts w) (Did cmd resp)"
  shows "good padd tr w'"
proof -
  obtain s where ex: "exec padd tr now cmd (wd_store w) = (resp, s)"
    and w': "w' = w\<lparr>wd_store := s, wd_trace := wd_trace w @ [(mine, Did cmd resp)]\<rparr>"
    using assms(1) by (auto simp: perform_def split: prod.splits)
  have cmds: "cmds w' = cmds w @ [(cmd, resp)]" by (simp add: w' acts_def)
  have "history padd tr (cmds w') (wd_store w')"
    using history.step [OF _ ex] assms(2) by (simp add: cmds good_def) (simp add: w')
  moreover have "lawful_by True (wd_trace w')" using assms(2,3) by (simp add: w' lawful_by_snoc good_def acts_def)
  moreover have "l \<in> minted_before (cmds w')" if "Some (l, ttl) \<in> set (wd_renewals w')" for l ttl
    using assms(2) that unfolding cmds by (simp add: w' good_def) blast
  ultimately show ?thesis unfolding good_def by blast
qed

lemma perform_armed:
  assumes "perform padd tr mine now cmd w = (resp, w')" and "armed l c d w"
    and "\<not> own_failure (ol_op l) (ol_token l) (cmd, resp)" and "\<not> confirms_undelivered (ol_op l) (cmd, resp)"
  shows "armed l c d w'"
  using assms by (auto simp: perform_def armed_def acts_def intro: entitled_snoc split: prod.splits)

lemma perform_acts: "perform padd tr mine now cmd w = (resp, w') \<Longrightarrow> acts w' = acts w @ [Did cmd resp]"
  by (auto simp: perform_def acts_def split: prod.splits)

lemma own_failureE:
  assumes "own_failure i t (cmd, resp)"
  obtains l cls hint where "cmd = CMark l (OFailed cls hint)" "ol_op l = i" "ol_token l = t"
  using assms by (cases "(i, t, cmd, resp)" rule: own_failure.cases) auto

lemma confirms_undeliveredE:
  assumes "confirms_undelivered i (cmd, resp)"
  obtains a where "cmd = CConfirm a i NotDelivered"
  using assms by (cases "(i, cmd, resp)" rule: confirms_undelivered.cases) auto

text \<open>An event of the schedule.\<close>

lemma other_harmless:
  assumes clear: "clear n l w'" "n \<le> length (wd_trace w)" and perf: "perform padd tr False now cmd w = (resp, w')"
    and good: "good padd tr w" and sane: "sane w'" and l: "l \<in> minted_before (cmds w)"
  shows "\<not> own_failure (ol_op l) (ol_token l) (cmd, resp)" "\<not> confirms_undelivered (ol_op l) (cmd, resp)"
proof -
  have sane0: "sane w" using sane_earlier [OF later_perform [OF perf] sane] .
  have disc: "disciplined (acts w) (Did cmd resp)"
    using sane perf by (auto simp: sane_def perform_def lawful_by_snoc acts_def split: prod.splits)
  have ev: "harmless l (Did cmd resp)"
    using clear perf by (auto simp: clear_def perform_def split: prod.splits)
  show "\<not> own_failure (ol_op l) (ol_token l) (cmd, resp)"
  proof
    assume "own_failure (ol_op l) (ol_token l) (cmd, resp)"
    then obtain l' cls hint where l': "cmd = CMark l' (OFailed cls hint)" "ol_op l' = ol_op l" "ol_token l' = ol_token l"
      by (rule own_failureE)
    with disc have "l' \<in> minted_before (cmds w)" by (simp add: own_leases_def)
    from same_lease [OF good sane0 this l l'(2,3)] ev l'(1) show False by simp
  qed
  show "\<not> confirms_undelivered (ol_op l) (cmd, resp)"
  proof
    assume "confirms_undelivered (ol_op l) (cmd, resp)"
    then obtain a where "cmd = CConfirm a (ol_op l) NotDelivered" by (rule confirms_undeliveredE)
    with ev show False by simp
  qed
qed

lemma renew_disciplined:
  "l \<in> minted_before (cmds w) \<Longrightarrow> disciplined (acts w) (Did (CRenewOp l ttl) resp)"
  by (simp add: own_leases_def list_all_iff)

lemma run_event_good:
  assumes "good padd tr w"
  shows "good padd tr (run_event padd tr e w)"
proof (cases e)
  case (Other now cmd)
  obtain resp w' where perf: "perform padd tr False now cmd w = (resp, w')" by (cases "perform padd tr False now cmd w")
  from perform_good [OF this assms] perf show ?thesis by (simp add: Other)
next
  case (OtherDelivers l)
  with assms show ?thesis by (simp add: delivered_def good_def acts_def lawful_by_snoc)
next
  case (Tick now k)
  show ?thesis
  proof (cases "k < length (wd_renewals w) \<and> wd_renewals w ! k \<noteq> None")
    case True
    then obtain l ttl where l: "wd_renewals w ! k = Some (l, ttl)" by auto
    with True have "Some (l, ttl) \<in> set (wd_renewals w)" by (metis nth_mem)
    then have "l \<in> minted_before (cmds w)" using assms by (auto simp: good_def)
    note disc = renew_disciplined [OF this]
    obtain resp w' where perf: "perform padd tr True now (CRenewOp l ttl) w = (resp, w')"
      by (cases "perform padd tr True now (CRenewOp l ttl) w")
    have "good padd tr w'" using perform_good [OF perf assms disc] .
    moreover have "good padd tr (w'\<lparr>wd_renewals := (wd_renewals w')[k := None]\<rparr>)"
      using \<open>good padd tr w'\<close> by (auto simp: good_def acts_def dest!: set_update_subset_insert [THEN subsetD])
    ultimately show ?thesis using True l perf by (simp add: Tick)
  next
    case False
    with assms show ?thesis by (auto simp: Tick split: option.splits)
  qed
qed

lemma run_event_armed:
  assumes good: "good padd tr w" and sane: "sane (run_event padd tr e w)"
    and clear: "clear n l (run_event padd tr e w)" "n \<le> length (wd_trace w)" and armed: "armed l c d w"
  shows "armed l c d (run_event padd tr e w)"
proof (cases e)
  case (Other now cmd)
  obtain resp w' where perf: "perform padd tr False now cmd w = (resp, w')" by (cases "perform padd tr False now cmd w")
  have l: "l \<in> minted_before (cmds w)" using armed by (simp add: armed_def)
  have w': "run_event padd tr e w = w'" using perf by (simp add: Other)
  from other_harmless [OF clear(1) [unfolded w'] clear(2) perf good sane [unfolded w'] l] show ?thesis
    unfolding w' by (rule perform_armed [OF perf armed])
next
  case (OtherDelivers l')
  with armed clear show ?thesis by (auto simp: delivered_def armed_def acts_def clear_def)
next
  case (Tick now k)
  show ?thesis
  proof (cases "k < length (wd_renewals w) \<and> wd_renewals w ! k \<noteq> None")
    case True
    then obtain l' ttl where l': "wd_renewals w ! k = Some (l', ttl)" by auto
    obtain resp w' where perf: "perform padd tr True now (CRenewOp l' ttl) w = (resp, w')"
      by (cases "perform padd tr True now (CRenewOp l' ttl) w")
    have "armed l c d w'" by (rule perform_armed [OF perf armed]) simp_all
    with True l' perf show ?thesis by (simp add: Tick)
  next
    case False
    with armed show ?thesis by (auto simp: Tick split: option.splits)
  qed
qed

lemma events_good: "good padd tr w \<Longrightarrow> good padd tr (fold (run_event padd tr) es w)"
  by (induction es arbitrary: w) (simp_all add: run_event_good)

lemma events_armed:
  assumes "good padd tr w" and "sane (fold (run_event padd tr) es w)" and "clear n l (fold (run_event padd tr) es w)"
    and "n \<le> length (wd_trace w)" and "armed l c d w"
  shows "armed l c d (fold (run_event padd tr) es w)"
  using assms
proof (induction es arbitrary: w)
  case (Cons e es)
  have "sane (run_event padd tr e w)" "clear n l (run_event padd tr e w)"
    using sane_earlier [OF later_events] clear_earlier [OF later_events] Cons.prems(2,3) by simp_all
  with Cons.prems have "armed l c d (run_event padd tr e w)" by (intro run_event_armed) simp_all
  moreover have "n \<le> length (wd_trace (run_event padd tr e w))" using later_length [OF later_run_event] Cons.prems(4) le_trans by blast
  ultimately show ?case using Cons by (simp add: run_event_good)
qed simp

lemma interfere_good: "good padd tr w \<Longrightarrow> good padd tr (interfere padd tr w)"
  by (simp add: interfere_def events_good)

lemma interfere_armed:
  assumes "good padd tr w" and "sane (interfere padd tr w)" and "clear n l (interfere padd tr w)"
    and "n \<le> length (wd_trace w)" and "armed l c d w"
  shows "armed l c d (interfere padd tr w)"
  using events_armed [of padd tr w _ n l c d] assms by (simp add: interfere_def)

section \<open>The driver's own calls\<close>

lemma mine_disciplined:
  assumes good: "good padd tr w" and sane: "sane w" and armed: "armed l c d w"
    and own: "presents cmd = None \<or> presents cmd = Some l"
    and fails: "\<And>cls hint. cmd = CMark l (OFailed cls hint) \<Longrightarrow> \<not> d"
    and confirms: "\<And>a i. cmd \<noteq> CConfirm a i NotDelivered"
  shows "disciplined (acts w) (Did cmd resp)"
proof -
  have l: "l \<in> minted_before (cmds w)" using armed by (simp add: armed_def)
  have "\<not> own_failure (ol_op l') (ol_token l') (cmd, resp)" if l': "l' \<in> set (deliveries (acts w))" for l'
  proof
    assume "own_failure (ol_op l') (ol_token l') (cmd, resp)"
    then obtain l2 cls hint where l2: "cmd = CMark l2 (OFailed cls hint)" "ol_op l2 = ol_op l'" "ol_token l2 = ol_token l'"
      by (rule own_failureE)
    with own have "l2 = l" by simp
    with same_lease [OF good sane l delivered_minted [OF good sane l']] l2 have "l = l'" by simp
    moreover have "\<not> d" using fails l2(1) \<open>l2 = l\<close> by blast
    ultimately show False using armed l' by (simp add: armed_def)
  qed
  moreover have "\<not> confirms_undelivered i (cmd, resp)" for i
    using confirms confirms_undeliveredE by metis
  ultimately show ?thesis using own l by (auto simp: list_all_iff own_leases_def)
qed

lemma store_callE:
  assumes "store_call padd tr cmd w = (resp, w')" and "good padd tr w" and "sane w'"
  obtains w1 where "perform padd tr True (sd_now (wd_sched w (wd_at w))) cmd w1 = (resp, w')"
    "good padd tr w1" "sane w1" "later w w1"
    "\<And>n l c d. clear n l w' \<Longrightarrow> n \<le> length (wd_trace w) \<Longrightarrow> armed l c d w \<Longrightarrow> armed l c d w1"
proof -
  let ?w1 = "interfere padd tr w"
  have perf: "perform padd tr True (sd_now (wd_sched w (wd_at w))) cmd ?w1 = (resp, w')"
    using assms(1) by (simp add: store_call_def)
  have sane: "sane ?w1" using sane_earlier [OF later_perform [OF perf] assms(3)] .
  show thesis
    by (rule that [OF perf interfere_good [OF assms(2)] sane later_interfere])
      (rule interfere_armed [OF assms(2) sane clear_earlier [OF later_perform [OF perf]]])
qed

lemma call_under_lease:
  assumes call: "store_call padd tr cmd w = (resp, w')" and good: "good padd tr w" and sane: "sane w'"
    and clear: "clear n l w'" "n \<le> length (wd_trace w)" and armed: "armed l c d w"
    and own: "presents cmd = Some l" and fails: "\<And>cls hint. cmd = CMark l (OFailed cls hint) \<Longrightarrow> \<not> d"
  obtains w1 where "perform padd tr True (sd_now (wd_sched w (wd_at w))) cmd w1 = (resp, w')" "armed l c d w1"
    "good padd tr w'"
proof -
  obtain w1 where w1: "perform padd tr True (sd_now (wd_sched w (wd_at w))) cmd w1 = (resp, w')"
    "good padd tr w1" "sane w1" "\<And>n l c d. clear n l w' \<Longrightarrow> n \<le> length (wd_trace w) \<Longrightarrow> armed l c d w \<Longrightarrow> armed l c d w1"
    using store_callE [OF call good sane] by metis
  have armed1: "armed l c d w1" by (rule w1(4) [OF clear armed])
  have "disciplined (acts w1) (Did cmd resp)"
    by (rule mine_disciplined [OF w1(2,3) armed1]) (use own fails in auto)
  from perform_good [OF w1(1,2) this] w1(1) armed1 that show thesis by blast
qed

lemma mark_keeps:
  assumes "mark_pending_op padd tr l out w = (r, w')" and "good padd tr w" and "sane w'"
    and "clear n l w'" and "n \<le> length (wd_trace w)" and "armed l c d w" and "\<And>cls hint. out = OFailed cls hint \<Longrightarrow> \<not> d"
  shows "good padd tr w'"
proof -
  obtain resp where "store_call padd tr (CMark l out) w = (resp, w')"
    using assms(1) by (auto simp: mark_pending_op_def apfst_def map_prod_def split: prod.splits)
  from call_under_lease [OF this assms(2-6)] assms(7) show ?thesis by force
qed

lemma mark_deliveries:
  assumes "mark_pending_op padd tr l out w = (r, w')" and "good padd tr w" and "sane w'"
    and "clear n l w'" and "n \<le> length (wd_trace w)" and "armed l c False w"
  shows "l \<notin> set (deliveries (acts w'))"
proof -
  obtain resp where call: "store_call padd tr (CMark l out) w = (resp, w')"
    using assms(1) by (auto simp: mark_pending_op_def apfst_def map_prod_def split: prod.splits)
  then obtain w1 where "perform padd tr True (sd_now (wd_sched w (wd_at w))) (CMark l out) w1 = (resp, w')"
    "armed l c False w1"
    by (rule call_under_lease [OF _ assms(2-6)]) simp_all
  then show ?thesis by (simp add: perform_acts armed_def)
qed

lemma hand_over_keeps:
  assumes "record_hand_over padd tr l w = (r, w')" and "good padd tr w" and "sane w'"
    and "clear n l w'" and "n \<le> length (wd_trace w)" and "armed l c d w"
  shows "good padd tr w'" "armed l (c \<or> r = Inr ()) d w'"
proof -
  obtain resp where call: "store_call padd tr (CHandOver l) w = (resp, w')" and r: "r = resp_unit resp"
    using assms(1) by (auto simp: record_hand_over_def apfst_def map_prod_def split: prod.splits)
  from call obtain w1 where w1: "perform padd tr True (sd_now (wd_sched w (wd_at w))) (CHandOver l) w1 = (resp, w')"
    "armed l c d w1" "good padd tr w'"
    by (rule call_under_lease [OF _ assms(2-6)]) simp_all
  show "good padd tr w'" by fact
  have "armed l c d w'" by (rule perform_armed [OF w1(1,2)]) simp_all
  moreover have "entitled l (cmds w')" if "r = Inr ()"
  proof -
    have "resp = RUnit (Inr ())"
      using w1(1) r that by (auto simp: perform_def apfst_def map_prod_def split: prod.splits)
    then have "cmds w' = cmds w1 @ (CHandOver l, RUnit (Inr ())) # []" using perform_acts [OF w1(1)] by simp
    then show ?thesis unfolding entitled_def by (intro exI [of _ "cmds w1"] exI [of _ "[]"]) simp
  qed
  ultimately show "armed l (c \<or> r = Inr ()) d w'" by (auto simp: armed_def)
qed

lemma read_keeps:
  assumes "store_read padd tr q w = (r, w')" and "good padd tr w" and "sane w'"
  shows "good padd tr w'"
    and "clear n l w' \<Longrightarrow> n \<le> length (wd_trace w) \<Longrightarrow> armed l c d w \<Longrightarrow> armed l c d w'"
  using assms interfere_good interfere_armed by (auto simp: store_read_def Let_def)

section \<open>Claiming\<close>

lemma claim_one_owner:
  assumes "claim_one padd now account i req s = (Inr (Leased leased), s')"
  shows "ol_owner (lo_lease leased) = lq_owner req" "lo_id leased = i" "ol_op (lo_lease leased) = i"
  using assms
  by (auto simp: claim_one_def lease_op_def Let_def split: sum.splits prod.splits option.splits if_splits)

text \<open>A lease just handed out was never handed out before.\<close>

lemma fresh_mint:
  assumes hist: "history padd tr (h @ [(cmd, resp)]) s" and len: "2 * length (h @ [(cmd, resp)]) < 2 ^ 64"
    and l: "l \<in> set (minted_ops resp)"
  shows "l \<notin> minted_before h"
proof
  let ?m = "map (\<lambda>x. minted_ops (snd x)) (h @ [(cmd, resp)])"
  assume "l \<in> minted_before h"
  then obtain i where i: "i < length h" "l \<in> set (?m ! i)"
    by (force simp: minted_before_def in_set_conv_nth [of _ h] nth_append)
  have "l \<in> set (?m ! length h)" using l by (simp add: nth_append)
  moreover have "length (h @ [(cmd, resp)]) < 2 ^ 64 - 1" using len by simp
  ultimately have "i = length h"
    using op_fence.run_unique [OF history_op_run [OF hist], of i "length h" l l] len i by simp
  with i show False by simp
qed

lemma claim_keeps:
  assumes claim: "claim_pending_op padd tr account i req w = (r, w')" and good: "good padd tr w" and sane: "sane w'"
  shows "good padd tr w'"
    and "r = Inr (Leased leased) \<Longrightarrow> armed (lo_lease leased) False False w' \<and>
      (n \<le> length (wd_trace w) \<longrightarrow> lo_lease leased \<in> own_op_leases (drop n (wd_trace w')))"
proof -
  obtain resp where call: "store_call padd tr (CClaimOp account i req) w = (resp, w')" and r: "r = resp_op resp"
    using claim by (auto simp: claim_pending_op_def apfst_def map_prod_def split: prod.splits)
  let ?now = "sd_now (wd_sched w (wd_at w))"
  obtain w1 where w1: "perform padd tr True ?now (CClaimOp account i req) w1 = (resp, w')" "good padd tr w1" "sane w1" "later w w1"
    using store_callE [OF call good sane] by metis
  have "disciplined (acts w1) (Did (CClaimOp account i req) resp)" by (simp add: own_leases_def list_all_iff)
  from perform_good [OF w1(1,2) this] show good': "good padd tr w'" .
  show "armed (lo_lease leased) False False w' \<and>
      (n \<le> length (wd_trace w) \<longrightarrow> lo_lease leased \<in> own_op_leases (drop n (wd_trace w')))"
    if leased: "r = Inr (Leased leased)"
  proof -
    have resp: "resp = ROp (Inr (Leased leased))"
      using w1(1) r leased by (auto simp: perform_def apfst_def map_prod_def split: prod.splits)
    have acts: "acts w' = acts w1 @ [Did (CClaimOp account i req) resp]" by (rule perform_acts [OF w1(1)])
    have minted: "lo_lease leased \<in> set (minted_ops resp)" by (simp add: resp)
    have "lo_lease leased \<notin> minted_before (cmds w1)"
      using fresh_mint [of padd tr "cmds w1" "CClaimOp account i req" resp "wd_store w'" "lo_lease leased"] good' sane minted
      by (simp add: acts good_def sane_def)
    then have "lo_lease leased \<notin> set (deliveries (acts w1))" using delivered_minted [OF w1(2,3)] by blast
    moreover have "lo_lease leased \<in> own_op_leases (drop n (wd_trace w'))" if "n \<le> length (wd_trace w)"
    proof -
      have "n \<le> length (wd_trace w1)" using later_length [OF w1(4)] that by simp
      then have "(True, Did (CClaimOp account i req) resp) \<in> set (drop n (wd_trace w'))"
        using w1(1) by (auto simp: perform_def split: prod.splits)
      with minted show ?thesis unfolding own_op_leases_def by blast
    qed
    ultimately show ?thesis using minted by (simp add: armed_def acts)
  qed
qed

section \<open>One attempt\<close>

lemma run_submission_keeps:
  assumes "run_submission t padd tr l c w = (sent, w')" and "honours t c d"
    and "good padd tr w" and "sane w'" and "clear n l w'" and "n \<le> length (wd_trace w)" and "armed l c d w"
  shows "good padd tr w' \<and> (\<exists>c' d'. armed l c' d' w' \<and> (d' \<longrightarrow> may_be_out sent) \<and> (\<not> isl sent \<longrightarrow> c'))"
  using assms
proof (induction t arbitrary: c d w)
  case (SReturn r)
  then show ?case
    by (intro conjI exI [of _ c] exI [of _ d]) (auto simp: may_be_out_def split: sum.splits)
next
  case (SCommit ok fail)
  show ?case
  proof (cases c)
    case True
    then show ?thesis
      using SCommit.IH(1) [of True w d] SCommit.prems by simp
  next
    case False
    obtain r w1 where ho: "record_hand_over padd tr l w = (r, w1)" by (cases "record_hand_over padd tr l w")
    have rest: "(case r of Inl e \<Rightarrow> run_submission (fail (commit_error e)) padd tr l False w1
        | Inr _ \<Rightarrow> run_submission ok padd tr l True w1) = (sent, w')"
      using SCommit.prems(1) False ho by simp
    then have later: "later w1 w'" using later_run_submission by (auto split: sum.splits)
    then have sane1: "sane w1" using SCommit.prems(4) sane_earlier by blast
    note kept = hand_over_keeps [OF ho SCommit.prems(3) sane1 clear_earlier [OF later SCommit.prems(5)] SCommit.prems(6,7)]
    have long1: "n \<le> length (wd_trace w1)" using later_length [OF later_calls(2) [OF ho]] SCommit.prems(6) by simp
    show ?thesis
    proof (cases r)
      case (Inl e)
      then have "armed l False d w1" using kept(2) False by simp
      then show ?thesis
        using SCommit.IH(2) [OF rangeI, of "commit_error e" False w1 d] rest SCommit.prems kept(1) long1 Inl False
        by simp
    next
      case (Inr u)
      then have "armed l True d w1" using kept(2) by simp
      then show ?thesis
        using SCommit.IH(1) [of True w1 d] rest SCommit.prems kept(1) long1 Inr by simp
    qed
  qed
next
  case (SDeliver rest)
  let ?w1 = "interfere padd tr w" and ?w2 = "delivered True l (interfere padd tr w)"
  have run: "run_submission rest padd tr l c ?w2 = (sent, w')" using SDeliver.prems(1) by simp
  have "later ?w2 w'" by (rule later_run_submission [OF run])
  then have sane2: "sane ?w2" and later1: "later ?w1 w'"
    using SDeliver.prems(4) sane_earlier later_trans [OF later_delivered] by blast+
  have sane1: "sane ?w1" using sane_earlier [OF later_delivered sane2] .
  have good1: "good padd tr ?w1" and armed1: "armed l c d ?w1"
    using interfere_good interfere_armed [OF SDeliver.prems(3) sane1 clear_earlier [OF later1 SDeliver.prems(5)]] SDeliver.prems by blast+
  have hon: "c" "\<not> d" "honours rest c True" using SDeliver.prems(2) unfolding honours.simps by blast+
  then have "disciplined (acts ?w1) (Delivers l)" using armed1 by (simp add: armed_def)
  then have "good padd tr ?w2"
    using good1 by (auto simp: delivered_def good_def acts_def lawful_by_snoc)
  moreover have "armed l c True ?w2" using armed1 by (simp add: delivered_def armed_def acts_def)
  moreover have "n \<le> length (wd_trace ?w2)"
    using later_length [OF later_trans [OF later_interfere later_delivered]] SDeliver.prems(6) le_trans by blast
  ultimately show ?case using SDeliver.IH [OF run hon(3) _ SDeliver.prems(4,5)] by blast
qed

lemma holding_split:
  "holding l ttl work w = (r, w') \<longleftrightarrow> (\<exists>w1. work (w\<lparr>wd_renewals := wd_renewals w @ [Some (l, ttl)]\<rparr>) = (r, w1) \<and>
     w' = w1\<lparr>wd_renewals := take (length (wd_renewals w)) (wd_renewals w1)\<rparr>)"
  by (auto simp: holding_def split: prod.splits)

lemma good_push:
  assumes "good padd tr w" and "armed l c d w"
  shows "good padd tr (w\<lparr>wd_renewals := wd_renewals w @ [Some (l, ttl)]\<rparr>)"
  using assms by (auto simp: good_def armed_def acts_def)

lemma good_take: "good padd tr w \<Longrightarrow> good padd tr (w\<lparr>wd_renewals := take n (wd_renewals w)\<rparr>)"
  by (auto simp: good_def acts_def dest: in_set_takeD)

text \<open>What an attempt may tell its caller once the message is out, or may be.\<close>

fun admits_delivery :: "(sync_error, attempt_end) result \<Rightarrow> bool" where
  "admits_delivery (Inr (AtDelivered _)) = True"
| "admits_delivery (Inr (AtUnknown _)) = True"
| "admits_delivery (Inr (AtSuperseded sent)) = may_be_out sent"
| "admits_delivery (Inl (SeUnrecorded _)) = True"
| "admits_delivery _ = False"

lemma attempt_keeps:
  assumes att: "attempt padd tr pv account leased draft ttl w = (res, w')"
    and hon: "\<forall>at. honours (pv_submit_email pv at account draft) False False"
    and good: "good padd tr w" and sane: "sane w'" and clear: "clear n (lo_lease leased) w'" "n \<le> length (wd_trace w)"
    and armed: "armed (lo_lease leased) False False w"
  shows "good padd tr w'"
    and "lo_lease leased \<in> set (deliveries (acts w')) \<Longrightarrow> admits_delivery res"
    and "later w w'"
proof -
  let ?l = "lo_lease leased" and ?w0 = "w\<lparr>wd_renewals := wd_renewals w @ [Some (lo_lease leased, ttl)]\<rparr>"
  obtain sent w1 where run: "run_submission (pv_submit_email pv (wd_at ?w0) account draft) padd tr ?l False ?w0 = (sent, w1)"
    by (cases "run_submission (pv_submit_email pv (wd_at ?w0) account draft) padd tr ?l False ?w0")
  let ?w2 = "w1\<lparr>wd_renewals := take (length (wd_renewals w)) (wd_renewals w1)\<rparr>"
  obtain r w3 where mark: "mark_pending_op padd tr ?l (attempt_outcome sent) ?w2 = (r, w3)"
    by (cases "mark_pending_op padd tr ?l (attempt_outcome sent) ?w2")
  have held: "holding ?l ttl (\<lambda>w. run_submission (pv_submit_email pv (wd_at w) account draft) padd tr ?l False w) w =
      (sent, ?w2)"
    using run by (simp add: holding_def)
  have w3: "w3 = w'" and res: "res = (case r of
      Inl StaleLease \<Rightarrow> Inr (AtSuperseded sent)
    | Inl e \<Rightarrow> (if may_be_out sent then Inl (SeUnrecorded e) else Inl (SeStore e))
    | Inr _ \<Rightarrow> Inr (case sent of Inr receipt \<Rightarrow> AtDelivered receipt
        | Inl err \<Rightarrow> (if pe_requires_confirmation err then AtUnknown err else AtRefused err)))"
    using att unfolding attempt_def held by (auto simp: mark split: sum.splits store_error.splits)
  have later1: "later w w1" using later_run_submission [OF run] by simp
  have later2: "later ?w2 w'" using later_calls(1) [OF mark] w3 by simp
  show "later w w'" using later_trans [OF later1, of w'] later2 by simp
  have sane1: "sane w1" using sane_earlier [OF later2 sane] by simp
  have clear1: "clear n ?l w1" using clear_earlier [OF later2 clear(1)] by simp
  from run_submission_keeps [OF run _ good_push [OF good armed] sane1 clear1, of False] hon armed clear(2)
  obtain c' d' where kept: "good padd tr w1" "armed ?l c' d' w1" "d' \<longrightarrow> may_be_out sent" "\<not> isl sent \<longrightarrow> c'"
    by auto
  have good2: "good padd tr ?w2" and armed2: "armed ?l c' d' ?w2" using good_take [OF kept(1)] kept(2) by simp_all
  have long: "n \<le> length (wd_trace ?w2)" using later_length [OF later1] clear(2) by simp
  have out: "\<not> d'" if "attempt_outcome sent = OFailed cls hint" for cls hint
    using that kept(3) by (auto simp: attempt_outcome_def may_be_out_def split: sum.splits if_splits)
  show "good padd tr w'" using mark_keeps [OF mark good2 _ _ long armed2 out] sane clear(1) w3 by simp
  show "admits_delivery res" if "?l \<in> set (deliveries (acts w'))"
  proof -
    have d': "d'"
    proof (rule ccontr)
      assume "\<not> d'"
      with mark_deliveries [OF mark good2 _ _ long] armed2 sane clear(1) w3 that show False by simp
    qed
    with kept(3) have "may_be_out sent" by simp
    then show ?thesis unfolding res
      by (auto simp: may_be_out_def split: sum.splits store_error.splits)
  qed
qed

section \<open>A drain pass\<close>

text \<open>
  Stretches of a driver's run, as relations between worlds: one that leaves the lease undelivered, one that
  may end with the message out, and one under no lease.
\<close>

definition held :: "pdt_add \<Rightarrow> ('o, 'v) sync_object \<Rightarrow> op_lease \<Rightarrow> ('v, 'o, 'p) world \<Rightarrow> bool" where
  "held padd tr l w \<longleftrightarrow> good padd tr w \<and> armed l False False w"

definition quiet :: "nat \<Rightarrow> pdt_add \<Rightarrow> ('o, 'v) sync_object \<Rightarrow> op_lease \<Rightarrow> ('v, 'o, 'p) world \<Rightarrow> ('v, 'o, 'p) world \<Rightarrow> bool" where
  "quiet n padd tr l w w' \<longleftrightarrow> later w w' \<and>
     (n \<le> length (wd_trace w) \<longrightarrow> sane w' \<longrightarrow> clear n l w' \<longrightarrow> held padd tr l w \<longrightarrow> held padd tr l w')"

definition final_part :: "nat \<Rightarrow> pdt_add \<Rightarrow> ('o, 'v) sync_object \<Rightarrow> op_lease \<Rightarrow> ('v, 'o, 'p) world \<Rightarrow> ('v, 'o, 'p) world \<Rightarrow> bool" where
  "final_part n padd tr l w w' \<longleftrightarrow> later w w' \<and>
     (n \<le> length (wd_trace w) \<longrightarrow> sane w' \<longrightarrow> clear n l w' \<longrightarrow> apart_from n w' \<longrightarrow> held padd tr l w \<longrightarrow> good padd tr w')"

definition free_part :: "nat \<Rightarrow> pdt_add \<Rightarrow> ('o, 'v) sync_object \<Rightarrow> ('v, 'o, 'p) world \<Rightarrow> ('v, 'o, 'p) world \<Rightarrow> bool" where
  "free_part n padd tr w w' \<longleftrightarrow> later w w' \<and>
     (n \<le> length (wd_trace w) \<longrightarrow> sane w' \<longrightarrow> apart_from n w' \<longrightarrow> good padd tr w \<longrightarrow> good padd tr w')"

lemma quiet_refl [simp]: "quiet n padd tr l w w"
  by (simp add: quiet_def)

lemma quiet_trans: "quiet n padd tr l w w1 \<Longrightarrow> quiet n padd tr l w1 w2 \<Longrightarrow> quiet n padd tr l w w2"
  unfolding quiet_def using later_trans sane_earlier clear_earlier apart_earlier later_length le_trans by meson

lemma quiet_final: "quiet n padd tr l w w1 \<Longrightarrow> final_part n padd tr l w1 w2 \<Longrightarrow> final_part n padd tr l w w2"
  unfolding quiet_def final_part_def using later_trans sane_earlier clear_earlier apart_earlier later_length le_trans by meson

lemma quiet_is_final: "quiet n padd tr l w w' \<Longrightarrow> final_part n padd tr l w w'"
  unfolding quiet_def final_part_def held_def by blast

lemma final_free: "final_part n padd tr l w w1 \<Longrightarrow> free_part n padd tr w1 w2 \<Longrightarrow> final_part n padd tr l w w2"
  unfolding final_part_def free_part_def using later_trans sane_earlier clear_earlier apart_earlier later_length le_trans by meson

lemma free_refl [simp]: "free_part n padd tr w w"
  by (simp add: free_part_def)

lemma free_trans: "free_part n padd tr w w1 \<Longrightarrow> free_part n padd tr w1 w2 \<Longrightarrow> free_part n padd tr w w2"
  unfolding free_part_def using later_trans sane_earlier clear_earlier apart_earlier later_length le_trans by meson

lemma free_read:
  assumes "store_read padd tr q w = (r, w')"
  shows "free_part n padd tr w w'"
  using later_store_read [OF assms] read_keeps(1) [OF assms] by (simp add: free_part_def)

lemma quiet_read:
  assumes "store_read padd tr q w = (r, w')"
  shows "quiet n padd tr l w w'"
  using later_store_read [OF assms] read_keeps [OF assms] by (simp add: quiet_def held_def)

lemma quiet_mark: "mark_pending_op padd tr l out w = (r, w') \<Longrightarrow> quiet n padd tr l w w'"
  unfolding quiet_def held_def
proof (intro conjI impI)
  assume mark: "mark_pending_op padd tr l out w = (r, w')"
  show later: "later w w'" by (rule later_calls(1) [OF mark])
  assume long: "n \<le> length (wd_trace w)" and sane: "sane w'" and clear: "clear n l w'"
    and held: "good padd tr w \<and> armed l False False w"
  show "good padd tr w'" using mark_keeps [OF mark _ sane clear long] held by blast
  obtain q where "wd_trace w' = wd_trace w @ q" using later by (auto simp: later_def)
  then have "l \<in> minted_before (cmds w')" using held by (simp add: armed_def acts_def minted_before_append)
  with mark_deliveries [OF mark _ sane clear long, of False] held show "armed l False False w'" by (simp add: armed_def)
qed

lemma quiet_parts:
  "record_failure padd tr leased err w = (r1, w1) \<Longrightarrow> quiet n padd tr (lo_lease leased) w w1"
  "decode_op padd tr dec leased w = (r2, w2) \<Longrightarrow> quiet n padd tr (lo_lease leased) w w2"
  "settled padd tr leased cls w = (r3, w3) \<Longrightarrow> quiet n padd tr (lo_lease leased) w w3"
  by (auto simp: record_failure_def decode_op_def settled_def split: prod.splits sum.splits option.splits
      dest: quiet_mark quiet_read)

lemma quiet_settle: "settle padd tr leased err w = (r, w') \<Longrightarrow> quiet n padd tr (lo_lease leased) w w'"
  by (auto simp: settle_def split: prod.splits sum.splits dest: quiet_parts intro: quiet_trans)

lemma quiet_record_write: "record_write padd tr leased ans w = (r, w') \<Longrightarrow> quiet n padd tr (lo_lease leased) w w'"
  by (auto simp: record_write_def split: prod.splits sum.splits dest: quiet_settle quiet_mark)

lemma quiet_run_decoded: "run_decoded padd tr dec what leased call w = (r, w') \<Longrightarrow> quiet n padd tr (lo_lease leased) w w'"
  by (auto simp: run_decoded_def split: prod.splits sum.splits option.splits
      dest: quiet_parts quiet_record_write intro: quiet_trans)

lemma quiet_mailbox_run:
  "mailbox_run padd tr lower pv account leased change w = Some (r, w') \<Longrightarrow> quiet n padd tr (lo_lease leased) w w'"
  by (auto simp: mailbox_run_def split: prod.splits sum.splits option.splits dest: quiet_parts quiet_mark)

lemma quiet_run_write:
  "run_write padd tr lower pv sj account leased wr w = Some (r, w') \<Longrightarrow> quiet n padd tr (lo_lease leased) w w'"
  by (cases wr) (auto split: prod.splits sum.splits option.splits
      dest!: quiet_run_decoded quiet_parts quiet_mailbox_run elim!: quiet_trans intro: quiet_trans)

definition provider_ok :: "('b, 'w) provider \<Rightarrow> bool" where
  "provider_ok pv \<longleftrightarrow> (\<forall>at account draft. honours (pv_submit_email pv at account draft) False False)"

lemma final_attempt:
  assumes "attempt padd tr pv account leased draft ttl w = (r, w')" and "provider_ok pv"
  shows "final_part n padd tr (lo_lease leased) w w'"
proof -
  have hon: "\<forall>at. honours (pv_submit_email pv at account draft) False False" using assms(2) by (simp add: provider_ok_def)
  have "later w w'"
    using assms(1) unfolding attempt_def
    by (auto simp: holding_split split: prod.splits sum.splits store_error.splits
        dest!: later_run_submission later_calls(1) intro: later_trans)
  with attempt_keeps(1) [OF assms(1) hon] show ?thesis by (simp add: final_part_def held_def)
qed

lemma free_settled: "settled padd tr leased cls w = (r, w') \<Longrightarrow> free_part n padd tr w w'"
  by (auto simp: settled_def split: prod.splits sum.splits dest: free_read)

lemma final_send:
  assumes "send_op padd tr pv sj account leased ttl w = (r, w')" and "provider_ok pv"
  shows "final_part n padd tr (lo_lease leased) w w'"
proof -
  obtain r1 w1 where dec: "decode_op padd tr (sj_draft_of sj) leased w = (r1, w1)"
    by (cases "decode_op padd tr (sj_draft_of sj) leased w")
  note q = quiet_parts(2) [OF dec]
  show ?thesis
  proof (cases "\<exists>draft. r1 = Inr (Some draft)")
    case True
    then obtain draft where r1: "r1 = Inr (Some draft)" by blast
    obtain r2 w2 where att: "attempt padd tr pv account leased draft ttl w1 = (r2, w2)"
      by (cases "attempt padd tr pv account leased draft ttl w1")
    note f = quiet_final [OF q final_attempt [OF att assms(2)]]
    have "w' = w2 \<or> (\<exists>cls r3. settled padd tr leased cls w2 = (r3, w'))"
      using assms(1) by (auto simp: send_op_def dec r1 att split: sum.splits attempt_end.splits prod.splits)
    with f final_free [OF f] free_settled show ?thesis by blast
  next
    case False
    then have "w' = w1" using assms(1) by (auto simp: send_op_def dec split: sum.splits option.splits)
    with quiet_is_final [OF q] show ?thesis by simp
  qed
qed

lemma final_run_one:
  assumes "run_one padd tr lower pv sj account leased op ttl w = Some (r, w')" and "provider_ok pv"
  shows "final_part n padd tr (lo_lease leased) w w'"
proof (cases op)
  case MSubmit
  with assms final_send show ?thesis by auto
next
  case (MWrite wr)
  with assms have "\<exists>r. run_write padd tr lower pv sj account leased wr w = Some (r, w')"
    by (auto split: option.splits sum.splits sync_error.splits store_error.splits)
  with quiet_is_final quiet_run_write show ?thesis by blast
qed

text \<open>Claiming, then running, is a stretch under no lease.\<close>

lemma free_claimed:
  assumes claim: "claim_pending_op padd tr account i \<lparr>lq_owner = worker, lq_ttl = ttl\<rparr> w = (Inr (Leased leased), w1)"
    and run: "holding_opt (lo_lease leased) ttl' (run_one padd tr lower pv sj account leased op ttl'') w1 = Some (r, w2)"
    and pv: "provider_ok pv"
  shows "free_part n padd tr w w2"
proof -
  let ?l = "lo_lease leased" and ?w1 = "w1\<lparr>wd_renewals := wd_renewals w1 @ [Some (lo_lease leased, ttl')]\<rparr>"
  obtain w3 where one: "run_one padd tr lower pv sj account leased op ttl'' ?w1 = Some (r, w3)"
    and w2: "w2 = w3\<lparr>wd_renewals := take (length (wd_renewals w1)) (wd_renewals w3)\<rparr>"
    using run by (auto simp: holding_opt_def split: option.splits)
  have later1: "later w w1" by (rule later_calls(3) [OF claim])
  have fin: "final_part n padd tr ?l ?w1 w3" by (rule final_run_one [OF one pv])
  then have later3: "later w1 w3" by (simp add: final_part_def)
  show ?thesis
    unfolding free_part_def
  proof (intro conjI impI)
    show "later w w2" using later_trans [OF later1 later3] by (simp add: w2)
    assume long: "n \<le> length (wd_trace w)" and "sane w2" "apart_from n w2" and good: "good padd tr w"
    then have sane3: "sane w3" and apart3: "apart_from n w3" by (simp_all add: w2)
    note kept = claim_keeps [OF claim good sane_earlier [OF later3 sane3]]
    have armed: "armed ?l False False w1" and own: "?l \<in> own_op_leases (drop n (wd_trace w1))" using kept(2) [OF refl] long by blast+
    then have "?l \<in> own_op_leases (drop n (wd_trace w3))" using later_drop [OF later3, of n] unfolding own_op_leases_def by blast
    with apart3 have "clear n ?l w3" by (simp add: apart_from_def)
    moreover have "held padd tr ?l ?w1" using good_push [OF kept(1) armed] armed by (simp add: held_def)
    moreover have "n \<le> length (wd_trace ?w1)" using later_length [OF later1] long by simp
    ultimately have "good padd tr w3" using fin sane3 apart3 unfolding final_part_def by blast
    with good_take show "good padd tr w2" by (simp add: w2)
  qed
qed

lemma free_claim: "claim_pending_op padd tr account i req w = (r, w') \<Longrightarrow> free_part n padd tr w w'"
  unfolding free_part_def using later_calls(3) claim_keeps(1) by blast

lemma free_drain_loop:
  assumes "drain_loop padd tr lower pv sj account worker ttl rows report w = Some (r, w')"
    and "provider_ok pv"
  shows "free_part n padd tr w w'"
  using assms
proof (induction rows arbitrary: report w)
  case (Cons row rows)
  show ?case
  proof (cases "dispatchable row")
    case None
    with Cons show ?thesis by simp
  next
    case (Some op)
    obtain c w1 where claim: "claim_pending_op padd tr account (pr_id row) \<lparr>lq_owner = worker, lq_ttl = ttl\<rparr> w = (c, w1)"
      by (cases "claim_pending_op padd tr account (pr_id row) \<lparr>lq_owner = worker, lq_ttl = ttl\<rparr> w")
    note free1 = free_claim [OF claim]
    show ?thesis
    proof (cases "\<exists>leased. c = Inr (Leased leased)")
      case True
      then obtain leased where c: "c = Inr (Leased leased)" by blast
      obtain r2 w2 where run: "holding_opt (lo_lease leased) ttl (run_one padd tr lower pv sj account leased op ttl) w1 =
          Some (r2, w2)"
        using Cons.prems(1) by (auto simp: Some claim c split: option.splits)
      have free2: "free_part n padd tr w w2" by (rule free_claimed [OF claim [unfolded c] run Cons.prems(2)])
      have "w' = w2 \<or> (\<exists>report. drain_loop padd tr lower pv sj account worker ttl rows report w2 = Some (r, w'))"
        using Cons.prems(1) by (auto simp: Some claim c run split: sum.splits option.splits)
      with Cons.IH [OF _ Cons.prems(2)] free2 free_trans show ?thesis by blast
    next
      case False
      then have "w' = w1 \<or> (\<exists>report. drain_loop padd tr lower pv sj account worker ttl rows report w1 = Some (r, w'))"
        using Cons.prems(1) by (auto simp: Some claim split: sum.splits pending_op_claim.splits)
      with Cons.IH [OF _ Cons.prems(2)] free1 free_trans show ?thesis by blast
    qed
  qed
qed simp

lemma free_drain:
  assumes "drain_outbox padd tr lower pv sj account worker ttl w = Some (r, w')"
    and "provider_ok pv"
  shows "free_part n padd tr w w'"
proof -
  obtain q w1 where read: "store_read padd tr (\<lambda>now s. list_pending_ops padd now account s) w = (q, w1)"
    by (cases "store_read padd tr (\<lambda>now s. list_pending_ops padd now account s) w")
  note free1 = free_read [OF read]
  have "w' = w1 \<or> (\<exists>rows report. drain_loop padd tr lower pv sj account worker ttl rows report w1 = Some (r, w'))"
    using assms(1) by (auto simp: drain_outbox_def read split: sum.splits)
  with free_drain_loop [OF _ assms(2)] free1 free_trans show ?thesis by blast
qed

end
