(* ===== verification/Write_Drivers.thy ===== *)
theory Write_Drivers
  imports Send_Driver
begin

text \<open>
  The inline drivers of the writes that send nothing: mail edits and reports (\<open>outbox/mail.rs\<close>), stored
  drafts (\<open>outbox/drafts.rs\<close>), folder changes (\<open>outbox/mailbox.rs\<close>), calendar writes (\<open>outbox/calendar.rs\<close>) and
  contact writes (\<open>outbox/contact.rs\<close>). Each records an op, claims it, calls the provider and records the
  outcome under the lease.

  The calendar and contact requests are opaque here: a driver takes the request's encoding, the identity it
  serializes on and the provider call made with it.
\<close>

type_synonym ('v, 'o, 'p, 'r) driven = "((sync_error, 'r) result \<times> ('v, 'o, 'p) world) option"

section \<open>Mail edits and reports\<close>

record mail_edit_outcome =
  mo_op :: pending_op_id
  mo_message_key :: provider_key

datatype mail_edit_sent = Applied mail_edit_outcome | Queued pending_op_id "duration option"

text \<open>The key checks come after the encoding, as in the source; a resource key is never empty.\<close>

definition new_op ::
  "string \<Rightarrow> (string, 'v) result \<Rightarrow> string \<Rightarrow> pending_op_kind \<Rightarrow> string \<Rightarrow> (sync_error, 'v pending_op) result" where
  "new_op what payload idem kind resource = (case payload of
      Inl e \<Rightarrow> Inl (SeOutbox (Encode what e))
    | Inr v \<Rightarrow>
        (case write_key_new idem of
           None \<Rightarrow> Inl (SeOutbox BadKey)
         | Some key \<Rightarrow>
             (case write_key_new resource of
                None \<Rightarrow> Inl (SeOutbox BadKey)
              | Some res \<Rightarrow> Inr (op_new key kind res v))))"

definition mail_edit_op ::
  "('v, 'b, 'w) serde \<Rightarrow> string \<Rightarrow> mail_edit \<Rightarrow> (sync_error, 'v pending_op) result" where
  "mail_edit_op sj idem edit =
     (case new_op ''encode mail edit'' (sj_edit_to sj edit) idem MailEdit (''mail:'' @ mail_edit_target edit) of
        Inl e \<Rightarrow> Inl e
      | Inr op \<Rightarrow>
          Inr (case edit of
             SetKeywords target add remove \<Rightarrow>
               op\<lparr>po_keyword_edit := Some \<lparr>ke_key = target, ke_add = add, ke_remove = remove\<rparr>\<rparr>
           | MoveTo _ _ \<Rightarrow> op
           | MeDelete _ \<Rightarrow> op))"

definition queue_mail_edit ::
  "pdt_add \<Rightarrow> ('o, 'v) sync_object \<Rightarrow> ('v, 'b, 'w) serde \<Rightarrow> account_id \<Rightarrow> string \<Rightarrow> mail_edit \<Rightarrow> ('v, 'o, 'p) world \<Rightarrow>
   (sync_error, pending_op_id) result \<times> ('v, 'o, 'p) world" where
  "queue_mail_edit padd tr sj account idem edit w =
     (case mail_edit_op sj idem edit of
        Inl e \<Rightarrow> (Inl e, w)
      | Inr op \<Rightarrow>
          (case enqueue_op padd tr account op w of
             (Inl e, w) \<Rightarrow> (Inl (SeStore e), w)
           | (Inr i, w) \<Rightarrow> (Inr i, w)))"

definition edit_answered ::
  "pdt_add \<Rightarrow> ('o, 'v) sync_object \<Rightarrow> pending_op_id \<Rightarrow> 'v leased_pending_op \<Rightarrow>
   (provider_error, provider_key) result \<Rightarrow> ('v, 'o, 'p) world \<Rightarrow> (sync_error, mail_edit_sent) result \<times> ('v, 'o, 'p) world" where
  "edit_answered padd tr op leased answer w =
     (case answer of
        Inr key \<Rightarrow>
          (case mark_pending_op padd tr (lo_lease leased) (OSucceeded key) w of
             (Inl e, w) \<Rightarrow> (Inl (SeStore e), w)
           | (Inr _, w) \<Rightarrow> (Inr (Applied \<lparr>mo_op = lo_id leased, mo_message_key = key\<rparr>), w))
      | Inl err \<Rightarrow>
          (case record_failure padd tr leased err w of
             (Inl e, w) \<Rightarrow> (Inl e, w)
           | (Inr _, w) \<Rightarrow>
               (case store_read padd tr (\<lambda>now s. pending_op_state_of padd now op s) w of
                  (Inl e, w) \<Rightarrow> (Inl (SeStore e), w)
                | (Inr state, w) \<Rightarrow>
                    (if state = Some Pending then Inr (Queued op (pe_retry_after err)) else Inl (SeProvider err), w))))"

definition send_mail_edit ::
  "pdt_add \<Rightarrow> ('o, 'v) sync_object \<Rightarrow> ('b, 'w) provider \<Rightarrow> account_id \<Rightarrow> worker_id \<Rightarrow> std_duration \<Rightarrow> pending_op_id \<Rightarrow>
   mail_edit \<Rightarrow> ('v, 'o, 'p) world \<Rightarrow> ('v, 'o, 'p, mail_edit_sent) driven" where
  "send_mail_edit padd tr pv account worker ttl op edit w =
     (case claim_waiting padd tr account worker ttl op w of
        None \<Rightarrow> None
      | Some (Inl e, w) \<Rightarrow> Some (Inl e, w)
      | Some (Inr (Inl reason), w) \<Rightarrow>
          Some (if reason \<in> {CrBusy, CrBackoff, CrDependencyUnmet} then Inr (Queued op None)
                else Inl (SeOutbox (CannotSend op reason)), w)
      | Some (Inr (Inr leased), w) \<Rightarrow>
          (case holding (lo_lease leased) ttl (\<lambda>w. (pv_edit_mail pv (wd_at w) account edit, w)) w of
             (answer, w) \<Rightarrow> Some (edit_answered padd tr op leased answer w)))"

definition edit_mail ::
  "pdt_add \<Rightarrow> ('o, 'v) sync_object \<Rightarrow> ('b, 'w) provider \<Rightarrow> ('v, 'b, 'w) serde \<Rightarrow> account_id \<Rightarrow> worker_id \<Rightarrow> std_duration \<Rightarrow>
   string \<Rightarrow> mail_edit \<Rightarrow> ('v, 'o, 'p) world \<Rightarrow> ('v, 'o, 'p, mail_edit_sent) driven" where
  "edit_mail padd tr pv sj account worker ttl idem edit w =
     (case queue_mail_edit padd tr sj account idem edit w of
        (Inl e, w) \<Rightarrow> Some (Inl e, w)
      | (Inr op, w) \<Rightarrow> send_mail_edit padd tr pv account worker ttl op edit w)"

text \<open>The tail of the drivers that report a store error as one: a mark, or a recorded failure.\<close>

definition record_answer ::
  "pdt_add \<Rightarrow> ('o, 'v) sync_object \<Rightarrow> 'v leased_pending_op \<Rightarrow> (provider_error, provider_key) result \<Rightarrow>
   (provider_key \<Rightarrow> 'r) \<Rightarrow> ('v, 'o, 'p) world \<Rightarrow> (sync_error, 'r) result \<times> ('v, 'o, 'p) world" where
  "record_answer padd tr leased answer out w =
     (case answer of
        Inr key \<Rightarrow>
          (case mark_pending_op padd tr (lo_lease leased) (OSucceeded key) w of
             (Inl e, w) \<Rightarrow> (Inl (SeStore e), w)
           | (Inr _, w) \<Rightarrow> (Inr (out key), w))
      | Inl err \<Rightarrow>
          (case record_failure padd tr leased err w of
             (Inl e, w) \<Rightarrow> (Inl e, w)
           | (Inr _, w) \<Rightarrow> (Inl (SeProvider err), w)))"

definition claimed_then ::
  "pdt_add \<Rightarrow> ('o, 'v) sync_object \<Rightarrow> account_id \<Rightarrow> worker_id \<Rightarrow> std_duration \<Rightarrow> (sync_error, 'v pending_op) result \<Rightarrow>
   ('v leased_pending_op \<Rightarrow> ('v, 'o, 'p) world \<Rightarrow> (sync_error, 'r) result \<times> ('v, 'o, 'p) world) \<Rightarrow>
   ('v, 'o, 'p) world \<Rightarrow> ('v, 'o, 'p, 'r) driven" where
  "claimed_then padd tr account worker ttl op rest w =
     (case op of
        Inl e \<Rightarrow> Some (Inl e, w)
      | Inr op \<Rightarrow>
          (case enqueue_and_claim padd tr account worker ttl op w of
             None \<Rightarrow> None
           | Some (Inl e, w) \<Rightarrow> Some (Inl e, w)
           | Some (Inr leased, w) \<Rightarrow> Some (rest leased w)))"

definition report_message ::
  "pdt_add \<Rightarrow> ('o, 'v) sync_object \<Rightarrow> ('b, 'w) provider \<Rightarrow> ('v, 'b, 'w) serde \<Rightarrow> account_id \<Rightarrow> worker_id \<Rightarrow> std_duration \<Rightarrow>
   string \<Rightarrow> 'w message_report \<Rightarrow> ('v, 'o, 'p) world \<Rightarrow> ('v, 'o, 'p, mail_edit_outcome) driven" where
  "report_message padd tr pv sj account worker ttl idem report =
     claimed_then padd tr account worker ttl
       (new_op ''encode message report'' (sj_report_to sj report) idem MailReport (''mail:'' @ rp_target report))
       (\<lambda>leased w. record_answer padd tr leased (pv_report_message pv (wd_at w) account report)
          (\<lambda>key. \<lparr>mo_op = lo_id leased, mo_message_key = key\<rparr>) w)"

section \<open>Stored drafts\<close>

fun withdraw_loop ::
  "pdt_add \<Rightarrow> ('o, 'v) sync_object \<Rightarrow> account_id \<Rightarrow> 'v pending_op_row list \<Rightarrow> ('v, 'o, 'p) world \<Rightarrow>
   (sync_error, unit) result \<times> ('v, 'o, 'p) world" where
  "withdraw_loop padd tr account [] w = (Inr (), w)"
| "withdraw_loop padd tr account (row # rows) w =
     (case cancel_pending_op padd tr account (pr_id row) w of
        (Inl e, w) \<Rightarrow> (Inl (SeStore e), w)
      | (Inr _, w) \<Rightarrow> withdraw_loop padd tr account rows w)"

definition withdraw_superseded ::
  "pdt_add \<Rightarrow> ('o, 'v) sync_object \<Rightarrow> account_id \<Rightarrow> resource_key \<Rightarrow> idempotency_key \<Rightarrow> ('v, 'o, 'p) world \<Rightarrow>
   (sync_error, unit) result \<times> ('v, 'o, 'p) world" where
  "withdraw_superseded padd tr account resource enqueuing w =
     (case store_read padd tr (\<lambda>now s. list_pending_ops padd now account s) w of
        (Inl e, w) \<Rightarrow> (Inl (SeStore e), w)
      | (Inr queued, w) \<Rightarrow>
          withdraw_loop padd tr account
            (filter (\<lambda>row. pr_kind row = Some MailDraftPut \<and> pr_resource_key row = resource \<and>
               pr_state row = Pending \<and> pr_idempotency_key row \<noteq> enqueuing) queued) w)"

record put_draft_outcome =
  pd_op :: pending_op_id
  pd_key :: provider_key

definition put_draft_mail ::
  "pdt_add \<Rightarrow> ('o, 'v) sync_object \<Rightarrow> ('b, 'w) provider \<Rightarrow> ('v, 'b, 'w) serde \<Rightarrow> ('v \<Rightarrow> string) \<Rightarrow> account_id \<Rightarrow> worker_id \<Rightarrow>
   std_duration \<Rightarrow> 'b draft \<Rightarrow> provider_key option \<Rightarrow> ('v, 'o, 'p) world \<Rightarrow> ('v, 'o, 'p, put_draft_outcome) driven" where
  "put_draft_mail padd tr pv sj digest account worker ttl draft replacing w =
     (case sj_put_to sj \<lparr>dp_draft = draft, dp_replacing = replacing\<rparr> of
        Inl e \<Rightarrow> Some (Inl (SeOutbox (Encode ''encode draft put'' e)), w)
      | Inr payload \<Rightarrow>
          (let resource = ''draft:'' @ df_message_id draft;
               idem = ''put-draft:'' @ df_message_id draft @ '':'' @ digest payload
           in case withdraw_superseded padd tr account resource idem w of
                (Inl e, w) \<Rightarrow> Some (Inl e, w)
              | (Inr _, w) \<Rightarrow>
                  claimed_then padd tr account worker ttl (Inr (op_new idem MailDraftPut resource payload))
                    (\<lambda>leased w. record_answer padd tr leased (pv_put_draft pv (wd_at w) account draft replacing)
                       (\<lambda>key. \<lparr>pd_op = lo_id leased, pd_key = key\<rparr>) w) w))"

definition delete_draft_mail ::
  "pdt_add \<Rightarrow> ('o, 'v) sync_object \<Rightarrow> ('b, 'w) provider \<Rightarrow> ('v, 'b, 'w) serde \<Rightarrow> account_id \<Rightarrow> worker_id \<Rightarrow> std_duration \<Rightarrow>
   provider_key \<Rightarrow> ('v, 'o, 'p) world \<Rightarrow> ('v, 'o, 'p, pending_op_id) driven" where
  "delete_draft_mail padd tr pv sj account worker ttl key =
     claimed_then padd tr account worker ttl
       (new_op ''encode draft delete'' (sj_key_to sj key) (''delete-draft:'' @ key) MailDraftDelete (''mail:'' @ key))
       (\<lambda>leased w. record_answer padd tr leased (map_sum id (\<lambda>_. key) (pv_delete_draft pv (wd_at w) account key))
          (\<lambda>_. lo_id leased) w)"

section \<open>Folder changes\<close>

fun name_error_text :: "mailbox_name_error \<Rightarrow> string" where
  "name_error_text NameEmpty = ''a folder name cannot be empty''"
| "name_error_text NameSurrounded = ''a folder name cannot start or end with a space''"
| "name_error_text NameControl = ''a folder name cannot contain a control character''"
| "name_error_text NameSeparator = ''a folder name cannot contain '' @ [char_of (39 :: nat)] @ ''/'' @ [char_of (39 :: nat)]"

record mailbox_edit_outcome =
  mm_op :: pending_op_id
  mm_mailbox :: "mailbox_id option"

definition edit_mailbox ::
  "pdt_add \<Rightarrow> ('o, 'v) sync_object \<Rightarrow> (string \<Rightarrow> string) \<Rightarrow> ('b, 'w) provider \<Rightarrow> ('v, 'b, 'w) serde \<Rightarrow> account_id \<Rightarrow>
   worker_id \<Rightarrow> std_duration \<Rightarrow> string \<Rightarrow> mailbox_change \<Rightarrow> ('v, 'o, 'p) world \<Rightarrow>
   ('v, 'o, 'p, mailbox_edit_outcome) driven" where
  "edit_mailbox padd tr lower pv sj account worker ttl idem change w =
     (case change_validate change of
        Inl err \<Rightarrow> Some (Inl (SeProvider (pe_invalid_state (name_error_text err))), w)
      | Inr _ \<Rightarrow>
          (case new_op ''encode folder change'' (sj_change_to sj change) idem MailboxEdit tree_resource of
             Inl e \<Rightarrow> Some (Inl e, w)
           | Inr op \<Rightarrow>
               (case enqueue_and_claim padd tr account worker ttl op w of
                  None \<Rightarrow> None
                | Some (Inl e, w) \<Rightarrow> Some (Inl e, w)
                | Some (Inr leased, w) \<Rightarrow>
                    (case mailbox_run padd tr lower pv account leased change w of
                       None \<Rightarrow> None
                     | Some (Inl e, w) \<Rightarrow> Some (Inl e, w)
                     | Some (Inr (Inr mailbox), w) \<Rightarrow>
                         Some (Inr \<lparr>mm_op = lo_id leased, mm_mailbox = mailbox\<rparr>, w)
                     | Some (Inr (Inl err), w) \<Rightarrow> Some (Inl (SeProvider err), w)))))"

section \<open>Calendar writes\<close>

record ('n, 'd) event_write_receipt =
  er_event :: provider_key
  er_uid :: string
  er_revisions :: 'n
  er_reply_delivery :: 'd

record ('n, 'd) calendar_write_outcome =
  cw_op :: pending_op_id
  cw_event :: provider_key
  cw_uid :: string
  cw_revisions :: 'n
  cw_reply_delivery :: 'd

definition calendar_op ::
  "pending_op_kind \<Rightarrow> string \<Rightarrow> string \<Rightarrow> (string, 'v) result \<Rightarrow> (sync_error, 'v pending_op) result" where
  "calendar_op kind idem uid payload = new_op ''encode calendar write'' payload idem kind (''event:'' @ uid)"

definition resolve_event ::
  "pdt_add \<Rightarrow> ('o, 'v) sync_object \<Rightarrow> 'v leased_pending_op \<Rightarrow> (provider_error, ('n, 'd) event_write_receipt) result \<Rightarrow>
   ('v, 'o, 'p) world \<Rightarrow> (sync_error, ('n, 'd) calendar_write_outcome) result \<times> ('v, 'o, 'p) world" where
  "resolve_event padd tr leased answer w =
     (case answer of
        Inr receipt \<Rightarrow>
          (case write_applied padd tr leased (er_event receipt) w of
             (Inl e, w) \<Rightarrow> (Inl e, w)
           | (Inr _, w) \<Rightarrow>
               (Inr \<lparr>cw_op = lo_id leased, cw_event = er_event receipt, cw_uid = er_uid receipt,
                     cw_revisions = er_revisions receipt, cw_reply_delivery = er_reply_delivery receipt\<rparr>, w))
      | Inl err \<Rightarrow> (case write_failed padd tr leased err w of (e, w) \<Rightarrow> (Inl e, w)))"

definition calendar_write ::
  "pending_op_kind \<Rightarrow> pdt_add \<Rightarrow> ('o, 'v) sync_object \<Rightarrow> account_id \<Rightarrow> worker_id \<Rightarrow> std_duration \<Rightarrow> string \<Rightarrow> string \<Rightarrow>
   (string, 'v) result \<Rightarrow> (nat \<Rightarrow> (provider_error, ('n, 'd) event_write_receipt) result) \<Rightarrow> ('v, 'o, 'p) world \<Rightarrow>
   ('v, 'o, 'p, ('n, 'd) calendar_write_outcome) driven" where
  "calendar_write kind padd tr account worker ttl idem uid payload call =
     claimed_then padd tr account worker ttl (calendar_op kind idem uid payload)
       (\<lambda>leased w. resolve_event padd tr leased (call (wd_at w)) w)"

definition create_calendar_event where "create_calendar_event = calendar_write CalendarCreate"

definition patch_calendar_event where "patch_calendar_event = calendar_write CalendarPatch"

definition put_calendar_document where "put_calendar_document = calendar_write CalendarDocument"

definition rsvp_calendar_event where "rsvp_calendar_event = calendar_write CalendarRsvp"

text \<open>The delete drivers, of an event and of a contact, share their tail.\<close>

definition resolve_delete ::
  "pdt_add \<Rightarrow> ('o, 'v) sync_object \<Rightarrow> 'v leased_pending_op \<Rightarrow> provider_key \<Rightarrow> (provider_error, unit) result \<Rightarrow>
   ('v, 'o, 'p) world \<Rightarrow> (sync_error, pending_op_id) result \<times> ('v, 'o, 'p) world" where
  "resolve_delete padd tr leased key answer w =
     (case answer of
        Inr _ \<Rightarrow>
          (case write_applied padd tr leased key w of
             (Inl e, w) \<Rightarrow> (Inl e, w)
           | (Inr _, w) \<Rightarrow> (Inr (lo_id leased), w))
      | Inl err \<Rightarrow> (case write_failed padd tr leased err w of (e, w) \<Rightarrow> (Inl e, w)))"

definition delete_calendar_event ::
  "pdt_add \<Rightarrow> ('o, 'v) sync_object \<Rightarrow> account_id \<Rightarrow> worker_id \<Rightarrow> std_duration \<Rightarrow> string \<Rightarrow> string \<Rightarrow> provider_key \<Rightarrow>
   (string, 'v) result \<Rightarrow> (nat \<Rightarrow> (provider_error, unit) result) \<Rightarrow> ('v, 'o, 'p) world \<Rightarrow> ('v, 'o, 'p, pending_op_id) driven" where
  "delete_calendar_event padd tr account worker ttl idem uid event payload call =
     claimed_then padd tr account worker ttl (calendar_op CalendarDelete idem uid payload)
       (\<lambda>leased w. resolve_delete padd tr leased event (call (wd_at w)) w)"

section \<open>Contact writes\<close>

record contact_write_outcome =
  ct_op :: pending_op_id
  ct_contact :: provider_key

definition contact_op ::
  "pending_op_kind \<Rightarrow> string \<Rightarrow> string \<Rightarrow> (string, 'v) result \<Rightarrow> (sync_error, 'v pending_op) result" where
  "contact_op kind idem resource payload = new_op ''encode contact write'' payload idem kind resource"

definition resolve_contact ::
  "pdt_add \<Rightarrow> ('o, 'v) sync_object \<Rightarrow> 'v leased_pending_op \<Rightarrow> (provider_error, provider_key) result \<Rightarrow>
   ('v, 'o, 'p) world \<Rightarrow> (sync_error, contact_write_outcome) result \<times> ('v, 'o, 'p) world" where
  "resolve_contact padd tr leased answer w =
     (case answer of
        Inr contact \<Rightarrow>
          (case write_applied padd tr leased contact w of
             (Inl e, w) \<Rightarrow> (Inl e, w)
           | (Inr _, w) \<Rightarrow> (Inr \<lparr>ct_op = lo_id leased, ct_contact = contact\<rparr>, w))
      | Inl err \<Rightarrow> (case write_failed padd tr leased err w of (e, w) \<Rightarrow> (Inl e, w)))"

definition create_contact ::
  "pdt_add \<Rightarrow> ('o, 'v) sync_object \<Rightarrow> account_id \<Rightarrow> worker_id \<Rightarrow> std_duration \<Rightarrow> string \<Rightarrow> string \<Rightarrow>
   (string, 'v) result \<Rightarrow> (nat \<Rightarrow> (provider_error, provider_key) result) \<Rightarrow> ('v, 'o, 'p) world \<Rightarrow>
   ('v, 'o, 'p, contact_write_outcome) driven" where
  "create_contact padd tr account worker ttl idem address_book payload call =
     claimed_then padd tr account worker ttl
       (contact_op ContactCreate idem (''contact-create:'' @ address_book) payload)
       (\<lambda>leased w. resolve_contact padd tr leased (call (wd_at w)) w)"

definition patch_contact ::
  "pdt_add \<Rightarrow> ('o, 'v) sync_object \<Rightarrow> account_id \<Rightarrow> worker_id \<Rightarrow> std_duration \<Rightarrow> string \<Rightarrow> provider_key \<Rightarrow>
   (string, 'v) result \<Rightarrow> (nat \<Rightarrow> (provider_error, provider_key) result) \<Rightarrow> ('v, 'o, 'p) world \<Rightarrow>
   ('v, 'o, 'p, contact_write_outcome) driven" where
  "patch_contact padd tr account worker ttl idem base payload call =
     claimed_then padd tr account worker ttl (contact_op ContactPatch idem (''contact:'' @ base) payload)
       (\<lambda>leased w. resolve_contact padd tr leased (call (wd_at w)) w)"

definition delete_contact ::
  "pdt_add \<Rightarrow> ('o, 'v) sync_object \<Rightarrow> account_id \<Rightarrow> worker_id \<Rightarrow> std_duration \<Rightarrow> string \<Rightarrow> provider_key \<Rightarrow>
   (string, 'v) result \<Rightarrow> (nat \<Rightarrow> (provider_error, unit) result) \<Rightarrow> ('v, 'o, 'p) world \<Rightarrow> ('v, 'o, 'p, pending_op_id) driven" where
  "delete_contact padd tr account worker ttl idem base payload call =
     claimed_then padd tr account worker ttl (contact_op ContactDelete idem (''contact:'' @ base) payload)
       (\<lambda>leased w. resolve_delete padd tr leased base (call (wd_at w)) w)"

end
