(* ===== verification/Driver_Laws.thy ===== *)
theory Driver_Laws
  imports Driver_Safety Write_Drivers "HOL-Library.Sublist"
begin

text \<open>
  Functional facts of the drivers: the wait for a busy resource ends, a drain pass accounts for every op it
  listed, and what a calendar or contact write reports is what became of it.
\<close>

section \<open>The wait for a busy resource\<close>

lemma run_event_clock [simp]:
  "wd_at (run_event padd tr e w) = wd_at w" "wd_sched (run_event padd tr e w) = wd_sched w"
  by (cases e; simp add: perform_def delivered_def split: prod.splits option.splits)+

lemma events_clock [simp]:
  "wd_at (fold (run_event padd tr) es w) = wd_at w" "wd_sched (fold (run_event padd tr) es w) = wd_sched w"
  by (induction es arbitrary: w) simp_all

lemma store_call_clock:
  "store_call padd tr cmd w = (r, w') \<Longrightarrow> wd_at w' = wd_at w + 1 \<and> wd_sched w' = wd_sched w"
  by (auto simp: store_call_def perform_def interfere_def split: prod.splits)

lemma claim_clock:
  "claim_pending_op padd tr account i req w = (r, w') \<Longrightarrow> wd_at w' = wd_at w + 1 \<and> wd_sched w' = wd_sched w"
  by (auto simp: claim_pending_op_def apfst_def map_prod_def split: prod.splits dest: store_call_clock)

lemma claim_poll_returns:
  assumes "sd_mono (wd_sched w (wd_at w + Suc k)) \<ge> deadline"
  shows "\<exists>r w'. claim_poll padd tr account req i deadline w = Some (r, w') \<and> wd_at w' \<le> wd_at w + Suc k \<and>
    (r = Inr (Inl CrBusy) \<longrightarrow> mono_now w' \<ge> deadline)"
  using assms
proof (induction k arbitrary: w)
  case 0
  obtain r w' where claim: "claim_pending_op padd tr account i req w = (r, w')"
    by (cases "claim_pending_op padd tr account i req w")
  note clock = claim_clock [OF claim]
  then have "\<not> mono_now w' < deadline" using 0 by (simp add: mono_now_def)
  with claim clock show ?case
    by (subst claim_poll.simps) (auto split: sum.splits pending_op_claim.splits)
next
  case (Suc k)
  obtain r w' where claim: "claim_pending_op padd tr account i req w = (r, w')"
    by (cases "claim_pending_op padd tr account i req w")
  note clock = claim_clock [OF claim]
  have IH: "\<exists>r w''. claim_poll padd tr account req i deadline w' = Some (r, w'') \<and> wd_at w'' \<le> wd_at w' + Suc k \<and>
      (r = Inr (Inl CrBusy) \<longrightarrow> mono_now w'' \<ge> deadline)"
    using Suc.IH [of w'] Suc.prems clock by simp
  show ?case
  proof (cases "r = Inr (Refused CrBusy) \<and> mono_now w' < deadline")
    case True
    then have "claim_poll padd tr account req i deadline w = claim_poll padd tr account req i deadline w'"
      by (subst claim_poll.simps) (simp add: claim)
    with IH clock show ?thesis by auto
  next
    case False
    with claim clock show ?thesis
      by (subst claim_poll.simps) (auto split: sum.splits pending_op_claim.splits)
  qed
qed

section \<open>What a drain pass reports\<close>

lemma dispatchable_kind: "dispatchable row = Some op \<Longrightarrow> pr_state row = Pending \<and> pr_kind row = Some (mail_op_kind op)"
  by (auto simp: dispatchable_def split: if_splits option.splits pending_op_kind.splits)

text \<open>Every listed op is in the report once: attempted, in the order of the queue, or counted as deferred.\<close>

definition attempted_of :: "'v pending_op_row list \<Rightarrow> drained_op list \<Rightarrow> bool" where
  "attempted_of rows ds \<longleftrightarrow> (\<exists>picked. subseq picked rows \<and>
     list_all2 (\<lambda>row d. do_id d = pr_id row \<and> pr_state row = Pending \<and> pr_kind row = Some (do_kind d)) picked ds)"

lemma attempted_of_skip: "attempted_of rows ds \<Longrightarrow> attempted_of (row # rows) ds"
  by (auto simp: attempted_of_def)

lemma attempted_of_take:
  assumes "attempted_of rows ds" and "do_id d = pr_id row" and "pr_state row = Pending" and "pr_kind row = Some (do_kind d)"
  shows "attempted_of (row # rows) (d # ds)"
proof -
  obtain picked where "subseq picked rows"
    "list_all2 (\<lambda>row d. do_id d = pr_id row \<and> pr_state row = Pending \<and> pr_kind row = Some (do_kind d)) picked ds"
    using assms(1) by (auto simp: attempted_of_def)
  with assms(2-4) show ?thesis unfolding attempted_of_def by (intro exI [of _ "row # picked"]) auto
qed

lemma attempted_of_Nil [simp]: "attempted_of rows []"
  by (auto simp: attempted_of_def intro: exI [of _ "[]"])

lemma drain_loop_accounts:
  assumes "drain_loop padd tr lower pv sj account worker ttl rows report w = Some (Inr report', w')"
  shows "\<exists>ds. dr_attempted report' = dr_attempted report @ ds \<and> attempted_of rows ds \<and>
    length ds + dr_deferred report' = length rows + dr_deferred report"
  using assms
proof (induction rows arbitrary: report w)
  case (Cons row rows)
  let ?defer = "report\<lparr>dr_deferred := dr_deferred report + 1\<rparr>"
  have deferred: ?case if "drain_loop padd tr lower pv sj account worker ttl rows ?defer w1 = Some (Inr report', w')" for w1
    using Cons.IH [OF that] attempted_of_skip by fastforce
  show ?case
  proof (cases "dispatchable row")
    case None
    with Cons.prems deferred show ?thesis by simp
  next
    case (Some op)
    note kind = dispatchable_kind [OF Some]
    obtain c w1 where claim: "claim_pending_op padd tr account (pr_id row) \<lparr>lq_owner = worker, lq_ttl = ttl\<rparr> w = (c, w1)"
      by (cases "claim_pending_op padd tr account (pr_id row) \<lparr>lq_owner = worker, lq_ttl = ttl\<rparr> w")
    show ?thesis
    proof (cases "\<exists>leased. c = Inr (Leased leased)")
      case True
      then obtain leased where c: "c = Inr (Leased leased)" by blast
      obtain r2 w2 where run: "holding_opt (lo_lease leased) ttl (run_one padd tr lower pv sj account leased op ttl) w1 =
          Some (Inr r2, w2)"
        using Cons.prems by (auto simp: Some claim c split: option.splits sum.splits)
      show ?thesis
      proof (cases r2)
        case None
        with Cons.prems Some claim c run deferred show ?thesis by simp
      next
        case rn: (Some rn)
        let ?d = "\<lparr>do_id = pr_id row, do_kind = mail_op_kind op, do_outcome = ra_outcome rn, do_provider_key = ra_key rn\<rparr>"
        have "drain_loop padd tr lower pv sj account worker ttl rows
            (report\<lparr>dr_attempted := dr_attempted report @ [?d]\<rparr>) w2 = Some (Inr report', w')"
          using Cons.prems by (simp add: Some claim c run rn)
        from Cons.IH [OF this] obtain ds where ds: "dr_attempted report' = dr_attempted report @ ?d # ds"
          "attempted_of rows ds" "length ds + dr_deferred report' = length rows + dr_deferred report" by auto
        have "attempted_of (row # rows) (?d # ds)" by (rule attempted_of_take [OF ds(2)]) (use kind in simp_all)
        with ds show ?thesis by (intro exI [of _ "?d # ds"]) simp
      qed
    next
      case False
      with Cons.prems deferred show ?thesis
        by (auto simp: Some claim split: sum.splits pending_op_claim.splits)
    qed
  qed
qed simp

section \<open>What a write reports\<close>

definition op_state_in :: "('v, 'o, 'p) world \<Rightarrow> pending_op_id \<Rightarrow> pending_op_state option" where
  "op_state_in w i = map_option oc_state (hm_get (in_ops (wd_store w)) i)"

lemma mark_succeeded_state:
  assumes "mark padd now l (OSucceeded k) s = (Inr (), s')"
  shows "map_option oc_state (hm_get (in_ops s') (ol_op l)) = Some Succeeded"
  using assms
proof (cases rule: mark_cases)
  case (marked c c')
  then have "oc_state c' = Succeeded"
    by (auto simp: cell_record_def cell_recorded_def record_outcome_def Let_def)
  with marked show ?thesis by (simp add: map_values_def map_of_map stamp_settled_def)
qed simp_all

lemma write_applied_cases:
  assumes "write_applied padd tr leased key w = (r, w')"
  shows "r = Inr () \<and> op_state_in w' (ol_op (lo_lease leased)) = Some Succeeded \<or> (\<exists>e. r = Inl (SeUnrecorded e))"
proof -
  obtain q w1 where mark: "mark_pending_op padd tr (lo_lease leased) (OSucceeded key) w = (q, w1)"
    by (cases "mark_pending_op padd tr (lo_lease leased) (OSucceeded key) w")
  show ?thesis
  proof (cases q)
    case (Inr u)
    have "mark padd (sd_now (wd_sched w (wd_at w))) (lo_lease leased) (OSucceeded key) (wd_store (interfere padd tr w)) =
        (Inr (), wd_store w1)"
      using mark Inr
      by (auto simp: mark_pending_op_def store_call_def perform_def apfst_def map_prod_def split: prod.splits)
    from mark_succeeded_state [OF this] assms mark Inr show ?thesis
      by (auto simp: write_applied_def op_state_in_def)
  qed (use assms mark in \<open>auto simp: write_applied_def\<close>)
qed

lemma write_failed_reports: "write_failed padd tr leased err w = (e, w') \<Longrightarrow> e = SeProvider err"
  by (auto simp: write_failed_def split: prod.splits)

lemma new_op_error: "new_op what payload idem kind res = Inl e \<Longrightarrow> \<exists>t. e = SeOutbox t"
  by (auto simp: new_op_def split: sum.splits option.splits)

definition poll_answer :: "pending_op_id \<Rightarrow> (sync_error, (claim_rejection, 'v leased_pending_op) result) result \<Rightarrow> bool" where
  "poll_answer i r \<longleftrightarrow> (\<forall>e. r = Inl e \<longrightarrow> (\<exists>s. e = SeStore s)) \<and>
     (\<forall>leased. r = Inr (Inr leased) \<longrightarrow> ol_op (lo_lease leased) = lo_id leased \<and> lo_id leased = i)"

lemma claim_leased_id:
  assumes "claim_pending_op padd tr account i req w = (Inr (Leased leased), w')"
  shows "ol_op (lo_lease leased) = lo_id leased \<and> lo_id leased = i"
proof -
  obtain s s' now where "claim_one padd now account i req s = (Inr (Leased leased), s')"
    using assms by (auto simp: claim_pending_op_def store_call_def perform_def apfst_def map_prod_def split: prod.splits)
  from claim_one_owner(2,3) [OF this] show ?thesis by simp
qed

lemma claim_poll_answer:
  assumes "claim_poll padd tr account req i deadline w = Some y"
  shows "poll_answer i (fst y)"
proof (rule claim_poll.raw_induct [where P = "\<lambda>padd tr account req i deadline w y. poll_answer i (fst y)", OF _ assms], goal_cases)
  case (1 poll padd tr account req i deadline w y)
  obtain r w' where claim: "claim_pending_op padd tr account i req w = (r, w')"
    by (cases "claim_pending_op padd tr account i req w")
  show ?case
  proof (cases "r = Inr (Refused CrBusy) \<and> mono_now w' < deadline")
    case True
    with 1 claim show ?thesis by simp
  next
    case False
    with 1(2) claim show ?thesis
      by (auto simp: poll_answer_def split: sum.splits pending_op_claim.splits if_splits dest: claim_leased_id)
  qed
qed

lemma enqueue_and_claim_answer:
  assumes "enqueue_and_claim padd tr account worker ttl op w = Some (r, w')"
  shows "(\<forall>e. r = Inl e \<longrightarrow> (\<exists>s. e = SeStore s) \<or> (\<exists>t. e = SeOutbox t)) \<and>
    (\<forall>leased. r = Inr leased \<longrightarrow> ol_op (lo_lease leased) = lo_id leased)"
  using assms claim_poll_answer unfolding enqueue_and_claim_def claim_waiting_def
  by (fastforce simp: poll_answer_def split: prod.splits sum.splits option.splits)

text \<open>
  What a driver that ends in \<open>write_applied\<close> or \<open>write_failed\<close> may answer: nothing was asked of the provider
  and the error says so, or the answer is the provider's, or the write is applied and unrecorded.
\<close>

definition asked_nothing :: "(sync_error, 'r) result \<Rightarrow> bool" where
  "asked_nothing res \<longleftrightarrow> (\<exists>s. res = Inl (SeStore s)) \<or> (\<exists>t. res = Inl (SeOutbox t))"

lemma claimed_then_cases:
  assumes "claimed_then padd tr account worker ttl op rest w = Some (res, w')"
    and op: "\<And>e. op = Inl e \<Longrightarrow> \<exists>t. e = SeOutbox t"
  obtains (nothing) "asked_nothing res"
  | (asked) o' leased w1 where "op = Inr o'" "enqueue_and_claim padd tr account worker ttl o' w = Some (Inr leased, w1)"
      "rest leased w1 = (res, w')" "ol_op (lo_lease leased) = lo_id leased"
proof (cases op)
  case (Inl e)
  with assms have "asked_nothing res" by (auto simp: claimed_then_def asked_nothing_def)
  then show thesis by (rule that(1))
next
  case (Inr o')
  obtain r w1 where claim: "enqueue_and_claim padd tr account worker ttl o' w = Some (r, w1)"
    using assms(1) by (auto simp: claimed_then_def Inr split: option.splits)
  note ans = enqueue_and_claim_answer [OF claim]
  show thesis
  proof (cases r)
    case (Inl e)
    then have "asked_nothing res" using assms(1) ans by (auto simp: claimed_then_def Inr claim asked_nothing_def)
    then show thesis by (rule that(1))
  next
    case leased: (Inr leased)
    then have "rest leased w1 = (res, w')" using assms(1) by (simp add: claimed_then_def Inr claim)
    then show thesis using that(2) [OF Inr] claim leased ans by blast
  qed
qed

lemma resolve_event_reports:
  assumes "resolve_event padd tr leased answer w = (res, w')"
  shows "case answer of
      Inl err \<Rightarrow> res = Inl (SeProvider err)
    | Inr receipt \<Rightarrow> (\<exists>out. res = Inr out \<and> cw_op out = lo_id leased \<and> cw_event out = er_event receipt \<and>
          op_state_in w' (ol_op (lo_lease leased)) = Some Succeeded) \<or> (\<exists>e. res = Inl (SeUnrecorded e))"
proof (cases answer)
  case (Inl err)
  with assms show ?thesis
    by (cases "write_failed padd tr leased err w") (auto simp: resolve_event_def dest: write_failed_reports)
next
  case (Inr receipt)
  obtain r w1 where "write_applied padd tr leased (er_event receipt) w = (r, w1)"
    by (cases "write_applied padd tr leased (er_event receipt) w")
  with write_applied_cases [OF this] assms Inr show ?thesis by (auto simp: resolve_event_def)
qed

end
