(* ===== verification/Driver_Runs.thy ===== *)
theory Driver_Runs
  imports Driver_Laws Runs
begin

text \<open>
  Sample parameters and worlds the driver properties are applied to: a provider that hands over, delivers and
  answers, a codec, and schedules of what others do before each call.
\<close>

definition sample_submission :: submission where
  "sample_submission = SCommit (SDeliver (SReturn (Inr \<lparr>sn_email_key = ''s'', sn_message_id = ''m'',
     sn_sent_copy = Filed, sn_sent_copy_keywords = []\<rparr>))) (\<lambda>e. SReturn (Inl e))"

definition sample_provider :: "(string, unit) provider" where
  "sample_provider = \<lparr>pv_submit_email = \<lambda>at account draft. sample_submission,
     pv_edit_mail = \<lambda>at account edit. Inr (mail_edit_target edit),
     pv_report_message = \<lambda>at account report. Inr (rp_target report),
     pv_put_draft = \<lambda>at account draft replacing. Inl (pe_retryable ''o''),
     pv_delete_draft = \<lambda>at account key. Inr (),
     pv_sync_mailboxes = \<lambda>at account. Inr [],
     pv_edit_mailbox = \<lambda>at account edit. Inr None\<rparr>"

lemma sample_provider_ok: "provider_ok sample_provider"
  by (simp add: provider_ok_def sample_provider_def sample_submission_def)

definition sample_serde :: "(string, string, unit) serde" where
  "sample_serde = \<lparr>sj_draft_to = \<lambda>d. Inr (df_content d),
     sj_draft_of = \<lambda>v. Some \<lparr>df_message_id = ''m'', df_content = v\<rparr>,
     sj_put_to = \<lambda>p. Inr (df_content (dp_draft p)),
     sj_put_of = \<lambda>v. Some \<lparr>dp_draft = \<lparr>df_message_id = ''m'', df_content = v\<rparr>, dp_replacing = None\<rparr>,
     sj_key_to = Inr, sj_key_of = Some,
     sj_edit_to = \<lambda>e. Inr (mail_edit_target e), sj_edit_of = \<lambda>v. Some (MeDelete v),
     sj_report_to = \<lambda>r. Inr (rp_target r),
     sj_report_of = \<lambda>v. Some \<lparr>rp_target = v, rp_verdict = (), rp_destination = ''j''\<rparr>,
     sj_change_to = \<lambda>c. Inr ''c'', sj_change_of = \<lambda>v. None\<rparr>"

type_synonym sample_event = "(string, string \<times> string, unit) event"

type_synonym sample_world = "(string, string \<times> string, unit) world"

definition sample_ttl :: std_duration where "sample_ttl = StdDuration 10 0"

definition sample_world :: "(nat \<Rightarrow> sample_event list) \<Rightarrow> sample_world" where
  "sample_world ev = \<lparr>wd_store = inner_new, wd_trace = [],
     wd_sched = \<lambda>n. \<lparr>sd_events = ev n, sd_now = secs (int n), sd_mono = int n * 10 ^ 9\<rparr>, wd_at = 0, wd_renewals = []\<rparr>"

lemma sample_world_good: "good padd tr (sample_world ev)"
  by (simp add: good_def sample_world_def acts_def lawful_by_def history.start)

text \<open>Others that only queue work present no lease and answer for nothing.\<close>

fun plain_act :: "('v, 'o, 'p) act \<Rightarrow> bool" where
  "plain_act (Did (CEnqueue _ _) _) = True"
| "plain_act (Did CRecoverOps _) = True"
| "plain_act _ = False"

lemma plain_disciplined: "plain_act a \<Longrightarrow> disciplined p a"
  by (cases a rule: plain_act.cases) (simp_all add: own_leases_def list_all_iff)

lemma plain_harmless: "plain_act a \<Longrightarrow> harmless l a"
  by (cases a rule: plain_act.cases) simp_all

lemma sane_plain:
  assumes "list_all (\<lambda>x. fst x \<or> plain_act (snd x)) (wd_trace w)" and "length (wd_trace w) < 100"
  shows "sane w"
proof -
  have "length (cmds_of p) \<le> length p" for p :: "('a, 'b, 'c) trace"
    by (induction p rule: cmds_of.induct) simp_all
  then have "length (cmds w) \<le> length (wd_trace w)" unfolding acts_def by (metis length_map)
  moreover have "lawful_by False (wd_trace w)"
    using assms(1) plain_disciplined by (auto simp: lawful_by_def list_all_length)
  ultimately show ?thesis using assms(2) by (simp add: sane_def)
qed

lemma clear_plain: "list_all (\<lambda>x. fst x \<or> plain_act (snd x)) (wd_trace w) \<Longrightarrow> clear n l w"
  using in_set_dropD [of _ n "wd_trace w"] plain_harmless by (fastforce simp: clear_def list_all_iff)

lemma apart_plain: "list_all (\<lambda>x. fst x \<or> plain_act (snd x)) (wd_trace w) \<Longrightarrow> apart_from n w"
  by (simp add: apart_from_def clear_plain)

text \<open>An op queued before the first call.\<close>

definition queued_first :: "pending_op_kind \<Rightarrow> nat \<Rightarrow> sample_event list" where
  "queued_first kind n = (if n = 0 then [Other 0 (CEnqueue ''a'' (sample_op ''k'' kind))] else [])"

abbreviation drain_sample :: "sample_world \<Rightarrow> ((sync_error, drain_report) result \<times> sample_world) option" where
  "drain_sample w \<equiv> drain_outbox pdt_add_ref plain_object (\<lambda>s. s) sample_provider sample_serde ''a'' ''w'' sample_ttl w"

definition drained_world :: sample_world where
  "drained_world = snd (the (drain_sample (sample_world (queued_first MailSubmit))))"

lemma drained_run:
  "drain_sample (sample_world (queued_first MailSubmit)) =
     Some (fst (the (drain_sample (sample_world (queued_first MailSubmit)))), drained_world)"
proof -
  have "drain_sample (sample_world (queued_first MailSubmit)) \<noteq> None" by code_simp
  then show ?thesis unfolding drained_world_def by (metis option.exhaust_sel prod.collapse)
qed

lemma drained_facts:
  "list_all (\<lambda>x. fst x \<or> plain_act (snd x)) (wd_trace drained_world)" "length (wd_trace drained_world) < 100"
  "length (deliveries (acts drained_world)) = 1"
  "map_option (\<lambda>c. po_kind (oc_op c)) (hm_get (in_ops (wd_store drained_world)) 0) = Some MailSubmit"
  by code_simp+

lemma drained_good: "good pdt_add_ref plain_object drained_world"
  using free_drain [OF drained_run sample_provider_ok, of 0] sane_plain [OF drained_facts(1,2)] apart_plain [OF drained_facts(1)]
    sample_world_good unfolding free_part_def by blast

end
