(* ===== verification/Driver_Props.thy ===== *)
theory Driver_Props
  imports Driver_Runs
begin

text \<open>
  The properties of the outbox drivers: a message is delivered at most once however the workers interleave,
  the drain pass keeps the discipline that makes it so, and what a driver reports is what happened.
\<close>

text \<open>
  C1. A message is delivered at most once. In every history of the store, with every sequence of deliveries
  beside it that keeps the discipline of the outbox (leases are presented by whoever was handed them, a
  delivery follows an accepted hand-over, an attempt that delivered is not reported as failed, and the host
  does not call a delivered message undelivered), a send has at most one delivery, however workers die, stall
  past their leases, race and recover each other.
\<close>
theorem delivered_at_most_once:
  assumes "history padd tr (cmds_of p) s" and "2 * length (cmds_of p) < 2 ^ 64" and "lawful p"
    and "\<forall>c. hm_get (in_ops s) i = Some c \<longrightarrow> po_kind (oc_op c) = MailSubmit"
  shows "length (filter (\<lambda>l. ol_op l = i) (deliveries p)) \<le> 1"
  by (rule sent_at_most_once [OF assms])

theorem delivered_at_most_once_witness:
  "length (deliveries (acts drained_world)) = 1 \<and>
   length (filter (\<lambda>l. ol_op l = 0) (deliveries (acts drained_world))) \<le> 1"
proof -
  have sane: "sane drained_world" by (rule sane_plain [OF drained_facts(1,2)])
  have hist: "history pdt_add_ref plain_object (cmds drained_world) (wd_store drained_world)"
    and len: "2 * length (cmds drained_world) < 2 ^ 64" and law: "lawful (acts drained_world)"
    using drained_good sane good_sane_lawful [OF drained_good sane] by (simp_all add: good_def sane_def)
  have "\<forall>c. hm_get (in_ops (wd_store drained_world)) 0 = Some c \<longrightarrow> po_kind (oc_op c) = MailSubmit"
    using drained_facts(4) by auto
  from delivered_at_most_once [OF hist len law this] drained_facts(3) show ?thesis by blast
qed

text \<open>
  C2. A drain pass keeps that discipline in every interleaving in which each lease stays with the driver it was
  handed to. Other drivers, of the same worker id or another, and the host may run any commands and
  deliveries before each store call of the pass, as long as they keep the discipline themselves, present and
  deliver under no lease that this pass was handed, and the host does not declare undelivered a send that
  this pass leased; it may declare any other send undelivered that was not delivered. Then every call and
  every delivery of the pass keeps the discipline, so a send still has at most one delivery after the pass. The
  provider is taken to record the hand-over before it delivers and to answer a delivery as one that may be out;
  the pass starts from a history whose own part keeps the discipline, of fewer than 2^63 commands in all.
\<close>
theorem drain_delivers_at_most_once:
  assumes "drain_outbox padd tr lower pv sj account worker ttl w = Some (r, w')"
    and "provider_ok pv" and "good padd tr w" and "sane w'" and "apart_from (length (wd_trace w)) w'"
  shows "lawful (acts w') \<and> history padd tr (cmds w') (wd_store w') \<and>
    ((\<forall>c. hm_get (in_ops (wd_store w')) i = Some c \<longrightarrow> po_kind (oc_op c) = MailSubmit) \<longrightarrow>
     length (filter (\<lambda>l. ol_op l = i) (deliveries (acts w'))) \<le> 1)"
proof -
  have good: "good padd tr w'" using free_drain [OF assms(1,2)] assms(3-5) unfolding free_part_def by blast
  have law: "lawful (acts w')" by (rule good_sane_lawful [OF good assms(4)])
  have "history padd tr (cmds w') (wd_store w')" "2 * length (cmds w') < 2 ^ 64"
    using good assms(4) by (simp_all add: good_def sane_def)
  with law sent_at_most_once show ?thesis by blast
qed

theorem drain_delivers_at_most_once_witness:
  "length (deliveries (acts drained_world)) = 1 \<and> lawful (acts drained_world)"
  using drain_delivers_at_most_once [OF drained_run sample_provider_ok sample_world_good
      sane_plain [OF drained_facts(1,2)] apart_plain [OF drained_facts(1)]] drained_facts(3) by blast

text \<open>
  C4. A delivered message is never reported as unsent. If the provider delivered during an attempt, the
  attempt answers that it was delivered, that it may have been, or that its outcome went unrecorded; it never
  answers a refusal or a plain store error, and it keeps the discipline. Between its store calls others may
  do what keeps the discipline, presents and delivers under another lease, and does not declare this send
  undelivered.
\<close>
theorem attempt_admits_delivery:
  assumes "attempt padd tr pv account leased draft ttl w = (res, w')"
    and "\<forall>at. honours (pv_submit_email pv at account draft) False False"
    and "good padd tr w" and "sane w'" and "clear (length (wd_trace w)) (lo_lease leased) w'"
    and "armed (lo_lease leased) False False w"
  shows "good padd tr w' \<and> (lo_lease leased \<in> set (deliveries (acts w')) \<longrightarrow> admits_delivery res)"
  using attempt_keeps [OF assms(1-5) order_refl assms(6)] by blast

definition claimed_sample :: "(store_error, string pending_op_claim) result \<times> sample_world" where
  "claimed_sample = claim_pending_op pdt_add_ref plain_object ''a'' 0 \<lparr>lq_owner = ''w'', lq_ttl = sample_ttl\<rparr>
     (sample_world (queued_first MailSubmit))"

definition leased_sample :: "string leased_pending_op" where
  "leased_sample = (case projr (fst claimed_sample) of Leased l \<Rightarrow> l)"

definition attempted_sample :: "(sync_error, attempt_end) result \<times> sample_world" where
  "attempted_sample = attempt pdt_add_ref plain_object sample_provider ''a'' leased_sample
     \<lparr>df_message_id = ''m'', df_content = ''v''\<rparr> sample_ttl (snd claimed_sample)"

theorem attempt_admits_delivery_witness:
  "length (deliveries (acts (snd attempted_sample))) = 1 \<and> admits_delivery (fst attempted_sample)"
proof -
  have "case fst claimed_sample of Inr (Leased l) \<Rightarrow> True | _ \<Rightarrow> False" by code_simp
  then have claim: "claimed_sample = (Inr (Leased leased_sample), snd claimed_sample)"
    by (intro prod_eqI) (auto simp: leased_sample_def split: sum.splits pending_op_claim.splits)
  have traces: "list_all (\<lambda>x. fst x \<or> plain_act (snd x)) (wd_trace (snd claimed_sample))"
    "length (wd_trace (snd claimed_sample)) < 100"
    "list_all (\<lambda>x. fst x \<or> plain_act (snd x)) (wd_trace (snd attempted_sample))"
    "length (wd_trace (snd attempted_sample)) < 100" by code_simp+
  have sane: "sane (snd claimed_sample)" "sane (snd attempted_sample)" using traces sane_plain by blast+
  have good: "good pdt_add_ref plain_object (snd claimed_sample)"
    and armed: "armed (lo_lease leased_sample) False False (snd claimed_sample)"
    using claim_keeps [OF claim [unfolded claimed_sample_def] sample_world_good] sane(1)
    by (simp_all add: claimed_sample_def)
  have hon: "\<forall>at. honours (pv_submit_email sample_provider at ''a'' \<lparr>df_message_id = ''m'', df_content = ''v''\<rparr>) False False"
    using sample_provider_ok by (simp add: provider_ok_def)
  have att: "attempt pdt_add_ref plain_object sample_provider ''a'' leased_sample
      \<lparr>df_message_id = ''m'', df_content = ''v''\<rparr> sample_ttl (snd claimed_sample) = (fst attempted_sample, snd attempted_sample)"
    by (simp add: attempted_sample_def)
  have one: "deliveries (acts (snd attempted_sample)) = [lo_lease leased_sample]" by code_simp
  with attempt_admits_delivery [OF att hon good sane(2) clear_plain [OF traces(3)] armed] show ?thesis by simp
qed

text \<open>
  A drain pass accounts for every op it listed: each is in the report once, attempted (in the order of
  the queue, a pending op of the kind reported) or counted as deferred.
\<close>
theorem drain_report_accounts:
  assumes "drain_outbox padd tr lower pv sj account worker ttl w = Some (Inr report, w')"
  shows "\<exists>queue w1. store_read padd tr (\<lambda>now s. list_pending_ops padd now account s) w = (Inr queue, w1) \<and>
    attempted_of queue (dr_attempted report) \<and> length (dr_attempted report) + dr_deferred report = length queue"
proof -
  obtain q w1 where read: "store_read padd tr (\<lambda>now s. list_pending_ops padd now account s) w = (q, w1)"
    by (cases "store_read padd tr (\<lambda>now s. list_pending_ops padd now account s) w")
  with assms obtain queue where q: "q = Inr queue" by (cases q) (auto simp: drain_outbox_def)
  with assms read drain_loop_accounts show ?thesis by (fastforce simp: drain_outbox_def)
qed

theorem drain_report_accounts_witness:
  "\<exists>report. fst (the (drain_sample (sample_world (queued_first MailSubmit)))) = Inr report \<and>
     length (dr_attempted report) = 1 \<and> dr_deferred report = 0 \<and>
     (\<exists>queue :: string pending_op_row list. attempted_of queue (dr_attempted report))"
proof -
  let ?r = "fst (the (drain_sample (sample_world (queued_first MailSubmit))))"
  have r: "?r = Inr (projr ?r)" and n: "length (dr_attempted (projr ?r)) = 1" "dr_deferred (projr ?r) = 0" by code_simp+
  have "drain_sample (sample_world (queued_first MailSubmit)) = Some (Inr (projr ?r), drained_world)"
    using drained_run r by simp
  from drain_report_accounts [OF this] r n show ?thesis by blast
qed

text \<open>
  An op a drain pass counts as deferred may have been leased, and its provider call made: here another
  process recovers the op between the pass's claim and its mark, and the report shows one deferred op and
  none attempted, though the pass leased it and the provider applied the edit.
\<close>
theorem deferred_op_was_leased:
  "let ev = (\<lambda>n. if n = 2 then [Other (secs 2) CRecoverOps] else queued_first MailEdit n);
       (r, w) = the (drain_sample (sample_world ev))
   in r = Inr \<lparr>dr_attempted = [], dr_deferred = 1\<rparr> \<and>
      list_ex (\<lambda>x. fst x \<and> (case snd x of Did _ resp \<Rightarrow> minted_ops resp \<noteq> [] | _ \<Rightarrow> False)) (wd_trace w)"
  by code_simp

text \<open>
  A calendar write never misreports. When the provider applied it, the answer is its receipt, with the op
  recorded as succeeded, or that the applied write went unrecorded; when the provider refused, the answer is
  its error, whatever the store does; and an answer that is a plain store or outbox error means the provider
  was not asked.
\<close>
theorem calendar_write_reports:
  assumes "calendar_write kind padd tr account worker ttl idem uid payload call w = Some (res, w')"
  shows "asked_nothing res \<or> (\<exists>op leased w1.
    calendar_op kind idem uid payload = Inr op \<and>
    enqueue_and_claim padd tr account worker ttl op w = Some (Inr leased, w1) \<and>
    (case call (wd_at w1) of
       Inl err \<Rightarrow> res = Inl (SeProvider err)
     | Inr receipt \<Rightarrow> (\<exists>out. res = Inr out \<and> cw_op out = lo_id leased \<and> cw_event out = er_event receipt \<and>
           op_state_in w' (lo_id leased) = Some Succeeded) \<or> (\<exists>e. res = Inl (SeUnrecorded e))))"
proof -
  have op: "\<exists>t. e = SeOutbox t" if "calendar_op kind idem uid payload = Inl e" for e
    using that new_op_error by (auto simp: calendar_op_def)
  show ?thesis
  proof (rule claimed_then_cases [OF assms [unfolded calendar_write_def] op])
    fix o' leased w1
    assume asked: "calendar_op kind idem uid payload = Inr o'"
      "enqueue_and_claim padd tr account worker ttl o' w = Some (Inr leased, w1)"
      "resolve_event padd tr leased (call (wd_at w1)) w1 = (res, w')" "ol_op (lo_lease leased) = lo_id leased"
    from resolve_event_reports [OF asked(3), unfolded asked(4)] asked(1,2) show ?thesis by blast
  qed simp_all
qed

definition sample_event_call :: "nat \<Rightarrow> (provider_error, (unit, unit) event_write_receipt) result" where
  "sample_event_call at = Inr \<lparr>er_event = ''e'', er_uid = ''u'', er_revisions = (), er_reply_delivery = ()\<rparr>"

definition calendar_sample :: "(string, string \<times> string, unit, (unit, unit) calendar_write_outcome) driven" where
  "calendar_sample = calendar_write CalendarCreate pdt_add_ref plain_object ''a'' ''w'' sample_ttl ''i'' ''u''
     (Inr ''v'') sample_event_call (sample_world (\<lambda>n. []))"

theorem calendar_write_reports_witness:
  "calendar_sample \<noteq> None \<and> \<not> asked_nothing (fst (the calendar_sample)) \<and>
   op_state_in (snd (the calendar_sample)) 0 = Some Succeeded"
proof -
  have some: "calendar_sample \<noteq> None" and ok: "\<not> isl (fst (the calendar_sample))"
    and id: "cw_op (projr (fst (the calendar_sample))) = 0" by code_simp+
  then have run: "calendar_write CalendarCreate pdt_add_ref plain_object ''a'' ''w'' sample_ttl ''i'' ''u''
      (Inr ''v'') sample_event_call (sample_world (\<lambda>n. [])) = Some (fst (the calendar_sample), snd (the calendar_sample))"
    by (simp add: calendar_sample_def)
  have asked: "\<not> asked_nothing (fst (the calendar_sample))" using ok by (auto simp: asked_nothing_def)
  from calendar_write_reports [OF run] asked ok id some show ?thesis by (auto simp: sample_event_call_def)
qed

text \<open>
  The wait for a busy resource ends. Once the monotonic clock passes the deadline at some poll, the wait
  has returned by then, and a driver is told the resource is busy only past the deadline.
\<close>
theorem claim_waiting_returns:
  assumes "sd_mono (wd_sched w (wd_at w + Suc k)) \<ge> mono_now w + resource_wait"
  shows "\<exists>r w'. claim_waiting padd tr account worker ttl i w = Some (r, w') \<and> wd_at w' \<le> wd_at w + Suc k \<and>
    (r = Inr (Inl CrBusy) \<longrightarrow> mono_now w' \<ge> mono_now w + resource_wait)"
  unfolding claim_waiting_def by (rule claim_poll_returns [OF assms])

theorem claim_waiting_returns_witness:
  "\<exists>r w'. claim_waiting pdt_add_ref plain_object ''a'' ''w'' sample_ttl 0 (sample_world (queued_first MailEdit)) =
     Some (r, w') \<and> wd_at w' \<le> 11"
proof -
  let ?w = "sample_world (queued_first MailEdit)"
  have "sd_mono (wd_sched ?w (wd_at ?w + Suc 10)) \<ge> mono_now ?w + resource_wait"
    by (simp add: sample_world_def mono_now_def resource_wait_def)
  from claim_waiting_returns [OF this, of pdt_add_ref plain_object "''a''" "''w''" sample_ttl 0] show ?thesis
    by (auto simp: sample_world_def)
qed

definition save_sample ::
  "string \<Rightarrow> sample_world \<Rightarrow> (sync_error, put_draft_outcome) result \<times> sample_world" where
  "save_sample text w = the (put_draft_mail pdt_add_ref plain_object sample_provider sample_serde (\<lambda>v. v) ''a'' ''w''
     sample_ttl \<lparr>df_message_id = ''m'', df_content = text\<rparr> None w)"

text \<open>
  Saving a draft back to an earlier text with no network loses it. The second save withdraws the first,
  and the third, whose text is the first's, withdraws the second and is then deduplicated onto the withdrawn
  first op, which cannot be claimed: the caller is refused and nothing is left queued to be sent later.
\<close>
theorem draft_saved_back_is_lost:
  "let w1 = snd (save_sample ''x'' (sample_world (\<lambda>n. [])));
       w2 = snd (save_sample ''y'' w1);
       (r, w3) = save_sample ''x'' w2
   in r = Inl (SeOutbox (NotClaimable 0 CrSettled)) \<and> list_pending_ops pdt_add_ref (secs 100) ''a'' (wd_store w3) = Inr []"
  by code_simp

end
