(* ===== verification/Mailbox_Props.thy ===== *)
theory Mailbox_Props
  imports Mailbox_Plan
begin

text \<open>
  The properties of folder changes (\<open>engine-sync/src/outbox/mailbox_plan.rs\<close>).
\<close>

text \<open>
  The bounded walk decides reachability: a folder is found within another exactly when climbing the
  parents leads to it, in every listing, one with a cycle or with missing parents included.
\<close>
theorem within_is_reachability:
  "within current folder ancestor \<longleftrightarrow> (folder, ancestor) \<in> {(a, b). parent_of current a = Some b}\<^sup>*"
  using within_reaches unfolding parent_rel_def .

text \<open>
  A name is always found for a trashed folder, so the search never panics, and no folder in Trash has it,
  whatever the letters' case.
\<close>
theorem free_name_always_found:
  assumes "lowers_numbered lower name"
  shows "\<exists>free. free_name lower current parent name = Some free \<and>
    (\<forall>m \<in> set current. mx_parent m = Some parent \<longrightarrow> lower (mx_name m) \<noteq> lower free)"
  using free_name_found [OF assms, of current parent] by (auto simp: name_taken_def list_ex_iff)

definition sample_tree :: "mailbox list" where
  "sample_tree =
    [\<lparr>mx_id = ''t'', mx_name = ''T'', mx_parent = None, mx_role = Some RTrash\<rparr>,
     \<lparr>mx_id = ''u'', mx_name = ''A'', mx_parent = Some ''t'', mx_role = None\<rparr>,
     \<lparr>mx_id = ''a'', mx_name = ''A'', mx_parent = None, mx_role = None\<rparr>,
     \<lparr>mx_id = ''b'', mx_name = ''B'', mx_parent = Some ''a'', mx_role = None\<rparr>]"

theorem free_name_always_found_witness:
  "free_name (\<lambda>s. s) sample_tree ''t'' ''A'' = Some ''A 2'' \<and>
   \<not> list_ex (\<lambda>m. mx_parent m = Some ''t'' \<and> mx_name m = ''A 2'') sample_tree"
proof -
  have "lowers_numbered (\<lambda>s. s) ''A''" unfolding lowers_numbered_def by (intro exI [of _ "''A''"]) simp
  moreover have "free_name (\<lambda>s. s) sample_tree ''t'' ''A'' = Some ''A 2''" by code_simp
  ultimately show ?thesis
    using free_name_always_found [of "\<lambda>s. s" "''A''" sample_tree "''t''"] by (auto simp: list_ex_iff)
qed



end
