(* ===== verification/Read_Props.thy ===== *)
theory Read_Props
  imports Reads Runs
begin

text \<open>
  The properties of the lease-free reads (\<open>engine-store/src/mem/read.rs\<close>).
\<close>

text \<open>
  The queue reads the same before and after recovery: listing an account's ops shows what it shows once
  the attempts whose workers are gone have been recovered and settled, so a read needs no write.
\<close>
theorem listing_needs_no_recovery:
  assumes "recover_dead padd now account (in_ops s) = (Inr (), ops')"
  shows "list_pending_ops padd now account (settle_keyword_edits now (s\<lparr>in_ops := ops'\<rparr>)) =
    list_pending_ops padd now account s"
proof -
  obtain n where "recover_where padd now (\<lambda>c. oc_account c = account \<and> cell_is_dead now c) (in_ops s) = (Inr n, ops')"
    using assms by (auto simp: recover_dead_def split: prod.splits sum.splits)
  from list_ops_recovered [OF this] show ?thesis by (simp add: list_pending_ops_def list_ops_stamped)
qed

theorem listing_needs_no_recovery_witness:
  "let s = snd (run_sample script_send); ops' = snd (recover_dead pdt_add_ref (secs 20) ''a'' (in_ops s))
   in ops' \<noteq> in_ops s \<and> list_pending_ops pdt_add_ref (secs 20) ''a'' (settle_keyword_edits (secs 20) (s\<lparr>in_ops := ops'\<rparr>)) =
      list_pending_ops pdt_add_ref (secs 20) ''a'' s"
proof -
  let ?s = "snd (run_sample script_send)"
  let ?r = "recover_dead pdt_add_ref (secs 20) ''a'' (in_ops ?s)"
  have "fst ?r = Inr ()" and "map (oc_token \<circ> snd) (snd ?r) \<noteq> map (oc_token \<circ> snd) (in_ops ?s)" by code_simp+
  then have "?r = (Inr (), snd ?r)" and "snd ?r \<noteq> in_ops ?s" by (metis prod.collapse, metis)
  with listing_needs_no_recovery [OF this(1)] show ?thesis by (simp add: Let_def)
qed

text \<open>
  The mail list does not depend on the order the store iterates in: two stores that answer every lookup
  alike list the same messages in the same order and cut the same window, as long as no message is held twice
  in an account.
\<close>
theorem mail_list_deterministic:
  assumes "hm_ok (in_scopes s)" and "hm_ok (in_scopes s')"
    and "\<And>sc. rel_option mail_alike (hm_get (in_scopes s) sc) (hm_get (in_scopes s') sc)"
    and "distinct (map ml_identity (mail_rows accounts select s))"
  shows "list_mail accounts select limit s = list_mail accounts select limit s'"
  by (rule list_mail_alike [OF assms])

definition reversed :: "string inner \<Rightarrow> string inner" where
  "reversed s = s\<lparr>in_scopes := map (\<lambda>(sc, c). (sc, c\<lparr>sc_messages := rev (sc_messages c)\<rparr>)) (in_scopes s)\<rparr>"

theorem mail_list_deterministic_witness:
  "length (list_mail [''a''] Newest 5 (snd (run_sample script_synced))) = 2 \<and>
   list_mail [''a''] Newest 5 (snd (run_sample script_synced)) =
   list_mail [''a''] Newest 5 (reversed (snd (run_sample script_synced)))"
proof -
  let ?s = "snd (run_sample script_synced)"
  have two: "length (list_mail [''a''] Newest 5 ?s) = 2" and ok: "hm_ok (in_scopes ?s)"
    and cells: "list_all (\<lambda>x. distinct (map fst (sc_messages (snd x)))) (in_scopes ?s)"
    and dist: "distinct (map ml_identity (mail_rows [''a''] Newest ?s))" by code_simp+
  have "hm_ok (in_scopes (reversed ?s))" using ok by (simp add: reversed_def case_prod_unfold comp_def)
  moreover have "rel_option mail_alike (hm_get (in_scopes ?s) sc) (hm_get (in_scopes (reversed ?s)) sc)" for sc
  proof -
    have "hm_get (in_scopes (reversed ?s)) sc =
        map_option (\<lambda>c. c\<lparr>sc_messages := rev (sc_messages c)\<rparr>) (hm_get (in_scopes ?s) sc)"
      by (simp add: reversed_def map_of_map)
    moreover have "mail_alike c (c\<lparr>sc_messages := rev (sc_messages c)\<rparr>)" if "hm_get (in_scopes ?s) sc = Some c" for c
    proof -
      have "distinct (map fst (sc_messages c))" using cells map_of_SomeD [OF that] by (auto simp: list_all_iff)
      then show ?thesis by (simp add: mail_alike_def map_of_inject_set flip: rev_map)
    qed
    ultimately show ?thesis by (cases "hm_get (in_scopes ?s) sc") auto
  qed
  ultimately have "list_mail [''a''] Newest 5 ?s = list_mail [''a''] Newest 5 (reversed ?s)"
    by (rule mail_list_deterministic [OF ok _ _ dist])
  with two show ?thesis by simp
qed

end
