(* ===== verification/Time_Text.thy ===== *)
theory Time_Text
  imports Digits Time_Model
begin

text \<open>
  Date-times, dates and durations as text (\<open>engine-core/src/time\<close>): what \<open>Display\<close> writes and what
  \<open>FromStr\<close> reads.

  A date is its year, month and day and a time of day its hour, minute, second and nanosecond. Which of them
  exist is the \<open>time\<close> crate's answer (\<open>time_crate\<close>); what is relied on of it is \<open>time_crate_ok\<close>. A read
  that slices inside a character panics: \<open>None\<close>.
\<close>

section \<open>Values and errors\<close>

type_synonym date = "int \<times> nat \<times> nat"
type_synonym clock_time = "nat \<times> nat \<times> nat \<times> nat"
type_synonym date_time = "date \<times> clock_time"

record time_crate =
  tc_date_ok :: "int \<Rightarrow> nat \<Rightarrow> nat \<Rightarrow> bool"
  tc_time_ok :: "nat \<Rightarrow> nat \<Rightarrow> nat \<Rightarrow> nat \<Rightarrow> bool"

definition time_crate_ok :: "time_crate \<Rightarrow> bool" where
  "time_crate_ok tc \<longleftrightarrow>
     (\<forall>y m d. tc_date_ok tc y m d \<longrightarrow> - 9999 \<le> y \<and> y \<le> 9999 \<and> 1 \<le> m \<and> m \<le> 12 \<and> 1 \<le> d \<and> d \<le> 31) \<and>
     (\<forall>h m s n. tc_time_ok tc h m s n \<longrightarrow> h < 24 \<and> m < 60 \<and> s < 60 \<and> n < 10 ^ 9)"

fun date_time_ok :: "time_crate \<Rightarrow> date_time \<Rightarrow> bool" where
  "date_time_ok tc ((y, m, d), (h, mi, s, n)) \<longleftrightarrow> tc_date_ok tc y m d \<and> tc_time_ok tc h mi s n"

datatype time_error = Malformed string string | OutOfRange | SubsecondTooPrecise | ValueEmpty | EmptyRange

type_synonym 'a reading = "(time_error, 'a) result option"

definition and_then :: "'a reading \<Rightarrow> ('a \<Rightarrow> 'b reading) \<Rightarrow> 'b reading" where
  "and_then r f = (case r of None \<Rightarrow> None | Some (Inl e) \<Rightarrow> Some (Inl e) | Some (Inr x) \<Rightarrow> f x)"

lemma and_then_simps [simp]:
  "and_then None f = None" "and_then (Some (Inl e)) f = Some (Inl e)" "and_then (Some (Inr x)) f = f x"
  by (simp_all add: and_then_def)

section \<open>Reading\<close>

definition parse_digits :: "string \<Rightarrow> string \<Rightarrow> (time_error, nat) result" where
  "parse_digits s expected =
     (if s = [] \<or> \<not> all_digits s then Inl (Malformed expected s)
      else if undecimal s \<le> u32_max then Inr (undecimal s) else Inl OutOfRange)"

definition digits_at :: "string \<Rightarrow> nat \<Rightarrow> nat \<Rightarrow> string \<Rightarrow> nat reading" where
  "digits_at s a b expected = map_option (\<lambda>t. parse_digits t expected) (slice s a b)"

definition i32_max :: nat where "i32_max = 2 ^ 31 - 1"

definition u8_max :: nat where "u8_max = 2 ^ 8 - 1"

definition ymd_form :: string where "ymd_form = ''date YYYY-MM-DD''"

definition parse_ymd :: "time_crate \<Rightarrow> string \<Rightarrow> date reading" where
  "parse_ymd tc s =
     (if length s \<noteq> 10 \<or> s ! 4 \<noteq> CHR ''-'' \<or> s ! 7 \<noteq> CHR ''-'' then Some (Inl (Malformed ymd_form s))
      else and_then (digits_at s 0 4 ymd_form) (\<lambda>year.
        if year > i32_max then Some (Inl OutOfRange)
        else and_then (digits_at s 5 7 ymd_form) (\<lambda>month. and_then (digits_at s 8 10 ymd_form) (\<lambda>day.
          Some (if month \<le> u8_max \<and> day \<le> u8_max \<and> tc_date_ok tc (int year) month day
                then Inr (int year, month, day) else Inl OutOfRange)))))"

definition parse_subsecond :: "string \<Rightarrow> (time_error, nat) result" where
  "parse_subsecond frac =
     (if frac = [] \<or> \<not> all_digits frac then Inl (Malformed ''fractional seconds'' frac)
      else if 9 < length frac \<and> list_ex (\<lambda>b. b \<noteq> CHR ''0'') (drop 9 frac) then Inl SubsecondTooPrecise
      else let taken = min (length frac) 9 in Inr (undecimal (take taken frac) * 10 ^ (9 - taken)))"

definition hms_form :: string where "hms_form = ''time hh:mm:ss''"

definition parse_hms :: "time_crate \<Rightarrow> string \<Rightarrow> clock_time reading" where
  "parse_hms tc s =
     (if length s < 8 \<or> s ! 2 \<noteq> CHR '':'' \<or> s ! 5 \<noteq> CHR '':'' then Some (Inl (Malformed ''time hh:mm:ss[.fff]'' s))
      else and_then (digits_at s 0 2 hms_form) (\<lambda>hour. and_then (digits_at s 3 5 hms_form) (\<lambda>minute.
        and_then (digits_at s 6 8 hms_form) (\<lambda>second.
          and_then
            (if length s = 8 then Some (Inr 0)
             else if s ! 8 \<noteq> CHR ''.'' then Some (Inl (Malformed ''time hh:mm:ss[.fff]'' s))
             else map_option parse_subsecond (slice_from s 9)) (\<lambda>nanosecond.
            Some (if hour \<le> u8_max \<and> minute \<le> u8_max \<and> second \<le> u8_max \<and> tc_time_ok tc hour minute second nanosecond
                  then Inr (hour, minute, second, nanosecond) else Inl OutOfRange))))))"

definition parse_wall_clock :: "time_crate \<Rightarrow> string \<Rightarrow> date_time reading" where
  "parse_wall_clock tc s =
     (if length s < 19 \<or> s ! 10 \<noteq> CHR ''T'' then Some (Inl (Malformed ''date-time YYYY-MM-DDThh:mm:ss[.fff]'' s))
      else case slice s 0 10 of
        None \<Rightarrow> None
      | Some ymd \<Rightarrow> and_then (parse_ymd tc ymd) (\<lambda>date.
          case slice_from s 11 of
            None \<Rightarrow> None
          | Some hms \<Rightarrow> and_then (parse_hms tc hms) (\<lambda>time. Some (Inr (date, time)))))"

text \<open>\<open>UtcDateTime::from_str\<close>: only the \<open>Z\<close> form.\<close>

definition parse_utc :: "time_crate \<Rightarrow> string \<Rightarrow> date_time reading" where
  "parse_utc tc s =
     (if s \<noteq> [] \<and> last s = CHR ''Z'' then parse_wall_clock tc (butlast s)
      else Some (Inl (Malformed ''UTC date-time ending in Z'' s)))"

text \<open>
  \<open>UtcDateTime::parse_rfc3339\<close>: a \<open>Z\<close> or a numeric offset, taken off by the crate's checked subtraction of
  that many minutes (\<open>psub\<close>).
\<close>

definition offset_form :: string where
  "offset_form = ''RFC 3339 date-time ending in Z or '' @ [CHR 0xC2, CHR 0xB1] @ ''hh:mm''"

definition two_digits :: "string \<Rightarrow> char \<Rightarrow> char \<Rightarrow> (time_error, nat) result" where
  "two_digits s hi lo = (if is_digit hi \<and> is_digit lo then Inr (digit_value hi * 10 + digit_value lo)
     else Inl (Malformed offset_form s))"

definition split_numeric_offset :: "string \<Rightarrow> (string \<times> int) reading" where
  "split_numeric_offset s =
     (if length s < 6 then Some (Inl (Malformed offset_form s))
      else let start = length s - 6; off = drop start s in
        if off ! 0 \<noteq> CHR ''+'' \<and> off ! 0 \<noteq> CHR ''-'' then Some (Inl (Malformed offset_form s))
        else if off ! 3 \<noteq> CHR '':'' then Some (Inl (Malformed offset_form s))
        else and_then (Some (two_digits s (off ! 1) (off ! 2))) (\<lambda>hours.
          and_then (Some (two_digits s (off ! 4) (off ! 5))) (\<lambda>minutes.
            if hours > 23 \<or> minutes > 59 then Some (Inl OutOfRange)
            else map_option (\<lambda>body. Inr (body, (if off ! 0 = CHR ''+'' then 1 else - 1) * int (hours * 60 + minutes)))
                   (slice s 0 start))))"

definition parse_rfc3339 :: "time_crate \<Rightarrow> (date_time \<Rightarrow> int \<Rightarrow> date_time option) \<Rightarrow> string \<Rightarrow> date_time reading" where
  "parse_rfc3339 tc psub s =
     (if s \<noteq> [] \<and> last s = CHR ''Z'' then parse_wall_clock tc (butlast s)
      else and_then (split_numeric_offset s) (\<lambda>(body, offset).
        and_then (parse_wall_clock tc body) (\<lambda>local.
          Some (case psub local offset of None \<Rightarrow> Inl OutOfRange | Some t \<Rightarrow> Inr t))))"

section \<open>Writing\<close>

text \<open>\<open>{:0w}\<close> of a signed value: the sign counts towards the width.\<close>

definition pad_int :: "nat \<Rightarrow> int \<Rightarrow> string" where
  "pad_int w n = (if n < 0 then CHR ''-'' # pad (w - 1) (nat (- n)) else pad w (nat n))"

definition trim_zeros :: "string \<Rightarrow> string" where
  "trim_zeros s = rev (dropWhile (\<lambda>c. c = CHR ''0'') (rev s))"

fun format_date :: "date \<Rightarrow> string" where
  "format_date (y, m, d) = pad_int 4 y @ ''-'' @ pad 2 m @ ''-'' @ pad 2 d"

fun format_wall_clock :: "date_time \<Rightarrow> string" where
  "format_wall_clock ((y, m, d), (h, mi, s, n)) =
     pad_int 4 y @ ''-'' @ pad 2 m @ ''-'' @ pad 2 d @ ''T'' @ pad 2 h @ '':'' @ pad 2 mi @ '':'' @ pad 2 s @
     (if n \<noteq> 0 then ''.'' @ trim_zeros (pad 9 n) else [])"

fun format_wall_clock_fixed :: "date_time \<Rightarrow> string" where
  "format_wall_clock_fixed ((y, m, d), (h, mi, s, n)) =
     pad_int 4 y @ ''-'' @ pad 2 m @ ''-'' @ pad 2 d @ ''T'' @ pad 2 h @ '':'' @ pad 2 mi @ '':'' @ pad 2 s @
     ''.'' @ pad 9 n"

definition display_utc :: "date_time \<Rightarrow> string" where
  "display_utc t = format_wall_clock t @ ''Z''"

definition to_sortable_string :: "date_time \<Rightarrow> string" where
  "to_sortable_string t = format_wall_clock_fixed t @ ''Z''"

section \<open>What is written reads back\<close>

lemma trim_zeros_split: "\<exists>k. s = trim_zeros s @ replicate k CHR ''0''"
proof -
  have "rev s = takeWhile (\<lambda>c. c = CHR ''0'') (rev s) @ rev (trim_zeros s)"
    by (simp add: trim_zeros_def)
  then have "s = trim_zeros s @ rev (takeWhile (\<lambda>c. c = CHR ''0'') (rev s))"
    by (metis rev_append rev_rev_ident)
  moreover have "rev (takeWhile (\<lambda>c. c = CHR ''0'') (rev s)) =
      replicate (length (takeWhile (\<lambda>c. c = CHR ''0'') (rev s))) CHR ''0''"
    by (intro replicate_eqI) (auto dest: set_takeWhileD)
  ultimately show ?thesis by metis
qed

lemma undecimal_trailing: "undecimal (s @ replicate k CHR ''0'') = undecimal s * 10 ^ k"
  using undecimal_zeros [of k "[]"] by (simp add: undecimal_append)

lemma trim_zeros_reads:
  assumes "0 < n" "n < 10 ^ 9"
  shows "parse_subsecond (trim_zeros (pad 9 n)) = Inr n"
    and "all_digits (trim_zeros (pad 9 n))" and "trim_zeros (pad 9 n) \<noteq> []"
proof -
  let ?t = "trim_zeros (pad 9 n)"
  obtain k where k: "pad 9 n = ?t @ replicate k CHR ''0''" using trim_zeros_split by blast
  have len: "length ?t + k = 9" using arg_cong [OF k, of length] assms by (simp add: pad_length)
  have val: "n = undecimal ?t * 10 ^ k" using arg_cong [OF k, of undecimal] by (simp add: undecimal_trailing)
  show dig: "all_digits ?t" using k by (metis all_digits_simps(3) pad_simps(1))
  show ne: "?t \<noteq> []" using val assms(1) by auto
  have "length ?t \<le> 9" "9 - length ?t = k" using len by arith+
  then show "parse_subsecond ?t = Inr n"
    using dig ne val by (simp add: parse_subsecond_def Let_def)
qed

definition plain :: "string \<Rightarrow> bool" where
  "plain s \<longleftrightarrow> (\<forall>c \<in> set s. \<not> continuation c)"

lemma plain_simps [simp]:
  "plain []" "plain (c # s) \<longleftrightarrow> \<not> continuation c \<and> plain s" "plain (s @ t) \<longleftrightarrow> plain s \<and> plain t"
  by (auto simp: plain_def)

lemma plain_digits: "all_digits s \<Longrightarrow> plain s"
  by (auto simp: plain_def all_digits_def list_all_iff)

lemma plain_slice: "plain s \<Longrightarrow> a \<le> b \<Longrightarrow> b \<le> length s \<Longrightarrow> slice s a b = Some (take (b - a) (drop a s))"
  by (auto simp: slice_def char_boundary_def plain_def)

lemma plain_sub: "plain s \<Longrightarrow> plain (take n (drop a s))"
  by (auto simp: plain_def dest: in_set_takeD in_set_dropD)

lemma list_lengths:
  "length s = 2 \<Longrightarrow> \<exists>a b. s = [a, b]" "length s = 3 \<Longrightarrow> \<exists>a b c. s = [a, b, c]" "length s = 4 \<Longrightarrow> \<exists>a b c d. s = [a, b, c, d]"
  by (auto simp: length_Suc_conv numeral_eq_Suc)

lemma parse_digits_small:
  "all_digits s \<Longrightarrow> s \<noteq> [] \<Longrightarrow> length s \<le> 9 \<Longrightarrow> parse_digits s e = Inr (undecimal s)"
proof -
  assume s: "all_digits s" "s \<noteq> []" "length s \<le> 9"
  have "undecimal s < 10 ^ 9"
    using undecimal_less [OF s(1)] power_increasing [OF s(3), of "10 :: nat"] by (simp add: order_less_le_trans)
  then show ?thesis using s by (simp add: parse_digits_def u32_max_def)
qed

lemma punctuation [simp]:
  "\<not> continuation CHR ''-''" "\<not> continuation CHR '':''" "\<not> continuation CHR ''.''" "\<not> continuation CHR ''T''"
  by (simp_all add: continuation_def)

text \<open>The text of a date and of a time, digit by digit.\<close>

lemma parse_ymd_digits:
  assumes "all_digits [a, b, c, d, e, f, g, h]"
    and "tc_date_ok tc (int (undecimal [a, b, c, d])) (undecimal [e, f]) (undecimal [g, h])"
    and "undecimal [e, f] \<le> u8_max" "undecimal [g, h] \<le> u8_max"
  shows "parse_ymd tc [a, b, c, d, CHR ''-'', e, f, CHR ''-'', g, h] =
    Some (Inr (int (undecimal [a, b, c, d]), undecimal [e, f], undecimal [g, h]))"
proof -
  let ?s = "[a, b, c, d, CHR ''-'', e, f, CHR ''-'', g, h]"
  have "plain ?s" using assms(1) by simp
  then have at: "slice ?s 0 4 = Some [a, b, c, d]" "slice ?s 5 7 = Some [e, f]" "slice ?s 8 10 = Some [g, h]"
    by (simp_all add: plain_slice)
  have "undecimal [a, b, c, d] < 10 ^ 4" using undecimal_less [of "[a, b, c, d]"] assms(1) by simp
  then show ?thesis
    using assms by (simp add: parse_ymd_def digits_at_def at parse_digits_small i32_max_def)
qed

lemma parse_hms_digits:
  assumes "all_digits [a, b, c, d, e, f]" and "frac = [] \<and> n = 0 \<or> frac = CHR ''.'' # t \<and> all_digits t \<and> parse_subsecond t = Inr n"
    and "tc_time_ok tc (undecimal [a, b]) (undecimal [c, d]) (undecimal [e, f]) n"
    and "undecimal [a, b] \<le> u8_max" "undecimal [c, d] \<le> u8_max" "undecimal [e, f] \<le> u8_max"
  shows "parse_hms tc ([a, b, CHR '':'', c, d, CHR '':'', e, f] @ frac) =
    Some (Inr (undecimal [a, b], undecimal [c, d], undecimal [e, f], n))"
proof -
  let ?s = "[a, b, CHR '':'', c, d, CHR '':'', e, f] @ frac"
  have "plain ?s" using assms(1,2) plain_digits by auto
  then have at: "slice ?s 0 2 = Some [a, b]" "slice ?s 3 5 = Some [c, d]" "slice ?s 6 8 = Some [e, f]"
    and rest: "frac \<noteq> [] \<Longrightarrow> slice_from ?s 9 = Some (drop 1 frac)"
    by (simp_all add: plain_slice slice_from_def Suc_leI)
  show ?thesis
  proof (cases "frac = []")
    case True
    then show ?thesis using assms at by (simp add: parse_hms_def digits_at_def parse_digits_small)
  next
    case False
    then show ?thesis using assms at rest [OF False] by (auto simp: parse_hms_def digits_at_def parse_digits_small)
  qed
qed

lemma pad_two:
  assumes "n < 100"
  obtains a b where "pad 2 n = [a, b]" "all_digits [a, b]" "undecimal [a, b] = n"
proof -
  have "length (pad 2 n) = 2" using assms by (intro pad_length) simp_all
  from list_lengths(1) [OF this] obtain a b where "pad 2 n = [a, b]" by blast
  then show ?thesis using that pad_simps(1,2) [of 2 n] by simp
qed

lemma pad_year:
  assumes "0 \<le> y" "y \<le> 9999"
  obtains a b c d where "pad_int 4 y = [a, b, c, d]" "all_digits [a, b, c, d]" "int (undecimal [a, b, c, d]) = y"
proof -
  have y: "pad_int 4 y = pad 4 (nat y)" using assms by (simp add: pad_int_def)
  have "length (pad 4 (nat y)) = 4" using assms by (intro pad_length) simp_all
  from list_lengths(3) [OF this] obtain a b c d where "pad 4 (nat y) = [a, b, c, d]" by blast
  then show ?thesis using that pad_simps(1,2) [of 4 "nat y"] y assms(1) by simp
qed

lemma time_crate_bounds:
  "time_crate_ok tc \<Longrightarrow> tc_date_ok tc y m d \<Longrightarrow> - 9999 \<le> y \<and> y \<le> 9999 \<and> m < 100 \<and> d < 100"
  "time_crate_ok tc \<Longrightarrow> tc_time_ok tc h mi s n \<Longrightarrow> h < 100 \<and> mi < 100 \<and> s < 100 \<and> n < 10 ^ 9"
  unfolding time_crate_ok_def by fastforce+

lemma parse_format_date:
  assumes "time_crate_ok tc" "tc_date_ok tc y m d" "0 \<le> y"
  shows "parse_ymd tc (format_date (y, m, d)) = Some (Inr (y, m, d))" "length (format_date (y, m, d)) = 10"
proof -
  have bounds: "y \<le> 9999" "m < 100" "d < 100" using time_crate_bounds(1) [OF assms(1,2)] by auto
  obtain a b c e where yy: "pad_int 4 y = [a, b, c, e]" "all_digits [a, b, c, e]" "int (undecimal [a, b, c, e]) = y"
    using pad_year [OF assms(3) bounds(1)] .
  obtain f g where mm: "pad 2 m = [f, g]" "all_digits [f, g]" "undecimal [f, g] = m" using pad_two [OF bounds(2)] .
  obtain h i where dd: "pad 2 d = [h, i]" "all_digits [h, i]" "undecimal [h, i] = d" using pad_two [OF bounds(3)] .
  show "parse_ymd tc (format_date (y, m, d)) = Some (Inr (y, m, d))"
    using parse_ymd_digits [of a b c e f g h i tc] yy mm dd assms(2) bounds by (simp add: u8_max_def)
  show "length (format_date (y, m, d)) = 10" using yy mm dd by simp
qed

lemma plain_date: "0 \<le> y \<Longrightarrow> plain (format_date (y, m, d))"
  by (simp add: pad_int_def plain_digits)

lemma parse_fixed_time:
  assumes "time_crate_ok tc" "tc_time_ok tc h mi s n"
    and "frac = [] \<and> n = 0 \<or> frac = CHR ''.'' # t \<and> all_digits t \<and> parse_subsecond t = Inr n"
  shows "parse_hms tc (pad 2 h @ '':'' @ pad 2 mi @ '':'' @ pad 2 s @ frac) = Some (Inr (h, mi, s, n))"
    and "plain (pad 2 h @ '':'' @ pad 2 mi @ '':'' @ pad 2 s @ frac)"
    and "8 \<le> length (pad 2 h @ '':'' @ pad 2 mi @ '':'' @ pad 2 s @ frac)"
proof -
  have bounds: "h < 100" "mi < 100" "s < 100" using time_crate_bounds(2) [OF assms(1,2)] by auto
  obtain a b where hh: "pad 2 h = [a, b]" "all_digits [a, b]" "undecimal [a, b] = h" using pad_two [OF bounds(1)] .
  obtain c d where mm: "pad 2 mi = [c, d]" "all_digits [c, d]" "undecimal [c, d] = mi" using pad_two [OF bounds(2)] .
  obtain e f where ss: "pad 2 s = [e, f]" "all_digits [e, f]" "undecimal [e, f] = s" using pad_two [OF bounds(3)] .
  show "parse_hms tc (pad 2 h @ '':'' @ pad 2 mi @ '':'' @ pad 2 s @ frac) = Some (Inr (h, mi, s, n))"
    using parse_hms_digits [of a b c d e f frac n t tc] hh mm ss assms(2,3) bounds by (simp add: u8_max_def)
  show "plain (pad 2 h @ '':'' @ pad 2 mi @ '':'' @ pad 2 s @ frac)"
    using hh mm ss assms(3) plain_digits by auto
  show "8 \<le> length (pad 2 h @ '':'' @ pad 2 mi @ '':'' @ pad 2 s @ frac)" using hh mm ss by simp
qed

text \<open>Any text made of a written date, a \<open>T\<close> and the text of a time reads as that date and that time.\<close>

lemma parse_wall_clock_parts:
  assumes "time_crate_ok tc" "tc_date_ok tc y m d" "0 \<le> y"
    and "parse_hms tc hms = Some (Inr t)" "plain hms" "8 \<le> length hms"
  shows "parse_wall_clock tc (format_date (y, m, d) @ CHR ''T'' # hms) = Some (Inr ((y, m, d), t))"
proof -
  let ?d = "format_date (y, m, d)"
  have d: "parse_ymd tc ?d = Some (Inr (y, m, d))" "length ?d = 10" using parse_format_date [OF assms(1-3)] by simp_all
  have "plain (?d @ CHR ''T'' # hms)" using plain_date [OF assms(3)] assms(5) by (simp del: format_date.simps)
  then have "slice (?d @ CHR ''T'' # hms) 0 10 = Some ?d" "slice_from (?d @ CHR ''T'' # hms) 11 = Some hms"
    using d(2) by (simp_all add: plain_slice slice_from_def del: format_date.simps)
  then show ?thesis using d assms(4,6) by (simp add: parse_wall_clock_def nth_append del: format_date.simps)
qed

lemma format_wall_clock_parts:
  "format_wall_clock ((y, m, d), (h, mi, s, n)) = format_date (y, m, d) @ CHR ''T'' #
     (pad 2 h @ '':'' @ pad 2 mi @ '':'' @ pad 2 s @ (if n \<noteq> 0 then ''.'' @ trim_zeros (pad 9 n) else []))"
  "format_wall_clock_fixed ((y, m, d), (h, mi, s, n)) = format_date (y, m, d) @ CHR ''T'' #
     (pad 2 h @ '':'' @ pad 2 mi @ '':'' @ pad 2 s @ ''.'' @ pad 9 n)"
  by simp_all

lemma parse_format_wall_clock:
  assumes "time_crate_ok tc" "date_time_ok tc ((y, m, d), c)" "0 \<le> y"
  shows "parse_wall_clock tc (format_wall_clock ((y, m, d), c)) = Some (Inr ((y, m, d), c))"
proof -
  obtain h mi s n where c: "c = (h, mi, s, n)" using prod_cases4 by blast
  then have ok: "tc_date_ok tc y m d" "tc_time_ok tc h mi s n" using assms(2) by simp_all
  have n: "n < 10 ^ 9" using time_crate_bounds(2) [OF assms(1) ok(2)] by simp
  let ?frac = "if n \<noteq> 0 then ''.'' @ trim_zeros (pad 9 n) else []"
  have "?frac = [] \<and> n = 0 \<or> ?frac = CHR ''.'' # trim_zeros (pad 9 n) \<and> all_digits (trim_zeros (pad 9 n)) \<and>
      parse_subsecond (trim_zeros (pad 9 n)) = Inr n"
    using trim_zeros_reads [of n] n by simp
  from parse_wall_clock_parts [OF assms(1) ok(1) assms(3) parse_fixed_time [OF assms(1) ok(2) this]]
  show ?thesis by (simp only: c format_wall_clock_parts)
qed

lemma parse_format_fixed:
  assumes "time_crate_ok tc" "date_time_ok tc ((y, m, d), c)" "0 \<le> y"
  shows "parse_wall_clock tc (format_wall_clock_fixed ((y, m, d), c)) = Some (Inr ((y, m, d), c))"
proof -
  obtain h mi s n where c: "c = (h, mi, s, n)" using prod_cases4 by blast
  then have ok: "tc_date_ok tc y m d" "tc_time_ok tc h mi s n" using assms(2) by simp_all
  have n: "n < 10 ^ 9" using time_crate_bounds(2) [OF assms(1) ok(2)] by simp
  have "parse_subsecond (pad 9 n) = Inr n" using pad_length [OF _ n] by (simp add: parse_subsecond_def Let_def)
  then have "''.'' @ pad 9 n = [] \<and> n = 0 \<or>
      ''.'' @ pad 9 n = CHR ''.'' # pad 9 n \<and> all_digits (pad 9 n) \<and> parse_subsecond (pad 9 n) = Inr n"
    by simp
  from parse_wall_clock_parts [OF assms(1) ok(1) assms(3) parse_fixed_time [OF assms(1) ok(2) this]]
  show ?thesis by (simp only: c format_wall_clock_parts)
qed

section \<open>The sortable form\<close>

fun components :: "date_time \<Rightarrow> int list" where
  "components ((y, m, d), (h, mi, s, n)) = [y, int m, int d, int h, int mi, int s, int n]"

lemma append_less_iff:
  fixes s t s' t' :: "'a :: linorder list"
  shows "length s = length s' \<Longrightarrow> s @ t < s' @ t' \<longleftrightarrow> s < s' \<or> s = s' \<and> t < t'"
  by (induction s s' rule: list_induct2) auto

lemma pad_append_less:
  assumes "0 < w" "m < 10 ^ w" "n < 10 ^ w"
  shows "pad w m @ s < pad w n @ t \<longleftrightarrow> m < n \<or> m = n \<and> s < t"
  using append_less_iff [of "pad w m" "pad w n" s t] pad_less_iff [OF assms] pad_inject [of w m n] assms
  by (auto simp: pad_length)

lemma sortable_order:
  assumes "time_crate_ok tc" "date_time_ok tc a" "date_time_ok tc b" "0 \<le> fst (fst a)" "0 \<le> fst (fst b)"
  shows "to_sortable_string a < to_sortable_string b \<longleftrightarrow> components a < components b"
proof -
  obtain y m d h mi s n where a: "a = ((y, m, d), (h, mi, s, n))" by (metis prod.exhaust)
  obtain y' m' d' h' mi' s' n' where b: "b = ((y', m', d'), (h', mi', s', n'))" by (metis prod.exhaust)
  have "- 9999 \<le> y \<and> y \<le> 9999 \<and> m < 100 \<and> d < 100" "h < 100 \<and> mi < 100 \<and> s < 100 \<and> n < 10 ^ 9"
    "- 9999 \<le> y' \<and> y' \<le> 9999 \<and> m' < 100 \<and> d' < 100" "h' < 100 \<and> mi' < 100 \<and> s' < 100 \<and> n' < 10 ^ 9"
    using time_crate_bounds [OF assms(1)] assms(2,3) unfolding a b by auto
  moreover have "pad_int 4 y = pad 4 (nat y)" "pad_int 4 y' = pad 4 (nat y')" "0 \<le> y" "0 \<le> y'"
    using assms(4,5) by (simp_all add: a b pad_int_def)
  ultimately show ?thesis unfolding a b by (auto simp: to_sortable_string_def pad_append_less)
qed

section \<open>What does not read back, and what panics\<close>

text \<open>
  A year before zero is written with its sign inside the width, which no reader of the engine accepts.
\<close>

lemma negative_year_unreadable:
  assumes "time_crate_ok tc" "date_time_ok tc ((y, m, d), c)" "y < 0"
  shows "\<exists>e. parse_wall_clock tc (format_wall_clock ((y, m, d), c)) = Some (Inl e)"
proof -
  obtain h mi s n where c: "c = (h, mi, s, n)" using prod_cases4 by blast
  then have ok: "tc_date_ok tc y m d" "tc_time_ok tc h mi s n" using assms(2) by simp_all
  have bounds: "- 9999 \<le> y" "m < 100" "d < 100" and n: "n < 10 ^ 9"
    using time_crate_bounds [OF assms(1)] ok by auto
  let ?t = "pad 2 h @ '':'' @ pad 2 mi @ '':'' @ pad 2 s @ (if n \<noteq> 0 then ''.'' @ trim_zeros (pad 9 n) else [])"
  obtain e f where mm: "pad 2 m = [e, f]" "all_digits [e, f]" using pad_two [OF bounds(2)] by metis
  obtain g i where dd: "pad 2 d = [g, i]" "all_digits [g, i]" using pad_two [OF bounds(3)] by metis
  let ?k = "nat (- y)"
  show ?thesis
  proof (cases "?k < 1000")
    case True
    then have "length (pad 3 ?k) = 3" by (intro pad_length) simp_all
    then obtain a b u where yy: "pad 3 ?k = [a, b, u]" "all_digits [a, b, u]"
      using pad_simps(1) [of 3 ?k] list_lengths(2) by metis
    let ?d = "[CHR ''-'', a, b, u, CHR ''-'', e, f, CHR ''-'', g, i]"
    have written: "format_wall_clock ((y, m, d), c) = ?d @ CHR ''T'' # ?t"
      using assms(3) yy mm dd by (simp add: c pad_int_def)
    have "plain ?d" using yy mm dd by simp
    then have "slice ?d 0 4 = Some [CHR ''-'', a, b, u]" by (simp add: plain_slice)
    then have ymd: "parse_ymd tc ?d = Some (Inl (Malformed ymd_form [CHR ''-'', a, b, u]))"
      by (simp add: parse_ymd_def digits_at_def parse_digits_def is_digit_def)
    have "plain ?t" using trim_zeros_reads(2) [of n] n by (simp add: plain_digits continuation_def)
    with \<open>plain ?d\<close> have "plain (?d @ CHR ''T'' # ?t)" by simp
    then have "slice (?d @ CHR ''T'' # ?t) 0 10 = Some ?d" by (simp add: plain_slice)
    then have "parse_wall_clock tc (?d @ CHR ''T'' # ?t) = Some (Inl (Malformed ymd_form [CHR ''-'', a, b, u])) \<or>
        parse_wall_clock tc (?d @ CHR ''T'' # ?t) =
          Some (Inl (Malformed ''date-time YYYY-MM-DDThh:mm:ss[.fff]'' (?d @ CHR ''T'' # ?t)))"
      unfolding parse_wall_clock_def by (simp add: ymd)
    then show ?thesis unfolding written by blast
  next
    case False
    have "length (pad 4 ?k) = 4" using bounds by (intro pad_length) simp_all
    moreover have "pad 3 ?k = pad 4 ?k"
    proof -
      have "3 < length (decimal ?k)"
      proof (rule ccontr)
        assume "\<not> 3 < length (decimal ?k)"
        then have "(10 :: nat) ^ length (decimal ?k) \<le> 10 ^ 3" by (intro power_increasing) simp_all
        moreover have "?k < 10 ^ length (decimal ?k)" using undecimal_less [OF decimal_digits [of ?k]] by (simp only: undecimal_decimal)
        ultimately have "?k < 10 ^ 3" by (rule order_less_le_trans [rotated])
        with False show False by simp
      qed
      then show ?thesis by (simp add: pad_def)
    qed
    ultimately obtain a b u v where yy: "pad 3 ?k = [a, b, u, v]" using list_lengths(3) by metis
    have "i \<noteq> CHR ''T''" using dd(2) by (auto simp: is_digit_def)
    then have "parse_wall_clock tc (format_wall_clock ((y, m, d), c)) =
        Some (Inl (Malformed ''date-time YYYY-MM-DDThh:mm:ss[.fff]'' (format_wall_clock ((y, m, d), c))))"
      using assms(3) yy mm dd by (simp add: c pad_int_def parse_wall_clock_def)
    then show ?thesis by blast
  qed
qed

text \<open>A text with no character of more than one byte never panics.\<close>

lemma digits_at_returns: "plain s \<Longrightarrow> a \<le> b \<Longrightarrow> b \<le> length s \<Longrightarrow> \<exists>r. digits_at s a b e = Some r"
  by (simp add: digits_at_def plain_slice)

lemma and_then_returns: "(\<And>x. r = Some (Inr x) \<Longrightarrow> \<exists>y. f x = Some y) \<Longrightarrow> r \<noteq> None \<Longrightarrow> \<exists>y. and_then r f = Some y"
  by (auto simp: and_then_def split: option.splits sum.splits)

lemma parse_ymd_returns: "plain s \<Longrightarrow> \<exists>r. parse_ymd tc s = Some r"
  using digits_at_returns [of s] unfolding parse_ymd_def
  by (auto intro!: and_then_returns)

lemma parse_hms_returns: "plain s \<Longrightarrow> \<exists>r. parse_hms tc s = Some r"
  using digits_at_returns [of s] unfolding parse_hms_def
  by (auto intro!: and_then_returns simp: slice_from_def plain_slice)

lemma parse_wall_clock_returns: "plain s \<Longrightarrow> \<exists>r. parse_wall_clock tc s = Some r"
  using parse_ymd_returns [OF plain_sub [of s 10 0], of tc] parse_hms_returns [OF plain_sub [of s "length s" 11], of tc]
  unfolding parse_wall_clock_def
  by (auto intro!: and_then_returns simp: slice_from_def plain_slice)

section \<open>Durations\<close>

definition duration_display :: "duration \<Rightarrow> string" where
  "duration_display d =
     (if duration_is_zero d then ''PT0S''
      else ''P'' @ (if 0 < dur_days d then decimal (dur_days d) @ ''D'' else []) @
        (if 0 < dur_seconds d \<or> 0 < dur_nanoseconds d then
           let h = dur_seconds d div 3600; m = dur_seconds d mod 3600 div 60; s = dur_seconds d mod 60 in
           ''T'' @ (if 0 < h then decimal h @ ''H'' else []) @ (if 0 < m then decimal m @ ''M'' else []) @
           (if 0 < s \<or> 0 < dur_nanoseconds d then
              decimal s @ (if 0 < dur_nanoseconds d then ''.'' @ trim_zeros (pad 9 (dur_nanoseconds d)) else []) @ ''S''
            else [])
         else []))"

definition parse_uint :: "string \<Rightarrow> (time_error, nat) result" where
  "parse_uint s =
     (if s = [] \<or> \<not> all_digits s then Inl (Malformed ''duration number'' s)
      else if undecimal s \<le> u64_max then Inr (undecimal s) else Inl OutOfRange)"

definition is_alphabetic :: "char \<Rightarrow> bool" where
  "is_alphabetic c \<longleftrightarrow> 65 \<le> (of_char c :: nat) \<and> (of_char c :: nat) \<le> 90 \<or>
     97 \<le> (of_char c :: nat) \<and> (of_char c :: nat) \<le> 122"

definition duration_malformed :: "string \<Rightarrow> time_error" where
  "duration_malformed s = Malformed ''ISO 8601 duration'' s"

text \<open>\<open>split_unit\<close>: the number before the first letter, the letter, and the rest.\<close>

definition split_unit :: "string \<Rightarrow> (time_error, string \<times> char \<times> string) result" where
  "split_unit s = (case dropWhile (\<lambda>c. \<not> is_alphabetic c) s of
      [] \<Rightarrow> Inl (duration_malformed s)
    | unit # tail \<Rightarrow> Inr (takeWhile (\<lambda>c. \<not> is_alphabetic c) s, unit, tail))"

lemma split_unit_shorter: "split_unit s = Inr (num, unit, tail) \<Longrightarrow> length tail < length s"
  using length_dropWhile_le [of "\<lambda>c. \<not> is_alphabetic c" s]
  by (auto simp: split_unit_def split: list.splits)

text \<open>The order of a unit; \<open>last_order\<close> starts below every one, here at zero.\<close>

fun date_order :: "char \<Rightarrow> nat option" where
  "date_order c = (if c = CHR ''W'' then Some 1 else if c = CHR ''D'' then Some 2 else None)"

fun time_order :: "char \<Rightarrow> nat option" where
  "time_order c = (if c = CHR ''H'' then Some 1 else if c = CHR ''M'' then Some 2 else if c = CHR ''S'' then Some 3 else None)"

function date_units_loop :: "string \<Rightarrow> string \<Rightarrow> nat \<Rightarrow> nat \<times> nat \<Rightarrow> (time_error, nat \<times> nat) result" where
  "date_units_loop s rest last_order (weeks, days) =
     (if rest = [] then Inr (weeks, days)
      else case split_unit rest of
        Inl e \<Rightarrow> Inl e
      | Inr (num, unit, tail) \<Rightarrow>
          (case date_order unit of
             None \<Rightarrow> Inl (duration_malformed s)
           | Some order \<Rightarrow>
               (if order \<le> last_order then Inl (duration_malformed s)
                else case parse_uint num of
                  Inl e \<Rightarrow> Inl e
                | Inr value \<Rightarrow> date_units_loop s tail order
                    (if unit = CHR ''W'' then (value, days) else (weeks, value)))))"
  by pat_completeness auto

termination
  by (relation "measure (\<lambda>(s, rest, _). length rest)") (auto dest: split_unit_shorter)

declare date_units_loop.simps [simp del]

definition parse_date_units :: "string \<Rightarrow> (time_error, nat \<times> nat) result" where
  "parse_date_units s = date_units_loop s s 0 (0, 0)"

definition split_once :: "char \<Rightarrow> string \<Rightarrow> (string \<times> string) option" where
  "split_once c s = (if c \<in> set s then Some (takeWhile (\<lambda>x. x \<noteq> c) s, tl (dropWhile (\<lambda>x. x \<noteq> c) s)) else None)"

text \<open>The seconds of a duration, with their fraction.\<close>

definition parse_seconds :: "string \<Rightarrow> (time_error, nat \<times> nat) result" where
  "parse_seconds num =
     (let (whole, frac) = (case split_once CHR ''.'' num of None \<Rightarrow> (num, None) | Some (w, f) \<Rightarrow> (w, Some f)) in
      case parse_uint whole of
        Inl e \<Rightarrow> Inl e
      | Inr seconds \<Rightarrow>
          (case frac of
             None \<Rightarrow> Inr (seconds, 0)
           | Some f \<Rightarrow> (case parse_subsecond f of Inl e \<Rightarrow> Inl e | Inr nanos \<Rightarrow> Inr (seconds, nanos))))"

function time_units_loop ::
  "string \<Rightarrow> string \<Rightarrow> nat \<Rightarrow> nat \<times> nat \<times> nat \<times> nat \<Rightarrow> (time_error, nat \<times> nat \<times> nat \<times> nat) result" where
  "time_units_loop s rest last_order (hours, minutes, seconds, nanos) =
     (if rest = [] then Inr (hours, minutes, seconds, nanos)
      else case split_unit rest of
        Inl e \<Rightarrow> Inl e
      | Inr (num, unit, tail) \<Rightarrow>
          (case time_order unit of
             None \<Rightarrow> Inl (duration_malformed s)
           | Some order \<Rightarrow>
               (if order \<le> last_order then Inl (duration_malformed s)
                else if unit = CHR ''S'' then
                  (case parse_seconds num of
                     Inl e \<Rightarrow> Inl e
                   | Inr (sec, ns) \<Rightarrow> time_units_loop s tail order (hours, minutes, sec, ns))
                else (case parse_uint num of
                     Inl e \<Rightarrow> Inl e
                   | Inr value \<Rightarrow> time_units_loop s tail order
                       (if unit = CHR ''H'' then (value, minutes, seconds, nanos) else (hours, value, seconds, nanos))))))"
  by pat_completeness auto

termination
  by (relation "measure (\<lambda>(s, rest, _). length rest)") (auto dest: split_unit_shorter)

declare time_units_loop.simps [simp del]

definition parse_time_units :: "string \<Rightarrow> (time_error, nat \<times> nat \<times> nat \<times> nat) result" where
  "parse_time_units s = time_units_loop s s 0 (0, 0, 0, 0)"

definition duration_from_str :: "string \<Rightarrow> (time_error, duration) result" where
  "duration_from_str s = (case s of
      [] \<Rightarrow> Inl (duration_malformed s)
    | p # rest \<Rightarrow>
        (if p \<noteq> CHR ''P'' \<or> rest = [] then Inl (duration_malformed s)
         else case split_once CHR ''T'' rest of
           Some (_, []) \<Rightarrow> Inl (duration_malformed s)
         | split \<Rightarrow>
             (let (date_part, time_part) = (case split of None \<Rightarrow> (rest, None) | Some (d, t) \<Rightarrow> (d, Some t)) in
              case parse_date_units date_part of
                Inl e \<Rightarrow> Inl e
              | Inr (weeks, days) \<Rightarrow>
                  (case (case time_part of None \<Rightarrow> Inr (0, 0, 0, 0) | Some t \<Rightarrow> parse_time_units t) of
                     Inl e \<Rightarrow> Inl e
                   | Inr (hours, minutes, seconds, nanos) \<Rightarrow>
                       (case duration_from_parts weeks days hours minutes seconds nanos of
                          None \<Rightarrow> Inl OutOfRange
                        | Some d \<Rightarrow> Inr d)))))"

lemma digit_not_alphabetic [simp]: "is_digit c \<Longrightarrow> \<not> is_alphabetic c"
  by (simp add: is_digit_def is_alphabetic_def)

lemma unit_letters [simp]:
  "is_alphabetic CHR ''D''" "is_alphabetic CHR ''H''" "is_alphabetic CHR ''M''" "is_alphabetic CHR ''S''"
  "\<not> is_alphabetic CHR ''.''"
  by (simp_all add: is_alphabetic_def)

lemma split_unit_token:
  assumes "\<forall>c \<in> set num. \<not> is_alphabetic c" "is_alphabetic u"
  shows "split_unit (num @ u # rest) = Inr (num, u, rest)"
  using assms by (simp add: split_unit_def dropWhile_append3 takeWhile_append2)

lemma all_digits_set: "all_digits s \<Longrightarrow> c \<in> set s \<Longrightarrow> is_digit c"
  by (simp add: all_digits_def list_all_iff)

lemma decimal_token: "is_alphabetic u \<Longrightarrow> split_unit (decimal n @ u # rest) = Inr (decimal n, u, rest)"
  by (intro split_unit_token ballI) (auto dest: all_digits_set [OF decimal_digits])

lemma parse_uint_decimal [simp]: "n \<le> u64_max \<Longrightarrow> parse_uint (decimal n) = Inr n"
  by (simp add: parse_uint_def)

lemma no_point_in_digits: "all_digits s \<Longrightarrow> CHR ''.'' \<notin> set s" "all_digits s \<Longrightarrow> CHR ''T'' \<notin> set s"
  by (auto dest!: all_digits_set simp: is_digit_def)

lemma split_once_found: "c \<notin> set a \<Longrightarrow> split_once c (a @ c # b) = Some (a, b)"
  by (induction a) (auto simp: split_once_def)

lemma split_once_none: "c \<notin> set a \<Longrightarrow> split_once c a = None"
  by (simp add: split_once_def)

definition seconds_text :: "nat \<Rightarrow> nat \<Rightarrow> string" where
  "seconds_text s n = decimal s @ (if 0 < n then CHR ''.'' # trim_zeros (pad 9 n) else [])"

lemma parse_seconds_text:
  assumes "s \<le> u64_max" "n < 10 ^ 9"
  shows "parse_seconds (seconds_text s n) = Inr (s, n)"
proof -
  have dot: "CHR ''.'' \<notin> set (decimal s)" by (rule no_point_in_digits(1) [OF decimal_digits])
  show ?thesis
    using trim_zeros_reads(1) [of n] assms
    by (simp add: seconds_text_def parse_seconds_def split_once_found [OF dot] split_once_none [OF dot])
qed

lemma seconds_token:
  assumes "n < 10 ^ 9"
  shows "split_unit (seconds_text s n @ CHR ''S'' # rest) = Inr (seconds_text s n, CHR ''S'', rest)"
proof (intro split_unit_token ballI)
  fix c assume "c \<in> set (seconds_text s n)"
  then have "c = CHR ''.'' \<or> is_digit c"
    using all_digits_set [OF decimal_digits] all_digits_set [OF trim_zeros_reads(2)] assms
    by (auto simp: seconds_text_def split: if_splits)
  then show "\<not> is_alphabetic c" by auto
qed simp

lemma date_units_days: "d \<le> u64_max \<Longrightarrow> date_units_loop s (decimal d @ ''D'') 0 (0, 0) = Inr (0, d)"
  using decimal_token [of "CHR ''D''" d "[]"] by (simp add: date_units_loop.simps)

lemma time_units_steps:
  "k < 1 \<Longrightarrow> h \<le> u64_max \<Longrightarrow> time_units_loop s (decimal h @ CHR ''H'' # rest) k (h', m, sec, n) = time_units_loop s rest 1 (h, m, sec, n)"
  "k < 2 \<Longrightarrow> m \<le> u64_max \<Longrightarrow> time_units_loop s (decimal m @ CHR ''M'' # rest) k (h, m', sec, n) = time_units_loop s rest 2 (h, m, sec, n)"
  "k < 3 \<Longrightarrow> sec \<le> u64_max \<Longrightarrow> n < 10 ^ 9 \<Longrightarrow>
     time_units_loop s (seconds_text sec n @ CHR ''S'' # rest) k (h, m, sec', n') = time_units_loop s rest 3 (h, m, sec, n)"
  by (subst time_units_loop.simps, simp add: decimal_token)
    (subst time_units_loop.simps, simp add: decimal_token,
     subst time_units_loop.simps, simp add: seconds_token parse_seconds_text)

lemma time_units_end: "time_units_loop s [] k acc = Inr acc"
  by (cases acc) (simp add: time_units_loop.simps)

definition time_text :: "nat \<Rightarrow> nat \<Rightarrow> nat \<Rightarrow> nat \<Rightarrow> string" where
  "time_text h m s n = (if 0 < h then decimal h @ CHR ''H'' # [] else []) @ (if 0 < m then decimal m @ CHR ''M'' # [] else []) @
     (if 0 < s \<or> 0 < n then seconds_text s n @ CHR ''S'' # [] else [])"

lemma parse_time_text:
  assumes "h \<le> u64_max" "m \<le> u64_max" "s \<le> u64_max" "n < 10 ^ 9"
  shows "parse_time_units (time_text h m s n) = Inr (h, m, s, n)"
proof -
  have hour: "time_units_loop t ((if 0 < h then decimal h @ CHR ''H'' # [] else []) @ rest) 0 (0, 0, 0, 0) =
      time_units_loop t rest (if 0 < h then 1 else 0) (h, 0, 0, 0)" for t rest
    using time_units_steps(1) [of 0 h t rest] assms by simp
  have minute: "time_units_loop t ((if 0 < m then decimal m @ CHR ''M'' # [] else []) @ rest) k (h, 0, 0, 0) =
      time_units_loop t rest (if 0 < m then 2 else k) (h, m, 0, 0)" if "k < 2" for k t rest
    using time_units_steps(2) [of k m t rest] that assms by simp
  have second: "time_units_loop t (if 0 < s \<or> 0 < n then seconds_text s n @ CHR ''S'' # [] else []) k (h, m, 0, 0) =
      Inr (h, m, s, n)" if "k < 3" for k t
    using time_units_steps(3) [of k s n t "[]"] that assms by (simp add: time_units_end)
  show ?thesis
    unfolding parse_time_units_def time_text_def
    by (subst hour, subst minute, simp, rule second, simp)
qed

lemma duration_display_text:
  assumes "\<not> duration_is_zero d"
  shows "duration_display d = ''P'' @ (if 0 < dur_days d then decimal (dur_days d) @ ''D'' else []) @
    (if 0 < dur_seconds d \<or> 0 < dur_nanoseconds d
     then CHR ''T'' # time_text (dur_seconds d div 3600) (dur_seconds d mod 3600 div 60) (dur_seconds d mod 60) (dur_nanoseconds d)
     else [])"
  using assms by (simp add: duration_display_def time_text_def seconds_text_def Let_def)

lemma split_seconds: "3600 * (t div 3600) + 60 * (t mod 3600 div 60) + t mod 60 = (t :: nat)"
proof -
  have "t mod 60 = t mod 3600 mod 60" by (simp add: mod_mod_cancel)
  then show ?thesis using mult_div_mod_eq [of 3600 t] mult_div_mod_eq [of 60 "t mod 3600"] by linarith
qed

lemma duration_from_parts_split:
  assumes "dur_ok d"
  shows "duration_from_parts 0 (dur_days d) (dur_seconds d div 3600) (dur_seconds d mod 3600 div 60) (dur_seconds d mod 60)
    (dur_nanoseconds d) = Some d"
  using assms split_seconds [of "dur_seconds d"]
  by (simp add: duration_from_parts_def checked_mul_u64_def checked_add_u64_def dur_ok_def mult.commute)

lemma time_text_not_Nil: "0 < t \<or> 0 < n \<Longrightarrow> time_text (t div 3600) (t mod 3600 div 60) (t mod 60) n \<noteq> []"
  using split_seconds [of t] by (auto simp: time_text_def)

lemma parse_duration_display:
  assumes "dur_ok d"
  shows "duration_from_str (duration_display d) = Inr d"
proof (cases "duration_is_zero d")
  case True
  then have zero: "d = duration_zero" by (simp add: duration_is_zero_def duration_zero_def)
  have "decimal 0 = ''0''" using digit_of_value [of "CHR ''0''"] by (simp add: decimal.simps)
  then have "parse_time_units ''0S'' = Inr (0, 0, 0, 0)"
    using time_units_steps(3) [of 0 0 0 "''0S''" "[]" 0 0 0 0] by (simp add: parse_time_units_def seconds_text_def time_units_end)
  moreover have "split_once CHR ''T'' ''T0S'' = Some ([], ''0S'')" using split_once_found [of "CHR ''T''" "[]"] by simp
  ultimately show ?thesis
    by (simp add: zero duration_display_def duration_is_zero_def duration_from_str_def parse_date_units_def
        date_units_loop.simps duration_zero_def duration_from_parts_def checked_mul_u64_def checked_add_u64_def)
next
  case False
  let ?dd = "if 0 < dur_days d then decimal (dur_days d) @ ''D'' else []"
  let ?tt = "time_text (dur_seconds d div 3600) (dur_seconds d mod 3600 div 60) (dur_seconds d mod 60) (dur_nanoseconds d)"
  have bounds: "dur_days d \<le> u64_max" "dur_seconds d div 3600 \<le> u64_max" "dur_seconds d mod 3600 div 60 \<le> u64_max"
    "dur_seconds d mod 60 \<le> u64_max" "dur_nanoseconds d < 10 ^ 9"
    using assms by (auto simp: dur_ok_def intro: le_trans [OF div_le_dividend] le_trans [OF mod_less_eq_dividend]
        le_trans [OF le_trans [OF div_le_dividend mod_less_eq_dividend]])
  have days: "parse_date_units ?dd = Inr (0, dur_days d)"
    using date_units_days [OF bounds(1)] by (simp add: parse_date_units_def date_units_loop.simps)
  have noT: "CHR ''T'' \<notin> set ?dd" using no_point_in_digits(2) [OF decimal_digits] by simp
  show ?thesis
  proof (cases "0 < dur_seconds d \<or> 0 < dur_nanoseconds d")
    case True
    have "split_once CHR ''T'' (?dd @ CHR ''T'' # ?tt) = Some (?dd, ?tt)" by (rule split_once_found [OF noT])
    then show ?thesis
      using False True time_text_not_Nil [OF True] days parse_time_text [OF bounds(2-5)] duration_from_parts_split [OF assms]
      by (auto simp: duration_display_text duration_from_str_def split: list.splits)
  next
    case timeless: False
    with False have "0 < dur_days d" by (simp add: duration_is_zero_def)
    then show ?thesis
      using False timeless days noT duration_from_parts_split [OF assms]
      by (simp add: duration_display_text duration_from_str_def split_once_none)
  qed
qed

end
