(* ===== verification/Window_Cursor.thy ===== *)
theory Window_Cursor
  imports Time_Text Ids_Scopes
begin

text \<open>
  The depth window of a mail sync (\<open>engine-core/src/sync/window.rs\<close>) and the date floor stored with an email
  cursor (\<open>engine-sync/src/window_cursor.rs\<close>). Reading a stored cursor can panic only where reading a date
  can, so \<open>None\<close> is that panic.
\<close>

section \<open>Windows\<close>

record sync_window =
  sw_since :: "date option"

definition window_full :: sync_window where "window_full = \<lparr>sw_since = None\<rparr>"

definition window_since :: "date \<Rightarrow> sync_window" where "window_since d = \<lparr>sw_since = Some d\<rparr>"

definition is_bounded :: "sync_window \<Rightarrow> bool" where "is_bounded w \<longleftrightarrow> sw_since w \<noteq> None"

text \<open>Dates compare by year, month and day.\<close>

fun date_list :: "date \<Rightarrow> int list" where
  "date_list (y, m, d) = [y, int m, int d]"

definition date_ge :: "date \<Rightarrow> date \<Rightarrow> bool" where
  "date_ge a b \<longleftrightarrow> date_list b \<le> date_list a"

text \<open>\<open>admits\<close>, given the year, month and day of an instant (\<open>ymd\<close>), which the \<open>time\<close> crate computes.\<close>

definition admits :: "time_crate \<Rightarrow> (instant \<Rightarrow> date) \<Rightarrow> sync_window \<Rightarrow> instant option \<Rightarrow> bool" where
  "admits tc ymd w date = (case (sw_since w, date) of
      (Some floor, Some t) \<Rightarrow> (case ymd t of (y, m, d) \<Rightarrow> tc_date_ok tc y m d \<and> date_ge (y, m, d) floor)
    | _ \<Rightarrow> True)"

section \<open>The floor stored with a cursor\<close>

definition since_prefix :: string where "since_prefix = ''since=''"

definition floor_end :: char where "floor_end = CHR 0x0A"

definition strip_prefix :: "string \<Rightarrow> string \<Rightarrow> string option" where
  "strip_prefix p s = (if take (length p) s = p then Some (drop (length p) s) else None)"

definition split_cursor :: "time_crate \<Rightarrow> sync_state \<Rightarrow> (date option \<times> sync_state) option" where
  "split_cursor tc stored =
     (case Option.bind (strip_prefix since_prefix stored) (split_once floor_end) of
        None \<Rightarrow> Some (None, stored)
      | Some (floor, cursor) \<Rightarrow>
          (case parse_ymd tc floor of
             None \<Rightarrow> None
           | Some (Inl _) \<Rightarrow> Some (None, stored)
           | Some (Inr f) \<Rightarrow> Some (Some f, cursor)))"

definition covers :: "date option \<Rightarrow> date option \<Rightarrow> bool" where
  "covers asked fetched = (case (asked, fetched) of
      (_, None) \<Rightarrow> True
    | (None, Some _) \<Rightarrow> False
    | (Some a, Some f) \<Rightarrow> date_ge a f)"

definition resume :: "time_crate \<Rightarrow> sync_state option \<Rightarrow> sync_window \<Rightarrow> sync_state option option" where
  "resume tc stored window = (case stored of
      None \<Rightarrow> Some None
    | Some s \<Rightarrow> map_option (\<lambda>(floor, cursor). if covers (sw_since window) floor then Some cursor else None)
        (split_cursor tc s))"

definition stamp :: "sync_state \<Rightarrow> sync_window \<Rightarrow> sync_state" where
  "stamp cursor window = (case sw_since window of
      None \<Rightarrow> cursor
    | Some floor \<Rightarrow> since_prefix @ format_date floor @ [floor_end] @ cursor)"

section \<open>Stamping and resuming\<close>

definition floor_ok :: "time_crate \<Rightarrow> date \<Rightarrow> bool" where
  "floor_ok tc f = (case f of (y, m, d) \<Rightarrow> tc_date_ok tc y m d \<and> 0 \<le> y)"

lemma format_date_line:
  assumes "time_crate_ok tc" "floor_ok tc f"
  shows "floor_end \<notin> set (format_date f)" "parse_ymd tc (format_date f) = Some (Inr f)"
proof -
  obtain y m d where f: "f = (y, m, d)" "tc_date_ok tc y m d" "0 \<le> y"
    using assms(2) by (auto simp: floor_ok_def split: prod.splits)
  show "parse_ymd tc (format_date f) = Some (Inr f)" using parse_format_date(1) [OF assms(1) f(2,3)] f(1) by simp
  have "floor_end \<notin> set (pad w n)" for w n
    using all_digits_set [OF pad_simps(1)] by (fastforce simp: floor_end_def is_digit_def)
  then show "floor_end \<notin> set (format_date f)" using f by (simp add: pad_int_def) (simp add: floor_end_def)
qed

lemma split_stamped:
  assumes "time_crate_ok tc" "sw_since w = Some f" "floor_ok tc f"
  shows "split_cursor tc (stamp c w) = Some (Some f, c)"
  using format_date_line [OF assms(1,3)] split_once_found [of floor_end "format_date f" c] assms(2)
  by (simp add: split_cursor_def stamp_def strip_prefix_def del: format_date.simps)

lemma resume_stamped:
  assumes "time_crate_ok tc" "sw_since w = Some f" "floor_ok tc f"
  shows "resume tc (Some (stamp c w)) w' = Some (if covers (sw_since w') (Some f) then Some c else None)"
  using split_stamped [OF assms] by (simp add: resume_def)

end
