(* ===== verification/Message.thy ===== *)
theory Message
  imports Mem_State Window_Cursor Utf8
begin

text \<open>
  The normalized mail object (\<open>engine-core/src/mail\<close>), the two halves the store keeps it in, the rows it is
  projected into (\<open>search_index/mail.rs\<close>, \<open>mail_state.rs\<close>), and the recipients a sent message is observed to
  have (\<open>recipient.rs\<close>, \<open>people/canonical.rs\<close>).

  The blob id, MIME tree, attachments and extended properties of a message are only carried; they are the
  type variable \<open>'x\<close>. Unicode lowercasing (\<open>lower\<close>) and the IDNA mapping of a domain (\<open>idna\<close>) are parameters.
\<close>

section \<open>Messages\<close>

record email_address =
  ea_name :: "string option"
  ea_email :: string

record envelope =
  ev_message_id :: "message_id_header list"
  ev_in_reply_to :: "message_id_header list"
  ev_references :: "message_id_header list"
  ev_subject :: "string option"
  ev_from :: "email_address list"
  ev_sender :: "email_address list"
  ev_reply_to :: "email_address list"
  ev_to :: "email_address list"
  ev_cc :: "email_address list"
  ev_bcc :: "email_address list"

record 'x message =
  ms_id :: provider_key
  ms_thread :: "thread_ref option"
  ms_mailboxes :: "mailbox_id btree_set"
  ms_keywords :: "keyword btree_set"
  ms_size :: "64 word option"
  ms_received_at :: "instant option"
  ms_sent_at :: "instant option"
  ms_last_modified :: "instant option"
  ms_envelope :: envelope
  ms_preview :: "string option"
  ms_has_attachment :: bool
  ms_reply_unique_text :: "string option"
  ms_revisions :: revision_tokens
  ms_carried :: 'x

definition ms_thread_id :: "'x message \<Rightarrow> thread_id option" where
  "ms_thread_id m = map_option tf_id (ms_thread m)"

definition has_system_keyword :: "'x message \<Rightarrow> system_keyword \<Rightarrow> bool" where
  "has_system_keyword m k \<longleftrightarrow> system_as_str k \<in> set (ms_keywords m)"

definition ms_is_draft :: "'x message \<Rightarrow> bool" where
  "ms_is_draft m \<longleftrightarrow> has_system_keyword m SkDraft"

definition ms_is_unread :: "'x message \<Rightarrow> bool" where
  "ms_is_unread m \<longleftrightarrow> \<not> has_system_keyword m SkSeen \<and> \<not> ms_is_draft m"

text \<open>\<open>Memberships::new\<close>: a set of collections is never empty.\<close>

definition memberships_new :: "'a :: linorder list \<Rightarrow> 'a btree_set option" where
  "memberships_new items = (if bs_of items = [] then None else Some (bs_of items))"

section \<open>The two halves the store keeps\<close>

record 'x stored_content =
  ct_id :: provider_key
  ct_thread :: "thread_ref option"
  ct_size :: "64 word option"
  ct_received_at :: "instant option"
  ct_sent_at :: "instant option"
  ct_envelope :: envelope
  ct_preview :: "string option"
  ct_has_attachment :: bool
  ct_reply_unique_text :: "string option"
  ct_carried :: 'x

record stored_state =
  st_mailboxes :: "mailbox_id btree_set"
  st_keywords :: "keyword btree_set"
  st_thread :: "thread_ref option"
  st_revisions :: revision_tokens
  st_last_modified :: "instant option"

text \<open>\<open>MailContent::from\<close>: what the payload carries of a message.\<close>

definition mail_content :: "'x message \<Rightarrow> 'x stored_content" where
  "mail_content m = \<lparr>ct_id = ms_id m,
     ct_thread = (case ms_thread m of Some t \<Rightarrow> (if thread_is_derived t then None else Some t) | None \<Rightarrow> None),
     ct_size = ms_size m, ct_received_at = ms_received_at m, ct_sent_at = ms_sent_at m, ct_envelope = ms_envelope m,
     ct_preview = ms_preview m, ct_has_attachment = ms_has_attachment m,
     ct_reply_unique_text = ms_reply_unique_text m, ct_carried = ms_carried m\<rparr>"

definition from_parts :: "'x stored_content \<Rightarrow> stored_state \<Rightarrow> 'x message" where
  "from_parts content state = \<lparr>ms_id = ct_id content, ms_thread = opt_or (ct_thread content) (st_thread state),
     ms_mailboxes = st_mailboxes state, ms_keywords = st_keywords state, ms_size = ct_size content,
     ms_received_at = ct_received_at content, ms_sent_at = ct_sent_at content,
     ms_last_modified = st_last_modified state, ms_envelope = ct_envelope content,
     ms_preview = ct_preview content, ms_has_attachment = ct_has_attachment content,
     ms_reply_unique_text = ct_reply_unique_text content, ms_revisions = st_revisions state,
     ms_carried = ct_carried content\<rparr>"

section \<open>State changes\<close>

record mail_state =
  sx_keywords :: "keyword btree_set"
  sx_mailboxes :: "mailbox_id btree_set option"
  sx_revisions :: revision_tokens
  sx_last_modified :: "instant option"

record mail_state_change =
  mc_key :: provider_key
  mc_state :: mail_state

definition project_state_change :: "mail_state_change \<Rightarrow> mail_state_row" where
  "project_state_change ch = \<lparr>sr_key = mc_key ch, sr_flags = flags_from_keywords (sx_keywords (mc_state ch)),
     sr_keywords = sx_keywords (mc_state ch), sr_mailboxes = sx_mailboxes (mc_state ch),
     sr_revisions = sx_revisions (mc_state ch), sr_last_modified = sx_last_modified (mc_state ch)\<rparr>"

section \<open>Projection\<close>

fun join :: "string \<Rightarrow> string list \<Rightarrow> string" where
  "join sep [] = []"
| "join sep [p] = p"
| "join sep (p # q # ps) = p @ sep @ join sep (q # ps)"

definition normalize_addr :: "(string \<Rightarrow> string) \<Rightarrow> string \<Rightarrow> string" where
  "normalize_addr lower addr = lower (str_trim addr)"

definition some_list :: "'a option \<Rightarrow> 'a list" where
  "some_list x = (case x of None \<Rightarrow> [] | Some v \<Rightarrow> [v])"

definition body_text :: "'x message \<Rightarrow> string" where
  "body_text m = join '' '' (some_list (ms_preview m) @ some_list (ms_reply_unique_text m))"

definition address_words :: "email_address \<Rightarrow> string list" where
  "address_words a = filter (\<lambda>p. p \<noteq> [])
     (str_trim (ea_email a) # (case ea_name a of None \<Rightarrow> [] | Some n \<Rightarrow> [str_trim n]))"

definition address_text :: "'x message \<Rightarrow> string" where
  "address_text m = join '' '' (concat (map address_words
     (ev_from (ms_envelope m) @ ev_to (ms_envelope m) @ ev_cc (ms_envelope m))))"

definition join_nonempty :: "string list \<Rightarrow> string" where
  "join_nonempty parts = join '' '' (filter (\<lambda>p. p \<noteq> []) parts)"

definition push_addresses ::
  "(string \<Rightarrow> string) \<Rightarrow> provider_key \<Rightarrow> address_field \<Rightarrow> email_address list \<Rightarrow> mail_address_row list" where
  "push_addresses lower key field addresses =
     map (\<lambda>a. \<lparr>ar_key = key, ar_field = field, ar_addr = normalize_addr lower (ea_email a), ar_name = ea_name a\<rparr>)
       (filter (\<lambda>a. normalize_addr lower (ea_email a) \<noteq> []) addresses)"

definition project_message :: "(string \<Rightarrow> string) \<Rightarrow> 'x message \<Rightarrow> mail_projection" where
  "project_message lower m =
     (let key = ms_id m; env = ms_envelope m;
          body = join_nonempty [body_text m, address_text m];
          fields = (case ev_subject env of
                      Some subject \<Rightarrow> (if subject \<noteq> [] then [\<lparr>ff_name = ''subject'', ff_text = subject\<rparr>] else [])
                    | None \<Rightarrow> []) @
                   (if body \<noteq> [] then [\<lparr>ff_name = ''body'', ff_text = body\<rparr>] else []);
          sender = (case ev_from env of [] \<Rightarrow> None | a # _ \<Rightarrow> Some a)
      in \<lparr>mp_fts = \<lparr>fr_key = key, fr_fields = fields\<rparr>,
          mp_row = \<lparr>mr_key = key, mr_thread_id = ms_thread_id m,
            mr_message_id = (case ev_message_id env of [] \<Rightarrow> None | i # _ \<Rightarrow> Some i),
            mr_date_utc = opt_or (ms_received_at m) (ms_sent_at m), mr_flags = flags_from_keywords (ms_keywords m),
            mr_has_attachment = ms_has_attachment m, mr_size_octets = ms_size m,
            mr_from_name = Option.bind sender ea_name, mr_from_addr = map_option ea_email sender,
            mr_subject = ev_subject env, mr_preview = ms_preview m, mr_revisions = ms_revisions m,
            mr_last_modified = ms_last_modified m\<rparr>,
          mp_addresses = push_addresses lower key AfFrom (ev_from env) @ push_addresses lower key AfTo (ev_to env) @
            push_addresses lower key AfCc (ev_cc env),
          mp_memberships = map (\<lambda>b. \<lparr>mb_key = key, mb_kind = MkMailbox, mb_value = b\<rparr>) (ms_mailboxes m) @
            map (\<lambda>k. \<lparr>mb_key = key, mb_kind = MkKeyword, mb_value = k\<rparr>) (ms_keywords m),
          mp_refs = project_refs key (ev_message_id env) (ev_in_reply_to env) (ev_references env) (ms_thread m)\<rparr>)"

section \<open>Sent recipients\<close>

datatype canonical_email_error = InvalidShape | InvalidDomain string

text \<open>\<open>rsplit_once('@')\<close>.\<close>

definition rsplit_once :: "char \<Rightarrow> string \<Rightarrow> (string \<times> string) option" where
  "rsplit_once c s = (if c \<in> set s
     then Some (rev (tl (dropWhile (\<lambda>x. x \<noteq> c) (rev s))), rev (takeWhile (\<lambda>x. x \<noteq> c) (rev s))) else None)"

definition canonical_email ::
  "(string \<Rightarrow> string) \<Rightarrow> (string \<Rightarrow> (string, string) result) \<Rightarrow> string \<Rightarrow> (canonical_email_error, canonical_email) result" where
  "canonical_email lower idna value =
     (case rsplit_once CHR ''@'' (str_trim value) of
        None \<Rightarrow> Inl InvalidShape
      | Some (local, domain) \<Rightarrow>
          (if local = [] \<or> domain = [] \<or> CHR ''@'' \<in> set local then Inl InvalidShape
           else case idna domain of
             Inl e \<Rightarrow> Inl (InvalidDomain e)
           | Inr ascii \<Rightarrow> (if lower ascii = [] then Inl InvalidShape else Inr (local @ ''@'' @ lower ascii))))"

record sent_source =
  se_id :: provider_key
  se_envelope :: envelope
  se_sent_at :: "instant option"

definition source_of_message :: "'x message \<Rightarrow> sent_source" where
  "source_of_message m = \<lparr>se_id = ms_id m, se_envelope = ms_envelope m, se_sent_at = ms_sent_at m\<rparr>"

definition source_of_content :: "'x stored_content \<Rightarrow> sent_source" where
  "source_of_content c = \<lparr>se_id = ct_id c, se_envelope = ct_envelope c, se_sent_at = ct_sent_at c\<rparr>"

text \<open>\<open>entry(email).or_insert(address)\<close>: the first address of an email stays.\<close>

definition or_insert :: "'k :: linorder \<Rightarrow> 'a \<Rightarrow> ('k, 'a) btree_map \<Rightarrow> ('k, 'a) btree_map" where
  "or_insert k v m = (case map_of m k of None \<Rightarrow> bt_insert k v m | Some _ \<Rightarrow> m)"

definition observe_sent_recipients ::
  "(string \<Rightarrow> string) \<Rightarrow> (string \<Rightarrow> (string, string) result) \<Rightarrow> account_id \<Rightarrow> sent_source \<Rightarrow> mailbox_id list \<Rightarrow>
   mailbox_id btree_set \<Rightarrow> recipient_observation list" where
  "observe_sent_recipients lower idna account src mailboxes sent =
     (if \<not> list_ex (\<lambda>b. b \<in> set sent) mailboxes then []
      else
        let recipients = fold (\<lambda>a m. case canonical_email lower idna (ea_email a) of
                Inl _ \<Rightarrow> m | Inr email \<Rightarrow> or_insert email a m)
              (ev_to (se_envelope src) @ ev_cc (se_envelope src) @ ev_bcc (se_envelope src)) []
        in map (\<lambda>(email, a). \<lparr>ro_account = account, ro_source_message = se_id src, ro_email = email,
             ro_name = (case ea_name a of Some n \<Rightarrow> (if str_trim n \<noteq> [] then Some n else None) | None \<Rightarrow> None),
             ro_sent_at = se_sent_at src\<rparr>) recipients)"

end
