(* ===== verification/Message_Store.thy ===== *)
theory Message_Store
  imports Message Reads Scope_Laws
begin

text \<open>
  Messages in and out of the store: the rows a page of messages is committed with (\<open>derive_messages\<close> of
  \<open>engine-sync/src/lib.rs\<close>) and the one way back to a message, joining payloads with rows (\<open>compose\<close> of
  \<open>engine-api/src/engine/reads.rs\<close>). The lemmas show that a message committed by a page is read back, and what
  the commit may add to it: a thread the store derives.
\<close>

section \<open>Out\<close>

definition derive_messages :: "(string \<Rightarrow> string) \<Rightarrow> 'x message list \<Rightarrow> derived_write" where
  "derive_messages lower messages = fold (\<lambda>m. push_mail (project_message lower m)) messages derived_empty"

section \<open>Back\<close>

definition usize_max :: nat where "usize_max = u64_max"

text \<open>Of two rows of one key the one the provider changed later is kept.\<close>

definition keep_row ::
  "mail_list_row \<Rightarrow> (provider_key, mail_list_row) hash_map \<Rightarrow> (provider_key, mail_list_row) hash_map" where
  "keep_row row rows = (case hm_get rows (mr_key (ml_mail row)) of
      None \<Rightarrow> hm_insert (mr_key (ml_mail row)) row rows
    | Some held \<Rightarrow>
        (if mr_last_modified (ml_mail held) < mr_last_modified (ml_mail row)
         then hm_insert (mr_key (ml_mail row)) row rows else rows))"

definition thread_derived :: "thread_id \<Rightarrow> thread_ref" where
  "thread_derived t = \<lparr>tf_id = t, tf_provenance = LocallyDerived\<rparr>"

definition row_state :: "mail_list_row \<Rightarrow> mailbox_id btree_set \<Rightarrow> stored_state" where
  "row_state row mailboxes = \<lparr>st_mailboxes = mailboxes, st_keywords = bs_of (ml_keywords row),
     st_thread = map_option thread_derived (mr_thread_id (ml_mail row)),
     st_revisions = mr_revisions (ml_mail row), st_last_modified = mr_last_modified (ml_mail row)\<rparr>"

fun compose_loop :: "(provider_key, mail_list_row) hash_map \<Rightarrow> 'x stored_content list \<Rightarrow> 'x message list" where
  "compose_loop rows [] = []"
| "compose_loop rows (content # rest) = (case hm_get rows (ct_id content) of
      None \<Rightarrow> compose_loop rows rest
    | Some row \<Rightarrow>
        (case memberships_new (ml_mailboxes row) of
           None \<Rightarrow> compose_loop (hm_remove (ct_id content) rows) rest
         | Some mailboxes \<Rightarrow>
             (from_parts content (row_state row mailboxes))\<lparr>ms_has_attachment := mr_has_attachment (ml_mail row)\<rparr> #
             compose_loop (hm_remove (ct_id content) rows) rest))"

definition compose :: "account_id \<Rightarrow> 'x stored_content list \<Rightarrow> 'v inner \<Rightarrow> 'x message list" where
  "compose account content s =
     (if content = [] then []
      else compose_loop (fold keep_row (list_mail [account] (Keys (map ct_id content)) usize_max s) []) content)"

section \<open>A message is what was stored\<close>

lemma concat_map_single:
  assumes "distinct (map fst xs)" "(k, v) \<in> set xs" "\<And>j w. (j, w) \<in> set xs \<Longrightarrow> j \<noteq> k \<Longrightarrow> f (j, w) = []"
  shows "concat (map f xs) = f (k, v)"
  using assms
proof (induction xs)
  case (Cons x xs)
  have empty: "f y = []" if "y \<in> set (x # xs)" "fst y \<noteq> k" for y
    using Cons.prems(3) [of "fst y" "snd y"] that by simp
  show ?case
  proof (cases "x = (k, v)")
    case True
    then have "\<forall>y \<in> set xs. f y = []" using Cons.prems(1) empty by (metis fst_conv imageI list.set_intros(2) distinct.simps(2) list.simps(9) set_map)
    then show ?thesis using True by simp
  next
    case False
    then have "fst x \<noteq> k" using Cons.prems(1,2) by (cases x) force
    then have "f x = []" using empty [of x] by simp
    then show ?thesis using Cons.IH Cons.prems False by simp
  qed
qed simp

lemma concat_map_filter: "concat (map g (filter P xs)) = concat (map (\<lambda>x. if P x then g x else []) xs)"
  by (induction xs) simp_all

lemma filter_key_single:
  "hm_ok m \<Longrightarrow> hm_get m k = Some v \<Longrightarrow> filter (\<lambda>(j, w). j = k) m = [(k, v)]"
proof (induction m)
  case (Cons p m)
  show ?case
  proof (cases "fst p = k")
    case True
    then have "k \<notin> fst ` set m" using Cons.prems(1) by auto
    then have "filter (\<lambda>(j, w). j = k) m = []" by (force simp: filter_empty_conv)
    then show ?thesis using Cons.prems(2) True by (cases p) auto
  next
    case False
    then show ?thesis using Cons by (cases p) auto
  qed
qed simp

text \<open>What a message must be for its rows to read back: filed somewhere, under names the rows keep.\<close>

definition message_ok :: "'x message \<Rightarrow> bool" where
  "message_ok m \<longleftrightarrow> ms_mailboxes m \<noteq> [] \<and> bs_ok (ms_mailboxes m) \<and> bs_ok (ms_keywords m) \<and>
     (\<forall>b \<in> set (ms_mailboxes m). b \<noteq> []) \<and> (\<forall>k \<in> set (ms_keywords m). keyword_new k = Inr k)"

lemma bs_of_sorted: "bs_ok s \<Longrightarrow> bs_of s = s"
  by (rule bs_eqI) simp_all

lemma map_filter_keep: "(\<And>x. x \<in> set xs \<Longrightarrow> f x = Some (g x)) \<Longrightarrow> List.map_filter f xs = map g xs"
  by (induction xs) (simp_all add: List.map_filter_def)

definition message_rows :: "'x message \<Rightarrow> membership_row list" where
  "message_rows m = map (\<lambda>b. \<lparr>mb_key = ms_id m, mb_kind = MkMailbox, mb_value = b\<rparr>) (ms_mailboxes m) @
     map (\<lambda>k. \<lparr>mb_key = ms_id m, mb_kind = MkKeyword, mb_value = k\<rparr>) (ms_keywords m)"

lemma project_message_parts:
  "mp_memberships (project_message lower m) = message_rows m"
  "mr_key (mp_row (project_message lower m)) = ms_id m"
  by (simp_all add: project_message_def Let_def message_rows_def)

lemma message_rows_read:
  assumes "message_ok m" "hm_get (sc_memberships c) (ms_id m) = Some (message_rows m)"
  shows "mailboxes_of c (ms_id m) = ms_mailboxes m" "keywords_of c (ms_id m) = ms_keywords m"
proof -
  have "filter (\<lambda>r. mb_kind r = MkMailbox) (message_rows m) =
      map (\<lambda>b. \<lparr>mb_key = ms_id m, mb_kind = MkMailbox, mb_value = b\<rparr>) (ms_mailboxes m)"
    "filter (\<lambda>r. mb_kind r = MkKeyword) (message_rows m) =
      map (\<lambda>k. \<lparr>mb_key = ms_id m, mb_kind = MkKeyword, mb_value = k\<rparr>) (ms_keywords m)"
    by (simp_all add: message_rows_def filter_map comp_def)
  moreover have "List.map_filter f (map g xs) = xs" if "\<And>x. x \<in> set xs \<Longrightarrow> f (g x) = Some x" for f and g :: "string \<Rightarrow> membership_row" and xs
    using that by (induction xs) (simp_all add: List.map_filter_def)
  ultimately show "mailboxes_of c (ms_id m) = ms_mailboxes m" "keywords_of c (ms_id m) = ms_keywords m"
    using assms by (simp_all add: mailboxes_of_def keywords_of_def or_default_def message_ok_def)
qed

text \<open>The rows of a page of messages with distinct ids.\<close>

lemma derive_messages_rows:
  "dw_removed (derive_messages lower ms) = []" "dw_state_changes (derive_messages lower ms) = []"
  "dw_thread_assignments (derive_messages lower ms) = []"
  "dw_messages (derive_messages lower ms) = map (mp_row \<circ> project_message lower) ms"
  "dw_memberships (derive_messages lower ms) = concat (map message_rows ms)"
proof -
  let ?push = "\<lambda>d. fold (\<lambda>m. push_mail (project_message lower m)) ms d"
  have "dw_removed (?push d) = dw_removed d \<and> dw_state_changes (?push d) = dw_state_changes d \<and>
      dw_thread_assignments (?push d) = dw_thread_assignments d \<and>
      dw_messages (?push d) = dw_messages d @ map (mp_row \<circ> project_message lower) ms \<and>
      dw_memberships (?push d) = dw_memberships d @ concat (map message_rows ms)" for d
    by (induction ms arbitrary: d) (simp_all add: push_mail_def project_message_parts)
  from this [of derived_empty] show "dw_removed (derive_messages lower ms) = []" "dw_state_changes (derive_messages lower ms) = []"
    "dw_thread_assignments (derive_messages lower ms) = []"
    "dw_messages (derive_messages lower ms) = map (mp_row \<circ> project_message lower) ms"
    "dw_memberships (derive_messages lower ms) = concat (map message_rows ms)"
    by (simp_all add: derive_messages_def derived_empty_def)
qed

lemma filter_own:
  assumes "distinct (map ms_id ms)" "m \<in> set ms"
  shows "filter (\<lambda>r. mr_key r = ms_id m) (map (mp_row \<circ> project_message lower) ms) = [mp_row (project_message lower m)]"
    and "filter (\<lambda>r. mb_key r = ms_id m) (concat (map message_rows ms)) = message_rows m"
proof -
  have keys: "mb_key r = ms_id x" if "r \<in> set (message_rows x)" for r and x :: "'a message"
    using that by (auto simp: message_rows_def)
  have "filter (\<lambda>r. mr_key r = ms_id m) (map (mp_row \<circ> project_message lower) ms) = [mp_row (project_message lower m)] \<and>
      filter (\<lambda>r. mb_key r = ms_id m) (concat (map message_rows ms)) = message_rows m"
    using assms
  proof (induction ms)
    case (Cons x xs)
    show ?case
    proof (cases "x = m")
      case True
      then have "ms_id y \<noteq> ms_id m" if "y \<in> set xs" for y using Cons.prems(1) that by (auto simp: image_iff)
      then have "filter (\<lambda>r. mr_key r = ms_id m) (map (mp_row \<circ> project_message lower) xs) = []"
        "filter (\<lambda>r. mb_key r = ms_id m) (concat (map message_rows xs)) = []"
        using keys by (force simp: filter_empty_conv project_message_parts)+
      then show ?thesis using True keys by (simp add: project_message_parts filter_id_conv comp_def)
    next
      case False
      then have "m \<in> set xs" "ms_id x \<noteq> ms_id m" using Cons.prems by auto
      moreover from this have "filter (\<lambda>r. mb_key r = ms_id m) (message_rows x) = []"
        using keys [of _ x] by (auto simp: filter_empty_conv)
      ultimately show ?thesis using Cons by (simp add: project_message_parts comp_def)
    qed
  qed simp
  then show "filter (\<lambda>r. mr_key r = ms_id m) (map (mp_row \<circ> project_message lower) ms) = [mp_row (project_message lower m)]"
    "filter (\<lambda>r. mb_key r = ms_id m) (concat (map message_rows ms)) = message_rows m" by simp_all
qed

lemma stored_message_slice:
  assumes "hm_get (sc_messages c) (ms_id m) = None" "message_ok m" "distinct (map ms_id ms)" "m \<in> set ms"
  shows "hm_get (sc_messages (apply_derived (derive_messages lower ms) c)) (ms_id m) = Some (mp_row (project_message lower m))"
    and "hm_get (sc_memberships (apply_derived (derive_messages lower ms) c)) (ms_id m) = Some (message_rows m)"
proof -
  let ?d = "derive_messages lower ms" and ?k = "ms_id m"
  note own = filter_own [OF assms(3,4)] and rows = derive_messages_rows [of lower ms]
  have slice: "sl_message (cell_slice c ?k) = None" using assms(1) by (simp add: cell_slice_def)
  have "?k \<notin> set (dw_removed ?d)" by (simp add: rows)
  note fields = slice_apply_fields [OF this, of "cell_slice c ?k", folded cell_slice_apply_derived]
  have "mail_out ?d ?k None = Some (mp_row (project_message lower m))"
    by (simp add: mail_out_def rows own rows_thread_def rows_preview_def Let_def)
  with fields(3) slice show "hm_get (sc_messages (apply_derived ?d c)) ?k = Some (mp_row (project_message lower m))"
    by (simp add: cell_slice_def)
  have "?k \<in> mb_key ` set (dw_memberships ?d)"
  proof -
    have "message_rows m \<noteq> []" using assms(2) by (simp add: message_rows_def message_ok_def)
    then show ?thesis using own(2) unfolding rows(5) by (metis (mono_tags, lifting) filter_empty_conv image_eqI)
  qed
  then have "own_rows mb_key (dw_memberships ?d) ?k x = Some (message_rows m)" for x
    by (simp add: own_rows_def rows own)
  with fields(8) show "hm_get (sc_memberships (apply_derived ?d c)) ?k = Some (message_rows m)"
    by (simp add: cell_slice_def)
qed

text \<open>The rows under a key, the thread apart, and what keeps them.\<close>

definition key_view :: "provider_key \<Rightarrow> 'v scope_cell \<Rightarrow> bool \<times> mail_row option \<times> membership_row list option" where
  "key_view k c = (hm_ok (sc_messages c), map_option (mr_thread_id_update (\<lambda>_. None)) (hm_get (sc_messages c) k),
     hm_get (sc_memberships c) k)"

definition scope_view where
  "scope_view k scopes sc = map_option (key_view k) (hm_get scopes sc)"

lemma view_set_thread [simp]: "scope_view k (set_thread a scopes) = scope_view k scopes"
  by (rule ext) (auto simp: scope_view_def key_view_def set_thread_def option.map_comp comp_def split: prod.splits
      intro!: option.map_cong)

lemma view_threaded [simp]: "scope_view k (thread_batch scope d scopes) = scope_view k scopes"
  "hm_keys (thread_batch scope d scopes) = hm_keys scopes"
proof -
  obtain scopes' asg where a: "assign_threads scopes (scope_account scope) scope (dw_messages d) (dw_msgid_refs d) = Some scopes'"
    "scopes' = fold set_thread asg scopes" using assign_threads_returns assign_threads_writes by metis
  then show "scope_view k (thread_batch scope d scopes) = scope_view k scopes"
    "hm_keys (thread_batch scope d scopes) = hm_keys scopes"
    by (simp_all add: thread_batch_def fold_keeps [where f = "scope_view k"] fold_keeps [where f = hm_keys])
qed

lemma domI_fst: "hm_get m k = Some v \<Longrightarrow> k \<in> fst ` set m"
  by (drule map_of_SomeD) force

lemma view_show_cell: "j \<noteq> k \<Longrightarrow> key_view k (show_cell j kws c) = key_view k c"
  by (cases "hm_get (sc_messages c) j")
    (simp_all add: show_cell_def key_view_def hm_keys_update_present [OF domI_fst])

lemma view_shown:
  "(a, j) \<noteq> (scope_account sc, k) \<Longrightarrow> scope_view k (show_keywords a j kws scopes) sc = scope_view k scopes sc"
  by (cases "hm_get scopes sc") (auto simp: scope_view_def show_keywords_get view_show_cell)

text \<open>No queued change of the keywords of one message.\<close>

definition no_edits :: "'v ops \<Rightarrow> account_id \<Rightarrow> provider_key \<Rightarrow> bool" where
  "no_edits ops a k \<longleftrightarrow> (\<forall>op \<in> snd ` set ops. \<forall>e. oc_account op = a \<and> po_keyword_edit (oc_op op) = Some e \<longrightarrow> ke_key e \<noteq> k)"

lemma no_edits_listed: "no_edits ops a k \<Longrightarrow> account_edits ops a k keep = []"
  by (force simp: no_edits_def account_edits_def filter_empty_conv List.map_filter_def)

lemma no_edits_insert:
  "no_edits ops a k \<Longrightarrow> hm_get ops i = Some op \<Longrightarrow> oc_account op' = oc_account op \<Longrightarrow> oc_op op' = oc_op op \<Longrightarrow>
    no_edits (bt_insert i op' ops) a k"
proof -
  assume *: "no_edits ops a k" "hm_get ops i = Some op" "oc_account op' = oc_account op" "oc_op op' = oc_op op"
  have "set (bt_insert i op' ops) \<subseteq> insert (i, op') (set ops)"
    by (induction i op' ops rule: bt_insert.induct) auto
  moreover have "op \<in> snd ` set ops" using map_of_SomeD [OF *(2)] by force
  ultimately show ?thesis using * unfolding no_edits_def by force
qed

lemma no_edits_reconciled:
  "reconcile_loop padd now recs ops ap = (r, ops') \<Longrightarrow> no_edits ops a k \<Longrightarrow> no_edits ops' a k"
proof (induction padd now recs ops ap arbitrary: r ops' rule: reconcile_loop.induct)
  case (2 padd now rec recs ops ap)
  show ?case
  proof (cases "hm_get ops (pr_op rec)")
    case None
    with 2 show ?thesis by simp
  next
    case (Some op)
    obtain r1 op1 where r1: "(if cell_is_dead now op then cell_recover padd now op else (Inr (), op)) = (r1, op1)" by force
    have same: "oc_account op1 = oc_account op" "oc_op op1 = oc_op op"
      using r1 by (auto simp: cell_recover_def cell_record_def split: if_splits sum.splits)
    note kept = no_edits_insert [OF 2(5) Some]
    show ?thesis
    proof (cases r1)
      case (Inl e)
      with 2(4) Some r1 kept [OF same] show ?thesis by auto
    next
      case (Inr u)
      with 2 Some r1 same kept [of op1] kept [of "op1\<lparr>oc_state := Succeeded, oc_lease_expiry := None\<rparr>"]
      show ?thesis by (auto split: if_splits)
    qed
  qed
qed simp

lemma view_settled:
  assumes "no_edits (in_ops s) (scope_account sc) k"
  shows "scope_view k (in_scopes (settle_keyword_edits now s)) sc = scope_view k (in_scopes s) sc"
proof -
  have "scope_view k (in_scopes (fold settle_one xs s')) sc = scope_view k (in_scopes s') sc"
    if "\<forall>(a, e, st) \<in> set xs. (a, ke_key e) \<noteq> (scope_account sc, k)" for xs and s' :: "'a inner"
    using that
  proof (induction xs arbitrary: s')
    case (Cons x xs)
    obtain a e st where x: "x = (a, e, st)" by (cases x)
    then have "scope_view k (in_scopes (settle_one x s')) sc = scope_view k (in_scopes s') sc"
      using Cons.prems by (auto simp: settle_one_def Let_def inner_show_def view_shown split: option.splits)
    with Cons show ?case by simp
  qed simp
  moreover have "\<forall>(a, e, st) \<in> set (newly_settled_edits (in_ops s)). (a, ke_key e) \<noteq> (scope_account sc, k)"
    using assms by (force simp: newly_settled_edits_def no_edits_def List.map_filter_def)
  ultimately show ?thesis by (simp add: settle_keyword_edits_def)
qed

lemma settled_keys: "hm_keys (in_scopes (settle_keyword_edits now s)) = hm_keys (in_scopes s)"
proof -
  have "hm_keys (in_scopes (settle_one x s)) = hm_keys (in_scopes s)" for x and s :: "'a inner"
    by (auto simp: settle_one_def Let_def inner_show_def split: option.splits prod.splits)
  then show ?thesis by (simp add: settle_keyword_edits_def fold_keeps [where f = "\<lambda>s. hm_keys (in_scopes s)"])
qed

lemma synced_without_edits:
  "\<forall>k \<in> set ks. no_edits (in_ops s) a k \<Longrightarrow> keyword_edits_synced a scope ks from s = s"
  by (induction a scope ks "from" s rule: keyword_edits_synced.induct)
    (auto simp: edit_synced_one_def unsettled_edits_def no_edits_listed Let_def split: option.splits)

text \<open>What is listed under a key that one scope of the account holds.\<close>

lemma message_listed:
  assumes ok: "hm_ok (in_scopes s)" and c: "hm_get (in_scopes s) sc = Some c" and okc: "hm_ok (sc_messages c)"
    and row: "hm_get (sc_messages c) k = Some mail"
    and other: "\<And>sc' c'. hm_get (in_scopes s) sc' = Some c' \<Longrightarrow> sc' \<noteq> sc \<Longrightarrow> scope_account sc' = scope_account sc \<Longrightarrow>
      hm_get (sc_messages c') k = None"
  shows "list_mail [scope_account sc] (Keys [k]) usize_max s =
    [\<lparr>ml_account = scope_account sc, ml_mailboxes = mailboxes_of c k, ml_keywords = keywords_of c k, ml_mail = mail\<rparr>]"
proof -
  let ?f = "\<lambda>x. if scope_account (fst x) \<in> set [scope_account sc] then scope_mail_rows (Keys [k]) x else []"
  have mine: "scope_mail_rows (Keys [k]) (sc, c) =
      [\<lparr>ml_account = scope_account sc, ml_mailboxes = mailboxes_of c k, ml_keywords = keywords_of c k, ml_mail = mail\<rparr>]"
    using filter_key_single [OF okc row] by (simp add: scope_mail_rows_def)
  have "concat (map ?f (in_scopes s)) = ?f (sc, c)"
  proof (rule concat_map_single [OF ok map_of_SomeD [OF c]])
    fix j w assume jw: "(j, w) \<in> set (in_scopes s)" "j \<noteq> sc"
    from jw(1) have "hm_get (in_scopes s) j = Some w" unfolding hm_get_mem [OF ok] .
    then have "hm_get (sc_messages w) k = None" if "scope_account j = scope_account sc" using other jw(2) that by blast
    then show "?f (j, w) = []"
      by (force simp: scope_mail_rows_def filter_empty_conv map_of_eq_None_iff image_iff)
  qed
  then have "mail_rows [scope_account sc] (Keys [k]) s = scope_mail_rows (Keys [k]) (sc, c)"
    by (simp add: mail_rows_def case_prod_unfold concat_map_filter)
  then show ?thesis by (simp add: mine list_mail_def usize_max_def u64_max_def)
qed

text \<open>A message rebuilt from its payload and its row, whatever thread the row has by then.\<close>

definition shown_thread :: "'x message \<Rightarrow> thread_id option \<Rightarrow> thread_ref option" where
  "shown_thread m t = opt_or (ct_thread (mail_content m)) (map_option thread_derived t)"

lemma rebuilt_message:
  assumes "message_ok m" and row: "ml_mail row = (mp_row (project_message lower m))\<lparr>mr_thread_id := t\<rparr>"
    and boxes: "ml_mailboxes row = ms_mailboxes m" and kws: "ml_keywords row = ms_keywords m"
  shows "compose_loop [(ms_id m, row)] [mail_content m] = [m\<lparr>ms_thread := shown_thread m t\<rparr>]"
proof -
  have sets: "memberships_new (ml_mailboxes row) = Some (ms_mailboxes m)" "bs_of (ml_keywords row) = ms_keywords m"
    using assms by (auto simp: memberships_new_def message_ok_def bs_of_sorted)
  show ?thesis
    using sets
    by (simp add: row_state_def from_parts_def)
      (auto simp: mail_content_def row shown_thread_def project_message_def Let_def intro!: message.equality)
qed

lemma committed_view:
  assumes ap: "apply_sync_update padd now tr l b s = (Inr ap, s')" and d: "ab_derived b = derive_messages lower ms"
    and ok: "maps_ok (in_scopes s)" and none: "\<forall>m \<in> set ms. no_edits (in_ops s) (scope_account (sy_scope l)) (ms_id m)"
    and k: "k \<in> ms_id ` set ms"
  obtains c where "hm_get (in_scopes s) (sy_scope l) = Some c" "hm_ok (in_scopes s')"
    "hm_ok (sc_messages (cell_after tr b c))"
    "hm_get (sc_messages c) k = None \<Longrightarrow> \<exists>c1. hm_get (sc_messages c1) k = None \<and>
       cell_after tr b c = advance_cursor b (apply_derived (derive_messages lower ms) c1)"
    "\<And>sc. scope_account sc = scope_account (sy_scope l) \<Longrightarrow> scope_view k (in_scopes s') sc =
       scope_view k (hm_insert (sy_scope l) (cell_after tr b c) (in_scopes s)) sc"
  using ap
proof (cases rule: apply_sync_update_cases)
  case (applied c ap0 ap' ops s1 s2)
  let ?a = "scope_account (sy_scope l)"
  have c: "hm_get (in_scopes s) (sy_scope l) = Some c"
    using applied(1) by (auto simp: current_cell_def split: option.splits if_splits)
  then have okc: "hm_ok (sc_messages c)" "hm_ok (in_scopes s)" using ok map_of_SomeD [OF c] by (auto simp: maps_ok_def)
  have edits: "\<forall>k \<in> set (written_keys (ab_derived b)). no_edits (in_ops s1) ?a k"
    using none no_edits_reconciled [OF applied(4)] applied(5)
    by (auto simp: written_keys_def d derive_messages_rows project_message_parts)
  have s2: "s2 = s1" unfolding applied(12) by (rule synced_without_edits [OF edits])
  have "no_edits (in_ops s1) ?a k"
    using k edits by (auto simp: written_keys_def d derive_messages_rows project_message_parts)
  then have view: "scope_view k (in_scopes s') sc = scope_view k (hm_insert (sy_scope l) (cell_after tr b c) (in_scopes s)) sc"
    if "scope_account sc = ?a" for sc
    using view_settled [of s1 sc k now] that by (simp add: applied(13) s2 applied(11))
  obtain c1 where c1: "apply_update tr (ab_update b) c \<lparr>ap_upserted = 0, ap_tombstoned = 0, ap_reconciled = 0\<rparr> = (Inr ap0, c1)"
    using applied(3) by (metis prod.collapse)
  have after: "cell_after tr b c = advance_cursor b (apply_derived (derive_messages lower ms) c1)"
    by (simp add: cell_after_def c1 d)
  have "hm_get (sc_messages c1) k = None" if "hm_get (sc_messages c) k = None"
    using apply_update_ok(2) [OF c1, of k] that
    by (auto simp: cell_slice_def empty_slice_def split: if_splits)
  moreover have "hm_ok (sc_messages c1)"
  proof -
    obtain objs ks where c1': "c1 = bury ks (c\<lparr>sc_objects := objs\<rparr>)" by (rule apply_update_shape [OF c1])
    have "hm_ok (sc_messages (bury ks c0))" if "hm_ok (sc_messages c0)" for c0 :: "'a scope_cell"
      using that by (induction ks arbitrary: c0) (auto simp: bury_def tombstone_def remove_derived_def)
    then show ?thesis using okc(1) by (simp add: c1')
  qed
  moreover have "hm_ok (sc_messages (fold put_message rows c0))" if "hm_ok (sc_messages c0)" for rows and c0 :: "'a scope_cell"
    using that by (induction rows arbitrary: c0) (auto simp: put_message_def distinct_update)
  ultimately have "hm_get (sc_messages c) k = None \<longrightarrow> hm_get (sc_messages c1) k = None" "hm_ok (sc_messages (cell_after tr b c))"
    by (simp_all add: after advance_cursor_def apply_derived_def Let_def derive_messages_rows split: option.splits)
  moreover have "hm_ok (in_scopes s')"
    using okc(2) settled_keys [of now s1] by (simp add: applied(13) s2 applied(11) distinct_update)
  ultimately show thesis by (intro that [OF c _ _ _ view]) (use after in blast)+
qed auto

lemma stored_message_composed:
  assumes ap: "apply_sync_update padd now tr l b s = (Inr ap, s')" and d: "ab_derived b = derive_messages lower ms"
    and dist: "distinct (map ms_id ms)" and m: "m \<in> set ms" "message_ok m"
    and ok: "maps_ok (in_scopes s)" and none: "\<forall>m \<in> set ms. no_edits (in_ops s) (scope_account (sy_scope l)) (ms_id m)"
    and fresh: "\<And>sc c. (sc, c) \<in> set (in_scopes s) \<Longrightarrow> scope_account sc = scope_account (sy_scope l) \<Longrightarrow>
      hm_get (sc_messages c) (ms_id m) = None"
  shows "\<exists>t. compose (scope_account (sy_scope l)) [mail_content m] s' = [m\<lparr>ms_thread := shown_thread m t\<rparr>]"
proof -
  let ?sc = "sy_scope l" and ?k = "ms_id m"
  have k: "?k \<in> ms_id ` set ms" using m(1) by blast
  obtain c where c: "hm_get (in_scopes s) ?sc = Some c" "hm_ok (in_scopes s')" "hm_ok (sc_messages (cell_after tr b c))"
    "hm_get (sc_messages c) ?k = None \<Longrightarrow> \<exists>c1. hm_get (sc_messages c1) ?k = None \<and>
       cell_after tr b c = advance_cursor b (apply_derived (derive_messages lower ms) c1)"
    "\<And>sc. scope_account sc = scope_account ?sc \<Longrightarrow> scope_view ?k (in_scopes s') sc =
       scope_view ?k (hm_insert ?sc (cell_after tr b c) (in_scopes s)) sc"
    using committed_view [OF ap d ok none k] by metis
  obtain c1 where c1: "hm_get (sc_messages c1) ?k = None"
    "cell_after tr b c = advance_cursor b (apply_derived (derive_messages lower ms) c1)"
    using c(4) [OF fresh [OF map_of_SomeD [OF c(1)] refl]] by blast
  note slice = stored_message_slice [OF c1(1) m(2) dist m(1), of lower]
  have cells: "sc_messages (cell_after tr b c) = sc_messages (apply_derived (derive_messages lower ms) c1)"
    "sc_memberships (cell_after tr b c) = sc_memberships (apply_derived (derive_messages lower ms) c1)"
    by (simp_all add: c1(2) advance_cursor_def split: option.splits)
  obtain c' where c': "hm_get (in_scopes s') ?sc = Some c'" "key_view ?k c' = key_view ?k (cell_after tr b c)"
    using c(5) [of ?sc] by (auto simp: scope_view_def)
  then obtain mail where mail: "hm_get (sc_messages c') ?k = Some mail"
    "mr_thread_id_update (\<lambda>_. None) mail = mr_thread_id_update (\<lambda>_. None) (mp_row (project_message lower m))"
    and rest: "hm_ok (sc_messages c')" "hm_get (sc_memberships c') ?k = Some (message_rows m)"
    using c(3) slice cells by (auto simp: key_view_def)
  have row: "mail = (mp_row (project_message lower m))\<lparr>mr_thread_id := mr_thread_id mail\<rparr>"
    using mail(2) by (cases mail; cases "mp_row (project_message lower m)") simp
  have other: "hm_get (sc_messages c2) ?k = None"
    if "hm_get (in_scopes s') sc2 = Some c2" "sc2 \<noteq> ?sc" "scope_account sc2 = scope_account ?sc" for sc2 c2
  proof -
    from c(5) [OF that(3)] that(1,2) obtain c3 where "hm_get (in_scopes s) sc2 = Some c3" "key_view ?k c2 = key_view ?k c3"
      by (cases "hm_get (in_scopes s) sc2") (auto simp: scope_view_def)
    with fresh [OF map_of_SomeD that(3)] show ?thesis by (auto simp: key_view_def)
  qed
  let ?row = "\<lparr>ml_account = scope_account ?sc, ml_mailboxes = ms_mailboxes m, ml_keywords = ms_keywords m, ml_mail = mail\<rparr>"
  have "list_mail [scope_account ?sc] (Keys [?k]) usize_max s' = [?row]"
    using message_listed [OF c(2) c'(1) rest(1) mail(1) other] message_rows_read [OF m(2) rest(2)] by simp
  moreover have "mr_key mail = ?k" by (subst row) (simp add: project_message_parts)
  then have "fold keep_row [?row] [] = [(?k, ?row)]" by (simp add: keep_row_def)
  moreover have "ct_id (mail_content m) = ?k" by (simp add: mail_content_def)
  moreover have "compose_loop [(?k, ?row)] [mail_content m] = [m\<lparr>ms_thread := shown_thread m (mr_thread_id mail)\<rparr>]"
    by (rule rebuilt_message [OF m(2)]) (use row in simp_all)
  ultimately show ?thesis by (auto simp: compose_def)
qed

end
