(* ===== verification/Sync_Reads.thy ===== *)
theory Sync_Reads
  imports Message_Store Driver_World Mailbox_Plan
begin

text \<open>
  What a sync pass reads of the store between its writes: the account's scopes and folders, the recipients a
  page is observed to have (\<open>recipients.rs\<close>) and the sends it proves delivered (\<open>sent_copies.rs\<close>).

  A pass gets the store as \<open>StoreRead\<close> here, so it can only read. A reader is the tree of its reads; other
  workers may act before each of them. Decoding of a stored payload is a parameter.
\<close>

section \<open>Readers\<close>

datatype ('v, 'r) reader = Answer 'r | Read "instant \<Rightarrow> 'v inner \<Rightarrow> ('v, 'r) reader"

primrec rd_bind :: "('v, 'a) reader \<Rightarrow> ('a \<Rightarrow> ('v, 'b) reader) \<Rightarrow> ('v, 'b) reader" where
  "rd_bind (Answer x) f = f x"
| "rd_bind (Read q) f = Read (\<lambda>now s. rd_bind (q now s) f)"

definition rd_then ::
  "('v, (sync_error, 'a) result) reader \<Rightarrow> ('a \<Rightarrow> ('v, (sync_error, 'b) result) reader) \<Rightarrow> ('v, (sync_error, 'b) result) reader" where
  "rd_then r f = rd_bind r (\<lambda>x. case x of Inl e \<Rightarrow> Answer (Inl e) | Inr y \<Rightarrow> f y)"

primrec run_reader ::
  "pdt_add \<Rightarrow> ('o, 'v) sync_object \<Rightarrow> ('v, 'r) reader \<Rightarrow> ('v, 'o, 'p) world \<Rightarrow> 'r \<times> ('v, 'o, 'p) world" where
  "run_reader padd tr (Answer r) = (\<lambda>w. (r, w))"
| "run_reader padd tr (Read q) = (\<lambda>w.
     run_reader padd tr (q (sd_now (wd_sched w (wd_at w))) (wd_store (interfere padd tr w))) (interfere padd tr w))"

text \<open>A reader on a store nobody else touches.\<close>

primrec read_quiet :: "instant \<Rightarrow> 'v inner \<Rightarrow> ('v, 'r) reader \<Rightarrow> 'r" where
  "read_quiet now s (Answer r) = r"
| "read_quiet now s (Read q) = read_quiet now s (q now s)"

lemma read_quiet_bind [simp]: "read_quiet now s (rd_bind r f) = read_quiet now s (f (read_quiet now s r))"
  by (induction r) auto

lemma read_quiet_then [simp]:
  "read_quiet now s (rd_then r f) = (case read_quiet now s r of Inl e \<Rightarrow> Inl e | Inr y \<Rightarrow> read_quiet now s (f y))"
  by (auto simp: rd_then_def split: sum.splits)

record ('v, 'x) decoders =
  dc_mailbox :: "'v \<Rightarrow> (string, mailbox) result"
  dc_content :: "'v \<Rightarrow> (string, 'x stored_content) result"
  dc_draft_id :: "'v \<Rightarrow> message_id_header option"

section \<open>The account's scopes\<close>

text \<open>The derived order of \<open>JmapDataType\<close> and \<open>SyncScope\<close>: the variant, then its fields.\<close>

fun jmap_rank :: "jmap_data_type \<Rightarrow> nat \<times> string" where
  "jmap_rank JEmail = (0, [])"
| "jmap_rank JMailbox = (1, [])"
| "jmap_rank JThread = (2, [])"
| "jmap_rank JEmailSubmission = (3, [])"
| "jmap_rank JCalendar = (4, [])"
| "jmap_rank JCalendarEvent = (5, [])"
| "jmap_rank JAddressBook = (6, [])"
| "jmap_rank JContactCard = (7, [])"
| "jmap_rank (JOther s) = (8, s)"

fun scope_rank :: "sync_scope \<Rightarrow> nat \<times> account_id \<times> nat \<times> string" where
  "scope_rank (JmapType a t) = (0, a, jmap_rank t)"
| "scope_rank (ImapMailboxList a) = (1, a, 0, [])"
| "scope_rank (ImapMailbox a m) = (2, a, 0, m)"
| "scope_rank (DavCollectionList a) = (3, a, 0, [])"
| "scope_rank (DavCollection a c) = (4, a, 0, c)"
| "scope_rank (GraphFolderList a) = (5, a, 0, [])"
| "scope_rank (GraphFolder a f) = (6, a, 0, f)"
| "scope_rank (GraphCalendarList a) = (7, a, 0, [])"
| "scope_rank (GraphCalendar a c) = (8, a, 0, c)"
| "scope_rank (GraphContactFolderList a) = (9, a, 0, [])"
| "scope_rank (GraphContacts a b) = (10, a, 0, b)"
| "scope_rank (GraphOrgContacts a) = (11, a, 0, [])"
| "scope_rank (GraphDirectoryUsers a) = (12, a, 0, [])"
| "scope_rank (GmailMessages a) = (13, a, 0, [])"
| "scope_rank (GmailLabelList a) = (14, a, 0, [])"
| "scope_rank (GoogleCalendarList a) = (15, a, 0, [])"
| "scope_rank (GoogleCalendar a c) = (16, a, 0, c)"
| "scope_rank (GoogleContactSourceList a) = (17, a, 0, [])"
| "scope_rank (GoogleContacts a) = (18, a, 0, [])"
| "scope_rank (GoogleOtherContacts a) = (19, a, 0, [])"
| "scope_rank (GoogleDirectoryPeople a) = (20, a, 0, [])"
| "scope_rank (GoogleContactGroups a) = (21, a, 0, [])"
| "scope_rank (CardDavAddressBookList a) = (22, a, 0, [])"
| "scope_rank (CardDavAddressBook a b) = (23, a, 0, b)"

definition account_scopes :: "account_id \<Rightarrow> 'v inner \<Rightarrow> sync_scope list" where
  "account_scopes account s = sort_key scope_rank (filter (\<lambda>sc. scope_account sc = account) (hm_keys (in_scopes s)))"

lemma account_scopes_set [simp]:
  "set (account_scopes account s) = {sc. scope_account sc = account \<and> hm_get (in_scopes s) sc \<noteq> None}"
  unfolding account_scopes_def set_sort set_filter hm_mem_keys by auto

section \<open>Stored folders\<close>

fun decode_all :: "('v \<Rightarrow> (string, 'a) result) \<Rightarrow> (string \<Rightarrow> sync_error) \<Rightarrow> 'v list \<Rightarrow> (sync_error, 'a list) result" where
  "decode_all dec err [] = Inr []"
| "decode_all dec err (v # vs) = (case dec v of
      Inl e \<Rightarrow> Inl (err e)
    | Inr x \<Rightarrow> (case decode_all dec err vs of Inl e \<Rightarrow> Inl e | Inr xs \<Rightarrow> Inr (x # xs)))"

text \<open>The loop over the folder-list scopes that \<open>sent_mailboxes\<close> and \<open>forget_vanished_folders\<close> share.\<close>

fun stored_mailboxes ::
  "('v, 'x) decoders \<Rightarrow> (string \<Rightarrow> sync_error) \<Rightarrow> sync_scope list \<Rightarrow> ('v, (sync_error, mailbox list) result) reader" where
  "stored_mailboxes dec err [] = Answer (Inr [])"
| "stored_mailboxes dec err (sc # scs) =
     (if scope_object_kind sc \<noteq> Some KMailbox then stored_mailboxes dec err scs
      else Read (\<lambda>now s. case decode_all (dc_mailbox dec) err (map snd (scope_objects sc s)) of
          Inl e \<Rightarrow> Answer (Inl e)
        | Inr boxes \<Rightarrow> rd_then (stored_mailboxes dec err scs) (\<lambda>rest. Answer (Inr (boxes @ rest)))))"

definition sent_mailboxes :: "('v, 'x) decoders \<Rightarrow> account_id \<Rightarrow> ('v, (sync_error, mailbox_id btree_set) result) reader" where
  "sent_mailboxes dec account = Read (\<lambda>now s.
     rd_then (stored_mailboxes dec SeDecode (account_scopes account s)) (\<lambda>boxes.
       Answer (Inr (bs_of (map mx_id (filter (\<lambda>b. mx_role b = Some RSent) boxes))))))"

text \<open>\<open>stored_inbox\<close> passes over a folder it cannot decode.\<close>

fun find_inbox :: "('v, 'x) decoders \<Rightarrow> sync_scope list \<Rightarrow> ('v, mailbox_id option) reader" where
  "find_inbox dec [] = Answer None"
| "find_inbox dec (sc # scs) =
     (if scope_object_kind sc \<noteq> Some KMailbox then find_inbox dec scs
      else Read (\<lambda>now s.
        case filter (\<lambda>b. mx_role b = Some RInbox)
               (List.map_filter (\<lambda>(k, v). case dc_mailbox dec v of Inl _ \<Rightarrow> None | Inr b \<Rightarrow> Some b) (scope_objects sc s)) of
          [] \<Rightarrow> find_inbox dec scs
        | b # _ \<Rightarrow> Answer (Some (mx_id b))))"

definition stored_inbox :: "('v, 'x) decoders \<Rightarrow> account_id \<Rightarrow> ('v, mailbox_id option) reader" where
  "stored_inbox dec account = Read (\<lambda>now s. find_inbox dec (account_scopes account s))"

fun names_mailbox :: "sync_scope \<Rightarrow> mailbox_id \<Rightarrow> bool" where
  "names_mailbox (ImapMailbox _ named) m \<longleftrightarrow> named = m"
| "names_mailbox (GraphFolder _ named) m \<longleftrightarrow> named = m"
| "names_mailbox _ m \<longleftrightarrow> False"

text \<open>\<open>inbox_first\<close>, given the email scope of each provider.\<close>

definition inbox_first :: "sync_scope list \<Rightarrow> mailbox_id option \<Rightarrow> nat list" where
  "inbox_first scopes inbox = (case inbox of
      None \<Rightarrow> [0..<length scopes]
    | Some m \<Rightarrow> sort_key (\<lambda>i. \<not> names_mailbox (scopes ! i) m) [0..<length scopes])"

section \<open>Recipients\<close>

definition files_in :: "mailbox_id list \<Rightarrow> mailbox_id btree_set \<Rightarrow> bool" where
  "files_in mailboxes sent \<longleftrightarrow> list_ex (\<lambda>b. b \<in> set sent) mailboxes"

type_synonym idna = "string \<Rightarrow> (string, string) result"

fun moved_observations ::
  "(string \<Rightarrow> string) \<Rightarrow> idna \<Rightarrow> ('v, 'x) decoders \<Rightarrow> account_id \<Rightarrow> sync_scope \<Rightarrow> mailbox_id btree_set \<Rightarrow> mail_state_change list \<Rightarrow>
   ('v, (sync_error, recipient_observation list) result) reader" where
  "moved_observations lower idna dec account scope sent [] = Answer (Inr [])"
| "moved_observations lower idna dec account scope sent (ch # changes) =
     (case sx_mailboxes (mc_state ch) of
        None \<Rightarrow> moved_observations lower idna dec account scope sent changes
      | Some mailboxes \<Rightarrow>
          (if \<not> files_in mailboxes sent then moved_observations lower idna dec account scope sent changes
           else Read (\<lambda>now s. case object_payload scope (mc_key ch) s of
               None \<Rightarrow> moved_observations lower idna dec account scope sent changes
             | Some payload \<Rightarrow>
                 (case dc_content dec payload of
                    Inl e \<Rightarrow> Answer (Inl (SeDecode e))
                  | Inr content \<Rightarrow>
                      rd_then (moved_observations lower idna dec account scope sent changes) (\<lambda>rest. Answer (Inr
                        (observe_sent_recipients lower idna account (source_of_content content) mailboxes sent @ rest)))))))"

definition observations ::
  "(string \<Rightarrow> string) \<Rightarrow> idna \<Rightarrow> ('v, 'x) decoders \<Rightarrow> account_id \<Rightarrow> sync_scope \<Rightarrow> ('x message, mail_state_change) sync_update \<Rightarrow>
   mailbox_id btree_set \<Rightarrow> ('v, (sync_error, recipient_observation list) result) reader" where
  "observations lower idna dec account scope update sent =
     rd_then (moved_observations lower idna dec account scope sent (update_patched update)) (\<lambda>moved. Answer (Inr
       (concat (map (\<lambda>m. observe_sent_recipients lower idna account (source_of_message m) (ms_mailboxes m) sent)
          (update_changed update)) @ moved)))"

section \<open>Sent copies\<close>

definition awaiting_rows :: "('v, 'x) decoders \<Rightarrow> 'v pending_op_row list \<Rightarrow> (message_id_header, pending_op_id) hash_map" where
  "awaiting_rows dec rows = fold (\<lambda>row awaiting.
     if pr_kind row \<noteq> Some MailSubmit \<or> pr_state row \<noteq> NeedsConfirmation then awaiting
     else case dc_draft_id dec (pr_payload row) of
       None \<Rightarrow> awaiting
     | Some message_id \<Rightarrow> hm_insert message_id (pr_id row) awaiting) rows []"

definition awaiting_confirmation ::
  "pdt_add \<Rightarrow> ('v, 'x) decoders \<Rightarrow> account_id \<Rightarrow> ('v, (sync_error, (message_id_header, pending_op_id) hash_map) result) reader" where
  "awaiting_confirmation padd dec account = Read (\<lambda>now s. Answer (case list_pending_ops padd now account s of
      Inl e \<Rightarrow> Inl (SeStore e)
    | Inr rows \<Rightarrow> Inr (awaiting_rows dec rows)))"

fun moved_ids ::
  "('v, 'x) decoders \<Rightarrow> sync_scope \<Rightarrow> provider_key list \<Rightarrow>
   ('v, (sync_error, (provider_key \<times> message_id_header list) list) result) reader" where
  "moved_ids dec scope [] = Answer (Inr [])"
| "moved_ids dec scope (key # keys) = Read (\<lambda>now s. case object_payload scope key s of
      None \<Rightarrow> moved_ids dec scope keys
    | Some payload \<Rightarrow>
        (case dc_content dec payload of
           Inl e \<Rightarrow> Answer (Inl (SeDecode e))
         | Inr content \<Rightarrow> rd_then (moved_ids dec scope keys) (\<lambda>rest.
             Answer (Inr ((key, ev_message_id (ct_envelope content)) # rest)))))"

fun plan_ids ::
  "provider_key \<Rightarrow> message_id_header list \<Rightarrow> (message_id_header, pending_op_id) hash_map \<Rightarrow>
   pending_reconciliation list \<times> (message_id_header, pending_op_id) hash_map" where
  "plan_ids key [] awaiting = ([], awaiting)"
| "plan_ids key (i # ids) awaiting = (case hm_get awaiting i of
      None \<Rightarrow> plan_ids key ids awaiting
    | Some op \<Rightarrow> (case plan_ids key ids (hm_remove i awaiting) of (plans, rest) \<Rightarrow>
        (\<lparr>pr_op = op, pr_expected = NeedsConfirmation, pr_resolves_to = key\<rparr> # plans, rest)))"

fun plan_filed ::
  "(provider_key \<times> message_id_header list) list \<Rightarrow> (message_id_header, pending_op_id) hash_map \<Rightarrow> pending_reconciliation list" where
  "plan_filed [] awaiting = []"
| "plan_filed ((key, ids) # filed) awaiting = (case plan_ids key ids awaiting of (plans, rest) \<Rightarrow> plans @ plan_filed filed rest)"

definition filed_whole :: "('x message, mail_state_change) sync_update \<Rightarrow> mailbox_id btree_set \<Rightarrow> (provider_key \<times> message_id_header list) list" where
  "filed_whole update sent = map (\<lambda>m. (ms_id m, ev_message_id (ms_envelope m)))
     (filter (\<lambda>m. files_in (ms_mailboxes m) sent) (update_changed update))"

definition moved_keys :: "('x message, mail_state_change) sync_update \<Rightarrow> mailbox_id btree_set \<Rightarrow> provider_key list" where
  "moved_keys update sent = map mc_key
     (filter (\<lambda>ch. is_some_and (sx_mailboxes (mc_state ch)) (\<lambda>boxes. files_in boxes sent)) (update_patched update))"

definition reconciliations ::
  "pdt_add \<Rightarrow> ('v, 'x) decoders \<Rightarrow> account_id \<Rightarrow> sync_scope \<Rightarrow> ('x message, mail_state_change) sync_update \<Rightarrow> mailbox_id btree_set \<Rightarrow>
   ('v, (sync_error, pending_reconciliation list) result) reader" where
  "reconciliations padd dec account scope update sent =
     (let filed = filed_whole update sent; moved = moved_keys update sent in
      if filed = [] \<and> moved = [] then Answer (Inr [])
      else rd_then (awaiting_confirmation padd dec account) (\<lambda>awaiting.
        if awaiting = [] then Answer (Inr [])
        else rd_then (moved_ids dec scope moved) (\<lambda>more. Answer (Inr (plan_filed (filed @ more) awaiting)))))"

end
