(* ===== verification/Sync_Driver.thy ===== *)
theory Sync_Driver
  imports Sync_Reads
begin

text \<open>
  The per-scope sync cycle of \<open>engine-sync/src/lib.rs\<close>: claim the scope, fetch since its cursor, derive,
  apply, release; a stale lease drops what was fetched and starts over from a fresh claim. And the end of a
  folder that left its account's list (\<open>vanished.rs\<close>).

  A provider's answer may differ every time it is asked, so a fetch is also given the moment it is made.
  \<open>psub\<close> is the \<open>time\<close> crate's checked subtraction.
\<close>

section \<open>Calls\<close>

fun resp_claim :: "'v response \<Rightarrow> (store_error, sync_claim) result" where
  "resp_claim (RClaim r) = r"
| "resp_claim _ = Inl NotRunnable"

fun resp_applied :: "'v response \<Rightarrow> (store_error, sync_applied) result" where
  "resp_applied (RApplied r) = r"
| "resp_applied _ = Inl NotRunnable"

definition claim_scope_call ::
  "pdt_add \<Rightarrow> ('o, 'v) sync_object \<Rightarrow> account_id \<Rightarrow> sync_scope \<Rightarrow> lease_request \<Rightarrow> ('v, 'o, 'p) world \<Rightarrow>
   (store_error, sync_claim) result \<times> ('v, 'o, 'p) world" where
  "claim_scope_call padd tr account scope req w = apfst resp_claim (store_call padd tr (CClaimScope account scope req) w)"

definition apply_call ::
  "pdt_add \<Rightarrow> ('o, 'v) sync_object \<Rightarrow> sync_lease \<Rightarrow> ('o, 'p) apply_batch \<Rightarrow> ('v, 'o, 'p) world \<Rightarrow>
   (store_error, sync_applied) result \<times> ('v, 'o, 'p) world" where
  "apply_call padd tr l batch w = apfst resp_applied (store_call padd tr (CApply l batch) w)"

definition release_call ::
  "pdt_add \<Rightarrow> ('o, 'v) sync_object \<Rightarrow> sync_lease \<Rightarrow> ('v, 'o, 'p) world \<Rightarrow> (store_error, unit) result \<times> ('v, 'o, 'p) world" where
  "release_call padd tr l w = apfst resp_unit (store_call padd tr (CRelease l) w)"

definition forget_call ::
  "pdt_add \<Rightarrow> ('o, 'v) sync_object \<Rightarrow> sync_lease \<Rightarrow> ('v, 'o, 'p) world \<Rightarrow> (store_error, unit) result \<times> ('v, 'o, 'p) world" where
  "forget_call padd tr l w = apfst resp_unit (store_call padd tr (CForget l) w)"

section \<open>One scope\<close>

record ('o, 'p) scope_sync =
  zs_update :: "('o, 'p) sync_update"
  zs_next_cursor :: sync_state

datatype ('o, 'p, 'm, 'h) scope_fetch = Proceed "('o, 'p) scope_sync" 'm | Halt 'h

datatype ('m, 'h) scope_run = ScApplied sync_applied 'm | ScHalted 'h

record ('v, 'o, 'p, 'm, 'h) scope_syncer =
  syn_scope :: sync_scope
  syn_fetch :: "nat \<Rightarrow> sync_state option \<Rightarrow> (provider_error, ('o, 'p, 'm, 'h) scope_fetch) result"
  syn_derive :: "('o, 'p) scope_sync \<Rightarrow> derived_write"
  syn_collection_tag :: "collection_tag option"
  syn_observations :: "('o, 'p) sync_update \<Rightarrow> ('v, (sync_error, recipient_observation list) result) reader"

definition max_stale_reclaims :: nat where "max_stale_reclaims = 3"

definition read_since :: "pdt_add \<Rightarrow> sync_lease \<Rightarrow> lease_request \<Rightarrow> ('o, 'p) apply_batch \<Rightarrow> ('o, 'p) apply_batch" where
  "read_since psub l req batch = (case utc_checked_sub psub (sy_expiry l) (lq_ttl req) of
      None \<Rightarrow> batch
    | Some started \<Rightarrow> batch\<lparr>ab_observed_from := Some started\<rparr>)"

definition scope_batch ::
  "pdt_add \<Rightarrow> ('v, 'o, 'p, 'm, 'h) scope_syncer \<Rightarrow> lease_request \<Rightarrow> sync_lease \<Rightarrow> ('o, 'p) scope_sync \<Rightarrow>
   recipient_observation list \<Rightarrow> ('o, 'p) apply_batch" where
  "scope_batch psub y req l sync obs = read_since psub l req
     ((batch_with_cursor (zs_update sync) (syn_derive y sync) [] (Some (zs_next_cursor sync)))
        \<lparr>ab_recipient_observations := obs, ab_collection_tag := syn_collection_tag y\<rparr>)"

text \<open>A release whose failure is the answer, and one whose failure is ignored.\<close>

definition release_then ::
  "pdt_add \<Rightarrow> ('o, 'v) sync_object \<Rightarrow> sync_lease \<Rightarrow> 'r \<Rightarrow> ('v, 'o, 'p) world \<Rightarrow> (sync_error, 'r) result \<times> ('v, 'o, 'p) world" where
  "release_then padd tr l answer w = (case release_call padd tr l w of
      (Inl e, w) \<Rightarrow> (Inl (SeStore e), w)
    | (Inr _, w) \<Rightarrow> (Inr answer, w))"

definition release_failing ::
  "pdt_add \<Rightarrow> ('o, 'v) sync_object \<Rightarrow> sync_lease \<Rightarrow> sync_error \<Rightarrow> ('v, 'o, 'p) world \<Rightarrow> (sync_error, 'r) result \<times> ('v, 'o, 'p) world" where
  "release_failing padd tr l e w = (Inl e, snd (release_call padd tr l w))"

function run_scope_from ::
  "pdt_add \<Rightarrow> pdt_add \<Rightarrow> ('o, 'v) sync_object \<Rightarrow> account_id \<Rightarrow> ('v, 'o, 'p, 'm, 'h) scope_syncer \<Rightarrow> lease_request \<Rightarrow> nat \<Rightarrow>
   ('v, 'o, 'p) world \<Rightarrow> (sync_error, ('m, 'h) scope_run) result \<times> ('v, 'o, 'p) world" where
  "run_scope_from padd psub tr account y req reclaims w =
     (case claim_scope_call padd tr account (syn_scope y) req w of
        (Inl e, w) \<Rightarrow> (Inl (SeStore e), w)
      | (Inr claim, w) \<Rightarrow>
          (case syn_fetch y (wd_at w) (cl_state claim) of
             Inl err \<Rightarrow> release_failing padd tr (cl_lease claim) (SeProvider err) w
           | Inr (Halt h) \<Rightarrow> release_then padd tr (cl_lease claim) (ScHalted h) w
           | Inr (Proceed sync meta) \<Rightarrow>
               (case run_reader padd tr (syn_observations y (zs_update sync)) w of
                  (Inl e, w) \<Rightarrow> release_failing padd tr (cl_lease claim) e w
                | (Inr obs, w) \<Rightarrow>
                    (case apply_call padd tr (cl_lease claim) (scope_batch psub y req (cl_lease claim) sync obs) w of
                       (Inr applied, w) \<Rightarrow> release_then padd tr (cl_lease claim) (ScApplied applied meta) w
                     | (Inl e, w) \<Rightarrow>
                         (if e = StaleLease \<and> reclaims < max_stale_reclaims
                          then run_scope_from padd psub tr account y req (reclaims + 1) w
                          else release_failing padd tr (cl_lease claim) (SeStore e) w)))))"
  by pat_completeness auto
termination
  by (relation "measure (\<lambda>(_, _, _, _, _, _, reclaims, _). max_stale_reclaims - reclaims)") auto

declare run_scope_from.simps [simp del]

definition run_scope ::
  "pdt_add \<Rightarrow> pdt_add \<Rightarrow> ('o, 'v) sync_object \<Rightarrow> account_id \<Rightarrow> ('v, 'o, 'p, 'm, 'h) scope_syncer \<Rightarrow> lease_request \<Rightarrow>
   ('v, 'o, 'p) world \<Rightarrow> (sync_error, ('m, 'h) scope_run) result \<times> ('v, 'o, 'p) world" where
  "run_scope padd psub tr account y req w = run_scope_from padd psub tr account y req 0 w"

text \<open>
  The folder-list syncer. The store of an account holds objects of several types; \<open>wrap\<close> is the mailbox among
  them, and the fetch cannot halt.
\<close>

definition mailbox_syncer ::
  "(mailbox \<Rightarrow> 'o) \<Rightarrow> sync_scope \<Rightarrow> (nat \<Rightarrow> sync_state option \<Rightarrow> (provider_error, (mailbox, 'p) scope_sync) result) \<Rightarrow>
   ('v, 'o, 'p, unit, 'h) scope_syncer" where
  "mailbox_syncer wrap scope sync_mailboxes = \<lparr>syn_scope = scope,
     syn_fetch = (\<lambda>at cursor. case sync_mailboxes at cursor of
        Inl e \<Rightarrow> Inl e
      | Inr sync \<Rightarrow> Inr (Proceed \<lparr>zs_update = map_sync_update wrap id (zs_update sync), zs_next_cursor = zs_next_cursor sync\<rparr> ())),
     syn_derive = (\<lambda>_. derived_empty), syn_collection_tag = None, syn_observations = (\<lambda>_. Answer (Inr []))\<rparr>"

section \<open>Folders that are gone\<close>

definition already_empty :: "sync_scope \<Rightarrow> ('v, bool) reader" where
  "already_empty scope = Read (\<lambda>now s.
     if load_sync_state scope s \<noteq> None then Answer False
     else Read (\<lambda>now s. Answer (object_keys scope s = [])))"

fun forget_scopes ::
  "pdt_add \<Rightarrow> ('o, 'v) sync_object \<Rightarrow> account_id \<Rightarrow> lease_request \<Rightarrow> sync_scope list \<Rightarrow> ('v, 'o, 'p) world \<Rightarrow>
   (sync_error, nat) result \<times> ('v, 'o, 'p) world" where
  "forget_scopes padd tr account req [] w = (Inr 0, w)"
| "forget_scopes padd tr account req (scope # scopes) w =
     (case run_reader padd tr (already_empty scope) w of (is_empty, w) \<Rightarrow>
        (if is_empty then forget_scopes padd tr account req scopes w
         else case claim_scope_call padd tr account scope req w of
           (Inr claim, w) \<Rightarrow>
             (case forget_call padd tr (cl_lease claim) w of
                (Inl e, w) \<Rightarrow> (Inl (SeStore e), w)
              | (Inr _, w) \<Rightarrow> apfst (map_sum id Suc) (forget_scopes padd tr account req scopes w))
         | (Inl ScopeHeld, w) \<Rightarrow> forget_scopes padd tr account req scopes w
         | (Inl e, w) \<Rightarrow> (Inl (SeStore e), w)))"

definition stale_folders :: "mailbox_id list \<Rightarrow> sync_scope list \<Rightarrow> sync_scope list" where
  "stale_folders listed scopes = filter (\<lambda>sc. is_some_and (scope_folder sc) (\<lambda>f. f \<notin> set listed)) scopes"

definition listed_folders ::
  "('v, 'x) decoders \<Rightarrow> account_id \<Rightarrow> ('v, (sync_error, sync_scope list \<times> mailbox_id list) result) reader" where
  "listed_folders dec account = Read (\<lambda>now s. let scopes = account_scopes account s in
     rd_then (stored_mailboxes dec (\<lambda>e. SeDecode (''stored folder: '' @ e)) scopes) (\<lambda>boxes.
       Answer (Inr (scopes, bs_of (map mx_id boxes)))))"

definition forget_vanished_folders ::
  "pdt_add \<Rightarrow> ('o, 'v) sync_object \<Rightarrow> ('v, 'x) decoders \<Rightarrow> account_id \<Rightarrow> lease_request \<Rightarrow> ('v, 'o, 'p) world \<Rightarrow>
   (sync_error, nat) result \<times> ('v, 'o, 'p) world" where
  "forget_vanished_folders padd tr dec account req w = (case run_reader padd tr (listed_folders dec account) w of
      (Inl e, w) \<Rightarrow> (Inl e, w)
    | (Inr (scopes, listed), w) \<Rightarrow>
        (if listed = [] then (Inr 0, w)
         else forget_scopes padd tr account req (stale_folders listed scopes) w))"

text \<open>The folder-list fetch never halts, so the halted case is never met (its type is uninhabited in the source).\<close>

definition reconcile_folders ::
  "pdt_add \<Rightarrow> pdt_add \<Rightarrow> ('o, 'v) sync_object \<Rightarrow> ('v, 'x) decoders \<Rightarrow> account_id \<Rightarrow>
   (mailbox \<Rightarrow> 'o) \<Rightarrow> sync_scope \<Rightarrow> (nat \<Rightarrow> sync_state option \<Rightarrow> (provider_error, (mailbox, 'p) scope_sync) result) \<Rightarrow>
   lease_request \<Rightarrow> ('v, 'o, 'p) world \<Rightarrow> (sync_error, sync_applied) result \<times> ('v, 'o, 'p) world" where
  "reconcile_folders padd psub tr dec account wrap scope sync_mailboxes req w =
     (case run_scope padd psub tr account
        (mailbox_syncer wrap scope sync_mailboxes :: ('v, 'o, 'p, unit, unit) scope_syncer) req w of
      (Inl e, w) \<Rightarrow> (Inl e, w)
    | (Inr (ScHalted _), w) \<Rightarrow> (Inl (SeStore NotRunnable), w)
    | (Inr (ScApplied applied meta), w) \<Rightarrow>
        (case forget_vanished_folders padd tr dec account req w of
           (Inl e, w) \<Rightarrow> (Inl e, w)
         | (Inr _, w) \<Rightarrow> (Inr applied, w)))"

end
