(* ===== verification/Mail_Stream.thy ===== *)
theory Mail_Stream
  imports Sync_Driver
begin

text \<open>
  The streaming mail sync: the chunks an adapter hands over (\<open>engine-provider/src/stream.rs\<close>), the whole-scope
  drain of them, and the pass that commits each chunk as it lands (\<open>engine-sync/src/stream.rs\<close>).

  A stream is the finite list of what its adapter yields, each item with the number of lease renewals that
  fall due while it is awaited. The observer's events are part of the answer; timings are left out.
\<close>

section \<open>Chunks\<close>

datatype pass_mode = Additive | Reconcile

definition tombstones :: "pass_mode \<Rightarrow> bool" where
  "tombstones mode \<longleftrightarrow> mode = Reconcile"

record 'x email_chunk =
  ck_mode :: pass_mode
  ck_changed :: "'x message list"
  ck_patched :: "mail_state_change list"
  ck_removed :: "provider_key list"
  ck_present :: "provider_key list"
  ck_total :: "nat option"
  ck_advance_to :: "sync_state option"

definition chunk_additive ::
  "'x message list \<Rightarrow> provider_key list \<Rightarrow> nat option \<Rightarrow> sync_state \<Rightarrow> 'x email_chunk" where
  "chunk_additive changed removed tot checkpoint = \<lparr>ck_mode = Additive, ck_changed = changed, ck_patched = [],
     ck_removed = removed, ck_present = [], ck_total = tot, ck_advance_to = Some checkpoint\<rparr>"

definition chunk_additive_held :: "'x message list \<Rightarrow> provider_key list \<Rightarrow> nat option \<Rightarrow> 'x email_chunk" where
  "chunk_additive_held changed removed tot = \<lparr>ck_mode = Additive, ck_changed = changed, ck_patched = [],
     ck_removed = removed, ck_present = [], ck_total = tot, ck_advance_to = None\<rparr>"

definition chunk_reconcile_page :: "'x message list \<Rightarrow> provider_key list \<Rightarrow> nat option \<Rightarrow> 'x email_chunk" where
  "chunk_reconcile_page changed present tot = \<lparr>ck_mode = Reconcile, ck_changed = changed, ck_patched = [],
     ck_removed = [], ck_present = present, ck_total = tot, ck_advance_to = None\<rparr>"

definition chunk_reconcile_last ::
  "'x message list \<Rightarrow> provider_key list \<Rightarrow> nat option \<Rightarrow> sync_state \<Rightarrow> 'x email_chunk" where
  "chunk_reconcile_last changed present tot cursor = \<lparr>ck_mode = Reconcile, ck_changed = changed, ck_patched = [],
     ck_removed = [], ck_present = present, ck_total = tot, ck_advance_to = Some cursor\<rparr>"

definition is_reconcile_final :: "'x email_chunk \<Rightarrow> bool" where
  "is_reconcile_final c \<longleftrightarrow> ck_mode c = Reconcile \<and> ck_advance_to c \<noteq> None"

section \<open>Splitting a page\<close>

definition held_chunk ::
  "pass_mode \<Rightarrow> nat option \<Rightarrow> 'x message list \<Rightarrow> provider_key list \<Rightarrow> provider_key list \<Rightarrow> 'x email_chunk" where
  "held_chunk mode tot batch removed present = (case mode of
      Additive \<Rightarrow> chunk_additive_held batch removed tot
    | Reconcile \<Rightarrow> \<lparr>ck_mode = Reconcile, ck_changed = batch, ck_patched = [], ck_removed = removed,
        ck_present = present, ck_total = tot, ck_advance_to = None\<rparr>)"

function split_loop ::
  "pass_mode \<Rightarrow> nat option \<Rightarrow> nat \<Rightarrow> 'x message list \<Rightarrow> mail_state_change list \<Rightarrow> provider_key list \<Rightarrow> provider_key list \<Rightarrow>
   'x email_chunk list" where
  "split_loop mode tot step changed patched removed present =
     (if changed = [] then []
      else (held_chunk mode tot (take (max step 1) changed) removed present)\<lparr>ck_patched := patched\<rparr> #
        split_loop mode tot step (drop (max step 1) changed) [] [] [])"
  by pat_completeness auto
termination
  by (relation "measure (\<lambda>(_, _, _, changed, _). length changed)") auto

declare split_loop.simps [simp del]

definition split_page ::
  "pass_mode \<Rightarrow> 'x message list \<Rightarrow> mail_state_change list \<Rightarrow> provider_key list \<Rightarrow> provider_key list \<Rightarrow> nat option \<Rightarrow> nat \<Rightarrow>
   'x email_chunk list" where
  "split_page mode changed patched removed present tot chunk_size =
     (if changed = [] then
        (if patched = [] \<and> removed = [] \<and> present = [] then []
         else [(held_chunk mode tot [] removed present)\<lparr>ck_patched := patched\<rparr>])
      else split_loop mode tot (if chunk_size = 0 then length changed else chunk_size) changed patched removed present)"

section \<open>Draining a stream\<close>

type_synonym ('x, 'p) mail_update = "('x message, 'p) sync_update"

record 'x drained =
  dr_changed :: "'x message list"
  dr_patched :: "mail_state_change list"
  dr_removed :: "provider_key list"
  dr_present :: "provider_key btree_set"
  dr_mode :: pass_mode
  dr_next_cursor :: "sync_state option"

definition drained_start :: "'x drained" where
  "drained_start = \<lparr>dr_changed = [], dr_patched = [], dr_removed = [], dr_present = [], dr_mode = Additive, dr_next_cursor = None\<rparr>"

definition drain_chunk :: "'x email_chunk \<Rightarrow> 'x drained \<Rightarrow> 'x drained" where
  "drain_chunk c d = \<lparr>dr_changed = dr_changed d @ ck_changed c, dr_patched = dr_patched d @ ck_patched c,
     dr_removed = dr_removed d @ ck_removed c, dr_present = bs_of (dr_present d @ ck_present c), dr_mode = ck_mode c,
     dr_next_cursor = opt_or (ck_advance_to c) (dr_next_cursor d)\<rparr>"

fun drain_items :: "(provider_error, 'x email_chunk) result list \<Rightarrow> 'x drained \<Rightarrow> (provider_error, 'x drained) result" where
  "drain_items [] d = Inr d"
| "drain_items (Inl e # items) d = Inl e"
| "drain_items (Inr c # items) d = drain_items items (drain_chunk c d)"

definition drained_update :: "'x drained \<Rightarrow> ('x, mail_state_change) mail_update" where
  "drained_update d = (case dr_mode d of
      Reconcile \<Rightarrow> Snapshot (dr_changed d) (dr_present d)
    | Additive \<Rightarrow> with_patched ms_id mc_key (dr_patched d) (update_delta (dr_changed d) (dr_removed d)))"

definition drain_email ::
  "(provider_error, 'x email_chunk) result list \<Rightarrow> (provider_error, ('x message, mail_state_change) scope_sync) result" where
  "drain_email items = (case drain_items items drained_start of
      Inl e \<Rightarrow> Inl e
    | Inr d \<Rightarrow> (case dr_next_cursor d of
        None \<Rightarrow> Inl (pe_invalid_state ''email stream ended without a final cursor'')
      | Some cursor \<Rightarrow> Inr \<lparr>zs_update = drained_update d, zs_next_cursor = cursor\<rparr>))"

section \<open>One chunk of a pass\<close>

record stream_tuning =
  tn_window :: sync_window
  tn_fetch_batch :: nat
  tn_chunk_size :: nat

definition tuning_new :: "nat \<Rightarrow> nat \<Rightarrow> stream_tuning" where
  "tuning_new batch chunk = \<lparr>tn_window = window_full, tn_fetch_batch = batch, tn_chunk_size = chunk\<rparr>"

definition tuning_responsive :: stream_tuning where "tuning_responsive = tuning_new 200 3"

definition tuning_bulk :: stream_tuning where "tuning_bulk = tuning_new 500 100"

definition tuning_within :: "sync_window \<Rightarrow> stream_tuning \<Rightarrow> stream_tuning" where
  "tuning_within window t = t\<lparr>tn_window := window\<rparr>"

definition admitted :: "time_crate \<Rightarrow> (instant \<Rightarrow> date) \<Rightarrow> sync_window \<Rightarrow> 'x message list \<Rightarrow> 'x message list" where
  "admitted tc ymd window changed = (if \<not> is_bounded window then changed
     else filter (\<lambda>m. admits tc ymd window (opt_or (ms_received_at m) (ms_sent_at m))) changed)"

text \<open>The update of a chunk, and what \<open>present\<close> holds after it.\<close>

definition build_update ::
  "time_crate \<Rightarrow> (instant \<Rightarrow> date) \<Rightarrow> sync_window \<Rightarrow> 'x email_chunk \<Rightarrow> provider_key btree_set \<Rightarrow>
   ('x, mail_state_change) mail_update \<times> provider_key btree_set" where
  "build_update tc ymd window c present =
     (case ck_mode c of
        Additive \<Rightarrow> (with_patched ms_id mc_key (ck_patched c) (update_delta (admitted tc ymd window (ck_changed c)) (ck_removed c)), present)
      | Reconcile \<Rightarrow>
          (let present = bs_of (present @ ck_present c) in
           if ck_advance_to c \<noteq> None
           then (with_patched ms_id mc_key (ck_patched c) (Snapshot (ck_changed c) present), [])
           else (with_patched ms_id mc_key (ck_patched c) (update_delta (ck_changed c) (ck_removed c)), present)))"

definition chunk_derived :: "(string \<Rightarrow> string) \<Rightarrow> ('x, mail_state_change) mail_update \<Rightarrow> derived_write" where
  "chunk_derived lower update =
     fold (\<lambda>ch. push_state_change (project_state_change ch)) (update_patched update) (derive_messages lower (update_changed update))"

text \<open>The messages a chunk names for the first time.\<close>

fun count_new :: "'x message list \<Rightarrow> provider_key btree_set \<Rightarrow> nat \<times> provider_key btree_set" where
  "count_new [] counted = (0, counted)"
| "count_new (m # ms) counted =
     (if ms_id m \<in> set counted then count_new ms counted
      else case count_new ms (bs_of (counted @ [ms_id m])) of (n, counted) \<Rightarrow> (Suc n, counted))"

section \<open>The pass\<close>

text \<open>
  What is the same for every chunk of a folder's pass: the parameters of the model, then \<open>FolderPass\<close> and the
  provider. \<open>fp_wrap\<close> is a message among the objects of the store.
\<close>

record ('v, 'o, 'x) folder_pass =
  fp_padd :: pdt_add
  fp_psub :: pdt_add
  fp_tr :: "('o, 'v) sync_object"
  fp_time :: time_crate
  fp_ymd :: "instant \<Rightarrow> date"
  fp_lower :: "string \<Rightarrow> string"
  fp_idna :: idna
  fp_dec :: "('v, 'x) decoders"
  fp_wrap :: "'x message \<Rightarrow> 'o"
  fp_account :: account_id
  fp_scope :: sync_scope
  fp_req :: lease_request
  fp_tuning :: stream_tuning
  fp_sent :: "mailbox_id btree_set"
  fp_stream :: "nat \<Rightarrow> sync_state option \<Rightarrow> sync_window \<Rightarrow> nat \<Rightarrow> nat \<Rightarrow> (nat \<times> (provider_error, 'x email_chunk) result) list \<times> nat"

record 'x sync_commit =
  co_scope :: sync_scope
  co_fetched :: nat
  co_total :: "nat option"
  co_upserted :: "'x message list"
  co_removed :: "provider_key list"
  co_tombstoned :: nat

record 'x pass_state =
  ps_left :: "sync_state option"
  ps_present :: "provider_key btree_set"
  ps_counted :: "provider_key btree_set"
  ps_totals :: sync_applied
  ps_fetched :: nat
  ps_commits :: "'x sync_commit list"

definition applied_zero :: sync_applied where
  "applied_zero = \<lparr>ap_upserted = 0, ap_tombstoned = 0, ap_reconciled = 0\<rparr>"

definition applied_add :: "sync_applied \<Rightarrow> sync_applied \<Rightarrow> sync_applied" where
  "applied_add t a = \<lparr>ap_upserted = ap_upserted t + ap_upserted a, ap_tombstoned = ap_tombstoned t + ap_tombstoned a,
     ap_reconciled = ap_reconciled t + ap_reconciled a\<rparr>"

definition pass_start :: "sync_state option \<Rightarrow> 'x sync_commit list \<Rightarrow> 'x pass_state" where
  "pass_start left commits = \<lparr>ps_left = left, ps_present = [], ps_counted = [], ps_totals = applied_zero, ps_fetched = 0,
     ps_commits = commits\<rparr>"

text \<open>\<open>KeepAlive::around\<close>: the renewals that fall due while an item is awaited; their answers are ignored.\<close>

fun keep_alive ::
  "pdt_add \<Rightarrow> ('o, 'v) sync_object \<Rightarrow> sync_lease \<Rightarrow> std_duration \<Rightarrow> nat \<Rightarrow> ('v, 'o, 'p) world \<Rightarrow> ('v, 'o, 'p) world" where
  "keep_alive padd tr l ttl 0 w = w"
| "keep_alive padd tr l ttl (Suc k) w = keep_alive padd tr l ttl k (snd (store_call padd tr (CRenewScope l ttl) w))"

definition chunk_batch ::
  "('v, 'o, 'x) folder_pass \<Rightarrow> sync_lease \<Rightarrow> ('x, mail_state_change) mail_update \<Rightarrow> recipient_observation list \<Rightarrow>
   pending_reconciliation list \<Rightarrow> sync_state option \<Rightarrow> ('o, mail_state_change) apply_batch" where
  "chunk_batch p l update obs confirmed advance_to = read_since (fp_psub p) l (fp_req p)
     ((batch_with_cursor (map_sync_update (fp_wrap p) id update) (chunk_derived (fp_lower p) update) confirmed advance_to)
        \<lparr>ab_recipient_observations := obs\<rparr>)"

text \<open>The state a committed chunk leaves, and the event it is reported with.\<close>

definition chunk_committed ::
  "('v, 'o, 'x) folder_pass \<Rightarrow> 'x email_chunk \<Rightarrow> ('x, mail_state_change) mail_update \<Rightarrow> provider_key btree_set \<Rightarrow>
   sync_state option \<Rightarrow> sync_applied \<Rightarrow> 'x pass_state \<Rightarrow> 'x pass_state" where
  "chunk_committed p c update present advance_to applied st =
     (case count_new (ck_changed c) (ps_counted st) of (new, counted) \<Rightarrow>
        let repeats = length (ck_changed c) - new;
            applied = applied\<lparr>ap_upserted := ap_upserted applied - repeats\<rparr>;
            fetched = ps_fetched st + new
        in \<lparr>ps_left = (if advance_to \<noteq> None then advance_to else ps_left st), ps_present = present, ps_counted = counted,
            ps_totals = applied_add (ps_totals st) applied, ps_fetched = fetched,
            ps_commits = ps_commits st @ [\<lparr>co_scope = fp_scope p, co_fetched = fetched, co_total = ck_total c,
              co_upserted = update_changed update, co_removed = update_removed update, co_tombstoned = ap_tombstoned applied\<rparr>]\<rparr>)"

text \<open>How the pass over one stream ends: with an answer, its lease released, or on a stale lease.\<close>

datatype 'x stream_end = Ended "(sync_error, sync_applied) result" | Stale

fun stream_loop ::
  "('v, 'o, 'x) folder_pass \<Rightarrow> sync_lease \<Rightarrow> (nat \<times> (provider_error, 'x email_chunk) result) list \<Rightarrow> nat \<Rightarrow> 'x pass_state \<Rightarrow>
   ('v, 'o, mail_state_change) world \<Rightarrow> 'x stream_end \<times> 'x pass_state \<times> ('v, 'o, mail_state_change) world" where
  "stream_loop p l [] beats st w =
     (case release_then (fp_padd p) (fp_tr p) l (ps_totals st) (keep_alive (fp_padd p) (fp_tr p) l (lq_ttl (fp_req p)) beats w) of
        (r, w) \<Rightarrow> (Ended r, st, w))"
| "stream_loop p l ((k, Inl e) # items) beats st w =
     (case release_failing (fp_padd p) (fp_tr p) l (SeProvider e) (keep_alive (fp_padd p) (fp_tr p) l (lq_ttl (fp_req p)) k w) of
        (r, w) \<Rightarrow> (Ended r, st, w))"
| "stream_loop p l ((k, Inr c) # items) beats st w =
     (case build_update (fp_time p) (fp_ymd p) (tn_window (fp_tuning p)) c (ps_present st) of (update, present) \<Rightarrow>
      let advance_to = map_option (\<lambda>cursor. stamp cursor (tn_window (fp_tuning p))) (ck_advance_to c);
          fail = (\<lambda>e w. case release_failing (fp_padd p) (fp_tr p) l e w of (r, w) \<Rightarrow> (Ended r, st, w))
      in case run_reader (fp_padd p) (fp_tr p)
           (observations (fp_lower p) (fp_idna p) (fp_dec p) (fp_account p) (fp_scope p) update (fp_sent p))
           (keep_alive (fp_padd p) (fp_tr p) l (lq_ttl (fp_req p)) k w) of
         (Inl e, w) \<Rightarrow> fail e w
       | (Inr obs, w) \<Rightarrow>
           (case run_reader (fp_padd p) (fp_tr p)
              (reconciliations (fp_padd p) (fp_dec p) (fp_account p) (fp_scope p) update (fp_sent p)) w of
              (Inl e, w) \<Rightarrow> fail e w
            | (Inr confirmed, w) \<Rightarrow>
                (case apply_call (fp_padd p) (fp_tr p) l (chunk_batch p l update obs confirmed advance_to) w of
                   (Inl e, w) \<Rightarrow> (if e = StaleLease then (Stale, st, w) else fail (SeStore e) w)
                 | (Inr applied, w) \<Rightarrow>
                     (let st = chunk_committed p c update present advance_to applied st in
                      if is_reconcile_final c then
                        (case release_then (fp_padd p) (fp_tr p) l (ps_totals st) w of (r, w) \<Rightarrow> (Ended r, st, w))
                      else stream_loop p l items beats st w))))"

text \<open>
  The restart loop. \<open>fenced\<close> is what a pass refused as stale had left, and applied; \<open>None\<close> as the whole answer
  is the panic of a stored floor that cuts a character.
\<close>

function stream_from ::
  "('v, 'o, 'x) folder_pass \<Rightarrow> nat \<Rightarrow> (sync_state option \<times> sync_applied) option \<Rightarrow> 'x sync_commit list \<Rightarrow>
   ('v, 'o, mail_state_change) world \<Rightarrow>
   ((sync_error, sync_applied) result \<times> 'x sync_commit list \<times> ('v, 'o, mail_state_change) world) option" where
  "stream_from p reclaims fenced commits w =
     (case claim_scope_call (fp_padd p) (fp_tr p) (fp_account p) (fp_scope p) (fp_req p) w of
        (Inl e, w) \<Rightarrow>
          Some (case (fenced, e) of
              (Some (_, applied), ScopeHeld) \<Rightarrow> (Inr applied, commits, w)
            | _ \<Rightarrow> (Inl (SeStore e), commits, w))
      | (Inr claim, w) \<Rightarrow>
          (if is_some_and fenced (\<lambda>(left, _). cl_state claim \<noteq> left)
           then Some (case release_then (fp_padd p) (fp_tr p) (cl_lease claim) (snd (the fenced)) w of (r, w) \<Rightarrow> (r, commits, w))
           else case resume (fp_time p) (cl_state claim) (tn_window (fp_tuning p)) of
             None \<Rightarrow> None
           | Some cursor \<Rightarrow>
               (case fp_stream p (wd_at w) cursor (tn_window (fp_tuning p)) (tn_fetch_batch (fp_tuning p)) (tn_chunk_size (fp_tuning p)) of
                 (items, beats) \<Rightarrow>
                  (case stream_loop p (cl_lease claim) items beats (pass_start (cl_state claim) commits) w of
                     (Ended r, st, w) \<Rightarrow> Some (r, ps_commits st, w)
                   | (Stale, st, w) \<Rightarrow>
                       (if reclaims < max_stale_reclaims
                        then stream_from p (reclaims + 1) (Some (ps_left st, ps_totals st)) (ps_commits st) w
                        else Some (case release_failing (fp_padd p) (fp_tr p) (cl_lease claim) (SeStore StaleLease) w of
                               (r, w) \<Rightarrow> (r, ps_commits st, w)))))))"
  by pat_completeness auto
termination
  by (relation "measure (\<lambda>(_, reclaims, _). max_stale_reclaims - reclaims)") auto

declare stream_from.simps [simp del]

definition stream_email ::
  "('v, 'o, 'x) folder_pass \<Rightarrow> ('v, 'o, mail_state_change) world \<Rightarrow>
   ((sync_error, sync_applied) result \<times> 'x sync_commit list \<times> ('v, 'o, mail_state_change) world) option" where
  "stream_email p w = stream_from p 0 None [] w"

end
