(* ===== verification/Sync_Safety.thy ===== *)
theory Sync_Safety
  imports Sync_Driver Driver_Safety
begin

text \<open>
  What a sync pass can rely on between its claim and its commit, and what it leaves. A scope's cursor and
  objects change only under a lease of its current generation, and generations only grow; so a commit that
  is accepted finds the cursor its fetch started from, and a lease that was refused as stale stays so.
\<close>

section \<open>Cursor and objects of a scope\<close>

definition scope_core :: "'v scopes \<Rightarrow> sync_scope \<Rightarrow> sync_state option \<times> (provider_key, 'v) hash_map" where
  "scope_core scopes k = (case hm_get scopes k of None \<Rightarrow> (None, []) | Some c \<Rightarrow> (sc_state c, sc_objects c))"

text \<open>The lease a command commits under.\<close>

fun commits :: "('v, 'o, 'p) command \<Rightarrow> sync_lease option" where
  "commits (CApply l _) = Some l"
| "commits (CForget l) = Some l"
| "commits _ = None"

lemma scope_core_scalars: "scope_scalars x = scope_scalars y \<Longrightarrow> scope_core x = scope_core y"
proof (rule ext)
  fix k
  assume "scope_scalars x = scope_scalars y"
  then have "map_option cell_scalars (hm_get x k) = map_option cell_scalars (hm_get y k)"
    by (simp add: scope_scalars_def fun_eq_iff)
  then show "scope_core x k = scope_core y k"
    by (cases "hm_get x k"; cases "hm_get y k") (simp_all add: scope_core_def cell_scalars_def)
qed

lemma scope_core_put:
  "scope_core (hm_insert k c m) j = (if j = k then (sc_state c, sc_objects c) else scope_core m j)"
  by (simp add: scope_core_def)

lemma current_cell_gen: "current_cell l s = Some c \<Longrightarrow> sy_token l = scope_gen (in_scopes s) (sy_scope l)"
  by (auto simp: current_cell_Some scope_gen_def)

lemma apply_core:
  assumes "apply_sync_update padd now tr l b s = (r, s')"
    and "sy_scope l = k \<Longrightarrow> sy_token l \<noteq> scope_gen (in_scopes s) k"
  shows "scope_core (in_scopes s') k = scope_core (in_scopes s) k"
  using assms(1)
proof (cases rule: apply_sync_update_cases)
  case (refused c c' e)
  then show ?thesis using assms(2) current_cell_gen [OF refused(1)] by (auto simp: put_cell_def scope_core_put)
next
  case (unreconciled c c' ap ops e)
  then show ?thesis using assms(2) current_cell_gen [OF unreconciled(1)] by (auto simp: put_cell_def scope_core_put)
next
  case (applied c ap0 ap ops s1 s2)
  have "scope_scalars (in_scopes s') = scope_scalars (hm_insert (sy_scope l) (cell_after tr b c) (in_scopes s))"
    using applied by simp
  from scope_core_scalars [OF this] show ?thesis
    using assms(2) current_cell_gen [OF applied(1)] by (auto simp: scope_core_put)
qed simp

lemma put_keeps_core:
  assumes "current_cell l s = Some c" "sc_state c' = sc_state c" "sc_objects c' = sc_objects c"
  shows "scope_core (in_scopes (put_cell (sy_scope l) c' s)) k = scope_core (in_scopes s) k"
  using assms by (auto simp: put_cell_def scope_core_put) (simp add: scope_core_def current_cell_Some)

lemma lease_ops_core:
  "set_expansion_window l w s = (r, s') \<Longrightarrow> scope_core (in_scopes s') k = scope_core (in_scopes s) k"
  "apply_maintenance l d s = (r, s') \<Longrightarrow> scope_core (in_scopes s') k = scope_core (in_scopes s) k"
  "renew_scope padd now l ttl s = (r, s') \<Longrightarrow> scope_core (in_scopes s') k = scope_core (in_scopes s) k"
  "scope_core (in_scopes (release_scope l s)) k = scope_core (in_scopes s) k"
  by (auto simp: set_expansion_window_def apply_maintenance_def renew_scope_def release_scope_def put_keeps_core
      current_cell_Some intro!: put_keeps_core split: option.splits if_splits)

lemma claim_core:
  "claim_sync_scope padd now a sc req s = (r, s') \<Longrightarrow> scope_core (in_scopes s') k = scope_core (in_scopes s) k"
  by (auto simp: claim_sync_scope_def Let_def scope_core_def scope_cell_new_def split: option.splits sum.splits if_splits)

lemma abandon_core: "scope_core (map_values abandon_cell m) k = scope_core m k"
  by (simp add: scope_core_def abandon_cell_def split: option.splits)

lemma exec_core:
  assumes ex: "exec padd tr now cmd s = (resp, s')"
    and off: "\<And>l. commits cmd = Some l \<Longrightarrow> sy_scope l = k \<Longrightarrow> sy_token l \<noteq> scope_gen (in_scopes s) k"
  shows "scope_core (in_scopes s') k = scope_core (in_scopes s) k"
proof -
  have calm: ?thesis if "scope_scalars (in_scopes s') = scope_scalars (in_scopes s)"
    using scope_core_scalars [OF that] by simp
  note unpack = apfst_def map_prod_def
  show ?thesis
  proof (cases cmd)
    case (CApply l b)
    with ex obtain r where "apply_sync_update padd now tr l b s = (r, s')" by (auto simp: unpack split: prod.splits)
    then show ?thesis using off [of l] CApply by (intro apply_core) auto
  next
    case (CForget l)
    then show ?thesis using ex off [of l] current_cell_gen [of l s]
      by (auto simp: unpack forget_scope_under_def put_cell_def scope_core_put split: option.splits)
  next
    case (CClaimScope a sc req)
    with ex show ?thesis by (auto simp: unpack claim_core split: prod.splits)
  next
    case CAbandon
    with ex show ?thesis by (auto simp: unpack abandon_sync_leases_def abandon_core)
  next
    case (CSetWindow l w)
    with ex show ?thesis by (auto simp: unpack lease_ops_core split: prod.splits)
  next
    case (CMaintain l d)
    with ex show ?thesis by (auto simp: unpack lease_ops_core split: prod.splits)
  next
    case (CRenewScope l ttl)
    with ex show ?thesis by (auto simp: unpack lease_ops_core split: prod.splits)
  next
    case (CRelease l)
    with ex show ?thesis by (auto simp: lease_ops_core)
  next
    case CRecoverOps
    with ex show ?thesis by (intro calm) (auto simp: unpack outbox_ops_scopes split: prod.splits)
  next
    case (CEnqueue a op)
    with ex show ?thesis by (intro calm) (auto simp: unpack enqueue_scopes split: prod.splits)
  next
    case (CClaimOps a req limit)
    with ex show ?thesis by (intro calm) (auto simp: unpack claims_scopes split: prod.splits)
  next
    case (CClaimOp a i req)
    with ex show ?thesis by (intro calm) (auto simp: unpack claims_scopes split: prod.splits)
  next
    case (CHandOver l)
    with ex show ?thesis by (intro calm) (auto simp: unpack outbox_ops_scopes split: prod.splits)
  next
    case (CRenewOp l ttl)
    with ex show ?thesis by (intro calm) (auto simp: unpack outbox_ops_scopes split: prod.splits)
  next
    case (CMark l out)
    with ex show ?thesis by (intro calm) (auto simp: unpack mark_scopes split: prod.splits)
  next
    case (CCancel a i)
    with ex show ?thesis by (intro calm) (auto simp: unpack cancel_def host_verb_scopes split: prod.splits)
  next
    case (CRetryNow a i)
    with ex show ?thesis by (intro calm) (auto simp: unpack retry_now_def host_verb_scopes split: prod.splits)
  next
    case (CConfirm a i answer)
    with ex show ?thesis by (intro calm) (auto simp: unpack confirm_def host_verb_scopes split: prod.splits)
  qed
qed

section \<open>Runs of the store\<close>

lemma scope_gen_bound:
  fixes h :: "('v, 'o, 'p) history"
  assumes "history padd tr h s" "length h < 2 ^ 64"
  shows "unat (scope_gen (in_scopes s) k) \<le> length h"
  using scope_lease.run_gen_bound [OF history_scope_run [OF assms(1)], of k] assms(2) by simp

text \<open>A generation never goes back.\<close>

lemma steps_gen:
  fixes h0 h :: "('v, 'o, 'p) history"
  assumes "steps padd tr s h s'" "history padd tr h0 s" "length (h0 @ h) < 2 ^ 64"
  shows "unat (scope_gen (in_scopes s) k) \<le> unat (scope_gen (in_scopes s') k)"
  using assms
proof (induction rule: steps.induct)
  case (steps_snoc h s1 now cmd resp s2)
  then have "unat (scope_gen (in_scopes s) k) \<le> unat (scope_gen (in_scopes s1) k)" by simp
  moreover have "unat (scope_gen (in_scopes s1) k) < 2 ^ 64 - 1"
    using scope_gen_bound [OF history_join [OF steps_snoc.hyps(1) steps_snoc.prems(1)], of k] steps_snoc.prems(2) by simp
  then have "unat (fence_bump (scope_gen (in_scopes s1) k)) = Suc (unat (scope_gen (in_scopes s1) k))"
    by (simp add: fence_bump_unat)
  moreover have "scope_gen (in_scopes s2) k = scope_gen (in_scopes s1) k \<or>
      scope_gen (in_scopes s2) k = fence_bump (scope_gen (in_scopes s1) k)"
    using exec_scope_gen [OF steps_snoc.hyps(2)] by blast
  ultimately show ?case by (elim disjE) simp_all
qed simp

text \<open>
  While a scope's generation stays what it was, and nobody commits under a lease of that generation, its
  cursor and objects stay as they were.
\<close>

definition off :: "sync_scope \<Rightarrow> fence_token \<Rightarrow> ('v, 'o, 'p) history \<Rightarrow> bool" where
  "off k t h \<longleftrightarrow> (\<forall>(cmd, resp) \<in> set h. is_none_or (commits cmd) (\<lambda>l. \<not> (sy_scope l = k \<and> sy_token l = t)))"

lemma off_simps [simp]:
  "off k t []" "off k t (h @ h') \<longleftrightarrow> off k t h \<and> off k t h'"
  by (auto simp: off_def)

lemma steps_frozen:
  fixes h0 h :: "('v, 'o, 'p) history"
  assumes "steps padd tr s h s'" "history padd tr h0 s" "length (h0 @ h) < 2 ^ 64" "off k t h"
    and "scope_gen (in_scopes s) k = t" "scope_gen (in_scopes s') k = t"
  shows "scope_core (in_scopes s') k = scope_core (in_scopes s) k"
  using assms
proof (induction rule: steps.induct)
  case (steps_snoc h s1 now cmd resp s2)
  have h1: "history padd tr (h0 @ h) s1" using history_join [OF steps_snoc.hyps(1) steps_snoc.prems(1)] .
  have "unat (scope_gen (in_scopes s) k) \<le> unat (scope_gen (in_scopes s1) k)"
    using steps_gen [OF steps_snoc.hyps(1) steps_snoc.prems(1)] steps_snoc.prems(2) by simp
  moreover have "steps padd tr s1 ([] @ [(cmd, resp)]) s2" by (rule steps.intros(2) [OF steps.intros(1) steps_snoc.hyps(2)])
  from steps_gen [OF this h1, of k] have "unat (scope_gen (in_scopes s1) k) \<le> unat (scope_gen (in_scopes s2) k)"
    using steps_snoc.prems(2) by simp
  ultimately have g1: "scope_gen (in_scopes s1) k = t"
    using steps_snoc.prems(4,5) by (simp add: word_unat_eq_iff)
  have "scope_core (in_scopes s2) k = scope_core (in_scopes s1) k"
    using steps_snoc.prems(3) g1 by (intro exec_core [OF steps_snoc.hyps(2)]) (auto simp: off_def)
  with steps_snoc.IH [OF steps_snoc.prems(1)] steps_snoc.prems g1 show ?case by simp
qed simp

section \<open>Runs of a world\<close>

type_synonym ('v, 'o, 'p) acted = "(bool \<times> ('v, 'o, 'p) act) list"

definition follows :: "pdt_add \<Rightarrow> ('o, 'v) sync_object \<Rightarrow> ('v, 'o, 'p) world \<Rightarrow> ('v, 'o, 'p) acted \<Rightarrow> ('v, 'o, 'p) world \<Rightarrow> bool" where
  "follows padd tr w q w' \<longleftrightarrow> wd_trace w' = wd_trace w @ q \<and> steps padd tr (wd_store w) (cmds_of (map snd q)) (wd_store w')"

lemma steps_join: "steps padd tr s1 h2 s2 \<Longrightarrow> steps padd tr s0 h1 s1 \<Longrightarrow> steps padd tr s0 (h1 @ h2) s2"
  by (induction rule: steps.induct) (auto simp flip: append_assoc intro: steps.intros)

lemma follows_refl [simp]: "follows padd tr w [] w"
  by (simp add: follows_def steps.intros)

lemma follows_trans: "follows padd tr w q w1 \<Longrightarrow> follows padd tr w1 q' w2 \<Longrightarrow> follows padd tr w (q @ q') w2"
  by (auto simp: follows_def intro: steps_join)

lemma follows_at [simp]:
  "follows padd tr w q (w'\<lparr>wd_at := n\<rparr>) = follows padd tr w q w'"
  "follows padd tr w q (w'\<lparr>wd_renewals := rs\<rparr>) = follows padd tr w q w'"
  by (simp_all add: follows_def)

lemma follows_cmds: "follows padd tr w q w' \<Longrightarrow> cmds w' = cmds w @ cmds_of (map snd q)"
  by (simp add: follows_def acts_def)

lemma follows_history:
  "follows padd tr w q w' \<Longrightarrow> history padd tr (cmds w) (wd_store w) \<Longrightarrow> history padd tr (cmds w') (wd_store w')"
  by (simp add: follows_cmds) (auto simp: follows_def intro: history_join)

text \<open>What happens between a driver's calls: the others' acts, and its renewals.\<close>

fun renews :: "('v, 'o, 'p) command \<Rightarrow> bool" where
  "renews (CRenewOp _ _) = True"
| "renews (CRenewScope _ _) = True"
| "renews _ = False"

definition bystanders :: "('v, 'o, 'p) acted \<Rightarrow> bool" where
  "bystanders q \<longleftrightarrow> (\<forall>(mine, a) \<in> set q. mine \<longrightarrow> (\<exists>cmd r. a = Did cmd (RUnit r) \<and> renews cmd))"

lemma bystandersD: "bystanders q \<Longrightarrow> (True, a) \<in> set q \<Longrightarrow> \<exists>cmd r. a = Did cmd (RUnit r) \<and> renews cmd"
  unfolding bystanders_def by fast

lemma renews_commits: "renews cmd \<Longrightarrow> commits cmd = None"
  by (cases cmd) simp_all

lemma bystanders_simps [simp]: "bystanders []" "bystanders (q @ q') \<longleftrightarrow> bystanders q \<and> bystanders q'"
  by (simp_all add: bystanders_def ball_Un)

lemma perform_follows:
  "perform padd tr mine now cmd w = (resp, w') \<Longrightarrow> follows padd tr w [(mine, Did cmd resp)] w' \<and>
     exec padd tr now cmd (wd_store w) = (resp, wd_store w')"
  using steps.intros(2) [OF steps.intros(1), of padd tr now cmd "wd_store w"]
  by (auto simp: perform_def follows_def split: prod.splits)

lemma run_event_follows: "\<exists>q. follows padd tr w q (run_event padd tr e w) \<and> bystanders q"
proof (cases e)
  case (Other now cmd)
  then show ?thesis using perform_follows [of padd tr False now cmd w "fst (perform padd tr False now cmd w)"]
    by (intro exI [of _ "[(False, Did cmd (fst (perform padd tr False now cmd w)))]"]) (simp add: bystanders_def)
next
  case (OtherDelivers l)
  then show ?thesis
    by (intro exI [of _ "[(False, Delivers l)]"]) (simp add: delivered_def follows_def bystanders_def steps.intros)
next
  case (Tick now k)
  show ?thesis
  proof (cases "k < length (wd_renewals w) \<and> wd_renewals w ! k \<noteq> None")
    case True
    then obtain l ttl where l: "wd_renewals w ! k = Some (l, ttl)" by auto
    obtain resp w' where p: "perform padd tr True now (CRenewOp l ttl) w = (resp, w')" by force
    obtain u where "resp = RUnit u"
      using p by (auto simp: perform_def apfst_def map_prod_def split: prod.splits)
    then show ?thesis using True l Tick p perform_follows [OF p]
      by (intro exI [of _ "[(True, Did (CRenewOp l ttl) resp)]"]) (simp add: bystanders_def)
  next
    case False
    then have "run_event padd tr e w = w" using Tick by (auto split: option.splits)
    then show ?thesis by (intro exI [of _ "[]"]) simp
  qed
qed

lemma interfere_follows: "\<exists>q. follows padd tr w q (interfere padd tr w) \<and> bystanders q"
proof -
  have "\<exists>q. follows padd tr w q (fold (run_event padd tr) es w) \<and> bystanders q" for es
  proof (induction es arbitrary: w)
    case (Cons e es)
    obtain q where "follows padd tr w q (run_event padd tr e w)" "bystanders q" using run_event_follows by blast
    moreover obtain q' where "follows padd tr (run_event padd tr e w) q' (fold (run_event padd tr) es (run_event padd tr e w))" "bystanders q'"
      using Cons.IH by blast
    ultimately show ?case by (intro exI [of _ "q @ q'"]) (auto intro: follows_trans)
  qed (auto intro: exI [of _ "[]"])
  then show ?thesis by (simp add: interfere_def)
qed

lemma run_reader_follows: "run_reader padd tr rd w = (r, w') \<Longrightarrow> \<exists>q. follows padd tr w q w' \<and> bystanders q"
proof (induction rd arbitrary: w)
  case (Read f)
  obtain q where q: "follows padd tr w q (interfere padd tr w)" "bystanders q" using interfere_follows by blast
  have "run_reader padd tr (f (sd_now (wd_sched w (wd_at w))) (wd_store (interfere padd tr w))) (interfere padd tr w) = (r, w')"
    using Read.prems by simp
  from Read.IH [OF _ _ this] obtain q' where "follows padd tr (interfere padd tr w) q' w'" "bystanders q'" by auto
  with q show ?case by (intro exI [of _ "q @ q'"]) (auto intro: follows_trans)
qed (auto intro: exI [of _ "[]"])

lemma store_call_follows:
  assumes "store_call padd tr cmd w = (resp, w')"
  obtains q w1 now where "follows padd tr w q w1" "bystanders q" "exec padd tr now cmd (wd_store w1) = (resp, wd_store w')"
    "follows padd tr w1 [(True, Did cmd resp)] w'"
proof -
  obtain q where "follows padd tr w q (interfere padd tr w)" "bystanders q" using interfere_follows by blast
  with perform_follows [of padd tr True _ cmd "interfere padd tr w" resp w'] assms show thesis
    by (auto simp: store_call_def intro: that)
qed

text \<open>The leases handed to the driver itself, and its claims.\<close>

fun handed :: "bool \<times> ('v, 'o, 'p) act \<Rightarrow> sync_lease list" where
  "handed (True, Did cmd resp) = minted_sync resp"
| "handed _ = []"

definition own_minted :: "('v, 'o, 'p) acted \<Rightarrow> sync_lease list" where
  "own_minted q = concat (map handed q)"

fun is_claim :: "bool \<times> ('v, 'o, 'p) act \<Rightarrow> bool" where
  "is_claim (True, Did (CClaimScope _ _ _) _) = True"
| "is_claim _ = False"

definition own_claims :: "('v, 'o, 'p) acted \<Rightarrow> nat" where
  "own_claims q = length (filter is_claim q)"

lemma own_minted_simps [simp]:
  "own_minted [] = []" "own_minted (q @ q') = own_minted q @ own_minted q'" "own_minted (x # q) = handed x @ own_minted q"
  by (simp_all add: own_minted_def)

lemma own_claims_simps [simp]:
  "own_claims [] = 0" "own_claims (q @ q') = own_claims q + own_claims q'"
  "own_claims (x # q) = (if is_claim x then 1 else 0) + own_claims q"
  by (simp_all add: own_claims_def)

text \<open>No other party commits under a lease handed to this driver.\<close>

definition keeps_off :: "sync_lease set \<Rightarrow> ('v, 'o, 'p) acted \<Rightarrow> bool" where
  "keeps_off M q \<longleftrightarrow> (\<forall>cmd resp l. (False, Did cmd resp) \<in> set q \<longrightarrow> commits cmd = Some l \<longrightarrow>
     (sy_scope l, sy_token l) \<notin> (\<lambda>l. (sy_scope l, sy_token l)) ` M)"

lemma keeps_off_simps [simp]:
  "keeps_off M (q @ q') \<longleftrightarrow> keeps_off M q \<and> keeps_off M q'" "keeps_off M ((True, a) # q) \<longleftrightarrow> keeps_off M q"
  by (auto simp: keeps_off_def)

lemma cmds_of_mem: "(cmd, resp) \<in> set (cmds_of p) \<longleftrightarrow> Did cmd resp \<in> set p"
  by (induction p rule: cmds_of.induct) auto

lemma keeps_off_bystanders:
  assumes "keeps_off M q" "bystanders q" "l \<in> M"
  shows "off (sy_scope l) (sy_token l) (cmds_of (map snd q))"
proof -
  have "\<not> (sy_scope l' = sy_scope l \<and> sy_token l' = sy_token l)"
    if "(cmd, resp) \<in> set (cmds_of (map snd q))" "commits cmd = Some l'" for cmd resp l'
  proof -
    have "Did cmd resp \<in> snd ` set q" using that(1) by (simp add: cmds_of_mem)
    then obtain mine where m: "(mine, Did cmd resp) \<in> set q" by force
    have "\<not> mine" using bystandersD [OF assms(2)] m that(2) renews_commits by fastforce
    then show ?thesis using assms(1,3) m that(2) by (force simp: keeps_off_def)
  qed
  then show ?thesis unfolding off_def is_none_or_def by (auto split: option.splits)
qed

section \<open>One claim\<close>

lemma claim_call_ok:
  fixes w :: "('v, 'o, 'p) world"
  assumes "claim_scope_call padd tr account scope req w = (r, w')"
  obtains q w1 resp now where "follows padd tr w q w1" "bystanders q"
    "exec padd tr now (CClaimScope account scope req :: ('v, 'o, 'p) command) (wd_store w1) = (resp, wd_store w')"
    "follows padd tr w1 [(True, Did (CClaimScope account scope req) resp)] w'" "resp = RClaim r"
proof -
  obtain resp where c: "store_call padd tr (CClaimScope account scope req) w = (resp, w')" "r = resp_claim resp"
    using assms by (auto simp: claim_scope_call_def apfst_def map_prod_def split: prod.splits)
  from c(1) show thesis
  proof (rule store_call_follows)
    fix q w1 now
    assume "follows padd tr w q w1" "bystanders q" "follows padd tr w1 [(True, Did (CClaimScope account scope req) resp)] w'"
      and ex: "exec padd tr now (CClaimScope account scope req :: ('v, 'o, 'p) command) (wd_store w1) = (resp, wd_store w')"
    moreover have "resp = RClaim r" using ex c(2) by (auto simp: apfst_def map_prod_def split: prod.splits)
    ultimately show thesis using that by blast
  qed
qed

lemma claim_handed:
  assumes "exec padd tr now (CClaimScope account scope req) s = (RClaim (Inr claim), s')"
  shows "sy_scope (cl_lease claim) = scope" "sy_token (cl_lease claim) = scope_gen (in_scopes s') scope"
    "cl_state claim = load_sync_state scope s'"
  using assms
  by (auto simp: apfst_def map_prod_def claim_sync_scope_def Let_def scope_gen_def load_sync_state_def
      split: prod.splits sum.splits option.splits if_splits)

definition ended :: "sync_lease \<Rightarrow> 'v inner \<Rightarrow> bool" where
  "ended l s \<longleftrightarrow> is_none_or (current_cell l s) (\<lambda>c. sc_lease_expiry c = None)"

lemma release_ends: "ended l (release_scope l s)"
  by (auto simp: ended_def release_scope_def current_cell_def put_cell_def split: option.splits)

lemma lost_ended: "unat (sy_token l) < unat (scope_gen (in_scopes s) (sy_scope l)) \<Longrightarrow> ended l s"
  by (cases "current_cell l s") (auto simp: ended_def dest: current_cell_gen)

lemma apply_call_ok:
  fixes w :: "('v, 'o, 'p) world"
  assumes "apply_call padd tr l b w = (r, w')"
  obtains q w1 now where "follows padd tr w q w1" "bystanders q"
    "apply_sync_update padd now tr l b (wd_store w1) = (r, wd_store w')"
    "follows padd tr w1 [(True, Did (CApply l b) (RApplied r))] w'"
proof -
  obtain resp where c: "store_call padd tr (CApply l b) w = (resp, w')" "r = resp_applied resp"
    using assms by (auto simp: apply_call_def apfst_def map_prod_def split: prod.splits)
  from c(1) show thesis
  proof (rule store_call_follows)
    fix q w1 now
    assume "follows padd tr w q w1" "bystanders q" "follows padd tr w1 [(True, Did (CApply l b) resp)] w'"
      and ex: "exec padd tr now (CApply l b :: ('v, 'o, 'p) command) (wd_store w1) = (resp, wd_store w')"
    moreover have "resp = RApplied r" "apply_sync_update padd now tr l b (wd_store w1) = (r, wd_store w')"
      using ex c(2) by (auto simp: apfst_def map_prod_def split: prod.splits)
    ultimately show thesis using that by blast
  qed
qed

lemma release_call_ok:
  fixes w :: "('v, 'o, 'p) world"
  assumes "release_call padd tr l w = (r, w')"
  obtains q where "follows padd tr w (q @ [(True, Did (CRelease l) (RUnit (Inr ())))]) w'" "bystanders q"
    "r = Inr ()" "ended l (wd_store w')"
proof -
  obtain resp where c: "store_call padd tr (CRelease l) w = (resp, w')" "r = resp_unit resp"
    using assms by (auto simp: release_call_def apfst_def map_prod_def split: prod.splits)
  from c(1) show thesis
  proof (rule store_call_follows)
    fix q w1 now
    assume f: "follows padd tr w q w1" "bystanders q" "follows padd tr w1 [(True, Did (CRelease l) resp)] w'"
      and ex: "exec padd tr now (CRelease l :: ('v, 'o, 'p) command) (wd_store w1) = (resp, wd_store w')"
    have "resp = RUnit (Inr ())" "wd_store w' = release_scope l (wd_store w1)" using ex by auto
    then show thesis using c(2) follows_trans [OF f(1,3)] f(2) release_ends [of l "wd_store w1"] by (intro that) auto
  qed
qed

lemma bystanders_own [simp]:
  assumes "bystanders q"
  shows "own_claims q = 0" "own_minted q = []"
proof -
  have "\<not> is_claim x \<and> handed x = []" if member: "x \<in> set q" for x
  proof (cases x)
    case (Pair mine a)
    show ?thesis
    proof (cases mine)
      case True
      then obtain cmd r where "a = Did cmd (RUnit r)" "renews cmd" using bystandersD [OF assms, of a] member Pair by auto
      then show ?thesis using Pair True by (cases cmd) simp_all
    qed (use Pair in \<open>cases a; simp\<close>)
  qed
  then show "own_claims q = 0" "own_minted q = []" by (auto simp: own_claims_def own_minted_def filter_empty_conv)
qed

section \<open>The cycle\<close>

text \<open>
  One round of the cycle: the claim, quiet reads, and then one of its ends. A round that fetched and found
  its lease stale goes on with the next.
\<close>

lemma run_scope_from_cases:
  assumes "run_scope_from padd psub tr account y req n w = (r, w')"
  obtains (refused) e where "claim_scope_call padd tr account (syn_scope y) req w = (Inl e, w')" "r = Inl (SeStore e)"
  | (unread) claim w1 q w2 u where "claim_scope_call padd tr account (syn_scope y) req w = (Inr claim, w1)"
      "follows padd tr w1 q w2" "bystanders q" "release_call padd tr (cl_lease claim) w2 = (u, w')"
      "\<And>applied meta. r \<noteq> Inr (ScApplied applied meta)"
  | (committed) claim w1 sync meta obs q w2 ra w3 u where "claim_scope_call padd tr account (syn_scope y) req w = (Inr claim, w1)"
      "syn_fetch y (wd_at w1) (cl_state claim) = Inr (Proceed sync meta)"
      "follows padd tr w1 q w2" "bystanders q"
      "apply_call padd tr (cl_lease claim) (scope_batch psub y req (cl_lease claim) sync obs) w2 = (ra, w3)"
      "release_call padd tr (cl_lease claim) w3 = (u, w')"
      "case ra of Inr applied \<Rightarrow> r = Inr (ScApplied applied meta) | Inl e \<Rightarrow> r = Inl (SeStore e)"
  | (stale) claim w1 sync obs q w2 w3 where "claim_scope_call padd tr account (syn_scope y) req w = (Inr claim, w1)"
      "follows padd tr w1 q w2" "bystanders q"
      "apply_call padd tr (cl_lease claim) (scope_batch psub y req (cl_lease claim) sync obs) w2 = (Inl StaleLease, w3)"
      "n < max_stale_reclaims" "run_scope_from padd psub tr account y req (n + 1) w3 = (r, w')"
proof -
  obtain rc w1 where c: "claim_scope_call padd tr account (syn_scope y) req w = (rc, w1)" by force
  show thesis
  proof (cases rc)
    case (Inl e)
    with assms c show thesis by (intro refused [of e]) (auto simp: run_scope_from.simps [of padd psub])
  next
    case claim: (Inr claim)
    show thesis
    proof (cases "syn_fetch y (wd_at w1) (cl_state claim)")
      case (Inl err)
      with assms c claim show thesis
        by (intro unread [of claim w1 "[]" w1 "fst (release_call padd tr (cl_lease claim) w1)"])
          (auto simp: run_scope_from.simps [of padd psub] release_failing_def)
    next
      case f: (Inr fetched)
      show thesis
      proof (cases fetched)
        case (Halt h)
        with assms c claim f show thesis
          by (intro unread [of claim w1 "[]" w1 "fst (release_call padd tr (cl_lease claim) w1)"])
            (auto simp: run_scope_from.simps [of padd psub] release_then_def split: prod.splits sum.splits)
      next
        case (Proceed sync meta)
        obtain ro w2 where o: "run_reader padd tr (syn_observations y (zs_update sync)) w1 = (ro, w2)" by force
        obtain q where q: "follows padd tr w1 q w2" "bystanders q" using run_reader_follows [OF o] by blast
        show thesis
        proof (cases ro)
          case (Inl e)
          with assms c claim f Proceed o q show thesis
            by (intro unread [of claim w1 q w2 "fst (release_call padd tr (cl_lease claim) w2)"])
              (auto simp: run_scope_from.simps [of padd psub] release_failing_def)
        next
          case (Inr obs)
          obtain ra w3 where a: "apply_call padd tr (cl_lease claim) (scope_batch psub y req (cl_lease claim) sync obs) w2 = (ra, w3)" by force
          obtain u w4 where u: "release_call padd tr (cl_lease claim) w3 = (u, w4)" by force
          have [simp]: "u = Inr ()" using u by (rule release_call_ok) 
          show thesis
          proof (cases "ra = Inl StaleLease \<and> n < max_stale_reclaims")
            case True
            with assms c claim f Proceed o q Inr a show thesis
              by (intro stale [of claim w1 q w2 sync obs w3]) (auto simp: run_scope_from.simps [of padd psub _ _ _ _ n])
          next
            case False
            with assms c claim f Proceed o q Inr a u show thesis
              by (intro committed [of claim w1 sync meta q w2 obs ra w3 u])
                (auto simp: run_scope_from.simps [of padd psub _ _ _ _ n] release_failing_def release_then_def split: sum.splits if_splits)
          qed
        qed
      qed
    qed
  qed
qed

text \<open>
  Every end of a pass releases: whatever it answers, none of the leases handed to it is still held, and it
  has claimed the scope at most once more than it was found stale.
\<close>

lemma steps_keep_lost:
  fixes w :: "('v, 'o, 'p) world"
  assumes "follows padd tr w q w'" "history padd tr (cmds w) (wd_store w)" "length (cmds w') < 2 ^ 64"
    and "unat (sy_token l) < unat (scope_gen (in_scopes (wd_store w)) (sy_scope l))"
  shows "unat (sy_token l) < unat (scope_gen (in_scopes (wd_store w')) (sy_scope l))"
proof -
  have "steps padd tr (wd_store w) (cmds_of (map snd q)) (wd_store w')" using assms(1) by (simp add: follows_def)
  from steps_gen [OF this assms(2), of "sy_scope l"] follows_cmds [OF assms(1)] assms(3,4) show ?thesis by simp
qed

text \<open>A lease that is handed out and refused as stale later is behind its scope's generation.\<close>

lemma stale_is_lost:
  fixes w :: "('v, 'o, 'p) world"
  assumes "follows padd tr w q w'" "history padd tr (cmds w) (wd_store w)" "length (cmds w') < 2 ^ 64"
    and "sy_token l = scope_gen (in_scopes (wd_store w)) (sy_scope l)" "current_cell l (wd_store w') = None"
    and "0 < unat (sy_token l)"
  shows "unat (sy_token l) < unat (scope_gen (in_scopes (wd_store w')) (sy_scope l))"
proof -
  have "steps padd tr (wd_store w) (cmds_of (map snd q)) (wd_store w')" using assms(1) by (simp add: follows_def)
  from steps_gen [OF this assms(2), of "sy_scope l"] follows_cmds [OF assms(1)] assms(3,4)
  have "unat (sy_token l) \<le> unat (scope_gen (in_scopes (wd_store w')) (sy_scope l))" by simp
  moreover have "sy_token l \<noteq> scope_gen (in_scopes (wd_store w')) (sy_scope l)"
    using assms(5,6) by (auto simp: current_cell_None scope_gen_def fence_initial_def split: option.splits)
  ultimately show ?thesis by (simp add: word_unat_eq_iff)
qed

lemma claim_call_handed:
  fixes w :: "('v, 'o, 'p) world"
  assumes "claim_scope_call padd tr account scope req w = (Inr claim, w')"
    and "history padd tr (cmds w) (wd_store w)" "length (cmds w') < 2 ^ 64"
  obtains q where "follows padd tr w (q @ [(True, Did (CClaimScope account scope req) (RClaim (Inr claim)))]) w'" "bystanders q"
    "sy_scope (cl_lease claim) = scope" "sy_token (cl_lease claim) = scope_gen (in_scopes (wd_store w')) scope"
    "cl_state claim = load_sync_state scope (wd_store w')" "0 < unat (sy_token (cl_lease claim))"
  using assms(1)
proof (rule claim_call_ok)
  fix q w1 resp now
  assume f: "follows padd tr w q w1" "bystanders q" "follows padd tr w1 [(True, Did (CClaimScope account scope req) resp)] w'"
    and ex: "exec padd tr now (CClaimScope account scope req :: ('v, 'o, 'p) command) (wd_store w1) = (resp, wd_store w')"
    and [simp]: "resp = RClaim (Inr claim)"
  have "length (cmds w1) < 2 ^ 64 - 1" using assms(3) follows_cmds [OF f(3)] by simp
  then have "unat (scope_gen (in_scopes (wd_store w1)) scope) < 2 ^ 64 - 1"
    using scope_gen_bound [OF follows_history [OF f(1) assms(2)], of scope] by simp
  moreover have "sy_token (cl_lease claim) = fence_bump (scope_gen (in_scopes (wd_store w1)) scope)"
    using exec_scope_gen [OF ex] claim_handed(1) [of padd tr now account scope req "wd_store w1" claim "wd_store w'"] ex by auto
  ultimately have "0 < unat (sy_token (cl_lease claim))" by (simp add: fence_bump_unat)
  with follows_trans [OF f(1,3)] f(2) claim_handed [of padd tr now account scope req "wd_store w1" claim "wd_store w'"] ex
  show thesis by (intro that) auto
qed

text \<open>An apply refused as stale was refused for its lease: its other errors are of another kind.\<close>

lemma cell_recover_err: "cell_recover padd now c = (Inl e, c') \<Longrightarrow> e = Backend ''retry delay overflow''"
  by (auto simp: cell_recover_def cell_record_def cell_recorded_def record_outcome_def Let_def
      split: sum.splits prod.splits option.splits if_splits pending_outcome.splits)

lemma reconcile_loop_err: "reconcile_loop padd now recs ops ap = (Inl e, ops') \<Longrightarrow> e = Backend ''retry delay overflow''"
  by (induction recs arbitrary: ops ap)
    (auto split: option.splits sum.splits prod.splits if_splits dest: cell_recover_err)

lemma apply_update_err: "apply_update tr u c ap = (Inl e, c') \<Longrightarrow> \<exists>msg. e = Backend msg"
  by (cases u) (auto simp: Let_def split: sum.splits prod.splits dest: upsert_loop_err)

lemma stale_apply_iff: "apply_sync_update padd now tr l b s = (Inl StaleLease, s') \<Longrightarrow> current_cell l s = None"
  by (erule apply_sync_update_cases) (auto dest: apply_update_err reconcile_loop_err)

lemma applied_current: "apply_sync_update padd now tr l b s = (Inr ap, s') \<Longrightarrow> current_cell l s \<noteq> None"
  by (erule apply_sync_update_cases) auto

lemma claim_call_follows: "claim_scope_call padd tr account scope req w = (r, w') \<Longrightarrow> \<exists>q. follows padd tr w q w'"
  by (erule claim_call_ok) (blast intro: follows_trans)

lemma apply_call_follows: "apply_call padd tr l b w = (r, w') \<Longrightarrow> \<exists>q. follows padd tr w q w'"
  by (erule apply_call_ok) (blast intro: follows_trans)

lemma release_call_follows: "release_call padd tr l w = (r, w') \<Longrightarrow> \<exists>q. follows padd tr w q w'"
  by (erule release_call_ok) blast

lemma run_scope_from_follows: "run_scope_from padd psub tr account y req n w = (r, w') \<Longrightarrow> \<exists>q. follows padd tr w q w'"
proof (induction "max_stale_reclaims - n" arbitrary: n w rule: less_induct)
  case less
  from less.prems show ?case
  proof (cases rule: run_scope_from_cases)
    case (stale claim w1 sync obs q w2 w3)
    then obtain q' where "follows padd tr w3 q' w'" 
      using less.hyps [of "n + 1" w3] by (auto simp: diff_less_mono2)
    then show ?thesis using stale(2) claim_call_follows [OF stale(1)] apply_call_follows [OF stale(4)] by (blast intro: follows_trans)
  next
    case (unread claim w1 q w2 u)
    then show ?thesis using claim_call_follows [OF unread(1)] release_call_follows [OF unread(4)] by (blast intro: follows_trans)
  next
    case (committed claim w1 sync meta obs q w2 ra w3 u)
    then show ?thesis using claim_call_follows [OF committed(1)] release_call_follows [OF committed(6)] apply_call_follows [OF committed(5)]
      by (blast intro: follows_trans)
  qed (rule claim_call_follows)
qed

lemma run_scope_from_ends:
  fixes w :: "('v, 'o, 'p) world"
  assumes "run_scope_from padd psub tr account y req n w = (r, w')"
    and "history padd tr (cmds w) (wd_store w)" and len: "length (cmds w') < 2 ^ 64"
  shows "\<exists>q. follows padd tr w q w' \<and> (\<forall>l \<in> set (own_minted q). ended l (wd_store w')) \<and>
    own_claims q \<le> Suc (max_stale_reclaims - n)"
  using assms(1,2)
proof (induction "max_stale_reclaims - n" arbitrary: n w rule: less_induct)
  case less
  have short: "length (cmds w1) < 2 ^ 64" if "follows padd tr w1 q w'" for w1 q
    using follows_cmds [OF that] len by simp
  from less.prems(1) show ?case
  proof (cases rule: run_scope_from_cases)
    case (refused e)
    from refused(1) show ?thesis
    proof (rule claim_call_ok)
      fix q w1 resp now
      assume "follows padd tr w q w1" "bystanders q" "follows padd tr w1 [(True, Did (CClaimScope account (syn_scope y) req) resp)] w'"
        "resp = RClaim (Inl e)"
      then show ?thesis
        by (intro exI [of _ "q @ [(True, Did (CClaimScope account (syn_scope y) req) resp)]"] conjI) (auto intro: follows_trans)
    qed
  next
    case (unread claim w1 q w2 u)
    from unread(4) obtain q' where q': "follows padd tr w2 (q' @ [(True, Did (CRelease (cl_lease claim)) (RUnit (Inr ())))]) w'" "bystanders q'"
      "ended (cl_lease claim) (wd_store w')" by (rule release_call_ok)
    note tail = follows_trans [OF unread(2) q'(1)]
    from unread(1) less.prems(2) short [OF tail]
    obtain q0 where q0: "follows padd tr w (q0 @ [(True, Did (CClaimScope account (syn_scope y) req) (RClaim (Inr claim)))]) w1" "bystanders q0"
      by (rule claim_call_handed)
    show ?thesis by (rule exI, rule conjI, rule follows_trans [OF q0(1) tail]) (use q' q0(2) unread(3) in auto)
  next
    case (committed claim w1 sync meta obs q w2 ra w3 u)
    from committed(6) obtain q' where q': "follows padd tr w3 (q' @ [(True, Did (CRelease (cl_lease claim)) (RUnit (Inr ())))]) w'" "bystanders q'"
      "ended (cl_lease claim) (wd_store w')" by (rule release_call_ok)
    from committed(5) obtain q1 w4 where q1: "follows padd tr w2 q1 w4" "bystanders q1"
      "follows padd tr w4 [(True, Did (CApply (cl_lease claim) (scope_batch psub y req (cl_lease claim) sync obs)) (RApplied ra))] w3"
      by (rule apply_call_ok)
    note tail = follows_trans [OF committed(3) follows_trans [OF follows_trans [OF q1(1,3)] q'(1)]]
    from committed(1) less.prems(2) short [OF tail]
    obtain q0 where q0: "follows padd tr w (q0 @ [(True, Did (CClaimScope account (syn_scope y) req) (RClaim (Inr claim)))]) w1" "bystanders q0"
      by (rule claim_call_handed)
    show ?thesis by (rule exI, rule conjI, rule follows_trans [OF q0(1) tail]) (use q' q0(2) q1(2) committed(4) in auto)
  next
    case (stale claim w1 sync obs q w2 w3)
    from stale(4) obtain q1 w4 now where q1: "follows padd tr w2 q1 w4" "bystanders q1"
      "apply_sync_update padd now tr (cl_lease claim) (scope_batch psub y req (cl_lease claim) sync obs) (wd_store w4) =
        (Inl StaleLease, wd_store w3)"
      "follows padd tr w4 [(True, Did (CApply (cl_lease claim) (scope_batch psub y req (cl_lease claim) sync obs)) (RApplied (Inl StaleLease)))] w3"
      by (rule apply_call_ok)
    obtain qr where qr: "follows padd tr w3 qr w'" using run_scope_from_follows [OF stale(6)] by blast
    note to4 = follows_trans [OF stale(2) q1(1)] and rest = follows_trans [OF q1(4) qr]
    from stale(1) less.prems(2) short [OF follows_trans [OF to4 rest]]
    obtain q0 where q0: "follows padd tr w (q0 @ [(True, Did (CClaimScope account (syn_scope y) req) (RClaim (Inr claim)))]) w1" "bystanders q0"
      "sy_scope (cl_lease claim) = syn_scope y" "sy_token (cl_lease claim) = scope_gen (in_scopes (wd_store w1)) (syn_scope y)"
      "0 < unat (sy_token (cl_lease claim))"
      by (rule claim_call_handed)
    have h1: "history padd tr (cmds w1) (wd_store w1)" using follows_history [OF q0(1) less.prems(2)] .
    have h4: "history padd tr (cmds w4) (wd_store w4)" using follows_history [OF to4 h1] .
    have "unat (sy_token (cl_lease claim)) < unat (scope_gen (in_scopes (wd_store w4)) (sy_scope (cl_lease claim)))"
      using stale_is_lost [OF to4 h1 short [OF rest], of "cl_lease claim"] stale_apply_iff [OF q1(3)] q0(3-5) by simp
    from lost_ended [OF steps_keep_lost [OF rest h4 len this]] have gone: "ended (cl_lease claim) (wd_store w')" .
    obtain q' where q': "follows padd tr w3 q' w'" "\<forall>l \<in> set (own_minted q'). ended l (wd_store w')"
      "own_claims q' \<le> Suc (max_stale_reclaims - (n + 1))"
      using less.hyps [OF _ stale(6) follows_history [OF q1(4) h4]] stale(5) by (auto simp: diff_less_mono2)
    show ?thesis by (rule exI, rule conjI, rule follows_trans [OF q0(1) follows_trans [OF to4 follows_trans [OF q1(4) q'(1)]]])
      (use q' q0(2) q1(2) stale(3,5) gone in auto)
  qed
qed

text \<open>
  A pass that committed: its batch was fetched from the cursor it was handed, and that cursor and the
  objects beside it were still the stored ones when the batch went in.
\<close>

definition committed_fresh ::
  "pdt_add \<Rightarrow> pdt_add \<Rightarrow> ('o, 'v) sync_object \<Rightarrow> account_id \<Rightarrow> ('v, 'o, 'p, 'm, 'h) scope_syncer \<Rightarrow> lease_request \<Rightarrow>
   sync_applied \<Rightarrow> 'm \<Rightarrow> ('v, 'o, 'p) world \<Rightarrow> ('v, 'o, 'p) world \<Rightarrow> bool" where
  "committed_fresh padd psub tr account y req applied meta w w' \<longleftrightarrow>
     (\<exists>(claim :: sync_claim) sync obs batch now w1 w2 w3 qa qb qc.
        follows padd tr w (qa @ [(True, Did (CClaimScope account (syn_scope y) req) (RClaim (Inr claim)))]) w1 \<and>
        follows padd tr w1 qb w2 \<and>
        follows padd tr w2 [(True, Did (CApply (cl_lease claim) batch) (RApplied (Inr applied)))] w3 \<and>
        follows padd tr w3 qc w' \<and>
        sy_scope (cl_lease claim) = syn_scope y \<and> cl_state claim = load_sync_state (syn_scope y) (wd_store w1) \<and>
        syn_fetch y (wd_at w1) (cl_state claim) = Inr (Proceed sync meta) \<and>
        scope_core (in_scopes (wd_store w2)) (syn_scope y) = scope_core (in_scopes (wd_store w1)) (syn_scope y) \<and>
        batch = scope_batch psub y req (cl_lease claim) sync obs \<and>
        apply_sync_update padd now tr (cl_lease claim) batch (wd_store w2) = (Inr applied, wd_store w3))"

lemma committed_freshI:
  fixes claim :: sync_claim
  assumes "follows padd tr w (qa @ [(True, Did (CClaimScope account (syn_scope y) req) (RClaim (Inr claim)))]) w1"
    and "follows padd tr w1 qb w2"
    and "follows padd tr w2 [(True, Did (CApply (cl_lease claim) (scope_batch psub y req (cl_lease claim) sync obs)) (RApplied (Inr applied)))] w3"
    and "follows padd tr w3 qc w'"
    and "sy_scope (cl_lease claim) = syn_scope y" "cl_state claim = load_sync_state (syn_scope y) (wd_store w1)"
    and "syn_fetch y (wd_at w1) (cl_state claim) = Inr (Proceed sync meta)"
    and "scope_core (in_scopes (wd_store w2)) (syn_scope y) = scope_core (in_scopes (wd_store w1)) (syn_scope y)"
    and "apply_sync_update padd now tr (cl_lease claim) (scope_batch psub y req (cl_lease claim) sync obs) (wd_store w2) = (Inr applied, wd_store w3)"
  shows "committed_fresh padd psub tr account y req applied meta w w'"
  unfolding committed_fresh_def using assms by blast

lemma committed_fresh_before:
  assumes "follows padd tr w q w3" "committed_fresh padd psub tr account y req applied meta w3 w'"
  shows "committed_fresh padd psub tr account y req applied meta w w'"
  using assms(2) follows_trans [OF assms(1)] unfolding committed_fresh_def by (metis append.assoc)

definition run_part :: "('v, 'o, 'p) world \<Rightarrow> ('v, 'o, 'p) world \<Rightarrow> ('v, 'o, 'p) acted" where
  "run_part w w' = drop (length (wd_trace w)) (wd_trace w')"

lemma run_part_follows [simp]: "follows padd tr w q w' \<Longrightarrow> run_part w w' = q"
  by (simp add: run_part_def follows_def)

text \<open>Between a claim and a commit accepted under it nothing of the scope changed.\<close>

lemma claim_to_commit:
  fixes w1 :: "('v, 'o, 'p) world"
  assumes "follows padd tr w1 q w2" "bystanders q" "history padd tr (cmds w1) (wd_store w1)" "length (cmds w2) < 2 ^ 64"
    and "sy_token l = scope_gen (in_scopes (wd_store w1)) (sy_scope l)" "l \<in> M" "keeps_off M q"
    and "current_cell l (wd_store w2) \<noteq> None"
  shows "scope_core (in_scopes (wd_store w2)) (sy_scope l) = scope_core (in_scopes (wd_store w1)) (sy_scope l)"
proof -
  have st: "steps padd tr (wd_store w1) (cmds_of (map snd q)) (wd_store w2)" using assms(1) by (simp add: follows_def)
  have "scope_gen (in_scopes (wd_store w2)) (sy_scope l) = sy_token l" using assms(8) current_cell_gen [of l] by force
  then show ?thesis
    using assms(4,5) follows_cmds [OF assms(1)]
    by (intro steps_frozen [OF st assms(3) _ keeps_off_bystanders [OF assms(7,2,6)]]) auto
qed

lemma run_scope_from_fresh:
  fixes w :: "('v, 'o, 'p) world"
  assumes "run_scope_from padd psub tr account y req n w = (Inr (ScApplied applied meta), w')"
    and "history padd tr (cmds w) (wd_store w)" and len: "length (cmds w') < 2 ^ 64"
    and "keeps_off M (run_part w w')" and "set (own_minted (run_part w w')) \<subseteq> M"
  shows "committed_fresh padd psub tr account y req applied meta w w'"
  using assms(1,2,4,5)
proof (induction "max_stale_reclaims - n" arbitrary: n w rule: less_induct)
  case less
  have short: "length (cmds w1) < 2 ^ 64" if "follows padd tr w1 q w'" for w1 q
    using follows_cmds [OF that] len by simp
  from less.prems(1) show ?case
  proof (cases rule: run_scope_from_cases)
    case (committed claim w1 sync meta' obs q w2 ra w3 u)
    have ra: "ra = Inr applied" "meta' = meta" using committed(7) by (cases ra; simp)+
    from committed(6) obtain qr where qr: "follows padd tr w3 qr w'" by (blast elim: release_call_ok)
    from committed(5) obtain q1 w4 now where q1: "follows padd tr w2 q1 w4" "bystanders q1"
      "apply_sync_update padd now tr (cl_lease claim) (scope_batch psub y req (cl_lease claim) sync obs) (wd_store w4) = (ra, wd_store w3)"
      "follows padd tr w4 [(True, Did (CApply (cl_lease claim) (scope_batch psub y req (cl_lease claim) sync obs)) (RApplied ra))] w3"
      by (rule apply_call_ok)
    note to4 = follows_trans [OF committed(3) q1(1)] and rest = follows_trans [OF q1(4) qr]
    from committed(1) less.prems(2) short [OF follows_trans [OF to4 rest]]
    obtain q0 where q0: "follows padd tr w (q0 @ [(True, Did (CClaimScope account (syn_scope y) req) (RClaim (Inr claim)))]) w1"
      "sy_scope (cl_lease claim) = syn_scope y" "sy_token (cl_lease claim) = scope_gen (in_scopes (wd_store w1)) (syn_scope y)"
      "cl_state claim = load_sync_state (syn_scope y) (wd_store w1)"
      by (rule claim_call_handed)
    have "current_cell (cl_lease claim) (wd_store w4) \<noteq> None"
      using applied_current q1(3) ra(1) by blast
    moreover have part: "run_part w w' = (q0 @ [(True, Did (CClaimScope account (syn_scope y) req) (RClaim (Inr claim)))]) @ (q @ q1) @
        [(True, Did (CApply (cl_lease claim) (scope_batch psub y req (cl_lease claim) sync obs)) (RApplied ra))] @ qr"
      by (rule run_part_follows [OF follows_trans [OF q0(1) follows_trans [OF to4 rest]]])
    ultimately have same: "scope_core (in_scopes (wd_store w4)) (syn_scope y) = scope_core (in_scopes (wd_store w1)) (syn_scope y)"
      using claim_to_commit [OF to4 _ follows_history [OF q0(1) less.prems(2)] short [OF rest], of "cl_lease claim" M]
        less.prems(3,4) q0(2,3) committed(4) q1(2) by simp
    show ?thesis
      by (rule committed_freshI [OF q0(1) to4 _ qr q0(2,4) _ same]) (use committed(2) q1(3,4) ra in simp_all)
  next
    case (stale claim w1 sync obs q w2 w3)
    obtain q0 q1 q2 where f: "follows padd tr w q0 w1" "follows padd tr w2 q1 w3" "follows padd tr w3 q2 w'"
      using claim_call_follows [OF stale(1)] apply_call_follows [OF stale(4)] run_scope_from_follows [OF stale(6)] by blast
    note to3 = follows_trans [OF f(1) follows_trans [OF stale(2) f(2)]]
    have part: "run_part w w' = (q0 @ q @ q1) @ q2" "run_part w3 w' = q2"
      using run_part_follows [OF follows_trans [OF to3 f(3)]] run_part_follows [OF f(3)] by auto
    have "committed_fresh padd psub tr account y req applied meta w3 w'"
      using stale(5) less.prems(3,4) part
      by (intro less.hyps [OF _ stale(6) follows_history [OF to3 less.prems(2)]]) (auto simp: diff_less_mono2)
    then show ?thesis by (rule committed_fresh_before [OF to3])
  qed auto
qed

end
