(* ===== verification/Stream_Laws.thy ===== *)
theory Stream_Laws
  imports Mail_Stream Sync_Safety
begin

text \<open>
  Laws of the streaming mail sync: splitting a page loses nothing, committing a stream chunk by chunk leaves
  what the drained stream would, every end of a pass releases its lease, and a pass that was fenced off
  and finds another cursor commits nothing more.
\<close>

section \<open>Splitting a page\<close>

lemma held_chunk_fields [simp]:
  "ck_changed (held_chunk mode tot batch removed present) = batch" "ck_removed (held_chunk mode tot batch removed present) = removed"
  "ck_mode (held_chunk mode tot batch removed present) = mode" "ck_total (held_chunk mode tot batch removed present) = tot"
  "ck_advance_to (held_chunk mode tot batch removed present) = None"
  "ck_present (held_chunk mode tot batch removed present) = (if mode = Reconcile then present else [])"
  by (cases mode; simp add: held_chunk_def chunk_additive_held_def)+

lemma split_loop_empty [simp]: "split_loop mode tot step [] patched removed present = []"
  by (simp add: split_loop.simps)

lemma split_loop_parts:
  "concat (map ck_changed (split_loop mode tot step changed patched removed present)) = changed"
  "concat (map ck_patched (split_loop mode tot step changed patched removed present)) = (if changed = [] then [] else patched)"
  "concat (map ck_removed (split_loop mode tot step changed patched removed present)) = (if changed = [] then [] else removed)"
  "concat (map ck_present (split_loop mode tot step changed patched removed present)) =
     (if changed = [] \<or> mode \<noteq> Reconcile then [] else present)"
  by (induction mode tot step changed patched removed present rule: split_loop.induct)
    (subst split_loop.simps; simp)+

lemma split_loop_held:
  "c \<in> set (split_loop mode tot step changed patched removed present) \<Longrightarrow>
     ck_mode c = mode \<and> ck_total c = tot \<and> ck_advance_to c = None \<and> length (ck_changed c) \<le> max step 1"
  by (induction mode tot step changed patched removed present rule: split_loop.induct)
    (erule rev_mp, subst split_loop.simps, auto)

section \<open>A stream and its drain\<close>

text \<open>The updates a pass makes of a stream, with the present set it carries along.\<close>

fun stream_updates ::
  "time_crate \<Rightarrow> (instant \<Rightarrow> date) \<Rightarrow> sync_window \<Rightarrow> 'x email_chunk list \<Rightarrow> provider_key btree_set \<Rightarrow>
   ('x, mail_state_change) mail_update list" where
  "stream_updates tc ymd window [] present = []"
| "stream_updates tc ymd window (c # cs) present =
     (case build_update tc ymd window c present of (u, present) \<Rightarrow> u # stream_updates tc ymd window cs present)"

definition apply_all ::
  "('o, 'v) sync_object \<Rightarrow> ('x message \<Rightarrow> 'o) \<Rightarrow> ('x, mail_state_change) mail_update list \<Rightarrow> (provider_key \<rightharpoonup> 'v) \<Rightarrow> (provider_key \<rightharpoonup> 'v)" where
  "apply_all tr wrap us m = fold (\<lambda>u. updated_objects tr (map_sync_update wrap id u)) us m"

lemma upserted_append: "upserted tr (xs @ ys) m = upserted tr ys (upserted tr xs m)"
  by (simp add: upserted_def)

lemma upserted_restrict:
  assumes "so_key tr ` set xs \<inter> R = {}"
  shows "upserted tr xs (m |` (- R)) = upserted tr xs m |` (- R)"
proof (rule ext)
  fix k
  have none: "find (\<lambda>x. so_key tr x = k) (rev xs) = None" if "k \<in> R"
    using assms that by (auto simp: find_None_iff)
  then show "upserted tr xs (m |` (- R)) k = (upserted tr xs m |` (- R)) k"
    by (cases "k \<in> R") (auto simp: upserted_get restrict_map_def)
qed

lemma restrict_UNIV [simp]: "m |` UNIV = m"
  by (simp add: restrict_map_def)

lemma updated_patched [simp]:
  "updated_objects tr (map_sync_update f id (with_patched ok pk ps u)) m = updated_objects tr (map_sync_update f id u) m"
  by (cases u) simp_all

lemma apply_all_simps [simp]:
  "apply_all tr wrap [] m = m" "apply_all tr wrap (u # us) m = apply_all tr wrap us (updated_objects tr (map_sync_update wrap id u) m)"
  by (simp_all add: apply_all_def)

text \<open>A reconciling stream: every chunk holds the cursor but the last, and removals come from what is absent.\<close>

lemma reconcile_stream_objects:
  assumes "\<forall>c \<in> set cs. ck_mode c = Reconcile \<and> ck_advance_to c = None \<and> ck_removed c = []" "is_reconcile_final c"
  shows "apply_all tr wrap (stream_updates tc ymd window (cs @ [c]) present) m =
    upserted tr (map wrap (concat (map ck_changed (cs @ [c])))) m |` (set present \<union> set (concat (map ck_present (cs @ [c]))))"
  using assms(1)
proof (induction cs arbitrary: present m)
  case Nil
  then show ?case using assms(2) by (auto simp: build_update_def is_reconcile_final_def)
next
  case (Cons c' cs)
  then show ?case by (simp add: build_update_def update_delta_def upserted_append Un_assoc)
qed

text \<open>An additive stream: no key a chunk removes comes back in a later one.\<close>

fun no_return :: "'x email_chunk list \<Rightarrow> bool" where
  "no_return [] \<longleftrightarrow> True"
| "no_return (c # cs) \<longleftrightarrow> (\<forall>c' \<in> set cs. ms_id ` set (ck_changed c') \<inter> set (ck_removed c) = {}) \<and> no_return cs"

lemma additive_stream_objects:
  assumes "\<forall>c \<in> set cs. ck_mode c = Additive" "\<not> is_bounded window" "no_return cs" "\<And>x. so_key tr (wrap x) = ms_id x"
  shows "apply_all tr wrap (stream_updates tc ymd window cs present) m =
    upserted tr (map wrap (concat (map ck_changed cs))) m |` (- set (concat (map ck_removed cs)))"
  using assms(1,3)
proof (induction cs arbitrary: m)
  case (Cons c cs)
  have "so_key tr ` set (map wrap (concat (map ck_changed cs))) \<inter> set (ck_removed c) = {}"
    using Cons.prems assms(4) by fastforce
  from upserted_restrict [OF this] show ?case
    using Cons assms(2) by (simp add: build_update_def update_delta_def admitted_def upserted_append restrict_restrict Int_commute)
qed (simp add: upserted_def)

text \<open>The drain of a stream without errors.\<close>

lemma drain_items_Inr: "drain_items (map Inr cs) d = Inr (fold drain_chunk cs d)"
  by (induction cs arbitrary: d) simp_all

lemma fold_drain:
  "dr_changed (fold drain_chunk cs d) = dr_changed d @ concat (map ck_changed cs)"
  "dr_removed (fold drain_chunk cs d) = dr_removed d @ concat (map ck_removed cs)"
  "set (dr_present (fold drain_chunk cs d)) = set (dr_present d) \<union> set (concat (map ck_present cs))"
  "dr_mode (fold drain_chunk cs d) = (if cs = [] then dr_mode d else ck_mode (last cs))"
  by (induction cs arbitrary: d) (auto simp: drain_chunk_def)

definition stream_ok :: "sync_window \<Rightarrow> 'x email_chunk list \<Rightarrow> bool" where
  "stream_ok window cs \<longleftrightarrow>
     (\<forall>c \<in> set cs. ck_mode c = Additive) \<and> no_return cs \<and> \<not> is_bounded window \<or>
     (\<exists>cs' c. cs = cs' @ [c] \<and> is_reconcile_final c \<and>
        (\<forall>c \<in> set cs'. ck_mode c = Reconcile \<and> ck_advance_to c = None \<and> ck_removed c = []))"

lemma stream_equals_drain:
  assumes "drain_email (map Inr cs) = Inr sync" "stream_ok window cs" "\<And>x. so_key tr (wrap x) = ms_id x"
  shows "apply_all tr wrap (stream_updates tc ymd window cs []) m = updated_objects tr (map_sync_update wrap id (zs_update sync)) m"
proof -
  let ?d = "fold drain_chunk cs drained_start"
  have u: "zs_update sync = drained_update ?d"
    using assms(1) by (auto simp: drain_email_def drain_items_Inr split: option.splits)
  from assms(2) show ?thesis unfolding stream_ok_def
  proof (elim disjE conjE exE)
    assume "\<forall>c \<in> set cs. ck_mode c = Additive" "no_return cs" "\<not> is_bounded window"
    moreover from this have "apply_all tr wrap (stream_updates tc ymd window cs []) m =
        upserted tr (map wrap (concat (map ck_changed cs))) m |` (- set (concat (map ck_removed cs)))"
      by (intro additive_stream_objects assms(3))
    ultimately show ?thesis by (auto simp: u drained_update_def fold_drain update_delta_def drained_start_def)
  next
    fix cs' c
    assume cs: "cs = cs' @ [c]" and "is_reconcile_final c"
      and "\<forall>c \<in> set cs'. ck_mode c = Reconcile \<and> ck_advance_to c = None \<and> ck_removed c = []"
    then have "apply_all tr wrap (stream_updates tc ymd window cs []) m =
        upserted tr (map wrap (concat (map ck_changed cs))) m |` set (concat (map ck_present cs))" "dr_mode ?d = Reconcile"
      using reconcile_stream_objects [of cs' c tr wrap tc ymd window "[]" m] fold_drain(4) [of cs drained_start]
      by (simp_all add: is_reconcile_final_def)
    then show ?thesis by (simp add: u drained_update_def fold_drain drained_start_def)
  qed
qed

section \<open>Every end of a pass releases\<close>

lemma keep_alive_follows:
  fixes w :: "('v, 'o, 'p) world"
  shows "\<exists>q. follows padd tr w q (keep_alive padd tr l ttl k w) \<and> bystanders q"
proof (induction k arbitrary: w)
  case (Suc k)
  obtain resp w' where c: "store_call padd tr (CRenewScope l ttl) w = (resp, w')" by force
  from c obtain q w1 now where f: "follows padd tr w q w1" "bystanders q"
    "exec padd tr now (CRenewScope l ttl :: ('v, 'o, 'p) command) (wd_store w1) = (resp, wd_store w')"
    "follows padd tr w1 [(True, Did (CRenewScope l ttl) resp)] w'" by (rule store_call_follows)
  obtain u where "resp = RUnit u" using f(3) by (auto simp: apfst_def map_prod_def split: prod.splits)
  then have "bystanders (q @ [(True, Did (CRenewScope l ttl) resp)])" using f(2) by (simp add: bystanders_def)
  moreover obtain q' where "follows padd tr w' q' (keep_alive padd tr l ttl k w')" "bystanders q'" using Suc by blast
  ultimately have "follows padd tr w ((q @ [(True, Did (CRenewScope l ttl) resp)]) @ q') (keep_alive padd tr l ttl (Suc k) w)"
      "bystanders ((q @ [(True, Did (CRenewScope l ttl) resp)]) @ q')"
    using follows_trans [OF follows_trans [OF f(1,4)]] c by (simp_all only: keep_alive.simps bystanders_simps snd_conv)
  then show ?case by blast
qed (auto intro: exI [of _ "[]"])

text \<open>A part of a run in which the driver claims nothing.\<close>

definition claimless :: "('v, 'o, 'p) acted \<Rightarrow> bool" where
  "claimless q \<longleftrightarrow> own_claims q = 0 \<and> own_minted q = []"

lemma claimless_simps [simp]:
  "bystanders q \<Longrightarrow> claimless q" "claimless (q @ q') \<longleftrightarrow> claimless q \<and> claimless q'"
  "claimless [(True, Did (CApply l b) (RApplied r))]" "claimless [(True, Did (CRelease l) (RUnit u))]"
  by (auto simp: claimless_def)

definition reaches :: "pdt_add \<Rightarrow> ('o, 'v) sync_object \<Rightarrow> ('v, 'o, 'p) world \<Rightarrow> ('v, 'o, 'p) world \<Rightarrow> bool" where
  "reaches padd tr w w' \<longleftrightarrow> (\<exists>q. follows padd tr w q w' \<and> claimless q)"

lemma reaches_trans: "reaches padd tr w w1 \<Longrightarrow> reaches padd tr w1 w2 \<Longrightarrow> reaches padd tr w w2"
  unfolding reaches_def by (meson claimless_simps(2) follows_trans)

lemma reaches_quiet: "follows padd tr w q w' \<Longrightarrow> bystanders q \<Longrightarrow> reaches padd tr w w'"
  unfolding reaches_def by (meson claimless_simps(1))

lemma keep_alive_reaches: "reaches padd tr w (keep_alive padd tr l ttl k w)"
  using keep_alive_follows reaches_quiet by blast

lemma run_reader_reaches: "run_reader padd tr rd w = (r, w') \<Longrightarrow> reaches padd tr w w'"
  using run_reader_follows [of padd tr rd w r w'] reaches_quiet [of padd tr w _ w'] by blast

lemma reaches_step: "follows padd tr w q w1 \<Longrightarrow> bystanders q \<Longrightarrow> follows padd tr w1 q' w' \<Longrightarrow> claimless q' \<Longrightarrow> reaches padd tr w w'"
  unfolding reaches_def by (rule exI [of _ "q @ q'"]) (simp add: follows_trans)

lemma apply_call_reaches: "apply_call padd tr l b w = (r, w') \<Longrightarrow> reaches padd tr w w'"
  by (erule apply_call_ok) (rule reaches_step, assumption+, simp)

lemma release_call_reaches:
  assumes "release_call padd tr l w = (r, w')"
  shows "reaches padd tr w w' \<and> ended l (wd_store w')"
  using assms
proof (rule release_call_ok)
  fix q
  assume "follows padd tr w (q @ [(True, Did (CRelease l) (RUnit (Inr ())))]) w'" "bystanders q" "ended l (wd_store w')"
  then show ?thesis unfolding reaches_def by (intro conjI exI [of _ "q @ [(True, Did (CRelease l) (RUnit (Inr ())))]"]) simp_all
qed

lemma release_then_reaches: "release_then padd tr l a w = (r, w') \<Longrightarrow> reaches padd tr w w' \<and> ended l (wd_store w')"
  by (auto simp: release_then_def split: prod.splits sum.splits dest: release_call_reaches)

lemma release_failing_reaches: "release_failing padd tr l e w = (r, w') \<Longrightarrow> reaches padd tr w w' \<and> ended l (wd_store w')"
  using release_call_reaches [of padd tr l w "fst (release_call padd tr l w)" w'] by (auto simp: release_failing_def)

lemma apply_call_stale:
  assumes "apply_call padd tr l b w = (Inl StaleLease, w')"
  shows "current_cell l (wd_store w') = None"
  using assms
proof (rule apply_call_ok)
  fix q w1 now
  assume a: "apply_sync_update padd now tr l b (wd_store w1) = (Inl StaleLease, wd_store w')"
  from stale_apply_iff [OF a] stale_apply [of l "wd_store w1" padd now tr b] a show ?thesis by simp
qed

lemma stream_loop_reaches:
  assumes "stream_loop p l items beats st w = (e, st', w')"
  shows "reaches (fp_padd p) (fp_tr p) w w' \<and>
    (case e of Ended _ \<Rightarrow> ended l (wd_store w') | Stale \<Rightarrow> current_cell l (wd_store w') = None)"
  using assms
proof (induction p l items beats st w rule: stream_loop.induct)
  case (1 p l beats st w)
  then show ?case
    using release_then_reaches keep_alive_reaches reaches_trans by (fastforce split: prod.splits)
next
  case (2 p l k e items beats st w)
  then show ?case
    using release_failing_reaches keep_alive_reaches reaches_trans by (fastforce split: prod.splits)
next
  case (3 p l k c items beats st w)
  let ?pa = "fp_padd p" and ?tr = "fp_tr p"
  let ?w0 = "keep_alive ?pa ?tr l (lq_ttl (fp_req p)) k w"
  let ?adv = "map_option (\<lambda>cursor. stamp cursor (tn_window (fp_tuning p))) (ck_advance_to c)"
  obtain update present where u: "build_update (fp_time p) (fp_ymd p) (tn_window (fp_tuning p)) c (ps_present st) = (update, present)" by force
  obtain ro w1 where o: "run_reader ?pa ?tr
      (observations (fp_lower p) (fp_idna p) (fp_dec p) (fp_account p) (fp_scope p) update (fp_sent p)) ?w0 = (ro, w1)" by force
  have r1: "reaches ?pa ?tr w w1" using keep_alive_reaches run_reader_reaches [OF o] reaches_trans by blast
  show ?case
  proof (cases ro)
    case (Inl e')
    then show ?thesis using "3.prems" u o
      by (auto simp: Let_def split: prod.splits dest: release_failing_reaches intro: reaches_trans [OF r1])
  next
    case (Inr obs)
    obtain rc w2 where rc: "run_reader ?pa ?tr
        (reconciliations ?pa (fp_dec p) (fp_account p) (fp_scope p) update (fp_sent p)) w1 = (rc, w2)" by force
    have r2: "reaches ?pa ?tr w w2" using reaches_trans [OF r1 run_reader_reaches [OF rc]] .
    show ?thesis
    proof (cases rc)
      case (Inl e')
      then show ?thesis using "3.prems" u o Inr rc
        by (auto simp: Let_def split: prod.splits dest: release_failing_reaches intro: reaches_trans [OF r2])
    next
      case conf: (Inr confirmed)
      obtain ra w3 where a: "apply_call ?pa ?tr l (chunk_batch p l update obs confirmed ?adv) w2 = (ra, w3)" by force
      have r3: "reaches ?pa ?tr w w3" using reaches_trans [OF r2 apply_call_reaches [OF a]] .
      show ?thesis
      proof (cases ra)
        case (Inl e')
        then show ?thesis using "3.prems" u o Inr rc conf a r3
          by (auto simp: Let_def split: prod.splits if_splits dest: apply_call_stale release_failing_reaches intro: reaches_trans [OF r3])
      next
        case applied: (Inr applied)
        show ?thesis
        proof (cases "is_reconcile_final c")
          case True
          then show ?thesis using "3.prems" u o Inr rc conf a applied
            by (auto simp: Let_def split: prod.splits dest: release_then_reaches intro: reaches_trans [OF r3])
        next
          case False
          then show ?thesis using "3.prems" "3.IH" u o Inr rc conf a applied reaches_trans [OF r3] by (auto simp: Let_def)
        qed
      qed
    qed
  qed
qed

lemma stream_from_cases:
  assumes "stream_from p n fenced cs w = Some (r, cs', w')"
  obtains (refused) e where "claim_scope_call (fp_padd p) (fp_tr p) (fp_account p) (fp_scope p) (fp_req p) w = (Inl e, w')"
      "cs' = cs" "r = (case (fenced, e) of (Some (_, applied), ScopeHeld) \<Rightarrow> Inr applied | _ \<Rightarrow> Inl (SeStore e))"
  | (yielded) claim w1 left applied where
      "claim_scope_call (fp_padd p) (fp_tr p) (fp_account p) (fp_scope p) (fp_req p) w = (Inr claim, w1)"
      "fenced = Some (left, applied)" "cl_state claim \<noteq> left" "cs' = cs"
      "release_then (fp_padd p) (fp_tr p) (cl_lease claim) applied w1 = (r, w')"
  | (closed) claim w1 where "claim_scope_call (fp_padd p) (fp_tr p) (fp_account p) (fp_scope p) (fp_req p) w = (Inr claim, w1)"
      "is_none_or fenced (\<lambda>(left, _). cl_state claim = left)" "reaches (fp_padd p) (fp_tr p) w1 w'" "ended (cl_lease claim) (wd_store w')"
  | (again) claim w1 w2 left applied cs2 where "claim_scope_call (fp_padd p) (fp_tr p) (fp_account p) (fp_scope p) (fp_req p) w = (Inr claim, w1)"
      "is_none_or fenced (\<lambda>(left, _). cl_state claim = left)" "reaches (fp_padd p) (fp_tr p) w1 w2" "current_cell (cl_lease claim) (wd_store w2) = None"
      "n < max_stale_reclaims" "stream_from p (n + 1) (Some (left, applied)) cs2 w2 = Some (r, cs', w')"
proof -
  obtain rc w1 where c: "claim_scope_call (fp_padd p) (fp_tr p) (fp_account p) (fp_scope p) (fp_req p) w = (rc, w1)" by force
  show thesis
  proof (cases rc)
    case (Inl e)
    with assms c show thesis
      by (intro refused [of e]) (auto simp: stream_from.simps [of p n] split: option.splits prod.splits store_error.splits)
  next
    case claim: (Inr claim)
    show thesis
    proof (cases "is_some_and fenced (\<lambda>(left, _). cl_state claim \<noteq> left)")
      case True
      then obtain left applied where "fenced = Some (left, applied)" "cl_state claim \<noteq> left" by (cases fenced) auto
      with assms c claim show thesis by (intro yielded [of claim w1 left applied]) (auto simp: stream_from.simps [of p n] split: prod.splits)
    next
      case False
      then have same: "is_none_or fenced (\<lambda>(left, _). cl_state claim = left)" by (cases fenced) auto
      obtain cursor where cur: "resume (fp_time p) (cl_state claim) (tn_window (fp_tuning p)) = Some cursor"
        using assms c claim False by (auto simp: stream_from.simps [of p n] split: option.splits)
      obtain items beats where i: "fp_stream p (wd_at w1) cursor (tn_window (fp_tuning p)) (tn_fetch_batch (fp_tuning p)) (tn_chunk_size (fp_tuning p)) = (items, beats)"
        by force
      obtain e st w2 where l: "stream_loop p (cl_lease claim) items beats (pass_start (cl_state claim) cs) w1 = (e, st, w2)" by (metis prod_cases3)
      note reach = stream_loop_reaches [OF l]
      show thesis
      proof (cases e)
        case (Ended r')
        with assms c claim False cur i l reach show thesis by (intro closed [OF _ same]) (auto simp: stream_from.simps [of p n])
      next
        case Stale
        show thesis
        proof (cases "n < max_stale_reclaims")
          case True
          with assms c claim False cur i l reach Stale show thesis
            by (intro again [OF _ same]) (auto simp: stream_from.simps [of p n])
        next
          case stop: False
          obtain r' w3 where f: "release_failing (fp_padd p) (fp_tr p) (cl_lease claim) (SeStore StaleLease) w2 =
              ((r' :: (sync_error, sync_applied) result), w3)" by force
          with assms c claim False cur i l Stale stop have "w3 = w'" by (auto simp: stream_from.simps [of p n])
          with release_failing_reaches [OF f] reach Stale c claim show thesis
            by (intro closed [OF _ same]) (auto intro: reaches_trans)
        qed
      qed
    qed
  qed
qed

lemma stream_from_follows: "stream_from p n fenced cs w = Some (r, cs', w') \<Longrightarrow> \<exists>q. follows (fp_padd p) (fp_tr p) w q w'"
proof (induction "max_stale_reclaims - n" arbitrary: n fenced cs w rule: less_induct)
  case less
  from less.prems show ?case
  proof (cases rule: stream_from_cases)
    case (refused e)
    then show ?thesis by (auto intro: claim_call_follows)
  next
    case (yielded claim w1 left applied)
    obtain q q' where "follows (fp_padd p) (fp_tr p) w q w1" "follows (fp_padd p) (fp_tr p) w1 q' w'"
      using claim_call_follows [OF yielded(1)] release_then_reaches [OF yielded(5)] by (auto simp: reaches_def)
    then show ?thesis by (blast intro: follows_trans)
  next
    case (closed claim w1)
    obtain q q' where "follows (fp_padd p) (fp_tr p) w q w1" "follows (fp_padd p) (fp_tr p) w1 q' w'"
      using claim_call_follows [OF closed(1)] closed(3) by (auto simp: reaches_def)
    then show ?thesis by (blast intro: follows_trans)
  next
    case (again claim w1 w2 left applied cs2)
    obtain q' where q': "follows (fp_padd p) (fp_tr p) w2 q' w'" using less.hyps [OF _ again(6)] again(5) by (auto simp: diff_less_mono2)
    obtain q q1 where "follows (fp_padd p) (fp_tr p) w q w1" "follows (fp_padd p) (fp_tr p) w1 q1 w2"
      using claim_call_follows [OF again(1)] again(3) by (auto simp: reaches_def)
    then show ?thesis using q' by (blast intro: follows_trans)
  qed
qed

lemma stream_from_ends:
  fixes w :: "('v, 'o, mail_state_change) world"
  assumes "stream_from p n fenced cs w = Some (r, cs', w')"
    and "history (fp_padd p) (fp_tr p) (cmds w) (wd_store w)" and len: "length (cmds w') < 2 ^ 64"
  shows "\<exists>q. follows (fp_padd p) (fp_tr p) w q w' \<and> (\<forall>l \<in> set (own_minted q). ended l (wd_store w')) \<and>
    own_claims q \<le> Suc (max_stale_reclaims - n)"
  using assms(1,2)
proof (induction "max_stale_reclaims - n" arbitrary: n fenced cs w rule: less_induct)
  case less
  let ?claim = "CClaimScope (fp_account p) (fp_scope p) (fp_req p)"
  have short: "length (cmds w1) < 2 ^ 64" if "follows (fp_padd p) (fp_tr p) w1 q w'" for w1 q
    using follows_cmds [OF that] len by simp
  have close: ?case if c: "claim_scope_call (fp_padd p) (fp_tr p) (fp_account p) (fp_scope p) (fp_req p) w = (Inr claim, w1)"
    and r: "reaches (fp_padd p) (fp_tr p) w1 w'" and e: "ended (cl_lease claim) (wd_store w')" for claim w1
  proof -
    from r obtain q where q: "follows (fp_padd p) (fp_tr p) w1 q w'" "claimless q" by (auto simp: reaches_def)
    from c less.prems(2) short [OF q(1)]
    obtain q0 where q0: "follows (fp_padd p) (fp_tr p) w (q0 @ [(True, Did ?claim (RClaim (Inr claim)))]) w1" "bystanders q0"
      by (rule claim_call_handed)
    show ?case by (rule exI, rule conjI, rule follows_trans [OF q0(1) q(1)]) (use q(2) q0(2) e in \<open>auto simp: claimless_def\<close>)
  qed
  from less.prems(1) show ?case
  proof (cases rule: stream_from_cases)
    case (refused e)
    from refused(1) show ?thesis
    proof (rule claim_call_ok)
      fix q w1 resp now
      assume "follows (fp_padd p) (fp_tr p) w q w1" "bystanders q" "follows (fp_padd p) (fp_tr p) w1 [(True, Did ?claim resp)] w'"
        "resp = RClaim (Inl e)"
      then show ?thesis by (intro exI [of _ "q @ [(True, Did ?claim resp)]"] conjI) (auto intro: follows_trans)
    qed
  next
    case (yielded claim w1 left applied)
    then show ?thesis using release_then_reaches [OF yielded(5)] close by blast
  next
    case (closed claim w1)
    then show ?thesis using close by blast
  next
    case (again claim w1 w2 left applied cs2)
    from again(3) obtain q1 where q1: "follows (fp_padd p) (fp_tr p) w1 q1 w2" "claimless q1" by (auto simp: reaches_def)
    obtain qr where qr: "follows (fp_padd p) (fp_tr p) w2 qr w'" using stream_from_follows [OF again(6)] by blast
    from again(1) less.prems(2) short [OF follows_trans [OF q1(1) qr]]
    obtain q0 where q0: "follows (fp_padd p) (fp_tr p) w (q0 @ [(True, Did ?claim (RClaim (Inr claim)))]) w1" "bystanders q0"
      "sy_scope (cl_lease claim) = fp_scope p" "sy_token (cl_lease claim) = scope_gen (in_scopes (wd_store w1)) (fp_scope p)"
      "0 < unat (sy_token (cl_lease claim))" by (rule claim_call_handed)
    have h1: "history (fp_padd p) (fp_tr p) (cmds w1) (wd_store w1)" using follows_history [OF q0(1) less.prems(2)] .
    have h2: "history (fp_padd p) (fp_tr p) (cmds w2) (wd_store w2)" using follows_history [OF q1(1) h1] .
    have "unat (sy_token (cl_lease claim)) < unat (scope_gen (in_scopes (wd_store w2)) (sy_scope (cl_lease claim)))"
      using stale_is_lost [OF q1(1) h1 short [OF qr], of "cl_lease claim"] again(4) q0(3-5) by simp
    from lost_ended [OF steps_keep_lost [OF qr h2 len this]] have gone: "ended (cl_lease claim) (wd_store w')" .
    obtain q' where q': "follows (fp_padd p) (fp_tr p) w2 q' w'" "\<forall>l \<in> set (own_minted q'). ended l (wd_store w')"
      "own_claims q' \<le> Suc (max_stale_reclaims - (n + 1))"
      using less.hyps [OF _ again(6) h2] again(5) by (auto simp: diff_less_mono2)
    show ?thesis by (rule exI, rule conjI, rule follows_trans [OF q0(1) follows_trans [OF q1(1) q'(1)]])
      (use q' q0(2) q1(2) again(5) gone in \<open>auto simp: claimless_def\<close>)
  qed
qed

section \<open>A pass that was fenced off\<close>

fun is_apply :: "bool \<times> ('v, 'o, 'p) act \<Rightarrow> bool" where
  "is_apply (True, Did (CApply _ _) _) = True"
| "is_apply _ = False"

lemma bystanders_no_apply: "bystanders q \<Longrightarrow> x \<in> set q \<Longrightarrow> \<not> is_apply x"
proof (cases x)
  case (Pair mine a)
  assume "bystanders q" "x \<in> set q"
  show ?thesis
  proof (cases mine)
    case True
    then obtain cmd r where "a = Did cmd (RUnit r)" "renews cmd"
      using bystandersD [OF \<open>bystanders q\<close>, of a] \<open>x \<in> set q\<close> Pair by auto
    then show ?thesis using Pair True by (cases cmd) simp_all
  qed (use Pair in \<open>cases a; simp\<close>)
qed

lemma fenced_pass:
  fixes w :: "('v, 'o, mail_state_change) world"
  assumes "stream_from p n (Some (left, applied)) cs w = Some (r, cs', w')"
    and hist: "history (fp_padd p) (fp_tr p) (cmds w) (wd_store w)" and len: "length (cmds w') < 2 ^ 64"
  shows "(\<exists>claim q1 q2. run_part w w' = q1 @ (True, Did (CClaimScope (fp_account p) (fp_scope p) (fp_req p)) (RClaim (Inr claim))) # q2 \<and>
      bystanders q1 \<and> cl_state claim = left) \<or>
    (\<forall>x \<in> set (run_part w w'). \<not> is_apply x) \<and> cs' = cs \<and> (r = Inr applied \<or> (\<exists>e. r = Inl (SeStore e)))"
proof -
  let ?claim = "CClaimScope (fp_account p) (fp_scope p) (fp_req p)"
  have handed: "\<exists>claim q1 q2. run_part w w' = q1 @ (True, Did ?claim (RClaim (Inr claim))) # q2 \<and> bystanders q1 \<and> cl_state claim = left"
    if c: "claim_scope_call (fp_padd p) (fp_tr p) (fp_account p) (fp_scope p) (fp_req p) w = (Inr claim, w1)"
      and q: "follows (fp_padd p) (fp_tr p) w1 q w'" and "cl_state claim = left" for claim w1 q
  proof -
    have "length (cmds w1) < 2 ^ 64" using follows_cmds [OF q] len by simp
    with c hist obtain q0 where q0: "follows (fp_padd p) (fp_tr p) w (q0 @ [(True, Did ?claim (RClaim (Inr claim)))]) w1" "bystanders q0"
      by (rule claim_call_handed)
    have "run_part w w' = q0 @ (True, Did ?claim (RClaim (Inr claim))) # q"
      using run_part_follows [OF follows_trans [OF q0(1) q]] by simp
    then show ?thesis using q0(2) that(3) by blast
  qed
  from assms(1) show ?thesis
  proof (cases rule: stream_from_cases)
    case (refused e)
    from refused(1) show ?thesis
    proof (rule claim_call_ok)
      fix q w1 resp now
      assume "follows (fp_padd p) (fp_tr p) w q w1" "bystanders q" "follows (fp_padd p) (fp_tr p) w1 [(True, Did ?claim resp)] w'"
      then have "run_part w w' = q @ [(True, Did ?claim resp)]" "bystanders q" using run_part_follows [OF follows_trans] by blast+
      then have "\<forall>x \<in> set (run_part w w'). \<not> is_apply x" using bystanders_no_apply by auto
      then show ?thesis using refused(2,3) by (auto split: store_error.splits)
    qed
  next
    case (yielded claim w1 left' applied')
    from yielded(5) obtain u where u: "release_call (fp_padd p) (fp_tr p) (cl_lease claim) w1 = (u, w')" "u = Inr () \<Longrightarrow> r = Inr applied"
      using yielded(2) by (auto simp: release_then_def split: prod.splits sum.splits)
    from u(1) obtain q where q: "follows (fp_padd p) (fp_tr p) w1 (q @ [(True, Did (CRelease (cl_lease claim)) (RUnit (Inr ())))]) w'"
      "bystanders q" "u = Inr ()" by (rule release_call_ok)
    have "length (cmds w1) < 2 ^ 64" using follows_cmds [OF q(1)] len by simp
    with yielded(1) hist obtain q0 where q0: "follows (fp_padd p) (fp_tr p) w (q0 @ [(True, Did ?claim (RClaim (Inr claim)))]) w1" "bystanders q0"
      by (rule claim_call_handed)
    have "\<forall>x \<in> set (run_part w w'). \<not> is_apply x"
      using run_part_follows [OF follows_trans [OF q0(1) q(1)]] bystanders_no_apply [OF q(2)] bystanders_no_apply [OF q0(2)] by auto
    then show ?thesis using yielded(4) u(2) q(3) by simp
  next
    case (closed claim w1)
    then show ?thesis using handed [OF closed(1)] by (auto simp: reaches_def)
  next
    case (again claim w1 w2 left' applied' cs2)
    then obtain q where "follows (fp_padd p) (fp_tr p) w1 q w2" by (auto simp: reaches_def)
    moreover obtain q' where "follows (fp_padd p) (fp_tr p) w2 q' w'" using stream_from_follows [OF again(6)] by blast
    ultimately show ?thesis using handed [OF again(1) follows_trans] again(2) by auto
  qed
qed

section \<open>What a reader can answer\<close>

text \<open>An answer of a reader whose reads each see a clock and a store with \<open>P\<close>.\<close>

inductive answers :: "(instant \<Rightarrow> 'v inner \<Rightarrow> bool) \<Rightarrow> ('v, 'r) reader \<Rightarrow> 'r \<Rightarrow> bool" for P where
  answer: "answers P (Answer r) r"
| read: "P now s \<Longrightarrow> answers P (q now s) r \<Longrightarrow> answers P (Read q) r"

inductive_simps answers_simps [simp]: "answers P (Answer r) r'" "answers P (Read q) r"

lemma reader_cases_induct:
  assumes "\<And>r. P (Answer r)" "\<And>q. (\<And>now s. P (q now s)) \<Longrightarrow> P (Read q)"
  shows "P rd"
proof (induction rd)
  case (Read q)
  then show ?case by (intro assms(2)) blast
qed (rule assms(1))

lemma answers_mono: "answers P rd r \<Longrightarrow> (\<And>now s. P now s \<Longrightarrow> Q now s) \<Longrightarrow> answers Q rd r"
  by (induction rule: answers.induct) auto

text \<open>The clock and the store of the k-th read of a reader run from a world.\<close>

definition read_clock :: "pdt_add \<Rightarrow> ('o, 'v) sync_object \<Rightarrow> ('v, 'o, 'p) world \<Rightarrow> nat \<Rightarrow> instant" where
  "read_clock padd tr w k = (let w = (interfere padd tr ^^ k) w in sd_now (wd_sched w (wd_at w)))"

definition read_store :: "pdt_add \<Rightarrow> ('o, 'v) sync_object \<Rightarrow> ('v, 'o, 'p) world \<Rightarrow> nat \<Rightarrow> 'v inner" where
  "read_store padd tr w k = wd_store ((interfere padd tr ^^ Suc k) w)"

definition read_of :: "pdt_add \<Rightarrow> ('o, 'v) sync_object \<Rightarrow> ('v, 'o, 'p) world \<Rightarrow> nat \<Rightarrow> instant \<Rightarrow> 'v inner \<Rightarrow> bool" where
  "read_of padd tr w n now s \<longleftrightarrow> (\<exists>k < n. now = read_clock padd tr w k \<and> s = read_store padd tr w k)"

lemma read_of_Suc: "read_of padd tr (interfere padd tr w) n now s \<Longrightarrow> read_of padd tr w (Suc n) now s"
  unfolding read_of_def read_clock_def read_store_def
  by (metis Suc_less_eq funpow_Suc_right o_apply)

lemma run_reader_answers:
  "run_reader padd tr rd w = (r, w') \<Longrightarrow> \<exists>n. w' = (interfere padd tr ^^ n) w \<and> answers (read_of padd tr w n) rd r"
proof (induction rd arbitrary: w rule: reader_cases_induct)
  case (1 r0)
  then show ?case by (intro exI [of _ 0]) simp
next
  case (2 q)
  let ?w1 = "interfere padd tr w"
  from "2.prems" have "run_reader padd tr (q (sd_now (wd_sched w (wd_at w))) (wd_store ?w1)) ?w1 = (r, w')" by simp
  from "2.IH" [OF this] obtain n where n: "w' = (interfere padd tr ^^ n) ?w1"
    "answers (read_of padd tr ?w1 n) (q (sd_now (wd_sched w (wd_at w))) (wd_store ?w1)) r" by blast
  have "read_of padd tr w (Suc n) (sd_now (wd_sched w (wd_at w))) (wd_store ?w1)"
    unfolding read_of_def by (intro exI [of _ 0]) (simp add: read_clock_def read_store_def)
  moreover have "answers (read_of padd tr w (Suc n)) (q (sd_now (wd_sched w (wd_at w))) (wd_store ?w1)) r"
    using answers_mono [OF n(2) read_of_Suc] .
  ultimately have "answers (read_of padd tr w (Suc n)) (Read q) r" by (rule answers.read)
  moreover have "w' = (interfere padd tr ^^ Suc n) w" using n(1) by (metis funpow_Suc_right o_apply)
  ultimately show ?case by blast
qed

lemma answers_bind: "answers P (rd_bind r f) x \<longleftrightarrow> (\<exists>y. answers P r y \<and> answers P (f y) x)"
  by (induction r rule: reader_cases_induct) auto

lemma answers_then: "answers P (rd_then r f) (Inr x) \<longleftrightarrow> (\<exists>y. answers P r (Inr y) \<and> answers P (f y) (Inr x))"
  by (auto simp: rd_then_def answers_bind split: sum.splits) (metis sum.exhaust)

section \<open>The copy that proves a send\<close>

text \<open>What is planned for one op, out of what is filed and what awaits.\<close>

lemma plan_ids_from:
  assumes "plan_ids key ids awaiting = (plans, rest)" "pl \<in> set plans"
  shows "pr_expected pl = NeedsConfirmation \<and> pr_resolves_to pl = key \<and> (\<exists>i \<in> set ids. hm_get awaiting i = Some (pr_op pl))"
  using assms
proof (induction key ids awaiting arbitrary: plans rest rule: plan_ids.induct)
  case (2 key i ids awaiting)
  then show ?case by (fastforce split: option.splits prod.splits if_splits simp: hm_get_remove)
qed simp

lemma plan_ids_rest: "plan_ids key ids awaiting = (plans, rest) \<Longrightarrow> hm_get rest i = Some op \<Longrightarrow> hm_get awaiting i = Some op"
proof (induction key ids awaiting arbitrary: plans rest rule: plan_ids.induct)
  case (2 key j ids awaiting)
  then show ?case by (fastforce split: option.splits prod.splits if_splits simp: hm_get_remove)
qed simp

lemma plan_filed_from:
  assumes "pl \<in> set (plan_filed filed awaiting)"
  shows "pr_expected pl = NeedsConfirmation \<and>
    (\<exists>ids i. (pr_resolves_to pl, ids) \<in> set filed \<and> i \<in> set ids \<and> hm_get awaiting i = Some (pr_op pl))"
  using assms
proof (induction filed awaiting rule: plan_filed.induct)
  case (2 key ids filed awaiting)
  obtain plans rest where p: "plan_ids key ids awaiting = (plans, rest)" by force
  show ?case
  proof (cases "pl \<in> set plans")
    case True
    from plan_ids_from [OF p True] show ?thesis by auto
  next
    case False
    then have "pl \<in> set (plan_filed filed rest)" using "2.prems" p by simp
    from "2.IH" [OF p [symmetric] this] plan_ids_rest [OF p] show ?thesis by fastforce
  qed
qed simp

lemma awaiting_rows_from:
  assumes "hm_get (awaiting_rows dec rows) i = Some op"
  shows "\<exists>row \<in> set rows. pr_id row = op \<and> pr_kind row = Some MailSubmit \<and> pr_state row = NeedsConfirmation \<and>
    dc_draft_id dec (pr_payload row) = Some i"
  using assms unfolding awaiting_rows_def
proof (induction rows rule: rev_induct)
  case (snoc row rows)
  then show ?case by (auto split: if_splits option.splits)
qed simp

lemma moved_ids_from:
  assumes "answers P (moved_ids dec scope keys) (Inr found)" "(key, ids) \<in> set found"
  shows "key \<in> set keys \<and> (\<exists>now s payload content. P now s \<and> object_payload scope key s = Some payload \<and>
    dc_content dec payload = Inr content \<and> ids = ev_message_id (ct_envelope content))"
  using assms
proof (induction dec scope keys arbitrary: found rule: moved_ids.induct)
  case (2 dec scope k keys)
  from "2.prems"(1) obtain now s where P: "P now s" and a: "answers P (case object_payload scope k s of
      None \<Rightarrow> moved_ids dec scope keys
    | Some payload \<Rightarrow> (case dc_content dec payload of
        Inl e \<Rightarrow> Answer (Inl (SeDecode e))
      | Inr content \<Rightarrow> rd_then (moved_ids dec scope keys) (\<lambda>rest. Answer (Inr ((k, ev_message_id (ct_envelope content)) # rest))))) (Inr found)"
    by auto
  show ?case
  proof (cases "object_payload scope k s")
    case None
    then show ?thesis using a "2.IH"(1) [OF None, of found] "2.prems"(2) by auto
  next
    case (Some payload)
    then obtain content rest where c: "dc_content dec payload = Inr content" "answers P (moved_ids dec scope keys) (Inr rest)"
      "found = (k, ev_message_id (ct_envelope content)) # rest"
      using a by (cases "dc_content dec payload") (auto simp: answers_then)
    show ?thesis
    proof (cases "(key, ids) = (k, ev_message_id (ct_envelope content))")
      case True
      then show ?thesis using P Some c(1) by auto
    next
      case False
      then have "(key, ids) \<in> set rest" using c(3) "2.prems"(2) by auto
      from "2.IH"(2) [OF Some c(1,2) this] show ?thesis by auto
    qed
  qed
qed auto

lemma awaiting_answers:
  "answers P (awaiting_confirmation padd dec account) (Inr y) \<longleftrightarrow>
     (\<exists>now s rows. P now s \<and> list_pending_ops padd now account s = Inr rows \<and> y = awaiting_rows dec rows)"
proof
  assume "answers P (awaiting_confirmation padd dec account) (Inr y)"
  then obtain now s where "P now s" "Inr y = (case list_pending_ops padd now account s of Inl e \<Rightarrow> Inl (SeStore e) | Inr rows \<Rightarrow> Inr (awaiting_rows dec rows))"
    by (auto simp: awaiting_confirmation_def)
  then show "\<exists>now s rows. P now s \<and> list_pending_ops padd now account s = Inr rows \<and> y = awaiting_rows dec rows"
    by (cases "list_pending_ops padd now account s") auto
next
  assume "\<exists>now s rows. P now s \<and> list_pending_ops padd now account s = Inr rows \<and> y = awaiting_rows dec rows"
  then obtain now s rows where "P now s" "list_pending_ops padd now account s = Inr rows" "y = awaiting_rows dec rows" by blast
  then show "answers P (awaiting_confirmation padd dec account) (Inr y)"
    by (auto simp: awaiting_confirmation_def intro!: exI [of _ now] exI [of _ s])
qed

text \<open>A row of the listing is an op of the account, as it is seen at the time.\<close>

lemma list_ops_row:
  "list_ops padd now account ops = Inr rows \<Longrightarrow> row \<in> set rows \<Longrightarrow>
    \<exists>c v. (pr_id row, c) \<in> set ops \<and> oc_account c = account \<and> cell_view padd now c = Inr v \<and>
      pr_kind row = Some (po_kind (oc_op c)) \<and> pr_payload row = po_payload (oc_op c) \<and> pr_state row = rc_state v"
proof (induction padd now account ops arbitrary: rows rule: list_ops.induct)
  case (2 padd now account i c ops)
  show ?case
  proof (cases "oc_account c = account")
    case True
    with "2.prems"(1) obtain v rest where v: "cell_view padd now c = Inr v" "list_ops padd now account ops = Inr rest"
      "rows = (if stays_listed (Some (po_kind (oc_op c))) (rc_state v) then op_row i c v # rest else rest)"
      by (auto split: sum.splits)
    show ?thesis
    proof (cases "row \<in> set rest")
      case True
      from "2.IH"(2) [OF _ v(1,2) True] \<open>oc_account c = account\<close> show ?thesis by auto
    next
      case False
      then have "row = op_row i c v" using v(3) "2.prems"(2) by (auto split: if_splits)
      with v(1) \<open>oc_account c = account\<close> show ?thesis by (auto simp: op_row_def)
    qed
  next
    case False
    then show ?thesis using "2.IH"(1) [OF False] "2.prems" by auto
  qed
qed simp

text \<open>A send the store shows as awaiting confirmation under a message id.\<close>

definition send_awaits ::
  "pdt_add \<Rightarrow> ('v, 'x) decoders \<Rightarrow> account_id \<Rightarrow> pending_op_id \<Rightarrow> message_id_header \<Rightarrow> instant \<Rightarrow> 'v inner \<Rightarrow> bool" where
  "send_awaits padd dec account op i now s \<longleftrightarrow> (\<exists>c v. (op, c) \<in> set (in_ops s) \<and> oc_account c = account \<and>
     po_kind (oc_op c) = MailSubmit \<and> cell_view padd now c = Inr v \<and> rc_state v = NeedsConfirmation \<and>
     dc_draft_id dec (po_payload (oc_op c)) = Some i)"

lemma reconciliations_from:
  assumes "answers P (reconciliations padd dec account scope update sent) (Inr plans)" "pl \<in> set plans"
  shows "pr_expected pl = NeedsConfirmation \<and>
    (\<exists>now s i. P now s \<and> send_awaits padd dec account (pr_op pl) i now s \<and>
       ((\<exists>m \<in> set (update_changed update). ms_id m = pr_resolves_to pl \<and> files_in (ms_mailboxes m) sent \<and> i \<in> set (ev_message_id (ms_envelope m))) \<or>
        (\<exists>ch \<in> set (update_patched update). \<exists>boxes now s payload content. mc_key ch = pr_resolves_to pl \<and> sx_mailboxes (mc_state ch) = Some boxes \<and>
           files_in boxes sent \<and> P now s \<and> object_payload scope (mc_key ch) s = Some payload \<and>
           dc_content dec payload = Inr content \<and> i \<in> set (ev_message_id (ct_envelope content)))))"
proof -
  have "\<not> (filed_whole update sent = [] \<and> moved_keys update sent = [])"
    using assms by (auto simp: reconciliations_def Let_def)
  with assms obtain now s rows found where P: "P now s" and rows: "list_pending_ops padd now account s = Inr rows"
    and f: "answers P (moved_ids dec scope (moved_keys update sent)) (Inr found)"
    and plans: "plans = plan_filed (filed_whole update sent @ found) (awaiting_rows dec rows)"
    by (auto simp: reconciliations_def Let_def answers_then awaiting_answers split: if_splits)
  from assms(2) plans have "pl \<in> set (plan_filed (filed_whole update sent @ found) (awaiting_rows dec rows))" by simp
  from plan_filed_from [OF this] obtain ids i where pl: "pr_expected pl = NeedsConfirmation" "i \<in> set ids"
    "(pr_resolves_to pl, ids) \<in> set (filed_whole update sent @ found)" "hm_get (awaiting_rows dec rows) i = Some (pr_op pl)" by blast
  from awaiting_rows_from [OF pl(4)] obtain row where row: "row \<in> set rows" "pr_id row = pr_op pl" "pr_kind row = Some MailSubmit"
    "pr_state row = NeedsConfirmation" "dc_draft_id dec (pr_payload row) = Some i" by blast
  from list_ops_row [OF rows [unfolded list_pending_ops_def] row(1)] row(2-5)
  have awaits: "send_awaits padd dec account (pr_op pl) i now s" unfolding send_awaits_def by auto
  have "(\<exists>m \<in> set (update_changed update). ms_id m = pr_resolves_to pl \<and> files_in (ms_mailboxes m) sent \<and> i \<in> set (ev_message_id (ms_envelope m))) \<or>
        (\<exists>ch \<in> set (update_patched update). \<exists>boxes now s payload content. mc_key ch = pr_resolves_to pl \<and> sx_mailboxes (mc_state ch) = Some boxes \<and>
           files_in boxes sent \<and> P now s \<and> object_payload scope (mc_key ch) s = Some payload \<and>
           dc_content dec payload = Inr content \<and> i \<in> set (ev_message_id (ct_envelope content)))"
  proof (cases "(pr_resolves_to pl, ids) \<in> set (filed_whole update sent)")
    case True
    then show ?thesis using pl(2) by (auto simp: filed_whole_def)
  next
    case False
    then have "(pr_resolves_to pl, ids) \<in> set found" using pl(3) by simp
    from moved_ids_from [OF f this] obtain ch boxes now' s' payload content where
      "ch \<in> set (update_patched update)" "mc_key ch = pr_resolves_to pl" "sx_mailboxes (mc_state ch) = Some boxes" "files_in boxes sent"
      "P now' s'" "object_payload scope (pr_resolves_to pl) s' = Some payload" "dc_content dec payload = Inr content"
      "ids = ev_message_id (ct_envelope content)"
      by (auto simp: moved_keys_def is_some_and_def split: option.splits)
    with pl(2) show ?thesis by (metis (no_types, lifting))
  qed
  with pl(1) P awaits show ?thesis by blast
qed

section \<open>Progress counts a message once\<close>

lemma count_new_counts:
  "count_new ms counted = (n, counted') \<Longrightarrow>
     n + card (set counted) = card (set counted') \<and> set counted' = set counted \<union> ms_id ` set ms"
proof (induction ms counted arbitrary: n counted' rule: count_new.induct)
  case (2 m ms counted)
  show ?case
  proof (cases "ms_id m \<in> set counted")
    case True
    with 2 show ?thesis by auto
  next
    case False
    then obtain k where k: "count_new ms (bs_of (counted @ [ms_id m])) = (k, counted')" "n = Suc k"
      using "2.prems" by (auto split: prod.splits)
    from "2.IH"(2) [OF False k(1)] False k(2) show ?thesis by simp
  qed
qed simp

fun chunk_ids :: "(nat \<times> (provider_error, 'x email_chunk) result) list \<Rightarrow> provider_key set" where
  "chunk_ids [] = {}"
| "chunk_ids ((k, Inl e) # items) = {}"
| "chunk_ids ((k, Inr c) # items) = ms_id ` set (ck_changed c) \<union> chunk_ids items"

lemma finite_chunk_ids [simp]: "finite (chunk_ids items)"
  by (induction items rule: chunk_ids.induct) simp_all

text \<open>How the pass goes on after a chunk: it stops with its state as it was, or commits it.\<close>

lemma stream_chunk_cases:
  assumes "stream_loop p l ((k, Inr c) # items) beats st w = (e, st', w')"
  obtains (stopped) "st' = st"
  | (final) update present adv applied where "st' = chunk_committed p c update present adv applied st"
  | (goes_on) update present adv applied w1 where
      "stream_loop p l items beats (chunk_committed p c update present adv applied st) w1 = (e, st', w')"
  using assms
  by (auto simp: Let_def split: prod.splits sum.splits if_splits)

lemma chunk_committed_counts:
  assumes "ps_fetched st = card (set (ps_counted st))"
  shows "ps_fetched (chunk_committed p c u pr adv ap st) = card (set (ps_counted (chunk_committed p c u pr adv ap st)))"
    "set (ps_counted (chunk_committed p c u pr adv ap st)) = set (ps_counted st) \<union> ms_id ` set (ck_changed c)"
    "ps_fetched st \<le> ps_fetched (chunk_committed p c u pr adv ap st)"
    "\<exists>co. ps_commits (chunk_committed p c u pr adv ap st) = ps_commits st @ [co] \<and> co_fetched co = ps_fetched (chunk_committed p c u pr adv ap st)"
proof -
  obtain n counted where c: "count_new (ck_changed c) (ps_counted st) = (n, counted)" by force
  show "ps_fetched (chunk_committed p c u pr adv ap st) = card (set (ps_counted (chunk_committed p c u pr adv ap st)))"
    "set (ps_counted (chunk_committed p c u pr adv ap st)) = set (ps_counted st) \<union> ms_id ` set (ck_changed c)"
    "ps_fetched st \<le> ps_fetched (chunk_committed p c u pr adv ap st)"
    "\<exists>co. ps_commits (chunk_committed p c u pr adv ap st) = ps_commits st @ [co] \<and> co_fetched co = ps_fetched (chunk_committed p c u pr adv ap st)"
    using count_new_counts [OF c] assms by (auto simp: chunk_committed_def c Let_def)
qed

lemma stream_loop_progress:
  assumes "stream_loop p l items beats st w = (e, st', w')" "ps_fetched st = card (set (ps_counted st))"
  shows "\<exists>new. ps_commits st' = ps_commits st @ new \<and> sorted (map co_fetched new) \<and>
    (\<forall>co \<in> set new. ps_fetched st \<le> co_fetched co \<and> co_fetched co \<le> card (set (ps_counted st) \<union> chunk_ids items))"
  using assms
proof (induction items arbitrary: st w)
  case Nil
  then show ?case by (auto split: prod.splits)
next
  case (Cons item items)
  obtain k x where item: "item = (k, x)" by force
  show ?case
  proof (cases x)
    case (Inl err)
    then show ?thesis using Cons.prems(1) item by (auto split: prod.splits)
  next
    case (Inr c)
    from Cons.prems(1) [unfolded item Inr] show ?thesis
    proof (cases rule: stream_chunk_cases)
      case stopped
      then show ?thesis by (intro exI [of _ "[]"]) simp
    next
      case (final update present adv applied)
      note counts = chunk_committed_counts [OF Cons.prems(2), of p c update present adv applied]
      from counts(4) final obtain co where co: "ps_commits st' = ps_commits st @ [co]" "co_fetched co = ps_fetched st'" by blast
      have "card (set (ps_counted st')) \<le> card (set (ps_counted st) \<union> chunk_ids (item # items))"
        using counts(2) final item Inr by (intro card_mono) auto
      then show ?thesis using co counts(1,3) final by (intro exI [of _ "[co]"]) auto
    next
      case (goes_on update present adv applied w1)
      let ?st = "chunk_committed p c update present adv applied st"
      note counts = chunk_committed_counts [OF Cons.prems(2), of p c update present adv applied]
      from counts(4) obtain co where co: "ps_commits ?st = ps_commits st @ [co]" "co_fetched co = ps_fetched ?st" by blast
      from Cons.IH [OF goes_on counts(1)] obtain new where new: "ps_commits st' = ps_commits ?st @ new" "sorted (map co_fetched new)"
        "\<forall>co \<in> set new. ps_fetched ?st \<le> co_fetched co \<and> co_fetched co \<le> card (set (ps_counted ?st) \<union> chunk_ids items)" by blast
      have all: "set (ps_counted ?st) \<union> chunk_ids items = set (ps_counted st) \<union> chunk_ids (item # items)"
        using counts(2) item Inr by auto
      moreover have "ps_fetched ?st \<le> card (set (ps_counted ?st) \<union> chunk_ids items)"
        using counts(1) by (simp add: card_mono)
      ultimately show ?thesis using new co counts(3) by (intro exI [of _ "co # new"]) (auto intro: order_trans)
    qed
  qed
qed

end
