(* ===== verification/Message_Props.thy ===== *)
theory Message_Props
  imports Message_Store
begin

text \<open>
  What the store keeps of a message is the message: its payload half and its rows, read back and joined.
\<close>

definition sample_mail :: "unit message" where
  "sample_mail = \<lparr>ms_id = ''m1'', ms_thread = None, ms_mailboxes = [''inbox''], ms_keywords = [''$seen''], ms_size = Some 1200,
     ms_received_at = Some 5, ms_sent_at = None, ms_last_modified = None,
     ms_envelope = \<lparr>ev_message_id = [''a@x''], ev_in_reply_to = [], ev_references = [], ev_subject = Some ''Hello'',
       ev_from = [\<lparr>ea_name = Some ''Ann'', ea_email = ''ann@x''\<rparr>], ev_sender = [], ev_reply_to = [], ev_to = [], ev_cc = [], ev_bcc = []\<rparr>,
     ms_preview = None, ms_has_attachment = False, ms_reply_unique_text = None, ms_revisions = revision_none, ms_carried = ()\<rparr>"

lemma sample_mail_ok: "message_ok sample_mail"
  by code_simp

definition threaded_mail :: "unit message" where
  "threaded_mail = sample_mail\<lparr>ms_thread := Some \<lparr>tf_id = ''t9'', tf_provenance = ProviderAssigned\<rparr>\<rparr>"

definition mail_batch :: "(unit, unit) apply_batch" where
  "mail_batch = batch_with_cursor (update_delta [()] []) (derive_messages id [threaded_mail]) [] (Some ''c'')"

definition mail_object :: "(unit, unit) sync_object" where
  "mail_object = \<lparr>so_key = (\<lambda>_. ms_id threaded_mail), so_payload = Inr\<rparr>"

definition mail_lease :: sync_lease where
  "mail_lease = \<lparr>sy_account = ''acc'', sy_scope = ImapMailbox ''acc'' ''inbox'', sy_token = fence_initial, sy_owner = ''w'', sy_expiry = 9\<rparr>"

definition mail_store :: "unit inner" where
  "mail_store = inner_new\<lparr>in_scopes := [(ImapMailbox ''acc'' ''inbox'', scope_cell_new)]\<rparr>"



end
