(* ===== verification/Time_Props.thy ===== *)
theory Time_Props
  imports Window_Cursor
begin

text \<open>
  What holds of the engine's time text: it reads back, it sorts, exactly the written forms are read, a
  stored cursor resumes exactly within its floor; and two inputs on which the code does not do what its
  comments say. The \<open>time\<close> crate is a parameter; the witnesses take the Gregorian calendar for it.
\<close>

section \<open>The Gregorian calendar as the crate\<close>

definition leap_year :: "int \<Rightarrow> bool" where
  "leap_year y \<longleftrightarrow> 4 dvd y \<and> (\<not> 100 dvd y \<or> 400 dvd y)"

definition days_in_month :: "int \<Rightarrow> nat \<Rightarrow> nat" where
  "days_in_month y m = (if m = 2 then if leap_year y then 29 else 28 else if m \<in> {4, 6, 9, 11} then 30 else 31)"

definition gregorian :: time_crate where
  "gregorian = \<lparr>tc_date_ok = (\<lambda>y m d. - 9999 \<le> y \<and> y \<le> 9999 \<and> 1 \<le> m \<and> m \<le> 12 \<and> 1 \<le> d \<and> d \<le> days_in_month y m),
     tc_time_ok = (\<lambda>h m s n. h < 24 \<and> m < 60 \<and> s < 60 \<and> n < 10 ^ 9)\<rparr>"

lemma gregorian_ok: "time_crate_ok gregorian"
  by (force simp: time_crate_ok_def gregorian_def days_in_month_def split: if_splits)

lemma ends_in_Z [simp]: "parse_utc tc (s @ ''Z'') = parse_wall_clock tc s"
  "parse_rfc3339 tc psub (s @ ''Z'') = parse_wall_clock tc s"
  by (simp_all add: parse_utc_def parse_rfc3339_def)

section \<open>Round trips and order\<close>

text \<open>
  C36. A UTC date-time with a year from zero on, printed for display or for sorting, is read back as itself, by
  the strict reader and by the RFC 3339 reader.
\<close>
theorem time_text_roundtrip:
  assumes "time_crate_ok tc" "date_time_ok tc t" "0 \<le> fst (fst t)"
  shows "parse_utc tc (display_utc t) = Some (Inr t) \<and> parse_utc tc (to_sortable_string t) = Some (Inr t) \<and>
    parse_rfc3339 tc psub (display_utc t) = Some (Inr t) \<and> parse_rfc3339 tc psub (to_sortable_string t) = Some (Inr t)"
proof -
  obtain y m d c where t: "t = ((y, m, d), c)" by (metis prod_cases3 surj_pair)
  show ?thesis
    using assms parse_format_wall_clock [of tc y m d c] parse_format_fixed [of tc y m d c]
    by (simp add: t display_utc_def to_sortable_string_def)
qed

theorem time_text_roundtrip_witness:
  "parse_utc gregorian (display_utc ((2024, 2, 29), (23, 59, 59, 500))) = Some (Inr ((2024, 2, 29), (23, 59, 59, 500)))"
  using time_text_roundtrip [OF gregorian_ok, of "((2024, 2, 29), (23, 59, 59, 500))"]
  by (simp add: gregorian_def days_in_month_def leap_year_def)

text \<open>
  The sortable text of two date-times compares, byte by byte, as the instants do: year, month, day, hour,
  minute, second and nanosecond in turn.
\<close>
theorem sortable_text_orders:
  assumes "time_crate_ok tc" "date_time_ok tc a" "date_time_ok tc b" "0 \<le> fst (fst a)" "0 \<le> fst (fst b)"
  shows "to_sortable_string a < to_sortable_string b \<longleftrightarrow> components a < components b"
  using assms by (rule sortable_order)

theorem sortable_text_orders_witness:
  "to_sortable_string ((2024, 1, 2), (0, 0, 0, 1)) < to_sortable_string ((2024, 1, 2), (0, 0, 0, 20))"
  using sortable_text_orders [OF gregorian_ok, of "((2024, 1, 2), (0, 0, 0, 1))" "((2024, 1, 2), (0, 0, 0, 20))"]
  by (simp add: gregorian_def days_in_month_def)

text \<open>
  C37. Every duration is read back from its ISO 8601 text as itself.
\<close>
theorem duration_roundtrip:
  assumes "dur_ok d"
  shows "duration_from_str (duration_display d) = Inr d"
  using assms by (rule parse_duration_display)

theorem duration_roundtrip_witness:
  "duration_from_str (duration_display \<lparr>dur_days = 15, dur_seconds = 18020, dur_nanoseconds = 500000000\<rparr>) =
     Inr \<lparr>dur_days = 15, dur_seconds = 18020, dur_nanoseconds = 500000000\<rparr>"
  by (rule duration_roundtrip) (simp add: dur_ok_def u64_max_def)

section \<open>Which texts are read\<close>

lemma and_then_Inr: "and_then r f = Some (Inr y) \<longleftrightarrow> (\<exists>x. r = Some (Inr x) \<and> f x = Some (Inr y))"
  by (auto simp: and_then_def split: option.splits sum.splits)

lemma digits_at_Inr: "digits_at s a b e = Some (Inr n) \<Longrightarrow> a \<le> b \<and> take (b - a) (drop a s) \<noteq> [] \<and>
    all_digits (take (b - a) (drop a s)) \<and> n = undecimal (take (b - a) (drop a s))"
  by (auto simp: digits_at_def slice_def parse_digits_def split: if_splits)

lemma pad_two_digits: "all_digits [a, b] \<Longrightarrow> pad 2 (undecimal [a, b]) = [a, b]"
  using pad_undecimal [of "[a, b]"] by (simp add: numeral_2_eq_2)

lemma pad_four_digits: "all_digits [a, b, c, d] \<Longrightarrow> pad_int 4 (int (undecimal [a, b, c, d])) = [a, b, c, d]"
  using pad_undecimal [of "[a, b, c, d]"] by (simp add: pad_int_def eval_nat_numeral)

lemma read_date_text:
  assumes "parse_ymd tc s = Some (Inr (y, m, d))"
  shows "tc_date_ok tc y m d \<and> 0 \<le> y \<and> s = format_date (y, m, d)"
proof -
  have len: "length s = 10" using assms by (auto simp: parse_ymd_def split: if_splits)
  then obtain a1 a2 a3 a4 a5 a6 a7 a8 a9 a10 where s: "s = [a1, a2, a3, a4, a5, a6, a7, a8, a9, a10]"
    by (auto simp: length_Suc_conv numeral_eq_Suc)
  have "a5 = CHR ''-''" "a8 = CHR ''-''" and dig: "all_digits [a1, a2, a3, a4]" "all_digits [a6, a7]" "all_digits [a9, a10]"
    and "y = int (undecimal [a1, a2, a3, a4])" "m = undecimal [a6, a7]" "d = undecimal [a9, a10]" "tc_date_ok tc y m d"
    using assms unfolding s by (auto simp: parse_ymd_def and_then_Inr split: if_splits dest!: digits_at_Inr)
  with pad_four_digits [OF dig(1)] pad_two_digits [OF dig(2)] pad_two_digits [OF dig(3)] show ?thesis by (simp add: s)
qed

text \<open>The digits of a fraction: those of the nanoseconds, up to zeros at the end.\<close>

definition fraction_text :: "string \<Rightarrow> nat \<Rightarrow> bool" where
  "fraction_text frac n \<longleftrightarrow> frac = [] \<and> n = 0 \<or>
     (\<exists>ds. frac = CHR ''.'' # ds \<and> ds \<noteq> [] \<and> all_digits ds \<and> trim_zeros ds = trim_zeros (pad 9 n))"

lemma trim_zeros_trailing [simp]: "trim_zeros (s @ replicate k CHR ''0'') = trim_zeros s"
  by (simp add: trim_zeros_def dropWhile_append)

lemma subsecond_Inr:
  "parse_subsecond ds = Inr n \<longleftrightarrow> ds \<noteq> [] \<and> all_digits ds \<and> (\<forall>c \<in> set (drop 9 ds). c = CHR ''0'') \<and>
     n = undecimal (take 9 ds) * 10 ^ (9 - length (take 9 ds))"
proof -
  have t: "take (min (length ds) 9) ds = take 9 ds" "length (take 9 ds) = min (length ds) 9" by (simp_all add: min_def)
  have z: "9 < length ds \<and> list_ex (\<lambda>b. b \<noteq> CHR ''0'') (drop 9 ds) \<longleftrightarrow> \<not> (\<forall>c \<in> set (drop 9 ds). c = CHR ''0'')"
    by (cases "9 < length ds") (auto simp: list_ex_iff)
  have pick: "(if A then Inl e else if \<not> B then Inl e' else Inr v) = Inr n \<longleftrightarrow> \<not> A \<and> B \<and> n = v"
    for A B and e e' :: time_error and v by auto
  show ?thesis unfolding parse_subsecond_def Let_def z t(2) t(1) pick by blast
qed

lemma subsecond_digits:
  assumes "parse_subsecond ds = Inr n"
  shows "ds \<noteq> [] \<and> all_digits ds \<and> n < 10 ^ 9 \<and> trim_zeros ds = trim_zeros (pad 9 n)"
proof -
  let ?t = "take 9 ds"
  have ds: "ds \<noteq> []" "all_digits ds" and late: "\<forall>c \<in> set (drop 9 ds). c = CHR ''0''"
    and n: "n = undecimal ?t * 10 ^ (9 - length ?t)"
    using assms unfolding subsecond_Inr by blast+
  have zeros: "drop 9 ds = replicate (length ds - 9) CHR ''0''" by (intro replicate_eqI) (use late in auto)
  let ?p = "?t @ replicate (9 - length ?t) CHR ''0''"
  have dig: "all_digits ?p" using ds(2) by (metis all_digits_replicate all_digits_simps(3) append_take_drop_id)
  have val: "undecimal ?p = n" unfolding n by (rule undecimal_trailing)
  have len: "length ?p = 9" by simp
  have less: "n < 10 ^ 9" using undecimal_less [OF dig] unfolding val len .
  have "pad 9 n = ?p" using pad_undecimal [OF dig] len val by (metis list.size(3) zero_neq_numeral)
  moreover have "trim_zeros ds = trim_zeros ?t" using zeros trim_zeros_trailing by (metis append_take_drop_id)
  ultimately show ?thesis using ds less by simp
qed

lemma trim_zeros_pad_inject:
  assumes "trim_zeros (pad 9 m) = trim_zeros (pad 9 n)" and "m < 10 ^ 9" and "n < 10 ^ 9"
  shows "m = n"
proof -
  obtain i j where "pad 9 m = trim_zeros (pad 9 m) @ replicate i CHR ''0''" "pad 9 n = trim_zeros (pad 9 n) @ replicate j CHR ''0''"
    using trim_zeros_split by blast
  moreover from this have "i = j" using assms pad_length [of 9 m] pad_length [of 9 n]
    by (metis add_left_cancel length_append length_replicate zero_less_numeral)
  ultimately show ?thesis using assms(1) pad_inject [of 9 m n] by metis
qed

lemma digits_subsecond:
  assumes "ds \<noteq> []" "all_digits ds" "n < 10 ^ 9" "trim_zeros ds = trim_zeros (pad 9 n)"
  shows "parse_subsecond ds = Inr n"
proof -
  obtain k where k: "ds = trim_zeros ds @ replicate k CHR ''0''" using trim_zeros_split by blast
  obtain j where j: "pad 9 n = trim_zeros (pad 9 n) @ replicate j CHR ''0''" using trim_zeros_split by blast
  have "length (trim_zeros ds) \<le> 9" using arg_cong [OF j, of length] pad_length [of 9 n] assms(3,4) by simp
  then have "\<forall>c \<in> set (drop 9 (trim_zeros ds @ replicate k CHR ''0'')). c = CHR ''0''" by simp
  then have "\<forall>c \<in> set (drop 9 ds). c = CHR ''0''" using k by metis
  then obtain n' where n': "parse_subsecond ds = Inr n'"
    using assms(1,2) subsecond_Inr [of ds] by blast
  from subsecond_digits [OF this] have "n' < 10 ^ 9" "trim_zeros (pad 9 n') = trim_zeros (pad 9 n)" using assms(4) by metis+
  then have "n' = n" using trim_zeros_pad_inject assms(3) by blast
  with n' show ?thesis by simp
qed

lemma read_clock_text:
  assumes "parse_hms tc s = Some (Inr (h, mi, sec, n))"
  shows "tc_time_ok tc h mi sec n \<and>
    (\<exists>frac. fraction_text frac n \<and> s = pad 2 h @ '':'' @ pad 2 mi @ '':'' @ pad 2 sec @ frac)"
proof -
  have len: "8 \<le> length s" using assms by (auto simp: parse_hms_def split: if_splits)
  then obtain p frac where "s = p @ frac" "length p = 8" by (metis append_take_drop_id length_take min.absorb2)
  then obtain a1 a2 a3 a4 a5 a6 a7 a8 where s: "s = [a1, a2, a3, a4, a5, a6, a7, a8] @ frac"
    by (auto simp: length_Suc_conv numeral_eq_Suc)
  have parts: "a3 = CHR '':''" "a6 = CHR '':''" and dig: "all_digits [a1, a2]" "all_digits [a4, a5]" "all_digits [a7, a8]"
    and val: "h = undecimal [a1, a2]" "mi = undecimal [a4, a5]" "sec = undecimal [a7, a8]" "tc_time_ok tc h mi sec n"
    and frac: "frac = [] \<and> n = 0 \<or> (\<exists>ds. frac = CHR ''.'' # ds \<and> parse_subsecond ds = Inr n)"
    using assms unfolding s
    by (auto simp: parse_hms_def and_then_Inr slice_from_def slice_def neq_Nil_conv split: if_splits dest!: digits_at_Inr)
  have "fraction_text frac n" using frac subsecond_digits unfolding fraction_text_def by blast
  with val(4) parts pad_two_digits [OF dig(1)] pad_two_digits [OF dig(2)] pad_two_digits [OF dig(3)] show ?thesis
    unfolding s val(1-3) by auto
qed

lemma read_wall_clock_text:
  assumes "parse_wall_clock tc s = Some (Inr ((y, m, d), (h, mi, sec, n)))"
  shows "date_time_ok tc ((y, m, d), (h, mi, sec, n)) \<and> 0 \<le> y \<and>
    (\<exists>frac. fraction_text frac n \<and>
      s = format_date (y, m, d) @ ''T'' @ pad 2 h @ '':'' @ pad 2 mi @ '':'' @ pad 2 sec @ frac)"
proof -
  have len: "19 \<le> length s" "s ! 10 = CHR ''T''" and read: "parse_ymd tc (take 10 s) = Some (Inr (y, m, d))"
    "parse_hms tc (drop 11 s) = Some (Inr (h, mi, sec, n))"
    using assms by (auto simp: parse_wall_clock_def and_then_Inr slice_from_def slice_def split: if_splits option.splits)
  have "s = take 10 s @ CHR ''T'' # drop 11 s"
    using id_take_nth_drop [of 10 s] len by simp
  then show ?thesis using read_date_text [OF read(1)] read_clock_text [OF read(2)]
    by (metis append_Cons append_Nil date_time_ok.simps)
qed

lemma wall_clock_text_read:
  assumes "time_crate_ok tc" "date_time_ok tc ((y, m, d), (h, mi, sec, n))" "0 \<le> y" "fraction_text frac n"
  shows "parse_wall_clock tc (format_date (y, m, d) @ ''T'' @ pad 2 h @ '':'' @ pad 2 mi @ '':'' @ pad 2 sec @ frac) =
    Some (Inr ((y, m, d), (h, mi, sec, n)))"
proof -
  have ok: "tc_date_ok tc y m d" "tc_time_ok tc h mi sec n" using assms(2) by simp_all
  have n: "n < 10 ^ 9" using time_crate_bounds(2) [OF assms(1) ok(2)] by simp
  have "frac = [] \<and> n = 0 \<or> frac = CHR ''.'' # tl frac \<and> all_digits (tl frac) \<and> parse_subsecond (tl frac) = Inr n"
    using assms(4) digits_subsecond [OF _ _ n] by (auto simp: fraction_text_def)
  from parse_fixed_time [OF assms(1) ok(2) this] show ?thesis
    using parse_wall_clock_parts [OF assms(1) ok(1) assms(3)] by (simp del: format_date.simps)
qed

text \<open>
  C38. Which texts are read, and as what. A text is read as a date exactly when it is the ten bytes that date
  is written as, for a date that exists in a year from zero on. A text is read as a UTC date-time exactly when
  it is the date, a T, the hour, minute and second in two digits each, no fraction or one whose digits are
  those of the nanoseconds up to zeros at the end, and a Z, for a date-time that exists. Nothing else is
  accepted: no sign, no blank, no other separator and no digit past the nanoseconds other than zero.
\<close>
theorem time_text_accepted:
  assumes "time_crate_ok tc"
  shows "(parse_ymd tc s = Some (Inr (y, m, d)) \<longleftrightarrow> tc_date_ok tc y m d \<and> 0 \<le> y \<and> s = format_date (y, m, d)) \<and>
    (parse_utc tc s = Some (Inr ((y, m, d), (h, mi, sec, n))) \<longleftrightarrow>
       date_time_ok tc ((y, m, d), (h, mi, sec, n)) \<and> 0 \<le> y \<and>
       (\<exists>frac. fraction_text frac n \<and>
          s = format_date (y, m, d) @ ''T'' @ pad 2 h @ '':'' @ pad 2 mi @ '':'' @ pad 2 sec @ frac @ ''Z''))"
    (is "?date \<and> ?utc")
proof
  show ?date using read_date_text [of tc s y m d] parse_format_date(1) [OF assms, of y m d] by blast
  show ?utc
  proof
    assume read: "parse_utc tc s = Some (Inr ((y, m, d), (h, mi, sec, n)))"
    then have "s = butlast s @ ''Z''" by (metis parse_utc_def append_butlast_last_id option.inject sum.distinct(1))
    moreover have "parse_wall_clock tc (butlast s) = Some (Inr ((y, m, d), (h, mi, sec, n)))"
      using read by (auto simp: parse_utc_def split: if_splits)
    ultimately show "date_time_ok tc ((y, m, d), (h, mi, sec, n)) \<and> 0 \<le> y \<and>
       (\<exists>frac. fraction_text frac n \<and>
          s = format_date (y, m, d) @ ''T'' @ pad 2 h @ '':'' @ pad 2 mi @ '':'' @ pad 2 sec @ frac @ ''Z'')"
      using read_wall_clock_text by (metis append.assoc)
  next
    assume "date_time_ok tc ((y, m, d), (h, mi, sec, n)) \<and> 0 \<le> y \<and>
       (\<exists>frac. fraction_text frac n \<and>
          s = format_date (y, m, d) @ ''T'' @ pad 2 h @ '':'' @ pad 2 mi @ '':'' @ pad 2 sec @ frac @ ''Z'')"
    then obtain frac where t: "date_time_ok tc ((y, m, d), (h, mi, sec, n))" "0 \<le> y" "fraction_text frac n"
      "s = (format_date (y, m, d) @ ''T'' @ pad 2 h @ '':'' @ pad 2 mi @ '':'' @ pad 2 sec @ frac) @ ''Z''"
      by (auto simp del: format_date.simps)
    from wall_clock_text_read [OF assms t(1-3)] show "parse_utc tc s = Some (Inr ((y, m, d), (h, mi, sec, n)))"
      unfolding t(4) ends_in_Z(1) .
  qed
qed

theorem time_text_accepted_witness:
  "parse_utc gregorian ''2024-02-29T23:59:59.50Z'' = Some (Inr ((2024, 2, 29), (23, 59, 59, 500000000))) \<and>
   \<not> tc_date_ok gregorian 2023 2 29 \<and> parse_ymd gregorian ''2023-02-29'' \<noteq> Some (Inr (2023, 2, 29))"
proof -
  have pads: "pad 2 2 = ''02''" "pad 2 29 = ''29''" "pad 2 23 = ''23''" "pad 2 59 = ''59''" "pad_int 4 2024 = ''2024''"
    "pad 9 500000000 = ''500000000''" by (simp_all add: pad_int_def pad_def decimal.simps digit_def) code_simp+
  have "trim_zeros ''50'' = trim_zeros (pad 9 500000000)" unfolding pads by code_simp
  then have "fraction_text ''.50'' 500000000" by (simp add: fraction_text_def is_digit_def)
  moreover have "date_time_ok gregorian ((2024, 2, 29), (23, 59, 59, 500000000))"
    by (simp add: gregorian_def days_in_month_def leap_year_def)
  moreover have "''2024-02-29T23:59:59.50Z'' =
      format_date (2024, 2, 29) @ ''T'' @ pad 2 23 @ '':'' @ pad 2 59 @ '':'' @ pad 2 59 @ ''.50'' @ ''Z''"
    by (simp add: pads)
  ultimately have "parse_utc gregorian ''2024-02-29T23:59:59.50Z'' = Some (Inr ((2024, 2, 29), (23, 59, 59, 500000000)))"
    using time_text_accepted [OF gregorian_ok, of "''2024-02-29T23:59:59.50Z''" 2024 2 29 23 59 59 500000000]
    by (metis order_refl zero_le_numeral)
  moreover have no: "\<not> tc_date_ok gregorian 2023 2 29" by (simp add: gregorian_def days_in_month_def leap_year_def)
  ultimately show ?thesis using time_text_accepted [OF gregorian_ok, of "''2023-02-29''" 2023 2 29] by blast
qed

section \<open>Cursors\<close>

text \<open>
  An email cursor stored with the floor of the window it was fetched under resumes as itself in every
  window that reaches no further back, and as nothing in one that does, so that a widened window fetches
  again.
\<close>
theorem cursor_resumes_within_floor:
  assumes "time_crate_ok tc" "sw_since w = Some f" "floor_ok tc f"
  shows "resume tc (Some (stamp c w)) w' =
    Some (case sw_since w' of None \<Rightarrow> None | Some asked \<Rightarrow> if date_list f \<le> date_list asked then Some c else None)"
  using resume_stamped [OF assms, of c w'] by (simp add: covers_def date_ge_def split: option.splits)

theorem cursor_resumes_within_floor_witness:
  "resume gregorian (Some (stamp ''s1'' (window_since (2024, 1, 31)))) (window_since (2024, 2, 1)) = Some (Some ''s1'') \<and>
   resume gregorian (Some (stamp ''s1'' (window_since (2024, 1, 31)))) (window_since (2024, 1, 30)) = Some None"
  using cursor_resumes_within_floor [OF gregorian_ok, of "window_since (2024, 1, 31)" "(2024, 1, 31)" "''s1''" "window_since (2024, 2, 1)"]
    cursor_resumes_within_floor [OF gregorian_ok, of "window_since (2024, 1, 31)" "(2024, 1, 31)" "''s1''" "window_since (2024, 1, 30)"]
  by (simp add: floor_ok_def window_since_def gregorian_def days_in_month_def)

section \<open>What the comments do not say\<close>

text \<open>
  A date-time before year zero, which arithmetic on an accepted text can produce, is printed as text that
  the reader refuses.
\<close>
theorem negative_year_is_not_read_back:
  assumes "time_crate_ok tc" "date_time_ok tc ((y, m, d), c)" "y < 0"
  shows "\<exists>e. parse_utc tc (display_utc ((y, m, d), c)) = Some (Inl e)"
  using negative_year_unreadable [OF assms] by (simp add: display_utc_def)

theorem negative_year_is_not_read_back_witness:
  "\<exists>e. parse_utc gregorian (display_utc ((- 1, 12, 31), (23, 0, 0, 0))) = Some (Inl e)"
  using negative_year_is_not_read_back [OF gregorian_ok, of "- 1" 12 31 "(23, 0, 0, 0)"]
  by (simp add: gregorian_def days_in_month_def)

text \<open>
  A date-time whose seconds end in a character of two bytes is sliced inside that character: the reader
  panics instead of answering an error. Text of one-byte characters never does this.
\<close>
theorem parse_panics_inside_character:
  "parse_utc gregorian (''2024-01-01T00:00:0'' @ [CHR 0xC3, CHR 0xA9] @ ''Z'') = None \<and>
   (\<forall>s. plain s \<longrightarrow> parse_utc tc s \<noteq> None)"
proof -
  have "parse_utc gregorian (''2024-01-01T00:00:0'' @ [CHR 0xC3, CHR 0xA9] @ ''Z'') = None"
    by (simp add: parse_utc_def parse_wall_clock_def parse_ymd_def parse_hms_def digits_at_def slice_def slice_from_def
        char_boundary_def continuation_def parse_digits_def undecimal_def is_digit_def digit_value_def
        u32_max_def i32_max_def u8_max_def gregorian_def days_in_month_def)
  moreover have "parse_utc tc s \<noteq> None" if "plain s" for s
  proof -
    have "plain (butlast s)" using that in_set_butlastD [of _ s] by (auto simp: plain_def)
    then show ?thesis using parse_wall_clock_returns [of "butlast s" tc] by (auto simp: parse_utc_def)
  qed
  ultimately show ?thesis by blast
qed

theorem parse_panics_inside_character_witness: "parse_utc gregorian ''yesterday'' \<noteq> None"
  using parse_panics_inside_character [of gregorian] by (simp add: continuation_def)

end
