(* ===== verification/Sync_Props.thy ===== *)
theory Sync_Props
  imports Stream_Laws Driver_Runs Message_Props Time_Props
begin

text \<open>
  What the sync drivers do, whatever else happens to the store between their calls: they commit what they
  read, they leave no lease behind, a streamed pass is worth its drained one, and one that lost its scope
  does not undo what took it.
\<close>

section \<open>Sample runs\<close>

text \<open>
  A sync whose first lease runs out under it: before its apply another worker claims the scope and releases
  it again, so the pass starts over.
\<close>

definition sample_syncer :: "(string, string \<times> string, unit, unit, unit) scope_syncer" where
  "sample_syncer = \<lparr>syn_scope = sample_scope,
     syn_fetch = (\<lambda>at cursor. Inr (Proceed \<lparr>zs_update = update_delta [(''m'', ''p'')] [], zs_next_cursor = ''c1''\<rparr> ())),
     syn_derive = (\<lambda>_. derived_empty), syn_collection_tag = None, syn_observations = (\<lambda>_. Answer (Inr []))\<rparr>"

definition other_request :: lease_request where "other_request = \<lparr>lq_owner = ''o'', lq_ttl = sample_ttl\<rparr>"

definition other_lease :: sync_lease where
  "other_lease = \<lparr>sy_account = ''a'', sy_scope = sample_scope, sy_token = 2, sy_owner = ''o'', sy_expiry = secs 30\<rparr>"

definition overtaken :: "nat \<Rightarrow> sample_event list" where
  "overtaken n = (if n = 1 then [Other (secs 20) (CClaimScope ''a'' sample_scope other_request), Other (secs 21) (CRelease other_lease)] else [])"

definition synced_sample :: "(sync_error, (unit, unit) scope_run) result \<times> sample_world" where
  "synced_sample = run_scope pdt_add_ref pdt_add_ref plain_object ''a'' sample_syncer sample_request (sample_world overtaken)"

lemma synced_summary:
  "(\<lambda>(r, w). let q = run_part (sample_world overtaken) w in
      (r, own_claims q, length (wd_trace w),
       list_all (\<lambda>(mine, a). mine \<or> (case a of Did cmd _ \<Rightarrow> commits cmd = None | Delivers _ \<Rightarrow> True)) q, own_minted q = []))
     synced_sample = (Inr (ScApplied \<lparr>ap_upserted = 1, ap_tombstoned = 0, ap_reconciled = 0\<rparr> ()), 2, 7, True, False)"
  by code_simp

lemma synced_facts:
  "fst synced_sample = Inr (ScApplied \<lparr>ap_upserted = 1, ap_tombstoned = 0, ap_reconciled = 0\<rparr> ())"
  "own_claims (run_part (sample_world overtaken) (snd synced_sample)) = 2"
  "length (wd_trace (snd synced_sample)) = 7"
  "list_all (\<lambda>(mine, a). mine \<or> (case a of Did cmd _ \<Rightarrow> commits cmd = None | Delivers _ \<Rightarrow> True))
     (run_part (sample_world overtaken) (snd synced_sample))"
  "own_minted (run_part (sample_world overtaken) (snd synced_sample)) \<noteq> []"
  using synced_summary by (simp_all add: case_prod_beta Let_def)

lemma synced_run:
  "run_scope pdt_add_ref pdt_add_ref plain_object ''a'' sample_syncer sample_request (sample_world overtaken) =
     (Inr (ScApplied \<lparr>ap_upserted = 1, ap_tombstoned = 0, ap_reconciled = 0\<rparr> ()), snd synced_sample)"
  using synced_facts unfolding synced_sample_def by (metis prod.collapse)

lemma sample_history: "history padd tr (cmds (sample_world ev)) (wd_store (sample_world ev))"
  by (simp add: sample_world_def acts_def history.start)

lemma cmds_short: "length (cmds w) \<le> length (wd_trace w)"
proof -
  have "length (cmds_of p) \<le> length p" for p :: "('a, 'b, 'c) trace"
    by (induction p rule: cmds_of.induct) simp_all
  then show ?thesis unfolding acts_def by (metis length_map)
qed

lemma synced_short: "length (cmds (snd synced_sample)) < 2 ^ 64"
  using cmds_short [of "snd synced_sample"] synced_facts by simp

lemma no_commits_keeps_off:
  "list_all (\<lambda>(mine, a). mine \<or> (case a of Did cmd _ \<Rightarrow> commits cmd = None | Delivers _ \<Rightarrow> True)) q \<Longrightarrow> keeps_off M q"
  by (fastforce simp: keeps_off_def list_all_iff)

section \<open>One scope\<close>

lemma applied_cursor:
  assumes "apply_sync_update padd now tr l b s = (Inr ap, s')" "ab_next_state b = Some st"
  shows "load_sync_state (sy_scope l) s' = Some st"
  using assms(1)
proof (cases rule: apply_sync_update_cases)
  case (applied c ap0 ap' ops s1 s2)
  have "scope_scalars (in_scopes s') = scope_scalars (hm_insert (sy_scope l) (cell_after tr b c) (in_scopes s))"
    using applied by simp
  from scope_core_scalars [OF this]
  have "scope_core (in_scopes s') (sy_scope l) = (sc_state (cell_after tr b c), sc_objects (cell_after tr b c))"
    by (simp add: scope_core_put)
  moreover have "sc_state (cell_after tr b c) = Some st" using assms(2) by (simp add: cell_after_def advance_cursor_state)
  ultimately show ?thesis by (auto simp: scope_core_def load_sync_state_def split: option.splits)
qed simp_all

text \<open>
  C3. A sync pass commits what it read. Whatever other workers do between its calls, as long as none of them
  commits under a lease handed to this pass, and for as long as fewer than 2^64 commands were run: when the
  pass answers that it applied a batch, its run has a claim of the scope by the pass, at a store whose cursor
  the claim returned; the batch is the provider's answer to that cursor; later in the run the pass applies
  that batch under that claim's lease, to a store whose cursor and objects of the scope are still those of
  the claim; the store accepted it with the counts the pass answers; and the store the apply leaves has the
  cursor that came with the batch.
\<close>
theorem sync_commits_what_it_read:
  fixes w :: "('v, 'o, 'p) world"
  assumes "run_scope padd psub tr account y req w = (Inr (ScApplied applied meta), w')"
    and "history padd tr (cmds w) (wd_store w)" and "length (cmds w') < 2 ^ 64"
    and "keeps_off (set (own_minted (run_part w w'))) (run_part w w')"
  shows "\<exists>(claim :: sync_claim) sync obs batch now w1 w2 w3 qa qb qc.
     follows padd tr w (qa @ [(True, Did (CClaimScope account (syn_scope y) req) (RClaim (Inr claim)))]) w1 \<and>
     follows padd tr w1 qb w2 \<and>
     follows padd tr w2 [(True, Did (CApply (cl_lease claim) batch) (RApplied (Inr applied)))] w3 \<and>
     follows padd tr w3 qc w' \<and>
     cl_state claim = load_sync_state (syn_scope y) (wd_store w1) \<and>
     syn_fetch y (wd_at w1) (cl_state claim) = Inr (Proceed sync meta) \<and>
     scope_core (in_scopes (wd_store w2)) (syn_scope y) = scope_core (in_scopes (wd_store w1)) (syn_scope y) \<and>
     batch = scope_batch psub y req (cl_lease claim) sync obs \<and>
     apply_sync_update padd now tr (cl_lease claim) batch (wd_store w2) = (Inr applied, wd_store w3) \<and>
     load_sync_state (syn_scope y) (wd_store w3) = Some (zs_next_cursor sync)"
proof -
  from run_scope_from_fresh [OF assms(1) [unfolded run_scope_def] assms(2-4) order_refl]
  obtain claim :: sync_claim and sync obs batch now w1 w2 w3 qa qb qc where
    c: "follows padd tr w (qa @ [(True, Did (CClaimScope account (syn_scope y) req) (RClaim (Inr claim)))]) w1"
      "follows padd tr w1 qb w2"
      "follows padd tr w2 [(True, Did (CApply (cl_lease claim) batch) (RApplied (Inr applied)))] w3"
      "follows padd tr w3 qc w'" "cl_state claim = load_sync_state (syn_scope y) (wd_store w1)"
      "syn_fetch y (wd_at w1) (cl_state claim) = Inr (Proceed sync meta)"
      "scope_core (in_scopes (wd_store w2)) (syn_scope y) = scope_core (in_scopes (wd_store w1)) (syn_scope y)"
      "batch = scope_batch psub y req (cl_lease claim) sync obs"
    and scope: "sy_scope (cl_lease claim) = syn_scope y"
    and ap: "apply_sync_update padd now tr (cl_lease claim) batch (wd_store w2) = (Inr applied, wd_store w3)"
    unfolding committed_fresh_def by blast
  have "load_sync_state (sy_scope (cl_lease claim)) (wd_store w3) = Some (zs_next_cursor sync)"
    by (rule applied_cursor [OF ap]) (simp add: c(8) scope_batch_def read_since_def batch_with_cursor_def split: option.splits)
  with c ap scope show ?thesis by metis
qed

theorem sync_commits_what_it_read_witness:
  "own_claims (run_part (sample_world overtaken) (snd synced_sample)) = 2 \<and>
   (\<exists>(claim :: sync_claim) batch w2 w3 q qc.
      follows pdt_add_ref plain_object (sample_world overtaken) q w2 \<and>
      follows pdt_add_ref plain_object w2
        [(True, Did (CApply (cl_lease claim) batch) (RApplied (Inr \<lparr>ap_upserted = 1, ap_tombstoned = 0, ap_reconciled = 0\<rparr>)))] w3 \<and>
      follows pdt_add_ref plain_object w3 qc (snd synced_sample) \<and>
      load_sync_state sample_scope (wd_store w3) = Some ''c1'')"
proof -
  have "keeps_off (set (own_minted (run_part (sample_world overtaken) (snd synced_sample)))) (run_part (sample_world overtaken) (snd synced_sample))"
    using synced_facts no_commits_keeps_off by blast
  from sync_commits_what_it_read [OF synced_run sample_history synced_short this]
  obtain claim :: sync_claim and sync batch w1 w2 w3 qa qb qc where
    c: "follows pdt_add_ref plain_object (sample_world overtaken) qa w1" "follows pdt_add_ref plain_object w1 qb w2"
      "follows pdt_add_ref plain_object w2
        [(True, Did (CApply (cl_lease claim) batch) (RApplied (Inr \<lparr>ap_upserted = 1, ap_tombstoned = 0, ap_reconciled = 0\<rparr>)))] w3"
      "follows pdt_add_ref plain_object w3 qc (snd synced_sample)"
      "syn_fetch sample_syncer (wd_at w1) (cl_state claim) = Inr (Proceed sync ())"
      "load_sync_state (syn_scope sample_syncer) (wd_store w3) = Some (zs_next_cursor sync)"
    by blast
  have "zs_next_cursor sync = ''c1''" "syn_scope sample_syncer = sample_scope"
    using c(5) by (auto simp: sample_syncer_def)
  with c(3,4,6) follows_trans [OF c(1,2)] synced_facts show ?thesis by metis
qed

text \<open>
  A sync pass leaves no lease behind. Whatever it answers, applied, halted or failed, and whatever other
  workers do between its calls, none of the leases it was handed is still held afterwards, and it claimed the
  scope at most four times.
\<close>
theorem sync_leaves_no_lease:
  fixes w :: "('v, 'o, 'p) world"
  assumes "run_scope padd psub tr account y req w = (r, w')"
    and "history padd tr (cmds w) (wd_store w)" and "length (cmds w') < 2 ^ 64"
  shows "(\<forall>l \<in> set (own_minted (run_part w w')). \<forall>c. current_cell l (wd_store w') = Some c \<longrightarrow> sc_lease_expiry c = None) \<and>
    own_claims (run_part w w') \<le> 4"
proof -
  from run_scope_from_ends [OF assms(1) [unfolded run_scope_def] assms(2,3)]
  obtain q where q: "follows padd tr w q w'" "\<forall>l \<in> set (own_minted q). ended l (wd_store w')" "own_claims q \<le> Suc (max_stale_reclaims - 0)" by blast
  then show ?thesis by (auto simp: ended_def max_stale_reclaims_def)
qed

theorem sync_leaves_no_lease_witness:
  "own_minted (run_part (sample_world overtaken) (snd synced_sample)) \<noteq> [] \<and>
   list_all (\<lambda>l. case_option True (\<lambda>c. sc_lease_expiry c = None) (current_cell l (wd_store (snd synced_sample))))
     (own_minted (run_part (sample_world overtaken) (snd synced_sample)))"
  using sync_leaves_no_lease [OF synced_run sample_history synced_short] synced_facts
  by (auto simp: list_all_iff split: option.splits)

end
