(* ===== verification/Stream_Props.thy ===== *)
theory Stream_Props
  imports Sync_Props
begin

text \<open>
  What holds of the streaming mail sync: its chunks lose nothing, it is worth the drained pass, it leaves no
  lease, it does not start over against a cursor it did not leave, it takes only a copy in Sent as proof of
  a send, and its progress counts a message once.
\<close>

section \<open>Sample passes\<close>

type_synonym stream_event = "(string, string \<times> string, mail_state_change) event"

type_synonym stream_world = "(string, string \<times> string, mail_state_change) world"

definition stream_world :: "string inner \<Rightarrow> (nat \<Rightarrow> stream_event list) \<Rightarrow> stream_world" where
  "stream_world s ev = \<lparr>wd_store = s, wd_trace = [],
     wd_sched = \<lambda>n. \<lparr>sd_events = ev n, sd_now = secs (int n), sd_mono = int n * 10 ^ 9\<rparr>, wd_at = 0, wd_renewals = []\<rparr>"

lemma stream_history: "history padd tr (cmds (stream_world inner_new ev)) (wd_store (stream_world inner_new ev))"
  by (simp add: stream_world_def acts_def history.start)

definition sample_decoders :: "(string, unit) decoders" where
  "sample_decoders = \<lparr>dc_mailbox = (\<lambda>_. Inl ''e''), dc_content = (\<lambda>_. Inl ''e''), dc_draft_id = Some\<rparr>"

text \<open>A pass over one chunk, with a renewal while it is awaited.\<close>

definition sample_pass :: "(string, string \<times> string, unit) folder_pass" where
  "sample_pass = \<lparr>fp_padd = pdt_add_ref, fp_psub = pdt_add_ref, fp_tr = plain_object, fp_time = gregorian, fp_ymd = (\<lambda>_. (2024, 1, 1)),
     fp_lower = id, fp_idna = Inr, fp_dec = sample_decoders, fp_wrap = (\<lambda>m. (ms_id m, ''p'')), fp_account = ''a'', fp_scope = sample_scope,
     fp_req = sample_request, fp_tuning = tuning_responsive, fp_sent = [''sent''],
     fp_stream = (\<lambda>at cursor window batch chunk. ([(1, Inr (chunk_additive [sample_mail] [] (Some 1) ''c1''))], 0))\<rparr>"

text \<open>Before the pass commits, another worker claims the scope and releases it.\<close>

definition stream_overtaken :: "nat \<Rightarrow> stream_event list" where
  "stream_overtaken n = (if n = 2 then [Other (secs 20) (CClaimScope ''a'' sample_scope other_request), Other (secs 21) (CRelease other_lease)] else [])"

lemma streamed_summary:
  "map_option (\<lambda>(r, cs, w). (r, map co_fetched cs, length (wd_trace w),
      length (own_minted (run_part (stream_world inner_new stream_overtaken) w))))
     (stream_email sample_pass (stream_world inner_new stream_overtaken)) =
   Some (Inr \<lparr>ap_upserted = 1, ap_tombstoned = 0, ap_reconciled = 0\<rparr>, [1], 9, 2)"
  by code_simp

lemma streamed_run:
  obtains cs w where "stream_email sample_pass (stream_world inner_new stream_overtaken) =
      Some (Inr \<lparr>ap_upserted = 1, ap_tombstoned = 0, ap_reconciled = 0\<rparr>, cs, w)"
    "map co_fetched cs = [1]" "length (wd_trace w) = 9" "length (own_minted (run_part (stream_world inner_new stream_overtaken) w)) = 2"
  using streamed_summary by (auto simp: map_option_eq_Some)

section \<open>Chunks\<close>

text \<open>
  A page fetched whole and split into chunks loses nothing and repeats nothing: the chunks' messages are
  the page's in order, its keyword changes, removals and (when reconciling) present ids ride along exactly
  once, every chunk holds the cursor, and none is larger than asked.
\<close>
theorem split_page_keeps_page:
  "let cs = split_page mode changed patched removed present tot n in
     concat (map ck_changed cs) = changed \<and> concat (map ck_patched cs) = patched \<and> concat (map ck_removed cs) = removed \<and>
     concat (map ck_present cs) = (if mode = Reconcile then present else []) \<and>
     list_all (\<lambda>c. ck_mode c = mode \<and> ck_total c = tot \<and> ck_advance_to c = None \<and> (n = 0 \<or> length (ck_changed c) \<le> n)) cs"
proof (cases "changed = []")
  case True
  then show ?thesis by (cases mode) (auto simp: split_page_def Let_def chunk_additive_held_def held_chunk_def)
next
  case False
  have "length (ck_changed c) \<le> n \<or> n = 0"
    if "c \<in> set (split_loop mode tot (if n = 0 then length changed else n) changed patched removed present)" for c
    using split_loop_held [OF that] by (auto split: if_splits)
  with False show ?thesis
    by (auto simp: split_page_def Let_def split_loop_parts list_all_iff dest: split_loop_held)
qed

text \<open>
  C9. Committing a stream chunk by chunk leaves the objects that applying the drained stream at once would, in
  the two cases where the drain means the same: a stream of additive chunks fetched for an unbounded window,
  in which no removed message comes back in a later chunk, where all changes less all removals are left; and
  one run of a reconcile, whose last chunk carries the cursor and the earlier ones remove nothing, where
  exactly what the union of its chunks lists as present is left. An additive stream of a bounded window is
  not such a case: the pass leaves out the messages the window does not admit.
\<close>
theorem stream_matches_drain:
  assumes "drain_email (map Inr cs) = Inr sync" and "stream_ok window cs" and "\<forall>x. so_key tr (wrap x) = ms_id x"
  shows "apply_all tr wrap (stream_updates tc ymd window cs []) m = updated_objects tr (map_sync_update wrap id (zs_update sync)) m"
  by (rule stream_equals_drain [OF assms(1,2)]) (use assms(3) in blast)

theorem stream_matches_drain_witness:
  "\<exists>sync. drain_email (map Inr [chunk_reconcile_page [sample_mail] [''m0''] None, chunk_reconcile_last [] [''m1''] None ''c'']) = Inr sync \<and>
     updated_objects plain_object (map_sync_update (\<lambda>m. (ms_id m, ''p'')) id (zs_update sync)) [''m0'' \<mapsto> ''q'', ''m2'' \<mapsto> ''q''] =
       [''m0'' \<mapsto> ''q'', ''m1'' \<mapsto> ''p'']"
proof -
  let ?cs = "[chunk_reconcile_page [sample_mail] [''m0''] None, chunk_reconcile_last [] [''m1''] None ''c'']"
  obtain sync where d: "drain_email (map Inr ?cs) = Inr sync"
    by (simp add: drain_email_def drained_start_def drain_chunk_def chunk_reconcile_last_def)
  have ok: "stream_ok window_full ?cs"
    unfolding stream_ok_def
    by (rule disjI2, rule exI [of _ "[hd ?cs]"], rule exI [of _ "last ?cs"])
      (simp add: chunk_reconcile_page_def chunk_reconcile_last_def is_reconcile_final_def)
  have "apply_all plain_object (\<lambda>m. (ms_id m, ''p'')) (stream_updates gregorian (\<lambda>_. (2024, 1, 1)) window_full ?cs []) [''m0'' \<mapsto> ''q'', ''m2'' \<mapsto> ''q''] =
      [''m0'' \<mapsto> ''q'', ''m1'' \<mapsto> ''p'']"
    by (rule ext) (simp add: build_update_def chunk_reconcile_page_def chunk_reconcile_last_def update_delta_def upserted_def plain_object_def
        sample_mail_def bs_of_def restrict_map_def)
  with stream_matches_drain [OF d ok, of plain_object "\<lambda>m. (ms_id m, ''p'')" gregorian "\<lambda>_. (2024, 1, 1)"] d
  show ?thesis by (auto simp: plain_object_def)
qed

section \<open>The pass\<close>

text \<open>
  C16. A streaming pass leaves no lease behind: however often it was overtaken and started over, and whatever
  it answers, none of the leases handed to it is still held afterwards, and it claimed the folder at most
  four times.
\<close>
theorem stream_leaves_no_lease:
  fixes w :: "('v, 'o, mail_state_change) world"
  assumes "stream_email p w = Some (r, commits', w')"
    and "history (fp_padd p) (fp_tr p) (cmds w) (wd_store w)" and "length (cmds w') < 2 ^ 64"
  shows "(\<forall>l \<in> set (own_minted (run_part w w')). \<forall>c. current_cell l (wd_store w') = Some c \<longrightarrow> sc_lease_expiry c = None) \<and>
    own_claims (run_part w w') \<le> 4"
proof -
  from stream_from_ends [OF assms(1) [unfolded stream_email_def] assms(2,3)]
  obtain q where "follows (fp_padd p) (fp_tr p) w q w'" "\<forall>l \<in> set (own_minted q). ended l (wd_store w')"
    "own_claims q \<le> Suc (max_stale_reclaims - 0)" by blast
  then show ?thesis by (auto simp: ended_def max_stale_reclaims_def)
qed

theorem stream_leaves_no_lease_witness:
  "\<exists>r cs w. stream_email sample_pass (stream_world inner_new stream_overtaken) = Some (r, cs, w) \<and>
     length (own_minted (run_part (stream_world inner_new stream_overtaken) w)) = 2 \<and>
     list_all (\<lambda>l. case_option True (\<lambda>c. sc_lease_expiry c = None) (current_cell l (wd_store w)))
       (own_minted (run_part (stream_world inner_new stream_overtaken) w))"
proof -
  obtain cs w where r: "stream_email sample_pass (stream_world inner_new stream_overtaken) =
      Some (Inr \<lparr>ap_upserted = 1, ap_tombstoned = 0, ap_reconciled = 0\<rparr>, cs, w)" "length (wd_trace w) = 9"
    "length (own_minted (run_part (stream_world inner_new stream_overtaken) w)) = 2" by (rule streamed_run)
  have "length (cmds w) < 2 ^ 64" using cmds_short [of w] r(2) by simp
  from stream_leaves_no_lease [OF r(1) stream_history this]
  have "list_all (\<lambda>l. case_option True (\<lambda>c. sc_lease_expiry c = None) (current_cell l (wd_store w)))
      (own_minted (run_part (stream_world inner_new stream_overtaken) w))"
    by (auto simp: list_all_iff split: option.splits)
  with r(1,3) show ?thesis by blast
qed


lemma yielded_summary:
  "map_option (\<lambda>(r, cs, w). (r, map co_fetched cs, length (wd_trace w),
      map (\<lambda>x. case snd x of Did (CClaimScope _ _ _) (RClaim (Inr claim)) \<Rightarrow> cl_state claim = None | _ \<Rightarrow> True) (run_part (stream_world inner_new (\<lambda>_. [])) w)))
     (stream_from sample_pass 1 (Some (Some ''mine'', applied_zero)) [] (stream_world inner_new (\<lambda>_. []))) =
   Some (Inr applied_zero, [], 2, [True, True])"
  by code_simp


section \<open>Evidence and progress\<close>

text \<open>
  C30. Only a copy filed in Sent proves a send. Whatever other workers do before each of its reads, every op a
  page is planned to resolve is, in the store of one of those reads and at its clock, an op of the page's
  account that is a send and shows as awaiting confirmation, and the plan expects it to be awaiting it
  still. The message id it was sent under is carried by a message that the page files in a Sent mailbox, or
  by the stored payload, in the store of one of the reads, of a message that the page moves there; and the
  plan resolves the op to that message.
\<close>
theorem sent_copy_is_evidence:
  assumes "run_reader padd tr (reconciliations padd dec account scope update sent) w = (Inr plans, w')" and "pl \<in> set plans"
  shows "pr_expected pl = NeedsConfirmation \<and>
    (\<exists>n k i. w' = (interfere padd tr ^^ n) w \<and> k < n \<and>
       send_awaits padd dec account (pr_op pl) i (read_clock padd tr w k) (read_store padd tr w k) \<and>
       ((\<exists>m \<in> set (update_changed update). ms_id m = pr_resolves_to pl \<and> files_in (ms_mailboxes m) sent \<and> i \<in> set (ev_message_id (ms_envelope m))) \<or>
        (\<exists>ch \<in> set (update_patched update). \<exists>boxes j payload content. mc_key ch = pr_resolves_to pl \<and> sx_mailboxes (mc_state ch) = Some boxes \<and>
           files_in boxes sent \<and> j < n \<and> object_payload scope (mc_key ch) (read_store padd tr w j) = Some payload \<and>
           dc_content dec payload = Inr content \<and> i \<in> set (ev_message_id (ct_envelope content)))))"
proof -
  obtain n where n: "w' = (interfere padd tr ^^ n) w"
    "answers (read_of padd tr w n) (reconciliations padd dec account scope update sent) (Inr plans)"
    using run_reader_answers [OF assms(1)] by blast
  from reconciliations_from [OF n(2) assms(2)] n(1) show ?thesis
    unfolding read_of_def by (elim conjE exE disjE) (intro conjI exI, (assumption | blast)+)+
qed

text \<open>A send handed over and never answered for, and the copy of it in Sent.\<close>

definition script_unsure :: sample_script where
  "script_unsure =
    [(0, CEnqueue ''a'' (sample_op ''k'' MailSubmit)), (secs 1, CClaimOps ''a'' sample_request 5),
     (secs 2, CMark \<lparr>ol_account = ''a'', ol_op = 0, ol_token = 1, ol_owner = ''w'', ol_expiry = secs 11\<rparr> (ONeedsConfirmation ''lost''))]"

definition filed_copy :: "unit message" where
  "filed_copy = sample_mail\<lparr>ms_mailboxes := [''sent''], ms_envelope := (ms_envelope sample_mail)\<lparr>ev_message_id := [''v'']\<rparr>\<rparr>"

lemma unsure_summary:
  "map_sum (\<lambda>_. ()) (map (\<lambda>pl. (pr_op pl, pr_resolves_to pl))) (fst (run_reader pdt_add_ref plain_object
      (reconciliations pdt_add_ref sample_decoders ''a'' sample_scope (update_delta [filed_copy] []) [''sent''])
      (stream_world (snd (run_sample script_unsure)) (\<lambda>_. [])))) = Inr [(0, ''m1'')]"
  by code_simp

theorem sent_copy_is_evidence_witness:
  "\<exists>pl. pr_expected pl = NeedsConfirmation \<and> pr_resolves_to pl = ''m1'' \<and>
     pl \<in> set (projr (fst (run_reader pdt_add_ref plain_object
      (reconciliations pdt_add_ref sample_decoders ''a'' sample_scope (update_delta [filed_copy] []) [''sent''])
      (stream_world (snd (run_sample script_unsure)) (\<lambda>_. [])))))"
proof -
  obtain r w' where r: "run_reader pdt_add_ref plain_object
      (reconciliations pdt_add_ref sample_decoders ''a'' sample_scope (update_delta [filed_copy] []) [''sent''])
      (stream_world (snd (run_sample script_unsure)) (\<lambda>_. [])) = (r, w')" by force
  then have "map_sum (\<lambda>_. ()) (map (\<lambda>pl. (pr_op pl, pr_resolves_to pl))) r = Inr [(0, ''m1'')]" using unsure_summary by simp
  then obtain pl where pl: "r = Inr [pl]" "pr_resolves_to pl = ''m1''" by (cases r) auto
  from sent_copy_is_evidence [OF r [unfolded pl(1)], of pl] r pl show ?thesis by auto
qed

text \<open>
  Progress counts a message once: within one pass over a stream, the counts reported with its commits
  never go down and never exceed the number of distinct messages the stream has sent, however often a
  chunk sends a message again.
\<close>
theorem progress_counts_once:
  assumes "stream_loop p l items beats (pass_start left commits') w = (e, st', w')"
  shows "\<exists>new. ps_commits st' = commits' @ new \<and> sorted (map co_fetched new) \<and>
    list_all (\<lambda>co. co_fetched co \<le> card (chunk_ids items)) new"
  using stream_loop_progress [OF assms] by (auto simp: pass_start_def list_all_iff)

lemma repeated_summary:
  "(\<lambda>(e, st, w). map co_fetched (ps_commits st))
     (stream_loop sample_pass sample_lease [(0, Inr (chunk_additive [sample_mail] [] (Some 1) ''c1'')), (0, Inr (chunk_additive [sample_mail] [] (Some 1) ''c2''))] 0
        (pass_start None []) (stream_world (snd (run_sample [(0, CClaimScope ''a'' sample_scope sample_request)])) (\<lambda>_. []))) = [1, 1]"
  by code_simp

theorem progress_counts_once_witness:
  "\<exists>e st w. stream_loop sample_pass sample_lease [(0, Inr (chunk_additive [sample_mail] [] (Some 1) ''c1'')), (0, Inr (chunk_additive [sample_mail] [] (Some 1) ''c2''))] 0
        (pass_start None []) (stream_world (snd (run_sample [(0, CClaimScope ''a'' sample_scope sample_request)])) (\<lambda>_. [])) = (e, st, w) \<and>
     length (ps_commits st) = 2 \<and> list_all (\<lambda>co. co_fetched co \<le> 1) (ps_commits st)"
proof -
  obtain e st w where r: "stream_loop sample_pass sample_lease [(0, Inr (chunk_additive [sample_mail] [] (Some 1) ''c1'')), (0, Inr (chunk_additive [sample_mail] [] (Some 1) ''c2''))] 0
        (pass_start None []) (stream_world (snd (run_sample [(0, CClaimScope ''a'' sample_scope sample_request)])) (\<lambda>_. [])) = (e, st, w)"
    by (metis prod_cases3)
  have "map co_fetched (ps_commits st) = [1, 1]" using repeated_summary by (simp only: r prod.case)
  then have "length (ps_commits st) = 2" by (metis length_map length_Cons list.size(3) numeral_2_eq_2 One_nat_def)
  with progress_counts_once [OF r] r show ?thesis
    by (auto simp: chunk_additive_def list_all_iff)
qed

section \<open>What a pass reports\<close>

definition removing_pass :: "(string, string \<times> string, unit) folder_pass" where
  "removing_pass = sample_pass\<lparr>fp_stream := (\<lambda>at cursor window batch chunk.
     ([(0, Inr (chunk_additive [sample_mail] [] (Some 1) ''c1'')), (0, Inr (chunk_additive [] [''m1''] (Some 1) ''c2''))], 0))\<rparr>"

text \<open>
  A commit counts the removals it names: a delta that removes one stored message reports its key, and reports
  one row removed beside the named ones.
\<close>
theorem named_removal_is_counted:
  "map_option (\<lambda>(r, cs, w). map (\<lambda>co. (co_removed co, co_tombstoned co)) cs) (stream_email removing_pass (stream_world inner_new (\<lambda>_. []))) =
   Some [([], 0), ([''m1''], 1)]"
  by code_simp

definition resumed_pass :: "(string, string \<times> string, unit) folder_pass" where
  "resumed_pass = sample_pass\<lparr>fp_stream := (\<lambda>at cursor window batch chunk.
     let later = (0, Inr (chunk_additive [sample_mail\<lparr>ms_id := ''m2''\<rparr>] [] (Some 2) ''c2'')) in
     (if cursor = None then [(0, Inr (chunk_additive [sample_mail] [] (Some 2) ''c1'')), later] else [later], 0))\<rparr>"

text \<open>Another worker takes the scope for a moment before the pass's second commit.\<close>

definition overtaken_late :: "nat \<Rightarrow> stream_event list" where
  "overtaken_late n = (if n = 2 then [Other (secs 20) (CClaimScope ''a'' sample_scope other_request), Other (secs 21) (CRelease other_lease)] else [])"

text \<open>
  A pass that goes on after it was refused as stale answers only what it applied since: it commits two
  messages, answers that it stored one, and its progress starts again.
\<close>
theorem resumed_pass_forgets_its_count:
  "map_option (\<lambda>(r, cs, w). (r, map (\<lambda>co. (map ms_id (co_upserted co), co_fetched co, co_total co)) cs))
     (stream_email resumed_pass (stream_world inner_new overtaken_late)) =
   Some (Inr \<lparr>ap_upserted = 1, ap_tombstoned = 0, ap_reconciled = 0\<rparr>, [([''m1''], 1, Some 2), ([''m2''], 1, Some 2)])"
  by code_simp

end
