(* ===== verification/Base64.thy ===== *)
theory Base64
  imports Prelude
begin

text \<open>
  Base64: the encoder of outgoing mail (\<open>engine-rfc5322/src/base64.rs\<close>), the codecs of the IMAP and Gmail
  adapters and the decoder of the JMAP adapter. Each decoder is a loop over a 32-bit buffer that is never
  masked, so bits shift out of it; the locale \<open>base64_decoder\<close> states what a decoder has to do with a symbol,
  with padding and at the end, and proves once that such a loop undoes the encoder.
\<close>

unbundle bit_operations_syntax

section \<open>Bytes\<close>

type_synonym u8 = "8 word"

type_synonym u32 = "32 word"

definition byte :: "char \<Rightarrow> u8" where
  "byte c = word_of_nat (of_char c)"

definition char_of_byte :: "u8 \<Rightarrow> char" where
  "char_of_byte w = char_of (unat w)"

lemma unat_byte [simp]: "unat (byte c) = of_char c"
proof -
  have "(of_char c :: nat) < 256" using nat_of_char_less_256 by blast
  then show ?thesis by (simp add: byte_def unat_of_nat)
qed

lemma char_of_byte_byte [simp]: "char_of_byte (byte c) = c"
  by (simp add: char_of_byte_def)

lemma byte_char_of_byte [simp]: "byte (char_of_byte w) = w"
proof -
  have "unat w < 256" using unsigned_less [of w] by simp
  then show ?thesis by (simp add: byte_def char_of_byte_def)
qed

definition is_ascii_whitespace :: "char \<Rightarrow> bool" where
  "is_ascii_whitespace c \<longleftrightarrow> (of_char c :: nat) \<in> {9, 10, 12, 13, 32}"

section \<open>Encoding\<close>

definition std_alphabet :: string where
  "std_alphabet = ''ABCDEFGHIJKLMNOPQRSTUVWXYZabcdefghijklmnopqrstuvwxyz0123456789+/''"

definition url_alphabet :: string where
  "url_alphabet = ''ABCDEFGHIJKLMNOPQRSTUVWXYZabcdefghijklmnopqrstuvwxyz0123456789-_''"

text \<open>The four symbols of a chunk; a missing byte counts as zero.\<close>

definition sym0 :: "u8 \<Rightarrow> u8" where "sym0 b0 = drop_bit 2 b0"

definition sym1 :: "u8 \<Rightarrow> u8 \<Rightarrow> u8" where "sym1 b0 b1 = push_bit 4 (b0 AND 0x03) OR drop_bit 4 b1"

definition sym2 :: "u8 \<Rightarrow> u8 \<Rightarrow> u8" where "sym2 b1 b2 = push_bit 2 (b1 AND 0x0F) OR drop_bit 6 b2"

definition sym3 :: "u8 \<Rightarrow> u8" where "sym3 b2 = b2 AND 0x3F"

fun b64_encode :: "string \<Rightarrow> string \<Rightarrow> string" where
  "b64_encode alphabet [] = []"
| "b64_encode alphabet [b0] = [alphabet ! unat (sym0 (byte b0)), alphabet ! unat (sym1 (byte b0) 0), CHR ''='', CHR ''='']"
| "b64_encode alphabet [b0, b1] =
     [alphabet ! unat (sym0 (byte b0)), alphabet ! unat (sym1 (byte b0) (byte b1)), alphabet ! unat (sym2 (byte b1) 0), CHR ''='']"
| "b64_encode alphabet (b0 # b1 # b2 # bs) =
     alphabet ! unat (sym0 (byte b0)) # alphabet ! unat (sym1 (byte b0) (byte b1)) # alphabet ! unat (sym2 (byte b1) (byte b2)) #
     alphabet ! unat (sym3 (byte b2)) # b64_encode alphabet bs"

text \<open>\<open>engine-rfc5322\<close> and \<open>provider-imap\<close> encode with the standard alphabet, \<open>provider-google\<close> with the URL-safe one.\<close>

definition base64_encode :: "string \<Rightarrow> string" where
  "base64_encode = b64_encode std_alphabet"

definition imap_b64_encode :: "string \<Rightarrow> string" where
  "imap_b64_encode = b64_encode std_alphabet"

definition google_b64_encode :: "string \<Rightarrow> string" where
  "google_b64_encode = b64_encode url_alphabet"

section \<open>Decoding\<close>

definition byte_range :: "char \<Rightarrow> char \<Rightarrow> u8 \<Rightarrow> bool" where
  "byte_range lo hi b \<longleftrightarrow> byte lo \<le> b \<and> b \<le> byte hi"

definition letter_value :: "u8 \<Rightarrow> u8 option" where
  "letter_value b =
     (if byte_range (CHR ''A'') (CHR ''Z'') b then Some (b - byte (CHR ''A''))
      else if byte_range (CHR ''a'') (CHR ''z'') b then Some (b - byte (CHR ''a'') + 26)
      else if byte_range (CHR ''0'') (CHR ''9'') b then Some (b - byte (CHR ''0'') + 52)
      else None)"

definition b64_value :: "char \<Rightarrow> u8 option" where
  "b64_value c = (case letter_value (byte c) of
      Some v \<Rightarrow> Some v
    | None \<Rightarrow> if c = CHR ''+'' then Some 62 else if c = CHR ''/'' then Some 63 else None)"

definition google_b64_value :: "char \<Rightarrow> u8 option" where
  "google_b64_value c = (case letter_value (byte c) of
      Some v \<Rightarrow> Some v
    | None \<Rightarrow> if c = CHR ''+'' \<or> c = CHR ''-'' then Some 62 else if c = CHR ''/'' \<or> c = CHR ''_'' then Some 63 else None)"

text \<open>Six more bits in the buffer; a byte when eight are there.\<close>

definition b64_push :: "u8 \<Rightarrow> u32 \<Rightarrow> nat \<Rightarrow> (u32 \<Rightarrow> nat \<Rightarrow> string option) \<Rightarrow> string option" where
  "b64_push v buffer bits rest =
     (let buffer = push_bit 6 buffer OR ucast v; bits = bits + 6
      in if 8 \<le> bits
         then map_option (\<lambda>out. char_of_byte (ucast (drop_bit (bits - 8) buffer AND 0xFF)) # out) (rest buffer (bits - 8))
         else rest buffer bits)"

fun imap_b64_loop :: "string \<Rightarrow> u32 \<Rightarrow> nat \<Rightarrow> string option" where
  "imap_b64_loop [] buffer bits = Some []"
| "imap_b64_loop (c # cs) buffer bits =
     (if c = CHR ''='' then Some []
      else case b64_value c of None \<Rightarrow> None | Some v \<Rightarrow> b64_push v buffer bits (imap_b64_loop cs))"

definition imap_b64_decode :: "string \<Rightarrow> string option" where
  "imap_b64_decode s = imap_b64_loop s 0 0"

fun jmap_b64_loop :: "string \<Rightarrow> u32 \<Rightarrow> nat \<Rightarrow> string option" where
  "jmap_b64_loop [] buffer bits = Some []"
| "jmap_b64_loop (c # cs) buffer bits =
     (if c = CHR ''='' then Some []
      else if is_ascii_whitespace c then jmap_b64_loop cs buffer bits
      else case b64_value c of None \<Rightarrow> None | Some v \<Rightarrow> b64_push v buffer bits (jmap_b64_loop cs))"

definition jmap_b64_decode :: "string \<Rightarrow> string option" where
  "jmap_b64_decode s = jmap_b64_loop s 0 0"

fun google_b64_loop :: "string \<Rightarrow> u32 \<Rightarrow> nat \<Rightarrow> string option" where
  "google_b64_loop [] buffer bits = Some []"
| "google_b64_loop (c # cs) buffer bits =
     (if c = CHR ''='' \<or> is_ascii_whitespace c then google_b64_loop cs buffer bits
      else case google_b64_value c of None \<Rightarrow> None | Some v \<Rightarrow> b64_push v buffer bits (google_b64_loop cs))"

definition google_b64_decode :: "string \<Rightarrow> string option" where
  "google_b64_decode s = google_b64_loop s 0 0"

section \<open>What the buffer yields\<close>

text \<open>Whatever the buffer held before, the bytes of a chunk come out of its symbols.\<close>

lemma byte_eqI:
  assumes "bit a 0 = bit b 0" "bit a 1 = bit b 1" "bit a 2 = bit b 2" "bit a 3 = bit b 3"
    "bit a 4 = bit b 4" "bit a 5 = bit b 5" "bit a 6 = bit b 6" "bit a 7 = bit b 7"
  shows "a = (b :: u8)"
proof (rule bit_word_eqI)
  fix n assume "n < LENGTH(8)"
  then have "n = 0 \<or> n = 1 \<or> n = 2 \<or> n = 3 \<or> n = 4 \<or> n = 5 \<or> n = 6 \<or> n = 7" by simp arith
  with assms show "bit a n = bit b n" by (elim disjE) simp_all
qed

lemma high_bit [simp]: "8 \<le> n \<Longrightarrow> \<not> bit (b :: u8) n"
  using bit_imp_le_length [of b n] by auto

lemmas byte_bits = bit_simps sym0_def sym1_def sym2_def sym3_def

lemma first_byte:
  "ucast (drop_bit 4 (push_bit 6 (push_bit 6 buf OR ucast (sym0 b0)) OR ucast (sym1 b0 b1)) AND 0xFF :: u32) = b0"
  by (rule byte_eqI; simp add: byte_bits)

lemma second_byte:
  "ucast (drop_bit 2 (push_bit 6 (push_bit 6 buf OR ucast (sym1 b0 b1)) OR ucast (sym2 b1 b2)) AND 0xFF :: u32) = b1"
  by (rule byte_eqI; simp add: byte_bits)

lemma third_byte:
  "ucast ((push_bit 6 (push_bit 6 buf OR ucast (sym2 b1 b2)) OR ucast (sym3 b2)) AND 0xFF :: u32) = b2"
  by (rule byte_eqI; simp add: byte_bits)

lemma six_bits:
  assumes "take_bit 6 v = v"
  shows "unat (v :: u8) < 64"
proof -
  have "take_bit 6 (unat v) = unat v" using assms by (metis unsigned_take_bit_eq)
  then show ?thesis using take_bit_nat_less_exp [of 6 "unat v"] by simp
qed

lemma sym_less [simp]: "unat (sym0 b0) < 64" "unat (sym1 b0 b1) < 64" "unat (sym2 b1 b2) < 64" "unat (sym3 b2) < 64"
  by (rule six_bits, rule byte_eqI; simp add: byte_bits)+

section \<open>What a decoder does\<close>

locale base64_decoder =
  fixes loop :: "string \<Rightarrow> u32 \<Rightarrow> nat \<Rightarrow> string option" and alphabet :: string
  assumes at_end: "loop [] buffer bits = Some []"
    and on_symbol: "i < 64 \<Longrightarrow> loop (alphabet ! i # cs) buffer bits = b64_push (word_of_nat i) buffer bits (loop cs)"
    and on_padding: "loop (CHR ''='' # cs) buffer bits = Some [] \<or> loop (CHR ''='' # cs) buffer bits = loop cs buffer bits"
    and not_padding: "i < 64 \<Longrightarrow> alphabet ! i \<noteq> CHR ''=''"
begin

lemma padding: "loop [CHR ''=''] buffer bits = Some []" "loop [CHR ''='', CHR ''=''] buffer bits = Some []"
  using on_padding [of "[]" buffer bits] on_padding [of "[CHR ''='']" buffer bits] by (auto simp: at_end)

lemma symbol:
  assumes "unat v < 64"
  shows "loop (alphabet ! unat v # cs) buffer bits = b64_push v buffer bits (loop cs)"
  using on_symbol [OF assms] by simp

lemma decode_encode: "loop (b64_encode alphabet bs) buffer 0 = Some bs"
proof -
  have "\<forall>buffer. loop (b64_encode alphabet bs) buffer 0 = Some bs"
    by (rule b64_encode.induct [of "\<lambda>_ bs. \<forall>buffer. loop (b64_encode alphabet bs) buffer 0 = Some bs"])
      (simp_all add: at_end symbol padding b64_push_def first_byte second_byte third_byte del: push_bit_or drop_bit_or push_bit_push_bit)
  then show ?thesis by blast
qed

text \<open>Padding carries nothing: without it the same bytes come back.\<close>

lemma decode_unpadded: "loop (filter (\<lambda>c. c \<noteq> CHR ''='') (b64_encode alphabet bs)) buffer 0 = Some bs"
proof -
  have "\<forall>buffer. loop (filter (\<lambda>c. c \<noteq> CHR ''='') (b64_encode alphabet bs)) buffer 0 = Some bs"
    by (rule b64_encode.induct [of "\<lambda>_ bs. \<forall>buffer. loop (filter (\<lambda>c. c \<noteq> CHR ''='') (b64_encode alphabet bs)) buffer 0 = Some bs"])
      (simp_all add: at_end symbol not_padding b64_push_def first_byte second_byte third_byte del: push_bit_or drop_bit_or push_bit_push_bit)
  then show ?thesis by blast
qed

end

section \<open>The decoders\<close>

lemmas value_simps = b64_value_def google_b64_value_def letter_value_def byte_range_def byte_def is_ascii_whitespace_def

lemma alphabet_length [simp]: "length std_alphabet = 64" "length url_alphabet = 64"
  by (simp_all add: std_alphabet_def url_alphabet_def)

lemma upt_64: "[0..<64] = [0, 1, 2, 3, 4, 5, 6, 7, 8, 9, 10, 11, 12, 13, 14, 15, 16, 17, 18, 19, 20, 21, 22, 23, 24, 25, 26, 27, 28, 29, 30, 31,
    32, 33, 34, 35, 36, 37, 38, 39, 40, 41, 42, 43, 44, 45, 46, 47, 48, 49, 50, 51, 52, 53, 54, 55, 56, 57, 58, 59, 60, 61, 62, 63]"
  by code_simp

lemma alphabet_values:
  "map b64_value std_alphabet = map (\<lambda>i. Some (word_of_nat i)) [0..<64]"
  "map google_b64_value std_alphabet = map (\<lambda>i. Some (word_of_nat i)) [0..<64]"
  "map google_b64_value url_alphabet = map (\<lambda>i. Some (word_of_nat i)) [0..<64]"
  unfolding upt_64 by (simp_all add: std_alphabet_def url_alphabet_def value_simps)

lemma alphabet_plain:
  "list_all (\<lambda>c. c \<noteq> CHR ''='' \<and> \<not> is_ascii_whitespace c) std_alphabet"
  "list_all (\<lambda>c. c \<noteq> CHR ''='' \<and> \<not> is_ascii_whitespace c) url_alphabet"
  by (simp_all add: std_alphabet_def url_alphabet_def is_ascii_whitespace_def)

lemma nth_map_eq: "map f xs = map g [0..<64] \<Longrightarrow> length xs = 64 \<Longrightarrow> i < 64 \<Longrightarrow> f (xs ! i) = g i"
  by (metis length_map add_0 nth_map nth_upt)

lemma symbol_values:
  assumes "i < 64"
  shows "b64_value (std_alphabet ! i) = Some (word_of_nat i)" "google_b64_value (std_alphabet ! i) = Some (word_of_nat i)"
    "google_b64_value (url_alphabet ! i) = Some (word_of_nat i)" "std_alphabet ! i \<noteq> CHR ''=''" "url_alphabet ! i \<noteq> CHR ''=''"
    "\<not> is_ascii_whitespace (std_alphabet ! i)" "\<not> is_ascii_whitespace (url_alphabet ! i)"
  using alphabet_values [THEN nth_map_eq, OF _ assms] alphabet_plain assms by (auto simp: list_all_length)

interpretation imap_b64: base64_decoder imap_b64_loop std_alphabet
  by unfold_locales (simp_all add: symbol_values)

interpretation jmap_b64: base64_decoder jmap_b64_loop std_alphabet
  by unfold_locales (simp_all add: symbol_values)

interpretation google_b64: base64_decoder google_b64_loop url_alphabet
  by unfold_locales (simp_all add: symbol_values)

interpretation google_std_b64: base64_decoder google_b64_loop std_alphabet
  by unfold_locales (simp_all add: symbol_values)

section \<open>Wrapped text\<close>

text \<open>White space between symbols, such as the line breaks of a MIME body, does not matter to the JMAP decoder.\<close>

lemma jmap_b64_blanks:
  "jmap_b64_loop s buffer bits = jmap_b64_loop (filter (\<lambda>c. \<not> is_ascii_whitespace c) s) buffer bits"
proof (induction s arbitrary: buffer bits)
  case (Cons c s)
  have "jmap_b64_loop s = jmap_b64_loop (filter (\<lambda>c. \<not> is_ascii_whitespace c) s)" using Cons.IH by blast
  then show ?case by (auto simp: is_ascii_whitespace_def split: option.splits)
qed simp

lemma encode_chars: "set (b64_encode alphabet bs) \<subseteq> insert (CHR ''='') ((!) alphabet ` {..<64})"
  by (induction alphabet bs rule: b64_encode.induct) auto

end
