(* ===== verification/Mime_Out.thy ===== *)
theory Mime_Out
  imports Message Provider_Api Base64
begin

text \<open>
  Outgoing mail: a draft (\<open>engine-provider/src/submit.rs\<close>) and its assembly into the bytes of an RFC 5322
  message (\<open>engine-rfc5322\<close>), headers first, then the nested MIME body. Text is its UTF-8 bytes. The \<open>Date\<close> header
  is printed by the \<open>time\<close> crate, the parameter \<open>fmt\<close>.
\<close>

section \<open>Drafts\<close>

datatype schedule_method =
  SPublish | SRequest | SReply | SAdd | SCancel | SRefresh | SCounter | SDeclineCounter | SOther string

fun schedule_method_str :: "schedule_method \<Rightarrow> string" where
  "schedule_method_str SPublish = ''publish''"
| "schedule_method_str SRequest = ''request''"
| "schedule_method_str SReply = ''reply''"
| "schedule_method_str SAdd = ''add''"
| "schedule_method_str SCancel = ''cancel''"
| "schedule_method_str SRefresh = ''refresh''"
| "schedule_method_str SCounter = ''counter''"
| "schedule_method_str SDeclineCounter = ''declinecounter''"
| "schedule_method_str (SOther s) = s"

record draft_calendar =
  dcl_ical :: string
  dcl_method :: schedule_method

datatype disposition = Inline string | Attachment

record draft_attachment =
  da_file_name :: string
  da_media_type :: string
  da_content :: string
  da_disposition :: disposition

record mail_draft =
  md_message_id :: string
  md_from :: email_address
  md_to :: "email_address list"
  md_cc :: "email_address list"
  md_bcc :: "email_address list"
  md_subject :: string
  md_text_body :: string
  md_html_body :: "string option"
  md_attachments :: "draft_attachment list"
  md_calendar :: "draft_calendar option"
  md_in_reply_to :: "string option"
  md_references :: "string list"
  md_sent_copy_keywords :: "keyword btree_set"

definition draft_new :: "string \<Rightarrow> email_address \<Rightarrow> email_address list \<Rightarrow> string \<Rightarrow> string \<Rightarrow> mail_draft" where
  "draft_new message_id from to subject body = \<lparr>md_message_id = message_id, md_from = from, md_to = to, md_cc = [], md_bcc = [],
     md_subject = subject, md_text_body = body, md_html_body = None, md_attachments = [], md_calendar = None,
     md_in_reply_to = None, md_references = [], md_sent_copy_keywords = []\<rparr>"

definition with_cc :: "email_address list \<Rightarrow> mail_draft \<Rightarrow> mail_draft" where "with_cc cc d = d\<lparr>md_cc := cc\<rparr>"

definition with_bcc :: "email_address list \<Rightarrow> mail_draft \<Rightarrow> mail_draft" where "with_bcc bcc d = d\<lparr>md_bcc := bcc\<rparr>"

definition draft_in_reply_to :: "string \<Rightarrow> string list \<Rightarrow> mail_draft \<Rightarrow> mail_draft" where
  "draft_in_reply_to parent refs d = d\<lparr>md_in_reply_to := Some parent, md_references := refs\<rparr>"

definition with_references :: "string list \<Rightarrow> mail_draft \<Rightarrow> mail_draft" where
  "with_references refs d = d\<lparr>md_references := refs\<rparr>"

definition with_html_body :: "string \<Rightarrow> mail_draft \<Rightarrow> mail_draft" where "with_html_body html d = d\<lparr>md_html_body := Some html\<rparr>"

definition without_html_body :: "mail_draft \<Rightarrow> mail_draft" where "without_html_body d = d\<lparr>md_html_body := None\<rparr>"

definition with_attachment :: "draft_attachment \<Rightarrow> mail_draft \<Rightarrow> mail_draft" where
  "with_attachment a d = d\<lparr>md_attachments := md_attachments d @ [a]\<rparr>"

definition with_calendar :: "draft_calendar \<Rightarrow> mail_draft \<Rightarrow> mail_draft" where "with_calendar c d = d\<lparr>md_calendar := Some c\<rparr>"

definition with_sent_copy_keyword :: "keyword \<Rightarrow> mail_draft \<Rightarrow> mail_draft" where
  "with_sent_copy_keyword k d = d\<lparr>md_sent_copy_keywords := bs_of (md_sent_copy_keywords d @ [k])\<rparr>"

datatype content_id_error = CidEmpty | CidForbiddenCharacter

definition content_id_new :: "string \<Rightarrow> (content_id_error, string) result" where
  "content_id_new v =
     (if v = [] then Inl CidEmpty
      else if list_ex (\<lambda>b. b \<in> set [CHR 0x0D, CHR 0x0A, CHR 0x00, CHR ''<'', CHR ''>'']) v then Inl CidForbiddenCharacter
      else Inr v)"

definition attachment_inline :: "string \<Rightarrow> string \<Rightarrow> string \<Rightarrow> string \<Rightarrow> draft_attachment" where
  "attachment_inline file media content_id content =
     \<lparr>da_file_name = file, da_media_type = media, da_content = content, da_disposition = Inline content_id\<rparr>"

definition attachment_regular :: "string \<Rightarrow> string \<Rightarrow> string \<Rightarrow> draft_attachment" where
  "attachment_regular file media content =
     \<lparr>da_file_name = file, da_media_type = media, da_content = content, da_disposition = Attachment\<rparr>"

definition attachment_content_id :: "draft_attachment \<Rightarrow> string option" where
  "attachment_content_id a = (case da_disposition a of Inline cid \<Rightarrow> Some cid | Attachment \<Rightarrow> None)"

definition is_inline :: "draft_attachment \<Rightarrow> bool" where
  "is_inline a \<longleftrightarrow> (case da_disposition a of Inline _ \<Rightarrow> True | Attachment \<Rightarrow> False)"

section \<open>Header values\<close>

abbreviation CR :: char where "CR \<equiv> CHR 0x0D"

abbreviation LF :: char where "LF \<equiv> CHR 0x0A"

abbreviation crlf :: string where "crlf \<equiv> [CHR 0x0D, CHR 0x0A]"

definition dangerous :: "char \<Rightarrow> bool" where
  "dangerous b \<longleftrightarrow> b = CR \<or> b = LF \<or> b = CHR 0x00"

definition reject_control :: "string \<Rightarrow> string \<Rightarrow> (provider_error, string) result" where
  "reject_control field v =
     (if list_ex dangerous v then Inl (pe_permanent (field @ '' contains a forbidden control character (CR, LF, or NUL)'')) else Inr v)"

definition res_bind :: "(provider_error, 'a) result \<Rightarrow> ('a \<Rightarrow> (provider_error, 'b) result) \<Rightarrow> (provider_error, 'b) result" where
  "res_bind r f = (case r of Inl e \<Rightarrow> Inl e | Inr x \<Rightarrow> f x)"

text \<open>\<open>collect\<close> over results: the first error in order, or every value.\<close>

fun res_all :: "('a \<Rightarrow> (provider_error, 'b) result) \<Rightarrow> 'a list \<Rightarrow> (provider_error, 'b list) result" where
  "res_all f [] = Inr []"
| "res_all f (x # xs) = res_bind (f x) (\<lambda>y. res_bind (res_all f xs) (\<lambda>ys. Inr (y # ys)))"

definition is_ascii_printable :: "string \<Rightarrow> bool" where
  "is_ascii_printable s \<longleftrightarrow> list_all (\<lambda>b. 0x20 \<le> (of_char b :: nat) \<and> (of_char b :: nat) < 0x7F) s"

text \<open>\<open>str::replace\<close> of one character.\<close>

definition replace_char :: "char \<Rightarrow> string \<Rightarrow> string \<Rightarrow> string" where
  "replace_char c new s = concat (map (\<lambda>b. if b = c then new else [b]) s)"

definition encoded_word :: "string \<Rightarrow> string" where
  "encoded_word text = ''=?UTF-8?B?'' @ base64_encode text @ ''?=''"

definition encode_header_text :: "string \<Rightarrow> string" where
  "encode_header_text text = (if is_ascii_printable text then text else encoded_word text)"

definition escape_quoted :: "string \<Rightarrow> string" where
  "escape_quoted s = replace_char (CHR 0x22) [CHR 0x5C, CHR 0x22] (replace_char (CHR 0x5C) [CHR 0x5C, CHR 0x5C] s)"

definition encode_header_phrase :: "string \<Rightarrow> string" where
  "encode_header_phrase name = (if is_ascii_printable name then [CHR 0x22] @ escape_quoted name @ [CHR 0x22] else encoded_word name)"

definition header_address :: "email_address \<Rightarrow> (provider_error, string) result" where
  "header_address a = res_bind (reject_control ''address'' (ea_email a)) (\<lambda>email.
     case ea_name a of
       Some name \<Rightarrow> res_bind (reject_control ''display name'' name) (\<lambda>name. Inr (encode_header_phrase name @ '' <'' @ email @ ''>''))
     | None \<Rightarrow> Inr email)"

definition address_list :: "email_address list \<Rightarrow> (provider_error, string) result" where
  "address_list as = res_bind (res_all header_address as) (\<lambda>fields. Inr (join '', '' fields))"

section \<open>Body lines\<close>

function normalize_body_lines :: "string \<Rightarrow> string list" where
  "normalize_body_lines body =
     (case dropWhile (\<lambda>b. b \<noteq> CR \<and> b \<noteq> LF) body of
        [] \<Rightarrow> [body]
      | b # rest \<Rightarrow> takeWhile (\<lambda>b. b \<noteq> CR \<and> b \<noteq> LF) body #
          normalize_body_lines (if b = CR \<and> rest \<noteq> [] \<and> hd rest = LF then tl rest else rest))"
  by pat_completeness auto

termination
  by (relation "measure length") (auto dest!: dropWhile_shorter)

declare normalize_body_lines.simps [simp del]

section \<open>Parts\<close>

record mime_part =
  mp_headers :: string
  mp_body :: string

fun lines_of_76 :: "nat \<Rightarrow> string \<Rightarrow> string list" where
  "lines_of_76 0 s = []"
| "lines_of_76 (Suc n) s = (if s = [] then [] else take 76 s # lines_of_76 n (drop 76 s))"

definition base64_body :: "string \<Rightarrow> string" where
  "base64_body content = (let encoded = base64_encode content in
     concat (map (\<lambda>line. line @ crlf) (lines_of_76 (length encoded) encoded)))"

definition ascii_upper :: "char \<Rightarrow> char" where
  "ascii_upper b = (if 97 \<le> (of_char b :: nat) \<and> (of_char b :: nat) \<le> 122 then char_of (of_char b - 32 :: nat) else b)"

definition is_ascii_alphanumeric :: "char \<Rightarrow> bool" where
  "is_ascii_alphanumeric b \<longleftrightarrow> (let n = (of_char b :: nat) in 48 \<le> n \<and> n \<le> 57 \<or> 65 \<le> n \<and> n \<le> 90 \<or> 97 \<le> n \<and> n \<le> 122)"

definition calendar_part :: "draft_calendar \<Rightarrow> mime_part" where
  "calendar_part c =
     (let lines = normalize_body_lines (dcl_ical c);
          lines = (if last lines = [] then butlast lines else lines)
      in \<lparr>mp_headers = ''Content-Type: text/calendar; charset=utf-8; method='' @ map ascii_upper (schedule_method_str (dcl_method c)) @ crlf @
            ''Content-Transfer-Encoding: base64'' @ crlf,
          mp_body = base64_body (concat (map (\<lambda>line. line @ crlf) lines))\<rparr>)"

definition text_part :: "string \<Rightarrow> string \<Rightarrow> mime_part" where
  "text_part kind body =
     \<lparr>mp_headers = ''Content-Type: text/'' @ (if kind = ''html'' then ''html'' else ''plain'') @ ''; charset=utf-8'' @ crlf,
      mp_body = concat (map (\<lambda>line. line @ crlf) (normalize_body_lines body))\<rparr>"

definition percent_hex :: "nat \<Rightarrow> char" where
  "percent_hex n = (if n < 10 then char_of (48 + n) else char_of (55 + n))"

definition percent_encode :: "string \<Rightarrow> string" where
  "percent_encode bytes = concat (map (\<lambda>b.
     if is_ascii_alphanumeric b \<or> b \<in> set ''.-_'' then [b]
     else [CHR ''%'', percent_hex (of_char b div 16), percent_hex (of_char b mod 16)]) bytes)"

definition media_type :: "string \<Rightarrow> (provider_error, string) result" where
  "media_type v = res_bind (reject_control ''attachment media type'' v) (\<lambda>v.
     if v = [] \<or> \<not> list_all (\<lambda>b. is_ascii_alphanumeric b \<or> b \<in> set ''/+-.'') v
     then Inl (pe_permanent ''attachment media type is not safe for a MIME header'') else Inr v)"

definition parameter :: "string \<Rightarrow> string \<Rightarrow> (provider_error, string) result" where
  "parameter name v = res_bind (reject_control ''attachment filename'' v) (\<lambda>v.
     if is_ascii_printable v then Inr (name @ [CHR ''='', CHR 0x22] @ escape_quoted v @ [CHR 0x22])
     else Inr (name @ ''*=utf-8'' @ [CHR 0x27, CHR 0x27] @ percent_encode v))"

definition attachment_part :: "draft_attachment \<Rightarrow> (provider_error, mime_part) result" where
  "attachment_part a =
     res_bind (media_type (da_media_type a)) (\<lambda>mt.
     res_bind (parameter ''name'' (da_file_name a)) (\<lambda>name.
     res_bind (parameter ''filename'' (da_file_name a)) (\<lambda>filename.
     let headers = ''Content-Type: '' @ mt @ ''; '' @ name @ crlf @ ''Content-Transfer-Encoding: base64'' @ crlf in
     res_bind (case da_disposition a of
         Inline cid \<Rightarrow> res_bind (reject_control ''Content-ID'' cid) (\<lambda>cid.
           Inr (''Content-ID: <'' @ cid @ ''>'' @ crlf @ ''Content-Disposition: inline; '' @ filename @ crlf))
       | Attachment \<Rightarrow> Inr (''Content-Disposition: attachment; '' @ filename @ crlf)) (\<lambda>disp.
     Inr \<lparr>mp_headers = headers @ disp, mp_body = base64_body (da_content a)\<rparr>))))"

definition multipart :: "string \<Rightarrow> string \<Rightarrow> mime_part list \<Rightarrow> mime_part" where
  "multipart subtype boundary parts =
     \<lparr>mp_headers = ''Content-Type: multipart/'' @ subtype @ ''; boundary='' @ [CHR 0x22] @ boundary @ [CHR 0x22] @ crlf,
      mp_body = concat (map (\<lambda>p. ''--'' @ boundary @ crlf @ mp_headers p @ crlf @ mp_body p) parts) @ ''--'' @ boundary @ ''--'' @ crlf\<rparr>"

definition boundary_char :: "string \<Rightarrow> char" where
  "boundary_char ch = (case ch of [c] \<Rightarrow> if is_ascii_alphanumeric c then c else CHR ''_'' | _ \<Rightarrow> CHR ''_'')"

definition boundary :: "mail_draft \<Rightarrow> string \<Rightarrow> string" where
  "boundary d kind =
     (let seed = take 48 (map boundary_char (char_chunks (md_message_id d)))
      in if seed = [] then ''=_pim_engine_'' @ kind else ''=_pim_engine_'' @ kind @ ''_'' @ seed)"

definition body_part :: "mail_draft \<Rightarrow> mime_part" where
  "body_part d =
     (let parts = [text_part ''plain'' (md_text_body d)] @
        (case md_html_body d of Some html \<Rightarrow> [text_part ''html'' html] | None \<Rightarrow> []) @
        (case md_calendar d of Some c \<Rightarrow> [calendar_part c] | None \<Rightarrow> [])
      in if length parts = 1 then hd parts else multipart ''alternative'' (boundary d ''alternative'') parts)"

text \<open>\<open>mime::assemble\<close>: the representations, wrapped with the inline parts, wrapped with the attachments.\<close>

definition wrap_parts :: "mail_draft \<Rightarrow> string \<Rightarrow> draft_attachment list \<Rightarrow> mime_part \<Rightarrow> (provider_error, mime_part) result" where
  "wrap_parts d kind as body =
     (if as = [] then Inr body
      else res_bind (res_all attachment_part as) (\<lambda>parts. Inr (multipart kind (boundary d kind) (body # parts))))"

definition mime_assemble :: "mail_draft \<Rightarrow> (provider_error, mime_part) result" where
  "mime_assemble d =
     res_bind (wrap_parts d ''related'' (filter is_inline (md_attachments d)) (body_part d)) (\<lambda>body.
     wrap_parts d ''mixed'' (filter (\<lambda>a. \<not> is_inline a) (md_attachments d)) body)"

section \<open>The message\<close>

datatype assembly = Wire | Filed | ForDraft

definition to_header :: "mail_draft \<Rightarrow> assembly \<Rightarrow> (provider_error, string) result" where
  "to_header d asm =
     (if md_to d = [] \<and> asm = ForDraft then Inr []
      else if md_to d = [] then Inr (''To: undisclosed-recipients:;'' @ crlf)
      else res_bind (address_list (md_to d)) (\<lambda>l. Inr (''To: '' @ l @ crlf)))"

definition assemble ::
  "('d \<Rightarrow> (string, string) result) \<Rightarrow> mail_draft \<Rightarrow> 'd \<Rightarrow> assembly \<Rightarrow> (provider_error, string) result" where
  "assemble fmt d date asm =
     res_bind (reject_control ''Message-ID'' (md_message_id d)) (\<lambda>message_id.
     res_bind (header_address (md_from d)) (\<lambda>from.
     res_bind (to_header d asm) (\<lambda>to_hdr.
     res_bind (if md_cc d = [] then Inr [] else res_bind (address_list (md_cc d)) (\<lambda>l. Inr (''Cc: '' @ l @ crlf))) (\<lambda>cc_hdr.
     res_bind (if asm = Wire \<or> md_bcc d = [] then Inr [] else res_bind (address_list (md_bcc d)) (\<lambda>l. Inr (''Bcc: '' @ l @ crlf))) (\<lambda>bcc_hdr.
     res_bind (reject_control ''subject'' (md_subject d)) (\<lambda>subject.
     let subject = encode_header_text subject in
     res_bind (case md_in_reply_to d of
         Some parent \<Rightarrow> res_bind (reject_control ''In-Reply-To'' parent) (\<lambda>p. Inr (''In-Reply-To: <'' @ p @ ''>'' @ crlf))
       | None \<Rightarrow> Inr []) (\<lambda>in_reply_to.
     res_bind (if md_references d = [] then Inr []
       else res_bind (res_all (\<lambda>r. res_bind (reject_control ''References'' r) (\<lambda>i. Inr (''<'' @ i @ ''>''))) (md_references d))
         (\<lambda>ids. Inr (''References: '' @ join '' '' ids @ crlf))) (\<lambda>refs.
     res_bind (case fmt date of Inl e \<Rightarrow> Inl (pe_permanent (''cannot format the Date header: '' @ e)) | Inr t \<Rightarrow> Inr t) (\<lambda>date.
     let headers = ''Date: '' @ date @ crlf @ ''Message-ID: <'' @ message_id @ ''>'' @ crlf @ ''From: '' @ from @ crlf @ to_hdr @ cc_hdr @ bcc_hdr @
           in_reply_to @ refs @ ''Subject: '' @ subject @ crlf @ ''MIME-Version: 1.0'' @ crlf in
     res_bind (mime_assemble d) (\<lambda>body.
     Inr (headers @ mp_headers body @ crlf @ mp_body body)))))))))))"

definition assemble_message :: "('d \<Rightarrow> (string, string) result) \<Rightarrow> mail_draft \<Rightarrow> 'd \<Rightarrow> (provider_error, string) result" where
  "assemble_message fmt d date = assemble fmt d date Wire"

definition assemble_filed_message :: "('d \<Rightarrow> (string, string) result) \<Rightarrow> mail_draft \<Rightarrow> 'd \<Rightarrow> (provider_error, string) result" where
  "assemble_filed_message fmt d date = assemble fmt d date Filed"

definition assemble_draft_message :: "('d \<Rightarrow> (string, string) result) \<Rightarrow> mail_draft \<Rightarrow> 'd \<Rightarrow> (provider_error, string) result" where
  "assemble_draft_message fmt d date = assemble fmt d date ForDraft"

end
