(* ===== verification/Mime_Laws.thy ===== *)
theory Mime_Laws
  imports Mime_Out
begin

text \<open>
  What assembled mail looks like: header values carry no line break, so the header block is exactly the lines the
  assembler wrote; base64 bodies decode to their content in short lines; text bodies hold no bare line break.
\<close>

lemma res_bind_Inr [simp]: "res_bind r f = Inr y \<longleftrightarrow> (\<exists>x. r = Inr x \<and> f x = Inr y)"
  by (cases r) (auto simp: res_bind_def)

lemma res_all_Inr:
  assumes "res_all f xs = Inr ys" and "\<And>x y. f x = Inr y \<Longrightarrow> P y"
  shows "list_all P ys"
  using assms(1) by (induction xs arbitrary: ys) (auto intro: assms(2))

section \<open>Clean text\<close>

definition clean :: "string \<Rightarrow> bool" where
  "clean s \<longleftrightarrow> list_all (\<lambda>b. \<not> dangerous b) s"

lemma clean_simps [simp]:
  "clean []" "clean (c # s) \<longleftrightarrow> \<not> dangerous c \<and> clean s" "clean (s @ t) \<longleftrightarrow> clean s \<and> clean t"
  by (simp_all add: clean_def)

lemma clean_take: "clean s \<Longrightarrow> clean (take n s)"
  by (auto simp: clean_def list_all_iff dest: in_set_takeD)

lemma clean_map: "(\<And>x. x \<in> set xs \<Longrightarrow> \<not> dangerous (f x)) \<Longrightarrow> clean (map f xs)"
  by (simp add: clean_def list_all_iff)

lemma clean_concat: "(\<And>x. x \<in> set xs \<Longrightarrow> clean (f x)) \<Longrightarrow> clean (concat (map f xs))"
  by (induction xs) auto

lemma clean_join: "clean sep \<Longrightarrow> list_all clean ps \<Longrightarrow> clean (join sep ps)"
  by (induction sep ps rule: join.induct) auto

lemma reject_control_Inr [simp]: "reject_control field v = Inr w \<longleftrightarrow> clean v \<and> w = v"
  by (auto simp: reject_control_def clean_def list_all_iff list_ex_iff)

lemma clean_base64 [simp]: "clean (base64_encode s)"
proof -
  have "list_all (\<lambda>b. \<not> dangerous b) std_alphabet" by (simp add: std_alphabet_def dangerous_def)
  moreover have "set (base64_encode s) \<subseteq> insert (CHR ''='') (set std_alphabet)"
    using encode_chars [of std_alphabet s] by (force simp: base64_encode_def)
  moreover have "\<not> dangerous (CHR ''='')" by (simp add: dangerous_def)
  ultimately show ?thesis unfolding clean_def list_all_iff by blast
qed

lemma clean_escape [simp]: "clean s \<Longrightarrow> clean (escape_quoted s)"
  by (auto simp: clean_def list_all_iff escape_quoted_def replace_char_def dangerous_def split: if_splits)

lemma clean_words [simp]: "clean s \<Longrightarrow> clean (encode_header_text s)" "clean s \<Longrightarrow> clean (encode_header_phrase s)"
  by (simp_all add: encode_header_text_def encode_header_phrase_def encoded_word_def dangerous_def)

lemma clean_address: "header_address a = Inr s \<Longrightarrow> clean s"
  by (auto simp: header_address_def dangerous_def split: option.splits)

lemma clean_address_list: "address_list as = Inr s \<Longrightarrow> clean s"
  by (auto simp: address_list_def dangerous_def intro!: clean_join elim!: res_all_Inr dest: clean_address)

lemma clean_boundary: "clean kind \<Longrightarrow> clean (boundary d kind)"
proof -
  have "\<not> dangerous (boundary_char ch)" for ch
    by (auto simp: boundary_char_def dangerous_def is_ascii_alphanumeric_def Let_def split: list.splits)
  then show "clean kind \<Longrightarrow> clean (boundary d kind)"
    by (simp add: boundary_def Let_def clean_take clean_map dangerous_def)
qed

section \<open>Header blocks\<close>

definition header_name :: "string \<Rightarrow> string" where
  "header_name h = takeWhile (\<lambda>c. c \<noteq> CHR '':'') h"

definition header_block :: "string list \<Rightarrow> string \<Rightarrow> bool" where
  "header_block names s \<longleftrightarrow>
     (\<exists>hs. s = concat (map (\<lambda>h. h @ crlf) hs) \<and> list_all clean hs \<and> map header_name hs = names)"

lemma header_block_Nil [simp]: "header_block [] []"
  by (simp add: header_block_def)

lemma header_block_append: "header_block ns s \<Longrightarrow> header_block ms t \<Longrightarrow> header_block (ns @ ms) (s @ t)"
proof -
  assume "header_block ns s" "header_block ms t"
  then obtain hs hs' where "s = concat (map (\<lambda>h. h @ crlf) hs)" "list_all clean hs" "map header_name hs = ns"
    "t = concat (map (\<lambda>h. h @ crlf) hs')" "list_all clean hs'" "map header_name hs' = ms" by (auto simp: header_block_def)
  then show ?thesis unfolding header_block_def by (intro exI [of _ "hs @ hs'"]) simp
qed

lemma header_block_line:
  assumes "clean n" "CHR '':'' \<notin> set n" "clean v"
  shows "header_block [n] (n @ '': '' @ v @ crlf)"
proof -
  have "header_name (n @ '': '' @ v) = n"
    using assms(2) by (auto simp: header_name_def takeWhile_append)
  then show ?thesis
    unfolding header_block_def by (intro exI [of _ "[n @ '': '' @ v]"]) (use assms in \<open>simp add: dangerous_def\<close>)
qed

lemma plain_line:
  assumes "clean v" "n \<in> {''Date'', ''From'', ''To'', ''Cc'', ''Bcc'', ''References'', ''Subject'', ''MIME-Version'', ''Content-Type'', ''Message-ID'', ''In-Reply-To''}"
  shows "header_block [n] (n @ '': '' @ v @ crlf)"
  by (rule header_block_line [OF _ _ assms(1)]) (use assms(2) in \<open>auto simp: dangerous_def\<close>)

lemma content_block:
  assumes "mime_assemble d = Inr body"
  shows "header_block [''Content-Type''] (mp_headers body)"
proof -
  have multi: "header_block [''Content-Type''] (mp_headers (multipart kind b ps))" if "clean kind" "clean b" for kind b ps
    using plain_line [of "''multipart/'' @ kind @ ''; boundary='' @ [CHR 0x22] @ b @ [CHR 0x22]" "''Content-Type''"] that
    by (simp add: multipart_def dangerous_def)
  have plain: "header_block [''Content-Type''] (mp_headers (text_part ''plain'' b))" for b
    using plain_line [of "''text/plain; charset=utf-8''" "''Content-Type''"] by (simp add: text_part_def dangerous_def)
  have root: "header_block [''Content-Type''] (mp_headers (body_part d))"
    by (auto simp: body_part_def Let_def plain dangerous_def intro!: multi clean_boundary split: option.splits)
  have wrap: "header_block [''Content-Type''] (mp_headers b')"
    if "wrap_parts d kind as b = Inr b'" "header_block [''Content-Type''] (mp_headers b)" "clean kind" for kind as b b'
    using that by (auto simp: wrap_parts_def intro!: multi clean_boundary split: if_splits)
  from assms obtain b where "wrap_parts d ''related'' (filter is_inline (md_attachments d)) (body_part d) = Inr b"
    "wrap_parts d ''mixed'' (filter (\<lambda>a. \<not> is_inline a) (md_attachments d)) b = Inr body" by (auto simp: mime_assemble_def)
  from wrap [OF this(2) wrap [OF this(1) root]] show ?thesis by (simp add: dangerous_def)
qed

text \<open>The names of the headers a message is given, in order.\<close>

definition header_names :: "mail_draft \<Rightarrow> assembly \<Rightarrow> string list" where
  "header_names d asm = [''Date'', ''Message-ID'', ''From''] @ (if md_to d = [] \<and> asm = ForDraft then [] else [''To'']) @
     (if md_cc d = [] then [] else [''Cc'']) @ (if asm = Wire \<or> md_bcc d = [] then [] else [''Bcc'']) @
     (if md_in_reply_to d = None then [] else [''In-Reply-To'']) @ (if md_references d = [] then [] else [''References'']) @
     [''Subject'', ''MIME-Version''] @ [''Content-Type'']"

lemma to_block: "to_header d asm = Inr s \<Longrightarrow> header_block (if md_to d = [] \<and> asm = ForDraft then [] else [''To'']) s"
  using plain_line [of "''undisclosed-recipients:;''" "''To''"] plain_line [of _ "''To''"]
  by (auto simp: to_header_def dangerous_def dest: clean_address_list split: if_splits)

lemma list_block:
  "n \<in> {''Cc'', ''Bcc''} \<Longrightarrow> (if omit then Inr [] else res_bind (address_list as) (\<lambda>l. Inr (n @ '': '' @ l @ crlf))) = Inr s \<Longrightarrow>
   header_block (if omit then [] else [n]) s"
  using plain_line [of _ n] by (auto dest: clean_address_list split: if_splits)

lemma reply_block:
  "(case r of Some parent \<Rightarrow> res_bind (reject_control ''In-Reply-To'' parent) (\<lambda>p. Inr (''In-Reply-To: <'' @ p @ ''>'' @ crlf)) | None \<Rightarrow> Inr []) = Inr s \<Longrightarrow>
   header_block (if r = None then [] else [''In-Reply-To'']) s"
  using plain_line [of "''<'' @ the r @ ''>''" "''In-Reply-To''"] by (auto simp: dangerous_def split: option.splits)

lemma references_block:
  assumes "(if rs = [] then Inr []
       else res_bind (res_all (\<lambda>r. res_bind (reject_control ''References'' r) (\<lambda>i. Inr (''<'' @ i @ ''>''))) rs)
         (\<lambda>ids. Inr (''References: '' @ join '' '' ids @ crlf))) = Inr s"
  shows "header_block (if rs = [] then [] else [''References'']) s"
proof (cases "rs = []")
  case False
  with assms obtain ids where ids: "res_all (\<lambda>r. res_bind (reject_control ''References'' r) (\<lambda>i. Inr (''<'' @ i @ ''>''))) rs = Inr ids"
    "s = ''References: '' @ join '' '' ids @ crlf" by auto
  have "list_all clean ids" by (rule res_all_Inr [OF ids(1)]) (auto simp: dangerous_def)
  then have "clean (join '' '' ids)" by (simp add: clean_join dangerous_def)
  from plain_line [OF this, of "''References''"] False ids(2) show ?thesis by simp
qed (use assms in simp)

lemma assembled_block:
  assumes "assemble fmt d date asm = Inr bytes" "fmt date = Inr t" "clean t"
  shows "\<exists>hs body. bytes = concat (map (\<lambda>h. h @ crlf) hs) @ crlf @ body \<and> list_all clean hs \<and> map header_name hs = header_names d asm"
proof -
  from assms obtain from_s to_s cc_s bcc_s rep_s ref_s body where parts:
    "clean (md_message_id d)" "header_address (md_from d) = Inr from_s" "to_header d asm = Inr to_s"
    "(if md_cc d = [] then Inr [] else res_bind (address_list (md_cc d)) (\<lambda>l. Inr (''Cc: '' @ l @ crlf))) = Inr cc_s"
    "(if asm = Wire \<or> md_bcc d = [] then Inr [] else res_bind (address_list (md_bcc d)) (\<lambda>l. Inr (''Bcc: '' @ l @ crlf))) = Inr bcc_s"
    "clean (md_subject d)"
    "(case md_in_reply_to d of Some parent \<Rightarrow> res_bind (reject_control ''In-Reply-To'' parent) (\<lambda>p. Inr (''In-Reply-To: <'' @ p @ ''>'' @ crlf)) | None \<Rightarrow> Inr []) = Inr rep_s"
    "(if md_references d = [] then Inr []
       else res_bind (res_all (\<lambda>r. res_bind (reject_control ''References'' r) (\<lambda>i. Inr (''<'' @ i @ ''>''))) (md_references d))
         (\<lambda>ids. Inr (''References: '' @ join '' '' ids @ crlf))) = Inr ref_s"
    "mime_assemble d = Inr body"
    and bytes: "bytes = (''Date: '' @ t @ crlf @ ''Message-ID: <'' @ md_message_id d @ ''>'' @ crlf @ ''From: '' @ from_s @ crlf @ to_s @ cc_s @ bcc_s @
           rep_s @ ref_s @ ''Subject: '' @ encode_header_text (md_subject d) @ crlf @ ''MIME-Version: 1.0'' @ crlf) @ mp_headers body @ crlf @ mp_body body"
    unfolding assemble_def Let_def by auto
  have first: "header_block [''Date'', ''Message-ID'', ''From'']
      (''Date: '' @ t @ crlf @ ''Message-ID: <'' @ md_message_id d @ ''>'' @ crlf @ ''From: '' @ from_s @ crlf)"
    using header_block_append [OF plain_line [OF assms(3), of "''Date''"]
        header_block_append [OF plain_line [of "''<'' @ md_message_id d @ ''>''" "''Message-ID''"] plain_line [OF clean_address [OF parts(2)], of "''From''"]]]
      parts(1) by (simp add: dangerous_def)
  have last: "header_block [''Subject'', ''MIME-Version'']
      (''Subject: '' @ encode_header_text (md_subject d) @ crlf @ ''MIME-Version: 1.0'' @ crlf)"
    using header_block_append [OF plain_line [of "encode_header_text (md_subject d)" "''Subject''"] plain_line [of "''1.0''" "''MIME-Version''"]]
      parts(6) by (simp add: dangerous_def)
  have "header_block (header_names d asm)
      ((''Date: '' @ t @ crlf @ ''Message-ID: <'' @ md_message_id d @ ''>'' @ crlf @ ''From: '' @ from_s @ crlf) @ to_s @ cc_s @ bcc_s @ rep_s @ ref_s @
       (''Subject: '' @ encode_header_text (md_subject d) @ crlf @ ''MIME-Version: 1.0'' @ crlf) @ mp_headers body)"
    unfolding header_names_def
    by (intro header_block_append first last content_block [OF parts(9)] to_block [OF parts(3)] reply_block [OF parts(7)] references_block [OF parts(8)]
        list_block [of "''Cc''" "md_cc d = []" "md_cc d"] list_block [of "''Bcc''" _ "md_bcc d"]) (use parts(4,5) in \<open>auto split: if_splits\<close>)
  then obtain hs where hs: "(''Date: '' @ t @ crlf @ ''Message-ID: <'' @ md_message_id d @ ''>'' @ crlf @ ''From: '' @ from_s @ crlf) @ to_s @ cc_s @ bcc_s @ rep_s @ ref_s @
       (''Subject: '' @ encode_header_text (md_subject d) @ crlf @ ''MIME-Version: 1.0'' @ crlf) @ mp_headers body = concat (map (\<lambda>h. h @ crlf) hs)"
    "list_all clean hs" "map header_name hs = header_names d asm" unfolding header_block_def by blast
  have "bytes = concat (map (\<lambda>h. h @ crlf) hs) @ crlf @ mp_body body" unfolding bytes hs(1) [symmetric] by simp
  with hs(2,3) show ?thesis by blast
qed

section \<open>Bodies\<close>

lemma lines_of_76_concat: "length s \<le> n \<Longrightarrow> concat (lines_of_76 n s) = s"
  by (induction n s rule: lines_of_76.induct) auto

lemma lines_of_76_short: "line \<in> set (lines_of_76 n s) \<Longrightarrow> length line \<le> 76 \<and> line \<noteq> []"
  by (induction n s rule: lines_of_76.induct) (auto split: if_splits)

lemma encoded_no_blank: "filter (\<lambda>c. \<not> is_ascii_whitespace c) (base64_encode s) = base64_encode s"
proof -
  have "\<not> is_ascii_whitespace c" if "c \<in> set (base64_encode s)" for c
    using that encode_chars [of std_alphabet s] symbol_values(6) by (auto simp: base64_encode_def is_ascii_whitespace_def [of "CHR ''=''"])
  then show ?thesis by (simp add: filter_id_conv)
qed

lemma unwrapped: "filter (\<lambda>c. \<not> is_ascii_whitespace c) (concat (map (\<lambda>line. line @ crlf) ls)) = filter (\<lambda>c. \<not> is_ascii_whitespace c) (concat ls)"
  by (induction ls) (simp_all add: is_ascii_whitespace_def)

lemma base64_body_decodes: "jmap_b64_decode (base64_body content) = Some content"
  unfolding jmap_b64_decode_def base64_body_def Let_def jmap_b64_blanks [of "concat _"] unwrapped lines_of_76_concat [OF order_refl] encoded_no_blank
  unfolding base64_encode_def by (rule jmap_b64.decode_encode)

lemma normalize_no_break: "l \<in> set (normalize_body_lines s) \<Longrightarrow> CR \<notin> set l \<and> LF \<notin> set l"
proof (induction s arbitrary: l rule: normalize_body_lines.induct)
  case (1 body)
  show ?case
  proof (cases "dropWhile (\<lambda>b. b \<noteq> CR \<and> b \<noteq> LF) body")
    case Nil
    then have "l = body" using 1 by (simp add: normalize_body_lines.simps [of body] del: dropWhile_eq_Nil_conv)
    with Nil show ?thesis by auto
  next
    case (Cons b rest)
    with 1 show ?thesis
      by (auto simp: normalize_body_lines.simps [of body] dest: set_takeWhileD split: if_splits)
  qed
qed

lemma normalize_nonempty: "normalize_body_lines s \<noteq> []"
  by (subst normalize_body_lines.simps) (auto split: list.splits)

lemma normalize_line:
  assumes "CR \<notin> set l" "LF \<notin> set l"
  shows "normalize_body_lines l = [l]" "normalize_body_lines (l @ crlf @ rest) = l # normalize_body_lines rest"
proof -
  have "dropWhile (\<lambda>b. b \<noteq> CR \<and> b \<noteq> LF) l = []" using assms by auto
  then show "normalize_body_lines l = [l]" by (simp only: normalize_body_lines.simps [of l] list.case)
  have "dropWhile (\<lambda>b. b \<noteq> CR \<and> b \<noteq> LF) (l @ crlf @ rest) = crlf @ rest" "takeWhile (\<lambda>b. b \<noteq> CR \<and> b \<noteq> LF) (l @ crlf @ rest) = l"
    using assms by (auto simp: dropWhile_append takeWhile_append)
  then show "normalize_body_lines (l @ crlf @ rest) = l # normalize_body_lines rest"
    by (simp only: normalize_body_lines.simps [of "l @ crlf @ rest"]) simp
qed

lemma normalize_joined: "ls \<noteq> [] \<Longrightarrow> list_all (\<lambda>l. CR \<notin> set l \<and> LF \<notin> set l) ls \<Longrightarrow> normalize_body_lines (join crlf ls) = ls"
proof (induction ls rule: induct_list012)
  case (3 a b ls)
  have "join crlf (a # b # ls) = a @ crlf @ join crlf (b # ls)" by simp
  with 3 normalize_line(2) [of a "join crlf (b # ls)"] show ?case by (simp del: join.simps)
qed (simp_all add: normalize_line)

end
