(* ===== verification/Utf7.thy ===== *)
theory Utf7
  imports Base64
begin

text \<open>
  Modified UTF-7, the mailbox names of an IMAP4rev1 wire (\<open>provider-imap/src/utf7.rs\<close>). A name is the list of
  its characters, each a Unicode scalar value; what goes through base64 is bytes.
\<close>

section \<open>Characters, bytes and UTF-16\<close>

definition scalar :: "nat \<Rightarrow> bool" where
  "scalar c \<longleftrightarrow> c < 0xD800 \<or> 0xE000 \<le> c \<and> c < 0x110000"

text \<open>\<open>str::as_bytes\<close>.\<close>

definition utf8_char :: "nat \<Rightarrow> string" where
  "utf8_char c = map char_of
     (if c < 0x80 then [c]
      else if c < 0x800 then [0xC0 + c div 64, 0x80 + c mod 64]
      else if c < 0x10000 then [0xE0 + c div 4096, 0x80 + c div 64 mod 64, 0x80 + c mod 64]
      else [0xF0 + c div 262144, 0x80 + c div 4096 mod 64, 0x80 + c div 64 mod 64, 0x80 + c mod 64])"

definition as_bytes :: "nat list \<Rightarrow> string" where
  "as_bytes s = concat (map utf8_char s)"

text \<open>\<open>char::encode_utf16\<close> and \<open>u16::to_be_bytes\<close>.\<close>

definition encode_utf16 :: "nat \<Rightarrow> nat list" where
  "encode_utf16 c = (if c < 0x10000 then [c] else [0xD800 + (c - 0x10000) div 0x400, 0xDC00 + (c - 0x10000) mod 0x400])"

definition to_be_bytes :: "nat \<Rightarrow> string" where
  "to_be_bytes u = [char_of (u div 256), char_of (u mod 256)]"

text \<open>\<open>String::from_utf16be\<close>: refused on an odd number of bytes or an unpaired surrogate.\<close>

fun be_units :: "string \<Rightarrow> nat list option" where
  "be_units [] = Some []"
| "be_units [_] = None"
| "be_units (a # b # bs) = map_option ((#) (of_char a * 256 + of_char b)) (be_units bs)"

fun decode_utf16 :: "nat list \<Rightarrow> nat list option" where
  "decode_utf16 [] = Some []"
| "decode_utf16 (u # us) =
     (if u < 0xD800 \<or> 0xE000 \<le> u then map_option ((#) u) (decode_utf16 us)
      else if 0xDC00 \<le> u then None
      else case us of
          [] \<Rightarrow> None
        | v # vs \<Rightarrow> if 0xDC00 \<le> v \<and> v < 0xE000
                 then map_option ((#) (0x10000 + (u - 0xD800) * 0x400 + (v - 0xDC00))) (decode_utf16 vs) else None)"

definition from_utf16be :: "string \<Rightarrow> nat list option" where
  "from_utf16be bs = (case be_units bs of None \<Rightarrow> None | Some us \<Rightarrow> decode_utf16 us)"

section \<open>Decoding a name\<close>

abbreviation amp :: nat where "amp \<equiv> 38"

abbreviation dash :: nat where "dash \<equiv> 45"

definition decode_base64_run :: "nat list \<Rightarrow> nat list option" where
  "decode_base64_run encoded =
     (if encoded = [] then None
      else case imap_b64_decode (as_bytes (map (\<lambda>c. if c = 44 then 47 else c) encoded)) of
          None \<Rightarrow> None
        | Some octets \<Rightarrow> from_utf16be octets)"

function utf7_decode_loop :: "nat list \<Rightarrow> nat list" where
  "utf7_decode_loop rest =
     (case dropWhile (\<lambda>c. c \<noteq> amp) rest of
        [] \<Rightarrow> rest
      | _ # after \<Rightarrow> takeWhile (\<lambda>c. c \<noteq> amp) rest @
          (if after \<noteq> [] \<and> hd after = dash then amp # utf7_decode_loop (tl after)
           else case dropWhile (\<lambda>c. c \<noteq> dash) after of
               [] \<Rightarrow> amp # after
             | _ # tail \<Rightarrow> (let encoded = takeWhile (\<lambda>c. c \<noteq> dash) after in
                 (case decode_base64_run encoded of Some decoded \<Rightarrow> decoded | None \<Rightarrow> amp # encoded @ [dash]) @ utf7_decode_loop tail)))"
  by pat_completeness auto

termination
  by (relation "measure length") (auto dest!: dropWhile_shorter)

declare utf7_decode_loop.simps [simp del]

definition utf7_decode :: "nat list \<Rightarrow> nat list" where
  "utf7_decode name = (if amp \<notin> set name then name else utf7_decode_loop name)"

section \<open>Encoding a name\<close>

definition flush_shift :: "nat list \<Rightarrow> nat list" where
  "flush_shift shift =
     (if shift = [] then []
      else amp # map (\<lambda>b. if b = CHR ''/'' then 44 else of_char b)
             (filter (\<lambda>b. b \<noteq> CHR ''='') (imap_b64_encode (concat (map to_be_bytes shift)))) @ [dash])"

fun utf7_encode_loop :: "nat list \<Rightarrow> nat list \<Rightarrow> nat list" where
  "utf7_encode_loop [] shift = flush_shift shift"
| "utf7_encode_loop (ch # name) shift =
     (if 0x20 \<le> ch \<and> ch \<le> 0x7E
      then flush_shift shift @ ch # (if ch = amp then [dash] else []) @ utf7_encode_loop name []
      else utf7_encode_loop name (shift @ encode_utf16 ch))"

definition utf7_encode :: "nat list \<Rightarrow> nat list" where
  "utf7_encode name = (if list_all (\<lambda>c. c < 128) name \<and> amp \<notin> set name then name else utf7_encode_loop name [])"

section \<open>The codec\<close>

lemma be_units_bytes: "list_all (\<lambda>u. u < 0x10000) us \<Longrightarrow> be_units (concat (map to_be_bytes us)) = Some us"
  by (induction us) (auto simp: to_be_bytes_def)

lemma decode_utf16_char: "scalar c \<Longrightarrow> decode_utf16 (encode_utf16 c @ us) = map_option ((#) c) (decode_utf16 us)"
  by (auto simp: scalar_def encode_utf16_def less_diff_conv)

lemma units_small: "scalar c \<Longrightarrow> list_all (\<lambda>u. u < 0x10000) (encode_utf16 c)"
  by (auto simp: scalar_def encode_utf16_def)

lemma utf16_roundtrip:
  assumes "list_all scalar cs"
  shows "decode_utf16 (concat (map encode_utf16 cs)) = Some cs" "list_all (\<lambda>u. u < 0x10000) (concat (map encode_utf16 cs))"
  using assms by (induction cs) (auto simp: decode_utf16_char units_small)

lemma from_utf16be_encoded:
  assumes "list_all scalar cs"
  shows "from_utf16be (concat (map to_be_bytes (concat (map encode_utf16 cs)))) = Some cs"
  using be_units_bytes [OF utf16_roundtrip(2) [OF assms]] utf16_roundtrip(1) [OF assms] by (simp add: from_utf16be_def)

text \<open>The text of a shift: the symbols as characters, a comma for the slash.\<close>

abbreviation shift_char :: "char \<Rightarrow> nat" where
  "shift_char b \<equiv> if b = CHR ''/'' then 44 else of_char b"

lemma alphabet_chars:
  "list_all (\<lambda>b. utf8_char (if shift_char b = 44 then 47 else shift_char b) = [b] \<and> shift_char b \<noteq> dash) std_alphabet"
  by code_simp

lemma shift_symbols: "set (filter (\<lambda>b. b \<noteq> CHR ''='') (imap_b64_encode bs)) \<subseteq> set std_alphabet"
  using encode_chars [of std_alphabet bs] by (auto simp: imap_b64_encode_def)

lemma as_bytes_symbols:
  "set e \<subseteq> set std_alphabet \<Longrightarrow> as_bytes (map (\<lambda>c. if c = 44 then 47 else c) (map shift_char e)) = e"
  using alphabet_chars by (induction e) (auto simp: as_bytes_def list_all_iff)

lemma shift_text:
  fixes bs :: string
  defines "t \<equiv> map shift_char (filter (\<lambda>b. b \<noteq> CHR ''='') (imap_b64_encode bs))"
  assumes "bs \<noteq> []"
  shows "dash \<notin> set t" "t \<noteq> []" "decode_base64_run t = from_utf16be bs"
proof -
  have "shift_char b \<noteq> dash" if "b \<in> set std_alphabet" for b using alphabet_chars that unfolding list_all_iff by blast
  then have "dash \<notin> set (map shift_char e)" if "set e \<subseteq> set std_alphabet" for e
    using that by (induction e) (simp_all split del: if_split)
  then show "dash \<notin> set t" using shift_symbols [of bs] unfolding t_def by blast
  have bytes: "as_bytes (map (\<lambda>c. if c = 44 then 47 else c) t) = filter (\<lambda>b. b \<noteq> CHR ''='') (imap_b64_encode bs)"
    unfolding t_def by (rule as_bytes_symbols [OF shift_symbols])
  have dec: "imap_b64_decode (filter (\<lambda>b. b \<noteq> CHR ''='') (imap_b64_encode bs)) = Some bs"
    unfolding imap_b64_decode_def imap_b64_encode_def by (rule imap_b64.decode_unpadded)
  then show "t \<noteq> []" using assms unfolding t_def by (auto simp: imap_b64_decode_def)
  then show "decode_base64_run t = from_utf16be bs" by (simp add: decode_base64_run_def bytes dec)
qed

lemma decode_plain: "c \<noteq> amp \<Longrightarrow> utf7_decode_loop (c # rest) = c # utf7_decode_loop rest"
  by (cases "dropWhile (\<lambda>c. c \<noteq> amp) rest")
    (simp_all add: utf7_decode_loop.simps [of "c # rest"] utf7_decode_loop.simps [of rest] del: dropWhile_eq_Nil_conv)

lemma decode_amp: "utf7_decode_loop (amp # dash # rest) = amp # utf7_decode_loop rest"
  by (subst utf7_decode_loop.simps) simp

lemma decode_shift:
  assumes "dash \<notin> set t" "t \<noteq> []" "decode_base64_run t = Some cs"
  shows "utf7_decode_loop (amp # t @ dash # rest) = cs @ utf7_decode_loop rest"
proof -
  have "dropWhile (\<lambda>c. c \<noteq> dash) (t @ dash # rest) = dash # rest" "takeWhile (\<lambda>c. c \<noteq> dash) (t @ dash # rest) = t"
    using assms(1) by (simp_all add: dropWhile_append takeWhile_append)
  moreover have "hd (t @ dash # rest) \<noteq> dash" using assms(1,2) by (cases t) auto
  ultimately show ?thesis by (subst utf7_decode_loop.simps) (simp add: assms(3))
qed

lemma decode_flush:
  assumes "list_all scalar cs"
  shows "utf7_decode_loop (flush_shift (concat (map encode_utf16 cs)) @ rest) = cs @ utf7_decode_loop rest"
proof (cases "concat (map encode_utf16 cs) = []")
  case True
  then have "cs = []" by (cases cs) (auto simp: encode_utf16_def split: if_splits)
  then show ?thesis by (simp add: flush_shift_def)
next
  case False
  then have ne: "concat (map to_be_bytes (concat (map encode_utf16 cs))) \<noteq> []"
    by (cases "concat (map encode_utf16 cs)") (simp_all add: to_be_bytes_def)
  from decode_shift [OF shift_text(1) [OF ne] shift_text(2) [OF ne], of cs rest] shift_text(3) [OF ne] from_utf16be_encoded [OF assms] False
  show ?thesis by (simp only: flush_shift_def if_False append.simps append_assoc)
qed

lemma decode_encode_loop:
  assumes "list_all scalar name" "list_all scalar cs"
  shows "utf7_decode_loop (utf7_encode_loop name (concat (map encode_utf16 cs))) = cs @ name"
  using assms
proof (induction name arbitrary: cs)
  case Nil
  then show ?case using decode_flush [of cs "[]"] by (simp add: utf7_decode_loop.simps)
next
  case (Cons ch name)
  show ?case
  proof (cases "0x20 \<le> ch \<and> ch \<le> 0x7E")
    case True
    with Cons.IH [of "[]"] Cons.prems show ?thesis
      by (cases "ch = amp") (simp_all add: decode_flush decode_plain decode_amp)
  next
    case False
    with Cons.IH [of "cs @ [ch]"] Cons.prems show ?thesis by auto
  qed
qed

lemma utf7_decode_is_loop: "utf7_decode name = utf7_decode_loop name"
proof (cases "amp \<in> set name")
  case False
  then have "dropWhile (\<lambda>c. c \<noteq> amp) name = []" by auto
  with False show ?thesis by (simp only: utf7_decode_def utf7_decode_loop.simps [of name] list.case) simp
qed (simp add: utf7_decode_def)

lemma utf7_roundtrip: "list_all scalar name \<Longrightarrow> utf7_decode (utf7_encode name) = name"
  using decode_encode_loop [of name "[]"] by (simp add: utf7_encode_def utf7_decode_is_loop [symmetric]) (simp add: utf7_decode_def)

end
