(* ===== verification/Codec_Props.thy ===== *)
theory Codec_Props
  imports Mime_Laws Utf7
begin

text \<open>
  What holds of outgoing mail and of the codecs under it: a draft cannot add headers of its own, a recipient
  cannot see the Bcc list, bodies decode to what was put in, and mailbox names survive the IMAP4rev1 wire.
\<close>

section \<open>Samples\<close>

definition sample_draft :: mail_draft where
  "sample_draft = with_attachment (attachment_regular ''a.txt'' ''text/plain'' ''hi'')
     (with_bcc [\<lparr>ea_name = None, ea_email = ''hidden@x''\<rparr>]
       (draft_new ''m1@x'' \<lparr>ea_name = Some ''Ann'', ea_email = ''ann@x''\<rparr> [\<lparr>ea_name = None, ea_email = ''bob@x''\<rparr>] ''Hello'' ''Hi''))"

definition sample_date :: "unit \<Rightarrow> (string, string) result" where
  "sample_date _ = Inr ''Mon, 01 Jan 2024 00:00:00 +0000''"

section \<open>Headers\<close>

text \<open>
  C10. A draft cannot add headers. When a draft is assembled, the message is a block of header lines, a blank line
  and a body; the lines are exactly the headers the assembler writes, in their order, and no line contains a
  carriage return, a line feed or a NUL, whatever the draft's addresses, subject, ids and attachments say. The
  text of the date is the time library's and is taken to be free of them.
\<close>
theorem no_header_injection:
  assumes "assemble fmt d date asm = Inr bytes" "fmt date = Inr t" "clean t"
  shows "\<exists>hs body. bytes = concat (map (\<lambda>h. h @ crlf) hs) @ crlf @ body \<and> list_all clean hs \<and> map header_name hs = header_names d asm"
  using assms by (rule assembled_block)

lemma sample_assembled: "\<exists>bytes. assemble sample_date sample_draft () Filed = Inr bytes"
proof -
  have "case assemble sample_date sample_draft () Filed of Inl _ \<Rightarrow> False | Inr _ \<Rightarrow> True" by code_simp
  then show ?thesis by (auto split: sum.splits)
qed

theorem no_header_injection_witness:
  "\<exists>hs body. assemble sample_date sample_draft () Filed = Inr (concat (map (\<lambda>h. h @ crlf) hs) @ crlf @ body) \<and>
     map header_name hs = [''Date'', ''Message-ID'', ''From'', ''To'', ''Bcc'', ''Subject'', ''MIME-Version'', ''Content-Type'']"
proof -
  obtain bytes where b: "assemble sample_date sample_draft () Filed = Inr bytes" using sample_assembled by blast
  have "header_names sample_draft Filed = [''Date'', ''Message-ID'', ''From'', ''To'', ''Bcc'', ''Subject'', ''MIME-Version'', ''Content-Type'']"
    by code_simp
  with no_header_injection [OF b, of "''Mon, 01 Jan 2024 00:00:00 +0000''"] b show ?thesis
    by (auto simp: sample_date_def dangerous_def)
qed

text \<open>
  C11. No recipient can learn the Bcc list. The bytes that go over the wire, and whether they can be assembled at
  all, do not depend on it.
\<close>
theorem wire_hides_bcc: "assemble_message fmt (with_bcc bcc d) date = assemble_message fmt d date"
proof -
  have fields: "md_message_id (with_bcc bcc d) = md_message_id d" "md_from (with_bcc bcc d) = md_from d" "md_to (with_bcc bcc d) = md_to d"
    "md_cc (with_bcc bcc d) = md_cc d" "md_subject (with_bcc bcc d) = md_subject d" "md_text_body (with_bcc bcc d) = md_text_body d"
    "md_html_body (with_bcc bcc d) = md_html_body d" "md_attachments (with_bcc bcc d) = md_attachments d" "md_calendar (with_bcc bcc d) = md_calendar d"
    "md_in_reply_to (with_bcc bcc d) = md_in_reply_to d" "md_references (with_bcc bcc d) = md_references d"
    by (simp_all add: with_bcc_def)
  have b: "boundary (with_bcc bcc d) = boundary d" by (rule ext) (simp add: boundary_def fields)
  have "wrap_parts (with_bcc bcc d) = wrap_parts d" by (intro ext) (simp add: wrap_parts_def b)
  moreover have "body_part (with_bcc bcc d) = body_part d" by (simp only: body_part_def fields b)
  ultimately have "mime_assemble (with_bcc bcc d) = mime_assemble d" by (simp add: mime_assemble_def fields)
  moreover have "to_header (with_bcc bcc d) Wire = to_header d Wire" by (simp add: to_header_def fields)
  ultimately show ?thesis unfolding assemble_message_def assemble_def fields by simp
qed

section \<open>Bodies\<close>

text \<open>
  Text bodies keep their lines and lose their bare line breaks: whatever mixture of breaks a text uses, no
  line of the body contains one, and splitting the joined lines again gives the same lines.
\<close>
theorem body_lines_are_normal:
  "list_all (\<lambda>l. CR \<notin> set l \<and> LF \<notin> set l) (normalize_body_lines s) \<and>
   normalize_body_lines (join crlf (normalize_body_lines s)) = normalize_body_lines s"
proof -
  have "list_all (\<lambda>l. CR \<notin> set l \<and> LF \<notin> set l) (normalize_body_lines s)"
    using normalize_no_break by (auto simp: list_all_iff)
  then show ?thesis using normalize_joined [OF normalize_nonempty] by blast
qed

text \<open>
  C39. What is encoded in base64 is decoded to the same bytes by the decoders that read it: what the IMAP encoder
  writes by the IMAP decoder, what the Gmail encoder writes by the Gmail decoder, what the standard encoder writes
  for a message by the Gmail and by the JMAP decoder, and the body of an attachment, which is that text broken into
  lines of at most 76 symbols each ended by CRLF, by the JMAP decoder.
\<close>
theorem base64_decodes:
  "imap_b64_decode (imap_b64_encode bs) = Some bs \<and> google_b64_decode (google_b64_encode bs) = Some bs \<and>
   google_b64_decode (base64_encode bs) = Some bs \<and> jmap_b64_decode (base64_encode bs) = Some bs \<and>
   jmap_b64_decode (base64_body bs) = Some bs \<and>
   (\<exists>ls. base64_body bs = concat (map (\<lambda>l. l @ crlf) ls) \<and> list_all (\<lambda>l. length l \<le> 76) ls)"
proof (intro conjI)
  show "\<exists>ls. base64_body bs = concat (map (\<lambda>l. l @ crlf) ls) \<and> list_all (\<lambda>l. length l \<le> 76) ls"
    by (rule exI [of _ "lines_of_76 (length (base64_encode bs)) (base64_encode bs)"])
      (auto simp: base64_body_def Let_def list_all_iff dest: lines_of_76_short)
qed (simp_all add: imap_b64_decode_def imap_b64_encode_def google_b64_decode_def google_b64_encode_def base64_encode_def
    jmap_b64_decode_def imap_b64.decode_encode google_b64.decode_encode google_std_b64.decode_encode jmap_b64.decode_encode
    base64_body_decodes [unfolded jmap_b64_decode_def])

section \<open>Mailbox names\<close>

text \<open>
  C40. A mailbox name survives the IMAP4rev1 wire: every text of Unicode characters, encoded in modified UTF-7, is
  decoded to itself.
\<close>
theorem mailbox_name_roundtrip:
  assumes "list_all scalar name"
  shows "utf7_decode (utf7_encode name) = name"
  using assms by (rule utf7_roundtrip)

theorem mailbox_name_roundtrip_witness:
  "utf7_encode [0x54, 38, 0x65E5, 0x1F600] \<noteq> [0x54, 38, 0x65E5, 0x1F600] \<and>
   utf7_decode (utf7_encode [0x54, 38, 0x65E5, 0x1F600]) = [0x54, 38, 0x65E5, 0x1F600]"
  using mailbox_name_roundtrip [of "[0x54, 38, 0x65E5, 0x1F600]"]
  by (auto simp: scalar_def utf7_encode_def flush_shift_def encode_utf16_def)

section \<open>What the comments do not say\<close>

text \<open>
  The scheduling method of a draft is not screened: one that is not of the known methods and carries a line break
  adds a header line to the calendar part, and the draft is assembled.
\<close>

definition smuggling_draft :: mail_draft where
  "smuggling_draft = with_calendar \<lparr>dcl_ical = ''BEGIN:VCALENDAR'', dcl_method = SOther (''x'' @ crlf @ ''Content-ID: <y>'')\<rparr>
     (draft_new ''m1@x'' \<lparr>ea_name = None, ea_email = ''ann@x''\<rparr> [] ''Hello'' ''Hi'')"

theorem method_adds_header:
  "mp_headers (calendar_part (the (md_calendar smuggling_draft))) =
     ''Content-Type: text/calendar; charset=utf-8; method=X'' @ crlf @ ''CONTENT-ID: <Y>'' @ crlf @ ''Content-Transfer-Encoding: base64'' @ crlf \<and>
   \<not> isl (assemble_message sample_date smuggling_draft ())"
proof
  show "mp_headers (calendar_part (the (md_calendar smuggling_draft))) =
     ''Content-Type: text/calendar; charset=utf-8; method=X'' @ crlf @ ''CONTENT-ID: <Y>'' @ crlf @ ''Content-Transfer-Encoding: base64'' @ crlf"
    by (simp add: smuggling_draft_def with_calendar_def draft_new_def calendar_part_def Let_def ascii_upper_def char_of_eq_iff)
  show "\<not> isl (assemble_message sample_date smuggling_draft ())"
    by (simp add: assemble_message_def assemble_def smuggling_draft_def with_calendar_def draft_new_def sample_date_def res_bind_def reject_control_def
        dangerous_def header_address_def to_header_def mime_assemble_def wrap_parts_def Let_def)
qed

text \<open>An all-ASCII name goes to the wire as it is, control characters included; beside an ampersand they are shifted.\<close>
theorem ascii_control_is_not_shifted:
  "utf7_encode [97, 9, 98] = [97, 9, 98] \<and> utf7_encode [97, 9, 98, 38] = 97 # flush_shift [9] @ [98, 38, 45]"
  by (simp add: utf7_encode_def encode_utf16_def flush_shift_def)

end
