(* ===== verification/Http_Policy.thy ===== *)
theory Http_Policy
  imports Digits Utf8
begin

text \<open>
  How long an HTTP adapter waits: the retry policy (\<open>engine-http/src/policy.rs\<close>), the pace an account is held to
  (\<open>pace.rs\<close>) and the ceiling on requests in flight (\<open>gate.rs\<close>). A \<open>Duration\<close> is its number of nanoseconds, an
  \<open>Instant\<close> a signed number of them; an overflow of either panics, the value \<open>None\<close>. The parser of HTTP dates is a
  parameter.
\<close>

section \<open>Durations and instants\<close>

type_synonym nanos = nat

definition u64_top :: nat where "u64_top = 2 ^ 64 - 1"

definition nanos_max :: nanos where "nanos_max = u64_top * 10 ^ 9 + 999999999"

definition instant_min :: int where "instant_min = - (2 ^ 63) * 10 ^ 9"

definition instant_max :: int where "instant_max = (2 ^ 63 - 1) * 10 ^ 9 + 999999999"

definition millis :: "nat \<Rightarrow> nanos" where "millis n = n * 10 ^ 6"

definition seconds :: "nat \<Rightarrow> nanos" where "seconds n = n * 10 ^ 9"

section \<open>The retry policy\<close>

record retry_policy =
  rp_attempts :: "32 word"
  rp_base :: nanos
  rp_ceiling :: nanos
  rp_budget :: nanos
  rp_absorbs_stated :: nanos

definition policy_default :: retry_policy where
  "policy_default = \<lparr>rp_attempts = 5, rp_base = millis 500, rp_ceiling = seconds 30, rp_budget = seconds 60, rp_absorbs_stated = seconds 5\<rparr>"

definition policy_none :: retry_policy where
  "policy_none = \<lparr>rp_attempts = 1, rp_base = 0, rp_ceiling = 0, rp_budget = 0, rp_absorbs_stated = 0\<rparr>"

record retry_attempt =
  at_throttled :: bool
  at_retry_after :: "nanos option"
  at_number :: nat
  at_waited :: nanos

definition sat_nanos :: "nanos \<Rightarrow> nanos" where "sat_nanos n = min n nanos_max"

text \<open>\<open>scale\<close>: entropy placed inside \<open>0..=spread\<close>.\<close>

definition scale :: "nanos \<Rightarrow> nat \<Rightarrow> nanos" where
  "scale spread entropy = entropy mod min (min spread u64_top + 1) u64_top"

definition next_delay :: "retry_policy \<Rightarrow> retry_attempt \<Rightarrow> nat \<Rightarrow> nanos option" where
  "next_delay p a entropy =
     (if \<not> at_throttled a then None
      else if unat (rp_attempts p) \<le> min (at_number a + 1) (2 ^ 32 - 1) then None
      else case (case at_retry_after a of
            Some asked \<Rightarrow> if rp_absorbs_stated p < asked then None else Some (asked, min (asked div 4) (seconds 1))
          | None \<Rightarrow> (let doubled = min (sat_nanos (rp_base p * 2 ^ min (at_number a) 20)) (rp_ceiling p) in Some (doubled div 2, doubled div 2))) of
          None \<Rightarrow> None
        | Some (floor, spread) \<Rightarrow>
            (let delay = floor + scale spread entropy in
             if rp_budget p < sat_nanos (at_waited a + delay) then None else Some delay))"

definition retryable :: "nat \<Rightarrow> bool \<Rightarrow> bool" where
  "retryable status idempotent \<longleftrightarrow> status = 429 \<or> status = 503 \<and> idempotent"

text \<open>\<open>str::parse::<u64>\<close>.\<close>

definition parse_u64 :: "string \<Rightarrow> nat option" where
  "parse_u64 s =
     (let ds = (case s of c # cs \<Rightarrow> if c = CHR ''+'' then cs else s | [] \<Rightarrow> [])
      in if ds = [] \<or> \<not> all_digits ds \<or> u64_top < undecimal ds then None else Some (undecimal ds))"

text \<open>The \<open>httpdate\<close> crate gives the instant a date names; \<open>duration_since\<close> refuses one that has passed.\<close>

definition retry_after :: "(string \<Rightarrow> int option) \<Rightarrow> string \<Rightarrow> int \<Rightarrow> nanos option" where
  "retry_after httpdate v now =
     (let v = str_trim v;
          asked = (case parse_u64 v of
              Some s \<Rightarrow> Some (seconds s)
            | None \<Rightarrow> (case httpdate v of None \<Rightarrow> None | Some t \<Rightarrow> if t < now then None else Some (nat (t - now))))
      in case asked of None \<Rightarrow> None | Some d \<Rightarrow> if d = 0 then None else Some d)"

lemma scale_le: "scale spread entropy \<le> spread"
proof -
  have "0 < min (min spread u64_top + 1) u64_top" by (simp add: u64_top_def)
  then have "scale spread entropy < min (min spread u64_top + 1) u64_top" unfolding scale_def by (rule mod_less_divisor)
  then show ?thesis by linarith
qed

lemma next_delay_Some:
  assumes "next_delay p a entropy = Some d"
  shows "at_throttled a" "at_number a + 1 < unat (rp_attempts p)" "sat_nanos (at_waited a + d) \<le> rp_budget p"
    "\<And>asked. at_retry_after a = Some asked \<Longrightarrow> asked \<le> d \<and> asked \<le> rp_absorbs_stated p \<and> d \<le> asked + min (asked div 4) (seconds 1)"
    "at_retry_after a = None \<Longrightarrow> d \<le> rp_ceiling p"
proof -
  let ?m = "min (sat_nanos (rp_base p * 2 ^ min (at_number a) 20)) (rp_ceiling p)"
  have half: "?m div 2 + scale (?m div 2) entropy \<le> rp_ceiling p" using scale_le [of "?m div 2" entropy] by linarith
  show "at_throttled a" "sat_nanos (at_waited a + d) \<le> rp_budget p" "at_retry_after a = None \<Longrightarrow> d \<le> rp_ceiling p"
    using assms half by (auto simp: next_delay_def Let_def split: if_splits option.splits)
  have "unat (rp_attempts p) < 2 ^ 32" using unsigned_less [of "rp_attempts p"] by simp
  then show "at_number a + 1 < unat (rp_attempts p)"
    using assms by (auto simp: next_delay_def Let_def min_def split: if_splits)
  show "asked \<le> d \<and> asked \<le> rp_absorbs_stated p \<and> d \<le> asked + min (asked div 4) (seconds 1)" if "at_retry_after a = Some asked" for asked
    using assms that scale_le [of "min (asked div 4) (seconds 1)" entropy] by (auto simp: next_delay_def Let_def split: if_splits)
qed

lemma next_delay_number: "next_delay p a entropy = Some d \<Longrightarrow> at_number a + 1 < unat (rp_attempts p) \<and> unat (rp_attempts p) < 2 ^ 32"
  using next_delay_Some(2) unsigned_less [of "rp_attempts p"] by auto

section \<open>Pacing\<close>

record pace =
  pa_units :: nat
  pa_per :: nanos
  pa_paid_off :: "int option"

definition pace_new :: "nat \<Rightarrow> nanos \<Rightarrow> pace" where
  "pace_new units per = \<lparr>pa_units = max units 1, pa_per = per, pa_paid_off = None\<rparr>"

definition pace_stated :: "pace \<Rightarrow> nat \<times> nanos" where
  "pace_stated p = (pa_units p, pa_per p)"

definition is_slower :: "nat \<Rightarrow> nanos \<Rightarrow> pace \<Rightarrow> bool" where
  "is_slower units per p \<longleftrightarrow> max units 1 * pa_per p < pa_units p * per"

definition restate :: "nat \<Rightarrow> nanos \<Rightarrow> pace \<Rightarrow> pace" where
  "restate units per p = p\<lparr>pa_units := max units 1, pa_per := per\<rparr>"

definition burst_share :: nat where "burst_share = 10"

definition burst :: "pace \<Rightarrow> nat" where
  "burst p = max (pa_units p div burst_share) 1"

definition div_ceil :: "nat \<Rightarrow> nat \<Rightarrow> nat" where
  "div_ceil a b = (a + b - 1) div b"

definition interval :: "pace \<Rightarrow> nanos" where
  "interval p = min (div_ceil (pa_per p) (max (pa_units p - burst p) 1)) u64_top"

definition nanos_mul :: "nanos \<Rightarrow> nat \<Rightarrow> nanos option" where
  "nanos_mul d n = (if d * n \<le> nanos_max then Some (d * n) else None)"

definition reserve :: "nat \<Rightarrow> int \<Rightarrow> pace \<Rightarrow> (nanos \<times> pace) option" where
  "reserve cost now p =
     (let start = (case pa_paid_off p of None \<Rightarrow> now | Some paid_off \<Rightarrow> max paid_off now) in
      case nanos_mul (interval p) cost of
        None \<Rightarrow> None
      | Some owed \<Rightarrow>
          (let paid_off = start + int owed in
           if instant_max < paid_off then None
           else case nanos_mul (interval p) (burst p) of
               None \<Rightarrow> None
             | Some slack \<Rightarrow>
                 (let ready = paid_off - int slack in
                  Some (if ready < instant_min then 0 else nat (ready - now), p\<lparr>pa_paid_off := Some paid_off\<rparr>))))"

text \<open>\<open>RequestGate::pace_to\<close> and \<open>RequestGate::spend\<close>; the second answers the wait, if there is a pace.\<close>

definition pace_to :: "nat \<Rightarrow> nanos \<Rightarrow> pace option \<Rightarrow> pace option" where
  "pace_to units per pace = (case pace of
      Some current \<Rightarrow> if is_slower units per current then Some (restate units per current) else Some current
    | None \<Rightarrow> Some (pace_new units per))"

definition spend :: "nat \<Rightarrow> int \<Rightarrow> pace option \<Rightarrow> (nanos \<times> pace option) option" where
  "spend units now pace =
     (if units = 0 then Some (0, pace)
      else case pace of
          None \<Rightarrow> Some (0, None)
        | Some p \<Rightarrow> map_option (\<lambda>(wait, p). (wait, Some p)) (reserve units now p))"

section \<open>Requests in flight\<close>

record gate_state =
  gt_limit :: "nat option"
  gt_in_flight :: nat

definition gate_new :: gate_state where "gate_new = \<lparr>gt_limit = None, gt_in_flight = 0\<rparr>"

definition narrow_to :: "nat \<Rightarrow> gate_state \<Rightarrow> gate_state" where
  "narrow_to limit g =
     (let limit = max limit 1 in
      if is_none_or (gt_limit g) (\<lambda>current. limit < current) then g\<lparr>gt_limit := Some limit\<rparr> else g)"

text \<open>One turn of the loop of \<open>acquire\<close>: a permit, or wait to be woken.\<close>

definition try_acquire :: "gate_state \<Rightarrow> gate_state option" where
  "try_acquire g =
     (if is_none_or (gt_limit g) (\<lambda>limit. gt_in_flight g < limit) then Some (g\<lparr>gt_in_flight := gt_in_flight g + 1\<rparr>) else None)"

definition permit_drop :: "gate_state \<Rightarrow> gate_state option" where
  "permit_drop g = (if gt_in_flight g = 0 then None else Some (g\<lparr>gt_in_flight := gt_in_flight g - 1\<rparr>))"

section \<open>What a pace lets through\<close>

text \<open>The calls of one account in the order they asked: what each costs and when it asked, then when it went.\<close>

fun run_pace :: "(nat \<times> int) list \<Rightarrow> pace \<Rightarrow> ((nat \<times> int) list \<times> pace) option" where
  "run_pace [] p = Some ([], p)"
| "run_pace ((cost, now) # asks) p =
     (case reserve cost now p of
        None \<Rightarrow> None
      | Some (wait, p) \<Rightarrow> (case run_pace asks p of None \<Rightarrow> None | Some (sents, p) \<Rightarrow> Some ((cost, now + int wait) # sents, p)))"

definition sent_between :: "int \<Rightarrow> int \<Rightarrow> (nat \<times> int) list \<Rightarrow> nat" where
  "sent_between lo to sents = sum_list (map fst (filter (\<lambda>(c, t). lo \<le> t \<and> t < to) sents))"

lemma reserve_facts:
  assumes "reserve cost now p = Some (wait, p')" "instant_min \<le> now" "cost \<le> burst p"
  obtains start paid where "p' = p\<lparr>pa_paid_off := Some paid\<rparr>" "paid = start + int (interval p * cost)" "now + int wait \<le> start"
    "paid \<le> now + int wait + int (interval p * burst p)" "\<And>paid0. pa_paid_off p = Some paid0 \<Longrightarrow> paid0 \<le> start"
proof -
  let ?start = "case pa_paid_off p of None \<Rightarrow> now | Some paid_off \<Rightarrow> max paid_off now"
  have start: "now \<le> ?start" "\<And>paid0. pa_paid_off p = Some paid0 \<Longrightarrow> paid0 \<le> ?start" by (auto split: option.splits)
  have le: "interval p * cost \<le> interval p * burst p" using assms(3) by (rule mult_le_mono2)
  from assms(1) have r: "p' = p\<lparr>pa_paid_off := Some (?start + int (interval p * cost))\<rparr>"
    "wait = (if ?start + int (interval p * cost) - int (interval p * burst p) < instant_min then 0
       else nat (?start + int (interval p * cost) - int (interval p * burst p) - now))"
    by (auto simp: reserve_def nanos_mul_def Let_def simp del: of_nat_mult split: if_splits)
  show ?thesis
    by (rule that [OF r(1) refl _ _ start(2)]) (use r(2) start(1) le assms(2) in \<open>auto simp del: of_nat_mult\<close>)
qed

text \<open>
  Everything sent from an instant on is owed beyond it, so what goes within a window fits into the window and
  one burst.
\<close>

lemma run_pace_window:
  assumes "run_pace asks p = Some (sents, p')"
    and "list_all (\<lambda>(c, now). c \<le> burst p \<and> instant_min \<le> now) asks"
    and "w = 0 \<or> (\<exists>paid. pa_paid_off p = Some paid \<and> int (interval p * w) \<le> paid - lo)"
    and "v \<le> w"
    and "v = 0 \<or> int (interval p * v) < int (pa_per p) + int (interval p * burst p)"
  shows "v + sent_between lo (lo + int (pa_per p)) sents = 0 \<or>
    int (interval p * (v + sent_between lo (lo + int (pa_per p)) sents)) < int (pa_per p) + int (interval p * burst p)"
  using assms
proof (induction asks arbitrary: p sents v w)
  case Nil
  then show ?case by (simp add: sent_between_def)
next
  case (Cons ask asks)
  obtain cost now where ask: "ask = (cost, now)" by (cases ask)
  from Cons.prems(1) obtain wait p1 sents1 where r: "reserve cost now p = Some (wait, p1)" "run_pace asks p1 = Some (sents1, p')"
    "sents = (cost, now + int wait) # sents1" by (auto simp: ask split: option.splits prod.splits)
  obtain start paid where f: "p1 = p\<lparr>pa_paid_off := Some paid\<rparr>" "paid = start + int (interval p * cost)" "now + int wait \<le> start"
    "paid \<le> now + int wait + int (interval p * burst p)" "\<And>paid0. pa_paid_off p = Some paid0 \<Longrightarrow> paid0 \<le> start"
    by (rule reserve_facts [OF r(1)]) (use Cons.prems(2) in \<open>simp_all add: ask\<close>)
  have same: "burst p1 = burst p" "interval p1 = interval p" "pa_per p1 = pa_per p" "pa_paid_off p1 = Some paid"
    by (simp_all add: f(1) burst_def interval_def)
  let ?t = "now + int wait"
  let ?w = "if lo \<le> ?t then w + cost else w"
  let ?v = "if lo \<le> ?t \<and> ?t < lo + int (pa_per p) then v + cost else v"
  have w: "?w = 0 \<or> int (interval p * ?w) \<le> paid - lo"
  proof (cases "w = 0")
    case True
    then show ?thesis using f(2,3) by auto
  next
    case False
    then obtain paid0 where "pa_paid_off p = Some paid0" "int (interval p * w) \<le> paid0 - lo" using Cons.prems(3) by blast
    moreover have "int (interval p * (w + cost)) = int (interval p * w) + int (interval p * cost)" by (simp add: distrib_left)
    ultimately show ?thesis using f(5) [of paid0] f(2) by (auto simp del: of_nat_mult)
  qed
  have v: "?v = 0 \<or> int (interval p * ?v) < int (pa_per p) + int (interval p * burst p)"
  proof (cases "lo \<le> ?t \<and> ?t < lo + int (pa_per p)")
    case True
    have "int (interval p * ?v) \<le> int (interval p * ?w)" using Cons.prems(4) True by (simp add: mult_left_mono)
    with w True f(4) Cons.prems(4) show ?thesis by auto
  next
    case False
    with Cons.prems(5) show ?thesis by auto
  qed
  have "v + sent_between lo (lo + int (pa_per p)) sents = ?v + sent_between lo (lo + int (pa_per p)) sents1"
    by (auto simp: sent_between_def r(3))
  with Cons.IH [OF r(2), of ?w ?v] Cons.prems(2,4) w v same show ?case by (auto simp: ask)
qed

lemma div_ceil_bounds:
  assumes "0 < b"
  shows "a \<le> b * div_ceil a b" "div_ceil a b \<le> a"
proof -
  have "a + b - 1 < b + b * ((a + b - 1) div b)" using assms by (rule dividend_less_times_div)
  then show "a \<le> b * div_ceil a b" using assms unfolding div_ceil_def by linarith
  show "div_ceil a b \<le> a"
  proof (cases a)
    case 0
    then show ?thesis using assms by (simp add: div_ceil_def)
  next
    case (Suc n)
    have "a + b - 1 \<le> a * b" using assms Suc by (cases b) simp_all
    then have "(a + b - 1) div b \<le> a * b div b" by (rule div_le_mono)
    then show ?thesis using assms by (simp add: div_ceil_def)
  qed
qed

lemma interval_covers: "pa_per p \<le> u64_top \<Longrightarrow> pa_per p \<le> interval p * max (pa_units p - burst p) 1"
proof -
  let ?s = "max (pa_units p - burst p) 1"
  assume "pa_per p \<le> u64_top"
  then have "interval p = div_ceil (pa_per p) ?s" using div_ceil_bounds(2) [of ?s "pa_per p"] unfolding interval_def by linarith
  then show ?thesis using div_ceil_bounds(1) [of ?s "pa_per p"] by (simp add: mult.commute)
qed

lemma pace_fits:
  assumes "run_pace asks p = Some (sents, p')" "list_all (\<lambda>(c, now). c \<le> burst p \<and> instant_min \<le> now) asks"
    "0 < pa_units p" "pa_per p \<le> u64_top"
  shows "sent_between lo (lo + int (pa_per p)) sents \<le> pa_units p"
proof -
  let ?v = "sent_between lo (lo + int (pa_per p)) sents" and ?s = "max (pa_units p - burst p) 1"
  from run_pace_window [OF assms(1,2), of 0 lo 0]
  have "?v = 0 \<or> interval p * ?v < pa_per p + interval p * burst p" by (auto simp flip: of_nat_mult of_nat_add)
  moreover have "pa_per p \<le> interval p * ?s" using interval_covers [OF assms(4)] .
  ultimately have "?v = 0 \<or> interval p * ?v < interval p * (?s + burst p)" by (auto simp: distrib_left)
  then have "?v = 0 \<or> ?v < ?s + burst p" using nat_mult_less_cancel_disj by blast
  moreover have "?s + burst p \<le> pa_units p + 1" using assms(3) by (auto simp: burst_def burst_share_def)
  ultimately show ?thesis by linarith
qed

section \<open>Lanes\<close>

text \<open>What happens to a gate: its limit is lowered, a permit is asked for, a permit is given back.\<close>

datatype gate_event = Narrow nat | Acquire | Give_back

text \<open>A gate and the permits that are out.\<close>

inductive gate_run :: "gate_event list \<Rightarrow> gate_state \<Rightarrow> nat \<Rightarrow> bool" where
  fresh: "gate_run [] gate_new 0"
| narrowed: "gate_run es g n \<Longrightarrow> gate_run (es @ [Narrow l]) (narrow_to l g) n"
| granted: "gate_run es g n \<Longrightarrow> try_acquire g = Some g' \<Longrightarrow> gate_run (es @ [Acquire]) g' (n + 1)"
| waiting: "gate_run es g n \<Longrightarrow> try_acquire g = None \<Longrightarrow> gate_run (es @ [Acquire]) g n"
| returned: "gate_run es g (n + 1) \<Longrightarrow> permit_drop g = Some g' \<Longrightarrow> gate_run (es @ [Give_back]) g' n"

lemma gate_counts: "gate_run es g n \<Longrightarrow> gt_in_flight g = n"
  by (induction rule: gate_run.induct)
    (auto simp: gate_new_def narrow_to_def try_acquire_def permit_drop_def Let_def split: if_splits)

text \<open>A limit stays at or below every one named, and permits out exceed it only while they were out before it.\<close>

lemma gate_limit_low:
  "gate_run es g n \<Longrightarrow> Narrow l \<in> set es \<Longrightarrow> \<exists>k. gt_limit g = Some k \<and> k \<le> max l 1"
proof (induction rule: gate_run.induct)
  case (narrowed es g n l')
  then show ?case by (cases "gt_limit g") (auto simp: narrow_to_def Let_def is_none_or_def)
qed (auto simp: try_acquire_def permit_drop_def split: if_splits)

end
