(* ===== verification/Http_Send.thy ===== *)
theory Http_Send
  imports Http_Policy Provider_Api
begin

text \<open>
  The send funnel of the HTTP adapters (\<open>engine-http/src/send.rs\<close>): sending, waiting out a throttle and sending
  again; and one exchange under it (\<open>deadline.rs\<close>, \<open>hand_over.rs\<close>): a request body handed over piece by piece, whose
  last piece, when the request submits a message, goes only once the hand-over is recorded. What the HTTP client
  answers to each send, the clock and the entropy are the environment.
\<close>

section \<open>Errors\<close>

text \<open>What the code asks of an error of the HTTP client.\<close>

record http_error =
  he_is_connect :: bool
  he_is_builder :: bool
  he_is_timeout :: bool
  he_is_decode :: bool
  he_text :: string

datatype send_cause = HttpCause http_error | Silent string nanos | Withheld string

datatype reached = NotWhole | Possibly

record send_error =
  er_cause :: send_cause
  er_reached :: reached

definition send_error_http :: "http_error \<Rightarrow> reached \<Rightarrow> send_error" where
  "send_error_http e r = \<lparr>er_cause = HttpCause e, er_reached = (if he_is_connect e \<or> he_is_builder e then NotWhole else r)\<rparr>"

definition send_error_silent :: "string \<Rightarrow> nanos \<Rightarrow> reached \<Rightarrow> send_error" where
  "send_error_silent what waited r = \<lparr>er_cause = Silent what waited, er_reached = r\<rparr>"

definition send_error_withheld :: "string \<Rightarrow> send_error" where
  "send_error_withheld detail = \<lparr>er_cause = Withheld detail, er_reached = NotWhole\<rparr>"

definition send_is_timeout :: "send_error \<Rightarrow> bool" where
  "send_is_timeout e \<longleftrightarrow> (case er_cause e of HttpCause h \<Rightarrow> he_is_timeout h | Silent _ _ \<Rightarrow> True | Withheld _ \<Rightarrow> False)"

definition send_is_decode :: "send_error \<Rightarrow> bool" where
  "send_is_decode e \<longleftrightarrow> (case er_cause e of HttpCause h \<Rightarrow> he_is_decode h | _ \<Rightarrow> False)"

definition may_have_been_received :: "send_error \<Rightarrow> bool" where
  "may_have_been_received e \<longleftrightarrow> er_reached e = Possibly"

definition gateway_without_answer :: "nat \<Rightarrow> bool" where
  "gateway_without_answer status \<longleftrightarrow> status = 502 \<or> status = 504"

section \<open>Waiting out a throttle\<close>

datatype throttle = Throttle (stated_wait: "nanos option")

record throttle_classifier =
  cf_reads_body_of :: "nat \<Rightarrow> bool"
  cf_throttle :: "nat \<Rightarrow> string \<Rightarrow> throttle option"

definition status_alone :: throttle_classifier where
  "status_alone = \<lparr>cf_reads_body_of = (\<lambda>_. False), cf_throttle = (\<lambda>_ _. None)\<rparr>"

text \<open>A reply: its status, its \<open>Retry-After\<close> where it is readable text, and what reading its body gives.\<close>

record http_reply =
  hr_status :: nat
  hr_retry_after :: "string option"
  hr_body :: "(send_error, string) result"

record sent_reply =
  sn_reply :: http_reply
  sn_body :: "string option"
  sn_stated :: "nanos option"

text \<open>What the observer is told, without the adapter's label, which is constant and only a log reads.\<close>

record throttle_event =
  te_status :: nat
  te_attempt :: nat
  te_delay :: nanos
  te_stated :: "nanos option"
  te_gave_up :: bool

text \<open>What the client answers to the n-th send, whether that request can be sent again, and the clock and entropy read after it.\<close>

record http_env =
  hv_send :: "nat \<Rightarrow> (send_error, http_reply) result"
  hv_replay :: "nat \<Rightarrow> bool"
  hv_now :: "nat \<Rightarrow> int"
  hv_entropy :: "nat \<Rightarrow> nat"
  hv_httpdate :: "string \<Rightarrow> int option"

text \<open>Whether a reply is waited out, with the body if it was read and the wait a body named.\<close>

datatype verdict = Hand_back "(send_error, sent_reply) result" | Throttled "string option" "nanos option"

definition judge :: "throttle_classifier \<Rightarrow> bool \<Rightarrow> http_reply \<Rightarrow> verdict" where
  "judge cls idempotent r =
     (if retryable (hr_status r) idempotent then Throttled None None
      else if cf_reads_body_of cls (hr_status r) then
        (case hr_body r of
           Inl e \<Rightarrow> Hand_back (Inl e)
         | Inr body \<Rightarrow> (case cf_throttle cls (hr_status r) body of
               Some th \<Rightarrow> Throttled (Some body) (stated_wait th)
             | None \<Rightarrow> Hand_back (Inr \<lparr>sn_reply = r, sn_body = Some body, sn_stated = None\<rparr>)))
      else Hand_back (Inr \<lparr>sn_reply = r, sn_body = None, sn_stated = None\<rparr>))"

definition reply_wait :: "http_env \<Rightarrow> nat \<Rightarrow> http_reply \<Rightarrow> nanos option \<Rightarrow> nanos option" where
  "reply_wait env number r stated = (case stated of
      Some w \<Rightarrow> Some w
    | None \<Rightarrow> (case hr_retry_after r of None \<Rightarrow> None | Some v \<Rightarrow> retry_after (hv_httpdate env) v (hv_now env number)))"

text \<open>What the loop does to the outside, in order: the n-th send, a report to the observer, a sleep.\<close>

datatype http_act = HSend nat | HReport throttle_event | HSleep nanos

function send_loop ::
  "http_env \<Rightarrow> retry_policy \<Rightarrow> throttle_classifier \<Rightarrow> bool \<Rightarrow> nat \<Rightarrow> nanos \<Rightarrow>
   (send_error, sent_reply) result \<times> http_act list" where
  "send_loop env p cls idempotent number waited =
     (case hv_send env number of
        Inl e \<Rightarrow> (Inl e, [HSend number])
      | Inr r \<Rightarrow> (case judge cls idempotent r of
          Hand_back answer \<Rightarrow> (answer, [HSend number])
        | Throttled body stated \<Rightarrow>
            (let after = reply_wait env number r stated;
                 gave_up = HReport \<lparr>te_status = hr_status r, te_attempt = number, te_delay = waited, te_stated = after, te_gave_up = True\<rparr>;
                 answer = Inr \<lparr>sn_reply = r, sn_body = body, sn_stated = after\<rparr> in
             case next_delay p \<lparr>at_throttled = True, at_retry_after = after, at_number = number, at_waited = waited\<rparr> (hv_entropy env number) of
               Some wait \<Rightarrow>
                 if hv_replay env number then
                   (case send_loop env p cls idempotent (min (number + 1) (2 ^ 32 - 1)) (sat_nanos (waited + wait)) of
                      (answer, acts) \<Rightarrow>
                        (answer, HSend number #
                           HReport \<lparr>te_status = hr_status r, te_attempt = number, te_delay = wait, te_stated = after, te_gave_up = False\<rparr> #
                           HSleep wait # acts))
                 else (answer, [HSend number, gave_up])
             | None \<Rightarrow> (answer, [HSend number, gave_up]))))"
  by pat_completeness auto

termination
  by (relation "measure (\<lambda>(env, p, cls, idempotent, number, waited). unat (rp_attempts p) - number)")
    (auto dest!: next_delay_number simp: min_def)

declare send_loop.simps [simp del]

text \<open>\<open>send_retrying\<close> starts with nothing sent and nothing waited.\<close>

definition send_retrying ::
  "http_env \<Rightarrow> retry_policy \<Rightarrow> throttle_classifier \<Rightarrow> bool \<Rightarrow> (send_error, sent_reply) result \<times> http_act list" where
  "send_retrying env p cls idempotent = send_loop env p cls idempotent 0 0"

section \<open>A body in pieces\<close>

definition piece :: nat where "piece = 16 * 1024"

datatype gate_door = Closed | Asked | Open | Refused string

datatype open_poll = PollPending | PollOpened | PollWithheld

definition poll_open :: "gate_door \<Rightarrow> open_poll \<times> gate_door" where
  "poll_open g = (case g of Open \<Rightarrow> (PollOpened, g) | Refused _ \<Rightarrow> (PollWithheld, g) | Closed \<Rightarrow> (PollPending, Asked) | Asked \<Rightarrow> (PollPending, Asked))"

definition gate_refusal :: "gate_door \<Rightarrow> string option" where
  "gate_refusal g = (case g of Refused detail \<Rightarrow> Some detail | _ \<Rightarrow> None)"

record body_pieces =
  pc_rest :: string
  pc_whole :: bool
  pc_moved :: int
  pc_gate :: "gate_door option"

datatype frame = FPending | FEnd | FData string | FWithheld

definition take_piece :: "int \<Rightarrow> body_pieces \<Rightarrow> frame \<times> body_pieces" where
  "take_piece now b =
     (let n = min (length (pc_rest b)) piece; rest = drop n (pc_rest b)
      in (FData (take n (pc_rest b)), b\<lparr>pc_rest := rest, pc_moved := now, pc_whole := pc_whole b \<or> rest = []\<rparr>))"

definition poll_frame :: "int \<Rightarrow> body_pieces \<Rightarrow> frame \<times> body_pieces" where
  "poll_frame now b =
     (if pc_rest b = [] then (FEnd, b)
      else case (if length (pc_rest b) \<le> piece then pc_gate b else None) of
          None \<Rightarrow> take_piece now b
        | Some g \<Rightarrow> (case poll_open g of
              (PollPending, g) \<Rightarrow> (FPending, b\<lparr>pc_gate := Some g\<rparr>)
            | (PollWithheld, g) \<Rightarrow> (FWithheld, b)
            | (PollOpened, g) \<Rightarrow> take_piece now b))"

definition progress_reached :: "body_pieces \<Rightarrow> reached" where
  "progress_reached b = (if pc_whole b then Possibly else NotWhole)"

definition track :: "string \<Rightarrow> bool \<Rightarrow> int \<Rightarrow> body_pieces" where
  "track body gated now =
     (if body = [] then \<lparr>pc_rest = [], pc_whole = True, pc_moved = now, pc_gate = None\<rparr>
      else \<lparr>pc_rest = body, pc_whole = False, pc_moved = now, pc_gate = (if gated then Some Closed else None)\<rparr>)"

text \<open>\<open>Gate::drive\<close> once it was asked: the hand-over is recorded, or its refusal kept.\<close>

definition drive :: "(provider_error, unit) result \<Rightarrow> gate_door" where
  "drive commit = (case commit of Inr _ \<Rightarrow> Open | Inl e \<Rightarrow> Refused (pe_detail e))"

definition exchange_failed :: "http_error \<Rightarrow> body_pieces \<Rightarrow> send_error" where
  "exchange_failed e b = (case (case pc_gate b of None \<Rightarrow> None | Some g \<Rightarrow> gate_refusal g) of
      Some detail \<Rightarrow> send_error_withheld detail
    | None \<Rightarrow> send_error_http e (progress_reached b))"

record deadlines =
  dl_dial :: nanos
  dl_reply :: nanos
  dl_stall :: nanos
  dl_submission :: nanos

definition deadlines_standard :: deadlines where
  "deadlines_standard = \<lparr>dl_dial = seconds 30, dl_reply = seconds 60, dl_stall = seconds 60, dl_submission = seconds 600\<rparr>"

definition exchange_reply :: "bool \<Rightarrow> nanos" where
  "exchange_reply submission = (if submission then dl_submission deadlines_standard else dl_reply deadlines_standard)"

text \<open>One look of \<open>quiet\<close> at the clock: the silence it reports, or nothing yet.\<close>

definition quiet_silence :: "int \<Rightarrow> nanos \<Rightarrow> body_pieces \<Rightarrow> send_error option" where
  "quiet_silence now reply b =
     (let (bound, what) = (if pc_whole b then (reply, ''the server sent nothing'') else (dl_stall deadlines_standard, ''the server took nothing''))
      in if pc_moved b + int bound \<le> now then Some (send_error_silent what bound (progress_reached b)) else None)"

text \<open>
  A submission under way: the pieces left, the bytes the client took, and the answers of the hand-over. A body
  that is empty has nothing to hold back, so its hand-over comes before the request.
\<close>

record submission_state =
  ss_pieces :: body_pieces
  ss_taken :: string
  ss_commits :: "(provider_error, unit) result list"

inductive submitting :: "string \<Rightarrow> submission_state \<Rightarrow> bool" for body where
  start: "body \<noteq> [] \<Longrightarrow> submitting body \<lparr>ss_pieces = track body True now, ss_taken = [], ss_commits = []\<rparr>"
| start_empty: "body = [] \<Longrightarrow> submitting body \<lparr>ss_pieces = track body True now, ss_taken = [], ss_commits = [Inr ()]\<rparr>"
| polled: "submitting body s \<Longrightarrow> poll_frame now (ss_pieces s) = (f, b) \<Longrightarrow>
    submitting body (s\<lparr>ss_pieces := b, ss_taken := ss_taken s @ (case f of FData d \<Rightarrow> d | _ \<Rightarrow> [])\<rparr>)"
| driven: "submitting body s \<Longrightarrow> pc_gate (ss_pieces s) = Some Asked \<Longrightarrow>
    submitting body (s\<lparr>ss_pieces := (ss_pieces s)\<lparr>pc_gate := Some (drive commit)\<rparr>, ss_commits := ss_commits s @ [commit]\<rparr>)"

section \<open>What a submission shows\<close>

definition submission_ok :: "string \<Rightarrow> submission_state \<Rightarrow> bool" where
  "submission_ok body s \<longleftrightarrow> ss_taken s @ pc_rest (ss_pieces s) = body \<and> (pc_whole (ss_pieces s) \<longleftrightarrow> pc_rest (ss_pieces s) = []) \<and>
     (case pc_gate (ss_pieces s) of
        None \<Rightarrow> body = [] \<and> ss_commits s = [Inr ()]
      | Some Closed \<Rightarrow> ss_commits s = [] \<and> pc_rest (ss_pieces s) \<noteq> []
      | Some Asked \<Rightarrow> ss_commits s = [] \<and> pc_rest (ss_pieces s) \<noteq> []
      | Some Open \<Rightarrow> ss_commits s = [Inr ()]
      | Some (Refused detail) \<Rightarrow> pc_rest (ss_pieces s) \<noteq> [] \<and> (\<exists>e. ss_commits s = [Inl e] \<and> pe_detail e = detail))"

lemma take_piece_ok:
  assumes "submission_ok body s" "take_piece now (ss_pieces s) = (f, b)" "pc_rest (ss_pieces s) \<noteq> []"
    "pc_gate (ss_pieces s) = Some Open \<or> piece < length (pc_rest (ss_pieces s))"
  shows "submission_ok body (s\<lparr>ss_pieces := b, ss_taken := ss_taken s @ (case f of FData d \<Rightarrow> d | _ \<Rightarrow> [])\<rparr>)"
proof -
  have "0 < piece" by (simp add: piece_def)
  with assms show ?thesis
    by (auto simp: submission_ok_def take_piece_def Let_def split: option.splits gate_door.splits)
qed

lemma submission_ok: "submitting body s \<Longrightarrow> submission_ok body s"
proof (induction rule: submitting.induct)
  case (polled s now f b)
  show ?case
  proof (cases "pc_rest (ss_pieces s) = [] \<or> f = FPending \<or> f = FWithheld \<or> f = FEnd")
    case True
    with polled show ?thesis
      by (auto simp: poll_frame_def take_piece_def submission_ok_def poll_open_def Let_def split: option.splits gate_door.splits if_splits)
  next
    case False
    with polled have "take_piece now (ss_pieces s) = (f, b)" "pc_gate (ss_pieces s) = Some Open \<or> piece < length (pc_rest (ss_pieces s))"
      by (auto simp: poll_frame_def poll_open_def submission_ok_def split: option.splits gate_door.splits if_splits)
    with take_piece_ok [OF polled.IH] False show ?thesis by blast
  qed
next
  case (driven s commit)
  then show ?case by (cases commit) (auto simp: submission_ok_def drive_def)
qed (auto simp: submission_ok_def track_def)

section \<open>What a retried request shows\<close>

text \<open>What of the log the server sees: the sends and the time between them.\<close>

definition on_the_wire :: "http_act list \<Rightarrow> http_act list" where
  "on_the_wire acts = filter (\<lambda>a. case a of HReport _ \<Rightarrow> False | _ \<Rightarrow> True) acts"

lemma on_the_wire_simps [simp]:
  "on_the_wire [] = []" "on_the_wire (HSend n # acts) = HSend n # on_the_wire acts"
  "on_the_wire (HSleep d # acts) = HSleep d # on_the_wire acts" "on_the_wire (HReport e # acts) = on_the_wire acts"
  by (simp_all add: on_the_wire_def)

fun sends_and_waits :: "nat \<Rightarrow> nanos list \<Rightarrow> http_act list" where
  "sends_and_waits n [] = [HSend n]"
| "sends_and_waits n (d # ds) = HSend n # HSleep d # sends_and_waits (Suc n) ds"

text \<open>A reply that refused its request, so that sending it again repeats nothing.\<close>

definition refuses :: "throttle_classifier \<Rightarrow> bool \<Rightarrow> http_reply \<Rightarrow> bool" where
  "refuses cls idempotent r \<longleftrightarrow> hr_status r = 429 \<or> hr_status r = 503 \<and> idempotent \<or>
     cf_reads_body_of cls (hr_status r) \<and> (\<exists>body th. hr_body r = Inr body \<and> cf_throttle cls (hr_status r) body = Some th)"

text \<open>
  The wait a reply asks for, read off the reply: what its body names, where the refusal was recognised there and
  names one, and otherwise its \<open>Retry-After\<close>, a number of seconds or a date, which is a wait from the clock on.
\<close>

definition body_names :: "throttle_classifier \<Rightarrow> bool \<Rightarrow> http_reply \<Rightarrow> nanos option" where
  "body_names cls idempotent r = (if hr_status r = 429 \<or> hr_status r = 503 \<and> idempotent then None
     else case hr_body r of Inl _ \<Rightarrow> None | Inr body \<Rightarrow> Option.bind (cf_throttle cls (hr_status r) body) stated_wait)"

definition header_asks :: "(string \<Rightarrow> int option) \<Rightarrow> int \<Rightarrow> string \<Rightarrow> nanos \<Rightarrow> bool" where
  "header_asks httpdate now v asked \<longleftrightarrow> (case parse_u64 (str_trim v) of
      Some s \<Rightarrow> asked = seconds s
    | None \<Rightarrow> (\<exists>t. httpdate (str_trim v) = Some t \<and> asked = nat (t - now)))"

definition server_asks :: "http_env \<Rightarrow> throttle_classifier \<Rightarrow> bool \<Rightarrow> nat \<Rightarrow> http_reply \<Rightarrow> nanos \<Rightarrow> bool" where
  "server_asks env cls idempotent n r asked \<longleftrightarrow> (case body_names cls idempotent r of
      Some w \<Rightarrow> asked = w
    | None \<Rightarrow> (\<exists>v. hr_retry_after r = Some v \<and> header_asks (hv_httpdate env) (hv_now env n) v asked))"

lemma judge_throttled:
  assumes "judge cls idempotent r = Throttled body stated"
  shows "refuses cls idempotent r" "stated = body_names cls idempotent r"
  using assms by (auto simp: judge_def retryable_def refuses_def body_names_def split: if_splits sum.splits option.splits)

lemma header_read:
  "header_asks httpdate now v asked \<Longrightarrow> retry_after httpdate v now = (if asked = 0 then None else Some asked)"
  by (auto simp: header_asks_def retry_after_def Let_def seconds_def split: option.splits)

lemma asked_is_read:
  assumes "server_asks env cls idempotent n r asked"
  shows "asked = 0 \<or> reply_wait env n r (body_names cls idempotent r) = Some asked"
  using assms by (auto simp: server_asks_def reply_wait_def header_read split: option.splits if_splits)

text \<open>One send that is followed by another: what it was answered, and how long the loop slept then.\<close>

definition replayed_rightly :: "http_env \<Rightarrow> retry_policy \<Rightarrow> throttle_classifier \<Rightarrow> bool \<Rightarrow> nat \<Rightarrow> nanos \<Rightarrow> bool" where
  "replayed_rightly env p cls idempotent n d \<longleftrightarrow> (\<exists>r. hv_send env n = Inr r \<and> hv_replay env n \<and> refuses cls idempotent r \<and>
     (\<forall>asked. server_asks env cls idempotent n r asked \<longrightarrow> asked \<le> d \<and> asked \<le> rp_absorbs_stated p))"

lemma send_loop_cases:
  assumes "send_loop env p cls idempotent number waited = (answer, acts)"
  obtains (over) "on_the_wire acts = [HSend number]" "\<forall>s. answer = Inr s \<longrightarrow> hv_send env number = Inr (sn_reply s)"
  | (again) wait acts' where "replayed_rightly env p cls idempotent number wait" "number + 1 < unat (rp_attempts p)"
      "sat_nanos (waited + wait) \<le> rp_budget p"
      "send_loop env p cls idempotent (number + 1) (sat_nanos (waited + wait)) = (answer, acts')"
      "on_the_wire acts = HSend number # HSleep wait # on_the_wire acts'"
proof (cases "hv_send env number")
  case (Inl e)
  with assms show ?thesis by (intro over) (auto simp: send_loop.simps [of env p cls idempotent number])
next
  case (Inr r)
  show ?thesis
  proof (cases "judge cls idempotent r")
    case (Hand_back x)
    with assms Inr show ?thesis
      by (intro over) (auto simp: send_loop.simps [of env p cls idempotent number] judge_def split: if_splits sum.splits option.splits)
  next
    case (Throttled body stated)
    note judged = judge_throttled [OF Throttled]
    let ?a = "\<lparr>at_throttled = True, at_retry_after = reply_wait env number r stated, at_number = number, at_waited = waited\<rparr>"
    show ?thesis
    proof (cases "\<exists>wait. next_delay p ?a (hv_entropy env number) = Some wait \<and> hv_replay env number")
      case True
      then obtain wait where wait: "next_delay p ?a (hv_entropy env number) = Some wait" "hv_replay env number" by blast
      note nd = next_delay_Some [OF wait(1)]
      from next_delay_number [OF wait(1)] have num: "number + 1 < unat (rp_attempts p)" "min (number + 1) (2 ^ 32 - 1) = number + 1" by auto
      obtain acts' where again': "send_loop env p cls idempotent (number + 1) (sat_nanos (waited + wait)) = (answer, acts')"
        "on_the_wire acts = HSend number # HSleep wait # on_the_wire acts'"
        using assms Inr Throttled wait num(2)
        by (subst (asm) send_loop.simps) (auto simp: Let_def split: prod.splits)
      have "asked \<le> wait \<and> asked \<le> rp_absorbs_stated p" if "server_asks env cls idempotent number r asked" for asked
        using asked_is_read [OF that] nd(4) [of asked] judged(2) by auto
      then have "replayed_rightly env p cls idempotent number wait"
        using Inr judged(1) wait(2) by (auto simp: replayed_rightly_def)
      with num(1) nd(3) again' show ?thesis by (intro again) simp_all
    next
      case False
      with assms Inr Throttled show ?thesis
        by (intro over; subst (asm) send_loop.simps) (auto simp: Let_def split: option.splits)
    qed
  qed
qed

lemma send_loop_waits:
  assumes "send_loop env p cls idempotent number waited = (answer, acts)" "rp_budget p < nanos_max" "waited \<le> rp_budget p"
  shows "\<exists>ds. on_the_wire acts = sends_and_waits number ds \<and>
    (\<forall>i < length ds. replayed_rightly env p cls idempotent (number + i) (ds ! i)) \<and>
    number + length ds < max (number + 1) (unat (rp_attempts p)) \<and> waited + sum_list ds \<le> rp_budget p \<and>
    (\<forall>s. answer = Inr s \<longrightarrow> hv_send env (number + length ds) = Inr (sn_reply s))"
  using assms
proof (induction "unat (rp_attempts p) - number" arbitrary: number waited acts rule: less_induct)
  case less
  from less.prems(1) show ?case
  proof (cases rule: send_loop_cases)
    case over
    with less.prems(3) show ?thesis by (intro exI [of _ "[]"]) simp
  next
    case (again wait acts')
    have sum: "sat_nanos (waited + wait) = waited + wait" "waited + wait \<le> rp_budget p"
      using again(3) less.prems(2) by (auto simp: sat_nanos_def min_def split: if_splits)
    have "unat (rp_attempts p) - (number + 1) < unat (rp_attempts p) - number" using again(2) by simp
    from less.hyps [OF this, of "waited + wait" acts'] again(2,4) sum less.prems(2)
    obtain ds where ds: "on_the_wire acts' = sends_and_waits (number + 1) ds"
      "\<forall>i < length ds. replayed_rightly env p cls idempotent (number + 1 + i) (ds ! i)"
      "number + 1 + length ds < max (number + 2) (unat (rp_attempts p))" "waited + wait + sum_list ds \<le> rp_budget p"
      "\<forall>s. answer = Inr s \<longrightarrow> hv_send env (number + 1 + length ds) = Inr (sn_reply s)" by auto
    have "replayed_rightly env p cls idempotent (number + i) ((wait # ds) ! i)" if "i < length (wait # ds)" for i
      using that ds(2) again(1) by (cases i) auto
    with ds again(2,5) show ?thesis by (intro exI [of _ "wait # ds"]) auto
  qed
qed

end
