(* ===== verification/Http_Props.thy ===== *)
theory Http_Props
  imports Http_Send
begin

text \<open>
  What holds of the HTTP transport: an account stays within its pace, a throttled request is repeated only when
  it was refused and only so often, and a submission is handed over before its last byte.
\<close>

section \<open>Pace\<close>

text \<open>
  C19. An account held to so many units per period never spends more: whatever calls ask, in whatever order, as
  long as no single call costs more than one burst, the calls that go within any span of one period cost at
  most the stated units.
\<close>
theorem pace_is_kept:
  assumes "run_pace asks (pace_new units per) = Some (sents, p)" "list_all (\<lambda>(c, now). c \<le> burst (pace_new units per) \<and> instant_min \<le> now) asks"
    "per \<le> u64_top"
  shows "sent_between lo (lo + int per) sents \<le> max units 1"
  using pace_fits [OF assms(1,2)] assms(3) by (simp add: pace_new_def)

theorem pace_is_kept_witness:
  "\<exists>sents p. run_pace [(2, 0), (1, 5), (2, 6)] (pace_new 20 1000) = Some (sents, p) \<and> sent_between 0 1000 sents \<le> 20"
proof -
  have "run_pace [(2, 0), (1, 5), (2, 6)] (pace_new 20 1000) \<noteq> None"
    by (simp add: reserve_def nanos_mul_def interval_def burst_def burst_share_def div_ceil_def pace_new_def nanos_max_def u64_top_def instant_max_def)
  then obtain sents p where r: "run_pace [(2, 0), (1, 5), (2, 6)] (pace_new 20 1000) = Some (sents, p)" by auto
  from pace_is_kept [OF r, of 0] r show ?thesis
    by (simp add: burst_def burst_share_def pace_new_def instant_min_def u64_top_def)
qed

lemma dear_pace:
  assumes "1 \<le> cost" "cost \<le> 5"
  shows "reserve cost 0 \<lparr>pa_units = 10, pa_per = 9, pa_paid_off = None\<rparr> = Some (cost - 1, \<lparr>pa_units = 10, pa_per = 9, pa_paid_off = Some (int cost)\<rparr>)"
    "0 \<le> t \<Longrightarrow> t \<le> 50 \<Longrightarrow> reserve cost 0 \<lparr>pa_units = 10, pa_per = 9, pa_paid_off = Some t\<rparr> =
       Some (nat t + cost - 1, \<lparr>pa_units = 10, pa_per = 9, pa_paid_off = Some (t + int cost)\<rparr>)"
  using assms by (auto simp: reserve_def Let_def nanos_mul_def interval_def burst_def burst_share_def div_ceil_def nanos_max_def u64_top_def
      instant_max_def instant_min_def)

text \<open>
  A call that costs more than a burst breaks the bound: after one of five units, eight of one unit go within the same
  period of nine, and thirteen units are spent where ten were stated.
\<close>
theorem dear_call_overruns_pace:
  "map_option (\<lambda>(sents, p). sent_between 4 13 sents) (run_pace [(5, 0), (1, 0), (1, 0), (1, 0), (1, 0), (1, 0), (1, 0), (1, 0), (1, 0)] (pace_new 10 9)) = Some 13"
  by (simp add: dear_pace pace_new_def sent_between_def)

section \<open>Repeating a request\<close>

text \<open>
  C13. A request is repeated only where repeating it is safe, and only so often. What goes over the wire is the
  first send, a sleep, the second send, a sleep, and so on. A send is followed by another only when the server's
  reply to it refused it (status 429, a refusal the adapter recognised in the body, or a 503 to an idempotent
  request) and the request can be sent again; the sleep between the two is at least the wait that reply asked
  for, in its body or as seconds or a date in its \<open>Retry-After\<close>, and a reply that asks for more than the policy
  absorbs is not followed by a send. The sends number at most the policy's attempts, or one, the sleeps add up
  to at most its budget, and a reply that is handed back is the reply to the last send.
\<close>
theorem replayed_only_when_refused:
  assumes "send_retrying env p cls idempotent = (answer, acts)" "rp_budget p < nanos_max"
  shows "\<exists>ds. on_the_wire acts = sends_and_waits 0 ds \<and>
    (\<forall>i < length ds. \<exists>r. hv_send env i = Inr r \<and> hv_replay env i \<and> refuses cls idempotent r \<and>
       (\<forall>asked. server_asks env cls idempotent i r asked \<longrightarrow> asked \<le> ds ! i \<and> asked \<le> rp_absorbs_stated p)) \<and>
    length ds + 1 \<le> max 1 (unat (rp_attempts p)) \<and> sum_list ds \<le> rp_budget p \<and>
    (\<forall>s. answer = Inr s \<longrightarrow> hv_send env (length ds) = Inr (sn_reply s))"
  using send_loop_waits [OF assms(1) [unfolded send_retrying_def] assms(2)] unfolding replayed_rightly_def by (auto simp: Suc_le_eq)

definition sample_http :: http_env where
  "sample_http = \<lparr>hv_send = (\<lambda>n. Inr \<lparr>hr_status = if n = 0 then 429 else 200, hr_retry_after = Some ''2'', hr_body = Inr []\<rparr>), hv_replay = (\<lambda>_. True),
     hv_now = (\<lambda>_. 0), hv_entropy = (\<lambda>_. 7), hv_httpdate = (\<lambda>_. None)\<rparr>"

lemma sample_asked: "parse_u64 (str_trim ''2'') = Some 2"
proof -
  have "str_trim ''2'' = ''2''" by code_simp
  then show ?thesis by (simp add: parse_u64_def is_digit_def digit_value_def undecimal_def u64_top_def)
qed

theorem replayed_only_when_refused_witness:
  "\<exists>d. on_the_wire (snd (send_retrying sample_http policy_default status_alone False)) = [HSend 0, HSleep d, HSend 1] \<and> seconds 2 \<le> d"
proof -
  let ?r = "send_retrying sample_http policy_default status_alone False"
  have budget: "rp_budget policy_default < nanos_max" by (simp add: policy_default_def seconds_def nanos_max_def u64_top_def)
  obtain ds where ds: "on_the_wire (snd ?r) = sends_and_waits 0 ds"
    "\<forall>i < length ds. \<exists>r. hv_send sample_http i = Inr r \<and> hv_replay sample_http i \<and> refuses status_alone False r \<and>
       (\<forall>asked. server_asks sample_http status_alone False i r asked \<longrightarrow> asked \<le> ds ! i \<and> asked \<le> rp_absorbs_stated policy_default)"
    using replayed_only_when_refused [OF prod.collapse [symmetric] budget, of sample_http status_alone False] by blast
  have "length (on_the_wire (snd ?r)) = 3"
    by (simp add: send_retrying_def send_loop.simps sample_http_def judge_def retryable_def status_alone_def Let_def next_delay_def reply_wait_def
        retry_after_def sample_asked policy_default_def seconds_def sat_nanos_def scale_def nanos_max_def u64_top_def)
  then obtain d where d: "ds = [d]" using ds(1) by (cases ds; cases "tl ds") auto
  have "server_asks sample_http status_alone False 0 \<lparr>hr_status = 429, hr_retry_after = Some ''2'', hr_body = Inr []\<rparr> (seconds 2)"
    by (simp add: server_asks_def body_names_def header_asks_def sample_asked)
  with ds(2) d have "seconds 2 \<le> d" by (auto simp: sample_http_def)
  with ds(1) d show ?thesis by auto
qed

section \<open>Submitting a message\<close>

text \<open>
  C12. The last byte of a submission is the point of no return. However the client polls the body and whenever the
  hand-over is answered: the client has taken the whole body only if the hand-over was recorded, exactly once and
  before; a failure that says the request may have been received is one whose hand-over was recorded; and a
  refused hand-over leaves bytes untaken and fails as withheld.
\<close>
theorem submission_committed_before_its_end:
  assumes "submitting body s"
  shows "(ss_taken s = body \<longrightarrow> ss_commits s = [Inr ()]) \<and>
    (may_have_been_received (exchange_failed e (ss_pieces s)) \<longrightarrow> ss_commits s = [Inr ()]) \<and>
    (\<forall>err. Inl err \<in> set (ss_commits s) \<longrightarrow>
       ss_taken s \<noteq> body \<and> exchange_failed e (ss_pieces s) = send_error_withheld (pe_detail err))"
  using submission_ok [OF assms]
  by (auto simp: submission_ok_def exchange_failed_def may_have_been_received_def send_error_withheld_def send_error_http_def
      progress_reached_def gate_refusal_def split: option.splits gate_door.splits if_splits)

theorem submission_committed_before_its_end_witness:
  "\<exists>s :: submission_state. ss_taken s = ''hi'' \<and> ss_commits s = [Inr ()] \<and> pc_rest (ss_pieces s) = []"
proof -
  let ?s0 = "\<lparr>ss_pieces = track ''hi'' True 0, ss_taken = [], ss_commits = []\<rparr>"
  let ?s1 = "?s0\<lparr>ss_pieces := (track ''hi'' True 0)\<lparr>pc_gate := Some Asked\<rparr>, ss_taken := []\<rparr>"
  let ?s2 = "?s1\<lparr>ss_pieces := (track ''hi'' True 0)\<lparr>pc_gate := Some Open\<rparr>, ss_commits := [Inr ()]\<rparr>"
  let ?s3 = "?s2\<lparr>ss_pieces := \<lparr>pc_rest = [], pc_whole = True, pc_moved = 1, pc_gate = Some Open\<rparr>, ss_taken := ''hi''\<rparr>"
  have "submitting ''hi'' ?s0" by (rule submitting.start) simp
  from submitting.polled [OF this, of 0 FPending "(track ''hi'' True 0)\<lparr>pc_gate := Some Asked\<rparr>"]
  have "submitting ''hi'' ?s1" by (simp add: poll_frame_def track_def piece_def poll_open_def)
  from submitting.driven [OF this, of "Inr ()"] have "submitting ''hi'' ?s2" by (simp add: track_def drive_def)
  from submitting.polled [OF this, of 1 "FData ''hi''" "\<lparr>pc_rest = [], pc_whole = True, pc_moved = 1, pc_gate = Some Open\<rparr>"]
  have "submitting ''hi'' ?s3" by (simp add: poll_frame_def take_piece_def track_def piece_def poll_open_def)
  then have "ss_commits ?s3 = [Inr ()]" using submission_committed_before_its_end [of "''hi''" ?s3] by simp
  then show ?thesis by (intro exI [of _ ?s3]) simp
qed

section \<open>Lanes\<close>

text \<open>
  Permits out are counted exactly, and no limit named is ever exceeded by a new permit: after the gate was
  narrowed, a permit is granted only below that limit.
\<close>
theorem lanes_are_counted:
  assumes "gate_run es g n" "Narrow l \<in> set es"
  shows "gt_in_flight g = n \<and> (try_acquire g \<noteq> None \<longrightarrow> n < max l 1)"
  using gate_counts [OF assms(1)] gate_limit_low [OF assms] by (auto simp: try_acquire_def is_none_or_def split: if_splits)

end
