(* ===== verification/Civil.thy ===== *)
theory Civil
  imports Time_Text "HOL-Library.Product_Lexorder"
begin

text \<open>
  Civil dates. Recurrence works on the dates of the \<open>jiff\<close> library, which is a parameter (\<open>civil\<close>): making a date,
  stepping by days, the weekday, the length of a month, the n-th weekday of a month. What is relied on of it is
  \<open>civil_ok\<close>: its documented agreement with the proleptic Gregorian calendar, stated with the day number of a date.
\<close>

section \<open>Day numbers\<close>

definition leap :: "int \<Rightarrow> bool" where
  "leap y \<longleftrightarrow> 4 dvd y \<and> (\<not> 100 dvd y \<or> 400 dvd y)"

definition month_length :: "int \<Rightarrow> nat \<Rightarrow> nat" where
  "month_length y m = (if m = 2 then if leap y then 29 else 28 else if m = 4 \<or> m = 6 \<or> m = 9 \<or> m = 11 then 30 else 31)"

fun before_month :: "int \<Rightarrow> nat \<Rightarrow> int" where
  "before_month y 0 = 0"
| "before_month y (Suc m) = before_month y m + (if m = 0 then 0 else int (month_length y m))"

definition before_year :: "int \<Rightarrow> int" where
  "before_year y = 365 * (y - 1) + (y - 1) div 4 - (y - 1) div 100 + (y - 1) div 400"

fun rata :: "date \<Rightarrow> int" where
  "rata (y, m, d) = before_year y + before_month y m + int d"

fun date_wf :: "date \<Rightarrow> bool" where
  "date_wf (y, m, d) \<longleftrightarrow> 1 \<le> m \<and> m \<le> 12 \<and> 1 \<le> d \<and> d \<le> month_length y m"

definition date_ok :: "date \<Rightarrow> bool" where
  "date_ok x \<longleftrightarrow> date_wf x \<and> - 9999 \<le> fst x \<and> fst x \<le> 9999"

lemma month_length_bounds [simp]: "28 \<le> month_length y m" "month_length y m \<le> 31" "0 < month_length y m"
  by (simp_all add: month_length_def)

lemma month_length_ends [simp]: "month_length y 12 = 31" "month_length y (Suc 0) = 31"
  by (simp_all add: month_length_def)

lemma before_year_end: "before_month y 13 = 365 + of_bool (leap y)"
proof -
  have "(13 :: nat) = Suc (Suc (Suc (Suc (Suc (Suc (Suc (Suc (Suc (Suc (Suc (Suc (Suc 0))))))))))))" by simp
  then show ?thesis by (simp only: before_month.simps) (simp add: month_length_def)
qed

lemma div_step: "0 < n \<Longrightarrow> (y :: int) div n = (y - 1) div n + of_bool (n dvd y)"
proof -
  assume n: "0 < n"
  have y: "y = n * (y div n) + y mod n" by simp
  show ?thesis
  proof (cases "n dvd y")
    case True
    then obtain k where k: "y = n * k" by (rule dvdE)
    have "(n * k - 1) div n = k - 1"
      by (rule int_div_pos_eq [where r = "n - 1"]) (use n in \<open>simp_all add: algebra_simps\<close>)
    then show ?thesis using True k n by simp
  next
    case False
    then have "0 \<le> y mod n - 1" "y mod n - 1 < n"
      using n pos_mod_bound [OF n, of y] pos_mod_sign [OF n, of y] by (auto simp: dvd_eq_mod_eq_0 order_less_le)
    moreover have "y - 1 = n * (y div n) + (y mod n - 1)" using y by linarith
    ultimately have "(y - 1) div n = y div n" by (rule int_div_pos_eq [rotated])
    then show ?thesis using False by simp
  qed
qed

lemma before_year_Suc: "before_year (y + 1) = before_year y + 365 + of_bool (leap y)"
proof -
  have "(100 :: int) dvd y \<Longrightarrow> 4 dvd y" "(400 :: int) dvd y \<Longrightarrow> 100 dvd y" by (auto elim: dvd_trans [rotated])
  then have "of_bool (4 dvd y) - of_bool (100 dvd y) + of_bool (400 dvd y) = (of_bool (leap y) :: int)"
    by (cases "4 dvd y"; cases "100 dvd y"; cases "400 dvd y") (simp_all add: leap_def)
  moreover have "before_year (y + 1) = before_year y + 365 + (of_bool (4 dvd y) - of_bool (100 dvd y) + of_bool (400 dvd y))"
    by (simp add: before_year_def div_step [of 4 y] div_step [of 100 y] div_step [of 400 y])
  ultimately show ?thesis by (simp only:)
qed

lemma before_month_mono: "m \<le> m' \<Longrightarrow> before_month y m \<le> before_month y m'"
  by (induction m' rule: dec_induct) auto

lemma before_year_mono: "y \<le> y' \<Longrightarrow> before_year y \<le> before_year y'"
proof (induction y' rule: int_ge_induct)
  case (step i) then show ?case using before_year_Suc [of i] by auto
qed simp

lemma rata_in_year:
  assumes "date_wf (y, m, d)"
  shows "before_year y < rata (y, m, d)" "rata (y, m, d) \<le> before_year (y + 1)"
proof -
  have "before_month y 0 \<le> before_month y m" "before_month y (Suc m) \<le> before_month y 13"
    by (rule before_month_mono, use assms in simp)+
  then show "before_year y < rata (y, m, d)" "rata (y, m, d) \<le> before_year (y + 1)"
    using assms before_year_Suc [of y] before_year_end [of y] by (auto split: if_splits)
qed

lemma rata_less:
  assumes "date_wf x" "date_wf x'" "x < x'"
  shows "rata x < rata x'"
proof -
  obtain y m d y' m' d' where [simp]: "x = (y, m, d)" "x' = (y', m', d')" by (cases x, cases x')
  consider "y < y'" | "y = y'" "m < m'" | "y = y'" "m = m'" "d < d'" using assms(3) by (auto simp: order_le_less)
  then show ?thesis
  proof cases
    case 1
    then have "before_year (y + 1) \<le> before_year y'" by (intro before_year_mono) simp
    then show ?thesis using rata_in_year(2) [of y m d] rata_in_year(1) [of y' m' d'] assms by simp
  next
    case 2
    then have "before_month y (Suc m) \<le> before_month y m'" by (intro before_month_mono) simp
    then show ?thesis using 2 assms by (auto split: if_splits)
  next
    case 3 then show ?thesis by simp
  qed
qed

lemma rata_less_iff: "date_wf x \<Longrightarrow> date_wf x' \<Longrightarrow> rata x < rata x' \<longleftrightarrow> x < x'"
  by (metis rata_less less_asym linorder_neqE)

lemma rata_eq_iff: "date_wf x \<Longrightarrow> date_wf x' \<Longrightarrow> rata x = rata x' \<longleftrightarrow> x = x'"
  by (metis rata_less less_irrefl linorder_neqE)

lemma rata_le_iff: "date_wf x \<Longrightarrow> date_wf x' \<Longrightarrow> rata x \<le> rata x' \<longleftrightarrow> x \<le> x'"
  using rata_less_iff [of x' x] by (simp add: not_less [symmetric])

lemma date_ok_wf [simp]: "date_ok x \<Longrightarrow> date_wf x"
  by (simp add: date_ok_def)

lemma rata_same_month: "rata (y, m, d) - rata (y, m, d') = int d - int d'"
  by simp

section \<open>The calendar library\<close>

definition weekday_of :: "date \<Rightarrow> int" where
  "weekday_of x = (rata x - 1) mod 7"

text \<open>The n-th of its weekday in its month, from the front or, when negative, from the back.\<close>

fun nth_in_month :: "int \<Rightarrow> date \<Rightarrow> bool" where
  "nth_in_month n (y, m, d) \<longleftrightarrow>
     (if 0 < n then (int d - 1) div 7 = n - 1 else (int (month_length y m) - int d) div 7 = - n - 1)"

record civil =
  cv_new :: "int \<Rightarrow> int \<Rightarrow> int \<Rightarrow> date option"
  cv_add :: "date \<Rightarrow> int \<Rightarrow> date option"
  cv_weekday :: "date \<Rightarrow> int"
  cv_dim :: "date \<Rightarrow> int"
  cv_nth :: "date \<Rightarrow> int \<Rightarrow> int \<Rightarrow> date option"

definition civil_ok :: "civil \<Rightarrow> bool" where
  "civil_ok cv \<longleftrightarrow>
     (\<forall>y m d x. cv_new cv y m d = Some x \<longleftrightarrow> date_ok x \<and> x = (y, nat m, nat d) \<and> 0 \<le> m \<and> 0 \<le> d) \<and>
     (\<forall>x n e. date_ok x \<longrightarrow> (cv_add cv x n = Some e \<longleftrightarrow> date_ok e \<and> rata e = rata x + n)) \<and>
     (\<forall>x. date_ok x \<longrightarrow> cv_weekday cv x = weekday_of x) \<and>
     (\<forall>y m d. date_ok (y, m, d) \<longrightarrow> cv_dim cv (y, m, d) = int (month_length y m)) \<and>
     (\<forall>y m n w e. date_ok (y, m, 1) \<longrightarrow>
        (cv_nth cv (y, m, 1) n w = Some e \<longleftrightarrow> (\<exists>d. e = (y, m, d) \<and> date_ok e) \<and> n \<noteq> 0 \<and> weekday_of e = w \<and> nth_in_month n e))"

lemma civil_laws:
  assumes "civil_ok cv"
  shows "\<forall>y m d x. cv_new cv y m d = Some x \<longleftrightarrow> date_ok x \<and> x = (y, nat m, nat d) \<and> 0 \<le> m \<and> 0 \<le> d"
    "\<forall>x n e. date_ok x \<longrightarrow> (cv_add cv x n = Some e \<longleftrightarrow> date_ok e \<and> rata e = rata x + n)"
    "\<forall>x. date_ok x \<longrightarrow> cv_weekday cv x = weekday_of x"
    "\<forall>y m d. date_ok (y, m, d) \<longrightarrow> cv_dim cv (y, m, d) = int (month_length y m)"
    "\<forall>y m n w e. date_ok (y, m, 1) \<longrightarrow>
      (cv_nth cv (y, m, 1) n w = Some e \<longleftrightarrow> (\<exists>d. e = (y, m, d) \<and> date_ok e) \<and> n \<noteq> 0 \<and> weekday_of e = w \<and> nth_in_month n e)"
  by (rule assms [unfolded civil_ok_def, THEN conjunct1],
      rule assms [unfolded civil_ok_def, THEN conjunct2, THEN conjunct1],
      rule assms [unfolded civil_ok_def, THEN conjunct2, THEN conjunct2, THEN conjunct1],
      rule assms [unfolded civil_ok_def, THEN conjunct2, THEN conjunct2, THEN conjunct2, THEN conjunct1],
      rule assms [unfolded civil_ok_def, THEN conjunct2, THEN conjunct2, THEN conjunct2, THEN conjunct2])

lemmas civil_new = civil_laws(1) [rule_format]
lemmas civil_add = civil_laws(2) [rule_format]
lemmas civil_weekday = civil_laws(3) [rule_format]
lemmas civil_dim = civil_laws(4) [rule_format]
lemmas civil_nth = civil_laws(5) [rule_format]

section \<open>A calendar that is one\<close>

fun next_day :: "date \<Rightarrow> date" where
  "next_day (y, m, d) = (if d < month_length y m then (y, m, d + 1) else if m < 12 then (y, m + 1, 1) else (y + 1, 1, 1))"

fun prev_day :: "date \<Rightarrow> date" where
  "prev_day (y, m, d) = (if 1 < d then (y, m, d - 1) else if 1 < m then (y, m - 1, month_length y (m - 1)) else (y - 1, 12, 31))"

lemma before_month_simps [simp]: "before_month y (Suc 0) = 0"
  by simp

lemma next_day: "date_wf x \<Longrightarrow> date_wf (next_day x) \<and> rata (next_day x) = rata x + 1"
proof -
  assume wf: "date_wf x"
  obtain y m d where [simp]: "x = (y, m, d)" by (cases x)
  have "(13 :: nat) = Suc 12" by simp
  then have last: "before_month y 12 + int (month_length y 12) = 365 + of_bool (leap y)"
    using before_year_end [of y] by (simp only: before_month.simps) simp
  show ?thesis
  proof (cases "m = 12")
    case True
    then show ?thesis using wf last before_year_Suc [of y] by (simp del: before_month.simps add: before_month_simps Suc_le_eq)
  next
    case False
    then show ?thesis using wf by (auto simp: Suc_le_eq)
  qed
qed

lemma prev_day: "date_wf x \<Longrightarrow> date_wf (prev_day x) \<and> rata (prev_day x) = rata x - 1"
proof -
  assume wf: "date_wf x"
  then have "date_wf (prev_day x)" by (cases x) (auto simp: Suc_le_eq)
  moreover from wf have "next_day (prev_day x) = x" by (cases x) auto
  ultimately show ?thesis using next_day [of "prev_day x"] by simp
qed

definition step_days :: "date \<Rightarrow> int \<Rightarrow> date" where
  "step_days x n = (if 0 \<le> n then (next_day ^^ nat n) x else (prev_day ^^ nat (- n)) x)"

lemma step_days: "date_wf x \<Longrightarrow> date_wf (step_days x n) \<and> rata (step_days x n) = rata x + n"
proof -
  assume wf: "date_wf x"
  have "date_wf ((next_day ^^ k) x) \<and> rata ((next_day ^^ k) x) = rata x + int k" for k
    by (induction k) (use wf next_day in auto)
  moreover have "date_wf ((prev_day ^^ k) x) \<and> rata ((prev_day ^^ k) x) = rata x - int k" for k
    by (induction k) (use wf prev_day in auto)
  ultimately show ?thesis by (simp add: step_days_def)
qed

definition proleptic :: civil where
  "proleptic = \<lparr>
     cv_new = (\<lambda>y m d. if 0 \<le> m \<and> 0 \<le> d \<and> date_ok (y, nat m, nat d) then Some (y, nat m, nat d) else None),
     cv_add = (\<lambda>x n. let e = step_days x n in if date_ok e then Some e else None),
     cv_weekday = weekday_of,
     cv_dim = (\<lambda>(y, m, d). int (month_length y m)),
     cv_nth = (\<lambda>(y, m, _) n w. find (\<lambda>e. n \<noteq> 0 \<and> weekday_of e = w \<and> nth_in_month n e) (map (\<lambda>d. (y, m, d)) [1..<Suc (month_length y m)]))\<rparr>"

lemma div_mod_eq: "a div 7 = b div 7 \<Longrightarrow> 7 dvd a - b \<Longrightarrow> a = (b :: int)"
  by (metis div_mult_mod_eq mod_eq_dvd_iff)

lemma nth_in_month_unique:
  assumes "nth_in_month n (y, m, d)" "nth_in_month n (y, m, d')" "weekday_of (y, m, d) = weekday_of (y, m, d')"
  shows "d = d'"
proof -
  have "(rata (y, m, d) - 1) mod 7 = (rata (y, m, d') - 1) mod 7" using assms(3) by (simp only: weekday_of_def)
  then have mod: "7 dvd int d - int d'" by (simp add: mod_eq_dvd_iff)
  show ?thesis
  proof (cases "0 < n")
    case True
    then have "(int d - 1) div 7 = (int d' - 1) div 7" using assms by simp
    then show ?thesis using mod div_mod_eq [of "int d - 1" "int d' - 1"] by simp
  next
    case False
    then have "(int (month_length y m) - int d) div 7 = (int (month_length y m) - int d') div 7" using assms by simp
    moreover have "7 dvd (int (month_length y m) - int d) - (int (month_length y m) - int d')"
      using mod dvd_minus_iff [of 7 "int d - int d'"] by simp
    ultimately show ?thesis using div_mod_eq [of "int (month_length y m) - int d" "int (month_length y m) - int d'"] by simp
  qed
qed

lemma find_unique:
  assumes "\<And>a b. a \<in> set xs \<Longrightarrow> b \<in> set xs \<Longrightarrow> P a \<Longrightarrow> P b \<Longrightarrow> a = b"
  shows "find P xs = Some e \<longleftrightarrow> e \<in> set xs \<and> P e"
  using assms by (induction xs) auto

lemma proleptic_ok: "civil_ok proleptic"
  unfolding civil_ok_def
proof (intro conjI allI impI)
  fix x n e assume x: "date_ok x"
  show "cv_add proleptic x n = Some e \<longleftrightarrow> date_ok e \<and> rata e = rata x + n"
    using step_days [OF date_ok_wf [OF x], of n] rata_eq_iff [of e "step_days x n"]
    by (auto simp: proleptic_def Let_def)
next
  fix y m n w e assume ok: "date_ok (y, m, 1)"
  have "cv_nth proleptic (y, m, 1) n w = Some e \<longleftrightarrow>
      e \<in> set (map (\<lambda>d. (y, m, d)) [1..<Suc (month_length y m)]) \<and> n \<noteq> 0 \<and> weekday_of e = w \<and> nth_in_month n e"
    unfolding proleptic_def by (simp del: upt_Suc, subst find_unique) (auto simp del: upt_Suc dest: nth_in_month_unique)
  also have "e \<in> set (map (\<lambda>d. (y, m, d)) [1..<Suc (month_length y m)]) \<longleftrightarrow> (\<exists>d. e = (y, m, d) \<and> date_ok e)"
    using ok by (auto simp: date_ok_def)
  finally show "cv_nth proleptic (y, m, 1) n w = Some e \<longleftrightarrow>
      (\<exists>d. e = (y, m, d) \<and> date_ok e) \<and> n \<noteq> 0 \<and> weekday_of e = w \<and> nth_in_month n e" .
qed (auto simp: proleptic_def)

end
