(* ===== verification/Recurrence_Rule.thy ===== *)
theory Recurrence_Rule
  imports Civil
begin

text \<open>
  Generating the dates of a recurrence rule (\<open>engine-recurrence/src/rule.rs\<close>, the rule itself from
  \<open>engine-core/src/calendar/recurrence.rs\<close>). A loop that does not return and an arithmetic overflow are \<open>None\<close>, an
  error is \<open>Inl\<close>. The dates are those of \<open>Civil\<close>; the calendar library is the parameter \<open>cv\<close>.
\<close>

section \<open>Rules\<close>

datatype frequency = Yearly | Monthly | Weekly | Daily | Hourly | Minutely | Secondly

datatype weekday = Mo | Tu | We | Th | Fr | Sa | Su

datatype recurrence_skip = Omit | Backward | Forward

record nday =
  nd_day :: weekday
  nd_nth_of_period :: "int option"

datatype recurrence_bound = Unbounded | Count nat | Until date_time

record recurrence_rule =
  rr_frequency :: frequency
  rr_interval :: nat
  rr_rscale :: "string option"
  rr_skip :: recurrence_skip
  rr_first_day_of_week :: weekday
  rr_by_day :: "nday list"
  rr_by_month_day :: "int list"
  rr_by_month :: "string list"
  rr_by_year_day :: "int list"
  rr_by_week_no :: "int list"
  rr_by_hour :: "nat list"
  rr_by_minute :: "nat list"
  rr_by_second :: "nat list"
  rr_by_set_position :: "int list"
  rr_bound :: recurrence_bound

definition rule_new :: "frequency \<Rightarrow> recurrence_rule" where
  "rule_new f = \<lparr>rr_frequency = f, rr_interval = 1, rr_rscale = None, rr_skip = Omit, rr_first_day_of_week = Mo,
     rr_by_day = [], rr_by_month_day = [], rr_by_month = [], rr_by_year_day = [], rr_by_week_no = [],
     rr_by_hour = [], rr_by_minute = [], rr_by_second = [], rr_by_set_position = [], rr_bound = Unbounded\<rparr>"

text \<open>The ranges the fields' types give: a non-zero 32-bit interval and count, a non-zero \<open>i32\<close> position.\<close>

definition rule_ok :: "recurrence_rule \<Rightarrow> bool" where
  "rule_ok r \<longleftrightarrow> 1 \<le> rr_interval r \<and> rr_interval r < 2 ^ 32 \<and>
     list_all (\<lambda>nd. nd_nth_of_period nd \<noteq> Some 0) (rr_by_day r) \<and>
     (case rr_bound r of Count n \<Rightarrow> 1 \<le> n \<and> n < 2 ^ 32 | _ \<Rightarrow> True)"

datatype expand_error =
    UnsupportedRule string
  | UnsupportedZone string
  | InvalidOverride date_time string
  | ExpandOutOfRange
  | TooManyInstances nat

type_synonym 'a expanding = "(expand_error, 'a) result option"

abbreviation ok :: "'a \<Rightarrow> 'a expanding" where "ok x \<equiv> Some (Inr x)"

abbreviation fail :: "expand_error \<Rightarrow> 'a expanding" where "fail e \<equiv> Some (Inl e)"

definition xbind :: "'a expanding \<Rightarrow> ('a \<Rightarrow> 'b expanding) \<Rightarrow> 'b expanding" where
  "xbind r f = (case r of None \<Rightarrow> None | Some (Inl e) \<Rightarrow> fail e | Some (Inr x) \<Rightarrow> f x)"

lemma xbind_simps [simp]: "xbind None f = None" "xbind (fail e) f = fail e" "xbind (ok x) f = f x"
  by (simp_all add: xbind_def)

lemma xbind_ok: "xbind r f = ok y \<longleftrightarrow> (\<exists>x. r = ok x \<and> f x = ok y)"
  by (auto simp: xbind_def split: option.splits sum.splits)

lemma xbind_None: "xbind r f = None \<longleftrightarrow> r = None \<or> (\<exists>x. r = ok x \<and> f x = None)"
  by (auto simp: xbind_def split: option.splits sum.splits)

lemma xbind_cong [fundef_cong]: "r = r' \<Longrightarrow> (\<And>x. r' = ok x \<Longrightarrow> f x = f' x) \<Longrightarrow> xbind r f = xbind r' f'"
  by (auto simp: xbind_def split: option.splits sum.splits)

definition or_range :: "'a option \<Rightarrow> 'a expanding" where
  "or_range x = (case x of None \<Rightarrow> fail ExpandOutOfRange | Some v \<Rightarrow> ok v)"

lemma or_range_simps [simp]: "or_range x = ok v \<longleftrightarrow> x = Some v" "or_range x \<noteq> None"
  by (simp_all add: or_range_def split: option.splits)

fun xmap :: "('a \<Rightarrow> 'b expanding) \<Rightarrow> 'a list \<Rightarrow> 'b list expanding" where
  "xmap f [] = ok []"
| "xmap f (x # xs) = xbind (f x) (\<lambda>y. xbind (xmap f xs) (\<lambda>ys. ok (y # ys)))"

section \<open>Dates\<close>

definition to_i8 :: "int \<Rightarrow> int option" where "to_i8 n = (if - (2 ^ 7) \<le> n \<and> n < 2 ^ 7 then Some n else None)"

definition to_i16 :: "int \<Rightarrow> int option" where "to_i16 n = (if - (2 ^ 15) \<le> n \<and> n < 2 ^ 15 then Some n else None)"

definition ymd :: "civil \<Rightarrow> int \<Rightarrow> int \<Rightarrow> int \<Rightarrow> date expanding" where
  "ymd cv y m d = or_range (cv_new cv y m d)"

definition add_days :: "civil \<Rightarrow> date \<Rightarrow> int \<Rightarrow> date expanding" where
  "add_days cv x n = or_range (cv_add cv x n)"

fun jiff_weekday :: "weekday \<Rightarrow> int" where
  "jiff_weekday Mo = 0" | "jiff_weekday Tu = 1" | "jiff_weekday We = 2" | "jiff_weekday Th = 3"
| "jiff_weekday Fr = 4" | "jiff_weekday Sa = 5" | "jiff_weekday Su = 6"

text \<open>\<open>add_months\<close>: the sum is a 32-bit addition, which panics past its range; the outer \<open>None\<close>.\<close>

definition add_months :: "int \<Rightarrow> int \<Rightarrow> nat \<Rightarrow> (int \<times> int) option option" where
  "add_months year month add =
     (if 2 ^ 31 \<le> add then Some None
      else let zero_based = month - 1 + int add in
        if 2 ^ 31 \<le> zero_based then None
        else let new_year = year + zero_based div 12; new_month = zero_based mod 12 + 1 in
          Some (case to_i16 new_year of None \<Rightarrow> None | Some y \<Rightarrow> Some (y, new_month)))"

definition parse_i8 :: "string \<Rightarrow> int option" where
  "parse_i8 s = (if s = [] \<or> 2 ^ 7 \<le> undecimal s then None else Some (int (undecimal s)))"

definition month_entry :: "string \<Rightarrow> int expanding" where
  "month_entry entry = (case parse_i8 (takeWhile is_digit entry) of
      None \<Rightarrow> fail (UnsupportedRule ''malformed BYMONTH'')
    | Some month \<Rightarrow> if 1 \<le> month \<and> month \<le> 12 then ok month else fail ExpandOutOfRange)"

definition parse_by_month :: "string list \<Rightarrow> int set option expanding" where
  "parse_by_month by_month =
     (if by_month = [] then ok None else xbind (xmap month_entry by_month) (\<lambda>ms. ok (Some (set ms))))"

definition has_nth :: "recurrence_rule \<Rightarrow> bool" where
  "has_nth r \<longleftrightarrow> list_ex (\<lambda>nd. nd_nth_of_period nd \<noteq> None) (rr_by_day r)"

definition check_supported :: "recurrence_rule \<Rightarrow> unit expanding" where
  "check_supported r =
     (if rr_rscale r \<noteq> None then fail (UnsupportedRule ''RSCALE / non-Gregorian recurrence'')
      else if rr_frequency r \<notin> {Daily, Weekly, Monthly, Yearly} then fail (UnsupportedRule ''sub-daily frequency'')
      else if rr_by_year_day r \<noteq> [] then fail (UnsupportedRule ''BYYEARDAY'')
      else if rr_by_week_no r \<noteq> [] then fail (UnsupportedRule ''BYWEEKNO'')
      else if rr_by_set_position r \<noteq> [] then fail (UnsupportedRule ''BYSETPOS'')
      else if rr_by_hour r \<noteq> [] \<or> rr_by_minute r \<noteq> [] \<or> rr_by_second r \<noteq> [] then fail (UnsupportedRule ''BYHOUR/BYMINUTE/BYSECOND'')
      else if has_nth r \<and> rr_frequency r \<in> {Daily, Weekly} then fail (UnsupportedRule ''nth BYDAY requires MONTHLY or YEARLY'')
      else if has_nth r \<and> rr_frequency r = Yearly \<and> rr_by_month r = [] then
        fail (UnsupportedRule ''year-relative nth BYDAY (without BYMONTH)'')
      else ok ())"

section \<open>The accumulator\<close>

record acc =
  ac_out :: "date list"
  ac_seen :: "date set"
  ac_start :: date
  ac_upper :: date
  ac_by_month :: "int set option"
  ac_count :: "nat option"
  ac_cap :: nat

definition month_allowed :: "int set option \<Rightarrow> date \<Rightarrow> bool" where
  "month_allowed ms x \<longleftrightarrow> (case ms of None \<Rightarrow> True | Some s \<Rightarrow> int (fst (snd x)) \<in> s)"

definition count_reached :: "acc \<Rightarrow> bool" where
  "count_reached a \<longleftrightarrow> (case ac_count a of None \<Rightarrow> False | Some c \<Rightarrow> c \<le> length (ac_out a))"

definition emit :: "date \<Rightarrow> acc \<Rightarrow> (bool \<times> acc) expanding" where
  "emit date a =
     (if date < ac_start a \<or> ac_upper a < date then ok (False, a)
      else if \<not> month_allowed (ac_by_month a) date then ok (False, a)
      else if date \<in> ac_seen a then ok (count_reached a, a)
      else let a' = a\<lparr>ac_seen := insert date (ac_seen a), ac_out := ac_out a @ [date]\<rparr> in
        if ac_cap a < length (ac_out a') then fail (TooManyInstances (ac_cap a)) else ok (count_reached a', a'))"

text \<open>Emitting one after the other until the count is reached.\<close>

fun emit_each :: "date list \<Rightarrow> acc \<Rightarrow> (bool \<times> acc) expanding" where
  "emit_each [] a = ok (False, a)"
| "emit_each (x # xs) a = xbind (emit x a) (\<lambda>(stop, a). if stop then ok (True, a) else emit_each xs a)"

section \<open>Days of a month\<close>

definition month_day :: "int \<Rightarrow> int \<Rightarrow> int" where
  "month_day md dim = (if 0 < md then md else if md < 0 then dim + md + 1 else 0)"

definition month_day_dates :: "civil \<Rightarrow> int \<Rightarrow> int \<Rightarrow> int list \<Rightarrow> date list expanding" where
  "month_day_dates cv year month by_month_day =
     xbind (ymd cv year month 1) (\<lambda>first. let dim = cv_dim cv first in
       xmap (ymd cv year month) (filter (\<lambda>day. 1 \<le> day \<and> day \<le> dim) (map (\<lambda>md. month_day md dim) by_month_day)))"

definition nday_dates :: "civil \<Rightarrow> int \<Rightarrow> int \<Rightarrow> date \<Rightarrow> nday \<Rightarrow> date list expanding" where
  "nday_dates cv year month first nd = (case nd_nth_of_period nd of
      Some n \<Rightarrow> (case to_i8 n of
          None \<Rightarrow> fail ExpandOutOfRange
        | Some n \<Rightarrow> ok (case cv_nth cv first n (jiff_weekday (nd_day nd)) of Some x \<Rightarrow> [x] | None \<Rightarrow> []))
    | None \<Rightarrow> xbind (xmap (ymd cv year month) [1..cv_dim cv first])
        (\<lambda>days. ok (filter (\<lambda>x. cv_weekday cv x = jiff_weekday (nd_day nd)) days)))"

definition weekday_dates :: "civil \<Rightarrow> int \<Rightarrow> int \<Rightarrow> nday list \<Rightarrow> date list expanding" where
  "weekday_dates cv year month by_day =
     xbind (ymd cv year month 1) (\<lambda>first. xbind (xmap (nday_dates cv year month first) by_day) (\<lambda>ds. ok (concat ds)))"

text \<open>\<open>days_in_month\<close>: sorted and without repetitions.\<close>

definition rule_days_in_month :: "civil \<Rightarrow> int \<Rightarrow> int \<Rightarrow> recurrence_rule \<Rightarrow> date \<Rightarrow> date list expanding" where
  "rule_days_in_month cv year month r start =
     xbind
       (if rr_by_month_day r \<noteq> [] \<and> rr_by_day r \<noteq> [] then
          xbind (weekday_dates cv year month (rr_by_day r)) (\<lambda>weekdays.
          xbind (month_day_dates cv year month (rr_by_month_day r)) (\<lambda>days. ok (filter (\<lambda>x. x \<in> set weekdays) days)))
        else if rr_by_month_day r \<noteq> [] then month_day_dates cv year month (rr_by_month_day r)
        else if rr_by_day r \<noteq> [] then weekday_dates cv year month (rr_by_day r)
        else xbind (ymd cv year month 1) (\<lambda>first. let day = int (snd (snd start)) in
          if day \<le> cv_dim cv first then xbind (ymd cv year month day) (\<lambda>x. ok [x]) else ok []))
       (\<lambda>days. ok (remdups_adj (sort days)))"

section \<open>The four frequencies\<close>

definition daily_matches :: "civil \<Rightarrow> date \<Rightarrow> recurrence_rule \<Rightarrow> bool" where
  "daily_matches cv x r \<longleftrightarrow>
     (rr_by_day r = [] \<or> list_ex (\<lambda>nd. jiff_weekday (nd_day nd) = cv_weekday cv x) (rr_by_day r)) \<and>
     (rr_by_month_day r = [] \<or> list_ex (\<lambda>md. month_day md (cv_dim cv x) = int (snd (snd x))) (rr_by_month_day r))"

partial_function (option) daily_loop :: "civil \<Rightarrow> recurrence_rule \<Rightarrow> int \<Rightarrow> date \<Rightarrow> acc \<Rightarrow> acc expanding" where
  "daily_loop cv r step date a = (case add_days cv date step of
      None \<Rightarrow> None
    | Some (Inl e) \<Rightarrow> fail e
    | Some (Inr date) \<Rightarrow>
        if ac_upper a < date then ok a
        else if daily_matches cv date r then
          (case emit date a of
             None \<Rightarrow> None
           | Some (Inl e) \<Rightarrow> fail e
           | Some (Inr (stop, a)) \<Rightarrow> if stop then ok a else daily_loop cv r step date a)
        else daily_loop cv r step date a)"

definition generate_daily :: "civil \<Rightarrow> acc \<Rightarrow> nat \<Rightarrow> recurrence_rule \<Rightarrow> acc expanding" where
  "generate_daily cv a interval r = daily_loop cv r (int interval) (ac_start a) a"

definition weekly_targets :: "civil \<Rightarrow> date \<Rightarrow> recurrence_rule \<Rightarrow> int list" where
  "weekly_targets cv start r = (if rr_by_day r = [] then [cv_weekday cv start] else map (\<lambda>nd. jiff_weekday (nd_day nd)) (rr_by_day r))"

definition week_dates :: "civil \<Rightarrow> int \<Rightarrow> int list \<Rightarrow> date \<Rightarrow> date list expanding" where
  "week_dates cv wkst targets anchor =
     xbind (xmap (\<lambda>w. add_days cv anchor ((w - wkst) mod 7)) targets) (\<lambda>week. ok (remdups_adj (sort week)))"

text \<open>One week: emitting stops at a date past the upper bound, which ends the generation too.\<close>

fun emit_week :: "date list \<Rightarrow> acc \<Rightarrow> (bool \<times> acc) expanding" where
  "emit_week [] a = ok (False, a)"
| "emit_week (x # xs) a =
     (if ac_upper a < x then ok (True, a)
      else xbind (emit x a) (\<lambda>(stop, a). if stop then ok (True, a) else emit_week xs a))"

partial_function (option) weekly_loop :: "civil \<Rightarrow> int \<Rightarrow> int list \<Rightarrow> int \<Rightarrow> date \<Rightarrow> acc \<Rightarrow> acc expanding" where
  "weekly_loop cv wkst targets step anchor a = (case week_dates cv wkst targets anchor of
      None \<Rightarrow> None
    | Some (Inl e) \<Rightarrow> fail e
    | Some (Inr week) \<Rightarrow> (case emit_week week a of
        None \<Rightarrow> None
      | Some (Inl e) \<Rightarrow> fail e
      | Some (Inr (stop, a)) \<Rightarrow>
          if stop then ok a
          else (case add_days cv anchor step of
              None \<Rightarrow> None
            | Some (Inl e) \<Rightarrow> fail e
            | Some (Inr anchor) \<Rightarrow> if ac_upper a < anchor then ok a else weekly_loop cv wkst targets step anchor a)))"

definition generate_weekly :: "civil \<Rightarrow> acc \<Rightarrow> nat \<Rightarrow> recurrence_rule \<Rightarrow> acc expanding" where
  "generate_weekly cv a interval r =
     (let wkst = jiff_weekday (rr_first_day_of_week r); start_off = cv_weekday cv (ac_start a) in
      xbind (add_days cv (ac_start a) (- ((start_off - wkst) mod 7)))
        (\<lambda>anchor. weekly_loop cv wkst (weekly_targets cv (ac_start a) r) (int interval * 7) anchor a))"


partial_function (option) monthly_loop :: "civil \<Rightarrow> recurrence_rule \<Rightarrow> nat \<Rightarrow> int \<Rightarrow> int \<Rightarrow> acc \<Rightarrow> acc expanding" where
  "monthly_loop cv r interval year month a = (case ymd cv year month 1 of
      None \<Rightarrow> None
    | Some (Inl e) \<Rightarrow> fail e
    | Some (Inr first) \<Rightarrow>
        if ac_upper a < first then ok a
        else (case xbind (rule_days_in_month cv year month r (ac_start a)) (\<lambda>days. emit_each days a) of
            None \<Rightarrow> None
          | Some (Inl e) \<Rightarrow> fail e
          | Some (Inr (stop, a)) \<Rightarrow>
              if stop then ok a
              else (case add_months year month interval of
                  None \<Rightarrow> None
                | Some None \<Rightarrow> fail ExpandOutOfRange
                | Some (Some (year, month)) \<Rightarrow> monthly_loop cv r interval year month a)))"

definition generate_monthly :: "civil \<Rightarrow> acc \<Rightarrow> nat \<Rightarrow> recurrence_rule \<Rightarrow> acc expanding" where
  "generate_monthly cv a interval r = monthly_loop cv r interval (fst (ac_start a)) (int (fst (snd (ac_start a)))) a"

text \<open>The months of one year, in order, until the count is reached.\<close>

fun emit_months :: "civil \<Rightarrow> recurrence_rule \<Rightarrow> int \<Rightarrow> int list \<Rightarrow> acc \<Rightarrow> (bool \<times> acc) expanding" where
  "emit_months cv r year [] a = ok (False, a)"
| "emit_months cv r year (m # ms) a =
     xbind (xbind (rule_days_in_month cv year m r (ac_start a)) (\<lambda>days. emit_each days a))
       (\<lambda>(stop, a). if stop then ok (True, a) else emit_months cv r year ms a)"

partial_function (option) yearly_loop :: "civil \<Rightarrow> recurrence_rule \<Rightarrow> int list \<Rightarrow> int \<Rightarrow> int \<Rightarrow> acc \<Rightarrow> acc expanding" where
  "yearly_loop cv r months step year a = (case ymd cv year 1 1 of
      None \<Rightarrow> None
    | Some (Inl e) \<Rightarrow> fail e
    | Some (Inr first) \<Rightarrow>
        if ac_upper a < first then ok a
        else (case emit_months cv r year months a of
            None \<Rightarrow> None
          | Some (Inl e) \<Rightarrow> fail e
          | Some (Inr (stop, a)) \<Rightarrow>
              if stop then ok a
              else (case to_i16 (year + step) of
                  None \<Rightarrow> fail ExpandOutOfRange
                | Some year \<Rightarrow> yearly_loop cv r months step year a)))"

definition generate_yearly :: "civil \<Rightarrow> acc \<Rightarrow> nat \<Rightarrow> recurrence_rule \<Rightarrow> acc expanding" where
  "generate_yearly cv a interval r =
     (let months = (case ac_by_month a of Some s \<Rightarrow> sorted_list_of_set s | None \<Rightarrow> [int (fst (snd (ac_start a)))]) in
      case to_i16 (int interval) of
        None \<Rightarrow> fail ExpandOutOfRange
      | Some step \<Rightarrow> yearly_loop cv r months step (fst (ac_start a)) a)"

section \<open>The dates of a rule\<close>

definition bound_count :: "recurrence_bound \<Rightarrow> nat option" where
  "bound_count b = (case b of Count n \<Rightarrow> Some n | _ \<Rightarrow> None)"

definition rule_upper :: "civil \<Rightarrow> recurrence_bound \<Rightarrow> date \<Rightarrow> date expanding" where
  "rule_upper cv b window_end = (case b of
      Until ((y, m, d), _) \<Rightarrow>
        (case to_i16 y of None \<Rightarrow> fail ExpandOutOfRange
         | Some y \<Rightarrow> xbind (ymd cv y (int m) (int d)) (\<lambda>until. ok (min until window_end)))
    | _ \<Rightarrow> ok window_end)"

definition generate :: "civil \<Rightarrow> acc \<Rightarrow> recurrence_rule \<Rightarrow> acc expanding" where
  "generate cv a r = (case rr_frequency r of
      Daily \<Rightarrow> generate_daily cv a (rr_interval r) r
    | Weekly \<Rightarrow> generate_weekly cv a (rr_interval r) r
    | Monthly \<Rightarrow> generate_monthly cv a (rr_interval r) r
    | Yearly \<Rightarrow> generate_yearly cv a (rr_interval r) r
    | _ \<Rightarrow> None)"

definition occurrence_dates :: "civil \<Rightarrow> date \<Rightarrow> recurrence_rule \<Rightarrow> date \<Rightarrow> nat \<Rightarrow> date list expanding" where
  "occurrence_dates cv start r window_end cap =
     xbind (check_supported r) (\<lambda>_.
     xbind (rule_upper cv (rr_bound r) window_end) (\<lambda>upper.
     xbind (parse_by_month (rr_by_month r)) (\<lambda>by_month.
     let a = \<lparr>ac_out = [], ac_seen = {}, ac_start = start, ac_upper = upper, ac_by_month = by_month,
              ac_count = bound_count (rr_bound r), ac_cap = cap\<rparr> in
     xbind (emit start a) (\<lambda>(stop, a).
     xbind (if stop then ok a else generate cv a r) (\<lambda>a.
     let out = sort (ac_out a) in
     ok (case bound_count (rr_bound r) of None \<Rightarrow> out | Some limit \<Rightarrow> take limit out))))))"

end
