(* ===== verification/Recurrence_Laws.thy ===== *)
theory Recurrence_Laws
  imports Recurrence_Rule
begin

text \<open>
  What the generating loops of a rule produce: the set of dates they put out, by what a date has to satisfy, and
  that they put it out in order. The accumulator is followed by a threshold on day numbers: below it
  every date of the set is out, at and above it none but the start. What a rule is documented to mean is
  \<open>recurrence_set\<close> of \<open>Recurrence_Sets\<close>, where the two are compared.
\<close>

declare rata.simps [simp del]

section \<open>The set the loops generate\<close>

definition day_selected :: "recurrence_rule \<Rightarrow> date \<Rightarrow> bool" where
  "day_selected r x \<longleftrightarrow> rr_by_day r = [] \<or>
     list_ex (\<lambda>nd. weekday_of x = jiff_weekday (nd_day nd) \<and>
       (case nd_nth_of_period nd of None \<Rightarrow> True | Some n \<Rightarrow> nth_in_month n x)) (rr_by_day r)"

fun month_day_selected :: "recurrence_rule \<Rightarrow> date \<Rightarrow> bool" where
  "month_day_selected r (y, m, d) \<longleftrightarrow> rr_by_month_day r = [] \<or>
     list_ex (\<lambda>md. month_day md (int (month_length y m)) = int d) (rr_by_month_day r)"

definition selected :: "recurrence_rule \<Rightarrow> date \<Rightarrow> date \<Rightarrow> bool" where
  "selected r start x \<longleftrightarrow> day_selected r x \<and> month_day_selected r x \<and>
     (rr_by_day r = [] \<and> rr_by_month_day r = [] \<longrightarrow> snd (snd x) = snd (snd start))"

definition week_start :: "int \<Rightarrow> date \<Rightarrow> int" where
  "week_start wkst x = rata x - (weekday_of x - wkst) mod 7"

fun month_index :: "date \<Rightarrow> int" where
  "month_index (y, m, d) = 12 * y + int m - 1"

definition generated_by :: "recurrence_rule \<Rightarrow> date \<Rightarrow> date \<Rightarrow> bool" where
  "generated_by r start x \<longleftrightarrow> (let n = int (rr_interval r) in case rr_frequency r of
      Daily \<Rightarrow> start < x \<and> n dvd rata x - rata start \<and> day_selected r x \<and> month_day_selected r x
    | Weekly \<Rightarrow> 7 * n dvd week_start (jiff_weekday (rr_first_day_of_week r)) x - week_start (jiff_weekday (rr_first_day_of_week r)) start \<and>
        (if rr_by_day r = [] then weekday_of x = weekday_of start else day_selected r x)
    | Monthly \<Rightarrow> n dvd month_index x - month_index start \<and> selected r start x
    | Yearly \<Rightarrow> n dvd fst x - fst start \<and> (rr_by_month r = [] \<longrightarrow> fst (snd x) = fst (snd start)) \<and> selected r start x
    | _ \<Rightarrow> False)"

definition month_named :: "recurrence_rule \<Rightarrow> date \<Rightarrow> bool" where
  "month_named r x \<longleftrightarrow> rr_by_month r = [] \<or> list_ex (\<lambda>e. undecimal (takeWhile is_digit e) = fst (snd x)) (rr_by_month r)"

definition generated_set :: "recurrence_rule \<Rightarrow> date \<Rightarrow> date \<Rightarrow> date set" where
  "generated_set r start window_end =
     {x. date_ok x \<and> start \<le> x \<and> x \<le> window_end \<and> (case rr_bound r of Until until \<Rightarrow> x \<le> fst until | _ \<Rightarrow> True) \<and>
         month_named r x \<and> (x = start \<or> generated_by r start x)}"

definition truncated :: "nat option \<Rightarrow> 'a list \<Rightarrow> 'a list" where
  "truncated n xs = (case n of None \<Rightarrow> xs | Some n \<Rightarrow> take n xs)"

section \<open>Lists in order\<close>

lemma sorted_list_of_set_append:
  fixes A B :: "'a :: linorder set"
  assumes "finite A" "finite B" "\<And>a b. a \<in> A \<Longrightarrow> b \<in> B \<Longrightarrow> a < b"
  shows "sorted_list_of_set (A \<union> B) = sorted_list_of_set A @ sorted_list_of_set B"
proof -
  have "sorted (sorted_list_of_set A @ sorted_list_of_set B)" "distinct (sorted_list_of_set A @ sorted_list_of_set B)"
    using assms by (force simp: sorted_append)+
  then show ?thesis using assms by (metis set_append set_sorted_list_of_set sorted_list_of_set.idem_if_sorted_distinct)
qed

lemma sorted_dedup: "sorted xs \<Longrightarrow> sorted_wrt (<) (remdups_adj (xs :: 'a :: linorder list))"
  by (induction xs rule: remdups_adj.induct) (auto simp: order_le_less)

lemma sort_dedup_strict: "sorted_wrt (<) (remdups_adj (sort xs))" "set (remdups_adj (sort xs)) = set xs"
  by (simp_all add: sorted_dedup)

lemma xmap_ok: "xmap f xs = ok ys \<longleftrightarrow> list_all2 (\<lambda>x y. f x = ok y) xs ys"
  by (induction xs arbitrary: ys) (auto simp: xbind_ok list_all2_Cons1)

lemma xmap_returns: "(\<And>x. x \<in> set xs \<Longrightarrow> f x \<noteq> None) \<Longrightarrow> xmap f xs \<noteq> None"
  by (induction xs) (auto simp: xbind_None)

lemma xbind_returns: "r \<noteq> None \<Longrightarrow> (\<And>x. r = ok x \<Longrightarrow> f x \<noteq> None) \<Longrightarrow> xbind r f \<noteq> None"
  by (auto simp: xbind_None simp del: not_None_eq)

lemma list_all2_set: "list_all2 P xs ys \<Longrightarrow> (\<And>x y. P x y \<Longrightarrow> y = g x) \<Longrightarrow> set ys = g ` set xs"
  by (induction rule: list_all2_induct) auto

lemma add_days_returns [simp]: "add_days cv x n \<noteq> None" "ymd cv y m d \<noteq> None"
  by (simp_all add: add_days_def ymd_def)

lemma add_days_ok: "civil_ok cv \<Longrightarrow> date_ok x \<Longrightarrow> add_days cv x n = ok e \<longleftrightarrow> date_ok e \<and> rata e = rata x + n"
  by (simp add: add_days_def civil_add)

lemma ymd_ok: "civil_ok cv \<Longrightarrow> ymd cv y m d = ok x \<longleftrightarrow> date_ok x \<and> x = (y, nat m, nat d) \<and> 0 \<le> m \<and> 0 \<le> d"
  by (simp add: ymd_def civil_new)

section \<open>The accumulator\<close>

lemma finite_dates: "finite {x. date_ok x}"
proof -
  have "{x. date_ok x} \<subseteq> {- 9999..9999} \<times> {..12} \<times> {..31}"
    by (auto simp: date_ok_def intro: order_trans [OF _ month_length_bounds(2)])
  then show ?thesis by (rule finite_subset) simp
qed

definition kept :: "acc \<Rightarrow> date \<Rightarrow> bool" where
  "kept a x \<longleftrightarrow> ac_start a \<le> x \<and> x \<le> ac_upper a \<and> month_allowed (ac_by_month a) x"

definition full :: "acc \<Rightarrow> date set \<Rightarrow> date set" where
  "full a C = {x \<in> insert (ac_start a) C. date_ok x \<and> kept a x}"

definition below :: "acc \<Rightarrow> date set \<Rightarrow> int \<Rightarrow> date set" where
  "below a C b = {x \<in> full a C. rata x < b \<or> x = ac_start a}"

definition acc_inv :: "acc \<Rightarrow> date set \<Rightarrow> int \<Rightarrow> acc \<Rightarrow> bool" where
  "acc_inv a0 C b a \<longleftrightarrow> a = a0\<lparr>ac_out := ac_out a, ac_seen := set (ac_out a)\<rparr> \<and>
     ac_out a = sorted_list_of_set (below a0 C b) \<and> \<not> count_reached a"

definition gives :: "acc \<Rightarrow> date set \<Rightarrow> acc \<Rightarrow> bool" where
  "gives a0 C a \<longleftrightarrow> ac_out a = truncated (ac_count a0) (sorted_list_of_set (full a0 C))"

lemma finite_full [simp]: "finite (full a C)" "finite (below a C b)"
proof -
  show "finite (full a C)"
    by (rule finite_subset [OF _ finite_dates]) (auto simp: full_def)
  then show "finite (below a C b)" by (rule finite_subset [rotated]) (auto simp: below_def)
qed

lemma acc_invD:
  assumes "acc_inv a0 C b a"
  shows "ac_start a = ac_start a0" "ac_upper a = ac_upper a0" "ac_by_month a = ac_by_month a0" "ac_count a = ac_count a0" "ac_cap a = ac_cap a0"
    "ac_seen a = set (ac_out a)" "set (ac_out a) = below a0 C b" "kept a = kept a0"
proof -
  have a: "a = a0\<lparr>ac_out := ac_out a, ac_seen := set (ac_out a)\<rparr>" using assms unfolding acc_inv_def by blast
  show "ac_start a = ac_start a0" "ac_upper a = ac_upper a0" "ac_by_month a = ac_by_month a0" "ac_count a = ac_count a0"
    "ac_cap a = ac_cap a0" "ac_seen a = set (ac_out a)"
    by (subst a, simp)+
  then show "kept a = kept a0" by (simp add: kept_def fun_eq_iff)
  show "set (ac_out a) = below a0 C b" using assms by (simp add: acc_inv_def)
qed

lemma below_skip: "(\<And>x. x \<in> C \<Longrightarrow> date_ok x \<Longrightarrow> kept a x \<Longrightarrow> b \<le> rata x \<Longrightarrow> rata x < b' \<Longrightarrow> False) \<Longrightarrow> b \<le> b' \<Longrightarrow> below a C b' = below a C b"
  by (force simp: below_def full_def not_le [symmetric])

lemma inv_below: "acc_inv a0 C b a \<Longrightarrow> below a0 C b' = below a0 C b \<Longrightarrow> acc_inv a0 C b' a"
  unfolding acc_inv_def by metis

lemma inv_skip:
  assumes "acc_inv a0 C b a" "\<And>x. x \<in> C \<Longrightarrow> date_ok x \<Longrightarrow> kept a0 x \<Longrightarrow> b \<le> rata x \<Longrightarrow> rata x < b' \<Longrightarrow> False" "b \<le> b'"
  shows "acc_inv a0 C b' a"
  using assms(1) below_skip [OF assms(2,3)] by (rule inv_below)

lemma inv_gives:
  assumes inv: "acc_inv a0 C b a" and all: "\<And>x. x \<in> C \<Longrightarrow> date_ok x \<Longrightarrow> b \<le> rata x \<Longrightarrow> \<not> kept a0 x"
  shows "gives a0 C a"
proof -
  have "below a0 C b = full a0 C" using all by (force simp: below_def full_def)
  then show ?thesis using inv acc_invD(4) [OF inv]
    by (auto simp: acc_inv_def gives_def truncated_def count_reached_def split: option.splits)
qed

lemma emit_returns [simp]: "emit x a \<noteq> None"
  by (simp add: emit_def Let_def)

lemma emit_each_returns [simp]: "emit_each xs a \<noteq> None"
  by (induction xs arbitrary: a) (auto simp: xbind_None)

lemma emit_inv:
  assumes inv: "acc_inv a0 C b a" and start: "date_ok (ac_start a0)" and x: "x \<in> C" "date_ok x" "b \<le> rata x"
    and gap: "\<And>z. z \<in> C \<Longrightarrow> date_ok z \<Longrightarrow> b \<le> rata z \<Longrightarrow> rata z < rata x \<Longrightarrow> False"
    and e: "emit x a = ok (stop, a')"
  shows "if stop then gives a0 C a' else acc_inv a0 C (rata x + 1) a'"
proof -
  note D = acc_invD [OF inv]
  have nr: "\<not> count_reached a" using inv by (simp add: acc_inv_def)
  have next_below: "below a0 C (rata x + 1) = (if kept a0 x then insert x (below a0 C b) else below a0 C b)"
    using gap x rata_eq_iff [OF date_ok_wf date_ok_wf, of _ x] by (force simp: below_def full_def )
  show ?thesis
  proof (cases "kept a0 x \<and> x \<notin> below a0 C b")
    case False
    then have "below a0 C (rata x + 1) = below a0 C b" using next_below by (auto simp: insert_absorb)
    then have "acc_inv a0 C (rata x + 1) a" using inv by (metis inv_below)
    moreover have "stop = False \<and> a' = a"
      using e False nr D by (auto simp: emit_def kept_def split: if_splits)
    ultimately show ?thesis by simp
  next
    case True
    let ?a = "a\<lparr>ac_seen := insert x (ac_seen a), ac_out := ac_out a @ [x]\<rparr>"
    have res: "a' = ?a" "stop = count_reached ?a"
      using e True D by (auto simp: emit_def kept_def Let_def split: if_splits)
    have less: "z < x" if "z \<in> below a0 C b" for z
    proof -
      have "date_ok z" "rata z < b \<or> z = ac_start a0" "z \<noteq> x" using that True by (auto simp: below_def full_def)
      then show ?thesis using x rata_less_iff [of z x] True by (auto simp: kept_def order_le_less )
    qed
    have "sorted_list_of_set (below a0 C (rata x + 1)) = ac_out a @ [x]"
      using sorted_list_of_set_append [of "below a0 C b" "{x}"] less next_below True inv by (simp add: acc_inv_def)
    then have out: "ac_out a' = sorted_list_of_set (below a0 C (rata x + 1))" using res by simp
    have same: "a' = a0\<lparr>ac_out := ac_out a', ac_seen := set (ac_out a')\<rparr>"
      by (rule acc.equality) (use res D in simp_all)
    show ?thesis
    proof (cases stop)
      case False
      then have "\<not> count_reached a'" using res by simp
      then have "acc_inv a0 C (rata x + 1) a'" unfolding acc_inv_def using same out by blast
      then show ?thesis using False by simp
    next
      case True
      let ?rest = "{z \<in> full a0 C. rata x < rata z \<and> z \<noteq> ac_start a0}"
      have "full a0 C = below a0 C (rata x + 1) \<union> ?rest" by (auto simp: below_def)
      moreover have "z < w" if "z \<in> below a0 C (rata x + 1)" "w \<in> ?rest" for z w
        using that rata_less_iff [of z w] start
        by (auto simp: below_def full_def kept_def order_le_less )
      ultimately have "sorted_list_of_set (full a0 C) = ac_out a' @ sorted_list_of_set ?rest"
        using sorted_list_of_set_append [of "below a0 C (rata x + 1)" ?rest] out by simp
      moreover have "ac_count a0 = Some (length (ac_out a'))"
        using True res nr D(4) by (auto simp: count_reached_def split: option.splits)
      ultimately show ?thesis using True by (simp add: gives_def truncated_def)
    qed
  qed
qed

lemma emit_each_inv:
  assumes "acc_inv a0 C b a" "date_ok (ac_start a0)" "sorted_wrt (<) xs"
    and "set xs = {x \<in> C. date_ok x \<and> b \<le> rata x \<and> rata x < b'}" "b \<le> b'"
    and "emit_each xs a = ok (stop, a')"
  shows "if stop then gives a0 C a' else acc_inv a0 C b' a'"
  using assms(1,3-)
proof (induction xs arbitrary: a b)
  case Nil
  then show ?case by (auto intro: inv_skip)
next
  case (Cons x xs)
  have x: "x \<in> C" "date_ok x" "b \<le> rata x" "rata x < b'" using Cons.prems(3) by auto
  have mem: "z \<in> set (x # xs) \<longleftrightarrow> z \<in> C \<and> date_ok z \<and> b \<le> rata z \<and> rata z < b'" for z using Cons.prems(3) by blast
  have later: "x < z" if "z \<in> set xs" for z using Cons.prems(2) that by (auto simp: strict_sorted_simps)
  have gap: "z \<in> C \<Longrightarrow> date_ok z \<Longrightarrow> b \<le> rata z \<Longrightarrow> rata z < rata x \<Longrightarrow> False" for z
    using mem [of z] later [of z] x rata_less_iff [of z x] by auto
  obtain st a1 where e: "emit x a = ok (st, a1)" and rest: "if st then stop \<and> a' = a1 else emit_each xs a1 = ok (stop, a')"
    using Cons.prems(5) by (auto simp: xbind_ok split: if_splits)
  note step = emit_inv [OF Cons.prems(1) assms(2) x(1-3) gap e]
  show ?case
  proof (cases st)
    case True then show ?thesis using step rest by simp
  next
    case False
    have "set xs = {z \<in> C. date_ok z \<and> rata x + 1 \<le> rata z \<and> rata z < b'}"
    proof (intro set_eqI iffI)
      fix z assume z: "z \<in> set xs"
      then show "z \<in> {z \<in> C. date_ok z \<and> rata x + 1 \<le> rata z \<and> rata z < b'}"
        using mem [of z] later [OF z] rata_less [of x z] x by auto
    next
      fix z assume z: "z \<in> {z \<in> C. date_ok z \<and> rata x + 1 \<le> rata z \<and> rata z < b'}"
      then have "z \<noteq> x" by auto
      then show "z \<in> set xs" using mem [of z] z x by auto
    qed
    then show ?thesis using False step rest x(4) Cons.prems(2) by (intro Cons.IH [of "rata x + 1" a1]) simp_all
  qed
qed


section \<open>The days of a month\<close>

definition month_dates :: "int \<Rightarrow> int \<Rightarrow> date set" where
  "month_dates y m = {x. date_ok x \<and> fst x = y \<and> int (fst (snd x)) = m}"

lemma month_dates_iff: "1 \<le> m \<Longrightarrow> (y', m', d) \<in> month_dates y m \<longleftrightarrow> date_ok (y', m', d) \<and> y' = y \<and> m' = nat m"
  by (auto simp: month_dates_def)

lemma month_day_dates_set:
  assumes "civil_ok cv" "1 \<le> m" "month_day_dates cv y m mds = ok days"
  shows "set days = {x \<in> month_dates y m. list_ex (\<lambda>md. month_day md (int (month_length y (nat m))) = int (snd (snd x))) mds}"
proof -
  let ?len = "int (month_length y (nat m))"
  obtain first where f: "ymd cv y m 1 = ok first"
    and days: "xmap (ymd cv y m) (filter (\<lambda>day. 1 \<le> day \<and> day \<le> cv_dim cv first) (map (\<lambda>md. month_day md (cv_dim cv first)) mds)) = ok days"
    using assms(3) by (auto simp: month_day_dates_def xbind_ok Let_def)
  have first: "date_ok (y, nat m, 1)" "first = (y, nat m, 1)" using f assms(1) by (auto simp: ymd_ok)
  then have dim: "cv_dim cv first = ?len" using civil_dim [OF assms(1)] by simp
  have "set days = (\<lambda>day. (y, nat m, nat day)) ` {day \<in> (\<lambda>md. month_day md ?len) ` set mds. 1 \<le> day \<and> day \<le> ?len}"
    using list_all2_set [OF days [unfolded xmap_ok], of "\<lambda>day. (y, nat m, nat day)"] assms(1) dim by (simp add: ymd_ok)
  also have "\<dots> = {x \<in> month_dates y m. list_ex (\<lambda>md. month_day md ?len = int (snd (snd x))) mds}" (is "?L = ?R")
  proof (intro set_eqI iffI)
    fix x assume "x \<in> ?L"
    then obtain md where "x = (y, nat m, nat (month_day md ?len))" "md \<in> set mds" "1 \<le> month_day md ?len" "month_day md ?len \<le> ?len" by auto
    then show "x \<in> ?R" using first assms(2) by (auto simp: month_dates_iff date_ok_def list_ex_iff)
  next
    fix x assume "x \<in> ?R"
    moreover obtain y' m' d where "x = (y', m', d)" by (cases x)
    ultimately show "x \<in> ?L" using assms(2) by (force simp: month_dates_iff list_ex_iff date_ok_def image_iff)
  qed
  finally show ?thesis .
qed

lemma month_days_upto: "1 \<le> m \<Longrightarrow> date_ok (y, nat m, 1) \<Longrightarrow> (\<lambda>day. (y, nat m, nat day)) ` {1..int (month_length y (nat m))} = month_dates y m"
proof (intro set_eqI iffI)
  fix x assume m: "1 \<le> m" and ok: "date_ok (y, nat m, 1)"
  { assume "x \<in> (\<lambda>day. (y, nat m, nat day)) ` {1..int (month_length y (nat m))}"
    then show "x \<in> month_dates y m" using m ok by (auto simp: month_dates_iff date_ok_def) }
  assume x: "x \<in> month_dates y m"
  obtain y' m' d where [simp]: "x = (y', m', d)" by (cases x)
  show "x \<in> (\<lambda>day. (y, nat m, nat day)) ` {1..int (month_length y (nat m))}"
    using x m by (intro image_eqI [of _ _ "int d"]) (auto simp: month_dates_iff date_ok_def)
qed

lemma nday_dates_set:
  assumes "civil_ok cv" "1 \<le> m" "date_ok (y, nat m, 1)" "nd_nth_of_period nd \<noteq> Some 0" "nday_dates cv y m (y, nat m, 1) nd = ok days"
  shows "set days = {x \<in> month_dates y m. weekday_of x = jiff_weekday (nd_day nd) \<and>
    (case nd_nth_of_period nd of None \<Rightarrow> True | Some n \<Rightarrow> nth_in_month n x)}"
proof (cases "nd_nth_of_period nd")
  case None
  obtain ds where ds: "xmap (ymd cv y m) [1..cv_dim cv (y, nat m, 1)] = ok ds" "days = filter (\<lambda>x. cv_weekday cv x = jiff_weekday (nd_day nd)) ds"
    using assms(5) None by (auto simp: nday_dates_def xbind_ok)
  have "set ds = (\<lambda>day. (y, nat m, nat day)) ` {1..int (month_length y (nat m))}"
    using list_all2_set [OF ds(1) [unfolded xmap_ok], of "\<lambda>day. (y, nat m, nat day)"] assms(1,3) by (simp add: ymd_ok civil_dim)
  then have "set ds = month_dates y m" using month_days_upto assms by simp
  then show ?thesis using ds(2) None civil_weekday [OF assms(1)] by (auto simp: month_dates_def)
next
  case (Some n)
  then have n: "to_i8 n = Some n" using assms(5) by (auto simp: nday_dates_def to_i8_def split: if_splits)
  have iff: "cv_nth cv (y, nat m, 1) n (jiff_weekday (nd_day nd)) = Some x \<longleftrightarrow>
      x \<in> month_dates y m \<and> weekday_of x = jiff_weekday (nd_day nd) \<and> nth_in_month n x" for x
    using civil_nth [OF assms(1,3)] Some assms(2,4) by (cases x) (auto simp: month_dates_iff)
  have "days = (case cv_nth cv (y, nat m, 1) n (jiff_weekday (nd_day nd)) of Some x \<Rightarrow> [x] | None \<Rightarrow> [])"
    using assms(5) Some n by (simp add: nday_dates_def)
  then have "x \<in> set days \<longleftrightarrow> cv_nth cv (y, nat m, 1) n (jiff_weekday (nd_day nd)) = Some x" for x
    by (cases "cv_nth cv (y, nat m, 1) n (jiff_weekday (nd_day nd))") auto
  then show ?thesis unfolding iff Some by (intro set_eqI) simp
qed

lemma weekday_dates_set:
  assumes "civil_ok cv" "1 \<le> m" "list_all (\<lambda>nd. nd_nth_of_period nd \<noteq> Some 0) nds" "weekday_dates cv y m nds = ok days"
  shows "set days = {x \<in> month_dates y m. list_ex (\<lambda>nd. weekday_of x = jiff_weekday (nd_day nd) \<and>
    (case nd_nth_of_period nd of None \<Rightarrow> True | Some n \<Rightarrow> nth_in_month n x)) nds}"
proof -
  obtain ds where first: "date_ok (y, nat m, 1)" and ds: "list_all2 (\<lambda>nd d. nday_dates cv y m (y, nat m, 1) nd = ok d) nds ds" "days = concat ds"
    using assms(1,4) by (auto simp: weekday_dates_def xbind_ok ymd_ok xmap_ok)
  show ?thesis unfolding ds(2)
    using ds(1) assms(3)
  proof (induction nds ds rule: list_all2_induct)
    case (Cons nd nds d ds)
    then show ?case using nday_dates_set [OF assms(1,2) first, of nd d] by auto
  qed simp
qed

lemma weekday_dates_returns [simp]: "weekday_dates cv y m nds \<noteq> None" "month_day_dates cv y m mds \<noteq> None"
proof -
  have "nday_dates cv y m first nd \<noteq> None" for first nd
    by (simp add: nday_dates_def xbind_returns xmap_returns del: not_None_eq split: option.split)
  then show "weekday_dates cv y m nds \<noteq> None" unfolding weekday_dates_def
    by (intro xbind_returns xmap_returns) (simp_all del: not_None_eq)
  show "month_day_dates cv y m mds \<noteq> None" unfolding month_day_dates_def Let_def
    by (intro xbind_returns xmap_returns) (simp_all del: not_None_eq)
qed

lemma rule_days_returns [simp]: "rule_days_in_month cv y m r start \<noteq> None"
  by (simp add: rule_days_in_month_def xbind_returns Let_def del: not_None_eq)

lemma rule_days_set:
  assumes "civil_ok cv" "1 \<le> m" "rule_ok r" "date_ok start" "rule_days_in_month cv y m r start = ok days"
  shows "sorted_wrt (<) days" "set days = {x \<in> month_dates y m. selected r start x}"
proof -
  have nths: "list_all (\<lambda>nd. nd_nth_of_period nd \<noteq> Some 0) (rr_by_day r)" using assms(3) by (simp add: rule_ok_def)
  obtain ds where ds: "days = remdups_adj (sort ds)" and cases:
    "(if rr_by_month_day r \<noteq> [] \<and> rr_by_day r \<noteq> [] then
        xbind (weekday_dates cv y m (rr_by_day r)) (\<lambda>weekdays.
        xbind (month_day_dates cv y m (rr_by_month_day r)) (\<lambda>days. ok (filter (\<lambda>x. x \<in> set weekdays) days)))
      else if rr_by_month_day r \<noteq> [] then month_day_dates cv y m (rr_by_month_day r)
      else if rr_by_day r \<noteq> [] then weekday_dates cv y m (rr_by_day r)
      else xbind (ymd cv y m 1) (\<lambda>first. let day = int (snd (snd start)) in
        if day \<le> cv_dim cv first then xbind (ymd cv y m day) (\<lambda>x. ok [x]) else ok [])) = ok ds"
    using assms(5) by (auto simp: rule_days_in_month_def xbind_ok)
  show "sorted_wrt (<) days" by (simp add: ds sorted_dedup)
  have md: "month_day_selected r x \<longleftrightarrow> rr_by_month_day r = [] \<or>
      list_ex (\<lambda>md. month_day md (int (month_length y (nat m))) = int (snd (snd x))) (rr_by_month_day r)" if "x \<in> month_dates y m" for x
    using that assms(2) by (cases x) (auto simp: month_dates_iff)
  have "set ds = {x \<in> month_dates y m. selected r start x}"
  proof (cases "rr_by_month_day r = [] \<and> rr_by_day r = []")
    case True
    then obtain first where f: "ymd cv y m 1 = ok first"
      and d: "if int (snd (snd start)) \<le> cv_dim cv first then \<exists>x. ymd cv y m (int (snd (snd start))) = ok x \<and> ds = [x] else ds = []"
      using cases by (auto simp: xbind_ok Let_def split: if_splits)
    have ok: "date_ok (y, nat m, 1)" "first = (y, nat m, 1)" using f assms(1) by (auto simp: ymd_ok)
    then have dim: "cv_dim cv first = int (month_length y (nat m))" using civil_dim [OF assms(1)] by simp
    show ?thesis
      using d dim True assms(1,2) by (force simp: ymd_ok month_dates_def selected_def day_selected_def date_ok_def split: if_splits)
  next
    case False
    then show ?thesis
      using cases month_day_dates_set [OF assms(1,2)] weekday_dates_set [OF assms(1,2) nths] md
      by (auto simp: xbind_ok selected_def day_selected_def split: if_splits)
  qed
  then show "set days = {x \<in> month_dates y m. selected r start x}" by (simp add: ds)
qed

end
