(* ===== verification/Recurrence_Loops.thy ===== *)
theory Recurrence_Loops
  imports Recurrence_Laws
begin

text \<open>
  The four generating loops return, and what they return is the set of the rule in order. Each loop is followed by
  the threshold of the accumulator: a period's candidates lie between the thresholds before and after it.
\<close>

text \<open>What is shown of a loop: it returns, and when it returns no error its accumulator holds the candidates.\<close>

definition generates :: "acc \<Rightarrow> date set \<Rightarrow> acc expanding \<Rightarrow> bool" where
  "generates a0 C r \<longleftrightarrow> r \<noteq> None \<and> (\<forall>a. r = ok a \<longrightarrow> gives a0 C a)"

lemma generates_fail [simp]: "generates a0 C (fail e)"
  by (simp add: generates_def)

lemma generates_ok [simp]: "generates a0 C (ok a) \<longleftrightarrow> gives a0 C a"
  by (simp add: generates_def)

lemma add_days_cases:
  assumes "civil_ok cv" "date_ok x"
  obtains e where "add_days cv x n = fail e" | d where "add_days cv x n = ok d" "date_ok d" "rata d = rata x + n"
  using add_days_ok [OF assms] by (metis add_days_returns(1) not_None_eq obj_sumE)

lemma emit_cases:
  assumes "acc_inv a0 C b a" "date_ok (ac_start a0)" "x \<in> C" "date_ok x" "b \<le> rata x"
    "\<forall>z\<in>C. date_ok z \<longrightarrow> b \<le> rata z \<longrightarrow> rata x \<le> rata z"
  obtains e where "emit x a = fail e" | a' where "emit x a = ok (True, a')" "gives a0 C a'"
  | a' where "emit x a = ok (False, a')" "acc_inv a0 C (rata x + 1) a'"
proof -
  obtain r where r: "emit x a = Some r" by (metis emit_returns not_None_eq)
  show thesis
  proof (cases r)
    case (Inr p)
    then obtain stop a' where "emit x a = ok (stop, a')" using r by (cases p) simp
    moreover have "z \<in> C \<Longrightarrow> date_ok z \<Longrightarrow> b \<le> rata z \<Longrightarrow> rata z < rata x \<Longrightarrow> False" for z using assms(6) by force
    ultimately show ?thesis using emit_inv [OF assms(1-5)] that(2,3) by (cases stop) (force split: if_splits)+
  qed (use r that(1) in simp)
qed

lemma emit_each_cases:
  assumes "acc_inv a0 C b a" "date_ok (ac_start a0)" "sorted_wrt (<) xs"
    "set xs = {x \<in> C. date_ok x \<and> b \<le> rata x \<and> rata x < b'}" "b \<le> b'"
  obtains e where "emit_each xs a = fail e" | a' where "emit_each xs a = ok (True, a')" "gives a0 C a'"
  | a' where "emit_each xs a = ok (False, a')" "acc_inv a0 C b' a'"
proof -
  obtain r where r: "emit_each xs a = Some r" by (metis emit_each_returns not_None_eq)
  show thesis
  proof (cases r)
    case (Inr p)
    then obtain stop a' where "emit_each xs a = ok (stop, a')" using r by (cases p) simp
    then show ?thesis using emit_each_inv [OF assms] that(2,3) by (cases stop) auto
  qed (use r that(1) in simp)
qed

section \<open>Daily\<close>

definition daily_set :: "civil \<Rightarrow> recurrence_rule \<Rightarrow> date \<Rightarrow> date set" where
  "daily_set cv r start = {x. date_ok x \<and> start < x \<and> int (rr_interval r) dvd rata x - rata start \<and> daily_matches cv x r}"

lemma no_multiple_between: "(n :: int) dvd a \<Longrightarrow> n dvd b \<Longrightarrow> a < b \<Longrightarrow> b < a + n \<Longrightarrow> False"
  by (metis add_diff_cancel_left' diff_less_eq dvd_diff less_add_same_cancel1 zdvd_not_zless diff_gt_0_iff_gt add.commute)

lemma daily_loop_generates:
  assumes cv: "civil_ok cv" and r: "rule_ok r" and start: "date_ok (ac_start a0)"
  shows "acc_inv a0 (daily_set cv r (ac_start a0)) (rata date + 1) a \<Longrightarrow> date_ok date \<Longrightarrow> ac_start a0 \<le> date \<Longrightarrow>
    int (rr_interval r) dvd rata date - rata (ac_start a0) \<Longrightarrow>
    generates a0 (daily_set cv r (ac_start a0)) (daily_loop cv r (int (rr_interval r)) date a)"
proof (induction "nat (rata (9999, 12, 31) - rata date)" arbitrary: date a rule: less_induct)
  case less
  let ?C = "daily_set cv r (ac_start a0)"
  let ?n = "int (rr_interval r)"
  have n: "0 < ?n" using r by (simp add: rule_ok_def)
  note D = acc_invD [OF less.prems(1)]
  show ?case
  proof (cases rule: add_days_cases [OF cv less.prems(2), of ?n])
    case (1 e) then show ?thesis by (subst daily_loop.simps) simp
  next
    case (2 d)
    have later: "ac_start a0 < d" using rata_less_iff [of "ac_start a0" d] rata_le_iff [of "ac_start a0" date] start less.prems(2,3) 2 n by simp
    have dvd: "?n dvd rata d - rata (ac_start a0)" using less.prems(4) 2(3)
      by (metis add.commute add_diff_eq dvd_add_triv_left_iff)
    have gap: "z \<in> ?C \<Longrightarrow> date_ok z \<Longrightarrow> rata date + 1 \<le> rata z \<Longrightarrow> rata z < rata d \<Longrightarrow> False" for z
      using no_multiple_between [of ?n "rata date - rata (ac_start a0)" "rata z - rata (ac_start a0)"] less.prems(4) 2(3)
      by (simp add: daily_set_def)
    have close: "nat (rata (9999, 12, 31) - rata d) < nat (rata (9999, 12, 31) - rata date)"
    proof -
      have "rata d \<le> rata (9999, 12, 31)"
        using 2(2) rata_le_iff [of d "(9999, 12, 31)"] by (cases d) (auto simp: date_ok_def)
      then show ?thesis using 2(3) n by simp
    qed
    show ?thesis
    proof (cases "ac_upper a < d")
      case True
      have "gives a0 ?C a"
      proof (rule inv_gives [OF less.prems(1)])
        fix x assume x: "x \<in> ?C" "date_ok x" "rata date + 1 \<le> rata x"
        then have "rata d \<le> rata x" using gap [of x] x(2) by force
        then show "\<not> kept a0 x" using True D x(2) 2(2) rata_le_iff [of d x] by (auto simp: kept_def)
      qed
      then show ?thesis using 2 True by (subst daily_loop.simps) simp
    next
      case within: False
      show ?thesis
      proof (cases "daily_matches cv d r")
        case True
        then have C: "d \<in> ?C" using 2 later dvd by (simp add: daily_set_def)
        have le: "rata date + 1 \<le> rata d" using 2 n by simp
        have first: "\<forall>z\<in>?C. date_ok z \<longrightarrow> rata date + 1 \<le> rata z \<longrightarrow> rata d \<le> rata z" using gap by force
        show ?thesis
        proof (cases rule: emit_cases [OF less.prems(1) start C 2(2) le first])
          case (3 a')
          then have "generates a0 ?C (daily_loop cv r ?n d a')" using close 2 later dvd by (intro less.hyps) auto
          then show ?thesis using 3 2 True within by (subst daily_loop.simps) simp
        qed (use 2 True within in \<open>(subst daily_loop.simps, simp)+\<close>)
      next
        case False
        then have "d \<notin> ?C" by (simp add: daily_set_def)
        have "acc_inv a0 ?C (rata d + 1) a"
        proof (rule inv_skip [OF less.prems(1)])
          fix x assume x: "x \<in> ?C" "date_ok x" "rata date + 1 \<le> rata x" "rata x < rata d + 1"
          then have "rata x = rata d" using gap [of x] by force
          then show False using x(1,2) rata_eq_iff [of x d] 2(2) \<open>d \<notin> ?C\<close> by simp
        qed (use 2(3) n in simp)
        then have "generates a0 ?C (daily_loop cv r ?n d a)" using close 2 later dvd by (intro less.hyps) auto
        then show ?thesis using 2 False within by (subst daily_loop.simps) simp
      qed
    qed
  qed
qed


section \<open>Weekly\<close>

definition weekly_set :: "int \<Rightarrow> int list \<Rightarrow> int \<Rightarrow> int \<Rightarrow> date set" where
  "weekly_set wkst targets step ws = {x. date_ok x \<and> weekday_of x \<in> set targets \<and> step dvd week_start wkst x - ws}"

lemma weekday_offset: "(a - 1) mod 7 = k \<Longrightarrow> a \<le> t \<Longrightarrow> t < a + 7 \<Longrightarrow> ((t - 1) mod 7 - k) mod 7 = t - (a :: int)"
  by (metis add.commute add_diff_cancel_left' diff_diff_eq2 diff_ge_0_iff_ge diff_less_eq mod_diff_eq mod_pos_pos_trivial diff_add_cancel)

lemma weekday_at_offset: "(a - 1) mod 7 = k \<Longrightarrow> 0 \<le> w \<Longrightarrow> w < 7 \<Longrightarrow> (a + (w - k) mod 7 - 1) mod 7 = (w :: int)"
proof -
  assume a: "(a - 1) mod 7 = k" "0 \<le> w" "w < 7"
  have "a + (w - k) mod 7 - 1 = (a - 1) + (w - k) mod 7" by simp
  then have "(a + (w - k) mod 7 - 1) mod 7 = ((a - 1) mod 7 + (w - k)) mod 7" by (simp only: mod_add_left_eq mod_add_right_eq)
  then show ?thesis using a by simp
qed

lemma week_dates_set:
  assumes "civil_ok cv" "date_ok anchor" "(rata anchor - 1) mod 7 = wkst" "\<forall>w\<in>set targets. 0 \<le> w \<and> w < 7"
    "step dvd rata anchor - ws" "week_dates cv wkst targets anchor = ok week"
  shows "sorted_wrt (<) week" "set week = {x \<in> weekly_set wkst targets step ws. date_ok x \<and> rata anchor \<le> rata x \<and> rata x < rata anchor + 7}"
proof -
  obtain ds where ds: "list_all2 (\<lambda>w d. add_days cv anchor ((w - wkst) mod 7) = ok d) targets ds" "week = remdups_adj (sort ds)"
    using assms(6) by (auto simp: week_dates_def xbind_ok xmap_ok)
  show "sorted_wrt (<) week" by (simp add: ds sorted_dedup)
  have mem: "x \<in> set ds \<longleftrightarrow> (\<exists>w\<in>set targets. date_ok x \<and> rata x = rata anchor + (w - wkst) mod 7)" for x
    using ds(1)
  proof (induction rule: list_all2_induct)
    case (Cons w ws d ds)
    then have "date_ok d" "rata d = rata anchor + (w - wkst) mod 7" using add_days_ok [OF assms(1,2)] by auto
    then show ?case using Cons.IH rata_eq_iff [of x d] by auto
  qed simp
  have "x \<in> set ds \<longleftrightarrow> x \<in> weekly_set wkst targets step ws \<and> date_ok x \<and> rata anchor \<le> rata x \<and> rata x < rata anchor + 7" for x
  proof
    assume "x \<in> set ds"
    then obtain w where w: "w \<in> set targets" "date_ok x" "rata x = rata anchor + (w - wkst) mod 7" using mem by auto
    have wd: "weekday_of x = w" using weekday_at_offset [OF assms(3), of w] assms(4) w by (simp add: weekday_of_def)
    then have "week_start wkst x = rata anchor" using w(3) by (simp add: week_start_def)
    then show "x \<in> weekly_set wkst targets step ws \<and> date_ok x \<and> rata anchor \<le> rata x \<and> rata x < rata anchor + 7"
      using w wd assms(5) by (simp add: weekly_set_def)
  next
    assume x: "x \<in> weekly_set wkst targets step ws \<and> date_ok x \<and> rata anchor \<le> rata x \<and> rata x < rata anchor + 7"
    then have "(weekday_of x - wkst) mod 7 = rata x - rata anchor" using weekday_offset [OF assms(3), of "rata x"] by (simp add: weekday_of_def)
    then show "x \<in> set ds" unfolding mem using x by (intro bexI [of _ "weekday_of x"]) (auto simp: weekly_set_def)
  qed
  then show "set week = {x \<in> weekly_set wkst targets step ws. date_ok x \<and> rata anchor \<le> rata x \<and> rata x < rata anchor + 7}"
    by (simp add: ds(2) set_eq_iff)
qed

lemma week_dates_returns [simp]: "week_dates cv wkst targets anchor \<noteq> None"
  by (simp add: week_dates_def xbind_returns xmap_returns del: not_None_eq)

lemma emit_upper: "emit x a = ok (stop, a') \<Longrightarrow> ac_upper a' = ac_upper a"
  by (auto simp: emit_def Let_def split: if_splits)

lemma emit_each_past: "\<forall>x\<in>set xs. ac_upper a < x \<Longrightarrow> emit_each xs a = ok (False, a)"
  by (induction xs) (auto simp: emit_def)

lemma emit_week_each:
  "sorted_wrt (<) xs \<Longrightarrow> emit_week xs a = xbind (emit_each xs a) (\<lambda>(stop, a'). ok (stop \<or> (\<exists>x\<in>set xs. ac_upper a < x), a'))"
proof (induction xs arbitrary: a)
  case (Cons x xs)
  show ?case
  proof (cases "ac_upper a < x")
    case True
    then have "\<forall>z\<in>set xs. ac_upper a < z" using Cons.prems by (auto intro: less_trans)
    then have "emit_each (x # xs) a = ok (False, a)" using True by (intro emit_each_past) simp
    then show ?thesis using True by simp
  next
    case False
    obtain v where v: "emit x a = Some v" by (metis emit_returns not_None_eq)
    show ?thesis
    proof (cases v)
      case (Inr p)
      obtain stop a' where "p = (stop, a')" by (cases p)
      then have e: "emit x a = ok (stop, a')" using v Inr by simp
      show ?thesis using e emit_upper [OF e] False Cons by simp
    qed (use v False in simp)
  qed
qed simp

lemma weekly_loop_generates:
  fixes wkst ws n :: int
  assumes cv: "civil_ok cv" and start: "date_ok (ac_start a0)" and n: "0 < n"
    and targets: "\<forall>w\<in>set targets. 0 \<le> w \<and> w < 7"
  defines "C \<equiv> weekly_set wkst targets (n * 7) ws"
  shows "acc_inv a0 C (rata anchor) a \<Longrightarrow> date_ok anchor \<Longrightarrow> (rata anchor - 1) mod 7 = wkst \<Longrightarrow> n * 7 dvd rata anchor - ws \<Longrightarrow>
    generates a0 C (weekly_loop cv wkst targets (n * 7) anchor a)"
proof (induction "nat (rata (9999, 12, 31) - rata anchor)" arbitrary: anchor a rule: less_induct)
  case less
  note D = acc_invD [OF less.prems(1)]
  obtain v where v: "week_dates cv wkst targets anchor = Some v" by (metis week_dates_returns not_None_eq)
  show ?case
  proof (cases v)
    case (Inl e) then show ?thesis using v by (subst weekly_loop.simps) simp
  next
    case (Inr week)
    note week = week_dates_set [OF cv less.prems(2,3) targets less.prems(4) v [unfolded Inr], folded C_def]
    have ew: "emit_week week a = xbind (emit_each week a) (\<lambda>(stop, a'). ok (stop \<or> (\<exists>x\<in>set week. ac_upper a0 < x), a'))"
      using emit_week_each [OF week(1)] D by simp
    have le: "rata anchor \<le> rata anchor + 7" by simp
    show ?thesis
    proof (cases rule: emit_each_cases [OF less.prems(1) start week le])
      case (3 a')
      note D' = acc_invD [OF 3(2)]
      show ?thesis
      proof (cases "\<exists>x\<in>set week. ac_upper a0 < x")
        case True
        then obtain x where x: "x \<in> set week" "ac_upper a0 < x" by blast
        have "gives a0 C a'"
        proof (rule inv_gives [OF 3(2)])
          fix z assume z: "z \<in> C" "date_ok z" "rata anchor + 7 \<le> rata z"
          then have "x < z" using x(1) week(2) rata_less_iff [of x z] by simp
          then show "\<not> kept a0 z" using x(2) by (auto simp: kept_def)
        qed
        then show ?thesis using v Inr ew 3 True by (subst weekly_loop.simps) simp
      next
        case False
        show ?thesis
        proof (cases rule: add_days_cases [OF cv less.prems(2), of "n * 7"])
          case (1 e) then show ?thesis using v Inr ew 3 False by (subst weekly_loop.simps) simp
        next
          case (2 d)
          have inv: "acc_inv a0 C (rata d) a'"
          proof (rule inv_skip [OF 3(2)])
            fix x assume x: "x \<in> C" "date_ok x" "rata anchor + 7 \<le> rata x" "rata x < rata d"
            have ws: "week_start wkst x \<le> rata x" "rata x < week_start wkst x + 7" by (simp_all add: week_start_def)
            have "n * 7 dvd week_start wkst x - ws" using x(1) by (simp add: C_def weekly_set_def)
            then show False
              using no_multiple_between [of "n * 7" "rata anchor - ws" "week_start wkst x - ws"] less.prems(4) x(3,4) ws 2(3) by simp
          qed (use 2(3) n in simp)
          have "nat (rata (9999, 12, 31) - rata d) < nat (rata (9999, 12, 31) - rata anchor)"
          proof -
            have "rata d \<le> rata (9999, 12, 31)"
              using 2(2) rata_le_iff [of d "(9999, 12, 31)"] by (cases d) (auto simp: date_ok_def)
            then show ?thesis using 2(3) n by simp
          qed
          moreover have "(rata d - 1) mod 7 = wkst" using less.prems(3) 2(3) by (metis add_diff_eq add.commute mod_mult_self1 add_diff_cancel_left' diff_add_eq)
          moreover have "n * 7 dvd rata d - ws" using less.prems(4) 2(3) by (metis add.commute add_diff_eq dvd_add_triv_left_iff)
          ultimately have "generates a0 C (weekly_loop cv wkst targets (n * 7) d a')" using inv 2(2) by (intro less.hyps)
          moreover have "gives a0 C a'" if "ac_upper a' < d"
          proof (rule inv_gives [OF inv])
            fix x assume "date_ok x" "rata d \<le> rata x"
            then show "\<not> kept a0 x" using rata_le_iff [of d x] 2(2) that D' by (auto simp: kept_def)
          qed
          ultimately show ?thesis using v Inr ew 3 False 2 by (subst weekly_loop.simps) simp
        qed
      qed
    qed (use v Inr ew in \<open>(simp, subst weekly_loop.simps, simp)+\<close>)
  qed
qed


section \<open>Months in order\<close>

definition first_of :: "int \<Rightarrow> int" where
  "first_of p = rata (p div 12, nat (p mod 12) + 1, 1)"

lemma split_twelve: "0 \<le> r \<Longrightarrow> r < 12 \<Longrightarrow> (12 * q + r) div 12 = (q :: int)" "0 \<le> r \<Longrightarrow> r < 12 \<Longrightarrow> (12 * q + r) mod 12 = (r :: int)"
  by simp_all

lemma first_of_next: "first_of (p + 1) = first_of p + int (month_length (p div 12) (nat (p mod 12) + 1))"
proof -
  let ?y = "p div 12" and ?m = "nat (p mod 12) + 1"
  let ?x = "(?y, ?m, month_length ?y ?m)"
  have wf: "date_wf ?x" by (auto simp: Suc_le_eq nat_less_iff pos_mod_bound intro!: Suc_leI)
  have "next_day ?x = ((p + 1) div 12, nat ((p + 1) mod 12) + 1, 1)"
  proof (cases "p mod 12 = 11")
    case True
    then have p1: "p + 1 = 12 * (p div 12 + 1) + 0" using mult_div_mod_eq [of 12 p] by (simp add: algebra_simps)
    have "(p + 1) div 12 = p div 12 + 1" "(p + 1) mod 12 = 0" by (subst p1, rule split_twelve, simp_all)+
    then show ?thesis using True by simp
  next
    case False
    have "0 \<le> p mod 12" "p mod 12 < 12" by simp_all
    with False have small: "0 \<le> p mod 12 + 1" "p mod 12 + 1 < 12" by linarith+
    have "p + 1 = 12 * (p div 12) + (p mod 12 + 1)" by simp
    then have "(p + 1) div 12 = p div 12" "(p + 1) mod 12 = p mod 12 + 1" "p mod 12 < 11"
      using split_twelve [OF small, of "p div 12"] small by simp_all
    then show ?thesis by (simp add: nat_add_distrib)
  qed
  then show ?thesis using next_day [OF wf] by (simp add: first_of_def rata.simps)
qed

lemma first_of_mono: "p \<le> q \<Longrightarrow> first_of p \<le> first_of q"
  by (induction q rule: int_ge_induct) (simp_all add: first_of_next)

lemma first_of_index: "1 \<le> m \<Longrightarrow> m \<le> 12 \<Longrightarrow> first_of (12 * y + m - 1) = rata (y, nat m, 1)"
proof -
  assume m: "1 \<le> m" "m \<le> 12"
  then have "(12 * y + m - 1) div 12 = y" "(12 * y + m - 1) mod 12 = m - 1"
    using split_twelve [of "m - 1" y] by (simp_all add: add_diff_eq)
  then show ?thesis using m by (simp add: first_of_def Suc_nat_eq_nat_zadd1)
qed

lemma in_month: "date_wf x \<Longrightarrow> first_of (month_index x) \<le> rata x \<and> rata x < first_of (month_index x + 1)"
proof -
  assume wf: "date_wf x"
  obtain y m d where x: "x = (y, m, d)" by (cases x)
  have f: "first_of (month_index x) = rata (y, m, 1)" using first_of_index [of "int m" y] wf x by simp
  have "month_index x div 12 = y" "nat (month_index x mod 12) + 1 = m"
  proof -
    have "1 \<le> int m" "int m \<le> 12" using wf x by auto
    then have "(12 * y + int m - 1) div 12 = y" "(12 * y + int m - 1) mod 12 = int m - 1"
      using split_twelve [of "int m - 1" y] by (simp_all add: add_diff_eq)
    then show "month_index x div 12 = y" "nat (month_index x mod 12) + 1 = m" using x wf by simp_all
  qed
  then have "first_of (month_index x + 1) = rata (y, m, 1) + int (month_length y m)" using f by (simp add: first_of_next)
  then show ?thesis using f wf x by (simp add: rata.simps)
qed

lemma first_of_le_iff: "date_wf x \<Longrightarrow> first_of p \<le> rata x \<longleftrightarrow> p \<le> month_index x"
  using in_month [of x] first_of_mono [of p "month_index x"] first_of_mono [of "month_index x + 1" p] by force

lemma month_dates_index: "1 \<le> m \<Longrightarrow> m \<le> 12 \<Longrightarrow> date_ok x \<Longrightarrow> x \<in> month_dates y m \<longleftrightarrow> month_index x = 12 * y + m - 1"
proof -
  assume m: "1 \<le> m" "m \<le> 12" and x: "date_ok x"
  obtain y' m' d where [simp]: "x = (y', m', d)" by (cases x)
  have "1 \<le> int m'" "int m' \<le> 12" using x by (auto simp: date_ok_def)
  then have "12 * y' + int m' - 1 = 12 * y + m - 1 \<longleftrightarrow> y' = y \<and> int m' = m" using m by (cases y' y rule: linorder_cases) auto
  then show ?thesis using x by (auto simp: month_dates_def)
qed

lemma month_chunk:
  assumes "1 \<le> m" "m \<le> 12"
  shows "{x \<in> month_dates y m. P x} = {x. P x \<and> date_ok x \<and> first_of (12 * y + m - 1) \<le> rata x \<and> rata x < first_of (12 * y + m)}"
proof (intro set_eqI iffI)
  fix x assume "x \<in> {x \<in> month_dates y m. P x}"
  then show "x \<in> {x. P x \<and> date_ok x \<and> first_of (12 * y + m - 1) \<le> rata x \<and> rata x < first_of (12 * y + m)}"
    using month_dates_index [OF assms, of x y] in_month [of x] by (auto simp: month_dates_def)
next
  fix x assume x: "x \<in> {x. P x \<and> date_ok x \<and> first_of (12 * y + m - 1) \<le> rata x \<and> rata x < first_of (12 * y + m)}"
  then have "month_index x = 12 * y + m - 1"
    using first_of_le_iff [of x "12 * y + m - 1"] first_of_le_iff [of x "12 * y + m"] by force
  then show "x \<in> {x \<in> month_dates y m. P x}" using x month_dates_index [OF assms, of x y] by auto
qed

section \<open>Monthly\<close>

definition monthly_set :: "recurrence_rule \<Rightarrow> date \<Rightarrow> date set" where
  "monthly_set r start = {x. date_ok x \<and> int (rr_interval r) dvd month_index x - month_index start \<and> selected r start x}"

text \<open>An interval no month's sum overflows on.\<close>

definition interval_fits :: "recurrence_rule \<Rightarrow> bool" where
  "interval_fits r \<longleftrightarrow> rr_interval r + 11 < 2 ^ 31 \<or> 2 ^ 31 \<le> rr_interval r"

lemma month_sum: "(12 * y + m - 1 + n) div 12 = y + (m - 1 + n) div 12" "(12 * y + m - 1 + n) mod 12 = (m - 1 + n) mod (12 :: int)"
proof -
  have z: "12 * y + m - 1 + n = (m - 1 + n) + 12 * y" by simp
  show "(12 * y + m - 1 + n) div 12 = y + (m - 1 + n) div 12" unfolding z by simp
  show "(12 * y + m - 1 + n) mod 12 = (m - 1 + n) mod 12" unfolding z by (simp only: mod_mult_self2)
qed

lemma add_months_cases:
  assumes "1 \<le> m" "m \<le> 12" "interval_fits r"
  obtains "add_months y m (rr_interval r) = Some None"
  | "add_months y m (rr_interval r) = Some (Some ((12 * y + m - 1 + int (rr_interval r)) div 12, (12 * y + m - 1 + int (rr_interval r)) mod 12 + 1))"
proof -
  let ?z = "m - 1 + int (rr_interval r)"
  have sum: "add_months y m (rr_interval r) \<in> {Some None, Some (Some (y + ?z div 12, ?z mod 12 + 1))}"
    using assms by (auto simp: add_months_def Let_def interval_fits_def to_i16_def)
  then show thesis using that month_sum [of y m "int (rr_interval r)"] by auto
qed

lemma monthly_loop_generates:
  assumes cv: "civil_ok cv" and r: "rule_ok r" "interval_fits r" and start: "date_ok (ac_start a0)"
  defines "C \<equiv> monthly_set r (ac_start a0)"
  shows "acc_inv a0 C (first_of p) a \<Longrightarrow> int (rr_interval r) dvd p - month_index (ac_start a0) \<Longrightarrow>
    generates a0 C (monthly_loop cv r (rr_interval r) (p div 12) (p mod 12 + 1) a)"
proof (induction "nat (120000 - p)" arbitrary: p a rule: less_induct)
  case less
  let ?y = "p div 12" and ?m = "p mod 12 + 1"
  have m: "1 \<le> ?m" "?m \<le> 12" by simp_all
  have p: "12 * ?y + ?m - 1 = p" by presburger
  have n: "0 < int (rr_interval r)" using r(1) by (simp add: rule_ok_def)
  note D = acc_invD [OF less.prems(1)]
  obtain v where v: "ymd cv ?y ?m 1 = Some v" by (metis add_days_returns(2) not_None_eq)
  show ?case
  proof (cases v)
    case (Inl e) then show ?thesis using v by (subst monthly_loop.simps) simp
  next
    case (Inr first)
    have first: "date_ok first" "first = (?y, nat ?m, 1)" using v Inr cv by (auto simp: ymd_ok)
    then have f: "rata first = first_of p" using first_of_index [OF m, of ?y] p by simp
    have small: "p < 120000" using first by (auto simp: date_ok_def)
    show ?thesis
    proof (cases "ac_upper a < first")
      case True
      have "gives a0 C a"
      proof (rule inv_gives [OF less.prems(1)])
        fix x assume "date_ok x" "first_of p \<le> rata x"
        then show "\<not> kept a0 x" using rata_le_iff [of first x] first(1) f True D by (auto simp: kept_def)
      qed
      then show ?thesis using v Inr True by (subst monthly_loop.simps) simp
    next
      case False
      obtain w where w: "rule_days_in_month cv ?y ?m r (ac_start a0) = Some w" by (metis rule_days_returns not_None_eq)
      show ?thesis
      proof (cases w)
        case (Inl e) then show ?thesis using v Inr w False D by (subst monthly_loop.simps) simp
      next
        case Days: (Inr days)
        note days = rule_days_set [OF cv m(1) r(1) start w [unfolded Days]]
        have set: "set days = {x \<in> C. date_ok x \<and> first_of p \<le> rata x \<and> rata x < first_of (p + 1)}"
        proof -
          have "set days = {x. selected r (ac_start a0) x \<and> date_ok x \<and> first_of p \<le> rata x \<and> rata x < first_of (p + 1)}"
            unfolding days(2) month_chunk [OF m] using p by (simp add: algebra_simps)
          moreover have "month_index x = p" if "date_ok x" "first_of p \<le> rata x" "rata x < first_of (p + 1)" for x
            using that first_of_le_iff [of x p] first_of_le_iff [of x "p + 1"] by force
          ultimately show ?thesis using less.prems(2) by (auto simp: C_def monthly_set_def)
        qed
        have le: "first_of p \<le> first_of (p + 1)" by (intro first_of_mono) simp
        show ?thesis
        proof (cases rule: emit_each_cases [OF less.prems(1) start days(1) set le])
          case (3 a')
          show ?thesis
          proof (cases rule: add_months_cases [OF m r(2), of ?y])
            case 1 then show ?thesis using v Inr w Days False D 3 by (subst monthly_loop.simps) simp
          next
            case 2
            have "acc_inv a0 C (first_of (p + int (rr_interval r))) a'"
            proof (rule inv_skip [OF 3(2)])
              fix x assume x: "x \<in> C" "date_ok x" "first_of (p + 1) \<le> rata x" "rata x < first_of (p + int (rr_interval r))"
              then have "p + 1 \<le> month_index x" "month_index x < p + int (rr_interval r)"
                using first_of_le_iff [of x "p + 1"] first_of_le_iff [of x "p + int (rr_interval r)"] by auto
              then show False using x(1) less.prems(2)
                  no_multiple_between [of "int (rr_interval r)" "p - month_index (ac_start a0)" "month_index x - month_index (ac_start a0)"]
                by (simp add: C_def monthly_set_def)
            qed (use n in \<open>intro first_of_mono, simp\<close>)
            moreover have "int (rr_interval r) dvd p + int (rr_interval r) - month_index (ac_start a0)"
              using less.prems(2) by (metis add.commute add_diff_eq dvd_add_triv_left_iff)
            ultimately have "generates a0 C (monthly_loop cv r (rr_interval r) ((p + int (rr_interval r)) div 12) ((p + int (rr_interval r)) mod 12 + 1) a')"
              using n small by (intro less.hyps) simp_all
            then show ?thesis using v Inr w Days False D 3 2 p by (subst monthly_loop.simps) simp
          qed
        qed (use v Inr w Days False D in \<open>(subst monthly_loop.simps, simp)+\<close>)
      qed
    qed
  qed
qed


section \<open>Yearly\<close>

definition yearly_set :: "recurrence_rule \<Rightarrow> int list \<Rightarrow> date \<Rightarrow> date set" where
  "yearly_set r months start =
     {x. date_ok x \<and> int (rr_interval r) dvd fst x - fst start \<and> int (fst (snd x)) \<in> set months \<and> selected r start x}"

lemma date_index: "date_ok x \<Longrightarrow> month_index x = 12 * fst x + int (fst (snd x)) - 1 \<and> 1 \<le> int (fst (snd x)) \<and> int (fst (snd x)) \<le> 12"
  by (cases x) (auto simp: date_ok_def)

lemma emit_months_generates:
  fixes months :: "int list"
  assumes cv: "civil_ok cv" and r: "rule_ok r" and start: "date_ok (ac_start a0)"
    and year: "int (rr_interval r) dvd year - fst (ac_start a0)"
  defines "C \<equiv> yearly_set r months (ac_start a0)"
  shows "acc_inv a0 C b a \<Longrightarrow> sorted_wrt (<) ms \<Longrightarrow> \<forall>m\<in>set ms. m \<in> set months \<and> 1 \<le> m \<and> m \<le> 12 \<and> b \<le> first_of (12 * year + m - 1) \<Longrightarrow>
    first_of (12 * year) \<le> b \<Longrightarrow> b \<le> first_of (12 * year + 12) \<Longrightarrow>
    \<forall>x\<in>C. date_ok x \<longrightarrow> b \<le> rata x \<longrightarrow> rata x < first_of (12 * year + 12) \<longrightarrow> int (fst (snd x)) \<in> set ms \<Longrightarrow>
    \<exists>v. emit_months cv r year ms a = Some v \<and>
      (\<forall>stop a'. v = Inr (stop, a') \<longrightarrow> (if stop then gives a0 C a' else acc_inv a0 C (first_of (12 * year + 12)) a'))"
proof (induction ms arbitrary: a b)
  case Nil
  then have "acc_inv a0 C (first_of (12 * year + 12)) a" by (intro inv_skip [OF Nil.prems(1)]) auto
  then show ?case by simp
next
  case (Cons m ms)
  have m: "1 \<le> m" "m \<le> 12" "m \<in> set months" "b \<le> first_of (12 * year + m - 1)" using Cons.prems(3) by auto
  note D = acc_invD [OF Cons.prems(1)]
  obtain w where w: "rule_days_in_month cv year m r (ac_start a0) = Some w" by (metis rule_days_returns not_None_eq)
  show ?case
  proof (cases w)
    case (Inl e) then show ?thesis using w D by simp
  next
    case (Inr days)
    note days = rule_days_set [OF cv m(1) r start w [unfolded Inr]]
    have set: "set days = {x \<in> C. date_ok x \<and> b \<le> rata x \<and> rata x < first_of (12 * year + m)}"
    proof (intro set_eqI iffI)
      fix x assume "x \<in> set days"
      then have x: "x \<in> {x \<in> month_dates year m. selected r (ac_start a0) x}" using days(2) by simp
      then have "first_of (12 * year + m - 1) \<le> rata x" "rata x < first_of (12 * year + m)"
        unfolding month_chunk [OF m(1,2)] by simp_all
      then show "x \<in> {x \<in> C. date_ok x \<and> b \<le> rata x \<and> rata x < first_of (12 * year + m)}"
        using x m(3,4) year by (simp add: C_def yearly_set_def month_dates_def)
    next
      fix x assume x: "x \<in> {x \<in> C. date_ok x \<and> b \<le> rata x \<and> rata x < first_of (12 * year + m)}"
      have "first_of (12 * year + m) \<le> first_of (12 * year + 12)" using m by (intro first_of_mono) simp
      then have "int (fst (snd x)) \<in> set (m # ms)" using x Cons.prems(6) by auto
      then have ge: "m \<le> int (fst (snd x))" using Cons.prems(2) by auto
      have idx: "12 * year \<le> month_index x" "month_index x < 12 * year + m"
        using x Cons.prems(4) first_of_le_iff [of x "12 * year"] first_of_le_iff [of x "12 * year + m"] by auto
      then have y: "fst x = year" using date_index [of x] x m by auto
      then have "int (fst (snd x)) = m" using ge idx date_index [of x] x by simp
      then show "x \<in> set days" using y x days(2) by (simp add: month_dates_def C_def yearly_set_def)
    qed
    have le: "b \<le> first_of (12 * year + m)" using m(4) first_of_mono [of "12 * year + m - 1" "12 * year + m"] by simp
    show ?thesis
    proof (cases rule: emit_each_cases [OF Cons.prems(1) start days(1) set le])
      case (3 a')
      have rest: "int (fst (snd x)) \<in> set ms" if x: "x \<in> C" "date_ok x" "first_of (12 * year + m) \<le> rata x" "rata x < first_of (12 * year + 12)" for x
      proof -
        have "int (fst (snd x)) \<in> set (m # ms)" using x le Cons.prems(6) by auto
        moreover have "12 * year + m \<le> month_index x" "month_index x < 12 * year + 12"
          using x first_of_le_iff [of x "12 * year + m"] first_of_le_iff [of x "12 * year + 12"] by auto
        then have "int (fst (snd x)) \<noteq> m" using date_index [OF x(2)] m by auto
        ultimately show ?thesis by simp
      qed
      have "\<exists>v. emit_months cv r year ms a' = Some v \<and>
        (\<forall>stop a'. v = Inr (stop, a') \<longrightarrow> (if stop then gives a0 C a' else acc_inv a0 C (first_of (12 * year + 12)) a'))"
        using Cons.prems(2,3) m rest by (intro Cons.IH [OF 3(2)]) (auto intro!: first_of_mono)
      then show ?thesis using w Inr D 3 by simp
    qed (use w Inr D in simp_all)
  qed
qed

lemma yearly_loop_generates:
  assumes cv: "civil_ok cv" and r: "rule_ok r" and start: "date_ok (ac_start a0)"
    and months: "sorted_wrt (<) months" "\<forall>m\<in>set months. 1 \<le> m \<and> m \<le> 12"
  defines "C \<equiv> yearly_set r months (ac_start a0)"
  shows "acc_inv a0 C (first_of (12 * year)) a \<Longrightarrow> int (rr_interval r) dvd year - fst (ac_start a0) \<Longrightarrow>
    generates a0 C (yearly_loop cv r months (int (rr_interval r)) year a)"
proof (induction "nat (10000 - year)" arbitrary: year a rule: less_induct)
  case less
  have n: "0 < int (rr_interval r)" using r(1) by (simp add: rule_ok_def)
  note D = acc_invD [OF less.prems(1)]
  obtain v where v: "ymd cv year 1 1 = Some v" by (metis add_days_returns(2) not_None_eq)
  show ?case
  proof (cases v)
    case (Inl e) then show ?thesis using v by (subst yearly_loop.simps) simp
  next
    case (Inr first)
    have first: "date_ok first" "first = (year, 1, 1)" using v Inr cv by (auto simp: ymd_ok)
    then have f: "rata first = first_of (12 * year)" using first_of_index [of 1 year] by simp
    have small: "year < 10000" using first by (auto simp: date_ok_def)
    show ?thesis
    proof (cases "ac_upper a < first")
      case True
      have "gives a0 C a"
      proof (rule inv_gives [OF less.prems(1)])
        fix x assume "date_ok x" "first_of (12 * year) \<le> rata x"
        then show "\<not> kept a0 x" using rata_le_iff [of first x] first(1) f True D by (auto simp: kept_def)
      qed
      then show ?thesis using v Inr True by (subst yearly_loop.simps) simp
    next
      case False
      have "\<exists>v. emit_months cv r year months a = Some v \<and>
        (\<forall>stop a'. v = Inr (stop, a') \<longrightarrow> (if stop then gives a0 C a' else acc_inv a0 C (first_of (12 * year + 12)) a'))"
        unfolding C_def
        by (rule emit_months_generates [OF cv r start less.prems(2) less.prems(1) [unfolded C_def] months(1)])
          (use months(2) in \<open>auto simp: yearly_set_def intro!: first_of_mono\<close>)
      then obtain w where w: "emit_months cv r year months a = Some w"
        and res: "\<And>stop a'. w = Inr (stop, a') \<Longrightarrow> if stop then gives a0 C a' else acc_inv a0 C (first_of (12 * year + 12)) a'" by blast
      show ?thesis
      proof (cases w)
        case (Inl e) then show ?thesis using v Inr w False by (subst yearly_loop.simps) simp
      next
        case Emitted: (Inr q)
        obtain stop a' where q: "q = (stop, a')" by (cases q)
        show ?thesis
        proof (cases stop)
          case True then show ?thesis using v Inr w Emitted q False res [of stop a'] by (subst yearly_loop.simps) simp
        next
          case go: False
          have inv: "acc_inv a0 C (first_of (12 * year + 12)) a'" using res [of stop a'] Emitted q go by simp
          have "acc_inv a0 C (first_of (12 * (year + int (rr_interval r)))) a'"
          proof (rule inv_skip [OF inv])
            fix x assume x: "x \<in> C" "date_ok x" "first_of (12 * year + 12) \<le> rata x" "rata x < first_of (12 * (year + int (rr_interval r)))"
            then have "12 * year + 12 \<le> month_index x" "month_index x < 12 * (year + int (rr_interval r))"
              using first_of_le_iff [of x "12 * year + 12"] first_of_le_iff [of x "12 * (year + int (rr_interval r))"] by auto
            then have "year < fst x" "fst x < year + int (rr_interval r)" using date_index [OF x(2)] by auto
            then show False using x(1) less.prems(2)
                no_multiple_between [of "int (rr_interval r)" "year - fst (ac_start a0)" "fst x - fst (ac_start a0)"]
              by (simp add: C_def yearly_set_def)
          qed (use n in \<open>intro first_of_mono, simp\<close>)
          moreover have "int (rr_interval r) dvd year + int (rr_interval r) - fst (ac_start a0)"
            using less.prems(2) by (metis add.commute add_diff_eq dvd_add_triv_left_iff)
          ultimately have "generates a0 C (yearly_loop cv r months (int (rr_interval r)) (year + int (rr_interval r)) a')"
            using n small by (intro less.hyps) simp_all
          then show ?thesis using v Inr w Emitted q go False
            by (subst yearly_loop.simps) (simp add: to_i16_def)
        qed
      qed
    qed
  qed
qed


section \<open>Starting the generation\<close>

definition acc_new :: "date \<Rightarrow> date \<Rightarrow> int set option \<Rightarrow> nat option \<Rightarrow> nat \<Rightarrow> acc" where
  "acc_new start upper by_month count cap =
     \<lparr>ac_out = [], ac_seen = {}, ac_start = start, ac_upper = upper, ac_by_month = by_month, ac_count = count, ac_cap = cap\<rparr>"

lemma acc_new_sel [simp]: "ac_start (acc_new s u b c k) = s" "ac_upper (acc_new s u b c k) = u" "ac_by_month (acc_new s u b c k) = b"
  "ac_count (acc_new s u b c k) = c" "ac_cap (acc_new s u b c k) = k" "ac_out (acc_new s u b c k) = []" "ac_seen (acc_new s u b c k) = {}"
  by (simp_all add: acc_new_def)

lemma emit_start:
  assumes start: "date_ok start" and b: "b \<le> rata start + 1" and count: "c \<noteq> Some 0"
    and e: "emit start (acc_new start u bm c k) = ok (stop, a)"
  shows "if stop then gives (acc_new start u bm c k) C a else acc_inv (acc_new start u bm c k) C b a"
proof -
  let ?a = "acc_new start u bm c k"
  have below: "below ?a C b = (if kept ?a start then {start} else {})"
  proof -
    have "x = start" if "x \<in> below ?a C b" for x
    proof -
      have "date_ok x" "start \<le> x" "rata x < b \<or> x = start" using that by (auto simp: below_def full_def kept_def)
      then show ?thesis using rata_le_iff [of x start] start b by (auto intro: antisym)
    qed
    moreover have "start \<in> below ?a C b \<longleftrightarrow> kept ?a start" using start by (simp add: below_def full_def)
    ultimately show ?thesis by auto
  qed
  show ?thesis
  proof (cases "kept ?a start")
    case False
    then have "stop = False" "a = ?a" using e by (auto simp: emit_def kept_def split: if_splits)
    moreover have "acc_inv ?a C b ?a"
      using False below count by (auto simp: acc_inv_def count_reached_def acc_new_def split: option.splits)
    ultimately show ?thesis by simp
  next
    case True
    then have a: "a = ?a\<lparr>ac_seen := {start}, ac_out := [start]\<rparr>" and stop: "stop \<longleftrightarrow> (\<exists>n. c = Some n \<and> n \<le> 1)"
      using e by (auto simp: emit_def kept_def Let_def count_reached_def split: if_splits option.splits)
    show ?thesis
    proof (cases stop)
      case True
      then have c: "c = Some 1" using stop count by (auto simp: le_Suc_eq)
      let ?rest = "full ?a C - {start}"
      have "full ?a C = {start} \<union> ?rest" using \<open>kept ?a start\<close> start by (auto simp: full_def)
      moreover have "start < z" if "z \<in> ?rest" for z using that by (auto simp: full_def kept_def order_le_less)
      ultimately have "sorted_list_of_set (full ?a C) = [start] @ sorted_list_of_set ?rest"
        using sorted_list_of_set_append [of "{start}" ?rest] by simp
      then show ?thesis using True a c by (simp add: gives_def truncated_def)
    next
      case False
      then have "\<not> count_reached a" using stop a by (auto simp: count_reached_def split: option.splits)
      moreover have "a = ?a\<lparr>ac_out := ac_out a, ac_seen := set (ac_out a)\<rparr>" by (simp add: a acc_new_def)
      moreover have "ac_out a = sorted_list_of_set (below ?a C b)" using below \<open>kept ?a start\<close> by (simp add: a)
      ultimately have "acc_inv ?a C b a" unfolding acc_inv_def by blast
      then show ?thesis using False by simp
    qed
  qed
qed

text \<open>The candidates of a rule: what its frequency generates.\<close>

definition candidates :: "civil \<Rightarrow> recurrence_rule \<Rightarrow> int set option \<Rightarrow> date \<Rightarrow> date set" where
  "candidates cv r bm start = (case rr_frequency r of
      Daily \<Rightarrow> daily_set cv r start
    | Weekly \<Rightarrow> weekly_set (jiff_weekday (rr_first_day_of_week r)) (weekly_targets cv start r) (int (rr_interval r) * 7)
        (week_start (jiff_weekday (rr_first_day_of_week r)) start)
    | Monthly \<Rightarrow> monthly_set r start
    | Yearly \<Rightarrow> yearly_set r (case bm of Some s \<Rightarrow> sorted_list_of_set s | None \<Rightarrow> [int (fst (snd start))]) start
    | _ \<Rightarrow> {})"

lemma jiff_weekday_range [simp]: "0 \<le> jiff_weekday w" "jiff_weekday w < 7"
  by (cases w; simp)+

lemma weekday_of_range [simp]: "0 \<le> weekday_of x" "weekday_of x < 7"
  by (simp_all add: weekday_of_def)

lemma week_anchor: "0 \<le> k \<Longrightarrow> k < 7 \<Longrightarrow> (s - ((s - 1) mod 7 - k) mod 7 - 1) mod 7 = (k :: int)"
proof -
  assume k: "0 \<le> k" "k < 7"
  have "(t - x mod 7) mod 7 = (t mod 7 - x) mod 7" for t x :: int by (simp add: mod_simps)
  from this [of "s - 1" "(s - 1) mod 7 - k"] show ?thesis using k by (simp add: algebra_simps)
qed

lemma generate_generates:
  assumes cv: "civil_ok cv" and r: "rule_ok r" "rr_frequency r = Monthly \<Longrightarrow> interval_fits r" and start: "date_ok start"
    and freq: "rr_frequency r \<in> {Daily, Weekly, Monthly, Yearly}"
    and bm: "\<forall>s. bm = Some s \<longrightarrow> finite s \<and> s \<subseteq> {1..12}"
    and a0: "a0 = acc_new start u bm c k"
    and inv: "\<And>b. b \<le> rata start + 1 \<Longrightarrow> acc_inv a0 (candidates cv r bm start) b a"
  shows "generates a0 (candidates cv r bm start) (generate cv a r)"
proof -
  have acc: "ac_start a0 = start" "ac_start a = start" "ac_by_month a = bm"
    using acc_invD [OF inv [of "rata start"]] a0 by simp_all
  have ok: "date_ok (ac_start a0)" using start acc by simp
  have n: "0 < int (rr_interval r)" using r(1) by (simp add: rule_ok_def)
  have before: "first_of (month_index start) \<le> rata start" using in_month [of start] start by simp
  consider "rr_frequency r = Daily" | "rr_frequency r = Weekly" | "rr_frequency r = Monthly" | "rr_frequency r = Yearly" using freq by auto
  then show ?thesis
  proof cases
    case 1
    then show ?thesis
      using daily_loop_generates [OF cv r(1) ok, of start a] inv [of "rata start + 1"] start acc
      by (simp add: generate_def generate_daily_def candidates_def)
  next
    case 2
    let ?k = "jiff_weekday (rr_first_day_of_week r)"
    have wd: "cv_weekday cv start = weekday_of start" using civil_weekday [OF cv start] .
    show ?thesis
    proof (cases rule: add_days_cases [OF cv start, of "- ((weekday_of start - ?k) mod 7)"])
      case (1 e) then show ?thesis using 2 wd acc by (simp add: generate_def generate_weekly_def Let_def)
    next
      case (2 anchor)
      have ws: "rata anchor = week_start ?k start" using 2 by (simp add: week_start_def)
      have mod: "(rata anchor - 1) mod 7 = ?k"
        using 2(3) week_anchor [of ?k "rata start"] by (simp add: weekday_of_def)
      have targets: "\<forall>w\<in>set (weekly_targets cv start r). 0 \<le> w \<and> w < 7" using wd by (auto simp: weekly_targets_def)
      have "rata anchor \<le> rata start + 1" using 2(3) by simp
      from inv [OF this] have inv': "acc_inv a0 (weekly_set ?k (weekly_targets cv start r) (int (rr_interval r) * 7) (week_start ?k start)) (rata anchor) a"
        using \<open>rr_frequency r = Weekly\<close> by (simp add: candidates_def)
      show ?thesis
        using weekly_loop_generates [OF cv ok n targets inv' 2(2) mod] ws \<open>rr_frequency r = Weekly\<close> wd acc 2
        by (simp add: generate_def generate_weekly_def Let_def candidates_def)
    qed
  next
    case 3
    obtain y m d where s: "start = (y, m, d)" by (cases start)
    have "month_index start div 12 = y" "month_index start mod 12 + 1 = int m"
      using split_twelve [of "int m - 1" y] start s by (auto simp: date_ok_def add_diff_eq)
    moreover have "first_of (month_index start) \<le> rata start + 1" using before by simp
    note inv [OF this]
    ultimately show ?thesis
      using monthly_loop_generates [OF cv r(1) r(2) [OF 3] ok, of "month_index start" a] 3 acc s
      by (simp add: generate_def generate_monthly_def candidates_def)
  next
    case 4
    let ?months = "case bm of Some s \<Rightarrow> sorted_list_of_set s | None \<Rightarrow> [int (fst (snd start))]"
    have months: "sorted_wrt (<) ?months" by (cases bm) simp_all
    have named: "\<forall>m\<in>set ?months. 1 \<le> m \<and> m \<le> 12"
    proof (cases bm)
      case (Some s) then show ?thesis using bm by (simp add: subset_iff)
    qed (use date_index [OF start] in simp)
    have "first_of (12 * fst start) \<le> first_of (month_index start)" using date_index [OF start] by (intro first_of_mono) simp
    then have "first_of (12 * fst start) \<le> rata start + 1" using before by simp
    from inv [OF this] show ?thesis
      using yearly_loop_generates [OF cv r(1) ok months named, of "fst start" a] 4 acc
      by (auto simp: generate_def generate_yearly_def candidates_def Let_def to_i16_def split: option.split)
  qed
qed

end
