(* ===== verification/Recurrence_Sets.thy ===== *)
theory Recurrence_Sets
  imports Recurrence_Loops
begin

text \<open>
  The candidates the loops generate are the dates of the generated set, so the dates of a rule are that
  set in order, cut at its count; and the recurrence set of a rule as RFC 5545 and the crate's documentation have
  it, with the rules on which the two are the same.
\<close>

lemma supported:
  assumes "check_supported r = ok ()"
  shows "rr_frequency r \<in> {Daily, Weekly, Monthly, Yearly}" "rr_frequency r \<in> {Daily, Weekly} \<Longrightarrow> \<forall>nd\<in>set (rr_by_day r). nd_nth_of_period nd = None"
  using assms by (auto simp: check_supported_def has_nth_def list_ex_iff split: if_splits)

lemma month_entry_ok: "month_entry e = ok m \<longleftrightarrow> takeWhile is_digit e \<noteq> [] \<and> m = int (undecimal (takeWhile is_digit e)) \<and> 1 \<le> m \<and> m \<le> 12"
  by (auto simp: month_entry_def parse_i8_def split: option.splits if_splits)

lemma parse_by_month_ok:
  assumes "parse_by_month ms = ok bm"
  shows "bm = (if ms = [] then None else Some ((\<lambda>e. int (undecimal (takeWhile is_digit e))) ` set ms))"
    "\<forall>s. bm = Some s \<longrightarrow> finite s \<and> s \<subseteq> {1..12}"
proof -
  obtain xs where xs: "ms \<noteq> [] \<Longrightarrow> list_all2 (\<lambda>e m. month_entry e = ok m) ms xs \<and> bm = Some (set xs)"
    using assms by (auto simp: parse_by_month_def xbind_ok xmap_ok split: if_splits)
  have "set ys = (\<lambda>e. int (undecimal (takeWhile is_digit e))) ` set es \<and> set ys \<subseteq> {1..12}"
    if "list_all2 (\<lambda>e m. month_entry e = ok m) es ys" for es ys
    using that by (induction rule: list_all2_induct) (auto simp: month_entry_ok)
  then show "bm = (if ms = [] then None else Some ((\<lambda>e. int (undecimal (takeWhile is_digit e))) ` set ms))"
    "\<forall>s. bm = Some s \<longrightarrow> finite s \<and> s \<subseteq> {1..12}"
    using xs assms by (auto simp: parse_by_month_def split: if_splits)
qed

lemma month_allowed_named: "parse_by_month (rr_by_month r) = ok bm \<Longrightarrow> month_allowed bm x \<longleftrightarrow> month_named r x"
  by (cases "rr_by_month r = []") (force dest!: parse_by_month_ok(1) simp: month_allowed_def month_named_def list_ex_iff image_iff)+

lemma daily_matches_selected:
  assumes "civil_ok cv" "date_ok x" "\<forall>nd\<in>set (rr_by_day r). nd_nth_of_period nd = None"
  shows "daily_matches cv x r \<longleftrightarrow> day_selected r x \<and> month_day_selected r x"
  using assms civil_dim [OF assms(1)]
  by (cases x) (force simp: daily_matches_def day_selected_def list_ex_iff civil_weekday)

lemma candidates_recur:
  assumes cv: "civil_ok cv" and start: "date_ok start" and sup: "check_supported r = ok ()" and bm: "parse_by_month (rr_by_month r) = ok bm"
    and x: "date_ok x" "month_named r x"
  shows "x \<in> candidates cv r bm start \<longleftrightarrow> generated_by r start x"
proof -
  note S = supported [OF sup]
  have named: "month_allowed bm x" using month_allowed_named [OF bm] x by simp
  consider "rr_frequency r = Daily" | "rr_frequency r = Weekly" | "rr_frequency r = Monthly" | "rr_frequency r = Yearly" using S(1) by auto
  then show ?thesis
  proof cases
    case 1
    then show ?thesis using daily_matches_selected [OF cv x(1)] S(2) x by (auto simp: candidates_def daily_set_def generated_by_def Let_def)
  next
    case 2
    then have "weekday_of x \<in> set (weekly_targets cv start r) \<longleftrightarrow> (if rr_by_day r = [] then weekday_of x = weekday_of start else day_selected r x)"
      using S(2) civil_weekday [OF cv start] by (auto simp: weekly_targets_def day_selected_def list_ex_iff split: option.splits)
    then show ?thesis using 2 x by (simp add: candidates_def weekly_set_def generated_by_def Let_def mult.commute conj_commute)
  next
    case 3 then show ?thesis using x by (simp add: candidates_def monthly_set_def generated_by_def Let_def)
  next
    case 4
    then show ?thesis using x named parse_by_month_ok [OF bm]
      by (auto simp: candidates_def yearly_set_def generated_by_def Let_def month_allowed_def split: if_splits)
  qed
qed

lemma rule_upper_ok:
  assumes "civil_ok cv" "rule_upper cv b window_end = ok upper"
  shows "x \<le> upper \<longleftrightarrow> x \<le> window_end \<and> (case b of Until until \<Rightarrow> x \<le> fst until | _ \<Rightarrow> True)"
  using assms by (auto simp: rule_upper_def xbind_ok ymd_ok to_i16_def split: recurrence_bound.splits if_splits)

lemma full_generated_set:
  assumes "civil_ok cv" "date_ok start" "check_supported r = ok ()" "parse_by_month (rr_by_month r) = ok bm"
    "rule_upper cv (rr_bound r) window_end = ok upper"
  shows "full (acc_new start upper bm c k) (candidates cv r bm start) = generated_set r start window_end"
proof (intro set_eqI iffI)
  fix x assume "x \<in> full (acc_new start upper bm c k) (candidates cv r bm start)"
  then show "x \<in> generated_set r start window_end"
    using rule_upper_ok [OF assms(1,5), of x] month_allowed_named [OF assms(4), of x] candidates_recur [OF assms(1-4), of x]
    by (auto simp: full_def kept_def generated_set_def)
next
  fix x assume "x \<in> generated_set r start window_end"
  then show "x \<in> full (acc_new start upper bm c k) (candidates cv r bm start)"
    using rule_upper_ok [OF assms(1,5), of x] month_allowed_named [OF assms(4), of x] candidates_recur [OF assms(1-4), of x]
    by (auto simp: full_def kept_def generated_set_def)
qed

lemma simple_returns: "check_supported r \<noteq> None" "rule_upper cv b window_end \<noteq> None" "parse_by_month ms \<noteq> None"
proof -
  show "check_supported r \<noteq> None" by (simp add: check_supported_def)
  show "rule_upper cv b window_end \<noteq> None"
    by (auto simp: rule_upper_def xbind_returns simp del: not_None_eq split: recurrence_bound.split option.split)
  have "month_entry e \<noteq> None" for e by (simp add: month_entry_def split: option.split)
  then show "parse_by_month ms \<noteq> None" by (simp add: parse_by_month_def xbind_returns xmap_returns del: not_None_eq)
qed

lemma occurrence_dates_set:
  assumes cv: "civil_ok cv" and r: "rule_ok r" "rr_frequency r = Monthly \<Longrightarrow> interval_fits r" and start: "date_ok start"
  shows "occurrence_dates cv start r window_end cap \<noteq> None \<and>
    (\<forall>out. occurrence_dates cv start r window_end cap = ok out \<longrightarrow>
       out = truncated (bound_count (rr_bound r)) (sorted_list_of_set (generated_set r start window_end)))"
proof (cases "\<exists>upper bm. check_supported r = ok () \<and> rule_upper cv (rr_bound r) window_end = ok upper \<and> parse_by_month (rr_by_month r) = ok bm")
  case False
  have "check_supported r \<noteq> None" "rule_upper cv (rr_bound r) window_end \<noteq> None" "parse_by_month (rr_by_month r) \<noteq> None" by (rule simple_returns)+
  with False show ?thesis
    by (auto simp: occurrence_dates_def xbind_def split: sum.splits)
next
  case True
  then obtain upper bm where pre: "check_supported r = ok ()" "rule_upper cv (rr_bound r) window_end = ok upper" "parse_by_month (rr_by_month r) = ok bm" by blast
  let ?c = "bound_count (rr_bound r)"
  let ?a0 = "acc_new start upper bm ?c cap"
  let ?C = "candidates cv r bm start"
  let ?S = "generated_set r start window_end"
  have full: "full ?a0 ?C = ?S" using full_generated_set [OF cv start pre(1,3,2)] .
  have count: "?c \<noteq> Some 0" using r(1) by (auto simp: bound_count_def rule_ok_def split: recurrence_bound.splits)
  have od: "occurrence_dates cv start r window_end cap = xbind (emit start ?a0) (\<lambda>(stop, a). xbind (if stop then ok a else generate cv a r) (\<lambda>a.
      ok (truncated ?c (sort (ac_out a)))))"
    by (simp add: occurrence_dates_def pre acc_new_def Let_def truncated_def)
  have cut: "truncated ?c (sort (ac_out a)) = truncated ?c (sorted_list_of_set ?S)" if "gives ?a0 ?C a" for a
  proof -
    have "ac_out a = truncated ?c (sorted_list_of_set ?S)" using that full by (simp add: gives_def)
    then have "sort (ac_out a) = ac_out a" by (simp add: truncated_def sorted_sort_id sorted_wrt_take split: option.splits)
    then show ?thesis using \<open>ac_out a = _\<close> by (simp add: truncated_def split: option.splits)
  qed
  obtain v where v: "emit start ?a0 = Some v" by (metis emit_returns not_None_eq)
  show ?thesis
  proof (cases v)
    case (Inl e) then show ?thesis using v od by simp
  next
    case (Inr p)
    obtain stop a where p: "p = (stop, a)" by (cases p)
    note e = v [unfolded Inr p]
    show ?thesis
    proof (cases stop)
      case True
      then have "gives ?a0 ?C a" using emit_start [OF start _ count e, of "rata start"] by simp
      then show ?thesis using od e True cut by simp
    next
      case False
      then have "acc_inv ?a0 ?C b a" if "b \<le> rata start + 1" for b using emit_start [OF start that count e, of ?C] by simp
      then have "generates ?a0 ?C (generate cv a r)"
        using generate_generates [OF cv r start supported(1) [OF pre(1)] parse_by_month_ok(2) [OF pre(3)] refl] by blast
      then show ?thesis using od e False cut by (auto simp: generates_def xbind_ok xbind_None)
    qed
  qed
qed

section \<open>What a rule means\<close>

text \<open>
  The recurrence set of a rule: its start, whatever months the rule names, and the dates its frequency, interval and
  BY-parts select. A yearly rule that names days but no month selects them in every month.
\<close>

definition recurs :: "recurrence_rule \<Rightarrow> date \<Rightarrow> date \<Rightarrow> bool" where
  "recurs r start x \<longleftrightarrow> (let n = int (rr_interval r); wkst = jiff_weekday (rr_first_day_of_week r) in case rr_frequency r of
      Daily \<Rightarrow> n dvd rata x - rata start \<and> day_selected r x \<and> month_day_selected r x
    | Weekly \<Rightarrow> 7 * n dvd week_start wkst x - week_start wkst start \<and> month_day_selected r x \<and>
        (if rr_by_day r = [] then weekday_of x = weekday_of start else day_selected r x)
    | Monthly \<Rightarrow> n dvd month_index x - month_index start \<and> selected r start x
    | Yearly \<Rightarrow> n dvd fst x - fst start \<and> selected r start x \<and>
        (rr_by_month r = [] \<and> rr_by_day r = [] \<and> rr_by_month_day r = [] \<longrightarrow> fst (snd x) = fst (snd start))
    | _ \<Rightarrow> False)"

definition recurrence_set :: "recurrence_rule \<Rightarrow> date \<Rightarrow> date set" where
  "recurrence_set r start =
     {x. date_ok x \<and> start \<le> x \<and> (case rr_bound r of Until until \<Rightarrow> x \<le> fst until | _ \<Rightarrow> True) \<and>
         (x = start \<or> month_named r x \<and> recurs r start x)}"

text \<open>
  The rules on which the code does what they mean: the start is in a month the rule names; a yearly rule without
  months names no days; a weekly rule names no days of the month.
\<close>

definition rule_meant :: "recurrence_rule \<Rightarrow> date \<Rightarrow> bool" where
  "rule_meant r start \<longleftrightarrow> month_named r start \<and>
     (rr_frequency r = Yearly \<and> rr_by_month r = [] \<longrightarrow> rr_by_day r = [] \<and> rr_by_month_day r = []) \<and>
     (rr_frequency r = Weekly \<longrightarrow> rr_by_month_day r = [])"

lemma generated_set_meant:
  assumes "rule_meant r start"
  shows "generated_set r start window_end = {x \<in> recurrence_set r start. x \<le> window_end}"
proof -
  have "month_day_selected r x" if "rr_frequency r = Weekly" for x
    using assms that by (cases x) (simp add: rule_meant_def)
  then have "generated_by r start x \<longleftrightarrow> recurs r start x" if "start < x" for x
    using assms that by (cases "rr_frequency r") (auto simp: generated_by_def recurs_def rule_meant_def Let_def)
  moreover have "month_named r start" using assms by (simp add: rule_meant_def)
  ultimately show ?thesis unfolding generated_set_def recurrence_set_def by (auto simp: order_le_less)
qed

end
