(* ===== verification/Recurrence_Total.thy ===== *)
theory Recurrence_Total
  imports Recurrence_Sets
begin

text \<open>
  When the dates of a rule are generated without an error: for a supported rule whose window, one step further,
  still lies in the calendar, and holds no more days than the cap.
\<close>

section \<open>Room in the accumulator\<close>

definition days_between :: "date \<Rightarrow> date \<Rightarrow> date set" where
  "days_between a b = {x. date_ok x \<and> a \<le> x \<and> x \<le> b}"

lemma card_days_between: "date_ok a \<Longrightarrow> date_ok b \<Longrightarrow> int (card (days_between a b)) \<le> max 0 (rata b - rata a + 1)"
proof -
  assume ok: "date_ok a" "date_ok b"
  have "inj_on rata (days_between a b)" by (auto simp: inj_on_def days_between_def rata_eq_iff simp del: rata.simps)
  moreover have "rata ` days_between a b \<subseteq> {rata a..rata b}"
  proof (rule image_subsetI)
    fix x assume "x \<in> days_between a b"
    then show "rata x \<in> {rata a..rata b}"
      using ok rata_le_iff [of a x] rata_le_iff [of x b] by (simp add: days_between_def)
  qed
  ultimately have "card (days_between a b) \<le> card {rata a..rata b}" by (metis card_inj_on_le finite_atLeastAtMost_int)
  then show ?thesis by simp
qed

lemma finite_days_between [simp]: "finite (days_between a b)"
  by (rule finite_subset [OF _ finite_dates]) (auto simp: days_between_def)

definition roomy :: "acc \<Rightarrow> bool" where
  "roomy a \<longleftrightarrow> distinct (ac_out a) \<and> set (ac_out a) = ac_seen a \<and> ac_seen a \<subseteq> days_between (ac_start a) (ac_upper a) \<and>
     card (days_between (ac_start a) (ac_upper a)) \<le> ac_cap a"

text \<open>What emitting keeps.\<close>

definition grown :: "acc \<Rightarrow> acc \<Rightarrow> bool" where
  "grown a a' \<longleftrightarrow> roomy a' \<and> ac_start a' = ac_start a \<and> ac_upper a' = ac_upper a"

lemma emit_grows:
  assumes a: "roomy a" and x: "date_ok x"
  obtains stop a' where "emit x a = ok (stop, a')" "grown a a'"
proof (cases "ac_start a \<le> x \<and> x \<le> ac_upper a \<and> month_allowed (ac_by_month a) x \<and> x \<notin> ac_seen a")
  case True
  let ?a' = "a\<lparr>ac_seen := insert x (ac_seen a), ac_out := ac_out a @ [x]\<rparr>"
  have sub: "set (ac_out a @ [x]) \<subseteq> days_between (ac_start a) (ac_upper a)" and d: "distinct (ac_out a @ [x])"
    using a True x by (auto simp: roomy_def days_between_def)
  have "length (ac_out a @ [x]) \<le> ac_cap a"
    using card_mono [OF finite_days_between sub] distinct_card [OF d] a by (simp add: roomy_def)
  then have "emit x a = ok (count_reached ?a', ?a')" using True by (simp add: emit_def Let_def not_less [symmetric])
  moreover have "grown a ?a'" using a sub d by (auto simp: grown_def roomy_def)
  ultimately show thesis by (rule that)
next
  case False
  then have "emit x a = ok (False, a) \<or> emit x a = ok (count_reached a, a)" by (auto simp: emit_def)
  then show thesis using a that [of _ a] by (auto simp: grown_def)
qed

lemma grown_trans: "grown a b \<Longrightarrow> grown b c \<Longrightarrow> grown a c"
  by (simp add: grown_def)

lemma emit_each_grows:
  assumes "roomy a" "\<forall>x\<in>set xs. date_ok x"
  shows "\<exists>stop a'. emit_each xs a = ok (stop, a') \<and> grown a a'"
  using assms
proof (induction xs arbitrary: a)
  case (Cons x xs)
  obtain stop a' where e: "emit x a = ok (stop, a')" "grown a a'" using emit_grows [of a x] Cons.prems by auto
  then show ?case using Cons.IH [of a'] Cons.prems grown_trans [OF e(2)] by (cases stop) (auto simp: grown_def)
qed (auto simp: grown_def)

lemma emit_week_grows:
  assumes "roomy a" "\<forall>x\<in>set xs. date_ok x"
  shows "\<exists>stop a'. emit_week xs a = ok (stop, a') \<and> grown a a'"
  using assms
proof (induction xs arbitrary: a)
  case (Cons x xs)
  obtain stop a' where e: "emit x a = ok (stop, a')" "grown a a'" using emit_grows [of a x] Cons.prems by auto
  then show ?case using Cons.IH [of a'] Cons.prems grown_trans [OF e(2)]
    by (cases stop; cases "ac_upper a < x") (auto simp: grown_def)
qed (auto simp: grown_def)

section \<open>Dates that exist\<close>

lemma day_exists:
  assumes "date_ok x" "rata (- 9999, 1, 1) \<le> rata x + n" "rata x + n \<le> rata (9999, 12, 31)"
  shows "\<exists>d. date_ok d \<and> rata d = rata x + n"
proof -
  have s: "date_wf (step_days x n)" "rata (step_days x n) = rata x + n" using step_days [of x n] assms(1) by simp_all
  have "(- 9999, 1, 1) \<le> step_days x n" "step_days x n \<le> (9999, 12, 31)"
    using rata_le_iff [of "(- 9999, 1, 1)" "step_days x n"] rata_le_iff [of "step_days x n" "(9999, 12, 31)"] s assms(2,3)
    by (simp_all del: rata.simps)
  then have "date_ok (step_days x n)" using s(1) by (cases "step_days x n") (auto simp: date_ok_def)
  then show ?thesis using s(2) by blast
qed

lemma add_days_within:
  assumes "civil_ok cv" "date_ok x" "rata (- 9999, 1, 1) \<le> rata x + n" "rata x + n \<le> rata (9999, 12, 31)"
  obtains d where "add_days cv x n = ok d" "date_ok d" "rata d = rata x + n"
  using day_exists [OF assms(2-4)] add_days_ok [OF assms(1,2)] by metis

lemma first_day: "date_ok x \<Longrightarrow> rata (- 9999, 1, 1) \<le> rata x"
  using rata_le_iff [of "(- 9999, 1, 1)" x] by (cases x) (auto simp: date_ok_def simp del: rata.simps)

lemma xmap_succeeds: "\<forall>x\<in>set xs. \<exists>y. f x = ok y \<Longrightarrow> \<exists>ys. xmap f xs = ok ys"
  by (induction xs) auto


section \<open>The days of a month exist\<close>

definition nths_fit :: "recurrence_rule \<Rightarrow> bool" where
  "nths_fit r \<longleftrightarrow> list_all (\<lambda>nd. case nd_nth_of_period nd of None \<Rightarrow> True | Some n \<Rightarrow> - 128 \<le> n \<and> n < 128) (rr_by_day r)"

lemma ymd_within:
  assumes "civil_ok cv" "date_ok (y, nat m, 1)" "0 \<le> m" "1 \<le> d" "d \<le> int (month_length y (nat m))"
  shows "ymd cv y m d = ok (y, nat m, nat d)"
  using assms by (auto simp: ymd_ok date_ok_def)

lemma ymd_first: "civil_ok cv \<Longrightarrow> date_ok (y, nat m, 1) \<Longrightarrow> 1 \<le> m \<Longrightarrow> ymd cv y m 1 = ok (y, nat m, 1)"
  by (simp add: ymd_ok)

lemma rule_days_succeed:
  assumes cv: "civil_ok cv" and m: "1 \<le> m" and first: "date_ok (y, nat m, 1)" and start: "date_ok start" and fit: "nths_fit r"
  shows "\<exists>days. rule_days_in_month cv y m r start = ok days"
proof -
  note day = ymd_within [OF cv first]
  have one: "ymd cv y m 1 = ok (y, nat m, 1)" using ymd_first [OF cv first m] .
  have dim: "cv_dim cv (y, nat m, 1) = int (month_length y (nat m))" using civil_dim [OF cv first] .
  have "\<exists>days. month_day_dates cv y m (rr_by_month_day r) = ok days"
    unfolding month_day_dates_def one xbind_simps dim Let_def by (rule xmap_succeeds) (use m day in auto)
  moreover have "\<exists>days. nday_dates cv y m (y, nat m, 1) nd = ok days" if "nd \<in> set (rr_by_day r)" for nd
  proof -
    have "\<exists>days. xmap (ymd cv y m) [1..int (month_length y (nat m))] = ok days" using m day by (intro xmap_succeeds) auto
    then show ?thesis using that fit by (auto simp: nday_dates_def dim [unfolded One_nat_def] to_i8_def nths_fit_def list_all_iff split: option.splits)
  qed
  then have "\<exists>days. weekday_dates cv y m (rr_by_day r) = ok days"
    using xmap_succeeds [of "rr_by_day r" "nday_dates cv y m (y, nat m, 1)"] by (auto simp: weekday_dates_def one)
  moreover have "1 \<le> int (snd (snd start))" using start by (cases start) (auto simp: date_ok_def)
  ultimately show ?thesis using day [of "int (snd (snd start))"] m by (auto simp: rule_days_in_month_def one dim [unfolded One_nat_def] Let_def)
qed

text \<open>One month is emitted without an error.\<close>

lemma month_emitted:
  assumes "civil_ok cv" "1 \<le> m" "date_ok (y, nat m, 1)" "date_ok (ac_start a)" "nths_fit r" "rule_ok r" "roomy a"
  obtains stop a' where "xbind (rule_days_in_month cv y m r (ac_start a)) (\<lambda>days. emit_each days a) = ok (stop, a')" "grown a a'"
proof -
  obtain days where days: "rule_days_in_month cv y m r (ac_start a) = ok days" using rule_days_succeed [OF assms(1-5)] by blast
  then have "\<forall>x\<in>set days. date_ok x" using rule_days_set [OF assms(1,2,6,4) days] by (auto simp: month_dates_def)
  then show thesis using emit_each_grows [OF assms(7)] days that by auto
qed

section \<open>The loops end without an error\<close>

lemma daily_loop_succeeds:
  assumes cv: "civil_ok cv" and n: "0 < n" and w: "date_ok w" "rata w + n \<le> rata (9999, 12, 31)"
  shows "roomy a \<Longrightarrow> ac_upper a \<le> w \<Longrightarrow> date_ok x \<Longrightarrow> x \<le> w \<Longrightarrow> \<exists>a'. daily_loop cv r n x a = ok a'"
proof (induction "nat (rata (9999, 12, 31) - rata x)" arbitrary: x a rule: less_induct)
  case less
  have x: "rata x \<le> rata w" using less.prems w rata_le_iff [of x w] by simp
  obtain d where d: "add_days cv x n = ok d" "date_ok d" "rata d = rata x + n"
    using add_days_within [OF cv less.prems(3), of n] first_day [OF less.prems(3)] w x n by (auto simp del: rata.simps)
  have close: "nat (rata (9999, 12, 31) - rata d) < nat (rata (9999, 12, 31) - rata x)" using d x w n by (simp del: rata.simps)
  show ?case
  proof (cases "ac_upper a < d")
    case True then show ?thesis using d by (subst daily_loop.simps) simp
  next
    case within: False
    then have dw: "d \<le> w" using less.prems(2) by simp
    obtain stop a' where e: "emit d a = ok (stop, a')" "grown a a'" using emit_grows [OF less.prems(1) d(2)] .
    have "\<exists>b. daily_loop cv r n d a' = ok b" using less.hyps [OF close, of a'] less.prems(2) e(2) d(2) dw by (simp add: grown_def)
    moreover have "\<exists>b. daily_loop cv r n d a = ok b" using less.hyps [OF close less.prems(1,2) d(2) dw] .
    ultimately show ?thesis using d e within by (subst daily_loop.simps) (cases stop; cases "daily_matches cv d r"; simp)
  qed
qed

lemma week_dates_within:
  assumes cv: "civil_ok cv" and x: "date_ok x" "rata x + 6 \<le> rata (9999, 12, 31)"
  obtains week where "week_dates cv wkst targets x = ok week" "\<forall>d\<in>set week. date_ok d"
proof -
  have "\<exists>d. add_days cv x ((t - wkst) mod 7) = ok d" for t
  proof -
    have "0 \<le> (t - wkst) mod 7" "(t - wkst) mod 7 < 7" by simp_all
    then have "rata (- 9999, 1, 1) \<le> rata x + (t - wkst) mod 7" "rata x + (t - wkst) mod 7 \<le> rata (9999, 12, 31)"
      using first_day [OF x(1)] x(2) by linarith+
    from add_days_within [OF cv x(1) this] show ?thesis by blast
  qed
  then obtain ds where ds: "xmap (\<lambda>t. add_days cv x ((t - wkst) mod 7)) targets = ok ds"
    using xmap_succeeds [of targets "\<lambda>t. add_days cv x ((t - wkst) mod 7)"] by auto
  have "date_ok d" if "d \<in> set ds" for d
    using ds [unfolded xmap_ok] that add_days_ok [OF cv x(1)] by (auto simp: list_all2_conv_all_nth in_set_conv_nth)
  then show thesis using that [of "remdups_adj (sort ds)"] ds by (simp add: week_dates_def)
qed

lemma weekly_loop_succeeds:
  assumes cv: "civil_ok cv" and n: "0 < n" and w: "date_ok w" "rata w + 7 * n \<le> rata (9999, 12, 31)"
  shows "roomy a \<Longrightarrow> ac_upper a \<le> w \<Longrightarrow> date_ok x \<Longrightarrow> x \<le> w \<Longrightarrow> \<exists>a'. weekly_loop cv wkst targets (n * 7) x a = ok a'"
proof (induction "nat (rata (9999, 12, 31) - rata x)" arbitrary: x a rule: less_induct)
  case less
  have x: "rata x \<le> rata w" using less.prems w rata_le_iff [of x w] by simp
  obtain week where week: "week_dates cv wkst targets x = ok week" "\<forall>d\<in>set week. date_ok d"
    using week_dates_within [OF cv less.prems(3)] w x n by (auto simp del: rata.simps)
  obtain stop a' where e: "emit_week week a = ok (stop, a')" "grown a a'" using emit_week_grows [OF less.prems(1) week(2)] by blast
  obtain d where d: "add_days cv x (n * 7) = ok d" "date_ok d" "rata d = rata x + n * 7"
    using add_days_within [OF cv less.prems(3), of "n * 7"] first_day [OF less.prems(3)] w x n by (auto simp del: rata.simps)
  have close: "nat (rata (9999, 12, 31) - rata d) < nat (rata (9999, 12, 31) - rata x)" using d x w n by (simp del: rata.simps)
  have "\<exists>b. weekly_loop cv wkst targets (n * 7) d a' = ok b" if "\<not> ac_upper a' < d"
    using less.hyps [OF close, of a'] less.prems(2) e(2) d(2) that by (simp add: grown_def)
  then show ?case using week e d by (subst weekly_loop.simps) (cases stop; cases "ac_upper a' < d"; simp)
qed

lemma month_first_ok: "1 \<le> m \<Longrightarrow> m \<le> 12 \<Longrightarrow> - 9999 \<le> y \<Longrightarrow> y \<le> 9999 \<Longrightarrow> date_ok (y, nat m, 1)"
  by (simp add: date_ok_def Suc_le_eq)

lemma add_months_within:
  assumes "1 \<le> m" "m \<le> 12" "n < 2 ^ 31 - 11" "- 119988 \<le> 12 * y + m - 1 + int n" "12 * y + m - 1 + int n \<le> 119999"
  shows "add_months y m n = Some (Some ((12 * y + m - 1 + int n) div 12, (12 * y + m - 1 + int n) mod 12 + 1))"
proof -
  have "- 9999 \<le> (12 * y + m - 1 + int n) div 12" "(12 * y + m - 1 + int n) div 12 \<le> 9999" 
    using zdiv_mono1 [OF assms(4), of 12] zdiv_mono1 [OF assms(5), of 12] by simp_all
  then show ?thesis using assms(1-3) unfolding month_sum by (simp add: add_months_def Let_def to_i16_def)
qed

lemma monthly_loop_succeeds:
  assumes cv: "civil_ok cv" and r: "rule_ok r" "nths_fit r" and w: "date_ok w" "month_index w + int (rr_interval r) \<le> 119999"
  shows "roomy a \<Longrightarrow> ac_upper a \<le> w \<Longrightarrow> date_ok (ac_start a) \<Longrightarrow> - 119988 \<le> p \<Longrightarrow> p \<le> 119999 \<Longrightarrow>
    \<exists>a'. monthly_loop cv r (rr_interval r) (p div 12) (p mod 12 + 1) a = ok a'"
proof (induction "nat (120000 - p)" arbitrary: p a rule: less_induct)
  case less
  let ?y = "p div 12" and ?m = "p mod 12 + 1" and ?n = "int (rr_interval r)"
  have m: "1 \<le> ?m" "?m \<le> 12" by simp_all
  have p: "12 * ?y + ?m - 1 = p" by presburger
  have n: "0 < ?n" using r(1) by (simp add: rule_ok_def)
  have "- 9999 \<le> ?y" "?y \<le> 9999" using zdiv_mono1 [OF less.prems(4), of 12] zdiv_mono1 [OF less.prems(5), of 12] by simp_all
  then have ok: "date_ok (?y, nat ?m, 1)" by (intro month_first_ok m)
  have first: "ymd cv ?y ?m 1 = ok (?y, nat ?m, 1)" using ymd_first [OF cv ok m(1)] .
  obtain stop a' where e: "xbind (rule_days_in_month cv ?y ?m r (ac_start a)) (\<lambda>days. emit_each days a) = ok (stop, a')" "grown a a'"
    using month_emitted [OF cv m(1) ok less.prems(3) r(2,1) less.prems(1)] .
  show ?case
  proof (cases "ac_upper a < (?y, nat ?m, 1)")
    case True then show ?thesis using first by (subst monthly_loop.simps) simp
  next
    case False
    then have "(?y, nat ?m, 1) \<le> w" using less.prems(2) by (meson leI order_trans)
    then have "first_of p \<le> rata w" 
      using rata_le_iff [OF date_ok_wf [OF ok] date_ok_wf [OF w(1)]] first_of_index [OF m, of ?y] p by (simp del: rata.simps date_wf.simps)
    then have pw: "p + ?n \<le> 119999" using first_of_le_iff [of w p] w by simp
    have "rr_interval r < 2 ^ 31 - 11" using pw less.prems(4) by simp
    then have next_p: "add_months ?y ?m (rr_interval r) = Some (Some ((p + ?n) div 12, (p + ?n) mod 12 + 1))"
      using add_months_within [OF m, of "rr_interval r" ?y] pw less.prems(4) n p by simp
    have "\<exists>b. monthly_loop cv r (rr_interval r) ((p + ?n) div 12) ((p + ?n) mod 12 + 1) a' = ok b"
      using less.prems e(2) n pw by (intro less.hyps) (auto simp: grown_def)
    then show ?thesis using first e next_p False by (subst monthly_loop.simps) (cases stop; simp)
  qed
qed

lemma emit_months_grows:
  assumes cv: "civil_ok cv" and r: "rule_ok r" "nths_fit r" and y: "- 9999 \<le> y" "y \<le> 9999"
  shows "roomy a \<Longrightarrow> date_ok (ac_start a) \<Longrightarrow> \<forall>m\<in>set ms. 1 \<le> m \<and> m \<le> 12 \<Longrightarrow> \<exists>stop a'. emit_months cv r y ms a = ok (stop, a') \<and> grown a a'"
proof (induction ms arbitrary: a)
  case (Cons m ms)
  have m: "1 \<le> m" "m \<le> 12" using Cons.prems(3) by auto
  obtain stop a' where e: "xbind (rule_days_in_month cv y m r (ac_start a)) (\<lambda>days. emit_each days a) = ok (stop, a')" "grown a a'"
    using month_emitted [OF cv m(1) month_first_ok [OF m y] Cons.prems(2) r(2,1) Cons.prems(1)] .
  then show ?case using Cons.IH [of a'] Cons.prems grown_trans [OF e(2)] by (cases stop) (auto simp: grown_def)
qed (auto simp: grown_def)

lemma yearly_loop_succeeds:
  assumes cv: "civil_ok cv" and r: "rule_ok r" "nths_fit r" and w: "date_ok w" "fst w + int (rr_interval r) \<le> 9999"
    and months: "\<forall>m\<in>set months. 1 \<le> m \<and> m \<le> 12"
  shows "roomy a \<Longrightarrow> ac_upper a \<le> w \<Longrightarrow> date_ok (ac_start a) \<Longrightarrow> - 9999 \<le> y \<Longrightarrow> y \<le> 9999 \<Longrightarrow>
    \<exists>a'. yearly_loop cv r months (int (rr_interval r)) y a = ok a'"
proof (induction "nat (10000 - y)" arbitrary: y a rule: less_induct)
  case less
  have n: "0 < int (rr_interval r)" using r(1) by (simp add: rule_ok_def)
  have ok: "date_ok (y, 1, 1)" using month_first_ok [of 1 y] less.prems by simp
  have first: "ymd cv y 1 1 = ok (y, 1, 1)" using ymd_first [OF cv, of y 1] ok by simp
  obtain stop a' where e: "emit_months cv r y months a = ok (stop, a')" "grown a a'"
    using emit_months_grows [OF cv r less.prems(4,5,1,3) months] by blast
  show ?case
  proof (cases "ac_upper a < (y, 1, 1)")
    case True then show ?thesis using first by (subst yearly_loop.simps) simp
  next
    case False
    then have "(y, 1, 1) \<le> w" using less.prems(2) by (meson leI order_trans)
    then have yw: "y + int (rr_interval r) \<le> 9999" using w(2) by (cases w) auto
    then have step: "to_i16 (y + int (rr_interval r)) = Some (y + int (rr_interval r))" using less.prems(4) n by (simp add: to_i16_def)
    have "\<exists>b. yearly_loop cv r months (int (rr_interval r)) (y + int (rr_interval r)) a' = ok b"
      using less.prems e(2) n yw by (intro less.hyps) (auto simp: grown_def)
    then show ?thesis using first e step False by (subst yearly_loop.simps) (cases stop; simp)
  qed
qed

section \<open>A rule inside the calendar\<close>

definition rule_supported :: "recurrence_rule \<Rightarrow> bool" where
  "rule_supported r \<longleftrightarrow> check_supported r = ok () \<and> nths_fit r \<and>
     list_all (\<lambda>e. takeWhile is_digit e \<noteq> [] \<and> 1 \<le> undecimal (takeWhile is_digit e) \<and> undecimal (takeWhile is_digit e) \<le> 12) (rr_by_month r)"

definition within_calendar :: "recurrence_rule \<Rightarrow> date \<Rightarrow> date \<Rightarrow> bool" where
  "within_calendar r start window_end \<longleftrightarrow> date_ok start \<and> date_ok window_end \<and> start \<le> window_end \<and>
     (case rr_bound r of Until until \<Rightarrow> date_ok (fst until) | _ \<Rightarrow> True) \<and>
     (let n = int (rr_interval r) in case rr_frequency r of
        Daily \<Rightarrow> rata window_end + n \<le> rata (9999, 12, 31)
      | Weekly \<Rightarrow> rata (- 9999, 1, 7) \<le> rata start \<and> rata window_end + 7 * n \<le> rata (9999, 12, 31)
      | Monthly \<Rightarrow> month_index window_end + n \<le> month_index (9999, 12, 31)
      | Yearly \<Rightarrow> fst window_end + n \<le> 9999
      | _ \<Rightarrow> True)"

lemma generate_succeeds:
  assumes cv: "civil_ok cv" and r: "rule_ok r" "rule_supported r" and w: "within_calendar r (ac_start a) window_end"
    and a: "roomy a" "ac_upper a \<le> window_end" and bm: "\<forall>s. ac_by_month a = Some s \<longrightarrow> finite s \<and> s \<subseteq> {1..12}"
  shows "\<exists>a'. generate cv a r = ok a'"
proof -
  have n: "0 < int (rr_interval r)" using r(1) by (simp add: rule_ok_def)
  have ok: "date_ok (ac_start a)" "date_ok window_end" "ac_start a \<le> window_end" using w by (auto simp: within_calendar_def)
  have fit: "nths_fit r" using r(2) by (simp add: rule_supported_def)
  have "rr_frequency r \<in> {Daily, Weekly, Monthly, Yearly}" using supported(1) r(2) by (simp add: rule_supported_def)
  then consider "rr_frequency r = Daily" | "rr_frequency r = Weekly" | "rr_frequency r = Monthly" | "rr_frequency r = Yearly" by auto
  then show ?thesis
  proof cases
    case 1
    then show ?thesis using daily_loop_succeeds [OF cv n ok(2) _ a ok(1,3)] w
      by (simp add: generate_def generate_daily_def within_calendar_def Let_def del: rata.simps)
  next
    case 2
    let ?k = "jiff_weekday (rr_first_day_of_week r)"
    let ?d = "(cv_weekday cv (ac_start a) - ?k) mod 7"
    have d: "0 \<le> ?d" "?d < 7" by simp_all
    have "rata (- 9999, 1, 7) = rata (- 9999, 1, 1) + 6" using rata_same_month [of "- 9999" 1 7 1] by linarith
    then have low: "rata (- 9999, 1, 1) \<le> rata (ac_start a) + - ?d" using w 2 d by (simp add: within_calendar_def Let_def del: rata.simps) linarith
    have s: "rata (ac_start a) \<le> rata window_end" using rata_le_iff [of "ac_start a" window_end] ok by simp
    have high: "rata window_end + 7 * int (rr_interval r) \<le> rata (9999, 12, 31)" using w 2 by (simp add: within_calendar_def Let_def del: rata.simps)
    then have "rata (ac_start a) + - ?d \<le> rata (9999, 12, 31)" using s d n by linarith
    then obtain anchor where anchor: "add_days cv (ac_start a) (- ?d) = ok anchor" "date_ok anchor" "rata anchor = rata (ac_start a) + - ?d"
      using add_days_within [OF cv ok(1) low] by blast
    then have "anchor \<le> window_end" using rata_le_iff [of anchor window_end] ok(2) s d by simp
    then show ?thesis using weekly_loop_succeeds [OF cv n ok(2) high a anchor(2)] anchor(1) 2
      by (simp add: generate_def generate_weekly_def Let_def)
  next
    case 3
    obtain y m d where s: "ac_start a = (y, m, d)" by (cases "ac_start a")
    have idx: "month_index (ac_start a) div 12 = y" "month_index (ac_start a) mod 12 + 1 = int m"
      using split_twelve [of "int m - 1" y] ok(1) s by (auto simp: date_ok_def add_diff_eq)
    have range: "- 119988 \<le> month_index (ac_start a)" "month_index (ac_start a) \<le> 119999" using ok(1) s by (auto simp: date_ok_def)
    have high: "month_index window_end + int (rr_interval r) \<le> 119999" using w 3 by (simp add: within_calendar_def Let_def)
    show ?thesis using monthly_loop_succeeds [OF cv r(1) fit ok(2) high a ok(1) range, unfolded idx] 3
      by (simp add: generate_def generate_monthly_def s)
  next
    case 4
    let ?months = "case ac_by_month a of Some s \<Rightarrow> sorted_list_of_set s | None \<Rightarrow> [int (fst (snd (ac_start a)))]"
    have months: "\<forall>m\<in>set ?months. 1 \<le> m \<and> m \<le> 12" using bm date_index [OF ok(1)] by (auto simp: subset_iff split: option.splits)
    have y: "- 9999 \<le> fst (ac_start a)" "fst (ac_start a) \<le> 9999" "- 9999 \<le> fst window_end" using ok by (auto simp: date_ok_def)
    have high: "fst window_end + int (rr_interval r) \<le> 9999" using w 4 by (simp add: within_calendar_def Let_def)
    then have "to_i16 (int (rr_interval r)) = Some (int (rr_interval r))" using y(3) by (simp add: to_i16_def)
    then show ?thesis using yearly_loop_succeeds [OF cv r(1) fit ok(2) high months a ok(1) y(1,2)] 4
      by (simp add: generate_def generate_yearly_def)
  qed
qed

lemma parse_by_month_succeeds: "rule_supported r \<Longrightarrow> \<exists>bm. parse_by_month (rr_by_month r) = ok bm"
proof -
  assume "rule_supported r"
  then have "\<forall>e\<in>set (rr_by_month r). \<exists>m. month_entry e = ok m" by (auto simp: rule_supported_def list_all_iff month_entry_ok)
  then show ?thesis using xmap_succeeds [of "rr_by_month r" month_entry] by (auto simp: parse_by_month_def)
qed

lemma rule_upper_succeeds:
  assumes "civil_ok cv" "within_calendar r start window_end"
  shows "\<exists>upper. rule_upper cv (rr_bound r) window_end = ok upper \<and> upper \<le> window_end \<and> date_ok upper"
proof (cases "rr_bound r")
  case (Until until)
  have ok: "date_ok (fst until)" "date_ok window_end" using assms(2) Until by (auto simp: within_calendar_def)
  obtain y m d t where u: "until = ((y, m, d), t)" by (metis prod.exhaust)
  have "ymd cv y (int m) (int d) = ok (y, m, d)" "to_i16 y = Some y" using ok(1) assms(1) u by (auto simp: ymd_ok to_i16_def date_ok_def)
  then have "rule_upper cv (rr_bound r) window_end = ok (min (fst until) window_end)" using Until u by (simp add: rule_upper_def)
  then show ?thesis using ok by (auto simp: min_def)
qed (use assms in \<open>auto simp: rule_upper_def within_calendar_def\<close>)

lemma occurrence_dates_succeed:
  assumes cv: "civil_ok cv" and r: "rule_ok r" "rule_supported r" and w: "within_calendar r start window_end"
    and cap: "rata window_end - rata start < int cap"
  shows "\<exists>out. occurrence_dates cv start r window_end cap = ok out"
proof -
  obtain bm where bm: "parse_by_month (rr_by_month r) = ok bm" using parse_by_month_succeeds [OF r(2)] by blast
  obtain upper where upper: "rule_upper cv (rr_bound r) window_end = ok upper" "upper \<le> window_end" "date_ok upper"
    using rule_upper_succeeds [OF cv w] by blast
  let ?a = "\<lparr>ac_out = [], ac_seen = {}, ac_start = start, ac_upper = upper, ac_by_month = bm, ac_count = bound_count (rr_bound r), ac_cap = cap\<rparr>"
  have ok: "date_ok start" "date_ok window_end" "start \<le> window_end" using w by (auto simp: within_calendar_def)
  have "rata upper \<le> rata window_end" using rata_le_iff [of upper window_end] upper ok by simp
  then have "card (days_between start upper) \<le> cap" using card_days_between [OF ok(1) upper(3)] cap by linarith
  then have "roomy ?a" by (simp add: roomy_def)
  from emit_grows [OF this ok(1)] obtain stop a where e: "emit start ?a = ok (stop, a)" "grown ?a a" .
  have "ac_by_month a = bm" using e(1) by (auto simp: emit_def Let_def split: if_splits)
  then have "\<exists>a'. generate cv a r = ok a'"
    using generate_succeeds [OF cv r, of a window_end] parse_by_month_ok(2) [OF bm] w e(2) upper(2) by (simp add: grown_def)
  then show ?thesis using r(2) bm upper(1) e by (cases stop) (auto simp: occurrence_dates_def rule_supported_def Let_def)
qed

end
