(* ===== verification/Calendar_Model.thy ===== *)
theory Calendar_Model
  imports Recurrence_Rule Mime_Out
begin

text \<open>
  The calendar vocabulary the expander and the scheduling decision share: scheduled times, recurrences with their
  overrides, participants, and of an event the fields they read or change.
\<close>

section \<open>Scheduled times\<close>

datatype calendar_date_time = DateOf date | Floating date_time | Zoned date_time time_zone_id

fun cdt_local :: "calendar_date_time \<Rightarrow> date_time option" where
  "cdt_local (DateOf _) = None"
| "cdt_local (Floating local) = Some local"
| "cdt_local (Zoned local _) = Some local"

fun is_all_day :: "calendar_date_time \<Rightarrow> bool" where
  "is_all_day (DateOf _) = True" | "is_all_day _ = False"

fun is_floating :: "calendar_date_time \<Rightarrow> bool" where
  "is_floating (Floating _) = True" | "is_floating _ = False"

fun cdt_zone :: "calendar_date_time \<Rightarrow> time_zone_id option" where
  "cdt_zone (Zoned _ z) = Some z" | "cdt_zone _ = None"

fun has_same_form :: "calendar_date_time \<Rightarrow> calendar_date_time \<Rightarrow> bool" where
  "has_same_form (DateOf _) (DateOf _) = True"
| "has_same_form (Floating _) (Floating _) = True"
| "has_same_form (Zoned _ this) (Zoned _ other) = (this = other)"
| "has_same_form _ _ = False"

fun zone_str :: "time_zone_id \<Rightarrow> string" where
  "zone_str (Iana s) = s" | "zone_str (Custom s) = s"

fun is_iana :: "time_zone_id \<Rightarrow> bool" where
  "is_iana (Iana _) = True" | "is_iana (Custom _) = False"

definition zone_iana :: "string \<Rightarrow> (time_error, time_zone_id) result" where
  "zone_iana name = (if name = [] then Inl ValueEmpty else Inr (Iana name))"

section \<open>Patches and recurrences\<close>

text \<open>A JSON value, as far as it is read: null, a text, anything else.\<close>

datatype patch_value = VNull | VString string | VOther

type_synonym patch_object = "(string \<times> patch_value) list"

definition patch_get :: "patch_object \<Rightarrow> string \<Rightarrow> patch_value option" where
  "patch_get p path = map_of p path"

datatype recurrence_override = Excluded | Patch patch_object

text \<open>The overrides are a map in the order of its keys.\<close>

record recurrence =
  rc_rules :: "recurrence_rule list"
  rc_excluded_rules :: "recurrence_rule list"
  rc_overrides :: "(date_time, recurrence_override) btree_map"

definition recurrence_default :: recurrence where
  "recurrence_default = \<lparr>rc_rules = [], rc_excluded_rules = [], rc_overrides = []\<rparr>"

definition recurrence_from_rule :: "recurrence_rule \<Rightarrow> recurrence" where
  "recurrence_from_rule r = \<lparr>rc_rules = [r], rc_excluded_rules = [], rc_overrides = []\<rparr>"

definition is_excluded :: "recurrence \<Rightarrow> date_time \<Rightarrow> bool" where
  "is_excluded rc rid \<longleftrightarrow> map_of (rc_overrides rc) rid = Some Excluded"

section \<open>Participants and events\<close>

datatype participation_status = NeedsAction | PAccepted | PDeclined | PTentative | PDelegated | POtherStatus string

datatype participant_role = Owner | Attendee | OptionalRole | Informational | Chair | ContactRole | OtherRole string

datatype participant_kind = Individual | GroupKind | Resource | LocationKind | OtherKind string

record participant =
  pt_name :: "string option"
  pt_email :: "string option"
  pt_kind :: "participant_kind option"
  pt_roles :: "participant_role set"
  pt_status :: participation_status
  pt_expect_reply :: bool
  pt_comment :: "string option"
  pt_sent_by :: "string option"

definition participant_attendee :: "string \<Rightarrow> participant" where
  "participant_attendee email = \<lparr>pt_name = None, pt_email = Some email, pt_kind = None, pt_roles = {Attendee}, pt_status = NeedsAction,
     pt_expect_reply = True, pt_comment = None, pt_sent_by = None\<rparr>"

definition has_role :: "participant \<Rightarrow> participant_role \<Rightarrow> bool" where
  "has_role p role \<longleftrightarrow> role \<in> pt_roles p"

datatype event_status = StatusConfirmed | StatusCancelled | StatusTentative | OtherStatus string

text \<open>Of an event, what expansion and scheduling use.\<close>

record cal_event =
  ev_key :: provider_key
  ev_uid :: string
  ev_start :: calendar_date_time
  ev_duration :: duration
  ev_status :: event_status
  ev_sequence :: nat
  ev_recurrence :: "recurrence option"
  ev_recurrence_id :: "calendar_date_time option"
  ev_participants :: "participant list"

definition is_cancelled :: "cal_event \<Rightarrow> bool" where
  "is_cancelled e \<longleftrightarrow> ev_status e = StatusCancelled"

definition is_recurring :: "cal_event \<Rightarrow> bool" where
  "is_recurring e \<longleftrightarrow> (case ev_recurrence e of None \<Rightarrow> False | Some rc \<Rightarrow> rc_rules rc \<noteq> [])"

definition is_override_instance :: "cal_event \<Rightarrow> bool" where
  "is_override_instance e \<longleftrightarrow> ev_recurrence_id e \<noteq> None"

end
