(* ===== verification/Recurrence_Expand.thy ===== *)
theory Recurrence_Expand
  imports Calendar_Model Mail_Rows
begin

text \<open>
  From an event to its occurrence rows (\<open>engine-recurrence/src/expand.rs\<close> over \<open>zone.rs\<close>): the dates of the rules, the
  overrides, the resolution to UTC and the horizon. The time-zone database and its arithmetic are \<open>jiff\<close>'s, a
  parameter (\<open>tz_env\<close>); an instant of the library becomes the engine's through its text, as in the code.
\<close>

section \<open>The zone bridge\<close>

record 'z tz_env =
  tx_civil :: civil
  tx_crate :: time_crate
  tx_time_ok :: "clock_time \<Rightarrow> bool"
  tx_get :: "string \<Rightarrow> 'z option"
  tx_utc :: 'z
  tx_zoned :: "'z \<Rightarrow> date_time \<Rightarrow> instant option"
  tx_add_days :: "'z \<Rightarrow> instant \<Rightarrow> int \<Rightarrow> instant option"
  tx_add_time :: "instant \<Rightarrow> int \<Rightarrow> int \<Rightarrow> instant option"
  tx_utc_civil :: "instant \<Rightarrow> date_time"
  tx_instant :: "date_time \<Rightarrow> instant"
  tx_version :: string

text \<open>What a date-time of the engine and its reading are to the library: instants and their UTC components.\<close>

definition zone_iana_get :: "'z tz_env \<Rightarrow> string \<Rightarrow> 'z expanding" where
  "zone_iana_get tz name = (case tx_get tz name of None \<Rightarrow> fail (UnsupportedZone name) | Some z \<Rightarrow> ok z)"

definition resolve_zone_id :: "'z tz_env \<Rightarrow> time_zone_id \<Rightarrow> 'z expanding" where
  "resolve_zone_id tz i = (if is_iana i then zone_iana_get tz (zone_str i) else fail (UnsupportedZone (zone_str i)))"

definition zone_date :: "'z tz_env \<Rightarrow> date \<Rightarrow> date expanding" where
  "zone_date tz x = (case to_i16 (fst x) of
      None \<Rightarrow> fail ExpandOutOfRange
    | Some y \<Rightarrow> or_range (cv_new (tx_civil tz) y (int (fst (snd x))) (int (snd (snd x)))))"

definition local_date :: "'z tz_env \<Rightarrow> date_time \<Rightarrow> date expanding" where
  "local_date tz t = zone_date tz (fst t)"

definition local_time :: "'z tz_env \<Rightarrow> date_time \<Rightarrow> clock_time expanding" where
  "local_time tz t = (if tx_time_ok tz (snd t) then ok (snd t) else fail ExpandOutOfRange)"

fun timestamp_text :: "date_time \<Rightarrow> string" where
  "timestamp_text ((y, m, d), (h, mi, s, n)) =
     pad_int 4 y @ ''-'' @ pad 2 m @ ''-'' @ pad 2 d @ ''T'' @ pad 2 h @ '':'' @ pad 2 mi @ '':'' @ pad 2 s @
     (if n = 0 then ''Z'' else ''.'' @ pad 9 n @ ''Z'')"

definition timestamp_to_utc :: "'z tz_env \<Rightarrow> instant \<Rightarrow> instant expanding" where
  "timestamp_to_utc tz ts = (case parse_utc (tx_crate tz) (timestamp_text (tx_utc_civil tz ts)) of
      None \<Rightarrow> None
    | Some (Inl _) \<Rightarrow> fail ExpandOutOfRange
    | Some (Inr t) \<Rightarrow> ok (tx_instant tz t))"

definition zone_resolve :: "'z tz_env \<Rightarrow> 'z \<Rightarrow> date_time \<Rightarrow> instant expanding" where
  "zone_resolve tz z dt = xbind (or_range (tx_zoned tz z dt)) (timestamp_to_utc tz)"

definition max_duration_days :: nat where "max_duration_days = 3660000"

definition add_duration :: "'z tz_env \<Rightarrow> 'z \<Rightarrow> instant \<Rightarrow> duration \<Rightarrow> instant expanding" where
  "add_duration tz z start d =
     (if duration_is_zero d then ok start
      else if 2 ^ 63 \<le> dur_days d \<or> max_duration_days < dur_days d then fail ExpandOutOfRange
      else if 2 ^ 63 \<le> dur_seconds d \<or> 2 ^ 31 \<le> dur_nanoseconds d then fail ExpandOutOfRange
      else xbind (if dur_days d \<noteq> 0 then or_range (tx_add_days tz z start (int (dur_days d))) else ok start) (\<lambda>zoned.
        if dur_seconds d \<noteq> 0 \<or> dur_nanoseconds d \<noteq> 0
        then or_range (tx_add_time tz zoned (int (dur_seconds d)) (int (dur_nanoseconds d))) else ok zoned))"

definition resolve_range :: "'z tz_env \<Rightarrow> 'z \<Rightarrow> date_time \<Rightarrow> duration \<Rightarrow> (instant \<times> instant) expanding" where
  "resolve_range tz z dt d =
     xbind (or_range (tx_zoned tz z dt)) (\<lambda>start.
     xbind (add_duration tz z start d) (\<lambda>end'.
     xbind (timestamp_to_utc tz start) (\<lambda>s. xbind (timestamp_to_utc tz end') (\<lambda>e. ok (s, e)))))"

section \<open>Expanding\<close>

definition instance_cap :: nat where "instance_cap = 100000"

record 'z expand_context =
  cx_zone :: 'z
  cx_date :: date
  cx_time :: clock_time

record 'z materializer =
  ma_event :: cal_event
  ma_horizon :: horizon
  ma_host_zone :: time_zone_id
  ma_tz :: "'z tz_env"

definition zone_context :: "'z materializer \<Rightarrow> calendar_date_time \<Rightarrow> 'z expand_context expanding" where
  "zone_context ma v = (let tz = ma_tz ma in case v of
      DateOf d \<Rightarrow> xbind (zone_date tz d) (\<lambda>d. ok \<lparr>cx_zone = tx_utc tz, cx_date = d, cx_time = (0, 0, 0, 0)\<rparr>)
    | Floating l \<Rightarrow> xbind (resolve_zone_id tz (ma_host_zone ma)) (\<lambda>z. xbind (local_date tz l) (\<lambda>d. xbind (local_time tz l) (\<lambda>t.
        ok \<lparr>cx_zone = z, cx_date = d, cx_time = t\<rparr>)))
    | Zoned l zid \<Rightarrow> xbind (resolve_zone_id tz zid) (\<lambda>z. xbind (local_date tz l) (\<lambda>d. xbind (local_time tz l) (\<lambda>t.
        ok \<lparr>cx_zone = z, cx_date = d, cx_time = t\<rparr>))))"

definition resolve_point :: "'z materializer \<Rightarrow> calendar_date_time \<Rightarrow> instant expanding" where
  "resolve_point ma v = xbind (zone_context ma v) (\<lambda>cx. zone_resolve (ma_tz ma) (cx_zone cx) (cx_date cx, cx_time cx))"

definition expand_row :: "'z materializer \<Rightarrow> instant \<Rightarrow> instant \<Rightarrow> instant option \<Rightarrow> occurrence_row" where
  "expand_row ma s e rid = \<lparr>or_event = ev_key (ma_event ma), or_start = s, or_end = e, or_recurrence_id = rid,
     or_tzdata_version = tx_version (ma_tz ma)\<rparr>"

definition in_window :: "'z materializer \<Rightarrow> instant \<Rightarrow> bool" where
  "in_window ma s \<longleftrightarrow> hz_start (ma_horizon ma) \<le> s \<and> s < hz_end (ma_horizon ma)"

fun instance_rid :: "'z materializer \<Rightarrow> 'z expand_context \<Rightarrow> date \<Rightarrow> date_time expanding" where
  "instance_rid ma cx (y, m, d) = (case cx_time cx of (h, mi, s, n) \<Rightarrow>
     if tc_date_ok (tx_crate (ma_tz ma)) y m d \<and> tc_time_ok (tx_crate (ma_tz ma)) h mi s 0
     then ok ((y, m, d), (h, mi, s, 0)) else fail ExpandOutOfRange)"

definition patch_cancelled :: "patch_object \<Rightarrow> bool" where
  "patch_cancelled p \<longleftrightarrow> patch_get p ''status'' = Some (VString ''cancelled'')"

definition patch_str :: "patch_object \<Rightarrow> string \<Rightarrow> (string, string option) result" where
  "patch_str p field = (case patch_get p field of
      None \<Rightarrow> Inr None
    | Some VNull \<Rightarrow> Inr None
    | Some (VString s) \<Rightarrow> Inr (Some s)
    | Some VOther \<Rightarrow> Inl ''override field must be a string'')"

text \<open>A patched field, read by its type's reader; a reader that panics is \<open>None\<close>.\<close>

definition patch_field :: "(string \<Rightarrow> (time_error, 'a) result option) \<Rightarrow> string \<Rightarrow> string \<Rightarrow> date_time \<Rightarrow> patch_object \<Rightarrow> 'a option expanding" where
  "patch_field read malformed field rid p = (case patch_str p field of
      Inl reason \<Rightarrow> fail (InvalidOverride rid reason)
    | Inr None \<Rightarrow> ok None
    | Inr (Some text) \<Rightarrow> (case read text of
        None \<Rightarrow> None
      | Some (Inl _) \<Rightarrow> fail (InvalidOverride rid malformed)
      | Some (Inr v) \<Rightarrow> ok (Some v)))"

definition patch_start :: "'z tz_env \<Rightarrow> date_time \<Rightarrow> patch_object \<Rightarrow> date_time option expanding" where
  "patch_start tz = patch_field (parse_wall_clock (tx_crate tz)) ''malformed override start'' ''start''"

definition patch_duration :: "date_time \<Rightarrow> patch_object \<Rightarrow> duration option expanding" where
  "patch_duration = patch_field (\<lambda>s. Some (duration_from_str s)) ''malformed override duration'' ''duration''"

definition patch_timezone :: "date_time \<Rightarrow> patch_object \<Rightarrow> time_zone_id option expanding" where
  "patch_timezone = patch_field (\<lambda>s. Some (zone_iana s)) ''empty override timeZone'' ''timeZone''"

definition override_row :: "'z materializer \<Rightarrow> 'z expand_context \<Rightarrow> date_time \<Rightarrow> patch_object \<Rightarrow> occurrence_row option expanding" where
  "override_row ma cx rid p = (let tz = ma_tz ma in
     if patch_cancelled p then ok None
     else xbind (local_date tz rid) (\<lambda>rd. xbind (local_time tz rid) (\<lambda>rt.
       xbind (zone_resolve tz (cx_zone cx) (rd, rt)) (\<lambda>rid_utc.
       xbind (patch_start tz rid p) (\<lambda>st. let start_local = (case st of None \<Rightarrow> rid | Some l \<Rightarrow> l) in
       xbind (patch_timezone rid p) (\<lambda>zid.
       xbind (case zid of Some i \<Rightarrow> resolve_zone_id tz i | None \<Rightarrow> ok (cx_zone cx)) (\<lambda>z.
       xbind (patch_duration rid p) (\<lambda>du. let duration = (case du of None \<Rightarrow> ev_duration (ma_event ma) | Some d \<Rightarrow> d) in
       xbind (local_date tz start_local) (\<lambda>d. xbind (local_time tz start_local) (\<lambda>t.
       xbind (resolve_range tz z (d, t) duration) (\<lambda>(s, e).
         ok (if in_window ma s then Some (expand_row ma s e (Some rid_utc)) else None))))))))))))"

section \<open>A recurring master\<close>

fun rule_until_ok :: "recurrence_rule \<Rightarrow> date_time \<Rightarrow> bool" where
  "rule_until_ok r rid = (case rr_bound r of Until until \<Rightarrow> rid \<le> until | _ \<Rightarrow> True)"

text \<open>The dates of one rule that are not past its \<open>UNTIL\<close>; the identity of an instance is only formed to compare it.\<close>

fun until_filter :: "'z materializer \<Rightarrow> 'z expand_context \<Rightarrow> recurrence_rule \<Rightarrow> date list \<Rightarrow> date list expanding" where
  "until_filter ma cx r [] = ok []"
| "until_filter ma cx r (d # ds) =
     (case rr_bound r of
        Until until \<Rightarrow> xbind (instance_rid ma cx d) (\<lambda>rid. xbind (until_filter ma cx r ds) (\<lambda>rest. ok (if until < rid then rest else d # rest)))
      | _ \<Rightarrow> xbind (until_filter ma cx r ds) (\<lambda>rest. ok (d # rest)))"

fun rules_base :: "'z materializer \<Rightarrow> 'z expand_context \<Rightarrow> date \<Rightarrow> recurrence_rule list \<Rightarrow> date set \<Rightarrow> date set expanding" where
  "rules_base ma cx window_end [] base = ok base"
| "rules_base ma cx window_end (r # rs) base =
     xbind (occurrence_dates (tx_civil (ma_tz ma)) (cx_date cx) r window_end instance_cap) (\<lambda>dates.
     xbind (until_filter ma cx r dates) (\<lambda>dates. rules_base ma cx window_end rs (base \<union> set dates)))"

fun rules_excluded :: "'z materializer \<Rightarrow> 'z expand_context \<Rightarrow> date \<Rightarrow> recurrence_rule list \<Rightarrow> date set \<Rightarrow> date set expanding" where
  "rules_excluded ma cx window_end [] base = ok base"
| "rules_excluded ma cx window_end (r # rs) base =
     xbind (occurrence_dates (tx_civil (ma_tz ma)) (cx_date cx) r window_end instance_cap) (\<lambda>dates.
       rules_excluded ma cx window_end rs (base - set dates))"

definition plain_row :: "'z materializer \<Rightarrow> 'z expand_context \<Rightarrow> date \<Rightarrow> occurrence_row option expanding" where
  "plain_row ma cx d =
     xbind (resolve_range (ma_tz ma) (cx_zone cx) (d, cx_time cx) (ev_duration (ma_event ma))) (\<lambda>(s, e).
       ok (if in_window ma s then Some (expand_row ma s e None) else None))"

definition base_row :: "'z materializer \<Rightarrow> 'z expand_context \<Rightarrow> (date_time \<times> recurrence_override) list \<Rightarrow> date \<Rightarrow> (date_time \<times> occurrence_row option) expanding" where
  "base_row ma cx overrides d =
     xbind (instance_rid ma cx d) (\<lambda>rid.
     xbind (case map_of overrides rid of
         Some Excluded \<Rightarrow> ok None
       | Some (Patch p) \<Rightarrow> override_row ma cx rid p
       | None \<Rightarrow> plain_row ma cx d) (\<lambda>row. ok (rid, row)))"

definition added_row :: "'z materializer \<Rightarrow> 'z expand_context \<Rightarrow> date_time set \<Rightarrow> date_time \<times> recurrence_override \<Rightarrow> occurrence_row option expanding" where
  "added_row ma cx produced ro = (case ro of (rid, over) \<Rightarrow>
     if rid \<in> produced then ok None else (case over of Excluded \<Rightarrow> ok None | Patch p \<Rightarrow> override_row ma cx rid p))"

definition row_order :: "occurrence_row \<Rightarrow> int \<times> int list" where
  "row_order row = (or_start row, case or_recurrence_id row of None \<Rightarrow> [] | Some r \<Rightarrow> [r])"

definition keep_rows :: "'a option list \<Rightarrow> 'a list" where
  "keep_rows xs = List.map_filter id xs"

text \<open>The day after the UTC date on which the horizon ends.\<close>

definition window_end_date :: "'z materializer \<Rightarrow> date expanding" where
  "window_end_date ma =
     xbind (zone_date (ma_tz ma) (fst (tx_utc_civil (ma_tz ma) (hz_end (ma_horizon ma))))) (\<lambda>window_end.
       or_range (cv_add (tx_civil (ma_tz ma)) window_end 1))"

definition recurring :: "'z materializer \<Rightarrow> recurrence \<Rightarrow> occurrence_row list expanding" where
  "recurring ma rc =
     xbind (zone_context ma (ev_start (ma_event ma))) (\<lambda>cx.
     xbind (window_end_date ma) (\<lambda>window_end.
     xbind (rules_base ma cx window_end (rc_rules rc) {}) (\<lambda>base.
     xbind (rules_excluded ma cx window_end (rc_excluded_rules rc) base) (\<lambda>base.
     xbind (xmap (base_row ma cx (rc_overrides rc)) (sorted_list_of_set base)) (\<lambda>rows.
     xbind (xmap (added_row ma cx (fst ` set rows)) (rc_overrides rc)) (\<lambda>added.
     ok (sort_key row_order (keep_rows (map snd rows @ added)))))))))"

section \<open>Any event\<close>

definition standalone_instance :: "'z materializer \<Rightarrow> calendar_date_time \<Rightarrow> occurrence_row list expanding" where
  "standalone_instance ma rid =
     xbind (zone_context ma (ev_start (ma_event ma))) (\<lambda>cx.
     xbind (resolve_range (ma_tz ma) (cx_zone cx) (cx_date cx, cx_time cx) (ev_duration (ma_event ma))) (\<lambda>(s, e).
     if \<not> in_window ma s then ok []
     else xbind (resolve_point ma rid) (\<lambda>r. ok [expand_row ma s e (Some r)])))"

definition single_event :: "'z materializer \<Rightarrow> occurrence_row list expanding" where
  "single_event ma =
     xbind (zone_context ma (ev_start (ma_event ma))) (\<lambda>cx.
     xbind (resolve_range (ma_tz ma) (cx_zone cx) (cx_date cx, cx_time cx) (ev_duration (ma_event ma))) (\<lambda>(s, e).
     ok (if in_window ma s then [expand_row ma s e None] else [])))"

definition run_materializer :: "'z materializer \<Rightarrow> occurrence_row list expanding" where
  "run_materializer ma =
     (if is_cancelled (ma_event ma) then ok []
      else case ev_recurrence_id (ma_event ma) of
        Some rid \<Rightarrow> standalone_instance ma rid
      | None \<Rightarrow> (case ev_recurrence (ma_event ma) of
          Some rc \<Rightarrow> if rc_rules rc \<noteq> [] then recurring ma rc else single_event ma
        | None \<Rightarrow> single_event ma))"

definition expand :: "'z tz_env \<Rightarrow> cal_event \<Rightarrow> horizon \<Rightarrow> time_zone_id \<Rightarrow> occurrence_row list expanding" where
  "expand tz e h host_zone = run_materializer \<lparr>ma_event = e, ma_horizon = h, ma_host_zone = host_zone, ma_tz = tz\<rparr>"

definition resolve_instant :: "'z tz_env \<Rightarrow> calendar_date_time \<Rightarrow> instant option expanding" where
  "resolve_instant tz v = (case v of
      Zoned l zid \<Rightarrow> xbind (resolve_zone_id tz zid) (\<lambda>z. xbind (local_date tz l) (\<lambda>d. xbind (local_time tz l) (\<lambda>t.
        xbind (zone_resolve tz z (d, t)) (\<lambda>i. ok (Some i)))))
    | _ \<Rightarrow> ok None)"

definition resolve_instant_in :: "'z tz_env \<Rightarrow> calendar_date_time \<Rightarrow> time_zone_id \<Rightarrow> instant expanding" where
  "resolve_instant_in tz v host_zone = (case v of
      DateOf d \<Rightarrow> xbind (resolve_zone_id tz host_zone) (\<lambda>z. xbind (zone_date tz d) (\<lambda>d. zone_resolve tz z (d, (0, 0, 0, 0))))
    | Floating l \<Rightarrow> xbind (resolve_zone_id tz host_zone) (\<lambda>z. xbind (local_date tz l) (\<lambda>d. xbind (local_time tz l) (\<lambda>t. zone_resolve tz z (d, t))))
    | Zoned l zid \<Rightarrow> xbind (resolve_zone_id tz zid) (\<lambda>z. xbind (local_date tz l) (\<lambda>d. xbind (local_time tz l) (\<lambda>t. zone_resolve tz z (d, t)))))"

definition is_supported_zone :: "'z tz_env \<Rightarrow> time_zone_id \<Rightarrow> bool" where
  "is_supported_zone tz i \<longleftrightarrow> (case resolve_zone_id tz i of Some (Inr _) \<Rightarrow> True | _ \<Rightarrow> False)"

definition day_bounds_utc :: "'z tz_env \<Rightarrow> date \<Rightarrow> time_zone_id \<Rightarrow> horizon expanding" where
  "day_bounds_utc tz d zid =
     xbind (resolve_zone_id tz zid) (\<lambda>z. xbind (zone_date tz d) (\<lambda>d.
     xbind (or_range (duration_from_parts 0 1 0 0 0 0)) (\<lambda>one_day.
     xbind (resolve_range tz z (d, (0, 0, 0, 0)) one_day) (\<lambda>(s, e). or_range (horizon_new s e)))))"

end
