(* ===== verification/Recurrence_Props.thy ===== *)
theory Recurrence_Props
  imports Recurrence_Total Recurrence_Expand Time_Props
begin

text \<open>
  What holds of recurrence: the dates of a rule are its recurrence set up to the end of the window, and the rows of an
  event are the instances of its rules and overrides inside the horizon, on the rules and starts on which the code
  does what its documentation says; and four places where the two part.
\<close>

section \<open>The dates of a rule\<close>

definition rule_dates :: "recurrence_rule \<Rightarrow> date \<Rightarrow> date list" where
  "rule_dates r start = truncated (bound_count (rr_bound r)) (sorted_list_of_set (recurrence_set r start))"

definition rule_expandable :: "recurrence_rule \<Rightarrow> bool" where
  "rule_expandable r \<longleftrightarrow> rule_ok r \<and> (rr_frequency r = Monthly \<longrightarrow> interval_fits r)"

lemma take_filter_sorted:
  fixes w :: "'a :: linorder"
  shows "sorted xs \<Longrightarrow> take n (filter (\<lambda>x. x \<le> w) xs) = filter (\<lambda>x. x \<le> w) (take n xs)"
proof (induction xs arbitrary: n)
  case (Cons x xs)
  show ?case
  proof (cases "x \<le> w")
    case True then show ?thesis using Cons by (cases n) simp_all
  next
    case False
    then have "filter (\<lambda>y. y \<le> w) (x # xs) = []" using Cons.prems by (auto simp: filter_empty_conv)
    moreover from this have "filter (\<lambda>y. y \<le> w) (take n (x # xs)) = []" by (metis filter_empty_conv in_set_takeD)
    ultimately show ?thesis by simp
  qed
qed simp

lemma finite_recurrence_set: "finite (recurrence_set r start)"
  by (rule finite_subset [OF _ finite_dates]) (auto simp: recurrence_set_def)

lemma generated_dates_meant:
  assumes "rule_meant r start"
  shows "truncated (bound_count (rr_bound r)) (sorted_list_of_set (generated_set r start window_end)) =
    filter (\<lambda>d. d \<le> window_end) (rule_dates r start)"
proof -
  have "sorted_list_of_set (generated_set r start window_end) = filter (\<lambda>d. d \<le> window_end) (sorted_list_of_set (recurrence_set r start))"
    unfolding generated_set_meant [OF assms]
    by (rule sorted_distinct_set_unique) (auto simp: finite_recurrence_set sorted_wrt_filter)
  then show ?thesis by (simp add: rule_dates_def truncated_def take_filter_sorted split: option.splits)
qed


definition leap_rule :: recurrence_rule where
  "leap_rule = (rule_new Daily)\<lparr>rr_bound := Count 2\<rparr>"

lemma generated_leap_days: "occurrence_dates proleptic (2024, 2, 28) leap_rule (2024, 3, 11) instance_cap = ok [(2024, 2, 28), (2024, 2, 29)]"
  by (simp add: occurrence_dates_def leap_rule_def rule_new_def check_supported_def instance_cap_def has_nth_def rule_upper_def parse_by_month_def
      emit_def month_allowed_def count_reached_def bound_count_def generate_def generate_daily_def Let_def)
    (subst daily_loop.simps, simp add: add_days_def proleptic_def step_days_def month_length_def leap_def or_range_def date_ok_def
      daily_matches_def emit_def month_allowed_def count_reached_def Let_def)


section \<open>The rows of a recurring event\<close>

lemma xmap_set: "xmap f xs = ok ys \<Longrightarrow> set ys = {y. \<exists>x\<in>set xs. f x = ok y}"
  unfolding xmap_ok by (induction rule: list_all2_induct) auto

lemma set_keep_rows: "set (keep_rows xs) = {x. Some x \<in> set xs}"
  by (induction xs) (auto simp: keep_rows_def List.map_filter_simps split: option.splits)

definition rid_of :: "'z expand_context \<Rightarrow> date \<Rightarrow> date_time" where
  "rid_of cx d = (case cx_time cx of (h, mi, s, n) \<Rightarrow> (d, (h, mi, s, 0)))"

lemma instance_rid_ok: "instance_rid ma cx d = ok rid \<Longrightarrow> rid = rid_of cx d"
  by (cases d) (auto simp: rid_of_def split: prod.splits if_splits)

lemma until_filter_set: "until_filter ma cx r ds = ok ds' \<Longrightarrow> set ds' = {d \<in> set ds. rule_until_ok r (rid_of cx d)}"
  by (induction ds arbitrary: ds')
    (auto simp: xbind_ok dest!: instance_rid_ok split: recurrence_bound.splits if_splits)

lemma occurrence_dates_are:
  assumes "civil_ok cv" "rule_expandable r" "date_ok start" "rule_meant r start" "occurrence_dates cv start r window_end cap = ok dates"
  shows "dates = filter (\<lambda>d. d \<le> window_end) (rule_dates r start)"
  using occurrence_dates_set [OF assms(1) _ _ assms(3), of r window_end cap] assms(2,5)
  by (auto simp: rule_expandable_def generated_dates_meant [OF assms(4)])

lemma rules_base_set:
  assumes "civil_ok (tx_civil (ma_tz ma))" "date_ok (cx_date cx)"
  shows "rules_base ma cx window_end rs base = ok out \<Longrightarrow> list_all (\<lambda>r. rule_expandable r \<and> rule_meant r (cx_date cx)) rs \<Longrightarrow>
    out = base \<union> {d. d \<le> window_end \<and> (\<exists>r\<in>set rs. d \<in> set (rule_dates r (cx_date cx)) \<and> rule_until_ok r (rid_of cx d))}"
proof (induction rs arbitrary: base)
  case (Cons r rs)
  then obtain ds ds' where "occurrence_dates (tx_civil (ma_tz ma)) (cx_date cx) r window_end instance_cap = ok ds"
    and f: "until_filter ma cx r ds = ok ds'" and rest: "rules_base ma cx window_end rs (base \<union> set ds') = ok out"
    by (auto simp: xbind_ok)
  then have "ds = filter (\<lambda>d. d \<le> window_end) (rule_dates r (cx_date cx))"
    using occurrence_dates_are [OF assms(1) _ assms(2)] Cons.prems(2) by simp
  then have "set ds' = {d. d \<le> window_end \<and> d \<in> set (rule_dates r (cx_date cx)) \<and> rule_until_ok r (rid_of cx d)}"
    using until_filter_set [OF f] by auto
  then show ?case using Cons.IH [OF rest] Cons.prems(2) by (auto simp del: rule_until_ok.simps)
qed simp

lemma rules_excluded_set:
  assumes "civil_ok (tx_civil (ma_tz ma))" "date_ok (cx_date cx)"
  shows "rules_excluded ma cx window_end rs base = ok out \<Longrightarrow> list_all (\<lambda>r. rule_expandable r \<and> rule_meant r (cx_date cx)) rs \<Longrightarrow>
    out = base - {d. d \<le> window_end \<and> (\<exists>r\<in>set rs. d \<in> set (rule_dates r (cx_date cx)))}"
proof (induction rs arbitrary: base)
  case (Cons r rs)
  then obtain ds where "occurrence_dates (tx_civil (ma_tz ma)) (cx_date cx) r window_end instance_cap = ok ds"
    and rest: "rules_excluded ma cx window_end rs (base - set ds) = ok out"
    by (auto simp: xbind_ok)
  then have "ds = filter (\<lambda>d. d \<le> window_end) (rule_dates r (cx_date cx))"
    using occurrence_dates_are [OF assms(1) _ assms(2)] Cons.prems(2) by simp
  then show ?case using Cons.IH [OF rest] Cons.prems(2) by auto
qed simp

lemma base_rows_set:
  assumes "xmap (base_row ma cx overrides) ds = ok rows"
  shows "fst ` set rows = rid_of cx ` set ds"
    "Some row \<in> snd ` set rows \<longleftrightarrow>
      (\<exists>d\<in>set ds. (map_of overrides (rid_of cx d) = None \<and> plain_row ma cx d = ok (Some row)) \<or>
        (\<exists>p. map_of overrides (rid_of cx d) = Some (Patch p) \<and> override_row ma cx (rid_of cx d) p = ok (Some row)))"
proof -
  have all: "list_all2 (\<lambda>d y. base_row ma cx overrides d = ok y) ds rows" using assms by (simp add: xmap_ok)
  have one: "base_row ma cx overrides d = ok y \<Longrightarrow> fst y = rid_of cx d \<and>
      (snd y = Some row \<longleftrightarrow> (map_of overrides (rid_of cx d) = None \<and> plain_row ma cx d = ok (Some row)) \<or>
        (\<exists>p. map_of overrides (rid_of cx d) = Some (Patch p) \<and> override_row ma cx (rid_of cx d) p = ok (Some row)))" for d y
  proof -
    assume "base_row ma cx overrides d = ok y"
    then obtain rid v where rid: "instance_rid ma cx d = ok rid" and y: "y = (rid, v)" and v: "(case map_of overrides rid of
         Some Excluded \<Rightarrow> ok None
       | Some (Patch p) \<Rightarrow> override_row ma cx rid p
       | None \<Rightarrow> plain_row ma cx d) = ok v"
      unfolding base_row_def xbind_ok by auto
    show ?thesis
    proof (cases "map_of overrides rid")
      case None then show ?thesis using v y instance_rid_ok [OF rid] by simp
    next
      case (Some over) then show ?thesis using v y instance_rid_ok [OF rid] by (cases over) auto
    qed
  qed
  show "fst ` set rows = rid_of cx ` set ds"
    using all by (induction rule: list_all2_induct) (auto dest!: one)
  show "Some row \<in> snd ` set rows \<longleftrightarrow>
      (\<exists>d\<in>set ds. (map_of overrides (rid_of cx d) = None \<and> plain_row ma cx d = ok (Some row)) \<or>
        (\<exists>p. map_of overrides (rid_of cx d) = Some (Patch p) \<and> override_row ma cx (rid_of cx d) p = ok (Some row)))"
    using all
  proof (induction rule: list_all2_induct)
    case (Cons d ds y rows)
    then show ?case using one [OF Cons(1)] by (auto simp: eq_commute [of "Some row"])
  qed simp
qed

text \<open>
  The instances of a recurring event that starts at a wall clock: the dates of its rules, each up to the rule's
  \<open>UNTIL\<close> at the time of day of the start, that no excluding rule has.
\<close>

definition base_dates :: "recurrence \<Rightarrow> date_time \<Rightarrow> date set" where
  "base_dates rc start =
     {d. (\<exists>r\<in>set (rc_rules rc). d \<in> set (rule_dates r (fst start)) \<and>
            (case rr_bound r of Until until \<Rightarrow> (d, snd start) \<le> until | _ \<Rightarrow> True)) \<and>
         \<not> (\<exists>r\<in>set (rc_excluded_rules rc). d \<in> set (rule_dates r (fst start)))}"

definition recurrence_ok :: "recurrence \<Rightarrow> bool" where
  "recurrence_ok rc \<longleftrightarrow> list_all rule_expandable (rc_rules rc) \<and> list_all rule_expandable (rc_excluded_rules rc) \<and>
     sorted_wrt (<) (map fst (rc_overrides rc))"

text \<open>
  The wall clock a series starts at, and the series on which the code does what its documentation says: it starts
  on a whole second, and each of its rules is one the code does not part from.
\<close>

definition start_of :: "calendar_date_time \<Rightarrow> date_time" where
  "start_of v = (case v of DateOf d \<Rightarrow> (d, (0, 0, 0, 0)) | Floating l \<Rightarrow> l | Zoned l _ \<Rightarrow> l)"

definition whole_second :: "date_time \<Rightarrow> bool" where
  "whole_second t \<longleftrightarrow> snd (snd (snd (snd t))) = 0"

definition series_meant :: "recurrence \<Rightarrow> date_time \<Rightarrow> bool" where
  "series_meant rc start \<longleftrightarrow> whole_second start \<and> list_all (\<lambda>r. rule_meant r (fst start)) (rc_rules rc @ rc_excluded_rules rc)"

text \<open>
  What is relied on of the time-zone library: its civil dates are the calendar's, an instant has a UTC date of the calendar,
  a zone is never a day or more ahead of UTC, and of two instants the later one does not have the earlier UTC date.
\<close>

definition tz_ok :: "'z tz_env \<Rightarrow> bool" where
  "tz_ok tz \<longleftrightarrow> civil_ok (tx_civil tz) \<and> time_crate_ok (tx_crate tz) \<and>
     (\<forall>i. date_ok (fst (tx_utc_civil tz i))) \<and>
     (\<forall>z d t i. tx_zoned tz z (d, t) = Some i \<longrightarrow> rata d \<le> rata (fst (tx_utc_civil tz i)) + 1) \<and>
     (\<forall>t i. date_time_ok (tx_crate tz) t \<and> tx_instant tz t < i \<longrightarrow> fst t \<le> fst (tx_utc_civil tz i))"

lemma timestamp_text_date:
  assumes tc: "time_crate_ok tc" and u: "date_ok (fst u)" and r: "parse_utc tc (timestamp_text u) = Some (Inr t)"
  shows "fst t = fst u" "date_time_ok tc t"
proof -
  obtain y m d h mi s n where ue: "u = ((y, m, d), (h, mi, s, n))" by (metis prod_cases4 prod_cases3)
  obtain y' m' d' h' mi' s' n' where te: "t = ((y', m', d'), (h', mi', s', n'))" by (metis prod_cases4 prod_cases3)
  let ?w = "butlast (timestamp_text u)"
  have "parse_wall_clock tc ?w = Some (Inr t)" using r by (auto simp: parse_utc_def split: if_splits)
  note R = read_wall_clock_text [OF this [unfolded te]]
  show "date_time_ok tc t" using R by (simp add: te)
  obtain rest' where w': "?w = format_date (y', m', d') @ ''T'' @ rest'" using R by blast
  obtain rest where w: "?w = format_date (y, m, d) @ ''T'' @ rest"
  proof
    show "?w = format_date (y, m, d) @ ''T'' @ pad 2 h @ '':'' @ pad 2 mi @ '':'' @ pad 2 s @ (if n = 0 then [] else ''.'' @ pad 9 n)"
      by (simp add: ue butlast_append)
  qed
  have ok': "tc_date_ok tc y' m' d'" "0 \<le> y'" using R by simp_all
  have b': "y' \<le> 9999" "m' < 100" "d' < 100" using time_crate_bounds(1) [OF tc ok'(1)] by simp_all
  have "d \<le> 31" using u order_trans [OF _ month_length_bounds(2)] by (auto simp: ue date_ok_def)
  then have b: "y \<le> 9999" "m < 100" "d < 100" using u by (auto simp: ue date_ok_def)
  have lead: "pad_int 4 y' = pad 4 (nat y')" using ok'(2) by (simp add: pad_int_def)
  have "0 \<le> y"
  proof (rule ccontr)
    assume "\<not> 0 \<le> y"
    then have "hd ?w = CHR ''-''" unfolding w by (simp add: pad_int_def)
    moreover have "hd ?w = hd (pad 4 (nat y'))" unfolding w' by (simp add: lead)
    moreover have "is_digit (hd (pad 4 (nat y')))" using pad_simps(1,3) [of 4 "nat y'"] all_digits_set hd_in_set by blast
    ultimately show False by (simp add: is_digit_def)
  qed
  then have year: "pad_int 4 y = pad 4 (nat y)" by (simp add: pad_int_def)
  have len: "length (pad 4 (nat y)) = 4" "length (pad 4 (nat y')) = 4" "length (pad 2 m) = 2" "length (pad 2 m') = 2"
    "length (pad 2 d) = 2" "length (pad 2 d') = 2"
    using b b' by (simp_all add: pad_length)
  have "pad 4 (nat y) = pad 4 (nat y') \<and> pad 2 m = pad 2 m' \<and> pad 2 d = pad 2 d'"
    using w w' len by (simp add: year lead)
  then have "nat y = nat y'" "m = m'" "d = d'" by (auto dest: pad_inject)
  then show "fst t = fst u" using \<open>0 \<le> y\<close> ok'(2) by (simp add: ue te)
qed

text \<open>An instance that starts before the end of the horizon has a date before the end of the window.\<close>

lemma date_within_window:
  assumes tz: "tz_ok (ma_tz ma)" and d: "date_ok d" and we: "window_end_date ma = ok window_end"
    and range: "resolve_range (ma_tz ma) z (d, t) du = ok (s, e)" and s: "s < hz_end (ma_horizon ma)"
  shows "d \<le> window_end"
proof -
  let ?tz = "ma_tz ma" and ?last = "fst (tx_utc_civil (ma_tz ma) (hz_end (ma_horizon ma)))"
  note L = tz [unfolded tz_ok_def]
  obtain i where i: "tx_zoned ?tz z (d, t) = Some i" and si: "timestamp_to_utc ?tz i = ok s"
    using range by (auto simp: resolve_range_def xbind_ok or_range_def split: option.splits)
  obtain u where u: "parse_utc (tx_crate ?tz) (timestamp_text (tx_utc_civil ?tz i)) = Some (Inr u)" and su: "s = tx_instant ?tz u"
    using si by (auto simp: timestamp_to_utc_def split: option.splits sum.splits)
  have ok: "date_ok (fst (tx_utc_civil ?tz i))" "date_ok ?last" using L by blast+
  note T = timestamp_text_date [OF _ ok(1) u]
  have "fst u \<le> ?last" using L T(2) s su by blast
  then have "rata (fst (tx_utc_civil ?tz i)) \<le> rata ?last"
    using T(1) L ok rata_le_iff [of "fst (tx_utc_civil ?tz i)" ?last] by (simp add: date_ok_def)
  moreover have "rata d \<le> rata (fst (tx_utc_civil ?tz i)) + 1" using L i by blast
  moreover have "date_ok window_end \<and> rata window_end = rata ?last + 1"
  proof -
    obtain x where x: "zone_date ?tz ?last = ok x" "cv_add (tx_civil ?tz) x 1 = Some window_end"
      using we by (auto simp: window_end_date_def xbind_ok or_range_def split: option.splits)
    have "x = ?last" using x(1) L by (auto simp: zone_date_def or_range_def civil_new to_i16_def split: option.splits if_splits)
    then show ?thesis using x(2) L civil_laws(2) ok(2) by blast
  qed
  ultimately show ?thesis using rata_le_iff [of d window_end] d by (simp add: date_ok_def)
qed

lemma context_start:
  assumes "civil_ok (tx_civil (ma_tz ma))" "zone_context ma v = ok cx"
  shows "date_ok (cx_date cx)" "(cx_date cx, cx_time cx) = start_of v"
  using assms
  by (auto simp: zone_context_def start_of_def Let_def xbind_ok local_date_def local_time_def zone_date_def or_range_def civil_new to_i16_def
      split: calendar_date_time.splits option.splits if_splits)

lemma rid_of_start: "(cx_date cx, cx_time cx) = start \<Longrightarrow> whole_second start \<Longrightarrow> rid_of cx d = (d, snd start)"
  by (auto simp: rid_of_def whole_second_def split: prod.splits)

lemma finite_base_dates: "finite (base_dates rc start)"
  by (rule finite_subset [of _ "\<Union>r\<in>set (rc_rules rc). set (rule_dates r (fst start))"]) (auto simp: base_dates_def)

lemma rule_dates_member: "d \<in> set (rule_dates r start) \<Longrightarrow> d \<in> recurrence_set r start"
  using set_sorted_list_of_set [OF finite_recurrence_set [of r start]]
  by (auto simp: rule_dates_def truncated_def dest: in_set_takeD split: option.splits)

lemma base_date_ok: "d \<in> base_dates rc start \<Longrightarrow> date_ok d"
  by (force simp: base_dates_def recurrence_set_def dest: rule_dates_member)

definition plain_instance :: "'z materializer \<Rightarrow> 'z expand_context \<Rightarrow> recurrence \<Rightarrow> date_time \<Rightarrow> date \<Rightarrow> occurrence_row \<Rightarrow> bool" where
  "plain_instance ma cx rc start d row \<longleftrightarrow> map_of (rc_overrides rc) (d, snd start) = None \<and> plain_row ma cx d = ok (Some row)"

lemma recurring_rows:
  assumes cv: "civil_ok (tx_civil (ma_tz ma))" and rc: "recurrence_ok rc" and e: "recurring ma rc = ok rows"
    and start: "start = start_of (ev_start (ma_event ma))" and meant: "series_meant rc start"
  shows "\<exists>cx window_end. zone_context ma (ev_start (ma_event ma)) = ok cx \<and> window_end_date ma = ok window_end \<and>
    set rows = {row. (\<exists>d\<in>base_dates rc start. d \<le> window_end \<and> plain_instance ma cx rc start d row) \<or>
      (\<exists>rid p. (rid, Patch p) \<in> set (rc_overrides rc) \<and> override_row ma cx rid p = ok (Some row))} \<and>
    sorted (map row_order rows)"
proof -
  obtain cx window_end base base' rs added where
    cx: "zone_context ma (ev_start (ma_event ma)) = ok cx" and
    we: "window_end_date ma = ok window_end" and
    b: "rules_base ma cx window_end (rc_rules rc) {} = ok base" and
    b': "rules_excluded ma cx window_end (rc_excluded_rules rc) base = ok base'" and
    rs: "xmap (base_row ma cx (rc_overrides rc)) (sorted_list_of_set base') = ok rs" and
    added: "xmap (added_row ma cx (fst ` set rs)) (rc_overrides rc) = ok added" and
    rows: "rows = sort_key row_order (keep_rows (map snd rs @ added))"
    using e by (auto simp: recurring_def xbind_ok)
  note C = context_start [OF cv cx, folded start]
  then have date: "date_ok (cx_date cx)" "cx_date cx = fst start" by auto
  have rid: "rid_of cx d = (d, snd start)" for d using rid_of_start [OF C(2)] meant by (simp add: series_meant_def)
  have ok: "list_all (\<lambda>r. rule_expandable r \<and> rule_meant r (cx_date cx)) (rc_rules rc)"
    "list_all (\<lambda>r. rule_expandable r \<and> rule_meant r (cx_date cx)) (rc_excluded_rules rc)" and dist: "distinct (map fst (rc_overrides rc))"
    using rc meant date(2) by (auto simp: recurrence_ok_def series_meant_def strict_sorted_iff list_all_iff)
  have base: "base' = {d \<in> base_dates rc start. d \<le> window_end}"
    using rules_base_set [OF cv date(1) b ok(1)] rules_excluded_set [OF cv date(1) b' ok(2)] by (auto simp: base_dates_def rid date(2))
  then have "finite base'" using finite_base_dates [of rc start] by simp
  then have members: "set (sorted_list_of_set base') = {d \<in> base_dates rc start. d \<le> window_end}" using base by simp
  note B = base_rows_set [OF rs, unfolded members rid]
  have A: "Some row \<in> set added \<longleftrightarrow> (\<exists>rid p. (rid, Patch p) \<in> set (rc_overrides rc) \<and> rid \<notin> fst ` set rs \<and> override_row ma cx rid p = ok (Some row))" for row
  proof -
    have "Some row \<in> set added \<longleftrightarrow> (\<exists>x\<in>set (rc_overrides rc). added_row ma cx (fst ` set rs) x = ok (Some row))" using xmap_set [OF added] by simp
    also have "\<dots> \<longleftrightarrow> (\<exists>rid p. (rid, Patch p) \<in> set (rc_overrides rc) \<and> rid \<notin> fst ` set rs \<and> override_row ma cx rid p = ok (Some row))"
    proof
      assume "\<exists>x\<in>set (rc_overrides rc). added_row ma cx (fst ` set rs) x = ok (Some row)"
      then obtain rid over where x: "(rid, over) \<in> set (rc_overrides rc)" "added_row ma cx (fst ` set rs) (rid, over) = ok (Some row)" by (metis surj_pair)
      then obtain p where "over = Patch p" "rid \<notin> fst ` set rs" "override_row ma cx rid p = ok (Some row)"
        by (cases over) (auto simp: added_row_def split: if_splits)
      with x(1) show "\<exists>rid p. (rid, Patch p) \<in> set (rc_overrides rc) \<and> rid \<notin> fst ` set rs \<and> override_row ma cx rid p = ok (Some row)" by blast
    next
      assume "\<exists>rid p. (rid, Patch p) \<in> set (rc_overrides rc) \<and> rid \<notin> fst ` set rs \<and> override_row ma cx rid p = ok (Some row)"
      then obtain rid p where x: "(rid, Patch p) \<in> set (rc_overrides rc)" "rid \<notin> fst ` set rs" "override_row ma cx rid p = ok (Some row)" by blast
      then have "added_row ma cx (fst ` set rs) (rid, Patch p) = ok (Some row)" by (simp only: added_row_def prod.case if_False recurrence_override.case)
      with x(1) show "\<exists>x\<in>set (rc_overrides rc). added_row ma cx (fst ` set rs) x = ok (Some row)" by blast
    qed
    finally show ?thesis .
  qed
  have "row \<in> set rows \<longleftrightarrow> (\<exists>d\<in>base_dates rc start. d \<le> window_end \<and> plain_instance ma cx rc start d row) \<or>
      (\<exists>rid p. (rid, Patch p) \<in> set (rc_overrides rc) \<and> override_row ma cx rid p = ok (Some row))" for row
  proof -
    have "row \<in> set rows \<longleftrightarrow> Some row \<in> snd ` set rs \<or> Some row \<in> set added" by (auto simp: rows set_keep_rows)
    also have "\<dots> \<longleftrightarrow> (\<exists>d\<in>base_dates rc start. d \<le> window_end \<and> plain_instance ma cx rc start d row) \<or>
      (\<exists>rid p. (rid, Patch p) \<in> set (rc_overrides rc) \<and> override_row ma cx rid p = ok (Some row))"
      unfolding B(2) A B(1) plain_instance_def using map_of_eq_Some_iff [OF dist] by blast
    finally show ?thesis .
  qed
  moreover have "sorted (map row_order rows)" by (simp add: rows)
  ultimately show ?thesis using cx we by blast
qed

text \<open>A plain instance has a row exactly when its resolved start lies in the horizon.\<close>

lemma plain_row_ok:
  "plain_row ma cx d = ok (Some row) \<longleftrightarrow>
     (\<exists>s e. resolve_range (ma_tz ma) (cx_zone cx) (d, cx_time cx) (ev_duration (ma_event ma)) = ok (s, e) \<and>
        in_window ma s \<and> row = expand_row ma s e None)"
  unfolding plain_row_def xbind_ok by (auto split: if_splits)

lemma series_rows:
  assumes tz: "tz_ok (ma_tz ma)" and rc: "recurrence_ok rc" and e: "recurring ma rc = ok rows"
    and start: "start = start_of (ev_start (ma_event ma))" and meant: "series_meant rc start"
  shows "\<exists>cx. zone_context ma (ev_start (ma_event ma)) = ok cx \<and> cx_time cx = snd start \<and>
    set rows = {row. (\<exists>d\<in>base_dates rc start. plain_instance ma cx rc start d row) \<or>
      (\<exists>rid p. (rid, Patch p) \<in> set (rc_overrides rc) \<and> override_row ma cx rid p = ok (Some row))} \<and>
    sorted (map row_order rows)"
proof -
  have cv: "civil_ok (tx_civil (ma_tz ma))" using tz by (simp add: tz_ok_def)
  obtain cx window_end where cx: "zone_context ma (ev_start (ma_event ma)) = ok cx" and we: "window_end_date ma = ok window_end"
    and rows: "set rows = {row. (\<exists>d\<in>base_dates rc start. d \<le> window_end \<and> plain_instance ma cx rc start d row) \<or>
      (\<exists>rid p. (rid, Patch p) \<in> set (rc_overrides rc) \<and> override_row ma cx rid p = ok (Some row))}"
    and sorted: "sorted (map row_order rows)"
    using recurring_rows [OF cv rc e start meant] by blast
  have "d \<le> window_end" if "d \<in> base_dates rc start" "plain_instance ma cx rc start d row" for d row
    using that(2) date_within_window [OF tz base_date_ok [OF that(1)] we] unfolding plain_instance_def plain_row_ok in_window_def by blast
  moreover have "cx_time cx = snd start" using context_start(2) [OF cv cx] start by (metis snd_conv)
  ultimately show ?thesis using cx rows sorted by blast
qed

lemma row_in_window:
  "plain_row ma cx d = ok (Some row) \<Longrightarrow> in_window ma (or_start row) \<and> or_event row = ev_key (ma_event ma)"
  "override_row ma cx rid p = ok (Some row) \<Longrightarrow> in_window ma (or_start row) \<and> or_event row = ev_key (ma_event ma)"
proof -
  show "plain_row ma cx d = ok (Some row) \<Longrightarrow> in_window ma (or_start row) \<and> or_event row = ev_key (ma_event ma)"
    unfolding plain_row_def xbind_ok by (auto simp: expand_row_def split: if_splits)
  assume "override_row ma cx rid p = ok (Some row)"
  then obtain s e z where "in_window ma s" "row = expand_row ma s e z"
    unfolding override_row_def Let_def xbind_ok by (auto simp: xbind_ok split: if_splits)
  then show "in_window ma (or_start row) \<and> or_event row = ev_key (ma_event ma)" by (simp add: expand_row_def)
qed

definition materializer_of :: "'z tz_env \<Rightarrow> cal_event \<Rightarrow> horizon \<Rightarrow> time_zone_id \<Rightarrow> 'z materializer" where
  "materializer_of tz e h host_zone = \<lparr>ma_event = e, ma_horizon = h, ma_host_zone = host_zone, ma_tz = tz\<rparr>"



text \<open>
  A zone that is UTC, whose instants count the days from one date, and an all-day event on two days of which the second
  is excluded.
\<close>

definition instant_date :: "instant \<Rightarrow> date" where
  "instant_date i = (case cv_add proleptic (2024, 2, 28) i of Some d \<Rightarrow> d | None \<Rightarrow> (9999, 12, 31))"

definition date_instant :: "date_time \<Rightarrow> instant" where
  "date_instant t = rata (fst t) - rata (2024, 2, 28)"

definition civil_crate :: time_crate where
  "civil_crate = \<lparr>tc_date_ok = (\<lambda>y m d. date_ok (y, m, d)), tc_time_ok = (\<lambda>h m s n. h < 24 \<and> m < 60 \<and> s < 60 \<and> n < 10 ^ 9)\<rparr>"

lemma civil_crate_ok: "time_crate_ok civil_crate"
  by (auto simp: time_crate_ok_def civil_crate_def date_ok_def intro: order_trans [OF _ month_length_bounds(2)])

definition sample_tz :: "unit tz_env" where
  "sample_tz = \<lparr>tx_civil = proleptic, tx_crate = civil_crate, tx_time_ok = (\<lambda>_. True), tx_get = (\<lambda>_. Some ()), tx_utc = (),
     tx_zoned = (\<lambda>_ t. if date_ok (fst t) then Some (date_instant t) else None), tx_add_days = (\<lambda>_ i n. Some (i + n)), tx_add_time = (\<lambda>i s n. Some i),
     tx_utc_civil = (\<lambda>i. (instant_date i, (0, 0, 0, 0))), tx_instant = date_instant, tx_version = ''2024a''\<rparr>"

definition sample_recurrence :: recurrence where
  "sample_recurrence = \<lparr>rc_rules = [leap_rule], rc_excluded_rules = [], rc_overrides = [(((2024, 2, 29), (0, 0, 0, 0)), Excluded)]\<rparr>"

definition sample_cal_event :: cal_event where
  "sample_cal_event = \<lparr>ev_key = ''e'', ev_uid = ''u'', ev_start = DateOf (2024, 2, 28), ev_duration = duration_zero, ev_status = StatusConfirmed,
     ev_sequence = 0, ev_recurrence = Some sample_recurrence, ev_recurrence_id = None, ev_participants = []\<rparr>"

lemma sample_dates_ok: "date_ok (2024, 2, 28)" "date_ok (2024, 2, 29)" "date_ok (2024, 3, 10)" "date_ok (2024, 3, 11)" "date_ok (9999, 12, 31)"
  by (simp_all add: date_ok_def month_length_def leap_def)

lemma proleptic_add: "cv_add proleptic (2024, 2, 28) i = Some e \<longleftrightarrow> date_ok e \<and> rata e = rata (2024, 2, 28) + i"
  using civil_laws(2) [OF proleptic_ok] sample_dates_ok(1) by blast

lemma instant_of_date: "date_ok d \<Longrightarrow> instant_date (date_instant (d, t)) = d"
  using proleptic_add [of "date_instant (d, t)" d] by (simp add: instant_date_def date_instant_def)

lemma instant_date_ok: "date_ok (instant_date i)"
  using proleptic_add sample_dates_ok(5) by (simp add: instant_date_def split: option.splits)

lemma sample_tz_ok: "tz_ok sample_tz"
proof -
  have "fst t \<le> instant_date i" if t: "date_time_ok civil_crate t" "date_instant t < i" for t i
  proof -
    have ok: "date_ok (fst t)" using t(1) by (cases "(civil_crate, t)" rule: date_time_ok.cases) (auto simp: civil_crate_def)
    show ?thesis
    proof (cases "cv_add proleptic (2024, 2, 28) i")
      case None
      then show ?thesis using ok by (cases "fst t") (auto simp: instant_date_def date_ok_def dest: order_trans [OF _ month_length_bounds(2)])
    next
      case (Some e)
      then show ?thesis using t(2) ok proleptic_add [of i e] rata_less_iff [of "fst t" e] by (auto simp: instant_date_def date_instant_def date_ok_def)
    qed
  qed
  moreover have "rata d \<le> rata (instant_date (date_instant (d, t))) + 1" if "date_ok d" for d t
    using instant_of_date [OF that] by simp
  ultimately show ?thesis
    using proleptic_ok civil_crate_ok instant_date_ok by (auto simp: tz_ok_def sample_tz_def split: if_splits)
qed

lemma sample_instants: "instant_date 0 = (2024, 2, 28)" "instant_date 11 = (2024, 3, 10)" "date_instant ((2024, 2, 28), t) = 0"
proof -
  have "before_month 2024 3 = before_month 2024 2 + 29" by (simp add: numeral_3_eq_3 numeral_2_eq_2 month_length_def leap_def)
  then have "rata (2024, 3, 10) = rata (2024, 2, 28) + 11" by (simp add: rata.simps)
  then show "instant_date 0 = (2024, 2, 28)" "instant_date 11 = (2024, 3, 10)"
    using proleptic_add [of 0 "(2024, 2, 28)"] proleptic_add [of 11 "(2024, 3, 10)"] sample_dates_ok by (simp_all add: instant_date_def)
  show "date_instant ((2024, 2, 28), t) = 0" by (simp add: date_instant_def)
qed

lemma timestamp_text_display: "timestamp_text ((y, m, d), (h, mi, s, 0)) = display_utc ((y, m, d), (h, mi, s, 0))"
  by (simp add: display_utc_def)

lemma timestamp_to_utc_whole:
  assumes "time_crate_ok (tx_crate tz)" "tx_utc_civil tz ts = ((y, m, d), (h, mi, s, 0))" "date_time_ok (tx_crate tz) ((y, m, d), (h, mi, s, 0))" "0 \<le> y"
  shows "timestamp_to_utc tz ts = ok (tx_instant tz ((y, m, d), (h, mi, s, 0)))"
proof -
  have "parse_utc (tx_crate tz) (display_utc ((y, m, d), (h, mi, s, 0))) = Some (Inr ((y, m, d), (h, mi, s, 0)))"
    using parse_format_wall_clock [OF assms(1,3,4)] by (simp add: parse_utc_def display_utc_def del: format_wall_clock.simps)
  then show ?thesis using assms(2) by (simp add: timestamp_to_utc_def timestamp_text_display del: timestamp_text.simps)
qed

lemma sample_range: "resolve_range sample_tz () ((2024, 2, 28), (0, 0, 0, 0)) duration_zero = ok (0, 0)"
proof -
  have "timestamp_to_utc sample_tz 0 = ok (tx_instant sample_tz ((2024, 2, 28), (0, 0, 0, 0)))"
    using civil_crate_ok sample_dates_ok
    by (intro timestamp_to_utc_whole) (simp_all add: sample_tz_def sample_instants civil_crate_def)
  moreover have "tx_zoned sample_tz () ((2024, 2, 28), (0, 0, 0, 0)) = Some 0" "tx_instant sample_tz ((2024, 2, 28), (0, 0, 0, 0)) = 0"
    using sample_dates_ok by (simp_all add: sample_tz_def sample_instants)
  ultimately show ?thesis by (simp add: resolve_range_def add_duration_def duration_is_zero_def duration_zero_def or_range_def)
qed

lemma sample_expands:
  "expand sample_tz sample_cal_event \<lparr>hz_start = 0, hz_end = 11\<rparr> (Iana ''UTC'') =
   ok [\<lparr>or_event = ''e'', or_start = 0, or_end = 0, or_recurrence_id = None, or_tzdata_version = ''2024a''\<rparr>]"
proof -
  let ?ma = "\<lparr>ma_event = sample_cal_event, ma_horizon = \<lparr>hz_start = 0, hz_end = 11\<rparr>, ma_host_zone = Iana ''UTC'', ma_tz = sample_tz\<rparr>"
  let ?cx = "\<lparr>cx_zone = (), cx_date = (2024, 2, 28), cx_time = (0, 0, 0, 0)\<rparr>"
  have civ: "zone_date sample_tz x = ok x" if "x \<in> {(2024, 2, 28), (2024, 3, 10)}" for x
    using that sample_dates_ok by (auto simp: zone_date_def sample_tz_def proleptic_def to_i16_def or_range_def)
  have cx: "zone_context ?ma (ev_start sample_cal_event) = ok ?cx"
    using civ [of "(2024, 2, 28)"] by (simp add: zone_context_def sample_cal_event_def)
  have date: "zone_date sample_tz (fst (tx_utc_civil sample_tz 11)) = ok (2024, 3, 10)"
    using civ [of "(2024, 3, 10)"] by (simp add: sample_tz_def sample_instants)
  have "cv_add (tx_civil sample_tz) (2024, 3, 10) 1 = Some (2024, 3, 11)"
    using sample_dates_ok by (simp add: sample_tz_def proleptic_def step_days_def month_length_def)
  then have we: "window_end_date ?ma = ok (2024, 3, 11)" using date by (simp add: window_end_date_def or_range_def)
  have base: "rules_base ?ma ?cx (2024, 3, 11) (rc_rules sample_recurrence) {} = ok {(2024, 2, 28), (2024, 2, 29)}"
    using generated_leap_days by (simp add: sample_recurrence_def) (simp add: sample_tz_def leap_rule_def rule_new_def insert_commute)
  have rid: "instance_rid ?ma ?cx (2024, 2, 28) = ok ((2024, 2, 28), (0, 0, 0, 0))" "instance_rid ?ma ?cx (2024, 2, 29) = ok ((2024, 2, 29), (0, 0, 0, 0))"
    using sample_dates_ok by (simp_all add: sample_tz_def civil_crate_def)
  have plain: "plain_row ?ma ?cx (2024, 2, 28) = ok (Some \<lparr>or_event = ''e'', or_start = 0, or_end = 0, or_recurrence_id = None, or_tzdata_version = ''2024a''\<rparr>)"
    unfolding plain_row_ok by (rule exI [of _ 0], rule exI [of _ 0])
      (simp add: sample_range in_window_def expand_row_def sample_cal_event_def sample_tz_def [THEN arg_cong [of _ _ tx_version]])
  have sorted: "sorted_list_of_set {(2024 :: int, 2 :: nat, 28 :: nat), (2024, 2, 29)} = [(2024, 2, 28), (2024, 2, 29)]"
    by (subst sorted_list_of_set_insert_remove) auto
  let ?row = "\<lparr>or_event = ''e'', or_start = 0, or_end = 0, or_recurrence_id = None, or_tzdata_version = ''2024a''\<rparr>"
  have rows: "xmap (base_row ?ma ?cx (rc_overrides sample_recurrence)) [(2024, 2, 28), (2024, 2, 29)] =
      ok [(((2024, 2, 28), (0, 0, 0, 0)), Some ?row), (((2024, 2, 29), (0, 0, 0, 0)), None)]"
    by (simp add: base_row_def rid plain sample_recurrence_def del: instance_rid.simps)
  have added: "xmap (added_row ?ma ?cx {((2024, 2, 28), (0, 0, 0, 0)), ((2024, 2, 29), (0, 0, 0, 0))}) (rc_overrides sample_recurrence) = ok [None]"
    by (simp add: added_row_def sample_recurrence_def)
  have "recurring ?ma sample_recurrence = ok [?row]"
    using cx we base sorted rows added
    by (simp add: recurring_def keep_rows_def map_filter_simps) (simp add: sample_recurrence_def)
  then show ?thesis
    by (simp add: expand_def run_materializer_def is_cancelled_def sample_cal_event_def) (simp add: sample_recurrence_def)
qed



section \<open>Where the code and its documentation part\<close>

lemma generated_member:
  assumes "civil_ok cv" "rule_expandable r" "date_ok start" "occurrence_dates cv start r window_end cap = ok out" "x \<in> set out"
  shows "x \<in> generated_set r start window_end"
proof -
  have fin: "finite (generated_set r start window_end)"
    by (rule finite_subset [OF _ finite_dates]) (auto simp: generated_set_def)
  have "out = truncated (bound_count (rr_bound r)) (sorted_list_of_set (generated_set r start window_end))"
    using occurrence_dates_set [OF assms(1) _ _ assms(3)] assms(2,4) unfolding rule_expandable_def by blast
  then show ?thesis using assms(5) set_sorted_list_of_set [OF fin]
    by (auto simp: truncated_def dest: in_set_takeD split: option.splits)
qed

text \<open>
  A yearly rule without months selects only dates in the month of its start, whatever days of the month or weekdays
  it names.
\<close>
theorem yearly_rule_stays_in_its_month:
  assumes "civil_ok cv" "rule_expandable r" "date_ok start" "rr_frequency r = Yearly" "rr_by_month r = []"
    "occurrence_dates cv start r window_end cap = ok out"
  shows "list_all (\<lambda>x. fst (snd x) = fst (snd start)) out"
proof -
  have "fst (snd x) = fst (snd start)" if "x \<in> set out" for x
    using generated_member [OF assms(1-3,6) that] assms(4,5) by (auto simp: generated_set_def generated_by_def Let_def)
  then show ?thesis unfolding list_all_iff by blast
qed

text \<open>A start in a month the rule does not name is not an instance.\<close>
theorem start_outside_months_dropped:
  assumes "civil_ok cv" "rule_expandable r" "date_ok start" "\<not> month_named r start" "occurrence_dates cv start r window_end cap = ok out"
  shows "start \<notin> set out"
  using generated_member [OF assms(1-3,5), of start] assms(4) by (auto simp: generated_set_def)

text \<open>A monthly rule with the largest signed interval overflows on the month of its start.\<close>
theorem month_interval_overflows:
  "occurrence_dates proleptic (2024, 2, 1) ((rule_new Monthly)\<lparr>rr_interval := 2147483647\<rparr>) (2030, 1, 1) 9 = None"
proof -
  have dates: "date_ok (2024, 2, 1)" by (simp add: date_ok_def month_length_def leap_def)
  show ?thesis
    using dates by (simp add: occurrence_dates_def rule_new_def check_supported_def has_nth_def rule_upper_def parse_by_month_def
        emit_def month_allowed_def count_reached_def bound_count_def generate_def generate_monthly_def Let_def)
      (subst monthly_loop.simps, simp add: ymd_def proleptic_def or_range_def rule_days_in_month_def emit_def month_allowed_def
        count_reached_def add_months_def Let_def)
qed

text \<open>The identity of an instance never carries a fraction of a second, also when the start has one.\<close>
theorem instance_id_drops_fraction:
  assumes "instance_rid ma cx d = ok rid"
  shows "snd (snd (snd (snd rid))) = 0"
  using instance_rid_ok [OF assms] by (auto simp: rid_of_def split: prod.splits)

end
