(* ===== verification/Scheduling.thy ===== *)
theory Scheduling
  imports Recurrence_Expand Window_Cursor Utf8
begin

text \<open>
  Inbound scheduling messages (\<open>engine-core/src/scheduling\<close>): whom a message may speak for, which revision wins, what
  the message asks for, and carrying it out on a stored event.
\<close>

section \<open>Keys and revisions\<close>

record instance_key =
  ik_uid :: string
  ik_recurrence_id :: "calendar_date_time option"

definition key_series :: "string \<Rightarrow> instance_key" where
  "key_series uid = \<lparr>ik_uid = uid, ik_recurrence_id = None\<rparr>"

definition key_instance :: "string \<Rightarrow> calendar_date_time \<Rightarrow> instance_key" where
  "key_instance uid rid = \<lparr>ik_uid = uid, ik_recurrence_id = Some rid\<rparr>"

definition is_series :: "instance_key \<Rightarrow> bool" where
  "is_series k \<longleftrightarrow> ik_recurrence_id k = None"

datatype revision = Revision (rv_sequence: nat) (rv_dtstamp: instant)

text \<open>The derived order: the sequence first, then the stamp.\<close>

definition supersedes :: "revision \<Rightarrow> revision \<Rightarrow> bool" where
  "supersedes new current \<longleftrightarrow> rv_sequence current < rv_sequence new \<or>
     rv_sequence current = rv_sequence new \<and> rv_dtstamp current < rv_dtstamp new"

section \<open>Trust\<close>

datatype imip_untrusted = Unauthenticated | MissingIdentity | SenderMismatch string

datatype imip_trust = Trusted | Untrusted imip_untrusted

definition normalize_address :: "string \<Rightarrow> string" where
  "normalize_address address =
     (let lowered = map ascii_lower (str_trim address) in
      case strip_prefix ''mailto:'' lowered of Some rest \<Rightarrow> rest | None \<Rightarrow> lowered)"

definition addresses_match :: "string \<Rightarrow> string \<Rightarrow> bool" where
  "addresses_match a b \<longleftrightarrow> normalize_address a = normalize_address b"

definition is_organizer_originated :: "schedule_method \<Rightarrow> bool" where
  "is_organizer_originated m \<longleftrightarrow> m \<in> {SPublish, SRequest, SAdd, SCancel, SDeclineCounter}"

definition evaluate_imip_trust :: "schedule_method \<Rightarrow> string option \<Rightarrow> string option \<Rightarrow> string option \<Rightarrow> imip_trust" where
  "evaluate_imip_trust m organizer replying_attendee authenticated_sender = (case authenticated_sender of
      None \<Rightarrow> Untrusted Unauthenticated
    | Some sender \<Rightarrow>
        (let (expected, label) = (if is_organizer_originated m then (organizer, ''organizer'') else (replying_attendee, ''attendee'')) in
         case expected of
           None \<Rightarrow> Untrusted MissingIdentity
         | Some identity \<Rightarrow> if addresses_match identity sender then Trusted else Untrusted (SenderMismatch label)))"

section \<open>Messages\<close>

record scheduling_message =
  sm_method :: schedule_method
  sm_event :: cal_event
  sm_dtstamp :: instant

definition message_key :: "scheduling_message \<Rightarrow> instance_key" where
  "message_key m = \<lparr>ik_uid = ev_uid (sm_event m), ik_recurrence_id = ev_recurrence_id (sm_event m)\<rparr>"

definition message_revision :: "scheduling_message \<Rightarrow> revision" where
  "message_revision m = Revision (ev_sequence (sm_event m)) (sm_dtstamp m)"

definition message_organizer :: "scheduling_message \<Rightarrow> string option" where
  "message_organizer m = Option.bind (find (\<lambda>p. has_role p Owner) (ev_participants (sm_event m))) pt_email"

definition replier :: "scheduling_message \<Rightarrow> participant option" where
  "replier m = (case find (\<lambda>p. \<not> has_role p Owner) (ev_participants (sm_event m)) of
      Some p \<Rightarrow> Some p
    | None \<Rightarrow> (case ev_participants (sm_event m) of [] \<Rightarrow> None | p # _ \<Rightarrow> Some p))"

definition replying_attendee :: "scheduling_message \<Rightarrow> string option" where
  "replying_attendee m = Option.bind (replier m) pt_email"

definition reply_status :: "scheduling_message \<Rightarrow> participation_status option" where
  "reply_status m = map_option pt_status (replier m)"

definition message_trust :: "scheduling_message \<Rightarrow> string option \<Rightarrow> imip_trust" where
  "message_trust m sender = evaluate_imip_trust (sm_method m) (message_organizer m) (replying_attendee m) sender"

section \<open>The decision\<close>

datatype schedule_action =
    ScheduleEvent
  | RecordReply string participation_status
  | CancelAction
  | Surface schedule_method
  | Superseded
  | Rejected imip_untrusted

definition reply_action :: "scheduling_message \<Rightarrow> schedule_action" where
  "reply_action m = (case replier m of
      Some p \<Rightarrow> (case pt_email p of Some attendee \<Rightarrow> RecordReply attendee (pt_status p) | None \<Rightarrow> Surface SReply)
    | None \<Rightarrow> Surface SReply)"

definition schedule_reconcile :: "scheduling_message \<Rightarrow> string option \<Rightarrow> revision option \<Rightarrow> schedule_action" where
  "schedule_reconcile m authenticated_sender current = (case message_trust m authenticated_sender of
      Untrusted reason \<Rightarrow> Rejected reason
    | Trusted \<Rightarrow>
        if (case current of Some c \<Rightarrow> \<not> supersedes (message_revision m) c | None \<Rightarrow> False) then Superseded
        else (case sm_method m of
            SRequest \<Rightarrow> ScheduleEvent
          | SCancel \<Rightarrow> CancelAction
          | SReply \<Rightarrow> reply_action m
          | other \<Rightarrow> Surface other))"

section \<open>Carrying it out\<close>

text \<open>The first participant with the address takes the status; whether there was one is the answer.\<close>

fun reply_loop :: "string \<Rightarrow> participation_status \<Rightarrow> participant list \<Rightarrow> bool \<times> participant list" where
  "reply_loop attendee status [] = (False, [])"
| "reply_loop attendee status (p # ps) =
     (if (case pt_email p of Some email \<Rightarrow> addresses_match email attendee | None \<Rightarrow> False)
      then (True, p\<lparr>pt_status := status\<rparr> # ps)
      else (case reply_loop attendee status ps of (found, ps) \<Rightarrow> (found, p # ps)))"

definition apply_reply :: "cal_event \<Rightarrow> string \<Rightarrow> participation_status \<Rightarrow> bool \<times> cal_event" where
  "apply_reply e attendee status = (case reply_loop attendee status (ev_participants e) of (found, ps) \<Rightarrow> (found, e\<lparr>ev_participants := ps\<rparr>))"

definition exclusion_key :: "calendar_date_time \<Rightarrow> calendar_date_time \<Rightarrow> date_time" where
  "exclusion_key rid series_start = (case rid of
      Floating l \<Rightarrow> l
    | Zoned l _ \<Rightarrow> l
    | DateOf d \<Rightarrow> (case cdt_local series_start of None \<Rightarrow> (d, (0, 0, 0, 0)) | Some (_, (h, mi, s, n)) \<Rightarrow> (d, (h, mi, s, 0))))"

definition schedule_cancel :: "cal_event \<Rightarrow> instance_key \<Rightarrow> cal_event" where
  "schedule_cancel e target = (case ik_recurrence_id target of
      None \<Rightarrow> e\<lparr>ev_status := StatusCancelled\<rparr>
    | Some rid \<Rightarrow>
        (let rc = (case ev_recurrence e of None \<Rightarrow> recurrence_default | Some rc \<Rightarrow> rc) in
         e\<lparr>ev_recurrence := Some (rc\<lparr>rc_overrides := bt_insert (exclusion_key rid (ev_start e)) Excluded (rc_overrides rc)\<rparr>)\<rparr>))"

section \<open>Finding the calendar part of a message\<close>

text \<open>A MIME part, as far as the search reads it.\<close>

datatype email_body_part = BodyPart (bp_media_type: string) (bp_blob_id: "string option") (bp_sub_parts: "email_body_part list")

definition calendar_media_type :: string where "calendar_media_type = ''text/calendar''"

definition is_calendar_part :: "email_body_part \<Rightarrow> bool" where
  "is_calendar_part p \<longleftrightarrow> map ascii_lower (bp_media_type p) = map ascii_lower calendar_media_type"

fun find_calendar_part :: "email_body_part \<Rightarrow> email_body_part option" and find_calendar_in :: "email_body_part list \<Rightarrow> email_body_part option" where
  "find_calendar_part (BodyPart mt blob subs) =
     (if is_calendar_part (BodyPart mt blob subs) then Some (BodyPart mt blob subs) else find_calendar_in subs)"
| "find_calendar_in [] = None"
| "find_calendar_in (p # ps) = (case find_calendar_part p of Some x \<Rightarrow> Some x | None \<Rightarrow> find_calendar_in ps)"

end
