(* ===== verification/Scheduling_Props.thy ===== *)
theory Scheduling_Props
  imports Scheduling Recurrence_Props "HOL-Library.Multiset"
begin

text \<open>
  What holds of scheduling: only an authenticated sender speaks, and only for itself; of the messages for one target
  the highest revision wins in whatever order they come; and a cancelled instance has no row.
\<close>

section \<open>Who a message speaks for\<close>

definition takes_effect :: "schedule_action \<Rightarrow> bool" where
  "takes_effect a \<longleftrightarrow> (case a of ScheduleEvent \<Rightarrow> True | RecordReply _ _ \<Rightarrow> True | CancelAction \<Rightarrow> True | _ \<Rightarrow> False)"

lemma trusted_sender:
  assumes "message_trust m sender = Trusted"
  shows "\<exists>s identity. sender = Some s \<and> addresses_match identity s \<and>
    (if is_organizer_originated (sm_method m) then message_organizer m else replying_attendee m) = Some identity"
  using assms by (auto simp: message_trust_def evaluate_imip_trust_def Let_def split: option.splits if_splits)

lemma reconcile_trusted: "schedule_reconcile m sender current = a \<Longrightarrow> takes_effect a \<Longrightarrow>
    message_trust m sender = Trusted \<and> (\<forall>c. current = Some c \<longrightarrow> supersedes (message_revision m) c)"
  by (auto simp: schedule_reconcile_def takes_effect_def split: imip_trust.splits if_splits option.splits)

lemma reply_loop_changes:
  assumes "reply_loop attendee status ps = (found, ps')"
  shows "list_all2 (\<lambda>p p'. p' = p \<or> p' = p\<lparr>pt_status := status\<rparr> \<and> (\<exists>email. pt_email p = Some email \<and> addresses_match email attendee)) ps ps' \<and>
    (found \<longleftrightarrow> (\<exists>p\<in>set ps. \<exists>email. pt_email p = Some email \<and> addresses_match email attendee)) \<and> (\<not> found \<longrightarrow> ps' = ps)"
  using assms
  by (induction attendee status ps arbitrary: found ps' rule: reply_loop.induct)
    (auto split: if_splits option.splits prod.splits simp: list.rel_refl)

text \<open>
  C22. A scheduling message is acted on only when its sender is authenticated and is the one the message speaks for. A
  request or a cancellation takes effect only from the organizer it names, and only over a lower revision; a recorded
  reply is the sender's own, and carrying it out changes nothing of the stored event but the status of a participant
  with the sender's address.
\<close>
theorem message_speaks_for_its_sender:
  assumes "schedule_reconcile m sender current = a" "takes_effect a"
  shows "\<exists>s. sender = Some s \<and> (\<forall>c. current = Some c \<longrightarrow> supersedes (message_revision m) c) \<and>
    (case a of
       RecordReply attendee status \<Rightarrow> sm_method m = SReply \<and> addresses_match attendee s \<and>
         (\<forall>e. case apply_reply e attendee status of (found, e') \<Rightarrow>
            e' = e\<lparr>ev_participants := ev_participants e'\<rparr> \<and> (\<not> found \<longrightarrow> e' = e) \<and>
            list_all2 (\<lambda>p p'. p' = p \<or> p' = p\<lparr>pt_status := status\<rparr> \<and> (\<exists>email. pt_email p = Some email \<and> addresses_match email s))
              (ev_participants e) (ev_participants e'))
     | _ \<Rightarrow> \<exists>organizer. message_organizer m = Some organizer \<and> addresses_match organizer s)"
proof -
  note T = reconcile_trusted [OF assms]
  obtain s identity where s: "sender = Some s" "addresses_match identity s"
    "(if is_organizer_originated (sm_method m) then message_organizer m else replying_attendee m) = Some identity"
    using trusted_sender [OF T [THEN conjunct1]] by blast
  have a: "a = (case sm_method m of SRequest \<Rightarrow> ScheduleEvent | SCancel \<Rightarrow> CancelAction | SReply \<Rightarrow> reply_action m | other \<Rightarrow> Surface other)"
    using assms(1) T by (auto simp: schedule_reconcile_def split: option.splits)
  show ?thesis
  proof (cases "\<exists>attendee status. a = RecordReply attendee status")
    case True
    then obtain attendee status where r: "a = RecordReply attendee status" by blast
    then have m: "sm_method m = SReply" "reply_action m = RecordReply attendee status" using a by (cases "sm_method m"; simp)+
    then have "replying_attendee m = Some attendee" by (auto simp: reply_action_def replying_attendee_def split: option.splits)
    then have "identity = attendee" using s(3) m(1) by (simp add: is_organizer_originated_def)
    then have match: "addresses_match attendee s" using s(2) by simp
    have "case apply_reply e attendee status of (found, e') \<Rightarrow>
            e' = e\<lparr>ev_participants := ev_participants e'\<rparr> \<and> (\<not> found \<longrightarrow> e' = e) \<and>
            list_all2 (\<lambda>p p'. p' = p \<or> p' = p\<lparr>pt_status := status\<rparr> \<and> (\<exists>email. pt_email p = Some email \<and> addresses_match email s))
              (ev_participants e) (ev_participants e')" for e
    proof -
      obtain found ps' where l: "reply_loop attendee status (ev_participants e) = (found, ps')" by (cases "reply_loop attendee status (ev_participants e)")
      show ?thesis using reply_loop_changes [OF l] match l
        by (auto simp: apply_reply_def addresses_match_def)
    qed
    then show ?thesis using s T r m match by auto
  next
    case False
    then have "sm_method m \<in> {SRequest, SCancel}" using a assms(2) by (auto simp: takes_effect_def reply_action_def split: schedule_method.splits option.splits)
    then have "message_organizer m = Some identity" using s(3) by (auto simp: is_organizer_originated_def)
    moreover have "a = ScheduleEvent \<or> a = CancelAction" using False assms(2) by (cases a) (auto simp: takes_effect_def)
    ultimately show ?thesis using s T by auto
  qed
qed


definition boss :: participant where
  "boss = (participant_attendee ''mailto:boss@x'')\<lparr>pt_roles := {Owner}\<rparr>"

definition guest :: participant where
  "guest = (participant_attendee ''Guest@x'')\<lparr>pt_status := PAccepted\<rparr>"

definition meeting :: cal_event where
  "meeting = \<lparr>ev_key = ''e'', ev_uid = ''u'', ev_start = DateOf (2024, 2, 28), ev_duration = duration_zero, ev_status = StatusConfirmed,
     ev_sequence = 1, ev_recurrence = None, ev_recurrence_id = None, ev_participants = [boss, guest]\<rparr>"

definition guest_reply :: scheduling_message where
  "guest_reply = \<lparr>sm_method = SReply, sm_event = meeting, sm_dtstamp = 5\<rparr>"

lemma trim_address: "str_trim ''guest@x'' = ''guest@x''" "str_trim ''Guest@x'' = ''Guest@x''"
  by (simp_all add: str_trim_def char_width_def white_chunk_def chars_of.simps is_whitespace_def Let_def)

lemma guest_matches: "addresses_match ''Guest@x'' ''guest@x''"
proof -
  have "map ascii_lower ''Guest@x'' = ''guest@x''" "map ascii_lower ''guest@x'' = ''guest@x''" by code_simp+
  then show ?thesis by (simp only: addresses_match_def normalize_address_def trim_address)
qed

lemma guest_reply_recorded: "schedule_reconcile guest_reply (Some ''guest@x'') (Some (Revision 1 4)) = RecordReply ''Guest@x'' PAccepted"
proof -
  have r: "replier guest_reply = Some guest"
    by (simp add: replier_def guest_reply_def meeting_def boss_def guest_def participant_attendee_def has_role_def)
  then have "replying_attendee guest_reply = Some ''Guest@x''" by (simp add: replying_attendee_def guest_def participant_attendee_def)
  then have "message_trust guest_reply (Some ''guest@x'') = Trusted"
    using guest_matches by (simp add: message_trust_def evaluate_imip_trust_def guest_reply_def is_organizer_originated_def)
  moreover have "reply_action guest_reply = RecordReply ''Guest@x'' PAccepted" using r by (simp add: reply_action_def guest_def participant_attendee_def)
  moreover have "sm_method guest_reply = SReply" "supersedes (message_revision guest_reply) (Revision 1 4)"
    by (simp_all add: guest_reply_def message_revision_def meeting_def supersedes_def)
  ultimately show ?thesis by (simp add: schedule_reconcile_def)
qed

theorem message_speaks_for_its_sender_witness:
  "\<exists>s. Some ''guest@x'' = Some s \<and> addresses_match ''Guest@x'' s \<and> supersedes (message_revision guest_reply) (Revision 1 4)"
  using message_speaks_for_its_sender [OF guest_reply_recorded] by (simp add: takes_effect_def)

section \<open>Which revision wins\<close>

text \<open>The revision kept for a target, moved on by every message that is neither rejected nor superseded.\<close>

definition advance_revision :: "scheduling_message \<times> string option \<Rightarrow> revision option \<Rightarrow> revision option" where
  "advance_revision ms current = (case ms of (m, sender) \<Rightarrow> (case schedule_reconcile m sender current of
      Rejected _ \<Rightarrow> current | Superseded \<Rightarrow> current | _ \<Rightarrow> Some (message_revision m)))"

definition trusted_revisions :: "(scheduling_message \<times> string option) list \<Rightarrow> revision list" where
  "trusted_revisions ms = map (message_revision \<circ> fst) (filter (\<lambda>(m, sender). message_trust m sender = Trusted) ms)"

definition is_highest :: "revision list \<Rightarrow> revision option \<Rightarrow> bool" where
  "is_highest rs r = (case r of None \<Rightarrow> rs = [] | Some r \<Rightarrow> r \<in> set rs \<and> list_all (\<lambda>r'. \<not> supersedes r' r) rs)"

lemma advance_revision_cases:
  "advance_revision (m, sender) current =
     (if message_trust m sender = Trusted \<and> (case current of None \<Rightarrow> True | Some c \<Rightarrow> supersedes (message_revision m) c)
      then Some (message_revision m) else current)"
  by (cases "message_trust m sender"; cases "sm_method m")
    (auto simp: advance_revision_def schedule_reconcile_def reply_action_def split: option.splits)

lemma supersedes_linear: "supersedes a b \<or> a = b \<or> supersedes b a" "supersedes a b \<Longrightarrow> supersedes b c \<Longrightarrow> supersedes a c" "\<not> supersedes a a"
  by (cases a; cases b; cases c; force simp: supersedes_def)+

lemma advance_highest:
  assumes "is_highest rs current"
  shows "is_highest (rs @ trusted_revisions [x]) (advance_revision x current)"
proof -
  obtain m sender where x: "x = (m, sender)" by (cases x)
  have "\<not> supersedes r (message_revision m)" if "supersedes (message_revision m) c" "\<not> supersedes r c" for r c
    using that supersedes_linear(2) [of r "message_revision m" c] by blast
  then show ?thesis
    using assms supersedes_linear(3) [of "message_revision m"]
    by (cases "message_trust m sender = Trusted"; cases current)
      (auto simp: x advance_revision_cases is_highest_def trusted_revisions_def list_all_iff)
qed

lemma fold_highest: "is_highest rs current \<Longrightarrow> is_highest (rs @ trusted_revisions ms) (fold advance_revision ms current)"
proof (induction ms arbitrary: rs current)
  case (Cons x ms)
  have "trusted_revisions (x # ms) = trusted_revisions [x] @ trusted_revisions ms" by (simp add: trusted_revisions_def)
  then show ?case using Cons.IH [OF advance_highest [OF Cons.prems, of x]] by simp
qed (simp add: trusted_revisions_def)

text \<open>
  Of the messages for one target the highest trusted revision wins, in whatever order they arrive and however
  often: after any sequence of messages the revision kept is one of a trusted message that no other supersedes, and
  any rearrangement of the messages ends with the same one.
\<close>
theorem highest_revision_wins:
  assumes "mset ms' = mset ms"
  shows "is_highest (trusted_revisions ms) (fold advance_revision ms None) \<and> fold advance_revision ms' None = fold advance_revision ms None"
proof -
  have "is_highest [] None" by (simp add: is_highest_def)
  then have h: "is_highest (trusted_revisions ms) (fold advance_revision ms None)" "is_highest (trusted_revisions ms') (fold advance_revision ms' None)"
    using fold_highest [of "[]" None] by auto
  have "set (trusted_revisions ms') = set (trusted_revisions ms)"
    using mset_eq_setD [OF assms] by (simp add: trusted_revisions_def)
  then have "fold advance_revision ms' None = fold advance_revision ms None"
    using h supersedes_linear(1) [of "the (fold advance_revision ms' None)" "the (fold advance_revision ms None)"]
    by (auto simp: is_highest_def list_all_iff split: option.splits)
  then show ?thesis using h by simp
qed

theorem highest_revision_wins_witness:
  "fold advance_revision [(guest_reply, None), (guest_reply, Some ''guest@x'')] None = fold advance_revision [(guest_reply, Some ''guest@x''), (guest_reply, None)] None"
  using highest_revision_wins [of "[(guest_reply, None), (guest_reply, Some ''guest@x'')]" "[(guest_reply, Some ''guest@x''), (guest_reply, None)]"] by simp

section \<open>A cancelled instance\<close>

lemma cancel_fields:
  assumes "ev_recurrence e = Some rc" "ik_recurrence_id target = Some rid"
  shows "ev_recurrence (schedule_cancel e target) = Some (rc\<lparr>rc_overrides := bt_insert (exclusion_key rid (ev_start e)) Excluded (rc_overrides rc)\<rparr>)"
    "ev_start (schedule_cancel e target) = ev_start e" "ev_duration (schedule_cancel e target) = ev_duration e" "ev_key (schedule_cancel e target) = ev_key e"
    "ev_status (schedule_cancel e target) = ev_status e" "ev_recurrence_id (schedule_cancel e target) = ev_recurrence_id e"
  using assms by (simp_all add: schedule_cancel_def Let_def)

lemma same_materializing:
  assumes "ev_duration e' = ev_duration e" "ev_key e' = ev_key e"
  shows "zone_context (materializer_of tz e' h z) v = zone_context (materializer_of tz e h z) v"
    "window_end_date (materializer_of tz e' h z) = window_end_date (materializer_of tz e h z)"
    "plain_row (materializer_of tz e' h z) cx d = plain_row (materializer_of tz e h z) cx d"
    "override_row (materializer_of tz e' h z) cx rid p = override_row (materializer_of tz e h z) cx rid p"
proof -
  have sel: "ma_tz (materializer_of tz e' h z) = ma_tz (materializer_of tz e h z)"
    "ma_horizon (materializer_of tz e' h z) = ma_horizon (materializer_of tz e h z)"
    "ma_host_zone (materializer_of tz e' h z) = ma_host_zone (materializer_of tz e h z)"
    "ev_duration (ma_event (materializer_of tz e' h z)) = ev_duration (ma_event (materializer_of tz e h z))"
    "ev_key (ma_event (materializer_of tz e' h z)) = ev_key (ma_event (materializer_of tz e h z))"
    using assms by (simp_all add: materializer_of_def)
  then have rows: "expand_row (materializer_of tz e' h z) = expand_row (materializer_of tz e h z)"
    "in_window (materializer_of tz e' h z) = in_window (materializer_of tz e h z)"
    by (simp_all add: expand_row_def in_window_def fun_eq_iff)
  show "zone_context (materializer_of tz e' h z) v = zone_context (materializer_of tz e h z) v"
    "window_end_date (materializer_of tz e' h z) = window_end_date (materializer_of tz e h z)"
    "plain_row (materializer_of tz e' h z) cx d = plain_row (materializer_of tz e h z) cx d"
    "override_row (materializer_of tz e' h z) cx rid p = override_row (materializer_of tz e h z) cx rid p"
    by (simp_all only: zone_context_def window_end_date_def plain_row_def override_row_def sel rows)
qed

text \<open>
  The instance a recurrence id names in a series with this start: written as a date, the one of that day; written in
  the form and the zone of the series, the one at that wall clock. Written otherwise it would have to be converted first.
\<close>

definition instance_named :: "calendar_date_time \<Rightarrow> calendar_date_time \<Rightarrow> date_time option" where
  "instance_named rid start = (case rid of
      DateOf d \<Rightarrow> Some (d, snd (start_of start))
    | Floating l \<Rightarrow> (case start of Floating _ \<Rightarrow> Some l | _ \<Rightarrow> None)
    | Zoned l z \<Rightarrow> (case start of Zoned _ z' \<Rightarrow> if z' = z then Some l else None | _ \<Rightarrow> None))"

lemma exclusion_key_named:
  assumes "instance_named rid start = Some k" "whole_second (start_of start)"
  shows "exclusion_key rid start = k"
  using assms
  by (auto simp: instance_named_def exclusion_key_def start_of_def whole_second_def
      split: calendar_date_time.splits if_splits prod.splits)

text \<open>
  C35. Carrying out a cancellation takes exactly what it names off the calendar. Cancelling the series leaves no rows.
  Cancelling one instance leaves the rows of every other instance, patched or not, and none of that one, for a
  series that starts on a whole second and whose rules the code does not part from, when the message names the instance by its date or
  by its wall clock in the form and the zone of the series.
\<close>
theorem cancelled_instance_gone:
  assumes "tz_ok tz" "recurrence_ok rc" "ev_recurrence e = Some rc" "rc_rules rc \<noteq> []" "ev_recurrence_id e = None"
    "ev_status e \<noteq> StatusCancelled" "start = start_of (ev_start e)" "series_meant rc start" "instance_named rid (ev_start e) = Some k"
    "expand tz (schedule_cancel e (key_instance uid rid)) h host_zone = ok rows"
  shows "expand tz (schedule_cancel e (key_series uid)) h host_zone = ok [] \<and>
    (\<exists>cx. let ma = materializer_of tz e h host_zone in
       zone_context ma (ev_start e) = ok cx \<and>
       set rows = {row. (\<exists>d\<in>base_dates rc start. (d, snd start) \<noteq> k \<and> map_of (rc_overrides rc) (d, snd start) = None \<and> plain_row ma cx d = ok (Some row)) \<or>
         (\<exists>r p. r \<noteq> k \<and> (r, Patch p) \<in> set (rc_overrides rc) \<and> override_row ma cx r p = ok (Some row))})"
proof -
  let ?t = "key_instance uid rid" and ?ma = "materializer_of tz e h host_zone"
  let ?e = "schedule_cancel e ?t" and ?rc = "rc\<lparr>rc_overrides := bt_insert k Excluded (rc_overrides rc)\<rparr>"
  have t: "ik_recurrence_id ?t = Some rid" by (simp add: key_instance_def)
  have k: "exclusion_key rid (ev_start e) = k" using exclusion_key_named [OF assms(9)] assms(7,8) by (simp add: series_meant_def)
  note F = cancel_fields [OF assms(3) t, unfolded k]
  note S = same_materializing [OF F(3,4), of tz h host_zone]
  have ok: "recurrence_ok ?rc" using assms(2) by (simp add: recurrence_ok_def)
  have d: "distinct (map fst (rc_overrides rc))" "distinct (map fst (rc_overrides ?rc))"
    using assms(2) ok by (auto simp: recurrence_ok_def intro: bt_ok_distinct)
  have base: "base_dates ?rc start = base_dates rc start" by (simp add: base_dates_def)
  have patches: "(r, Patch p) \<in> set (rc_overrides ?rc) \<longleftrightarrow> r \<noteq> k \<and> (r, Patch p) \<in> set (rc_overrides rc)" for r p
    using map_of_eq_Some_iff [OF d(1), of r "Patch p"] map_of_eq_Some_iff [OF d(2), of r "Patch p"] by (auto split: if_splits)
  have plain: "map_of (rc_overrides ?rc) r = None \<longleftrightarrow> r \<noteq> k \<and> map_of (rc_overrides rc) r = None" for r by simp
  have sel: "ma_tz (materializer_of tz ?e h host_zone) = tz" "ma_event (materializer_of tz ?e h host_zone) = ?e" by (simp_all add: materializer_of_def)
  have "recurring (materializer_of tz ?e h host_zone) ?rc = ok rows"
    using assms(4-6,10) F by (simp add: expand_def run_materializer_def is_cancelled_def materializer_of_def)
  from series_rows [OF _ ok this, unfolded sel F(2), OF assms(1,7)] assms(8)
  obtain cx where "zone_context (materializer_of tz ?e h host_zone) (ev_start e) = ok cx"
    "set rows = {row. (\<exists>d\<in>base_dates ?rc start. plain_instance (materializer_of tz ?e h host_zone) cx ?rc start d row) \<or>
      (\<exists>r p. (r, Patch p) \<in> set (rc_overrides ?rc) \<and> override_row (materializer_of tz ?e h host_zone) cx r p = ok (Some row))}"
    by (auto simp: series_meant_def)
  then have "zone_context ?ma (ev_start e) = ok cx \<and>
    set rows = {row. (\<exists>d\<in>base_dates rc start. (d, snd start) \<noteq> k \<and> map_of (rc_overrides rc) (d, snd start) = None \<and> plain_row ?ma cx d = ok (Some row)) \<or>
      (\<exists>r p. r \<noteq> k \<and> (r, Patch p) \<in> set (rc_overrides rc) \<and> override_row ?ma cx r p = ok (Some row))}"
    unfolding S base patches plain plain_instance_def by (simp only: conj_assoc simp_thms)
  moreover have "expand tz (schedule_cancel e (key_series uid)) h host_zone = ok []"
    by (simp add: expand_def run_materializer_def is_cancelled_def schedule_cancel_def key_series_def)
  ultimately show ?thesis unfolding Let_def by blast
qed


definition sample_series :: cal_event where
  "sample_series = sample_cal_event\<lparr>ev_recurrence := Some (recurrence_from_rule leap_rule)\<rparr>"

lemma sample_series_cancelled: "schedule_cancel sample_series (key_instance ''u'' (DateOf (2024, 2, 29))) = sample_cal_event"
  by (simp add: schedule_cancel_def sample_series_def sample_cal_event_def key_instance_def recurrence_from_rule_def exclusion_key_def sample_recurrence_def)

theorem cancelled_instance_gone_witness:
  "expand sample_tz (schedule_cancel sample_series (key_series ''u'')) \<lparr>hz_start = 0, hz_end = 11\<rparr> (Iana ''UTC'') = ok [] \<and>
   instance_named (DateOf (2024, 2, 29)) (ev_start sample_series) = Some ((2024, 2, 29), (0, 0, 0, 0))"
proof -
  have "recurrence_ok (recurrence_from_rule leap_rule)"
    by (simp add: recurrence_ok_def recurrence_from_rule_def rule_expandable_def rule_ok_def leap_rule_def rule_new_def)
  moreover have "series_meant (recurrence_from_rule leap_rule) (start_of (ev_start sample_series))"
    by (simp add: series_meant_def whole_second_def start_of_def sample_series_def sample_cal_event_def recurrence_from_rule_def
        rule_meant_def leap_rule_def rule_new_def month_named_def)
  moreover have named: "instance_named (DateOf (2024, 2, 29)) (ev_start sample_series) = Some ((2024, 2, 29), (0, 0, 0, 0))"
    by (simp add: instance_named_def start_of_def sample_series_def sample_cal_event_def)
  moreover have "ev_recurrence sample_series = Some (recurrence_from_rule leap_rule)" "rc_rules (recurrence_from_rule leap_rule) \<noteq> []"
    "ev_recurrence_id sample_series = None" "ev_status sample_series \<noteq> StatusCancelled"
    by (simp_all add: sample_series_def sample_cal_event_def recurrence_from_rule_def)
  ultimately show ?thesis
    using cancelled_instance_gone [OF sample_tz_ok _ _ _ _ _ refl _ _ sample_expands [folded sample_series_cancelled]] by blast
qed

text \<open>
  The key of a cancelled instance is the wall clock its message writes, in whatever zone: one written in UTC for a
  series at nine in another zone names no instance of it.
\<close>
theorem cancel_key_ignores_zone:
  "exclusion_key (Zoned ((2026, 6, 1), (7, 0, 0, 0)) (Iana ''Etc/UTC'')) (Zoned ((2026, 6, 1), (9, 0, 0, 0)) (Iana ''Europe/Amsterdam'')) \<noteq>
   rid_of \<lparr>cx_zone = z, cx_date = d, cx_time = (9, 0, 0, 0)\<rparr> d'"
  by (simp add: exclusion_key_def rid_of_def)

section \<open>The calendar part\<close>

fun parts_of :: "email_body_part \<Rightarrow> email_body_part list" where
  "parts_of (BodyPart mt blob subs) = BodyPart mt blob subs # concat (map parts_of subs)"

text \<open>The search finds the first calendar part of the tree in depth-first order, and fails only when there is none.\<close>
theorem calendar_part_found: "find_calendar_part p = find is_calendar_part (parts_of p)"
  "find_calendar_in ps = find is_calendar_part (concat (map parts_of ps))"
proof (induction p and ps rule: find_calendar_part_find_calendar_in.induct)
  case (3 p ps)
  then show ?case by (cases "find is_calendar_part (parts_of p)") (auto simp: find_append)
qed auto

end
