(* ===== verification/Spec2Isabelle.thy ===== *)
theory Spec2Isabelle
  imports Outbox_Props Scope_Props Threading_Props Mail_Props Driver_Props Mailbox_Props Read_Props Stream_Props Codec_Props Http_Props Recurrence_Props Scheduling_Props
begin

text \<open>
  \<^bold>\<open>A verification of the sync engine's store contract and the drivers on top of it.\<close>

  The engine keeps a local copy of mail, calendars and contacts in step with several providers, and sends
  local changes to them through a durable outbox. Its correctness rests on one contract (the \<open>Store\<close> trait
  of \<open>engine-store\<close>): who may write a scope or settle an op, what a commit leaves, and what happens to an
  attempt whose worker is gone. This development models that contract and its reference implementation,
  the in-memory store \<open>MemStore\<close> (\<open>engine-store/src/mem\<close>), operation by operation, with the parts of
  \<open>engine-core\<close> it is made of; and above it the drivers of \<open>engine-sync\<close>: those of the outbox, which claim
  queued writes, call a provider and record what came of it, and those of the sync, which claim a scope, read
  pages from a provider and commit them. Beside them stand the parts those passes lean on: the bytes of an
  outgoing message (\<open>engine-rfc5322\<close>), the codecs of the adapters, the HTTP transport with its retries, pace
  and hand-over (\<open>engine-http\<close>), the expansion of recurring events into the rows a calendar sync commits
  (\<open>engine-recurrence\<close>), and the scheduling messages that change them (\<open>engine-core/src/scheduling\<close>).

  \<^bold>\<open>Modelling.\<close> A \<open>HashMap\<close> is an association list whose order stands for the iteration order, which is
  arbitrary; a \<open>BTreeMap\<close> is one sorted by key and a \<open>BTreeSet\<close> a strictly sorted list. Ids are strings,
  compared byte by byte; fencing tokens, op ids and the id counter are \<open>u64\<close> words that wrap, so a fact about
  all histories bounds their length, far above any run; attempt counts saturate at \<open>u32::MAX\<close>. Instants are
  integers (nanoseconds); the \<open>time\<close> crate's checked addition is the parameter \<open>padd\<close>, and where its result
  matters it is assumed to be the sum (\<open>time_lib\<close>), which \<open>pdt_add_ref\<close> satisfies. A JSON value is the type
  variable \<open>'v\<close>; the \<open>SyncObject\<close> trait of a synced object is a record of its key and its payload, and a
  payload may fail to serialize. An operation takes the clock's reading and the state and returns its result
  with the state it leaves; an early return leaves what was written before it. Every operation of \<open>MemStore\<close>
  holds the store's lock from beginning to end, so concurrent workers produce a sequence of whole operations:
  the inductive predicate \<open>history\<close>. A driver is not atomic: before each of its store calls anything may happen
  to the store, so a driver runs in a \<open>world\<close> that holds, for every store call it will make, the other
  workers' and the host's commands before it and the readings of the wall and the monotonic clock; the world
  also records every command and delivery. A provider is a record of functions; a submission, which records
  its own hand-over, is a tree of commits, deliveries and answers; a stream of mail is the finite list of its
  items, each with the number of lease renewals that fall due while it is awaited. A read of the store by a
  driver is a \<open>reader\<close>, a tree of single reads between which the store may change. Encoding and decoding of a
  payload is a parameter, and so are lower-casing, the digest of a draft and the punycode of a domain. Of the
  \<open>time\<close> crate the readers of dates use which dates exist and how an instant is made of one (\<open>time_crate\<close>);
  text is a list of bytes and slicing it inside a character is a panic, the value \<open>None\<close>. The text of a \<open>Date\<close>
  header is a parameter too. An HTTP exchange takes from its environment what the client polls, what the server
  answers and when, the clock and the entropy of a backoff. Of \<open>jiff\<close> recurrence uses date arithmetic, weekdays
  and month lengths (\<open>civil\<close>, with \<open>civil_ok\<close> the proleptic Gregorian calendar, which \<open>proleptic\<close> satisfies), and
  expansion the time-zone database and its instants (\<open>tz_env\<close>, with \<open>tz_ok\<close> its offsets below a day and its UTC dates in
  order).

  \<^bold>\<open>Theories.\<close>
  \<^item> \<open>Prelude\<close>: maps, sets, saturating arithmetic; the locale \<open>key_map\<close> states what a keyed collection
    promises and is interpreted for both map representations.
  \<^item> \<open>Time_Model\<close>, \<open>Ids_Scopes\<close>, \<open>Mail_Rows\<close>, \<open>Write_Contract\<close>: the vocabulary of \<open>engine-core\<close> (time,
    scopes, failure classes, keywords, flags, revision tokens, derived rows, keyword edits, pending ops).
  \<^item> \<open>Settle\<close>, \<open>Op_Machine\<close>: recording an outcome (\<open>settle.rs\<close>), the op cell of \<open>mem/outbox.rs\<close>, and the
    life of one op as a labelled step relation with what no path can do.
  \<^item> \<open>Scope_Cell\<close>, \<open>Mem_State\<close>: per-scope state, derived rows and their slices per key (\<open>mem/mod.rs\<close>), the
    whole store state and the keyword overlay (\<open>mem/keyword_edits.rs\<close>).
  \<^item> \<open>Outbox\<close>, \<open>Outbox_Laws\<close>, \<open>Outbox_Inv\<close>: the outbox operations, each as paths of the op machine, and the
    outbox invariant.
  \<^item> \<open>Union_Find\<close>, \<open>Threading\<close>: thread maintenance (\<open>mem/threading.rs\<close>). The two loops of \<open>find\<close> are partial
    functions shown to return on every forest; the locale \<open>partition_store\<close> states what the grouping needs of
    a union-find structure and the parent vector interprets it.
  \<^item> \<open>Scope_Store\<close>, \<open>Scope_Laws\<close>: claiming, applying, maintaining and ending a scope lease (\<open>mem/write.rs\<close>,
    \<open>mem/lifecycle.rs\<close>).
  \<^item> \<open>Fencing\<close>, \<open>Store_Machine\<close>, \<open>Store_History\<close>, \<open>Outbox_Safety\<close>: the locale \<open>fencing\<close> proves from the laws
    of generations alone that a superseded lease is stale; scope leases and op leases both interpret it over
    the histories of the store.
  \<^item> \<open>Send_Once\<close>: histories with the deliveries beside them, the discipline of workers and host (\<open>lawful\<close>), and
    that under it a send is delivered at most once.
  \<^item> \<open>Reads\<close>: the lease-free reads (\<open>mem/read.rs\<close>).
  \<^item> \<open>Provider_Api\<close>, \<open>Mailbox_Plan\<close>: classified provider errors, requests and the hand-over of a submission
    (\<open>engine-provider\<close>); folder names and the plan of a folder change (\<open>outbox/mailbox_plan.rs\<close>).
  \<^item> \<open>Driver_World\<close>, \<open>Send_Driver\<close>, \<open>Write_Drivers\<close>: the drivers of \<open>engine-sync/src/outbox\<close>: claiming with a
    wait, one attempt at a send, the foreground send, the drain pass, and every other write.
  \<^item> \<open>Driver_Safety\<close>, \<open>Driver_Laws\<close>: the drivers keep the discipline of \<open>Send_Once\<close> in every interleaving that
    itself keeps it and leaves the leases a driver was handed to that driver, whatever worker id the others have
    (a rely and guarantee argument, call by call), and what they answer.
  \<^item> \<open>Digits\<close>, \<open>Utf8\<close>, \<open>Time_Text\<close>, \<open>Window_Cursor\<close>: numerals, byte slices, the readers and printers of dates,
    date-times and durations (\<open>engine-core/src/time\<close>), and cursors stamped with the floor of a sync window.
  \<^item> \<open>Message\<close>, \<open>Message_Store\<close>: a message, the payload and rows it is stored as, their projection, and the join
    that reads it back (\<open>engine-api/src/engine/reads.rs\<close>).
  \<^item> \<open>Sync_Reads\<close>, \<open>Sync_Driver\<close>, \<open>Mail_Stream\<close>: what a sync reads from the store, the lease discipline of a
    whole-scope sync and of forgetting vanished folders (\<open>lib.rs\<close>, \<open>vanished.rs\<close>), and the streaming mail sync
    (\<open>stream.rs\<close> of \<open>engine-provider\<close> and of \<open>engine-sync\<close>).
  \<^item> \<open>Sync_Safety\<close>, \<open>Stream_Laws\<close>: how those passes end in every interleaving, what their commits were made of,
    and that a stream is worth its drained pass.
  \<^item> \<open>Base64\<close>, \<open>Utf7\<close>: the base64 codecs of the adapters and modified UTF-7 mailbox names. \<open>Mime_Out\<close>, \<open>Mime_Laws\<close>:
    drafts, the assembly of a message (\<open>assemble.rs\<close>, \<open>mime.rs\<close>), and what its header block is made of.
  \<^item> \<open>Http_Policy\<close>, \<open>Http_Send\<close>: the retry policy, the pace and the lanes of an account; a request sent in pieces
    with the hand-over before the last, its errors, and the retry loop.
  \<^item> \<open>Civil\<close>, \<open>Recurrence_Rule\<close>: the calendar, and the rules and loops of \<open>rule.rs\<close>. \<open>Recurrence_Laws\<close>,
    \<open>Recurrence_Loops\<close>, \<open>Recurrence_Sets\<close>: the dates each loop generates, the recurrence set a rule means, and the rules
    (\<open>rule_meant\<close>) on which the two are the same. \<open>Recurrence_Total\<close>: when they come without an error.
  \<^item> \<open>Calendar_Model\<close>, \<open>Recurrence_Expand\<close>: calendar times, events, overrides and patches; from an event to its rows
    (\<open>expand.rs\<close>, \<open>zone.rs\<close>). \<open>Scheduling\<close>: trust in a scheduling message, what it asks for, carrying it out.
  \<^item> \<open>Runs\<close>, \<open>Driver_Runs\<close>: computing a history from a script of commands, and a driver's run in a sample world, for concrete applications.
  \<^item> \<open>Outbox_Props\<close>, \<open>Scope_Props\<close>, \<open>Threading_Props\<close>, \<open>Mail_Props\<close>, \<open>Driver_Props\<close>, \<open>Mailbox_Props\<close>, \<open>Read_Props\<close>,
    \<open>Time_Props\<close>, \<open>Message_Props\<close>, \<open>Sync_Props\<close>, \<open>Stream_Props\<close>,
    \<open>Codec_Props\<close>, \<open>Http_Props\<close>, \<open>Recurrence_Props\<close>, \<open>Scheduling_Props\<close> and this theory: the properties, with the places
    where the code and its documentation part.

  \<^bold>\<open>Bounds.\<close> The wait for a busy resource polls until the deadline and is a partial function: it returns
  when the clock passes the deadline at some poll, which is proved. The folder walk and the search for a free
  name are bounded by the listing, as in the code. A sync pass starts over at most three times, as in the
  code, so its loops end. The loops of a recurrence rule are partial functions as well: each of their steps
  moves on in a calendar that ends, so they return, and \<open>Recurrence_Total\<close> says when they do not run into its
  end. The one addition that can overflow on the way is excluded by \<open>interval_fits\<close> and shown apart.

  \<^bold>\<open>Not modelled.\<close> The people index, recipient coverage, contact availability and photos of \<open>Inner\<close>; the
  calendar and contact passes and the fan-out over an account's folders; the persistent store (SQL), the adapters' wire protocols, the formats they
  parse, the text of recurrence rules, search, and command lines.
\<close>

section \<open>Fencing\<close>

text \<open>
  C5. A worker whose lease on an op has been superseded settles nothing: in every history of the store in
  which the same op was leased again later, marking an outcome or handing the message over under the first
  lease is refused as stale and renewing it does not succeed, and none of them changes the state. The
  bound keeps the generation, a \<open>u64\<close> a command bumps at most twice, from wrapping.
\<close>
theorem superseded_op_lease:
  assumes "history padd tr h s" and "2 * length h < 2 ^ 64" and "i < j" and "j < length h"
    and "l \<in> set (minted_ops (snd (h ! i)))" and "l' \<in> set (minted_ops (snd (h ! j)))"
    and "ol_op l = ol_op l'"
  shows "mark padd now l out s = (Inl StaleLease, s) \<and> hand_over l s = (Inl StaleLease, s) \<and>
    fst (renew padd now l ttl s) \<noteq> Inr () \<and> snd (renew padd now l ttl s) = s"
  using superseded_mark [OF assms, of now out] superseded_token(2) [OF assms] stale_hold by blast

theorem superseded_op_lease_witness:
  "let (h, s) = run_sample (script_leased_twice MailEdit);
       l = hd (minted_ops (snd (h ! 1))); l' = hd (minted_ops (snd (h ! 3)))
   in ol_op l = ol_op l' \<and> mark pdt_add_ref (secs 121) l (OSucceeded ''k'') s = (Inl StaleLease, s)"
proof -
  let ?h = "fst (run_sample (script_leased_twice MailEdit))"
  let ?l = "hd (minted_ops (snd (?h ! 1)))" and ?l' = "hd (minted_ops (snd (?h ! 3)))"
  have "case run_sample (script_leased_twice MailEdit) of (h, s) \<Rightarrow> 2 * length h < 2 ^ 64 \<and> 3 < length h \<and>
      hd (minted_ops (snd (h ! 1))) \<in> set (minted_ops (snd (h ! 1))) \<and> hd (minted_ops (snd (h ! 3))) \<in> set (minted_ops (snd (h ! 3))) \<and>
      ol_op (hd (minted_ops (snd (h ! 1)))) = ol_op (hd (minted_ops (snd (h ! 3))))"
    by code_simp
  then have "2 * length ?h < 2 ^ 64" "3 < length ?h" "?l \<in> set (minted_ops (snd (?h ! 1)))"
    "?l' \<in> set (minted_ops (snd (?h ! 3)))" and same: "ol_op ?l = ol_op ?l'"
    unfolding case_prod_beta by blast+
  from superseded_op_lease [OF run_script_history this(1) _ this(2-5), of "secs 121" "OSucceeded ''k''"] same
  show ?thesis by (simp add: case_prod_beta Let_def)
qed

text \<open>
  C6. A sync run whose scope lease has been superseded writes nothing: in every history in which the scope
  was claimed again later, an apply, a maintenance write, a window change and a forget under the first
  lease are refused as stale, a release is ignored and a renewal does not succeed, and the state is
  unchanged.
\<close>
theorem superseded_scope_lease:
  fixes h :: "('v, 'o, 'p) history"
  assumes "history padd tr h s" and "length h < 2 ^ 64" and "i < j" and "j < length h"
    and "l \<in> set (minted_sync (snd (h ! i)))" and "l' \<in> set (minted_sync (snd (h ! j)))"
    and "sy_scope l = sy_scope l'"
  shows "apply_sync_update padd now tr l b s = (Inl StaleLease, s) \<and>
    apply_maintenance l d s = (Inl StaleLease, s) \<and> set_expansion_window l w s = (Inl StaleLease, s) \<and>
    forget_scope_under l s = (Inl StaleLease, s) \<and> release_scope l s = s \<and>
    fst (renew_scope padd now l ttl s) \<noteq> Inr () \<and> snd (renew_scope padd now l ttl s) = s"
proof -
  have "sy_token l \<noteq> scope_gen (in_scopes s) (sy_scope l)"
    using scope_lease.run_superseded [OF history_scope_run [OF assms(1)], of i j l l'] assms(2-7) by auto
  then have stale: "current_cell l s = None"
    by (auto simp: current_cell_None scope_gen_def)
  then have "fst (renew_scope padd now l ttl s) \<noteq> Inr ()"
    by (auto simp: current_cell_None renew_scope_def split: option.splits)
  with stale show ?thesis by (simp add: stale_apply stale_others)
qed

theorem superseded_scope_lease_witness:
  "let (h, s) = run_sample script_claimed_twice; l = hd (minted_sync (snd (h ! 0)))
   in apply_sync_update pdt_add_ref (secs 21) plain_object l sample_batch s = (Inl StaleLease, s) \<and>
     set_expansion_window l sample_window s = (Inl StaleLease, s)"
proof -
  let ?h = "fst (run_sample script_claimed_twice)"
  let ?l = "hd (minted_sync (snd (?h ! 0)))" and ?l' = "hd (minted_sync (snd (?h ! 1)))"
  have "case run_sample script_claimed_twice of (h, s) \<Rightarrow> length h < 2 ^ 64 \<and> 1 < length h \<and>
      hd (minted_sync (snd (h ! 0))) \<in> set (minted_sync (snd (h ! 0))) \<and> hd (minted_sync (snd (h ! 1))) \<in> set (minted_sync (snd (h ! 1))) \<and>
      sy_scope (hd (minted_sync (snd (h ! 0)))) = sy_scope (hd (minted_sync (snd (h ! 1))))"
    by code_simp
  then have "length ?h < 2 ^ 64" "1 < length ?h" "?l \<in> set (minted_sync (snd (?h ! 0)))"
    "?l' \<in> set (minted_sync (snd (?h ! 1)))" "sy_scope ?l = sy_scope ?l'"
    unfolding case_prod_beta by blast+
  from superseded_scope_lease [OF run_script_history this(1) zero_less_one this(2-5), of "secs 21" sample_batch
      derived_empty sample_window "StdDuration 10 0"]
  show ?thesis by (simp add: case_prod_beta Let_def)
qed

text \<open>
  However many leases of a scope were handed out, at most one is current: two leases of one scope
  that both carry the scope's generation are the same lease.
\<close>
theorem one_current_scope_lease:
  fixes h :: "('v, 'o, 'p) history"
  assumes "history padd tr h s" and "length h < 2 ^ 64"
    and "l \<in> set (minted_sync (snd x))" "x \<in> set h" and "l' \<in> set (minted_sync (snd y))" "y \<in> set h"
    and "sy_scope l = sy_scope l'" and "current_cell l s \<noteq> None" and "current_cell l' s \<noteq> None"
  shows "l = l'"
proof -
  obtain i j where ij: "i < length h" "h ! i = x" "j < length h" "h ! j = y"
    using assms(4,6) by (auto simp: in_set_conv_nth)
  have "sy_token l = scope_gen (in_scopes s) (sy_scope l)" "sy_token l' = scope_gen (in_scopes s) (sy_scope l')"
    using assms(8,9) by (auto simp: current_cell_def scope_gen_def split: option.splits if_splits)
  then show ?thesis
    using scope_lease.run_current_unique [OF history_scope_run [OF assms(1)], of i j l l'] assms ij by auto
qed

theorem one_current_scope_lease_witness:
  "let (h, s) = run_sample script_claimed_twice; l = hd (minted_sync (snd (h ! 1)))
   in current_cell l s \<noteq> None \<and>
     (\<forall>l'. l' \<in> set (minted_sync (snd (h ! 1))) \<and> sy_scope l' = sy_scope l \<and> current_cell l' s \<noteq> None \<longrightarrow> l' = l)"
proof -
  let ?h = "fst (run_sample script_claimed_twice)" and ?s = "snd (run_sample script_claimed_twice)"
  let ?l = "hd (minted_sync (snd (?h ! 1)))"
  have "case run_sample script_claimed_twice of (h, s) \<Rightarrow> length h < 2 ^ 64 \<and> 1 < length h \<and>
      hd (minted_sync (snd (h ! 1))) \<in> set (minted_sync (snd (h ! 1))) \<and> current_cell (hd (minted_sync (snd (h ! 1)))) s \<noteq> None"
    by code_simp
  then have "length ?h < 2 ^ 64" and l: "?l \<in> set (minted_sync (snd (?h ! 1)))" and x: "1 < length ?h"
    and cur: "current_cell ?l ?s \<noteq> None"
    unfolding case_prod_beta by blast+
  from one_current_scope_lease [OF run_script_history this(1) _ nth_mem [OF x] l nth_mem [OF x]] cur
  show ?thesis by (simp add: case_prod_beta Let_def)
qed

section \<open>Sending at most once\<close>

text \<open>
  C7. A message that was handed to the server is not submitted again by itself. Once a worker has recorded
  the hand-over of a send, no later claim leases that op until either a worker's report that the attempt
  failed is accepted for it or the host confirms that it was not delivered; until then the op is in
  flight, waiting for confirmation, or done.
\<close>
theorem handed_over_send_not_leased_again:
  assumes "history padd tr h1 s1" and "hand_over l s1 = (Inr (), s1')"
    and "hm_get (in_ops s1) (ol_op l) = Some c" and "po_kind (oc_op c) = MailSubmit"
    and "steps padd tr s1' h s2" and "length (h1 @ h) < 2 ^ 64 - 2"
    and "\<not> list_ex (releases_op (ol_op l)) h"
  shows "(\<forall>x \<in> set h. \<forall>l' \<in> set (minted_ops (snd x)). ol_op l' \<noteq> ol_op l) \<and>
    (\<exists>c'. hm_get (in_ops s2) (ol_op l) = Some c' \<and> oc_state c' \<in> {InFlight, NeedsConfirmation, Succeeded})"
proof -
  let ?c = "c\<lparr>oc_handed_over := Some (ol_token l)\<rparr>"
  have out: "hm_get (in_ops s1') (ol_op l) = Some ?c" "send_is_out ?c"
    using hand_over_out [OF assms(2)] assms(3) by auto
  have len: "length ((h1 @ [(CHandOver l, RUnit (Inr ()))]) @ h) < 2 ^ 64 - 1" using assms(6) by simp
  have "(\<exists>c'. hm_get (in_ops s2) (ol_op l) = Some c' \<and> po_kind (oc_op c') = MailSubmit \<and> send_is_out c') \<and>
      (\<forall>l' \<in> minted_before h. ol_op l' \<noteq> ol_op l)"
    by (rule send_not_released [OF assms(5) hand_over_history [OF assms(1,2)] len out(1)])
      (use assms(4,7) out(2) in simp_all)
  then show ?thesis by (auto simp: minted_before_def send_is_out_def)
qed

theorem handed_over_send_not_leased_again_witness:
  "let (h1, s1) = run_sample script_send; l = hd (minted_ops (snd (h1 ! 1)));
       s1' = snd (hand_over l s1);
       (h, s2) = run_script pdt_add_ref plain_object script_after_send s1'
   in \<forall>x \<in> set h. \<forall>l' \<in> set (minted_ops (snd x)). ol_op l' \<noteq> ol_op l"
proof -
  let ?h1 = "fst (run_sample script_send)" and ?s1 = "snd (run_sample script_send)"
  let ?l = "hd (minted_ops (snd (?h1 ! 1)))"
  let ?s1' = "snd (hand_over ?l ?s1)"
  let ?h = "fst (run_script pdt_add_ref plain_object script_after_send ?s1')"
  have "case run_sample script_send of (h1, s1) \<Rightarrow> (case hd (minted_ops (snd (h1 ! 1))) of l \<Rightarrow>
      hm_get (in_ops s1) (ol_op l) \<noteq> None \<and> po_kind (oc_op (the (hm_get (in_ops s1) (ol_op l)))) = MailSubmit \<and>
      fst (hand_over l s1) = Inr () \<and>
      (case run_script pdt_add_ref plain_object script_after_send (snd (hand_over l s1)) of (h, s2) \<Rightarrow>
         length (h1 @ h) < 2 ^ 64 - 2 \<and> \<not> list_ex (releases_op (ol_op l)) h))"
    by code_simp
  then have "hm_get (in_ops ?s1) (ol_op ?l) \<noteq> None" "fst (hand_over ?l ?s1) = Inr ()"
    "length (?h1 @ ?h) < 2 ^ 64 - 2" "\<not> list_ex (releases_op (ol_op ?l)) ?h"
    "po_kind (oc_op (the (hm_get (in_ops ?s1) (ol_op ?l)))) = MailSubmit"
    unfolding case_prod_beta by blast+
  then have facts: "hm_get (in_ops ?s1) (ol_op ?l) = Some (the (hm_get (in_ops ?s1) (ol_op ?l)))"
    "hand_over ?l ?s1 = (Inr (), ?s1')" "length (?h1 @ ?h) < 2 ^ 64 - 2"
    "\<not> list_ex (releases_op (ol_op ?l)) ?h"
    "po_kind (oc_op (the (hm_get (in_ops ?s1) (ol_op ?l)))) = MailSubmit"
    by (auto simp: prod_eq_iff)
  from handed_over_send_not_leased_again [OF run_script_history facts(2,1,5) run_script_steps facts(3,4)]
  show ?thesis by (simp add: case_prod_beta Let_def)
qed

text \<open>
  C18. Any other write is attempted a bounded number of times. Whatever workers crash, whatever answers come
  back and whatever the host does, short of confirming a non-delivery that only an ambiguous write can
  have, an op that is not a send is leased at most eight times.
\<close>
theorem write_attempts_bounded:
  assumes "history padd tr h s" and "length h < 2 ^ 64 - 1" and "hm_get (in_ops s) i = Some c"
    and "po_kind (oc_op c) \<noteq> MailSubmit" and "\<not> list_ex (confirms_undelivered i) h"
  shows "times_leased h i \<le> 8"
proof -
  have "case hm_get (in_ops s) i of None \<Rightarrow> times_leased h i = 0 | Some c \<Rightarrow> attempts_paid (times_leased h i) c"
    by (rule history_attempts [OF assms(1,2,5)]) (use assms(3,4) in simp)
  with assms(3) show ?thesis by (simp add: attempts_paid_def max_attempts_def)
qed

theorem write_attempts_bounded_witness:
  "let (h, s) = run_sample (script_leased_twice MailEdit) in times_leased h 0 = 2 \<and> times_leased h 0 \<le> 8"
proof -
  let ?h = "fst (run_sample (script_leased_twice MailEdit))" and ?s = "snd (run_sample (script_leased_twice MailEdit))"
  have "case run_sample (script_leased_twice MailEdit) of (h, s) \<Rightarrow> times_leased h 0 = 2 \<and> length h < 2 ^ 64 - 1 \<and>
      hm_get (in_ops s) 0 \<noteq> None \<and> \<not> list_ex (confirms_undelivered 0) h \<and> po_kind (oc_op (the (hm_get (in_ops s) 0))) \<noteq> MailSubmit"
    by code_simp
  then have two: "times_leased ?h 0 = 2" and "length ?h < 2 ^ 64 - 1" "hm_get (in_ops ?s) 0 \<noteq> None" "\<not> list_ex (confirms_undelivered 0) ?h"
    "po_kind (oc_op (the (hm_get (in_ops ?s) 0))) \<noteq> MailSubmit"
    unfolding case_prod_beta by blast+
  from this(2-) have "times_leased ?h 0 \<le> 8" using write_attempts_bounded [OF run_script_history] by (metis option.collapse)
  with two show ?thesis by (simp add: case_prod_beta Let_def)
qed

section \<open>The outbox in every history\<close>

text \<open>
  C14. The outbox is consistent in every history: its ops are in id order below the next id, each has a
  well-formed cell and its own idempotency key, every key names an op, and no two ops in flight share an
  account and a resource.
\<close>
theorem outbox_invariant:
  assumes "history padd tr h s" and "length h < 2 ^ 64 - 1"
  shows "outbox_inv s"
  using history_outbox [OF assms] by simp

theorem outbox_invariant_witness: "outbox_inv (snd (run_sample (script_leased_twice MailSubmit)))"
proof -
  have "length (fst (run_sample (script_leased_twice MailSubmit))) < 2 ^ 64 - 1" by code_simp
  from outbox_invariant [OF run_script_history this] show ?thesis .
qed

text \<open>
  C15. The store implements the op machine. Every command takes every op that was queued along a path of the
  machine's steps, of the events that command and its answer admit for that op; it leases the op exactly when
  the answer hands out its lease, and bumps its generation at most twice. No command drops an op or changes
  its account or content.
\<close>
theorem command_refines_op_machine:
  assumes "exec padd tr now cmd s = (resp, s')" and "outbox_inv s" and "hm_get (in_ops s) i = Some c"
  shows "\<exists>es c'. hm_get (in_ops s') i = Some c' \<and> op_path padd es c c' \<and> set es \<subseteq> op_events (cmd, resp) i \<and>
    lease_count es = op_leased resp i \<and> bump_count es \<le> 2 \<and> oc_account c' = oc_account c \<and> oc_op c' = oc_op c"
proof -
  obtain es c' where "hm_get (in_ops s') i = Some c'" "op_path padd es c c'" "set es \<subseteq> op_events (cmd, resp) i"
    "lease_count es = op_leased resp i" "bump_count es \<le> 2"
    by (rule exec_op_path [OF assms])
  with op_path_keeps [of padd es c c'] show ?thesis by blast
qed

theorem command_refines_op_machine_witness:
  "let s = snd (run_sample script_send); cmd = CHandOver (hd (minted_ops (snd (fst (run_sample script_send) ! 1))));
       (resp, s') = exec pdt_add_ref plain_object (secs 2) cmd s
   in \<exists>es c c'. hm_get (in_ops s') 0 = Some c' \<and> op_path pdt_add_ref es c c' \<and> set es \<subseteq> op_events (cmd, resp) 0"
proof -
  let ?s = "snd (run_sample script_send)"
  let ?cmd = "CHandOver (hd (minted_ops (snd (fst (run_sample script_send) ! 1)))) ::
    (string, string \<times> string, unit) command"
  have "length (fst (run_sample script_send)) < 2 ^ 64 - 1" "hm_get (in_ops ?s) 0 \<noteq> None" by code_simp+
  then obtain c where "outbox_inv ?s" "hm_get (in_ops ?s) 0 = Some c"
    using history_outbox [OF run_script_history] by blast
  from command_refines_op_machine [OF prod.collapse [symmetric, of "exec pdt_add_ref plain_object (secs 2) ?cmd ?s"] this]
  show ?thesis by (auto simp: case_prod_beta Let_def)
qed

text \<open>
  A settled op is not final for the worker that settled it. The lease under which an op was marked
  succeeded stays current, and a second mark under it is accepted: here it puts a succeeded write back on
  the queue, to be leased again.
\<close>
theorem settled_write_reopened:
  "let (h, s) = run_sample script_send; l = hd (minted_ops (snd (h ! 1)));
       (r1, s1) = mark pdt_add_ref (secs 2) l (OSucceeded ''k'') s;
       (r2, s2) = mark pdt_add_ref (secs 3) l (OFailed Retryable None) s1
   in r1 = Inr () \<and> map_option oc_state (hm_get (in_ops s1) 0) = Some Succeeded \<and>
     r2 = Inr () \<and> map_option oc_state (hm_get (in_ops s2) 0) = Some Pending"
  by code_simp

end
